(* ===== verification/Prelude.thy ===== *)
theory Prelude
  imports Main "HOL-Library.Word" "HOL-Library.Multiset"
begin

text \<open>
  Shared vocabulary of the development: the machine integer types of the C++ sources, the
  result type of the fallible routines, the numeric limits the code tests against, and the
  generic facts on words, bit masks and lists that several components use.

  Conventions.  \<open>std::uint8_t\<close> to \<open>std::uint64_t\<close> are words of their width, so that
  \<open>+\<close> wraps as in C++.  \<open>std::size_t\<close> (64 bit on the supported platform) is \<open>nat\<close>; every
  overflow test of the source against \<open>SIZE_MAX\<close> is written out.  \<open>std::int32_t\<close> and
  \<open>std::int64_t\<close> values are \<open>int\<close>, read off a word with \<open>sint\<close>, so a signed overflow
  (undefined in C++) would be visible as a value outside the range.
\<close>

unbundle bit_operations_syntax

type_synonym u8 = "8 word"
type_synonym u16 = "16 word"
type_synonym u32 = "32 word"
type_synonym u64 = "64 word"
type_synonym byte = u8

named_theorems result_simps \<open>unfolding of the result combinators\<close>
named_theorems step_defs \<open>definitions of the operations of a component\<close>
named_theorems inv_intros \<open>preservation of the component invariants\<close>

section \<open>Numeric limits\<close>

definition SIZE_MAX :: nat where
  "SIZE_MAX = 18446744073709551615"

definition U32_MAX :: nat where
  "U32_MAX = 4294967295"

definition I64_MAX :: int where
  "I64_MAX = 9223372036854775807"

definition I64_MIN :: int where
  "I64_MIN = - 9223372036854775808"

definition I32_MIN :: int where
  "I32_MIN = - 2147483648"

abbreviation U64_MAX :: u64 where
  "U64_MAX \<equiv> 18446744073709551615"

definition in_i64 :: "int \<Rightarrow> bool" where
  "in_i64 x \<longleftrightarrow> I64_MIN \<le> x \<and> x \<le> I64_MAX"

lemma SIZE_MAX_eq: "SIZE_MAX = 2 ^ 64 - 1"
  by (simp add: SIZE_MAX_def)

lemma U64_MAX_unat [simp]: "unat U64_MAX = SIZE_MAX"
  by (simp add: SIZE_MAX_def)

lemma unat_less_2_64: "unat (w :: u64) < 18446744073709551616"
proof -
  have "unat w < 2 ^ LENGTH(64)" by (rule unsigned_less)
  then show ?thesis by simp
qed

lemma unat_le_SIZE_MAX [simp]: "unat (w :: u64) \<le> SIZE_MAX"
  using unat_less_2_64 [of w] by (simp add: SIZE_MAX_def)

lemma le_U64_MAX [simp]: "(w :: u64) \<le> U64_MAX"
  by (simp only: word_le_nat_alt U64_MAX_unat unat_le_SIZE_MAX)

section \<open>Results: an error code or a value\<close>

definition rbind :: "'e + 'a \<Rightarrow> ('a \<Rightarrow> 'e + 'b) \<Rightarrow> 'e + 'b" where
  "rbind m f = (case m of Inl e \<Rightarrow> Inl e | Inr x \<Rightarrow> f x)"

lemma rbind_simps [simp, result_simps]:
  "rbind (Inl e) f = Inl e"
  "rbind (Inr x) f = f x"
  by (simp_all add: rbind_def)

lemma rbind_Inr_iff:
  "rbind m f = Inr y \<longleftrightarrow> (\<exists>x. m = Inr x \<and> f x = Inr y)"
  by (cases m) auto

lemma rbind_Inl_iff:
  "rbind m f = Inl e \<longleftrightarrow> m = Inl e \<or> (\<exists>x. m = Inr x \<and> f x = Inl e)"
  by (cases m) auto

lemma rbind_InrE [elim!]:
  assumes "rbind m f = Inr y"
  obtains x where "m = Inr x" and "f x = Inr y"
  using assms by (auto simp: rbind_Inr_iff)

section \<open>Power-of-two masks\<close>

lemma nat_and_mask:
  fixes n :: nat
  shows "n AND (2 ^ k - 1) = n mod 2 ^ k"
  by (metis mask_eq_exp_minus_1 take_bit_eq_mask take_bit_eq_mod)

lemma nat_and_pred_pow2:
  fixes n :: nat
  assumes "c = 2 ^ k"
  shows "n AND (c - 1) = n mod c"
  using assms nat_and_mask by blast

section \<open>Unsigned successor and comparison\<close>

lemma word_succ_greater:
  fixes x :: u64
  assumes "x < y"
  shows "x < x + 1"
  using assms by unat_arith

lemma word_less_succ_le:
  fixes x :: u64
  assumes "x < y"
  shows "x + 1 \<le> y"
  using assms by unat_arith

lemma unat_succ:
  fixes x :: u64
  assumes "x < y"
  shows "unat (x + 1) = Suc (unat x)"
  using assms by unat_arith

lemma unat_pred:
  fixes x :: u64
  assumes "0 < x"
  shows "unat (x - 1) = unat x - 1"
  using assms by unat_arith

lemma unat_diff:
  fixes x :: u64
  assumes "y \<le> x"
  shows "unat (x - y) = unat x - unat y"
  using assms by unat_arith

section \<open>Lists\<close>

lemma length_filter_update:
  assumes "i < length xs" and "P (xs ! i)" and "\<not> P y"
  shows "Suc (length (filter P (xs[i := y]))) = length (filter P xs)"
proof -
  have eq: "xs = take i xs @ xs ! i # drop (Suc i) xs"
    using assms(1) by (simp add: id_take_nth_drop)
  have "xs[i := y] = take i xs @ y # drop (Suc i) xs"
    using assms(1) by (simp add: upd_conv_take_nth_drop)
  then have "length (filter P (xs[i := y]))
      = length (filter P (take i xs)) + length (filter P (drop (Suc i) xs))"
    using assms(3) by simp
  moreover have "length (filter P xs)
      = length (filter P (take i xs)) + Suc (length (filter P (drop (Suc i) xs)))"
    using assms(2) by (subst eq) simp
  ultimately show ?thesis by simp
qed

lemma length_filter_update_add:
  assumes "i < length xs" and "\<not> P (xs ! i)" and "P y"
  shows "length (filter P (xs[i := y])) = Suc (length (filter P xs))"
proof -
  have "Suc (length (filter P ((xs[i := y])[i := xs ! i]))) = length (filter P (xs[i := y]))"
    using assms by (intro length_filter_update) auto
  then show ?thesis by simp
qed

lemma set_update_distinct_index:
  assumes "i < length xs"
  shows "x \<in> set (xs[i := y]) \<longleftrightarrow> x = y \<or> (\<exists>j < length xs. j \<noteq> i \<and> xs ! j = x)"
  using assms by (auto simp: in_set_conv_nth nth_list_update)

lemma row_major_less:
  fixes p w :: nat
  assumes "p < P" and "w < W"
  shows "p * W + w < P * W"
proof -
  have "p * W + w < p * W + W" using assms(2) by simp
  also have "\<dots> = Suc p * W" by simp
  also have "\<dots> \<le> P * W" using assms(1) by (intro mult_le_mono1) simp
  finally show ?thesis .
qed

lemma row_major_eq_iff:
  fixes p w :: nat
  assumes "w < W" and "w' < W"
  shows "p * W + w = p' * W + w' \<longleftrightarrow> p = p' \<and> w = w'"
proof
  assume eq: "p * W + w = p' * W + w'"
  have "(p * W + w) div W = p" "(p' * W + w') div W = p'" using assms by simp_all
  then have "p = p'" using eq by simp
  then show "p = p' \<and> w = w'" using eq by simp
qed simp

lemma mod_shift_surj:
  fixes P :: nat
  assumes "p < P"
  shows "\<exists>j < P. (c + j) mod P = p"
proof (rule exI [of _ "(p + (P - c mod P)) mod P"], rule conjI)
  have "(c + (p + (P - c mod P)) mod P) mod P = (c mod P + (p + (P - c mod P))) mod P"
    by (simp add: mod_simps)
  also have "c mod P + (p + (P - c mod P)) = p + P"
    using assms mod_less_divisor [of P c] by linarith
  finally show "(c + (p + (P - c mod P)) mod P) mod P = p" using assms by simp
qed (use assms in simp)

end
