(* ===== verification/Bytes.thy ===== *)
theory Bytes
  imports Prelude
begin

text \<open>
  Byte-wise little-endian loads: \<open>LoadUnsigned\<close>, \<open>LoadI32\<close> and \<open>LoadI64\<close> of
  \<open>src/decoder.cpp\<close> and \<open>LoadHeaderUnsigned\<close> of \<open>src/engine.cpp\<close>, with the mathematical
  reading of a little-endian byte run (\<open>le_value\<close>) and its inverse (\<open>le_bytes\<close>).
\<close>

section \<open>The loads of the code\<close>

text \<open>
  The loop \<open>for (index = 0; index < sizeof(Unsigned); ++index)\<close>, with \<open>n\<close> octets left:
  each octet is widened, shifted by \<open>index * 8\<close> and or-ed into the value.
\<close>

fun load_octets :: "nat \<Rightarrow> byte list \<Rightarrow> nat \<Rightarrow> nat \<Rightarrow> 'a::len word \<Rightarrow> 'a word" where
  "load_octets 0 body offset index val = val"
| "load_octets (Suc n) body offset index val =
     load_octets n body offset (Suc index)
       (val OR push_bit (index * 8) (ucast (body ! (offset + index))))"

definition LoadUnsigned :: "byte list \<Rightarrow> nat \<Rightarrow> 'a::len word option" where
  "LoadUnsigned body offset =
    (let size = LENGTH('a) div 8 in
     if offset > length body \<or> size > length body - offset then None
     else Some (load_octets size body offset 0 0))"

definition LoadHeaderUnsigned :: "byte list \<Rightarrow> nat \<Rightarrow> 'a::len word option" where
  "LoadHeaderUnsigned bytes offset =
    (let size = LENGTH('a) div 8 in
     if offset > length bytes \<or> size > length bytes - offset then None
     else Some (load_octets size bytes offset 0 0))"

definition LoadI32 :: "byte list \<Rightarrow> nat \<Rightarrow> int option" where
  "LoadI32 body offset = map_option (\<lambda>w :: u32. sint w) (LoadUnsigned body offset)"

definition LoadI64 :: "byte list \<Rightarrow> nat \<Rightarrow> int option" where
  "LoadI64 body offset = map_option (\<lambda>w :: u64. sint w) (LoadUnsigned body offset)"

section \<open>Little-endian values\<close>

fun le_value :: "byte list \<Rightarrow> nat" where
  "le_value [] = 0"
| "le_value (b # bs) = unat b + 256 * le_value bs"

fun le_bytes :: "nat \<Rightarrow> nat \<Rightarrow> byte list" where
  "le_bytes 0 v = []"
| "le_bytes (Suc n) v = of_nat (v mod 256) # le_bytes n (v div 256)"

lemma length_le_bytes [simp]: "length (le_bytes n v) = n"
  by (induction n arbitrary: v) auto

lemma le_value_append: "le_value (xs @ ys) = le_value xs + 256 ^ length xs * le_value ys"
  by (induction xs) (auto simp: algebra_simps)

lemma unat_byte_less: "unat (b :: byte) < 256"
proof -
  have "unat b < 2 ^ LENGTH(8)" by (rule unsigned_less)
  then show ?thesis by simp
qed

lemma le_value_less: "le_value bs < 256 ^ length bs"
proof (induction bs)
  case (Cons b bs)
  then have "Suc (le_value bs) \<le> 256 ^ length bs" by simp
  then have "256 * Suc (le_value bs) \<le> 256 * 256 ^ length bs" by (rule mult_le_mono2)
  then show ?case using unat_byte_less [of b] by simp
qed simp

lemma le_value_le_bytes: "le_value (le_bytes n v) = v mod 256 ^ n"
proof (induction n arbitrary: v)
  case (Suc n)
  have "unat (of_nat (v mod 256) :: byte) = v mod 256"
    by (simp add: unat_of_nat take_bit_eq_mod)
  then show ?case
    by (simp add: Suc.IH mod_mult2_eq [of v 256 "256 ^ n"])
qed simp

lemma nat_or_push_bit:
  fixes a b :: nat
  assumes "a < 2 ^ k"
  shows "a OR push_bit k b = a + b * 2 ^ k"
proof -
  have "a AND push_bit k b = 0"
  proof (rule bit_eqI)
    fix n
    show "bit (a AND push_bit k b) n \<longleftrightarrow> bit (0 :: nat) n"
    proof (cases "n < k")
      case False
      then have "a < 2 ^ n" using assms by (meson less_le_trans one_le_numeral
            power_increasing not_le_imp_less order_less_imp_le less_or_eq_imp_le)
      then have "\<not> bit a n" by (simp add: bit_iff_odd)
      then show ?thesis by (simp add: bit_and_iff)
    qed (simp add: bit_and_iff bit_push_bit_iff)
  qed
  then show ?thesis
    by (simp add: disjunctive_add_eq_or push_bit_eq_mult mult.commute flip: disjunctive_add_eq_or)
qed

lemma or_octet_unat:
  fixes v :: "'a::len word" and b :: byte
  assumes "unat v < 2 ^ (index * 8)" and "index * 8 + 8 \<le> LENGTH('a)"
  shows "unat (v OR push_bit (index * 8) (ucast b)) = unat v + unat b * 2 ^ (index * 8)"
proof -
  have lt: "unat b * 2 ^ (index * 8) < 2 ^ LENGTH('a)"
  proof -
    have "unat b * 2 ^ (index * 8) < 256 * 2 ^ (index * 8)"
      using unat_byte_less [of b] by simp
    also have "\<dots> = 2 ^ (index * 8 + 8)" by (simp add: power_add)
    also have "\<dots> \<le> 2 ^ LENGTH('a)" using assms(2) by (intro power_increasing) auto
    finally show ?thesis .
  qed
  have ub: "unat (ucast b :: 'a word) = unat b"
  proof -
    have "unat b < 2 ^ LENGTH('a)"
    proof -
      have "unat b < 2 ^ 8" using unat_byte_less [of b] by simp
      also have "\<dots> \<le> 2 ^ LENGTH('a)" using assms(2) by (intro power_increasing) auto
      finally show ?thesis .
    qed
    then show ?thesis by (simp add: unsigned_ucast_eq take_bit_nat_eq_self)
  qed
  have "unat (push_bit (index * 8) (ucast b :: 'a word)) = unat b * 2 ^ (index * 8)"
    by (simp only: unsigned_push_bit_eq ub) (simp add: push_bit_eq_mult lt take_bit_nat_eq_self)
  then show ?thesis
    using nat_or_push_bit [OF assms(1), of "unat b"]
    by (simp add: unsigned_or_eq push_bit_eq_mult)
qed

lemma load_octets_unat:
  fixes v :: "'a::len word"
  assumes "unat v < 256 ^ index" and "(index + n) * 8 \<le> LENGTH('a)"
    and "offset + index + n \<le> length body"
  shows "unat (load_octets n body offset index v)
      = unat v + 256 ^ index * le_value (take n (drop (offset + index) body))"
  using assms
proof (induction n arbitrary: index v)
  case (Suc n)
  let ?b = "body ! (offset + index)"
  let ?v = "v OR push_bit (index * 8) (ucast ?b)"
  have p: "(2::nat) ^ (index * 8) = 256 ^ index"
    by (simp add: power_mult mult.commute [of index])
  have v: "unat ?v = unat v + 256 ^ index * unat ?b"
    using Suc.prems by (subst or_octet_unat) (simp_all add: p)
  have "Suc (unat v) + 256 ^ index * unat ?b \<le> 256 ^ index + 256 ^ index * 255"
    using Suc.prems(1) unat_byte_less [of ?b] by (intro add_mono mult_le_mono) auto
  then have lt: "unat ?v < 256 ^ Suc index" using v by simp
  have split: "take (Suc n) (drop (offset + index) body)
      = ?b # take n (drop (offset + Suc index) body)"
    using Suc.prems(3) by (metis Cons_nth_drop_Suc add_Suc_right add_lessD1 less_eq_Suc_le
        take_Suc_Cons add_Suc_shift)
  have "unat (load_octets (Suc n) body offset index v)
      = unat ?v + 256 ^ Suc index * le_value (take n (drop (offset + Suc index) body))"
    using Suc.prems lt by (simp add: Suc.IH del: power_Suc)
  also have "\<dots> = unat v + 256 ^ index * (unat ?b
      + 256 * le_value (take n (drop (offset + Suc index) body)))"
    unfolding v by (simp add: algebra_simps)
  finally show ?case unfolding split by simp
qed simp

lemma LoadUnsigned_None_iff:
  "LoadUnsigned body offset = (None :: 'a::len word option)
     \<longleftrightarrow> length body < offset + LENGTH('a) div 8"
  by (auto simp: LoadUnsigned_def Let_def)

lemma LoadUnsigned_value:
  assumes "LoadUnsigned body offset = Some (w :: 'a::len word)"
  shows "unat w = le_value (take (LENGTH('a) div 8) (drop offset body))"
    and "offset + LENGTH('a) div 8 \<le> length body"
proof -
  have w: "w = load_octets (LENGTH('a) div 8) body offset 0 0"
    and le: "offset + LENGTH('a) div 8 \<le> length body"
    using assms by (auto simp: LoadUnsigned_def Let_def split: if_splits)
  show "unat w = le_value (take (LENGTH('a) div 8) (drop offset body))"
    unfolding w using load_octets_unat [of "0 :: 'a word" 0 "LENGTH('a) div 8" offset body] le
    by simp
  show "offset + LENGTH('a) div 8 \<le> length body" by (rule le)
qed

lemma LoadUnsigned_Some:
  assumes "offset + LENGTH('a::len) div 8 \<le> length body"
  shows "\<exists>w :: 'a word. LoadUnsigned body offset = Some w"
  using assms by (cases "LoadUnsigned body offset :: 'a word option")
    (auto simp: LoadUnsigned_None_iff)

lemma LoadHeaderUnsigned_eq: "LoadHeaderUnsigned = LoadUnsigned"
  by (intro ext) (simp add: LoadHeaderUnsigned_def LoadUnsigned_def)

lemma unat_mod_length: "unat (w :: 'a::len word) mod 2 ^ LENGTH('a) = unat w"
  by (rule mod_less) (rule unsigned_less)

lemma LoadUnsigned_le_bytes:
  assumes "drop offset body = le_bytes (LENGTH('a::len) div 8) (unat (w :: 'a word)) @ rest"
    and "LENGTH('a) mod 8 = 0"
  shows "LoadUnsigned body offset = Some w"
proof -
  let ?n = "LENGTH('a) div 8"
  have n: "?n * 8 = LENGTH('a)" using assms(2) by (metis div_mult_mod_eq add_0_right)
  have len: "offset + ?n \<le> length body"
  proof -
    have "0 < ?n" using n len_gt_0 [where 'a = 'a] by (cases ?n) auto
    have "length (drop offset body) \<ge> ?n" using assms(1) by simp
    then show ?thesis using \<open>0 < ?n\<close> by simp
  qed
  obtain v :: "'a word" where v: "LoadUnsigned body offset = Some v"
    using LoadUnsigned_Some [OF len] by auto
  have "unat v = unat w mod 256 ^ ?n"
    using LoadUnsigned_value(1) [OF v] assms(1) by (simp add: le_value_le_bytes)
  moreover have "(256 :: nat) ^ ?n = 2 ^ LENGTH('a)"
    using power_mult [of "2 :: nat" 8 ?n] n by (simp add: mult.commute)
  ultimately have "unat v = unat w"
    using unat_mod_length [of w] by simp
  then show ?thesis using v by (simp add: word_unat_eq_iff)
qed

lemma in_i64_sint: "in_i64 (sint (w :: u64))"
  using sint_greater_eq [of w] sint_less [of w] by (simp add: in_i64_def I64_MIN_def I64_MAX_def)

lemma LoadI64_Some_range:
  "LoadI64 body offset = Some x \<Longrightarrow> in_i64 x"
  by (auto simp: LoadI64_def in_i64_sint)

lemma LoadI64_None_iff: "LoadI64 body offset = None \<longleftrightarrow> length body < offset + 8"
  by (simp add: LoadI64_def LoadUnsigned_None_iff)

lemma LoadI32_None_iff: "LoadI32 body offset = None \<longleftrightarrow> length body < offset + 4"
  by (simp add: LoadI32_def LoadUnsigned_None_iff)

end
