(* ===== verification/Message.thy ===== *)
theory Message
  imports Bytes
begin

text \<open>
  Component \<open>include/l2flow/ingest/message.h\<close>, with the header parser of \<open>src/engine.cpp\<close>:
  the message tuples, the stream mask, the message classes, the admission results and
  \<open>ParseMdlHeader\<close>.
\<close>

section \<open>Message keys and classes\<close>

record MessageKey =
  service_id :: u8
  service_version :: u16
  message_id :: u16

definition mk_key :: "u8 \<Rightarrow> u16 \<Rightarrow> u16 \<Rightarrow> MessageKey" where
  "mk_key s v m = \<lparr>service_id = s, service_version = v, message_id = m\<rparr>"

definition kMdlHeaderBytes :: nat where
  "kMdlHeaderBytes = 23"

definition kBinaryEncoding :: u8 where
  "kBinaryEncoding = 1"

definition kSupportedMessageKeys :: "MessageKey list" where
  "kSupportedMessageKeys =
    [mk_key 4 101 4, mk_key 4 101 24, mk_key 6 101 28, mk_key 6 101 33, mk_key 6 101 36]"

type_synonym StreamMask = u32

definition kSupportedStreamMask :: StreamMask where
  "kSupportedStreamMask = push_bit (length kSupportedMessageKeys) 1 - 1"

definition kDefaultAShareL2StreamMask :: StreamMask where
  "kDefaultAShareL2StreamMask = kSupportedStreamMask"

datatype MessageClass =
    MessageClass_kShanghaiSnapshot
  | MessageClass_kShanghaiTick
  | MessageClass_kShenzhenSnapshot
  | MessageClass_kShenzhenOrder
  | MessageClass_kShenzhenTransaction
  | MessageClass_kUnsupported

text \<open>The index loop of \<open>StreamBit\<close>: the bit of the first supported key that is equal.\<close>

fun StreamBit_loop :: "MessageKey list \<Rightarrow> nat \<Rightarrow> MessageKey \<Rightarrow> StreamMask" where
  "StreamBit_loop [] index key = 0"
| "StreamBit_loop (k # ks) index key =
     (if k = key then push_bit index 1 else StreamBit_loop ks (Suc index) key)"

definition StreamBit :: "MessageKey \<Rightarrow> StreamMask" where
  "StreamBit key = StreamBit_loop kSupportedMessageKeys 0 key"

definition StreamEnabled :: "StreamMask \<Rightarrow> MessageKey \<Rightarrow> bool" where
  "StreamEnabled streams key = (let bit = StreamBit key in bit \<noteq> 0 \<and> streams AND bit \<noteq> 0)"

definition ClassifyMessage :: "MessageKey \<Rightarrow> MessageClass" where
  "ClassifyMessage key =
    (if key = mk_key 4 101 4 then MessageClass_kShanghaiSnapshot
     else if key = mk_key 4 101 24 then MessageClass_kShanghaiTick
     else if key = mk_key 6 101 28 then MessageClass_kShenzhenSnapshot
     else if key = mk_key 6 101 33 then MessageClass_kShenzhenOrder
     else if key = mk_key 6 101 36 then MessageClass_kShenzhenTransaction
     else MessageClass_kUnsupported)"

section \<open>Headers and admission results\<close>

record ParsedHeader =
  head_size :: u8
  message_size :: u32
  encoding :: u8
  hdr_key :: MessageKey
  local_time_raw :: u32
  vendor_sequence_id :: u64

datatype AdmissionResult =
    kAccepted
  | kNotRunning
  | kConcurrentCallback
  | kNullMessage
  | kHeaderTruncated
  | kHeaderInvalid
  | kBodySizeMismatch
  | kNonBinaryEncoding
  | kUnsupportedMessage
  | kDisabledMessage
  | kBodyTruncated
  | kBodyTooLarge
  | kRouteInvalid
  | kLaneFull
  | kInternalFailure

fun AdmissionResultName :: "AdmissionResult \<Rightarrow> string" where
  "AdmissionResultName kAccepted = ''accepted''"
| "AdmissionResultName kNotRunning = ''not_running''"
| "AdmissionResultName kConcurrentCallback = ''concurrent_callback''"
| "AdmissionResultName kNullMessage = ''null_message''"
| "AdmissionResultName kHeaderTruncated = ''header_truncated''"
| "AdmissionResultName kHeaderInvalid = ''header_invalid''"
| "AdmissionResultName kBodySizeMismatch = ''body_size_mismatch''"
| "AdmissionResultName kNonBinaryEncoding = ''non_binary_encoding''"
| "AdmissionResultName kUnsupportedMessage = ''unsupported_message''"
| "AdmissionResultName kDisabledMessage = ''disabled_message''"
| "AdmissionResultName kBodyTruncated = ''body_truncated''"
| "AdmissionResultName kBodyTooLarge = ''body_too_large''"
| "AdmissionResultName kRouteInvalid = ''route_invalid''"
| "AdmissionResultName kLaneFull = ''lane_full''"
| "AdmissionResultName kInternalFailure = ''internal_failure''"

text \<open>
  The \<open>||\<close> chain of \<open>ParseMdlHeader\<close>: every load must succeed, in the order of the code.
\<close>

definition ParseMdlHeader :: "byte list \<Rightarrow> ParsedHeader option" where
  "ParseMdlHeader bytes =
    (if length bytes < kMdlHeaderBytes then None
     else Option.bind (LoadHeaderUnsigned bytes 0) (\<lambda>hs :: u8.
       Option.bind (LoadHeaderUnsigned bytes 1) (\<lambda>ms :: u32.
       Option.bind (LoadHeaderUnsigned bytes 5) (\<lambda>enc :: u8.
       Option.bind (LoadHeaderUnsigned bytes 6) (\<lambda>sid :: u8.
       Option.bind (LoadHeaderUnsigned bytes 7) (\<lambda>ver :: u16.
       Option.bind (LoadHeaderUnsigned bytes 9) (\<lambda>mid :: u16.
       Option.bind (LoadHeaderUnsigned bytes 11) (\<lambda>lt :: u32.
       Option.bind (LoadHeaderUnsigned bytes 15) (\<lambda>seq :: u64.
         Some \<lparr>head_size = hs, message_size = ms, encoding = enc,
           hdr_key = \<lparr>service_id = sid, service_version = ver, message_id = mid\<rparr>,
           local_time_raw = lt, vendor_sequence_id = seq\<rparr>)))))))))"

section \<open>Facts about keys and masks\<close>

lemma StreamBit_supported:
  "StreamBit key \<noteq> 0 \<longleftrightarrow> key \<in> set kSupportedMessageKeys"
  by (simp add: StreamBit_def kSupportedMessageKeys_def)

lemma kSupportedStreamMask_val [simp]: "kSupportedStreamMask = 31"
  by (simp add: kSupportedStreamMask_def kSupportedMessageKeys_def)

lemma supported_keys_cases:
  assumes "k \<in> set kSupportedMessageKeys"
  obtains "k = mk_key 4 101 4" | "k = mk_key 4 101 24" | "k = mk_key 6 101 28"
    | "k = mk_key 6 101 33" | "k = mk_key 6 101 36"
  using assms by (auto simp: kSupportedMessageKeys_def)

lemma StreamBit_values:
  "StreamBit (mk_key 4 101 4) = 1" "StreamBit (mk_key 4 101 24) = 2"
  "StreamBit (mk_key 6 101 28) = 4" "StreamBit (mk_key 6 101 33) = 8"
  "StreamBit (mk_key 6 101 36) = 16"
  by (simp_all add: StreamBit_def kSupportedMessageKeys_def mk_key_def)

lemma StreamBit_table:
  "\<forall>a \<in> set kSupportedMessageKeys. StreamBit a AND 31 = StreamBit a"
  "\<forall>a \<in> set kSupportedMessageKeys. \<forall>b \<in> set kSupportedMessageKeys.
     a = b \<or> StreamBit a \<noteq> StreamBit b"
  "\<forall>a \<in> set kSupportedMessageKeys. \<forall>b \<in> set kSupportedMessageKeys.
     a = b \<or> StreamBit a AND StreamBit b = 0"
  unfolding kSupportedMessageKeys_def by (simp_all add: StreamBit_values)

lemma StreamBit_inj:
  assumes "k \<in> set kSupportedMessageKeys" and "StreamBit k' = StreamBit k"
  shows "k' = k"
proof -
  have "k' \<in> set kSupportedMessageKeys"
    using assms StreamBit_supported by metis
  with assms show ?thesis using StreamBit_table(2) by metis
qed

lemma StreamBit_in_mask: "StreamBit k AND kSupportedStreamMask = StreamBit k"
  unfolding kSupportedStreamMask_val
proof (cases "k \<in> set kSupportedMessageKeys")
  case True
  then show "StreamBit k AND 31 = StreamBit k" using StreamBit_table(1) by blast
next
  case False
  then have "StreamBit k = 0" using StreamBit_supported [of k] by blast
  then show "StreamBit k AND 31 = StreamBit k" by simp
qed

lemma StreamBit_disjoint:
  assumes "k \<noteq> k'"
  shows "StreamBit k AND StreamBit k' = 0"
proof (cases "k \<in> set kSupportedMessageKeys \<and> k' \<in> set kSupportedMessageKeys")
  case True
  then show ?thesis using assms StreamBit_table(3) by blast
next
  case False
  then have "StreamBit k = 0 \<or> StreamBit k' = 0" using StreamBit_supported by blast
  then show ?thesis by auto
qed

lemma ClassifyMessage_supported:
  "ClassifyMessage key \<noteq> MessageClass_kUnsupported \<longleftrightarrow> key \<in> set kSupportedMessageKeys"
  by (auto simp: ClassifyMessage_def kSupportedMessageKeys_def)

section \<open>The header layout\<close>

text \<open>The 23 packed bytes of a header, as the vendor ABI lays the fields out.\<close>

definition header_bytes :: "ParsedHeader \<Rightarrow> byte list" where
  "header_bytes h =
     le_bytes 1 (unat (head_size h)) @ le_bytes 4 (unat (message_size h)) @
     le_bytes 1 (unat (encoding h)) @ le_bytes 1 (unat (service_id (hdr_key h))) @
     le_bytes 2 (unat (service_version (hdr_key h))) @ le_bytes 2 (unat (message_id (hdr_key h))) @
     le_bytes 4 (unat (local_time_raw h)) @ le_bytes 8 (unat (vendor_sequence_id h))"

lemma length_header_bytes [simp]: "length (header_bytes h) = kMdlHeaderBytes"
  by (simp add: header_bytes_def kMdlHeaderBytes_def)

lemma ParseMdlHeader_None_iff: "ParseMdlHeader bytes = None \<longleftrightarrow> length bytes < kMdlHeaderBytes"
proof
  assume *: "ParseMdlHeader bytes = None"
  show "length bytes < kMdlHeaderBytes"
  proof (rule ccontr)
    assume "\<not> length bytes < kMdlHeaderBytes"
    with * show False
      by (auto simp: ParseMdlHeader_def LoadHeaderUnsigned_eq bind_eq_None_conv
          LoadUnsigned_None_iff kMdlHeaderBytes_def)
  qed
qed (simp add: ParseMdlHeader_def)

lemma LoadHeaderUnsigned_field:
  assumes "length pre = offset"
    and "LENGTH('a::len) mod 8 = 0"
  shows "LoadHeaderUnsigned (pre @ le_bytes (LENGTH('a) div 8) (unat (w :: 'a word)) @ rest) offset
    = Some w"
  unfolding LoadHeaderUnsigned_eq
  by (rule LoadUnsigned_le_bytes [where rest = rest]) (use assms in auto)

lemma ParseMdlHeader_header_bytes: "ParseMdlHeader (header_bytes h @ rest) = Some h"
proof -
  note f = LoadHeaderUnsigned_field
  let ?hs = "le_bytes 1 (unat (head_size h))" and ?ms = "le_bytes 4 (unat (message_size h))"
  let ?en = "le_bytes 1 (unat (encoding h))" and ?si = "le_bytes 1 (unat (service_id (hdr_key h)))"
  let ?sv = "le_bytes 2 (unat (service_version (hdr_key h)))"
  let ?mi = "le_bytes 2 (unat (message_id (hdr_key h)))"
  let ?lt = "le_bytes 4 (unat (local_time_raw h))"
  let ?vs = "le_bytes 8 (unat (vendor_sequence_id h))"
  let ?B = "header_bytes h @ rest"
  have "LoadHeaderUnsigned ?B 0 = Some (head_size h)"
    using f [of "[]" 0 "head_size h"] by (simp add: header_bytes_def del: le_bytes.simps)
  moreover have "LoadHeaderUnsigned ?B 1 = Some (message_size h)"
    using f [of ?hs 1 "message_size h"] by (simp add: header_bytes_def del: le_bytes.simps)
  moreover have "LoadHeaderUnsigned ?B 5 = Some (encoding h)"
    using f [of "?hs @ ?ms" 5 "encoding h"] by (simp add: header_bytes_def del: le_bytes.simps)
  moreover have "LoadHeaderUnsigned ?B 6 = Some (service_id (hdr_key h))"
    using f [of "?hs @ ?ms @ ?en" 6 "service_id (hdr_key h)"]
    by (simp add: header_bytes_def del: le_bytes.simps)
  moreover have "LoadHeaderUnsigned ?B 7 = Some (service_version (hdr_key h))"
    using f [of "?hs @ ?ms @ ?en @ ?si" 7 "service_version (hdr_key h)"]
    by (simp add: header_bytes_def del: le_bytes.simps)
  moreover have "LoadHeaderUnsigned ?B 9 = Some (message_id (hdr_key h))"
    using f [of "?hs @ ?ms @ ?en @ ?si @ ?sv" 9 "message_id (hdr_key h)"]
    by (simp add: header_bytes_def del: le_bytes.simps)
  moreover have "LoadHeaderUnsigned ?B 11 = Some (local_time_raw h)"
    using f [of "?hs @ ?ms @ ?en @ ?si @ ?sv @ ?mi" 11 "local_time_raw h"]
    by (simp add: header_bytes_def del: le_bytes.simps)
  moreover have "LoadHeaderUnsigned ?B 15 = Some (vendor_sequence_id h)"
    using f [of "?hs @ ?ms @ ?en @ ?si @ ?sv @ ?mi @ ?lt" 15 "vendor_sequence_id h"]
    by (simp add: header_bytes_def del: le_bytes.simps)
  ultimately show ?thesis
    by (simp add: ParseMdlHeader_def)
qed

end
