(* ===== verification/Canonical.thy ===== *)
theory Canonical
  imports Message
begin

text \<open>
  Component \<open>include/l2flow/ingest/canonical.h\<close>: the fixed-size canonical records, their
  enumerations, the quality flags and the validity bits, with the default member values.
  A byte array member is a \<open>byte list\<close> of the array's length; \<open>std::uint8_t\<close> size members
  are words.
\<close>

section \<open>Enumerations\<close>

definition kMaximumIdentityBytes :: nat where
  "kMaximumIdentityBytes = 32"

definition kCanonicalBookDepth :: nat where
  "kCanonicalBookDepth = 10"

definition kInvalidInstrumentOrdinal :: u32 where
  "kInvalidInstrumentOrdinal = 4294967295"

datatype StartMode = StartMode_kFromOpen | StartMode_kPartial

datatype Market = Market_kUnknown | Market_kShanghai | Market_kShenzhen

text \<open>The underlying \<open>std::uint8_t\<close> value of a \<open>Market\<close>, used by the hashes.\<close>

fun market_code :: "Market \<Rightarrow> nat" where
  "market_code Market_kUnknown = 0"
| "market_code Market_kShanghai = 1"
| "market_code Market_kShenzhen = 2"

datatype CanonicalKind =
    CanonicalKind_kShanghaiTick
  | CanonicalKind_kShenzhenOrder
  | CanonicalKind_kShenzhenTransaction
  | CanonicalKind_kShanghaiSnapshot
  | CanonicalKind_kShenzhenSnapshot

datatype TickAction =
    TickAction_kUnknown | TickAction_kAdd | TickAction_kCancel
  | TickAction_kTrade | TickAction_kStatus

datatype Side = Side_kUnknown | Side_kBuy | Side_kSell | Side_kBorrow | Side_kLend

datatype Aggressor =
    Aggressor_kUnknown | Aggressor_kBuy | Aggressor_kSell | Aggressor_kNeutral

datatype OrderType =
    OrderType_kUnknown | OrderType_kMarket | OrderType_kLimit | OrderType_kSameSideBest

datatype TradingPhase =
    TradingPhase_kUnknown | TradingPhase_kStart | TradingPhase_kOpeningCall
  | TradingPhase_kContinuous | TradingPhase_kSuspended | TradingPhase_kClosingCall
  | TradingPhase_kClosed | TradingPhase_kEnded

section \<open>Quality flags and validity bits\<close>

definition kQualityNullSourceValue :: u64 where
  "kQualityNullSourceValue = push_bit 0 1"

definition kQualityInvalidTime :: u64 where
  "kQualityInvalidTime = push_bit 1 1"

definition kQualityInvalidQuantity :: u64 where
  "kQualityInvalidQuantity = push_bit 2 1"

definition kQualityInvalidPrice :: u64 where
  "kQualityInvalidPrice = push_bit 3 1"

definition kQualityUnknownEnum :: u64 where
  "kQualityUnknownEnum = push_bit 4 1"

definition kQualityAmbiguousOrderReference :: u64 where
  "kQualityAmbiguousOrderReference = push_bit 5 1"

definition kQualityDepthTruncated :: u64 where
  "kQualityDepthTruncated = push_bit 6 1"

definition kQualityInstrumentNotInCatalog :: u64 where
  "kQualityInstrumentNotInCatalog = push_bit 7 1"

definition kQualitySequenceGapBefore :: u64 where
  "kQualitySequenceGapBefore = push_bit 8 1"

definition kQualityChannelHistoryIncomplete :: u64 where
  "kQualityChannelHistoryIncomplete = push_bit 9 1"

definition kQualityInvalidAmount :: u64 where
  "kQualityInvalidAmount = push_bit 10 1"

definition kQualityInvalidOrderReference :: u64 where
  "kQualityInvalidOrderReference = push_bit 11 1"

definition kQualityNonIntegralMatchedQuantity :: u64 where
  "kQualityNonIntegralMatchedQuantity = push_bit 12 1"

definition kQualityLateRecovery :: u64 where
  "kQualityLateRecovery = push_bit 13 1"

definition kTickPriceValid :: u64 where
  "kTickPriceValid = push_bit 0 1"

definition kTickQuantityValid :: u64 where
  "kTickQuantityValid = push_bit 1 1"

definition kTickAmountValid :: u64 where
  "kTickAmountValid = push_bit 2 1"

definition kTickPrimaryOrderIdValid :: u64 where
  "kTickPrimaryOrderIdValid = push_bit 3 1"

definition kTickBuyOrderIdValid :: u64 where
  "kTickBuyOrderIdValid = push_bit 4 1"

definition kTickSellOrderIdValid :: u64 where
  "kTickSellOrderIdValid = push_bit 5 1"

definition kTickSideValid :: u64 where
  "kTickSideValid = push_bit 6 1"

definition kTickAggressorValid :: u64 where
  "kTickAggressorValid = push_bit 7 1"

definition kTickOrderTypeValid :: u64 where
  "kTickOrderTypeValid = push_bit 8 1"

definition kTickExchangeTimeValid :: u64 where
  "kTickExchangeTimeValid = push_bit 9 1"

definition kTickPhaseValid :: u64 where
  "kTickPhaseValid = push_bit 10 1"

definition kTickMatchedQuantityValid :: u64 where
  "kTickMatchedQuantityValid = push_bit 11 1"

definition kTickChannelHistoryValid :: u64 where
  "kTickChannelHistoryValid = push_bit 12 1"

lemmas quality_defs =
  kQualityNullSourceValue_def
  kQualityInvalidTime_def
  kQualityInvalidQuantity_def
  kQualityInvalidPrice_def
  kQualityUnknownEnum_def
  kQualityAmbiguousOrderReference_def
  kQualityDepthTruncated_def
  kQualityInstrumentNotInCatalog_def
  kQualitySequenceGapBefore_def
  kQualityChannelHistoryIncomplete_def
  kQualityInvalidAmount_def
  kQualityInvalidOrderReference_def
  kQualityNonIntegralMatchedQuantity_def
  kQualityLateRecovery_def

lemmas validity_defs =
  kTickPriceValid_def
  kTickQuantityValid_def
  kTickAmountValid_def
  kTickPrimaryOrderIdValid_def
  kTickBuyOrderIdValid_def
  kTickSellOrderIdValid_def
  kTickSideValid_def
  kTickAggressorValid_def
  kTickOrderTypeValid_def
  kTickExchangeTimeValid_def
  kTickPhaseValid_def
  kTickMatchedQuantityValid_def
  kTickChannelHistoryValid_def

section \<open>Records\<close>

record ExactIdentity =
  id_market :: Market
  security_id_source_size :: u8
  security_id_size :: u8
  security_id_source :: "byte list"
  security_id :: "byte list"

record FixedDecimal =
  fd_raw :: int
  fd_p6 :: int
  fd_source_scale :: nat
  fd_raw_valid :: bool
  fd_p6_valid :: bool

record ScaledInteger =
  si_raw :: int
  si_scale :: nat
  si_valid :: bool

record CanonicalCommon =
  c_ingress_sequence :: u64
  c_vendor_sequence_id :: u64
  c_receive_monotonic_ns :: u64
  c_native_sequence :: u64
  c_exchange_time_ns :: u64
  c_vendor_local_time_ns :: u64
  c_quality_flags :: u64
  c_gap_epoch :: u64
  c_gap_before_first :: u64
  c_gap_before_last :: u64
  c_trade_date :: u32
  c_instrument_id :: u32
  c_instrument_ordinal :: u32
  c_channel :: u32
  c_exchange_time_raw :: u32
  c_vendor_local_time_raw :: u32
  c_exchange_time_valid :: bool
  c_vendor_local_time_valid :: bool
  c_message_key :: MessageKey
  c_kind :: CanonicalKind
  c_identity :: ExactIdentity
  c_md_stream_id_size :: u8
  c_md_stream_id :: "byte list"

record CanonicalTick =
  t_common :: CanonicalCommon
  t_price :: FixedDecimal
  t_amount :: FixedDecimal
  t_quantity :: ScaledInteger
  t_primary_order_id :: int
  t_buy_order_id :: int
  t_sell_order_id :: int
  t_sh_add_matched_quantity_raw :: int
  t_validity :: u64
  t_raw_type :: int
  t_raw_side :: int
  t_action :: TickAction
  t_side :: Side
  t_aggressor :: Aggressor
  t_order_type :: OrderType
  t_phase :: TradingPhase

record CanonicalBookLevel =
  b_price :: FixedDecimal
  b_quantity :: ScaledInteger
  b_source_order_count :: u32
  b_order_count_valid :: bool

record CanonicalSnapshot =
  s_common :: CanonicalCommon
  s_previous_close :: FixedDecimal
  s_open :: FixedDecimal
  s_high :: FixedDecimal
  s_low :: FixedDecimal
  s_last :: FixedDecimal
  s_close :: FixedDecimal
  s_turnover :: FixedDecimal
  s_volume :: ScaledInteger
  s_total_bid_quantity :: ScaledInteger
  s_total_ask_quantity :: ScaledInteger
  s_weighted_average_bid :: FixedDecimal
  s_weighted_average_ask :: FixedDecimal
  s_trade_count :: u64
  s_trade_count_valid :: bool
  s_image_status :: int
  s_image_status_valid :: bool
  s_instrument_status_code_size :: u8
  s_instrument_status_code :: "byte list"
  s_trading_phase_code_size :: u8
  s_trading_phase_code :: "byte list"
  s_source_bid_depth :: u32
  s_source_ask_depth :: u32
  s_retained_bid_depth :: u8
  s_retained_ask_depth :: u8
  s_bids :: "CanonicalBookLevel list"
  s_asks :: "CanonicalBookLevel list"

record ChannelGap =
  g_market :: Market
  g_channel :: u32
  g_first_missing :: u64
  g_last_missing :: u64
  g_first_present_after_gap :: u64
  g_detected_monotonic_ns :: u64
  g_gap_epoch :: u64
  g_cumulative_missing_sequences :: u64

datatype LateRecoveryReason =
    LateRecoveryReason_kBehindCommittedFrontier
  | LateRecoveryReason_kPendingCanonicalConflict

record LateRecoveryTick =
  l_tick :: CanonicalTick
  l_committed_next_sequence :: u64
  l_observed_gap_epoch :: u64
  l_reason :: LateRecoveryReason
  l_catalog_match :: bool

datatype ChannelFaultReason =
    ChannelFaultReason_kCanonicalConflict
  | ChannelFaultReason_kDecodeFailure

record ChannelFault =
  f_market :: Market
  f_reason :: ChannelFaultReason
  f_channel :: u32
  f_expected_sequence :: u64
  f_observed_sequence :: u64
  f_detected_monotonic_ns :: u64

section \<open>Default member values\<close>

definition empty_identity_array :: "byte list" where
  "empty_identity_array = replicate kMaximumIdentityBytes 0"

definition default_identity :: ExactIdentity where
  "default_identity = \<lparr>id_market = Market_kUnknown, security_id_source_size = 0,
     security_id_size = 0, security_id_source = empty_identity_array,
     security_id = empty_identity_array\<rparr>"

definition default_decimal :: FixedDecimal where
  "default_decimal = \<lparr>fd_raw = 0, fd_p6 = 0, fd_source_scale = 0, fd_raw_valid = False,
     fd_p6_valid = False\<rparr>"

definition default_scaled :: ScaledInteger where
  "default_scaled = \<lparr>si_raw = 0, si_scale = 0, si_valid = False\<rparr>"

definition default_common :: CanonicalCommon where
  "default_common = \<lparr>c_ingress_sequence = 0, c_vendor_sequence_id = 0,
     c_receive_monotonic_ns = 0, c_native_sequence = 0, c_exchange_time_ns = 0,
     c_vendor_local_time_ns = 0, c_quality_flags = 0, c_gap_epoch = 0, c_gap_before_first = 0,
     c_gap_before_last = 0, c_trade_date = 0, c_instrument_id = 0,
     c_instrument_ordinal = kInvalidInstrumentOrdinal, c_channel = 0, c_exchange_time_raw = 0,
     c_vendor_local_time_raw = 0, c_exchange_time_valid = False,
     c_vendor_local_time_valid = False, c_message_key = mk_key 0 0 0,
     c_kind = CanonicalKind_kShanghaiTick, c_identity = default_identity,
     c_md_stream_id_size = 0, c_md_stream_id = empty_identity_array\<rparr>"

definition default_tick :: CanonicalTick where
  "default_tick = \<lparr>t_common = default_common, t_price = default_decimal,
     t_amount = default_decimal, t_quantity = default_scaled, t_primary_order_id = 0,
     t_buy_order_id = 0, t_sell_order_id = 0, t_sh_add_matched_quantity_raw = 0,
     t_validity = kTickChannelHistoryValid, t_raw_type = 0, t_raw_side = 0,
     t_action = TickAction_kUnknown, t_side = Side_kUnknown,
     t_aggressor = Aggressor_kUnknown, t_order_type = OrderType_kUnknown,
     t_phase = TradingPhase_kUnknown\<rparr>"

definition default_level :: CanonicalBookLevel where
  "default_level = \<lparr>b_price = default_decimal, b_quantity = default_scaled,
     b_source_order_count = 0, b_order_count_valid = False\<rparr>"

definition default_snapshot :: CanonicalSnapshot where
  "default_snapshot = \<lparr>s_common = default_common, s_previous_close = default_decimal,
     s_open = default_decimal, s_high = default_decimal, s_low = default_decimal,
     s_last = default_decimal, s_close = default_decimal, s_turnover = default_decimal,
     s_volume = default_scaled, s_total_bid_quantity = default_scaled,
     s_total_ask_quantity = default_scaled, s_weighted_average_bid = default_decimal,
     s_weighted_average_ask = default_decimal, s_trade_count = 0, s_trade_count_valid = False,
     s_image_status = 0, s_image_status_valid = False, s_instrument_status_code_size = 0,
     s_instrument_status_code = empty_identity_array, s_trading_phase_code_size = 0,
     s_trading_phase_code = empty_identity_array, s_source_bid_depth = 0,
     s_source_ask_depth = 0, s_retained_bid_depth = 0, s_retained_ask_depth = 0,
     s_bids = replicate kCanonicalBookDepth default_level,
     s_asks = replicate kCanonicalBookDepth default_level\<rparr>"

section \<open>Projections used throughout\<close>

abbreviation native_seq :: "CanonicalTick \<Rightarrow> u64" where
  "native_seq t \<equiv> c_native_sequence (t_common t)"

abbreviation tick_channel :: "CanonicalTick \<Rightarrow> u32" where
  "tick_channel t \<equiv> c_channel (t_common t)"

abbreviation tick_market :: "CanonicalTick \<Rightarrow> Market" where
  "tick_market t \<equiv> id_market (c_identity (t_common t))"

abbreviation add_quality :: "u64 \<Rightarrow> CanonicalCommon \<Rightarrow> CanonicalCommon" where
  "add_quality flag c \<equiv> c\<lparr>c_quality_flags := c_quality_flags c OR flag\<rparr>"

lemma market_code_inj: "market_code a = market_code b \<longleftrightarrow> a = b"
  by (cases a; cases b) simp_all

end
