(* ===== verification/Decoder_Types.thy ===== *)
theory Decoder_Types
  imports Canonical
begin

text \<open>
  Component \<open>src/decoder_internal.h\<close>: the message view handed to the decoder, its limits,
  its error codes and its results; and the per-lane counters \<open>TickLaneStats\<close> and
  \<open>SnapshotLaneStats\<close> of \<open>src/engine.cpp\<close>, whose atomic \<open>fetch_add\<close> wraps at 64 bits.
\<close>

record OwnedMessageView =
  mv_header :: ParsedHeader
  mv_ingress_sequence :: u64
  mv_receive_monotonic_ns :: u64
  mv_body :: "byte list"

record DecoderLimits =
  maximum_text_bytes :: nat
  maximum_depth_items :: nat
  maximum_queue_items :: nat

datatype DecodeError =
    kUnsupported
  | kTruncated
  | kInvalidOffset
  | kRangeOverlap
  | kCountExceeded
  | kCountMismatch
  | kInvalidText
  | kInvalidNativeSequence
  | kFixedPointOverflow
  | kResourceExhausted

record TickDecodeResult =
  td_tick :: CanonicalTick
  td_catalog_match :: bool

record SnapshotDecodeResult =
  sd_snapshot :: CanonicalSnapshot
  sd_catalog_match :: bool

record TickLaneStats =
  ts_decoded_ticks :: u64
  ts_decode_errors :: u64
  ts_catalog_misses :: u64
  ts_dispatched_ticks :: u64
  ts_duplicates_or_late :: u64
  ts_late_recovery_dispatched :: u64
  ts_gaps_skipped :: u64
  ts_from_open_channels_frozen :: u64
  ts_channel_faults_dispatched :: u64
  ts_dispatch_overflows :: u64

record SnapshotLaneStats =
  ss_decoded_snapshots :: u64
  ss_decode_errors :: u64
  ss_catalog_misses :: u64
  ss_dispatched_snapshots :: u64
  ss_dispatch_overflows :: u64

definition default_tick_stats :: TickLaneStats where
  "default_tick_stats = \<lparr>ts_decoded_ticks = 0, ts_decode_errors = 0, ts_catalog_misses = 0,
     ts_dispatched_ticks = 0, ts_duplicates_or_late = 0, ts_late_recovery_dispatched = 0,
     ts_gaps_skipped = 0, ts_from_open_channels_frozen = 0, ts_channel_faults_dispatched = 0,
     ts_dispatch_overflows = 0\<rparr>"

definition default_snapshot_stats :: SnapshotLaneStats where
  "default_snapshot_stats = \<lparr>ss_decoded_snapshots = 0, ss_decode_errors = 0,
     ss_catalog_misses = 0, ss_dispatched_snapshots = 0, ss_dispatch_overflows = 0\<rparr>"

text \<open>What a tick lane sends, the counter of each kind, and the updates that leave these counters alone.\<close>

datatype Output = Output_Tick | Output_Late | Output_Fault

fun dispatched :: "Output \<Rightarrow> TickLaneStats \<Rightarrow> u64" where
  "dispatched Output_Tick s = ts_dispatched_ticks s"
| "dispatched Output_Late s = ts_late_recovery_dispatched s"
| "dispatched Output_Fault s = ts_channel_faults_dispatched s"

definition keeps_dispatched :: "(TickLaneStats \<Rightarrow> TickLaneStats) \<Rightarrow> bool" where
  "keeps_dispatched f \<longleftrightarrow> (\<forall>k s. dispatched k (f s) = dispatched k s)"

lemma keeps_dispatchedI:
  assumes "\<And>s. ts_dispatched_ticks (f s) = ts_dispatched_ticks s"
    and "\<And>s. ts_late_recovery_dispatched (f s) = ts_late_recovery_dispatched s"
    and "\<And>s. ts_channel_faults_dispatched (f s) = ts_channel_faults_dispatched s"
  shows "keeps_dispatched f"
  unfolding keeps_dispatched_def
proof (intro allI)
  show "dispatched k (f s) = dispatched k s" for k s using assms by (cases k) simp_all
qed

lemma keeps_dispatched_updates [simp]:
  "keeps_dispatched (\<lambda>s. s\<lparr>ts_decoded_ticks := ts_decoded_ticks s + 1\<rparr>)"
  "keeps_dispatched (\<lambda>s. s\<lparr>ts_decode_errors := ts_decode_errors s + 1\<rparr>)"
  "keeps_dispatched (\<lambda>s. s\<lparr>ts_catalog_misses := ts_catalog_misses s + 1\<rparr>)"
  "keeps_dispatched (\<lambda>s. s\<lparr>ts_duplicates_or_late := ts_duplicates_or_late s + 1\<rparr>)"
  "keeps_dispatched (\<lambda>s. s\<lparr>ts_gaps_skipped := ts_gaps_skipped s + 1\<rparr>)"
  "keeps_dispatched (\<lambda>s. s\<lparr>ts_from_open_channels_frozen := ts_from_open_channels_frozen s + 1\<rparr>)"
  "keeps_dispatched (\<lambda>s. s\<lparr>ts_dispatch_overflows := ts_dispatch_overflows s + 1\<rparr>)"
  by (rule keeps_dispatchedI; simp)+

end
