(* ===== verification/Recovery.thy ===== *)
theory Recovery
  imports Decoder_Types
begin

text \<open>
  The class \<open>SequenceRecovery\<close> of \<open>src/engine.cpp\<close>, operation by operation: the per-channel
  reorder table, the committed frontier \<open>expected\<close>, gap recording, late diversion, channel
  freezing and the deadlines.  The callbacks \<open>emit_tick\<close>, \<open>emit_gap\<close>, \<open>emit_fault\<close>,
  \<open>emit_late\<close> and \<open>fatal\<close>, the lane counters \<open>stats_\<close> and the \<open>nothrow\<close> allocation of a
  reorder slab are the fields of a \<open>Sink\<close>, acting on an environment \<open>'s\<close> that every
  operation threads through.  A loop that the code does not bound
  (\<open>ProcessActive\<close>, \<open>Flush\<close>) is a \<open>partial_function\<close>: \<open>None\<close> is a loop that does not end.
\<close>

section \<open>State\<close>

record 's Sink =
  sk_tick :: "CanonicalTick \<Rightarrow> 's \<Rightarrow> bool \<times> 's"
  sk_gap :: "nat \<Rightarrow> ChannelGap \<Rightarrow> 's \<Rightarrow> bool \<times> 's"
  sk_fault :: "ChannelFault \<Rightarrow> 's \<Rightarrow> bool \<times> 's"
  sk_late :: "LateRecoveryTick \<Rightarrow> 's \<Rightarrow> bool \<times> 's"
  sk_fatal :: "string \<Rightarrow> 's \<Rightarrow> 's"
  sk_stats :: "(TickLaneStats \<Rightarrow> TickLaneStats) \<Rightarrow> 's \<Rightarrow> 's"
  sk_alloc :: "'s \<Rightarrow> bool \<times> 's"

record PendingSlot =
  ps_tick :: CanonicalTick
  ps_occupied :: bool
  ps_emit :: bool

definition default_pending_slot :: PendingSlot where
  "default_pending_slot = \<lparr>ps_tick = default_tick, ps_occupied = False, ps_emit = False\<rparr>"

record ChannelState =
  cs_market :: Market
  cs_channel :: u32
  cs_used :: bool
  cs_frozen :: bool
  cs_discovering :: bool
  cs_history_complete :: bool
  cs_gap_metadata_pending :: bool
  cs_expected :: u64
  cs_first_seen_ns :: u64
  cs_gap_open_ns :: u64
  cs_gap_epoch :: u64
  cs_cumulative_missing :: u64
  cs_pending_gap_first :: u64
  cs_pending_gap_last :: u64
  cs_mailbox_slot :: nat
  cs_pending_count :: nat
  cs_pending :: "PendingSlot list"

definition default_channel_state :: ChannelState where
  "default_channel_state = \<lparr>cs_market = Market_kUnknown, cs_channel = 0, cs_used = False,
     cs_frozen = False, cs_discovering = False, cs_history_complete = True,
     cs_gap_metadata_pending = False, cs_expected = 1, cs_first_seen_ns = 0,
     cs_gap_open_ns = 0, cs_gap_epoch = 0, cs_cumulative_missing = 0,
     cs_pending_gap_first = 0, cs_pending_gap_last = 0, cs_mailbox_slot = 0,
     cs_pending_count = 0, cs_pending = []\<rparr>"

datatype InsertResult = kInserted | kDuplicate | kConflict | kCollision

text \<open>The members of \<open>SequenceRecovery\<close> that the constructor fixes.\<close>

record RecoveryConfig =
  rc_mode :: StartMode
  rc_entries_per_channel :: nat
  rc_slot_mask :: nat
  rc_maximum_reorder_span :: u64
  rc_initial_hold_ns :: u64
  rc_gap_wait_ns :: u64

record SequenceRecovery =
  sr_config :: RecoveryConfig
  sr_channels :: "ChannelState list"
  sr_channel_table :: "nat list"
  sr_channel_table_mask :: nat
  sr_channel_count :: nat
  sr_next_deadline_ns :: u64

text \<open>
  What an operation on one channel reads and writes: the channel behind the reference
  \<open>ChannelState& state\<close>, the shared member \<open>next_deadline_ns_\<close> and the environment.
\<close>

record 's ChannelCtx =
  cx_state :: ChannelState
  cx_next_deadline :: u64
  cx_env :: 's

section \<open>Equality of canonical payloads\<close>

definition IdentityEqual :: "ExactIdentity \<Rightarrow> ExactIdentity \<Rightarrow> bool" where
  "IdentityEqual left right \<longleftrightarrow>
     id_market left = id_market right \<and>
     security_id_source_size left = security_id_source_size right \<and>
     security_id_size left = security_id_size right \<and>
     security_id_source left = security_id_source right \<and>
     security_id left = security_id right"

definition DecimalEqual :: "FixedDecimal \<Rightarrow> FixedDecimal \<Rightarrow> bool" where
  "DecimalEqual left right \<longleftrightarrow>
     fd_raw left = fd_raw right \<and> fd_source_scale left = fd_source_scale right \<and>
     fd_raw_valid left = fd_raw_valid right"

definition QuantityEqual :: "ScaledInteger \<Rightarrow> ScaledInteger \<Rightarrow> bool" where
  "QuantityEqual left right \<longleftrightarrow>
     si_raw left = si_raw right \<and> si_scale left = si_scale right \<and>
     si_valid left = si_valid right"

definition CanonicalPayloadEqual :: "CanonicalTick \<Rightarrow> CanonicalTick \<Rightarrow> bool" where
  "CanonicalPayloadEqual left right \<longleftrightarrow>
     c_message_key (t_common left) = c_message_key (t_common right) \<and>
     c_kind (t_common left) = c_kind (t_common right) \<and>
     c_channel (t_common left) = c_channel (t_common right) \<and>
     c_native_sequence (t_common left) = c_native_sequence (t_common right) \<and>
     c_exchange_time_raw (t_common left) = c_exchange_time_raw (t_common right) \<and>
     IdentityEqual (c_identity (t_common left)) (c_identity (t_common right)) \<and>
     DecimalEqual (t_price left) (t_price right) \<and>
     DecimalEqual (t_amount left) (t_amount right) \<and>
     QuantityEqual (t_quantity left) (t_quantity right) \<and>
     t_primary_order_id left = t_primary_order_id right \<and>
     t_buy_order_id left = t_buy_order_id right \<and>
     t_sell_order_id left = t_sell_order_id right \<and>
     t_sh_add_matched_quantity_raw left = t_sh_add_matched_quantity_raw right \<and>
     t_raw_type left = t_raw_type right \<and>
     t_raw_side left = t_raw_side right \<and> t_action left = t_action right \<and>
     t_side left = t_side right \<and> t_aggressor left = t_aggressor right \<and>
     t_order_type left = t_order_type right \<and> t_phase left = t_phase right"

section \<open>Deadlines\<close>

definition DeadlineReached :: "u64 \<Rightarrow> u64 \<Rightarrow> u64 \<Rightarrow> bool" where
  "DeadlineReached now start delay \<longleftrightarrow> now \<ge> start \<and> now - start \<ge> delay"

text \<open>The new value of \<open>next_deadline_ns_\<close>, from the old one.\<close>

definition ScheduleDeadline :: "u64 \<Rightarrow> u64 \<Rightarrow> u64 \<Rightarrow> u64" where
  "ScheduleDeadline start delay next_deadline =
    (let deadline = (if U64_MAX - start < delay then U64_MAX else start + delay) in
     if next_deadline = 0 \<or> deadline < next_deadline then deadline else next_deadline)"

section \<open>The reorder table of a channel\<close>

definition pending_index :: "RecoveryConfig \<Rightarrow> u64 \<Rightarrow> nat" where
  "pending_index cfg seq = unat seq AND rc_slot_mask cfg"

definition Insert ::
  "RecoveryConfig \<Rightarrow> TickDecodeResult \<Rightarrow> ChannelState \<Rightarrow> InsertResult \<times> ChannelState" where
  "Insert cfg decoded state =
    (let seq = native_seq (td_tick decoded);
         i = pending_index cfg seq;
         slot = cs_pending state ! i in
     if ps_occupied slot then
       (if native_seq (ps_tick slot) \<noteq> seq then (kCollision, state)
        else if CanonicalPayloadEqual (ps_tick slot) (td_tick decoded)
                \<and> ps_emit slot = td_catalog_match decoded
        then (kDuplicate, state) else (kConflict, state))
     else (kInserted,
       state\<lparr>cs_pending := (cs_pending state)[i :=
               \<lparr>ps_tick = td_tick decoded, ps_occupied = True,
                ps_emit = td_catalog_match decoded\<rparr>],
             cs_pending_count := Suc (cs_pending_count state)\<rparr>))"

text \<open>\<open>Find\<close> returns a pointer into the table: here the index of the slot.\<close>

definition Find_pending :: "RecoveryConfig \<Rightarrow> ChannelState \<Rightarrow> u64 \<Rightarrow> nat option" where
  "Find_pending cfg state seq =
    (let i = pending_index cfg seq; slot = cs_pending state ! i in
     if ps_occupied slot \<and> native_seq (ps_tick slot) = seq then Some i else None)"

definition MinimumPending :: "ChannelState \<Rightarrow> u64" where
  "MinimumPending state =
     fold (\<lambda>slot minimum. if ps_occupied slot then min minimum (native_seq (ps_tick slot))
             else minimum) (cs_pending state) U64_MAX"

section \<open>Emission\<close>

text \<open>
  The \<open>PendingSlot&\<close> argument of \<open>EmitOne\<close> refers to a slot of the table or to the local
  variable \<open>temporary\<close> of \<open>ProcessActive\<close>.
\<close>

datatype SlotRef = TableSlot nat | TemporarySlot PendingSlot

fun slot_value :: "SlotRef \<Rightarrow> ChannelState \<Rightarrow> PendingSlot" where
  "slot_value (TableSlot i) state = cs_pending state ! i"
| "slot_value (TemporarySlot p) state = p"

fun slot_release :: "SlotRef \<Rightarrow> ChannelState \<Rightarrow> ChannelState" where
  "slot_release (TableSlot i) state =
     state\<lparr>cs_pending := (cs_pending state)[i := (cs_pending state ! i)\<lparr>ps_occupied := False\<rparr>]\<rparr>"
| "slot_release (TemporarySlot p) state = state"

definition clear_history :: "CanonicalTick \<Rightarrow> CanonicalTick" where
  "clear_history tick =
     tick\<lparr>t_validity := t_validity tick AND NOT kTickChannelHistoryValid,
          t_common := add_quality kQualityChannelHistoryIncomplete (t_common tick)\<rparr>"

definition stamp_gap :: "ChannelState \<Rightarrow> CanonicalTick \<Rightarrow> CanonicalTick" where
  "stamp_gap state tick =
     tick\<lparr>t_common := (add_quality kQualitySequenceGapBefore (t_common tick))
       \<lparr>c_gap_epoch := cs_gap_epoch state,
        c_gap_before_first := cs_pending_gap_first state,
        c_gap_before_last := cs_pending_gap_last state\<rparr>\<rparr>"

text \<open>The canonical tick that \<open>EmitOne\<close> hands to \<open>emit_tick\<close>.\<close>

definition emitted_tick :: "ChannelState \<Rightarrow> PendingSlot \<Rightarrow> CanonicalTick" where
  "emitted_tick state slot =
    (let tick = (if cs_history_complete state then ps_tick slot else clear_history (ps_tick slot))
     in if ps_emit slot \<and> cs_gap_metadata_pending state then stamp_gap state tick else tick)"

definition EmitOne ::
  "'s Sink \<Rightarrow> SlotRef \<Rightarrow> 's ChannelCtx \<Rightarrow> bool \<times> 's ChannelCtx" where
  "EmitOne S slot_ref cx =
    (let state = cx_state cx;
         slot = slot_value slot_ref state;
         tick = emitted_tick state slot;
         should_emit = ps_emit slot;
         state1 = slot_release slot_ref state;
         state2 = state1\<lparr>cs_pending_count := cs_pending_count state1 - 1\<rparr>;
         state3 = (if should_emit \<and> cs_gap_metadata_pending state2
                   then state2\<lparr>cs_gap_metadata_pending := False\<rparr> else state2) in
     if should_emit then
       (case sk_tick S tick (cx_env cx) of
          (True, env) \<Rightarrow> (True, cx\<lparr>cx_state := state3, cx_env := env\<rparr>)
        | (False, env) \<Rightarrow>
            (False, cx\<lparr>cx_state := state3,
               cx_env := sk_fatal S ''instrument tick dispatch queue overflow'' env\<rparr>))
     else (True, cx\<lparr>cx_state := state3\<rparr>))"

definition DivertLateRecovery ::
  "'s Sink \<Rightarrow> TickDecodeResult \<Rightarrow> LateRecoveryReason \<Rightarrow> 's ChannelCtx \<Rightarrow> bool \<times> 's ChannelCtx"
where
  "DivertLateRecovery S decoded reason cx =
    (let state = cx_state cx;
         tick = td_tick decoded;
         tick1 = tick\<lparr>t_validity := t_validity tick AND NOT kTickChannelHistoryValid,
           t_common := (add_quality (kQualityChannelHistoryIncomplete OR kQualityLateRecovery)
             (t_common tick))\<lparr>c_gap_epoch := cs_gap_epoch state\<rparr>\<rparr>;
         rec = \<lparr>l_tick = tick1, l_committed_next_sequence = cs_expected state,
           l_observed_gap_epoch = cs_gap_epoch state, l_reason = reason,
           l_catalog_match = td_catalog_match decoded\<rparr> in
     case sk_late S rec (cx_env cx) of
       (True, env) \<Rightarrow> (True, cx\<lparr>cx_env := env\<rparr>)
     | (False, env) \<Rightarrow>
         (False, cx\<lparr>cx_env := sk_fatal S ''LateRecovery canonical record queue overflow'' env\<rparr>))"

section \<open>Draining\<close>

lemma slot_release_pending:
  "cs_pending (slot_release (TableSlot i) st)
     = (cs_pending st)[i := (cs_pending st ! i)\<lparr>ps_occupied := False\<rparr>]"
  by simp

lemma EmitOne_pending_table:
  "cs_pending (cx_state (snd (EmitOne S (TableSlot i) cx)))
     = (cs_pending (cx_state cx))[i := (cs_pending (cx_state cx) ! i)\<lparr>ps_occupied := False\<rparr>]"
  by (simp add: EmitOne_def Let_def split: prod.splits bool.splits)

text \<open>
  The \<open>for (;;)\<close> of \<open>DrainContiguous\<close>.  Each turn releases an occupied slot, so the loop ends
  whatever the table holds; a found index beyond the table (impossible under the channel
  invariant, undefined in C++) stops it.
\<close>

function drain_loop :: "'s Sink \<Rightarrow> RecoveryConfig \<Rightarrow> 's ChannelCtx \<Rightarrow> bool \<times> 's ChannelCtx" where
  "drain_loop S cfg cx =
    (case Find_pending cfg (cx_state cx) (cs_expected (cx_state cx)) of
       None \<Rightarrow> (True, cx)
     | Some i \<Rightarrow>
         if length (cs_pending (cx_state cx)) \<le> i then (True, cx)
         else (let (ok, cx1) = EmitOne S (TableSlot i) cx in
               if \<not> ok then (False, cx1)
               else drain_loop S cfg
                 (cx1\<lparr>cx_state := (cx_state cx1)\<lparr>cs_expected := cs_expected (cx_state cx1) + 1\<rparr>\<rparr>)))"
  by pat_completeness auto
termination
proof (relation "measure (\<lambda>(S, cfg, cx). length (filter ps_occupied (cs_pending (cx_state cx))))",
    goal_cases)
  case (2 S cfg cx i e ok cx1)
  have occ: "ps_occupied (cs_pending (cx_state cx) ! i)"
    using 2(1) by (auto simp: Find_pending_def Let_def split: if_splits)
  have "cs_pending (cx_state cx1)
      = (cs_pending (cx_state cx))[i := (cs_pending (cx_state cx) ! i)\<lparr>ps_occupied := False\<rparr>]"
    using EmitOne_pending_table [of S i cx] 2(3,4) by (metis snd_conv)
  with 2(2) occ show ?case
    using length_filter_update [of i "cs_pending (cx_state cx)" ps_occupied
        "(cs_pending (cx_state cx) ! i)\<lparr>ps_occupied := False\<rparr>"] by simp
qed simp

declare drain_loop.simps [simp del]

definition DrainContiguous ::
  "'s Sink \<Rightarrow> RecoveryConfig \<Rightarrow> u64 \<Rightarrow> 's ChannelCtx \<Rightarrow> 's ChannelCtx" where
  "DrainContiguous S cfg now cx =
    (let (ok, cx1) = drain_loop S cfg cx in
     if \<not> ok then cx1
     else (let state = cx_state cx1;
               open_ns = (if cs_pending_count state = 0 then 0 else now);
               cx2 = cx1\<lparr>cx_state := state\<lparr>cs_gap_open_ns := open_ns\<rparr>\<rparr> in
           if open_ns \<noteq> 0
           then cx2\<lparr>cx_next_deadline :=
                  ScheduleDeadline open_ns (rc_gap_wait_ns cfg) (cx_next_deadline cx2)\<rparr>
           else cx2))"

section \<open>Gaps and freezing\<close>

definition add_missing :: "u64 \<Rightarrow> u64 \<Rightarrow> u64" where
  "add_missing cumulative missing_count =
     (if U64_MAX - cumulative < missing_count then U64_MAX else cumulative + missing_count)"

definition RecordGap ::
  "'s Sink \<Rightarrow> u64 \<Rightarrow> u64 \<Rightarrow> u64 \<Rightarrow> u64 \<Rightarrow> 's ChannelCtx \<Rightarrow> bool \<times> 's ChannelCtx" where
  "RecordGap S first_missing last_missing next now cx =
    (if last_missing < first_missing then (True, cx)
     else
       let state = cx_state cx;
           epoch = (if cs_gap_epoch state \<noteq> U64_MAX then cs_gap_epoch state + 1
                    else cs_gap_epoch state);
           missing = add_missing (cs_cumulative_missing state) (next - first_missing);
           state1 = state\<lparr>cs_history_complete := False, cs_gap_epoch := epoch,
             cs_cumulative_missing := missing, cs_pending_gap_first := first_missing,
             cs_pending_gap_last := last_missing, cs_gap_metadata_pending := True\<rparr>;
           gap = \<lparr>g_market = cs_market state1, g_channel = cs_channel state1,
             g_first_missing = first_missing, g_last_missing = last_missing,
             g_first_present_after_gap = next, g_detected_monotonic_ns = now,
             g_gap_epoch = epoch, g_cumulative_missing_sequences = missing\<rparr> in
       case sk_gap S (cs_mailbox_slot state1) gap (cx_env cx) of
         (False, env) \<Rightarrow>
           (False, cx\<lparr>cx_state := state1,
              cx_env := sk_fatal S ''channel gap mailbox invariant failed'' env\<rparr>)
       | (True, env) \<Rightarrow>
           (True, cx\<lparr>cx_state := state1,
              cx_env := sk_stats S (\<lambda>st. st\<lparr>ts_gaps_skipped := ts_gaps_skipped st + 1\<rparr>) env\<rparr>))"

definition FreezeFromOpen ::
  "'s Sink \<Rightarrow> ChannelFaultReason \<Rightarrow> u64 \<Rightarrow> u64 \<Rightarrow> 's ChannelCtx \<Rightarrow> 's ChannelCtx" where
  "FreezeFromOpen S reason observed now cx =
    (let state = cx_state cx in
     if cs_frozen state then cx
     else
       let env1 = sk_stats S (\<lambda>st. st\<lparr>ts_from_open_channels_frozen :=
                    ts_from_open_channels_frozen st + 1\<rparr>) (cx_env cx);
           fault = \<lparr>f_market = cs_market state, f_reason = reason, f_channel = cs_channel state,
             f_expected_sequence = cs_expected state, f_observed_sequence = observed,
             f_detected_monotonic_ns = now\<rparr>;
           (ok, env2) = sk_fault S fault env1;
           env3 = (if ok then env2
                   else sk_fatal S ''channel fault dispatch queue overflow'' env2) in
       cx\<lparr>cx_state := state\<lparr>cs_frozen := True\<rparr>, cx_env := env3\<rparr>)"

definition FinishDiscovery ::
  "'s Sink \<Rightarrow> RecoveryConfig \<Rightarrow> u64 \<Rightarrow> 's ChannelCtx \<Rightarrow> 's ChannelCtx" where
  "FinishDiscovery S cfg now cx =
    (let state = cx_state cx in
     if \<not> cs_discovering state \<or> cs_pending_count state = 0
     then cx\<lparr>cx_state := state\<lparr>cs_discovering := False\<rparr>\<rparr>
     else DrainContiguous S cfg now
       (cx\<lparr>cx_state := state\<lparr>cs_discovering := False, cs_expected := MinimumPending state\<rparr>\<rparr>))"

definition ForceGapToMinimum ::
  "'s Sink \<Rightarrow> RecoveryConfig \<Rightarrow> u64 \<Rightarrow> 's ChannelCtx \<Rightarrow> 's ChannelCtx" where
  "ForceGapToMinimum S cfg now cx =
    (let state = cx_state cx in
     if cs_pending_count state = 0 then cx\<lparr>cx_state := state\<lparr>cs_gap_open_ns := 0\<rparr>\<rparr>
     else
       let minimum = MinimumPending state;
           (ok, cx1) = (if minimum > cs_expected state
             then RecordGap S (cs_expected state) (minimum - 1) minimum now cx
             else (True, cx)) in
       if \<not> ok then cx1
       else DrainContiguous S cfg now
         (cx1\<lparr>cx_state := (cx_state cx1)\<lparr>cs_expected := minimum\<rparr>\<rparr>))"

section \<open>Processing one decoded tick on an active channel\<close>

definition count_late :: "'s Sink \<Rightarrow> 's ChannelCtx \<Rightarrow> 's ChannelCtx" where
  "count_late S cx = cx\<lparr>cx_env := sk_stats S
     (\<lambda>st. st\<lparr>ts_duplicates_or_late := ts_duplicates_or_late st + 1\<rparr>) (cx_env cx)\<rparr>"

definition emit_expected ::
  "'s Sink \<Rightarrow> RecoveryConfig \<Rightarrow> TickDecodeResult \<Rightarrow> u64 \<Rightarrow> 's ChannelCtx \<Rightarrow> 's ChannelCtx" where
  "emit_expected S cfg decoded now cx =
    (let temporary = \<lparr>ps_tick = td_tick decoded, ps_occupied = True,
           ps_emit = td_catalog_match decoded\<rparr>;
         state = cx_state cx;
         (ok, cx1) = EmitOne S (TemporarySlot temporary)
           (cx\<lparr>cx_state := state\<lparr>cs_pending_count := Suc (cs_pending_count state)\<rparr>\<rparr>) in
     if \<not> ok then cx1
     else DrainContiguous S cfg now
       (cx1\<lparr>cx_state := (cx_state cx1)\<lparr>cs_expected := cs_expected (cx_state cx1) + 1\<rparr>\<rparr>))"

definition pending_conflict ::
  "'s Sink \<Rightarrow> RecoveryConfig \<Rightarrow> TickDecodeResult \<Rightarrow> u64 \<Rightarrow> 's ChannelCtx \<Rightarrow> 's ChannelCtx" where
  "pending_conflict S cfg decoded now cx =
    (let cx1 = count_late S cx in
     if rc_mode cfg = StartMode_kFromOpen
     then FreezeFromOpen S ChannelFaultReason_kCanonicalConflict
            (native_seq (td_tick decoded)) now cx1
     else snd (DivertLateRecovery S decoded LateRecoveryReason_kPendingCanonicalConflict cx1))"

text \<open>The tail of the loop body, after an insertion inside the window.\<close>

definition wait_for_gap ::
  "'s Sink \<Rightarrow> RecoveryConfig \<Rightarrow> u64 \<Rightarrow> 's ChannelCtx \<Rightarrow> 's ChannelCtx" where
  "wait_for_gap S cfg now cx =
    (let cx1 = (if cs_gap_open_ns (cx_state cx) = 0
           then cx\<lparr>cx_state := (cx_state cx)\<lparr>cs_gap_open_ns := now\<rparr>,
                   cx_next_deadline :=
                     ScheduleDeadline now (rc_gap_wait_ns cfg) (cx_next_deadline cx)\<rparr>
           else cx) in
     if rc_gap_wait_ns cfg = 0 then ForceGapToMinimum S cfg now cx1 else cx1)"

partial_function (option) ProcessActive ::
  "'s Sink \<Rightarrow> RecoveryConfig \<Rightarrow> TickDecodeResult \<Rightarrow> u64 \<Rightarrow> 's ChannelCtx \<Rightarrow> 's ChannelCtx option"
where
  "ProcessActive S cfg decoded now cx =
    (let seq = native_seq (td_tick decoded);
         state = cx_state cx in
     if seq < cs_expected state then
       Some (snd (DivertLateRecovery S decoded
         LateRecoveryReason_kBehindCommittedFrontier (count_late S cx)))
     else if seq = cs_expected state then Some (emit_expected S cfg decoded now cx)
     else
       let span = seq - cs_expected state;
           (inserted, state1) = Insert cfg decoded state;
           cx1 = cx\<lparr>cx_state := state1\<rparr> in
       if inserted = kDuplicate then Some (count_late S cx1)
       else if inserted = kConflict then Some (pending_conflict S cfg decoded now cx1)
       else if inserted = kCollision \<or> span > rc_maximum_reorder_span cfg then
         (if inserted = kInserted then Some (ForceGapToMinimum S cfg now cx1)
          else
            let minimum = MinimumPending state1 in
            if cs_pending_count state1 = 0 \<or> seq < minimum then
              (let (ok, cx2) = RecordGap S (cs_expected state1) (seq - 1) seq now cx1 in
               if \<not> ok then Some cx2
               else ProcessActive S cfg decoded now
                 (cx2\<lparr>cx_state := (cx_state cx2)\<lparr>cs_expected := seq\<rparr>\<rparr>))
            else ProcessActive S cfg decoded now (ForceGapToMinimum S cfg now cx1))
       else Some (wait_for_gap S cfg now cx1))"

section \<open>The channel table\<close>

definition HashChannel :: "Market \<Rightarrow> u32 \<Rightarrow> u64" where
  "HashChannel market channel =
    (let v0 = push_bit 32 (of_nat (market_code market)) OR ucast channel :: u64;
         v1 = v0 XOR drop_bit 30 v0;
         v2 = v1 * 0xbf58476d1ce4e5b9;
         v3 = v2 XOR drop_bit 27 v2;
         v4 = v3 * 0x94d049bb133111eb in
     v4 XOR drop_bit 31 v4)"

definition new_channel :: "RecoveryConfig \<Rightarrow> Market \<Rightarrow> u32 \<Rightarrow> nat \<Rightarrow> ChannelState \<Rightarrow> ChannelState"
where
  "new_channel cfg market channel index state =
     state\<lparr>cs_pending := replicate (rc_entries_per_channel cfg) default_pending_slot,
       cs_market := market, cs_channel := channel, cs_mailbox_slot := index, cs_used := True,
       cs_discovering := (rc_mode cfg = StartMode_kPartial),
       cs_history_complete := (rc_mode cfg = StartMode_kFromOpen),
       cs_expected := (if rc_mode cfg = StartMode_kFromOpen then 1 else 0)\<rparr>"

text \<open>The probe loop, with \<open>n\<close> probes left; the result is the index of the channel.\<close>

fun probe_channels ::
  "'s Sink \<Rightarrow> Market \<Rightarrow> u32 \<Rightarrow> nat \<Rightarrow> nat \<Rightarrow> SequenceRecovery \<Rightarrow> 's
     \<Rightarrow> nat option \<times> SequenceRecovery \<times> 's" where
  "probe_channels S market channel 0 slot rec env = (None, rec, env)"
| "probe_channels S market channel (Suc n) slot rec env =
    (let index_plus_one = sr_channel_table rec ! slot in
     if index_plus_one = 0 then
       (if sr_channel_count rec \<ge> length (sr_channels rec) then (None, rec, env)
        else
          let (allocated, env1) = sk_alloc S env;
              index = sr_channel_count rec in
          if \<not> allocated then (None, rec, env1)
          else (Some index,
            rec\<lparr>sr_channels := (sr_channels rec)[index :=
                  new_channel (sr_config rec) market channel index (sr_channels rec ! index)],
                sr_channel_table := (sr_channel_table rec)[slot := Suc index],
                sr_channel_count := Suc index\<rparr>, env1))
     else
       let state = sr_channels rec ! (index_plus_one - 1) in
       if cs_market state = market \<and> cs_channel state = channel
       then (Some (index_plus_one - 1), rec, env)
       else probe_channels S market channel n
         ((slot + 1) AND sr_channel_table_mask rec) rec env)"

definition FindOrCreate ::
  "'s Sink \<Rightarrow> Market \<Rightarrow> u32 \<Rightarrow> SequenceRecovery \<Rightarrow> 's \<Rightarrow> nat option \<times> SequenceRecovery \<times> 's"
where
  "FindOrCreate S market channel rec env =
     probe_channels S market channel (length (sr_channel_table rec))
       (unat (HashChannel market channel) AND sr_channel_table_mask rec) rec env"

section \<open>The public operations\<close>

definition channel_ctx :: "nat \<Rightarrow> SequenceRecovery \<Rightarrow> 's \<Rightarrow> 's ChannelCtx" where
  "channel_ctx index rec env = \<lparr>cx_state = sr_channels rec ! index,
     cx_next_deadline = sr_next_deadline_ns rec, cx_env = env\<rparr>"

definition store_ctx :: "nat \<Rightarrow> SequenceRecovery \<Rightarrow> 's ChannelCtx \<Rightarrow> SequenceRecovery \<times> 's" where
  "store_ctx index rec cx =
     (rec\<lparr>sr_channels := (sr_channels rec)[index := cx_state cx],
          sr_next_deadline_ns := cx_next_deadline cx\<rparr>, cx_env cx)"

definition hold_discovery ::
  "'s Sink \<Rightarrow> RecoveryConfig \<Rightarrow> u64 \<Rightarrow> 's ChannelCtx \<Rightarrow> 's ChannelCtx" where
  "hold_discovery S cfg now cx =
    (let cx1 = (if cs_first_seen_ns (cx_state cx) = 0
           then (let cx0 = cx\<lparr>cx_state := (cx_state cx)\<lparr>cs_first_seen_ns := now\<rparr>\<rparr> in
                 if rc_initial_hold_ns cfg \<noteq> 0
                 then cx0\<lparr>cx_next_deadline :=
                        ScheduleDeadline now (rc_initial_hold_ns cfg) (cx_next_deadline cx0)\<rparr>
                 else cx0)
           else cx) in
     if rc_initial_hold_ns cfg = 0
        \<or> DeadlineReached now (cs_first_seen_ns (cx_state cx1)) (rc_initial_hold_ns cfg)
     then FinishDiscovery S cfg now cx1 else cx1)"

definition ProcessChannel ::
  "'s Sink \<Rightarrow> RecoveryConfig \<Rightarrow> TickDecodeResult \<Rightarrow> u64 \<Rightarrow> 's ChannelCtx \<Rightarrow> 's ChannelCtx option"
where
  "ProcessChannel S cfg decoded now cx =
    (let state = cx_state cx in
     if cs_frozen state then Some (count_late S cx)
     else if rc_mode cfg = StartMode_kPartial \<and> cs_discovering state then
       (let (inserted, state1) = Insert cfg decoded state;
            cx1 = cx\<lparr>cx_state := state1\<rparr> in
        if inserted = kDuplicate then Some (count_late S cx1)
        else if inserted = kConflict then
          Some (snd (DivertLateRecovery S decoded
            LateRecoveryReason_kPendingCanonicalConflict (count_late S cx1)))
        else if inserted = kCollision then
          ProcessActive S cfg decoded now (FinishDiscovery S cfg now cx1)
        else Some (hold_discovery S cfg now cx1))
     else ProcessActive S cfg decoded now cx)"

definition Process ::
  "'s Sink \<Rightarrow> TickDecodeResult \<Rightarrow> u64 \<Rightarrow> SequenceRecovery \<Rightarrow> 's \<Rightarrow> (SequenceRecovery \<times> 's) option"
where
  "Process S decoded now rec env =
    (case FindOrCreate S (tick_market (td_tick decoded)) (tick_channel (td_tick decoded)) rec env of
       (None, rec1, env1) \<Rightarrow>
         Some (rec1, sk_fatal S ''native-sequence channel capacity or allocation exhausted'' env1)
     | (Some index, rec1, env1) \<Rightarrow>
         map_option (store_ctx index rec1)
           (ProcessChannel S (sr_config rec1) decoded now (channel_ctx index rec1 env1)))"

definition PollChannel ::
  "'s Sink \<Rightarrow> RecoveryConfig \<Rightarrow> u64 \<Rightarrow> 's ChannelCtx \<Rightarrow> 's ChannelCtx" where
  "PollChannel S cfg now cx =
    (let state = cx_state cx in
     if cs_frozen state \<or> cs_pending_count state = 0 then cx
     else if cs_discovering state then
       (if DeadlineReached now (cs_first_seen_ns state) (rc_initial_hold_ns cfg)
        then FinishDiscovery S cfg now cx
        else cx\<lparr>cx_next_deadline := ScheduleDeadline (cs_first_seen_ns state)
               (rc_initial_hold_ns cfg) (cx_next_deadline cx)\<rparr>)
     else if cs_gap_open_ns state \<noteq> 0
             \<and> DeadlineReached now (cs_gap_open_ns state) (rc_gap_wait_ns cfg)
       then ForceGapToMinimum S cfg now cx
     else if cs_gap_open_ns state \<noteq> 0
       then cx\<lparr>cx_next_deadline := ScheduleDeadline (cs_gap_open_ns state)
              (rc_gap_wait_ns cfg) (cx_next_deadline cx)\<rparr>
     else cx)"

text \<open>The loop over the channels in use, with \<open>n\<close> of them left.\<close>

fun poll_loop ::
  "'s Sink \<Rightarrow> u64 \<Rightarrow> nat \<Rightarrow> nat \<Rightarrow> SequenceRecovery \<Rightarrow> 's \<Rightarrow> SequenceRecovery \<times> 's" where
  "poll_loop S now 0 index rec env = (rec, env)"
| "poll_loop S now (Suc n) index rec env =
    (let (rec1, env1) = store_ctx index rec
           (PollChannel S (sr_config rec) now (channel_ctx index rec env)) in
     poll_loop S now n (Suc index) rec1 env1)"

definition Poll :: "'s Sink \<Rightarrow> u64 \<Rightarrow> SequenceRecovery \<Rightarrow> 's \<Rightarrow> SequenceRecovery \<times> 's" where
  "Poll S now rec env =
    (if sr_next_deadline_ns rec = 0 \<or> now < sr_next_deadline_ns rec then (rec, env)
     else poll_loop S now (sr_channel_count rec) 0 (rec\<lparr>sr_next_deadline_ns := 0\<rparr>) env)"

partial_function (option) flush_while ::
  "'s Sink \<Rightarrow> RecoveryConfig \<Rightarrow> u64 \<Rightarrow> 's ChannelCtx \<Rightarrow> 's ChannelCtx option" where
  "flush_while S cfg now cx =
    (if cs_pending_count (cx_state cx) > 0
     then flush_while S cfg now (ForceGapToMinimum S cfg now cx) else Some cx)"

definition FlushChannel ::
  "'s Sink \<Rightarrow> RecoveryConfig \<Rightarrow> u64 \<Rightarrow> 's ChannelCtx \<Rightarrow> 's ChannelCtx option" where
  "FlushChannel S cfg now cx =
    (if cs_frozen (cx_state cx) then Some cx
     else
       let cx1 = (if cs_discovering (cx_state cx) then FinishDiscovery S cfg now cx else cx) in
       flush_while S cfg now cx1)"

fun flush_loop ::
  "'s Sink \<Rightarrow> u64 \<Rightarrow> nat \<Rightarrow> nat \<Rightarrow> SequenceRecovery \<Rightarrow> 's \<Rightarrow> (SequenceRecovery \<times> 's) option" where
  "flush_loop S now 0 index rec env = Some (rec, env)"
| "flush_loop S now (Suc n) index rec env =
    (case FlushChannel S (sr_config rec) now (channel_ctx index rec env) of
       None \<Rightarrow> None
     | Some cx \<Rightarrow> let (rec1, env1) = store_ctx index rec cx in flush_loop S now n (Suc index) rec1 env1)"

definition Flush :: "'s Sink \<Rightarrow> u64 \<Rightarrow> SequenceRecovery \<Rightarrow> 's \<Rightarrow> (SequenceRecovery \<times> 's) option" where
  "Flush S now rec env = flush_loop S now (sr_channel_count rec) 0 rec env"

definition FreezeDecodeFailure ::
  "'s Sink \<Rightarrow> Market \<Rightarrow> u32 \<Rightarrow> u64 \<Rightarrow> u64 \<Rightarrow> SequenceRecovery \<Rightarrow> 's \<Rightarrow> SequenceRecovery \<times> 's" where
  "FreezeDecodeFailure S market channel seq now rec env =
    (if rc_mode (sr_config rec) \<noteq> StartMode_kFromOpen then (rec, env)
     else case FindOrCreate S market channel rec env of
       (None, rec1, env1) \<Rightarrow>
         (rec1, sk_fatal S (''native-sequence channel capacity or allocation exhausted ''
            @ ''while recording a decode failure'') env1)
     | (Some index, rec1, env1) \<Rightarrow>
         store_ctx index rec1 (FreezeFromOpen S ChannelFaultReason_kDecodeFailure seq now
           (channel_ctx index rec1 env1)))"

text \<open>The constructor: the table is the least power of two that is at least twice the channels.\<close>

function table_capacity_from :: "nat \<Rightarrow> nat \<Rightarrow> nat" where
  "table_capacity_from capacity requested =
     (if 0 < capacity \<and> capacity < requested
      then table_capacity_from (capacity * 2) requested else capacity)"
  by pat_completeness auto
termination by (relation "measure (\<lambda>(c, r). r - c)") auto

declare table_capacity_from.simps [simp del]

definition new_recovery ::
  "StartMode \<Rightarrow> nat \<Rightarrow> nat \<Rightarrow> u64 \<Rightarrow> u64 \<Rightarrow> u64 \<Rightarrow> SequenceRecovery" where
  "new_recovery mode maximum_channels entries_per_channel span hold wait =
    (let table_capacity = table_capacity_from 1 (maximum_channels * 2) in
     \<lparr>sr_config = \<lparr>rc_mode = mode, rc_entries_per_channel = entries_per_channel,
        rc_slot_mask = entries_per_channel - 1, rc_maximum_reorder_span = span,
        rc_initial_hold_ns = hold, rc_gap_wait_ns = wait\<rparr>,
      sr_channels = replicate maximum_channels default_channel_state,
      sr_channel_table = replicate table_capacity 0,
      sr_channel_table_mask = table_capacity - 1,
      sr_channel_count = 0, sr_next_deadline_ns = 0\<rparr>)"

end
