(* ===== verification/Recovery_Channel.thy ===== *)
theory Recovery_Channel
  imports Recovery
begin

text \<open>
  Correctness of \<open>SequenceRecovery\<close> on one channel.  The interface \<open>recovery_sink\<close> states
  what the recovery relies on when it calls its callbacks; inside it the relation \<open>stepc\<close>
  says what an operation did to the channel: the slots it consumed in order, the ticks the
  consumer edge received for them, how far the frontier moved and what became of the retained
  slots.  Every operation of the class is a \<open>stepc\<close>, and \<open>stepc\<close> composes.
\<close>

section \<open>What stamping leaves unchanged\<close>

definition payload :: "CanonicalTick \<Rightarrow> CanonicalTick" where
  "payload tick = tick\<lparr>t_validity := t_validity tick AND NOT kTickChannelHistoryValid,
     t_common := (t_common tick)\<lparr>c_quality_flags := 0, c_gap_epoch := 0,
       c_gap_before_first := 0, c_gap_before_last := 0\<rparr>\<rparr>"

lemma payload_stamps [simp]:
  "payload (clear_history t) = payload t" "payload (stamp_gap st t) = payload t"
  "payload (emitted_tick st slot) = payload (ps_tick slot)"
proof -
  show a: "payload (clear_history t) = payload t" for t
    by (simp add: payload_def clear_history_def ac_simps)
  show b: "payload (stamp_gap st t) = payload t" for st t
    by (simp add: payload_def stamp_gap_def)
  show "payload (emitted_tick st slot) = payload (ps_tick slot)"
    by (simp add: emitted_tick_def Let_def a b)
qed

lemma payload_fields:
  assumes "payload t = payload u"
  shows "native_seq t = native_seq u" "tick_channel t = tick_channel u"
    "c_identity (t_common t) = c_identity (t_common u)"
    "c_instrument_id (t_common t) = c_instrument_id (t_common u)"
proof -
  have "native_seq (payload t) = native_seq (payload u)"
    "tick_channel (payload t) = tick_channel (payload u)"
    "c_identity (t_common (payload t)) = c_identity (t_common (payload u))"
    "c_instrument_id (t_common (payload t)) = c_instrument_id (t_common (payload u))"
    using assms by simp_all
  then show "native_seq t = native_seq u" "tick_channel t = tick_channel u"
    "c_identity (t_common t) = c_identity (t_common u)"
    "c_instrument_id (t_common t) = c_instrument_id (t_common u)"
    by (simp_all add: payload_def)
qed

section \<open>The channel invariant\<close>

abbreviation slot_seq :: "PendingSlot \<Rightarrow> u64" where
  "slot_seq slot \<equiv> native_seq (ps_tick slot)"

definition cfg_ok :: "RecoveryConfig \<Rightarrow> bool" where
  "cfg_ok cfg \<longleftrightarrow> (\<exists>k \<le> 63. rc_entries_per_channel cfg = 2 ^ k)
     \<and> rc_slot_mask cfg = rc_entries_per_channel cfg - 1"

text \<open>Native sequence numbers are positive 64-bit signed values.\<close>

definition good_seq :: "u64 \<Rightarrow> bool" where
  "good_seq seq \<longleftrightarrow> 0 < unat seq \<and> unat seq < 2 ^ 63"

text \<open>The retained slots.\<close>

definition retained :: "ChannelState \<Rightarrow> PendingSlot multiset" where
  "retained st = mset (filter ps_occupied (cs_pending st))"

definition slot_home :: "RecoveryConfig \<Rightarrow> ChannelState \<Rightarrow> nat \<Rightarrow> PendingSlot \<Rightarrow> bool" where
  "slot_home cfg st i slot \<longleftrightarrow> pending_index cfg (slot_seq slot) = i \<and> good_seq (slot_seq slot)
     \<and> tick_market (ps_tick slot) = cs_market st \<and> tick_channel (ps_tick slot) = cs_channel st"

definition chan_inv :: "RecoveryConfig \<Rightarrow> ChannelState \<Rightarrow> bool" where
  "chan_inv cfg st \<longleftrightarrow>
     length (cs_pending st) = rc_entries_per_channel cfg \<and>
     cs_pending_count st = size (retained st) \<and>
     (\<forall>i < length (cs_pending st). ps_occupied (cs_pending st ! i) \<longrightarrow>
        slot_home cfg st i (cs_pending st ! i)) \<and>
     unat (cs_expected st) \<le> 2 ^ 63 \<and>
     cs_cumulative_missing st \<le> cs_expected st \<and>
     (cs_discovering st \<longrightarrow> cs_expected st = 0) \<and>
     (cs_gap_metadata_pending st \<longrightarrow> \<not> cs_history_complete st)"

text \<open>No retained position is behind the frontier (\<open>frontier_le\<close>), nor at it (\<open>frontier_lt\<close>).\<close>

definition frontier_le :: "ChannelState \<Rightarrow> bool" where
  "frontier_le st \<longleftrightarrow> (\<forall>slot \<in># retained st. cs_expected st \<le> slot_seq slot)"

definition frontier_lt :: "ChannelState \<Rightarrow> bool" where
  "frontier_lt st \<longleftrightarrow> (\<forall>slot \<in># retained st. cs_expected st < slot_seq slot)"

lemma frontier_lt_le: "frontier_lt st \<Longrightarrow> frontier_le st"
  by (auto simp: frontier_lt_def frontier_le_def)

lemma in_retained:
  "slot \<in># retained st \<longleftrightarrow> ps_occupied slot \<and> (\<exists>i < length (cs_pending st). cs_pending st ! i = slot)"
  by (auto simp: retained_def in_set_conv_nth)

lemma pending_index_less:
  assumes "cfg_ok cfg"
  shows "pending_index cfg seq < rc_entries_per_channel cfg"
proof -
  from assms obtain k where k: "rc_entries_per_channel cfg = 2 ^ k" by (auto simp: cfg_ok_def)
  then have "pending_index cfg seq = unat seq mod 2 ^ k"
    using assms nat_and_mask by (simp add: pending_index_def cfg_ok_def)
  then show ?thesis using k by simp
qed

lemma retained_home:
  assumes "chan_inv cfg st" and "slot \<in># retained st"
  shows "slot_home cfg st (pending_index cfg (slot_seq slot)) slot"
    and "cs_pending st ! pending_index cfg (slot_seq slot) = slot"
proof -
  from assms obtain i where i: "i < length (cs_pending st)" "cs_pending st ! i = slot" "ps_occupied slot"
    by (auto simp: in_retained)
  with assms(1) have "slot_home cfg st i slot" by (auto simp: chan_inv_def)
  moreover from this have "pending_index cfg (slot_seq slot) = i" by (simp add: slot_home_def)
  ultimately show "slot_home cfg st (pending_index cfg (slot_seq slot)) slot"
    "cs_pending st ! pending_index cfg (slot_seq slot) = slot" using i by auto
qed

text \<open>Distinct retained slots have distinct positions.\<close>

lemma retained_inj:
  assumes "chan_inv cfg st" and "a \<in># retained st" and "b \<in># retained st" and "slot_seq a = slot_seq b"
  shows "a = b"
proof -
  have "a = cs_pending st ! pending_index cfg (slot_seq a)"
    by (rule retained_home(2) [OF assms(1,2), symmetric])
  also have "\<dots> = cs_pending st ! pending_index cfg (slot_seq b)" by (simp only: assms(4))
  also have "\<dots> = b" by (rule retained_home(2) [OF assms(1,3)])
  finally show ?thesis .
qed

lemma filter_update_out:
  assumes "i < length xs" and "P (xs ! i)" and "\<not> P y"
  shows "mset (filter P xs) = add_mset (xs ! i) (mset (filter P (xs[i := y])))"
proof -
  have "mset (xs[i := y]) = add_mset y (mset xs - {#xs ! i#})"
    using assms(1) by (rule mset_update)
  then have "filter_mset P (mset (xs[i := y])) = filter_mset P (mset xs) - {#xs ! i#}"
    using assms by simp
  moreover have "xs ! i \<in># filter_mset P (mset xs)" using assms by simp
  ultimately show ?thesis by (simp flip: mset_filter)
qed

lemma filter_update_in:
  assumes "i < length xs" and "\<not> P (xs ! i)" and "P y"
  shows "mset (filter P (xs[i := y])) = add_mset y (mset (filter P xs))"
  using filter_update_out [of i "xs[i := y]" P "xs ! i"] assms by simp

section \<open>The smallest retained position\<close>

lemma fold_min_props:
  fixes f :: "'a \<Rightarrow> 'b::linorder" and P :: "'a \<Rightarrow> bool"
  defines "g \<equiv> fold (\<lambda>s m. if P s then min m (f s) else m)"
  shows "g xs m \<le> m" and "x \<in> set xs \<Longrightarrow> P x \<Longrightarrow> g xs m \<le> f x"
    and "g xs m = m \<or> (\<exists>x \<in> set xs. P x \<and> g xs m = f x)"
proof -
  show le: "g xs m \<le> m" for xs m
    unfolding g_def
  proof (induction xs arbitrary: m)
    case (Cons s xs)
    have "(if P s then min m (f s) else m) \<le> m" by simp
    with Cons.IH show ?case by (simp only: fold_simps o_apply) (meson order_trans)
  qed simp
  show "x \<in> set xs \<Longrightarrow> P x \<Longrightarrow> g xs m \<le> f x"
  proof (induction xs arbitrary: m)
    case (Cons s xs)
    show ?case
    proof (cases "x = s")
      case True
      have "g (s # xs) m = g xs (min m (f s))" using Cons.prems True by (simp add: g_def)
      also have "\<dots> \<le> min m (f s)" by (rule le)
      finally show ?thesis using True by simp
    next
      case False
      then show ?thesis using Cons.IH Cons.prems by (simp add: g_def)
    qed
  qed simp
  show "g xs m = m \<or> (\<exists>x \<in> set xs. P x \<and> g xs m = f x)"
  proof (induction xs arbitrary: m)
    case (Cons s xs)
    let ?m = "if P s then min m (f s) else m"
    have eq: "g (s # xs) m = g xs ?m" by (simp add: g_def)
    show ?case
      unfolding eq using Cons.IH [of ?m] by (auto simp: min_def split: if_splits)
  qed (simp add: g_def)
qed

lemma MinimumPending_props:
  assumes "chan_inv cfg st" and "retained st \<noteq> {#}"
  obtains slot where "slot \<in># retained st" and "MinimumPending st = slot_seq slot"
    and "\<forall>s \<in># retained st. MinimumPending st \<le> slot_seq s"
proof -
  note F = fold_min_props [where P = ps_occupied and f = "\<lambda>s. slot_seq s"
      and xs = "cs_pending st" and m = U64_MAX, folded MinimumPending_def]
  have least: "MinimumPending st \<le> slot_seq s" if "s \<in># retained st" for s
    using that F(2) [of s] by (simp add: retained_def)
  from assms(2) obtain s0 where s0: "s0 \<in># retained st" by auto
  have "good_seq (slot_seq s0)" using retained_home(1) [OF assms(1) s0] by (simp add: slot_home_def)
  then have "slot_seq s0 \<noteq> U64_MAX" by (auto simp: good_seq_def)
  moreover have "MinimumPending st \<le> slot_seq s0" by (rule least [OF s0])
  ultimately have "MinimumPending st \<noteq> U64_MAX"
    using le_U64_MAX [of "slot_seq s0"] by (metis order.antisym)
  then obtain s where "s \<in> set (cs_pending st)" "ps_occupied s" "MinimumPending st = slot_seq s"
    using F(3) by auto
  then show thesis using that [of s] least by (simp add: retained_def)
qed

section \<open>The interface of the callbacks\<close>

text \<open>
  \<open>inv\<close> is the environment's own invariant, \<open>healthy\<close> says that no fatal was raised,
  \<open>view\<close> is what one consumer edge has received so far and \<open>sel\<close> selects the ticks that go
  to that edge.  Mailboxes below \<open>limit\<close> accept every gap.  The recovery itself counts no dispatch:
  the updates of the counters it asks for leave the dispatch counters alone.
\<close>

locale recovery_sink =
  fixes S :: "'s Sink"
    and inv :: "'s \<Rightarrow> bool"
    and healthy :: "'s \<Rightarrow> bool"
    and view :: "'s \<Rightarrow> CanonicalTick list"
    and sel :: "CanonicalTick \<Rightarrow> bool"
    and limit :: nat
    and home :: "Market \<times> u32 \<Rightarrow> bool"
  assumes tick_accepted: "inv s \<Longrightarrow> sk_tick S t s = (True, s') \<Longrightarrow>
        inv s' \<and> healthy s' = healthy s \<and> view s' = view s @ (if sel t then [t] else [])"
    and tick_refused: "inv s \<Longrightarrow> sk_tick S t s = (False, s') \<Longrightarrow> inv s' \<and> view s' = view s"
    and gap_kept: "inv s \<Longrightarrow> sk_gap S i g s = (b, s') \<Longrightarrow>
        inv s' \<and> healthy s' = healthy s \<and> view s' = view s \<and> (i < limit \<longrightarrow> b)"
    and fault_kept: "inv s \<Longrightarrow> sk_fault S flt s = (b, s') \<Longrightarrow>
        inv s' \<and> healthy s' = healthy s \<and> view s' = view s"
    and late_kept: "inv s \<Longrightarrow> sk_late S late s = (b, s') \<Longrightarrow>
        inv s' \<and> healthy s' = healthy s \<and> view s' = view s"
    and fatal_kept: "inv s \<Longrightarrow>
        inv (sk_fatal S msg s) \<and> \<not> healthy (sk_fatal S msg s) \<and> view (sk_fatal S msg s) = view s"
    and stats_kept: "inv s \<Longrightarrow> keeps_dispatched f \<Longrightarrow>
        inv (sk_stats S f s) \<and> healthy (sk_stats S f s) = healthy s \<and> view (sk_stats S f s) = view s"
    and alloc_kept: "inv s \<Longrightarrow> sk_alloc S s = (b, s') \<Longrightarrow>
        inv s' \<and> healthy s' = healthy s \<and> view s' = view s"
    and sel_payload: "payload t = payload u \<Longrightarrow> sel t = sel u"
begin

text \<open>
  \<open>stepc consumed I cx cx'\<close>: from \<open>cx\<close> to \<open>cx'\<close> the channel consumed the slots of
  \<open>consumed\<close>, each with the tick built for it, and \<open>I\<close> are the slots that came from outside.
\<close>

definition accounted :: "nat \<Rightarrow> ChannelState \<Rightarrow> ChannelState \<Rightarrow> bool" where
  "accounted n st st' \<longleftrightarrow> unat (cs_cumulative_missing st') + n + unat (cs_expected st)
     = unat (cs_cumulative_missing st) + unat (cs_expected st')"

definition consumed_ok :: "ChannelState \<Rightarrow> ChannelState \<Rightarrow> (PendingSlot \<times> CanonicalTick) \<Rightarrow> bool" where
  "consumed_ok st st' e \<longleftrightarrow> (case e of (slot, tick) \<Rightarrow>
     cs_expected st \<le> slot_seq slot \<and> slot_seq slot < cs_expected st' \<and>
     payload tick = payload (ps_tick slot) \<and>
     tick_market (ps_tick slot) = cs_market st \<and> tick_channel (ps_tick slot) = cs_channel st \<and>
     (cs_history_complete st' \<longrightarrow> tick = ps_tick slot) \<and>
     (\<not> cs_history_complete st \<longrightarrow> t_validity tick AND kTickChannelHistoryValid = 0))"

definition stepc ::
  "(PendingSlot \<times> CanonicalTick) list \<Rightarrow> PendingSlot multiset \<Rightarrow> 's ChannelCtx \<Rightarrow> 's ChannelCtx \<Rightarrow> bool"
where
  "stepc consumed I cx cx' \<longleftrightarrow>
    (let st = cx_state cx; st' = cx_state cx' in
     inv (cx_env cx') \<and>
     cs_market st' = cs_market st \<and> cs_channel st' = cs_channel st \<and>
     cs_mailbox_slot st' = cs_mailbox_slot st \<and>
     (cs_discovering st' \<longrightarrow> cs_discovering st) \<and>
     (cs_history_complete st' \<longrightarrow> cs_history_complete st) \<and>
     cs_expected st \<le> cs_expected st' \<and>
     view (cx_env cx') = view (cx_env cx)
       @ filter sel (map snd (filter (\<lambda>e. ps_emit (fst e)) consumed)) \<and>
     sorted_wrt (<) (map (\<lambda>e. slot_seq (fst e)) consumed) \<and>
     (\<forall>e \<in> set consumed. consumed_ok st st' e) \<and>
     (healthy (cx_env cx') \<longrightarrow> healthy (cx_env cx) \<and>
        mset (map fst consumed) + retained st' = I + retained st \<and>
        (\<not> cs_discovering st \<longrightarrow> accounted (length consumed) st st')))"

lemma stepcD:
  assumes "stepc consumed I cx cx'"
  shows "inv (cx_env cx')"
    "cs_market (cx_state cx') = cs_market (cx_state cx)"
    "cs_channel (cx_state cx') = cs_channel (cx_state cx)"
    "cs_mailbox_slot (cx_state cx') = cs_mailbox_slot (cx_state cx)"
    "cs_discovering (cx_state cx') \<Longrightarrow> cs_discovering (cx_state cx)"
    "cs_history_complete (cx_state cx') \<Longrightarrow> cs_history_complete (cx_state cx)"
    "cs_expected (cx_state cx) \<le> cs_expected (cx_state cx')"
    "view (cx_env cx') = view (cx_env cx)
       @ filter sel (map snd (filter (\<lambda>e. ps_emit (fst e)) consumed))"
    "sorted_wrt (<) (map (\<lambda>e. slot_seq (fst e)) consumed)"
    "e \<in> set consumed \<Longrightarrow> consumed_ok (cx_state cx) (cx_state cx') e"
    "healthy (cx_env cx') \<Longrightarrow> healthy (cx_env cx)"
    "healthy (cx_env cx') \<Longrightarrow>
       mset (map fst consumed) + retained (cx_state cx') = I + retained (cx_state cx)"
    "healthy (cx_env cx') \<Longrightarrow> \<not> cs_discovering (cx_state cx) \<Longrightarrow>
       accounted (length consumed) (cx_state cx) (cx_state cx')"
  using assms by (simp_all only: stepc_def Let_def) blast+

lemma stepc_trans:
  assumes ab: "stepc c I x y" and bc: "stepc d J y z"
  shows "stepc (c @ d) (I + J) x z"
  unfolding stepc_def Let_def
proof (intro conjI impI)
  note A = stepcD [OF ab] and B = stepcD [OF bc]
  show "inv (cx_env z)" by (rule B(1))
  show "cs_market (cx_state z) = cs_market (cx_state x)"
    "cs_channel (cx_state z) = cs_channel (cx_state x)"
    "cs_mailbox_slot (cx_state z) = cs_mailbox_slot (cx_state x)"
    using A(2-4) B(2-4) by simp_all
  show "cs_discovering (cx_state x)" if "cs_discovering (cx_state z)"
    using that A(5) B(5) by blast
  show "cs_history_complete (cx_state x)" if "cs_history_complete (cx_state z)"
    using that A(6) B(6) by blast
  show "cs_expected (cx_state x) \<le> cs_expected (cx_state z)"
    using A(7) B(7) by (rule order_trans)
  show "view (cx_env z) = view (cx_env x)
      @ filter sel (map snd (filter (\<lambda>e. ps_emit (fst e)) (c @ d)))"
    using A(8) B(8) by simp
  have cd: "slot_seq (fst e) < slot_seq (fst f)" if "e \<in> set c" "f \<in> set d" for e f
    using A(10) [OF that(1)] B(10) [OF that(2)]
    by (auto simp: consumed_ok_def split_beta)
  show "sorted_wrt (<) (map (\<lambda>e. slot_seq (fst e)) (c @ d))"
    using A(9) B(9) cd by (auto simp: sorted_wrt_append)
  show "\<forall>e \<in> set (c @ d). consumed_ok (cx_state x) (cx_state z) e"
  proof
    fix e assume "e \<in> set (c @ d)"
    then consider "e \<in> set c" | "e \<in> set d" by auto
    then show "consumed_ok (cx_state x) (cx_state z) e"
    proof cases
      case 1
      from A(10) [OF this] show ?thesis
        using B(6,7) by (auto simp: consumed_ok_def)
    next
      case 2
      from B(10) [OF this] show ?thesis
        using A(2,3,6,7) by (auto simp: consumed_ok_def)
    qed
  qed
  assume hz: "healthy (cx_env z)"
  then have hy: "healthy (cx_env y)" by (rule B(11))
  then show "healthy (cx_env x)" by (rule A(11))
  show "mset (map fst (c @ d)) + retained (cx_state z) = I + J + retained (cx_state x)"
  proof -
    have "mset (map fst (c @ d)) + retained (cx_state z)
        = mset (map fst c) + (mset (map fst d) + retained (cx_state z))" by simp
    also have "\<dots> = J + (mset (map fst c) + retained (cx_state y))"
      unfolding B(12) [OF hz] by (simp add: ac_simps)
    also have "\<dots> = I + J + retained (cx_state x)" unfolding A(12) [OF hy] by (simp add: ac_simps)
    finally show ?thesis .
  qed
  assume nd: "\<not> cs_discovering (cx_state x)"
  then have "\<not> cs_discovering (cx_state y)" using A(5) by blast
  from A(13) [OF hy nd] B(13) [OF hz this]
  show "accounted (length (c @ d)) (cx_state x) (cx_state z)" by (simp add: accounted_def)
qed

text \<open>A step that touches neither the retained slots nor the frontier nor the edge.\<close>

lemma stepc_silent:
  assumes "inv (cx_env cx')" and "view (cx_env cx') = view (cx_env cx)"
    and "healthy (cx_env cx') \<Longrightarrow> healthy (cx_env cx)"
    and "cs_market (cx_state cx') = cs_market (cx_state cx)"
    and "cs_channel (cx_state cx') = cs_channel (cx_state cx)"
    and "cs_mailbox_slot (cx_state cx') = cs_mailbox_slot (cx_state cx)"
    and "cs_discovering (cx_state cx') \<Longrightarrow> cs_discovering (cx_state cx)"
    and "cs_history_complete (cx_state cx') \<Longrightarrow> cs_history_complete (cx_state cx)"
    and "cs_expected (cx_state cx) \<le> cs_expected (cx_state cx')"
    and "healthy (cx_env cx') \<Longrightarrow> retained (cx_state cx') = I + retained (cx_state cx)"
    and "healthy (cx_env cx') \<Longrightarrow> \<not> cs_discovering (cx_state cx) \<Longrightarrow>
       accounted 0 (cx_state cx) (cx_state cx')"
  shows "stepc [] I cx cx'"
  unfolding stepc_def Let_def using assms by simp

end

end
