(* ===== verification/Recovery_Steps.thy ===== *)
theory Recovery_Steps
  imports Recovery_Channel
begin

text \<open>
  Every operation of \<open>SequenceRecovery\<close> on one channel keeps the channel invariant and is a
  \<open>stepc\<close> of the interface \<open>recovery_sink\<close>: emission, draining, gap recording, discovery,
  late diversion, freezing, and their composition in \<open>ProcessActive\<close> and \<open>FlushChannel\<close>,
  whose loops are proved to end.
\<close>

section \<open>Numbers\<close>

lemma good_seq_succ:
  assumes "good_seq seq"
  shows "unat (seq + 1) = Suc (unat seq)" and "unat (seq + 1) \<le> 2 ^ 63" and "seq < seq + 1"
proof -
  have "seq < U64_MAX" using assms by (simp add: good_seq_def word_less_nat_alt SIZE_MAX_def)
  then show s: "unat (seq + 1) = Suc (unat seq)" by (rule unat_succ)
  show "unat (seq + 1) \<le> 2 ^ 63" using assms s by (simp add: good_seq_def)
  show "seq < seq + 1" using s by (simp add: word_less_nat_alt)
qed

text \<open>While the missing positions stay below the frontier their count does not saturate.\<close>

lemma add_missing_exact:
  assumes "missing \<le> from" and "from < next"
  shows "unat (add_missing missing (next - from)) = unat missing + (unat next - unat from)"
    and "add_missing missing (next - from) \<le> next"
proof -
  have le: "unat missing \<le> unat from" "unat from < unat next"
    using assms by (simp_all add: word_le_nat_alt word_less_nat_alt)
  have d: "unat (next - from) = unat next - unat from"
    using assms(2) by (intro unat_diff) simp
  have r: "unat (U64_MAX - missing) = SIZE_MAX - unat missing"
    by (simp add: unat_diff SIZE_MAX_def)
  have n: "unat next \<le> SIZE_MAX" by simp
  have fits: "\<not> U64_MAX - missing < next - from"
    unfolding word_less_nat_alt r d using le n by linarith
  have "unat missing + unat (next - from) < 2 ^ 64"
    using le n d by (simp add: SIZE_MAX_def)
  then have s: "unat (missing + (next - from)) = unat missing + unat (next - from)"
    by (subst unat_word_ariths) simp
  show e: "unat (add_missing missing (next - from)) = unat missing + (unat next - unat from)"
    using fits by (simp add: add_missing_def s d)
  show "add_missing missing (next - from) \<le> next"
    using e le by (simp add: word_le_nat_alt)
qed

section \<open>Emission of one slot\<close>

definition emit_state :: "SlotRef \<Rightarrow> ChannelState \<Rightarrow> ChannelState" where
  "emit_state ref st = (slot_release ref st)
     \<lparr>cs_pending_count := cs_pending_count (slot_release ref st) - 1,
      cs_gap_metadata_pending := cs_gap_metadata_pending st \<and> \<not> ps_emit (slot_value ref st)\<rparr>"

lemma slot_release_fields [simp]:
  "cs_market (slot_release r st) = cs_market st" "cs_channel (slot_release r st) = cs_channel st"
  "cs_used (slot_release r st) = cs_used st" "cs_frozen (slot_release r st) = cs_frozen st"
  "cs_discovering (slot_release r st) = cs_discovering st"
  "cs_history_complete (slot_release r st) = cs_history_complete st"
  "cs_gap_metadata_pending (slot_release r st) = cs_gap_metadata_pending st"
  "cs_expected (slot_release r st) = cs_expected st"
  "cs_first_seen_ns (slot_release r st) = cs_first_seen_ns st"
  "cs_gap_open_ns (slot_release r st) = cs_gap_open_ns st"
  "cs_gap_epoch (slot_release r st) = cs_gap_epoch st"
  "cs_cumulative_missing (slot_release r st) = cs_cumulative_missing st"
  "cs_mailbox_slot (slot_release r st) = cs_mailbox_slot st"
  "cs_pending_count (slot_release r st) = cs_pending_count st"
  by (cases r; simp)+

lemma emit_state_fields [simp]:
  "cs_market (emit_state r st) = cs_market st" "cs_channel (emit_state r st) = cs_channel st"
  "cs_frozen (emit_state r st) = cs_frozen st"
  "cs_discovering (emit_state r st) = cs_discovering st"
  "cs_history_complete (emit_state r st) = cs_history_complete st"
  "cs_expected (emit_state r st) = cs_expected st"
  "cs_first_seen_ns (emit_state r st) = cs_first_seen_ns st"
  "cs_gap_open_ns (emit_state r st) = cs_gap_open_ns st"
  "cs_gap_epoch (emit_state r st) = cs_gap_epoch st"
  "cs_cumulative_missing (emit_state r st) = cs_cumulative_missing st"
  "cs_mailbox_slot (emit_state r st) = cs_mailbox_slot st"
  "cs_pending_count (emit_state r st) = cs_pending_count st - 1"
  "cs_pending (emit_state r st) = cs_pending (slot_release r st)"
  "cs_gap_metadata_pending (emit_state r st)
     \<longleftrightarrow> cs_gap_metadata_pending st \<and> \<not> ps_emit (slot_value r st)"
  by (simp_all add: emit_state_def)

lemma EmitOne_state: "cx_state (snd (EmitOne S r cx)) = emit_state r (cx_state cx)"
proof -
  have "(slot_release r st)\<lparr>cs_pending_count := n\<rparr> = (slot_release r st)
      \<lparr>cs_pending_count := n, cs_gap_metadata_pending := cs_gap_metadata_pending st\<rparr>" for st n
    by (rule ChannelState.equality) simp_all
  then show ?thesis
    by (auto simp: EmitOne_def emit_state_def Let_def split: prod.splits bool.splits)
qed

lemma emitted_raw:
  assumes "cs_gap_metadata_pending st \<longrightarrow> \<not> cs_history_complete st" and "cs_history_complete st"
  shows "emitted_tick st slot = ps_tick slot"
  using assms by (simp add: emitted_tick_def)

lemma emitted_flagged:
  assumes "\<not> cs_history_complete st"
  shows "t_validity (emitted_tick st slot) AND kTickChannelHistoryValid = 0"
proof -
  have "t_validity (emitted_tick st slot) = t_validity (ps_tick slot) AND NOT kTickChannelHistoryValid"
    using assms by (simp add: emitted_tick_def Let_def clear_history_def stamp_gap_def)
  then show ?thesis by (simp add: and.assoc)
qed

context recovery_sink
begin

lemma EmitOne_env:
  assumes "inv (cx_env cx)" and "EmitOne S r cx = (ok, cx1)"
  shows "inv (cx_env cx1)"
    and "ok \<Longrightarrow> healthy (cx_env cx1) = healthy (cx_env cx)"
    and "ok \<Longrightarrow> view (cx_env cx1) = view (cx_env cx) @
      (if ps_emit (slot_value r (cx_state cx))
       then filter sel [emitted_tick (cx_state cx) (slot_value r (cx_state cx))] else [])"
    and "\<not> ok \<Longrightarrow> \<not> healthy (cx_env cx1)"
    and "\<not> ok \<Longrightarrow> view (cx_env cx1) = view (cx_env cx)"
proof -
  let ?slot = "slot_value r (cx_state cx)"
  let ?t = "emitted_tick (cx_state cx) ?slot"
  have "inv (cx_env cx1) \<and>
    (ok \<longrightarrow> healthy (cx_env cx1) = healthy (cx_env cx) \<and> view (cx_env cx1) = view (cx_env cx) @
      (if ps_emit ?slot then filter sel [?t] else [])) \<and>
    (\<not> ok \<longrightarrow> \<not> healthy (cx_env cx1) \<and> view (cx_env cx1) = view (cx_env cx))"
  proof (cases "ps_emit ?slot")
    case False
    then show ?thesis using assms by (auto simp: EmitOne_def Let_def)
  next
    case True
    obtain b env where e: "sk_tick S ?t (cx_env cx) = (b, env)" by (cases "sk_tick S ?t (cx_env cx)")
    show ?thesis
    proof (cases b)
      case True
      with \<open>ps_emit ?slot\<close> e assms(2) have "ok" "cx_env cx1 = env"
        by (auto simp: EmitOne_def Let_def)
      then show ?thesis using tick_accepted [OF assms(1), of ?t env] e True \<open>ps_emit ?slot\<close> by simp
    next
      case False
      with \<open>ps_emit ?slot\<close> e assms(2) have
        "\<not> ok" "cx_env cx1 = sk_fatal S ''instrument tick dispatch queue overflow'' env"
        by (auto simp: EmitOne_def Let_def)
      moreover have "inv env \<and> view env = view (cx_env cx)"
        using tick_refused [OF assms(1), of ?t env] e False by simp
      ultimately show ?thesis using fatal_kept [of env] by simp
    qed
  qed
  then show "inv (cx_env cx1)" "ok \<Longrightarrow> healthy (cx_env cx1) = healthy (cx_env cx)"
    "ok \<Longrightarrow> view (cx_env cx1) = view (cx_env cx) @
      (if ps_emit ?slot then filter sel [?t] else [])"
    "\<not> ok \<Longrightarrow> \<not> healthy (cx_env cx1)" "\<not> ok \<Longrightarrow> view (cx_env cx1) = view (cx_env cx)"
    by blast+
qed

end

text \<open>The frontier moves past a consumed position.\<close>

definition bump :: "'s ChannelCtx \<Rightarrow> 's ChannelCtx" where
  "bump cx = cx\<lparr>cx_state := (cx_state cx)\<lparr>cs_expected := cs_expected (cx_state cx) + 1\<rparr>\<rparr>"

lemma bump_fields [simp]:
  "cx_env (bump cx) = cx_env cx" "cx_next_deadline (bump cx) = cx_next_deadline cx"
  "cx_state (bump cx) = (cx_state cx)\<lparr>cs_expected := cs_expected (cx_state cx) + 1\<rparr>"
  by (simp_all add: bump_def)

lemma retained_cong: "cs_pending st = cs_pending st' \<Longrightarrow> retained st = retained st'"
  by (simp add: retained_def)

lemma retained_upd [simp]:
  "retained (cs_expected_update f st) = retained st"
  "retained (cs_gap_open_ns_update g st) = retained st"
  "retained (cs_discovering_update h st) = retained st"
  "retained (cs_first_seen_ns_update g st) = retained st"
  "retained (cs_frozen_update h st) = retained st"
  by (simp_all add: retained_def)

context recovery_sink
begin

text \<open>
  One emission, for a slot that is at the frontier: from \<open>st\<close> (which counts the slot) to the
  state in which the frontier has moved, or has not when the callback refused the tick.
\<close>

lemma emit_stepc:
  assumes inv: "inv (cx_env cx)" and em: "EmitOne S r cx = (ok, cx1)"
    and slot: "slot = slot_value r (cx_state cx)"
    and at: "slot_seq slot = cs_expected (cx_state cx)" and good: "good_seq (slot_seq slot)"
    and key: "tick_market (ps_tick slot) = cs_market (cx_state cx)"
      "tick_channel (ps_tick slot) = cs_channel (cx_state cx)"
    and meta: "cs_gap_metadata_pending (cx_state cx) \<longrightarrow> \<not> cs_history_complete (cx_state cx)"
    and ret: "I + retained (cx_state cx) = add_mset slot (retained (emit_state r (cx_state cx)))"
  shows "ok \<Longrightarrow> stepc [(slot, emitted_tick (cx_state cx) slot)] I cx (bump cx1)"
    and "\<not> ok \<Longrightarrow> stepc [] I cx cx1"
    and "\<not> ok \<Longrightarrow> \<not> healthy (cx_env cx1)"
    and "ok \<Longrightarrow> healthy (cx_env cx1) = healthy (cx_env cx)"
proof -
  have st: "cx_state cx1 = emit_state r (cx_state cx)" using EmitOne_state [of S r cx] em by simp
  note E = EmitOne_env [OF inv em]
  note G = good_seq_succ [OF good]
  show "ok \<Longrightarrow> stepc [(slot, emitted_tick (cx_state cx) slot)] I cx (bump cx1)"
  proof -
    assume ok
    have "accounted 1 (cx_state cx) (cx_state (bump cx1))"
      using G(1) by (simp add: accounted_def st at)
    moreover have "consumed_ok (cx_state cx) (cx_state (bump cx1)) (slot, emitted_tick (cx_state cx) slot)"
      using G(3) key meta emitted_raw [of "cx_state cx" slot] emitted_flagged [of "cx_state cx" slot]
      by (auto simp: consumed_ok_def st at)
    moreover have "cs_expected (cx_state cx) \<le> cs_expected (cx_state cx) + 1"
      using G(3) at by simp
    ultimately show ?thesis
      unfolding stepc_def Let_def using E(1-3) \<open>ok\<close> ret by (simp add: st slot)
  qed
  show "\<not> ok \<Longrightarrow> stepc [] I cx cx1"
    using E by (intro stepc_silent) (simp_all add: st)
  show "\<not> ok \<Longrightarrow> \<not> healthy (cx_env cx1)" by (rule E(4))
  show "ok \<Longrightarrow> healthy (cx_env cx1) = healthy (cx_env cx)" by (rule E(2))
qed

end

section \<open>Releasing a slot of the table\<close>

lemma Find_pending_Some:
  assumes "cfg_ok cfg" and "chan_inv cfg st" and "Find_pending cfg st seq = Some i"
  shows "i = pending_index cfg seq" and "i < length (cs_pending st)"
    and "ps_occupied (cs_pending st ! i)" and "slot_seq (cs_pending st ! i) = seq"
    and "cs_pending st ! i \<in># retained st"
proof -
  show f: "i = pending_index cfg seq" "ps_occupied (cs_pending st ! i)"
    "slot_seq (cs_pending st ! i) = seq"
    using assms(3) by (auto simp: Find_pending_def Let_def split: if_splits)
  show l: "i < length (cs_pending st)"
    using f(1) pending_index_less [OF assms(1), of seq] assms(2) by (simp add: chan_inv_def)
  show "cs_pending st ! i \<in># retained st" using f l by (auto simp: in_retained)
qed

lemma Find_pending_None:
  assumes "chan_inv cfg st" and "Find_pending cfg st seq = None" and "slot \<in># retained st"
  shows "slot_seq slot \<noteq> seq"
proof
  assume "slot_seq slot = seq"
  moreover have "ps_occupied slot" using assms(3) by (simp add: in_retained)
  ultimately show False
    using retained_home(2) [OF assms(1,3)] assms(2) by (simp add: Find_pending_def Let_def)
qed

lemma release_retained:
  assumes "i < length (cs_pending st)" and "ps_occupied (cs_pending st ! i)"
  shows "retained st = add_mset (cs_pending st ! i) (retained (emit_state (TableSlot i) st))"
proof -
  have "retained (emit_state (TableSlot i) st)
      = mset (filter ps_occupied ((cs_pending st)[i := (cs_pending st ! i)\<lparr>ps_occupied := False\<rparr>]))"
    by (simp add: retained_def)
  then show ?thesis
    using filter_update_out [of i "cs_pending st" ps_occupied "(cs_pending st ! i)\<lparr>ps_occupied := False\<rparr>"]
      assms by (simp add: retained_def)
qed

lemma release_inv:
  assumes inv: "chan_inv cfg st" and i: "i < length (cs_pending st)"
    and occ: "ps_occupied (cs_pending st ! i)"
  shows "chan_inv cfg (emit_state (TableSlot i) st)"
  unfolding chan_inv_def
proof (intro conjI allI impI)
  let ?st = "emit_state (TableSlot i) st"
  note I = inv [unfolded chan_inv_def]
  show "length (cs_pending ?st) = rc_entries_per_channel cfg" using I by simp
  show "cs_pending_count ?st = size (retained ?st)"
    using I release_retained [OF i occ] by simp
  show "unat (cs_expected ?st) \<le> 2 ^ 63" "cs_cumulative_missing ?st \<le> cs_expected ?st"
    using I by simp_all
  show "cs_expected ?st = 0" if "cs_discovering ?st" using I that by simp
  show "\<not> cs_history_complete ?st" if "cs_gap_metadata_pending ?st" using I that by simp
  fix j assume j: "j < length (cs_pending ?st)" "ps_occupied (cs_pending ?st ! j)"
  then have "j \<noteq> i" "ps_occupied (cs_pending st ! j)" using i by (auto simp: nth_list_update split: if_splits)
  then show "slot_home cfg ?st j (cs_pending ?st ! j)" using I j by (simp add: slot_home_def)
qed

lemma chan_inv_expected:
  assumes "chan_inv cfg st" and "unat e \<le> 2 ^ 63" and "cs_cumulative_missing st \<le> e"
    and "\<not> cs_discovering st"
  shows "chan_inv cfg (st\<lparr>cs_expected := e\<rparr>)"
  using assms by (simp add: chan_inv_def slot_home_def)

lemma chan_inv_upd [simp]:
  "chan_inv cfg (st\<lparr>cs_gap_open_ns := t\<rparr>) = chan_inv cfg st"
  "chan_inv cfg (st\<lparr>cs_first_seen_ns := t\<rparr>) = chan_inv cfg st"
  "chan_inv cfg (st\<lparr>cs_frozen := b\<rparr>) = chan_inv cfg st"
  by (simp_all add: chan_inv_def slot_home_def)

lemma frontier_upd [simp]:
  "frontier_lt (st\<lparr>cs_gap_open_ns := t\<rparr>) = frontier_lt st"
  "frontier_lt (st\<lparr>cs_first_seen_ns := t\<rparr>) = frontier_lt st"
  "frontier_lt (st\<lparr>cs_frozen := b\<rparr>) = frontier_lt st"
  "frontier_lt (st\<lparr>cs_discovering := b\<rparr>) = frontier_lt st"
  by (simp_all add: frontier_lt_def)

text \<open>Releasing the slot at the frontier leaves every other slot ahead of it.\<close>

lemma release_frontier:
  assumes "chan_inv cfg st" and "frontier_le st" and i: "i < length (cs_pending st)"
    and occ: "ps_occupied (cs_pending st ! i)" and at: "slot_seq (cs_pending st ! i) = cs_expected st"
  shows "frontier_lt (emit_state (TableSlot i) st)"
  unfolding frontier_lt_def
proof
  let ?st = "emit_state (TableSlot i) st"
  fix slot assume s: "slot \<in># retained ?st"
  then have old: "slot \<in># retained st" using release_retained [OF i occ] by simp
  then have "cs_expected st \<le> slot_seq slot" using assms(2) by (simp add: frontier_le_def)
  moreover have "slot_seq slot \<noteq> cs_expected st"
  proof
    assume "slot_seq slot = cs_expected st"
    then have "slot = cs_pending st ! i"
      using at i occ by (intro retained_inj [OF assms(1) old]) (auto simp: in_retained)
    moreover have "pending_index cfg (slot_seq (cs_pending st ! i)) = i"
      using assms(1) i occ by (simp add: chan_inv_def slot_home_def)
    ultimately have "cs_pending ?st ! i = slot"
      using retained_home(2) [OF release_inv [OF assms(1) i occ] s] by simp
    moreover have "ps_occupied slot" using s by (simp add: in_retained)
    ultimately show False using i by (metis PendingSlot.select_convs(2) PendingSlot.surjective PendingSlot.update_convs(2) nth_list_update_eq emit_state_fields(13) slot_release_pending)
  qed
  ultimately show "cs_expected ?st < slot_seq slot" by simp
qed

section \<open>Draining\<close>

definition ctx_ok :: "RecoveryConfig \<Rightarrow> 's ChannelCtx \<Rightarrow> bool" where
  "ctx_ok cfg cx \<longleftrightarrow> chan_inv cfg (cx_state cx) \<and> frontier_lt (cx_state cx)"

text \<open>The same before a drain, when the frontier itself may still be retained.\<close>

definition ctx_due :: "RecoveryConfig \<Rightarrow> 's ChannelCtx \<Rightarrow> bool" where
  "ctx_due cfg cx \<longleftrightarrow> chan_inv cfg (cx_state cx) \<and> frontier_le (cx_state cx)
     \<and> \<not> cs_discovering (cx_state cx)"

lemma DrainContiguous_shape:
  "\<exists>t e. DrainContiguous S cfg now cx = (snd (drain_loop S cfg cx))
    \<lparr>cx_state := (cx_state (snd (drain_loop S cfg cx)))\<lparr>cs_gap_open_ns := t\<rparr>,
     cx_next_deadline := e\<rparr>"
proof (cases "drain_loop S cfg cx")
  case (Pair ok cx1)
  show ?thesis
  proof (cases ok)
    case False
    show ?thesis
      by (rule exI [of _ "cs_gap_open_ns (cx_state cx1)"], rule exI [of _ "cx_next_deadline cx1"])
        (simp add: DrainContiguous_def Pair False)
  next
    case True
    let ?t = "if cs_pending_count (cx_state cx1) = 0 then 0 else now"
    let ?e = "if ?t \<noteq> 0 then ScheduleDeadline ?t (rc_gap_wait_ns cfg) (cx_next_deadline cx1)
      else cx_next_deadline cx1"
    show ?thesis
      by (rule exI [of _ ?t], rule exI [of _ ?e], rule ChannelCtx.equality)
        (simp_all add: DrainContiguous_def Pair True Let_def)
  qed
qed

context recovery_sink
begin

lemma drain_loop_spec:
  assumes "cfg_ok cfg" and "ctx_due cfg cx" and "inv (cx_env cx)"
    and "drain_loop S cfg cx = (ok, cx')"
  shows "\<exists>c. stepc c {#} cx cx' \<and> ctx_ok cfg cx' \<and> size (retained (cx_state cx')) \<le> size (retained (cx_state cx))
    \<and> (\<not> ok \<longrightarrow> \<not> healthy (cx_env cx')) \<and> (ok \<longrightarrow> healthy (cx_env cx') = healthy (cx_env cx))
    \<and> cs_frozen (cx_state cx') = cs_frozen (cx_state cx)
    \<and> (Find_pending cfg (cx_state cx) (cs_expected (cx_state cx)) \<noteq> None
        \<longrightarrow> size (retained (cx_state cx')) < size (retained (cx_state cx)))"
  using assms
proof (induction "size (retained (cx_state cx))" arbitrary: cx rule: less_induct)
  case less
  let ?st = "cx_state cx"
  have inv: "chan_inv cfg ?st" and le: "frontier_le ?st" and nd: "\<not> cs_discovering ?st"
    using less.prems(2) by (simp_all add: ctx_due_def)
  show ?case
  proof (cases "Find_pending cfg ?st (cs_expected ?st)")
    case None
    have "frontier_lt ?st"
      using le Find_pending_None [OF inv None] unfolding frontier_lt_def frontier_le_def
      by (metis order_less_le)
    moreover have "ok" "cx' = cx" using less.prems(4) None by (simp_all add: drain_loop.simps)
    moreover have "stepc [] {#} cx cx"
      using less.prems(3) by (intro stepc_silent) (simp_all add: accounted_def)
    ultimately show ?thesis using inv None by (auto simp: ctx_ok_def)
  next
    case (Some i)
    note F = Find_pending_Some [OF less.prems(1) inv Some]
    let ?slot = "cs_pending ?st ! i"
    let ?st1 = "emit_state (TableSlot i) ?st"
    obtain b cx1 where em: "EmitOne S (TableSlot i) cx = (b, cx1)" by (cases "EmitOne S (TableSlot i) cx")
    have home: "good_seq (slot_seq ?slot)" "tick_market (ps_tick ?slot) = cs_market ?st"
      "tick_channel (ps_tick ?slot) = cs_channel ?st"
      using retained_home(1) [OF inv F(5)] by (simp_all add: slot_home_def)
    have meta: "cs_gap_metadata_pending ?st \<longrightarrow> \<not> cs_history_complete ?st"
      using inv by (simp add: chan_inv_def)
    have ret: "{#} + retained ?st = add_mset ?slot (retained ?st1)"
      using release_retained [OF F(2,3)] by simp
    have st1: "cx_state cx1 = ?st1" using EmitOne_state [of S "TableSlot i" cx] em by simp
    note E = emit_stepc [OF less.prems(3) em _ F(4) home meta ret, OF _ ]
    have inv1: "chan_inv cfg ?st1" by (rule release_inv [OF inv F(2,3)])
    have lt1: "frontier_lt ?st1" by (rule release_frontier [OF inv le F(2,3,4)])
    have smaller: "size (retained ?st1) < size (retained ?st)" using ret by simp
    show ?thesis
    proof (cases b)
      case False
      then have "ok = False" "cx' = cx1"
        using less.prems(4) Some em F(2) by (simp_all add: drain_loop.simps)
      then show ?thesis
        using E(2,3) False inv1 lt1 smaller by (intro exI [of _ "[]"]) (simp add: ctx_ok_def st1)
    next
      case True
      have rec: "drain_loop S cfg (bump cx1) = (ok, cx')"
        using less.prems(4) Some em True F(2) by (subst (asm) drain_loop.simps) (simp add: bump_def)
      have step1: "stepc [(?slot, emitted_tick ?st ?slot)] {#} cx (bump cx1)"
        using E(1) True by simp
      have good: "good_seq (cs_expected ?st)" using home(1) F(4) by simp
      note G = good_seq_succ [OF good]
      have "chan_inv cfg (cx_state (bump cx1))"
        using inv1 G inv nd by (auto simp: st1 chan_inv_def slot_home_def)
      moreover have "frontier_le (cx_state (bump cx1))"
        using lt1 by (auto simp: frontier_lt_def frontier_le_def st1 intro: word_less_succ_le)
      ultimately have due: "ctx_due cfg (bump cx1)" using nd by (simp add: ctx_due_def st1)
      have size1: "size (retained (cx_state (bump cx1))) < size (retained ?st)"
        using smaller by (simp add: st1)
      have "inv (cx_env (bump cx1))" by (rule stepcD(1) [OF step1])
      from less.hyps [OF size1 less.prems(1) due this rec] obtain c where
        c: "stepc c {#} (bump cx1) cx'" "ctx_ok cfg cx'"
        "size (retained (cx_state cx')) \<le> size (retained (cx_state (bump cx1)))"
        "\<not> ok \<longrightarrow> \<not> healthy (cx_env cx')" "ok \<longrightarrow> healthy (cx_env cx') = healthy (cx_env (bump cx1))"
        "cs_frozen (cx_state cx') = cs_frozen (cx_state (bump cx1))" by blast
      have "stepc ([(?slot, emitted_tick ?st ?slot)] @ c) ({#} + {#}) cx cx'"
        by (rule stepc_trans [OF step1 c(1)])
      then show ?thesis
        using c(2-6) size1 E(4) True by (intro exI [of _ "[(?slot, emitted_tick ?st ?slot)] @ c"])
          (simp add: st1)
    qed
  qed
qed

lemma stepc_refl: "inv (cx_env cx) \<Longrightarrow> stepc [] {#} cx cx"
  by (intro stepc_silent) (simp_all add: accounted_def)

text \<open>Changing only the deadline bookkeeping of the channel.\<close>

lemma stepc_deadline:
  assumes "stepc c I cx cx1"
  shows "stepc c I cx (cx1\<lparr>cx_state := (cx_state cx1)\<lparr>cs_gap_open_ns := t\<rparr>\<rparr>)"
    and "stepc c I cx (cx1\<lparr>cx_next_deadline := d\<rparr>)"
    and "stepc c I cx (cx1\<lparr>cx_state := (cx_state cx1)\<lparr>cs_first_seen_ns := t\<rparr>\<rparr>)"
  using assms by (simp_all add: stepc_def Let_def accounted_def consumed_ok_def)

lemma DrainContiguous_spec:
  assumes "cfg_ok cfg" and "ctx_due cfg cx" and "inv (cx_env cx)"
  shows "\<exists>c. stepc c {#} cx (DrainContiguous S cfg now cx) \<and> ctx_ok cfg (DrainContiguous S cfg now cx)
    \<and> size (retained (cx_state (DrainContiguous S cfg now cx))) \<le> size (retained (cx_state cx))
    \<and> cs_frozen (cx_state (DrainContiguous S cfg now cx)) = cs_frozen (cx_state cx)
    \<and> (Find_pending cfg (cx_state cx) (cs_expected (cx_state cx)) \<noteq> None
        \<longrightarrow> size (retained (cx_state (DrainContiguous S cfg now cx))) < size (retained (cx_state cx)))"
proof -
  obtain ok cx1 where d: "drain_loop S cfg cx = (ok, cx1)" by (cases "drain_loop S cfg cx")
  from drain_loop_spec [OF assms d] obtain c where c: "stepc c {#} cx cx1" "ctx_ok cfg cx1"
    "size (retained (cx_state cx1)) \<le> size (retained (cx_state cx))"
    "cs_frozen (cx_state cx1) = cs_frozen (cx_state cx)"
    "Find_pending cfg (cx_state cx) (cs_expected (cx_state cx)) \<noteq> None
        \<longrightarrow> size (retained (cx_state cx1)) < size (retained (cx_state cx))" by blast
  from DrainContiguous_shape [of S cfg now cx] d obtain t e where
    eq: "DrainContiguous S cfg now cx
      = cx1\<lparr>cx_state := (cx_state cx1)\<lparr>cs_gap_open_ns := t\<rparr>, cx_next_deadline := e\<rparr>" by auto
  have "stepc c {#} cx (DrainContiguous S cfg now cx)"
    unfolding eq by (rule stepc_deadline(2) [OF stepc_deadline(1) [OF c(1)]])
  moreover have "cx_state (DrainContiguous S cfg now cx) = (cx_state cx1)\<lparr>cs_gap_open_ns := t\<rparr>"
    by (simp add: eq)
  ultimately show ?thesis using c(2-5) by (intro exI [of _ c]) (simp add: ctx_ok_def)
qed

definition set_expected :: "u64 \<Rightarrow> 's ChannelCtx \<Rightarrow> 's ChannelCtx" where
  "set_expected e cx = cx\<lparr>cx_state := (cx_state cx)\<lparr>cs_expected := e\<rparr>\<rparr>"

lemma RecordGap_spec:
  assumes inv: "chan_inv cfg (cx_state cx)" and env: "inv (cx_env cx)"
    and lim: "cs_mailbox_slot (cx_state cx) < limit" and nd: "\<not> cs_discovering (cx_state cx)"
    and gt: "cs_expected (cx_state cx) < next" and small: "unat next \<le> 2 ^ 63"
    and rec: "RecordGap S (cs_expected (cx_state cx)) (next - 1) next now cx = (ok, cx1)"
  shows "ok" and "stepc [] {#} cx (set_expected next cx1)" and "chan_inv cfg (cx_state (set_expected next cx1))"
    and "cs_pending (cx_state cx1) = cs_pending (cx_state cx)"
    and "healthy (cx_env cx1) = healthy (cx_env cx)"
    and "cs_frozen (cx_state cx1) = cs_frozen (cx_state cx)"
    and "cs_discovering (cx_state cx1) = cs_discovering (cx_state cx)"
proof -
  let ?st = "cx_state cx"
  let ?e = "cs_expected ?st"
  have "?e \<le> next - 1" using gt by unat_arith
  then have nlt: "\<not> next - 1 < ?e" by simp
  define st1 where "st1 = ?st\<lparr>cs_history_complete := False,
      cs_gap_epoch := (if cs_gap_epoch ?st \<noteq> U64_MAX then cs_gap_epoch ?st + 1 else cs_gap_epoch ?st),
      cs_cumulative_missing := add_missing (cs_cumulative_missing ?st) (next - ?e),
      cs_pending_gap_first := ?e, cs_pending_gap_last := next - 1, cs_gap_metadata_pending := True\<rparr>"
  define g where "g = \<lparr>g_market = cs_market st1, g_channel = cs_channel st1,
      g_first_missing = ?e, g_last_missing = next - 1, g_first_present_after_gap = next,
      g_detected_monotonic_ns = now, g_gap_epoch = cs_gap_epoch st1,
      g_cumulative_missing_sequences = cs_cumulative_missing st1\<rparr>"
  obtain b env1 where gp: "sk_gap S (cs_mailbox_slot ?st) g (cx_env cx) = (b, env1)"
    by (cases "sk_gap S (cs_mailbox_slot ?st) g (cx_env cx)")
  have K: "inv env1 \<and> healthy env1 = healthy (cx_env cx) \<and> view env1 = view (cx_env cx) \<and> b"
    using gap_kept [OF env gp] lim by simp
  have r: "ok" "cx1 = cx\<lparr>cx_state := st1,
      cx_env := sk_stats S (\<lambda>st. st\<lparr>ts_gaps_skipped := ts_gaps_skipped st + 1\<rparr>) env1\<rparr>"
    using rec nlt gp K by (auto simp: RecordGap_def Let_def st1_def g_def)
  have S1: "inv (cx_env cx1)" "healthy (cx_env cx1) = healthy (cx_env cx)"
    "view (cx_env cx1) = view (cx_env cx)"
    using stats_kept [OF _ keeps_dispatched_updates(5), of env1] K by (simp_all add: r(2))
  have M: "unat (cs_cumulative_missing st1) = unat (cs_cumulative_missing ?st) + (unat next - unat ?e)"
    "cs_cumulative_missing st1 \<le> next"
    using add_missing_exact [OF _ gt, of "cs_cumulative_missing ?st"] inv
    by (simp_all add: st1_def chan_inv_def)
  show ok by (rule r(1))
  show "healthy (cx_env cx1) = healthy (cx_env cx)" by (rule S1(2))
  show "cs_pending (cx_state cx1) = cs_pending ?st" "cs_frozen (cx_state cx1) = cs_frozen ?st"
    "cs_discovering (cx_state cx1) = cs_discovering ?st"
    by (simp_all add: r(2) st1_def)
  show "chan_inv cfg (cx_state (set_expected next cx1))"
    using inv M(2) small nd
    by (simp add: chan_inv_def slot_home_def set_expected_def r(2) st1_def retained_def)
  have "unat ?e < unat next" using gt by (simp add: word_less_nat_alt)
  then have "accounted 0 ?st (cx_state (set_expected next cx1))"
    using M(1) by (simp add: accounted_def set_expected_def r(2))
  moreover have "retained st1 = retained ?st" by (simp add: st1_def retained_def)
  ultimately show "stepc [] {#} cx (set_expected next cx1)"
    using S1 gt by (intro stepc_silent) (simp_all add: set_expected_def r(2) st1_def)
qed

end

end
