(* ===== verification/Recovery_Process.thy ===== *)
theory Recovery_Process
  imports Recovery_Steps
begin

text \<open>
  The composed operations of \<open>SequenceRecovery\<close> on one channel (\<open>ForceGapToMinimum\<close>,
  \<open>FinishDiscovery\<close>, \<open>ProcessActive\<close>, \<open>ProcessChannel\<close>, \<open>PollChannel\<close>, \<open>FlushChannel\<close>):
  each returns, keeps the channel invariant and is a \<open>stepc\<close>.
\<close>

section \<open>What draining cannot do\<close>

text \<open>Draining retains no new slot, and it stops at a position that is not retained.\<close>

lemma drain_loop_pure:
  "drain_loop S cfg cx = (ok, cx') \<Longrightarrow> retained (cx_state cx') \<subseteq># retained (cx_state cx) \<and>
    (\<forall>e. cs_expected (cx_state cx) \<le> e \<longrightarrow> (\<forall>s \<in># retained (cx_state cx). slot_seq s \<noteq> e)
      \<longrightarrow> cs_expected (cx_state cx') \<le> e)"
proof (induction S cfg cx arbitrary: ok cx' rule: drain_loop.induct)
  case (1 S cfg cx)
  let ?st = "cx_state cx"
  show ?case
  proof (cases "Find_pending cfg ?st (cs_expected ?st)")
    case None
    then show ?thesis using "1.prems" by (simp add: drain_loop.simps)
  next
    case (Some i)
    show ?thesis
    proof (cases "length (cs_pending ?st) \<le> i")
      case True
      then show ?thesis using "1.prems" Some by (simp add: drain_loop.simps)
    next
      case False
      obtain b cx1 where em: "EmitOne S (TableSlot i) cx = (b, cx1)" by (cases "EmitOne S (TableSlot i) cx")
      have st1: "cx_state cx1 = emit_state (TableSlot i) ?st"
        using EmitOne_state [of S "TableSlot i" cx] em by simp
      have f: "ps_occupied (cs_pending ?st ! i)" "slot_seq (cs_pending ?st ! i) = cs_expected ?st"
        using Some by (auto simp: Find_pending_def Let_def split: if_splits)
      have ret: "retained ?st = add_mset (cs_pending ?st ! i) (retained (cx_state cx1))"
        unfolding st1 using False f(1) by (intro release_retained) simp_all
      show ?thesis
      proof (cases b)
        case False
        then have "cx' = cx1" using "1.prems" Some em \<open>\<not> length (cs_pending ?st) \<le> i\<close>
          by (simp add: drain_loop.simps)
        then show ?thesis using ret by (simp add: st1)
      next
        case True
        have rec: "drain_loop S cfg (bump cx1) = (ok, cx')"
          using "1.prems" Some em True False by (subst (asm) drain_loop.simps) (simp add: bump_def)
        have IH: "retained (cx_state cx') \<subseteq># retained (cx_state (bump cx1)) \<and>
          (\<forall>e. cs_expected (cx_state (bump cx1)) \<le> e \<longrightarrow>
             (\<forall>s \<in># retained (cx_state (bump cx1)). slot_seq s \<noteq> e) \<longrightarrow> cs_expected (cx_state cx') \<le> e)"
          using "1.IH" [OF Some False em [symmetric] refl] True rec by (simp add: bump_def)
        have "cs_expected (cx_state cx') \<le> e"
          if e: "cs_expected ?st \<le> e" "\<forall>s \<in># retained ?st. slot_seq s \<noteq> e" for e
        proof -
          have "slot_seq (cs_pending ?st ! i) \<noteq> e" using e(2) ret by simp
          then have "cs_expected ?st < e" using e(1) f(2) by simp
          then have "cs_expected (cx_state (bump cx1)) \<le> e"
            using word_less_succ_le by (simp add: st1)
          moreover have "\<forall>s \<in># retained (cx_state (bump cx1)). slot_seq s \<noteq> e" using e(2) ret by simp
          ultimately show ?thesis using IH by blast
        qed
        then show ?thesis using IH ret by (auto intro: subset_mset.trans)
      qed
    qed
  qed
qed

lemma DrainContiguous_pure:
  "retained (cx_state (DrainContiguous S cfg now cx)) \<subseteq># retained (cx_state cx)"
  "cs_expected (cx_state cx) \<le> e \<Longrightarrow> \<forall>s \<in># retained (cx_state cx). slot_seq s \<noteq> e \<Longrightarrow>
     cs_expected (cx_state (DrainContiguous S cfg now cx)) \<le> e"
proof -
  obtain ok cx1 where d: "drain_loop S cfg cx = (ok, cx1)" by (cases "drain_loop S cfg cx")
  from DrainContiguous_shape [of S cfg now cx] d obtain t f where
    eq: "DrainContiguous S cfg now cx
      = cx1\<lparr>cx_state := (cx_state cx1)\<lparr>cs_gap_open_ns := t\<rparr>, cx_next_deadline := f\<rparr>" by auto
  show "retained (cx_state (DrainContiguous S cfg now cx)) \<subseteq># retained (cx_state cx)"
    using drain_loop_pure [OF d] by (simp add: eq)
  show "cs_expected (cx_state cx) \<le> e \<Longrightarrow> \<forall>s \<in># retained (cx_state cx). slot_seq s \<noteq> e \<Longrightarrow>
     cs_expected (cx_state (DrainContiguous S cfg now cx)) \<le> e"
    using drain_loop_pure [OF d] by (simp add: eq)
qed

section \<open>Insertion\<close>

definition arrival :: "TickDecodeResult \<Rightarrow> PendingSlot" where
  "arrival decoded = \<lparr>ps_tick = td_tick decoded, ps_occupied = True, ps_emit = td_catalog_match decoded\<rparr>"

lemma arrival_fields [simp]:
  "ps_tick (arrival d) = td_tick d" "ps_occupied (arrival d)" "ps_emit (arrival d) = td_catalog_match d"
  by (simp_all add: arrival_def)

text \<open>The position of the record is already retained.\<close>

definition held :: "ChannelState \<Rightarrow> u64 \<Rightarrow> bool" where
  "held st seq \<longleftrightarrow> (\<exists>slot \<in># retained st. slot_seq slot = seq)"

lemma Insert_cases:
  assumes cfg: "cfg_ok cfg" and inv: "chan_inv cfg st" and lt: "frontier_lt st"
    and good: "good_seq (native_seq (td_tick decoded))"
    and gt: "cs_expected st < native_seq (td_tick decoded)"
    and key: "tick_market (td_tick decoded) = cs_market st" "tick_channel (td_tick decoded) = cs_channel st"
  obtains (inserted) st1 where "Insert cfg decoded st = (kInserted, st1)"
      "retained st1 = add_mset (arrival decoded) (retained st)" "chan_inv cfg st1" "frontier_lt st1"
      "\<not> held st (native_seq (td_tick decoded))"
      "st1 = st\<lparr>cs_pending := cs_pending st1, cs_pending_count := Suc (cs_pending_count st)\<rparr>"
    | (duplicate) "Insert cfg decoded st = (kDuplicate, st)" "held st (native_seq (td_tick decoded))"
    | (conflict) "Insert cfg decoded st = (kConflict, st)" "held st (native_seq (td_tick decoded))"
    | (collision) "Insert cfg decoded st = (kCollision, st)" "\<not> held st (native_seq (td_tick decoded))"
      "retained st \<noteq> {#}"
proof -
  let ?seq = "native_seq (td_tick decoded)"
  let ?i = "pending_index cfg ?seq"
  let ?slot = "cs_pending st ! ?i"
  have len: "length (cs_pending st) = rc_entries_per_channel cfg" using inv by (simp add: chan_inv_def)
  have i: "?i < length (cs_pending st)" using pending_index_less [OF cfg] len by simp
  have nheld: "\<not> held st ?seq" if "\<not> (ps_occupied ?slot \<and> slot_seq ?slot = ?seq)"
  proof
    assume "held st ?seq"
    then obtain s where s: "s \<in># retained st" "slot_seq s = ?seq" by (auto simp: held_def)
    have "?slot = s" using retained_home(2) [OF inv s(1)] s(2) by simp
    then show False using that s by (simp add: in_retained)
  qed
  show thesis
  proof (cases "ps_occupied ?slot")
    case occ: True
    then have in_ret: "?slot \<in># retained st" using i by (auto simp: in_retained)
    show thesis
    proof (cases "slot_seq ?slot = ?seq")
      case True
      then have "held st ?seq" using in_ret by (auto simp: held_def)
      moreover have "Insert cfg decoded st
          = (if CanonicalPayloadEqual (ps_tick ?slot) (td_tick decoded)
                \<and> ps_emit ?slot = td_catalog_match decoded then kDuplicate else kConflict, st)"
        using occ True by (simp add: Insert_def Let_def)
      ultimately show thesis
        using duplicate conflict
        by (cases "CanonicalPayloadEqual (ps_tick ?slot) (td_tick decoded)
              \<and> ps_emit ?slot = td_catalog_match decoded") simp_all
    next
      case False
      have "Insert cfg decoded st = (kCollision, st)" using occ False by (simp add: Insert_def Let_def)
      then show thesis by (rule collision [OF _ nheld]) (use False in_ret in auto)
    qed
  next
    case False
    let ?st1 = "st\<lparr>cs_pending := (cs_pending st)[?i := arrival decoded],
      cs_pending_count := Suc (cs_pending_count st)\<rparr>"
    have ins: "Insert cfg decoded st = (kInserted, ?st1)"
      using False by (simp add: Insert_def Let_def arrival_def)
    have ret: "retained ?st1 = add_mset (arrival decoded) (retained st)"
      using filter_update_in [OF i, of ps_occupied "arrival decoded"] False by (simp add: retained_def)
    have home: "slot_home cfg ?st1 ?i (arrival decoded)" using good key by (simp add: slot_home_def)
    have "slot_home cfg ?st1 j (cs_pending ?st1 ! j)"
      if "j < length (cs_pending ?st1)" "ps_occupied (cs_pending ?st1 ! j)" for j
    proof (cases "j = ?i")
      case True
      then show ?thesis using home i by simp
    next
      case False
      then show ?thesis using that inv by (simp add: chan_inv_def slot_home_def)
    qed
    then have inv1: "chan_inv cfg ?st1" using inv ret by (simp add: chan_inv_def)
    have lt1: "frontier_lt ?st1" using lt gt unfolding frontier_lt_def ret by simp
    show thesis
      by (rule inserted [OF ins ret inv1 lt1]) (use nheld False in simp_all)
  qed
qed

context recovery_sink
begin

section \<open>Forcing the frontier and leaving discovery\<close>

text \<open>What every composed operation guarantees, with the slots \<open>I\<close> it was given.\<close>

definition kept :: "RecoveryConfig \<Rightarrow> PendingSlot multiset \<Rightarrow> 's ChannelCtx \<Rightarrow> 's ChannelCtx \<Rightarrow> bool" where
  "kept cfg I cx cx' \<longleftrightarrow> (\<exists>c. stepc c I cx cx') \<and> ctx_ok cfg cx'"

definition ready :: "RecoveryConfig \<Rightarrow> 's ChannelCtx \<Rightarrow> bool" where
  "ready cfg cx \<longleftrightarrow> cfg_ok cfg \<and> ctx_ok cfg cx \<and> inv (cx_env cx) \<and> cs_mailbox_slot (cx_state cx) < limit"

lemma readyD:
  assumes "ready cfg cx"
  shows "cfg_ok cfg" "chan_inv cfg (cx_state cx)" "frontier_lt (cx_state cx)" "inv (cx_env cx)"
    "cs_mailbox_slot (cx_state cx) < limit" "ctx_ok cfg cx"
    "cs_pending_count (cx_state cx) = size (retained (cx_state cx))"
  using assms by (simp_all add: ready_def ctx_ok_def chan_inv_def)

lemma kept_trans:
  assumes "stepc c I x y" and "kept cfg J y z"
  shows "kept cfg (I + J) x z"
  using assms unfolding kept_def by (metis stepc_trans)

lemma kept_ready:
  assumes "kept cfg I cx cx'" and "ready cfg cx"
  shows "ready cfg cx'"
  using assms stepcD(1,4) unfolding kept_def ready_def by (metis (mono_tags))

lemma kept_refl: "ready cfg cx \<Longrightarrow> kept cfg {#} cx cx"
  unfolding kept_def using stepc_refl readyD by blast

lemma ForceGapToMinimum_spec:
  assumes R: "ready cfg cx" and nd: "\<not> cs_discovering (cx_state cx)"
  shows "kept cfg {#} cx (ForceGapToMinimum S cfg now cx)"
    and "cs_pending_count (cx_state cx) > 0 \<Longrightarrow>
      cs_pending_count (cx_state (ForceGapToMinimum S cfg now cx)) < cs_pending_count (cx_state cx)"
    and "cs_frozen (cx_state (ForceGapToMinimum S cfg now cx)) = cs_frozen (cx_state cx)"
proof -
  let ?st = "cx_state cx"
  let ?F = "ForceGapToMinimum S cfg now cx"
  note D = readyD [OF R]
  have "kept cfg {#} cx ?F \<and> (cs_pending_count ?st > 0 \<longrightarrow>
      cs_pending_count (cx_state ?F) < cs_pending_count ?st) \<and> cs_frozen (cx_state ?F) = cs_frozen ?st"
  proof (cases "cs_pending_count ?st = 0")
    case True
    then have F: "?F = cx\<lparr>cx_state := ?st\<lparr>cs_gap_open_ns := 0\<rparr>\<rparr>" by (simp add: ForceGapToMinimum_def)
    have "stepc [] {#} cx ?F" unfolding F by (rule stepc_deadline(1) [OF stepc_refl [OF D(4)]])
    then show ?thesis using True D(6) by (auto simp: kept_def F ctx_ok_def)
  next
    case False
    let ?m = "MinimumPending ?st"
    have "retained ?st \<noteq> {#}" using False D(7) by auto
    from MinimumPending_props [OF D(2) this] obtain slot where
      slot: "slot \<in># retained ?st" "?m = slot_seq slot" "\<forall>s \<in># retained ?st. ?m \<le> slot_seq s" .
    have gt: "cs_expected ?st < ?m" using D(3) slot(1,2) by (simp add: frontier_lt_def)
    have good: "good_seq ?m" using retained_home(1) [OF D(2) slot(1)] slot(2) by (simp add: slot_home_def)
    then have small: "unat ?m \<le> 2 ^ 63" by (simp add: good_seq_def)
    obtain ok cx1 where rec: "RecordGap S (cs_expected ?st) (?m - 1) ?m now cx = (ok, cx1)"
      by (cases "RecordGap S (cs_expected ?st) (?m - 1) ?m now cx")
    note G = RecordGap_spec [OF D(2,4,5) nd gt small rec]
    let ?cx2 = "set_expected ?m cx1"
    have F: "?F = DrainContiguous S cfg now ?cx2"
      using False gt rec G(1) by (simp add: ForceGapToMinimum_def Let_def set_expected_def)
    have pend: "cs_pending (cx_state ?cx2) = cs_pending ?st" using G(4) by (simp add: set_expected_def)
    then have ret: "retained (cx_state ?cx2) = retained ?st" by (rule retained_cong)
    have "frontier_le (cx_state ?cx2)"
      using slot(3) unfolding frontier_le_def ret by (simp add: set_expected_def)
    then have due: "ctx_due cfg ?cx2" using G(3,7) nd by (simp add: ctx_due_def set_expected_def)
    have "Find_pending cfg (cx_state ?cx2) (cs_expected (cx_state ?cx2)) \<noteq> None"
      using retained_home(2) [OF D(2) slot(1)] slot(1,2) pend
      by (simp add: Find_pending_def Let_def set_expected_def in_retained)
    with DrainContiguous_spec [OF D(1) due stepcD(1) [OF G(2)], of now] obtain c where
      c: "stepc c {#} ?cx2 ?F" "ctx_ok cfg ?F"
      "size (retained (cx_state ?F)) < size (retained (cx_state ?cx2))"
      "cs_frozen (cx_state ?F) = cs_frozen (cx_state ?cx2)" unfolding F by auto
    have "kept cfg {#} cx ?F" using kept_trans [OF G(2), of cfg "{#}" ?F] c(1,2) by (auto simp: kept_def)
    moreover have "cs_pending_count (cx_state ?F) = size (retained (cx_state ?F))"
      using c(2) by (simp add: ctx_ok_def chan_inv_def)
    ultimately show ?thesis using c(3,4) ret D(7) G(6) by (simp add: set_expected_def)
  qed
  then show "kept cfg {#} cx ?F"
    "cs_pending_count ?st > 0 \<Longrightarrow> cs_pending_count (cx_state ?F) < cs_pending_count ?st"
    "cs_frozen (cx_state ?F) = cs_frozen ?st" by blast+
qed

lemma FinishDiscovery_spec:
  assumes R: "ready cfg cx"
  shows "kept cfg {#} cx (FinishDiscovery S cfg now cx)"
    and "\<not> cs_discovering (cx_state (FinishDiscovery S cfg now cx))"
    and "cs_pending_count (cx_state (FinishDiscovery S cfg now cx)) \<le> cs_pending_count (cx_state cx)"
proof -
  let ?st = "cx_state cx"
  let ?F = "FinishDiscovery S cfg now cx"
  note D = readyD [OF R]
  have "kept cfg {#} cx ?F \<and> \<not> cs_discovering (cx_state ?F)
      \<and> cs_pending_count (cx_state ?F) \<le> cs_pending_count ?st"
  proof (cases "\<not> cs_discovering ?st \<or> cs_pending_count ?st = 0")
    case True
    then have F: "?F = cx\<lparr>cx_state := ?st\<lparr>cs_discovering := False\<rparr>\<rparr>" by (auto simp: FinishDiscovery_def)
    have "stepc [] {#} cx ?F"
      unfolding F using D(4) by (intro stepc_silent) (simp_all add: accounted_def)
    moreover have "chan_inv cfg (?st\<lparr>cs_discovering := False\<rparr>)"
      using D(2) by (simp add: chan_inv_def slot_home_def)
    ultimately show ?thesis using D(3) by (auto simp: kept_def ctx_ok_def F)
  next
    case False
    let ?m = "MinimumPending ?st"
    let ?cx2 = "cx\<lparr>cx_state := ?st\<lparr>cs_discovering := False, cs_expected := ?m\<rparr>\<rparr>"
    have F: "?F = DrainContiguous S cfg now ?cx2" using False by (simp add: FinishDiscovery_def Let_def)
    have "retained ?st \<noteq> {#}" using False D(7) by auto
    from MinimumPending_props [OF D(2) this] obtain slot where
      slot: "slot \<in># retained ?st" "?m = slot_seq slot" "\<forall>s \<in># retained ?st. ?m \<le> slot_seq s" .
    have good: "good_seq ?m" using retained_home(1) [OF D(2) slot(1)] slot(2) by (simp add: slot_home_def)
    have zero: "cs_expected ?st = 0" "cs_cumulative_missing ?st \<le> 0"
      using D(2) False by (auto simp: chan_inv_def)
    have "chan_inv cfg (cx_state ?cx2)"
      using D(2) zero good by (simp add: chan_inv_def slot_home_def good_seq_def)
    moreover have "frontier_le (cx_state ?cx2)" using slot(3) by (simp add: frontier_le_def)
    ultimately have due: "ctx_due cfg ?cx2" by (simp add: ctx_due_def)
    have S1: "stepc [] {#} cx ?cx2"
      using D(4) False zero by (intro stepc_silent) simp_all
    from DrainContiguous_spec [OF D(1) due stepcD(1) [OF S1], of now] obtain c where
      c: "stepc c {#} ?cx2 ?F" "ctx_ok cfg ?F"
      "size (retained (cx_state ?F)) \<le> size (retained (cx_state ?cx2))" unfolding F by auto
    have "kept cfg {#} cx ?F" using kept_trans [OF S1, of cfg "{#}" ?F] c(1,2) by (auto simp: kept_def)
    moreover have "\<not> cs_discovering (cx_state ?F)" using stepcD(5) [OF c(1)] by auto
    moreover have "cs_pending_count (cx_state ?F) = size (retained (cx_state ?F))"
      using c(2) by (simp add: ctx_ok_def chan_inv_def)
    ultimately show ?thesis using c(3) D(7) by simp
  qed
  then show "kept cfg {#} cx ?F" "\<not> cs_discovering (cx_state ?F)"
    "cs_pending_count (cx_state ?F) \<le> cs_pending_count ?st" by blast+
qed

section \<open>Counters, late records and freezing\<close>

lemma count_late_kept:
  assumes "inv (cx_env cx)"
  shows "stepc [] {#} cx (count_late S cx)" and "cx_state (count_late S cx) = cx_state cx"
proof -
  show "cx_state (count_late S cx) = cx_state cx" by (simp add: count_late_def)
  show "stepc [] {#} cx (count_late S cx)"
    using stats_kept [OF assms keeps_dispatched_updates(4)]
    by (intro stepc_silent) (simp_all add: count_late_def accounted_def)
qed

lemma DivertLateRecovery_kept:
  assumes "inv (cx_env cx)"
  shows "stepc [] {#} cx (snd (DivertLateRecovery S decoded reason cx))"
    and "cx_state (snd (DivertLateRecovery S decoded reason cx)) = cx_state cx"
proof -
  let ?cx' = "snd (DivertLateRecovery S decoded reason cx)"
  show st: "cx_state ?cx' = cx_state cx"
    by (simp add: DivertLateRecovery_def Let_def split: prod.splits bool.splits)
  have "inv (cx_env ?cx') \<and> view (cx_env ?cx') = view (cx_env cx)
      \<and> (healthy (cx_env ?cx') \<longrightarrow> healthy (cx_env cx))"
    using late_kept [OF assms] fatal_kept
    by (simp add: DivertLateRecovery_def Let_def split: prod.splits bool.splits)
  then show "stepc [] {#} cx ?cx'"
    by (intro stepc_silent) (simp_all add: st accounted_def)
qed

lemma FreezeFromOpen_kept:
  assumes "inv (cx_env cx)"
  shows "stepc [] {#} cx (FreezeFromOpen S reason observed now cx)"
    and "cx_state (FreezeFromOpen S reason observed now cx) = (cx_state cx)\<lparr>cs_frozen := True\<rparr>"
proof -
  let ?cx' = "FreezeFromOpen S reason observed now cx"
  show st: "cx_state ?cx' = (cx_state cx)\<lparr>cs_frozen := True\<rparr>"
    by (auto simp: FreezeFromOpen_def Let_def split: prod.splits intro: ChannelState.equality)
  have "inv (cx_env ?cx') \<and> view (cx_env ?cx') = view (cx_env cx)
      \<and> (healthy (cx_env ?cx') \<longrightarrow> healthy (cx_env cx))"
  proof (cases "cs_frozen (cx_state cx)")
    case True
    then show ?thesis using assms by (simp add: FreezeFromOpen_def)
  next
    case False
    let ?env1 = "sk_stats S (\<lambda>st. st\<lparr>ts_from_open_channels_frozen :=
        ts_from_open_channels_frozen st + 1\<rparr>) (cx_env cx)"
    let ?fault = "\<lparr>f_market = cs_market (cx_state cx), f_reason = reason,
        f_channel = cs_channel (cx_state cx), f_expected_sequence = cs_expected (cx_state cx),
        f_observed_sequence = observed, f_detected_monotonic_ns = now\<rparr>"
    obtain ok env2 where f: "sk_fault S ?fault ?env1 = (ok, env2)" by (cases "sk_fault S ?fault ?env1")
    have i1: "inv ?env1" "healthy ?env1 = healthy (cx_env cx)" "view ?env1 = view (cx_env cx)"
      using stats_kept [OF assms keeps_dispatched_updates(6)] by simp_all
    have i2: "inv env2" "healthy env2 = healthy (cx_env cx)" "view env2 = view (cx_env cx)"
      using fault_kept [OF i1(1) f] i1 by simp_all
    have "cx_env ?cx' = (if ok then env2
        else sk_fatal S ''channel fault dispatch queue overflow'' env2)"
      using False f by (simp add: FreezeFromOpen_def Let_def)
    then show ?thesis using i2 fatal_kept [OF i2(1)] by simp
  qed
  then show "stepc [] {#} cx ?cx'"
    by (intro stepc_silent) (simp_all add: st accounted_def)
qed

lemma pending_conflict_kept:
  assumes R: "ready cfg cx"
  shows "kept cfg {#} cx (pending_conflict S cfg decoded now cx)"
proof -
  note D = readyD [OF R]
  note C = count_late_kept [OF D(4)]
  have i: "inv (cx_env (count_late S cx))" by (rule stepcD(1) [OF C(1)])
  show ?thesis
  proof (cases "rc_mode cfg = StartMode_kFromOpen")
    case True
    let ?cx' = "FreezeFromOpen S ChannelFaultReason_kCanonicalConflict
            (native_seq (td_tick decoded)) now (count_late S cx)"
    note F = FreezeFromOpen_kept [OF i]
    have "kept cfg {#} (count_late S cx) ?cx'"
      using F D(2,3) C(2) unfolding kept_def by (auto simp: ctx_ok_def)
    from kept_trans [OF C(1) this] show ?thesis using True by (simp add: pending_conflict_def Let_def)
  next
    case False
    let ?cx' = "snd (DivertLateRecovery S decoded LateRecoveryReason_kPendingCanonicalConflict
      (count_late S cx))"
    note F = DivertLateRecovery_kept [OF i]
    have "kept cfg {#} (count_late S cx) ?cx'"
      using F D(2,3) C(2) unfolding kept_def by (auto simp: ctx_ok_def)
    from kept_trans [OF C(1) this] show ?thesis using False by (simp add: pending_conflict_def Let_def)
  qed
qed

section \<open>A record at the frontier\<close>

lemma emit_expected_spec:
  assumes R: "ready cfg cx" and nd: "\<not> cs_discovering (cx_state cx)"
    and at: "native_seq (td_tick decoded) = cs_expected (cx_state cx)"
    and good: "good_seq (native_seq (td_tick decoded))"
    and key: "tick_market (td_tick decoded) = cs_market (cx_state cx)"
      "tick_channel (td_tick decoded) = cs_channel (cx_state cx)"
  shows "kept cfg {#arrival decoded#} cx (emit_expected S cfg decoded now cx)"
proof -
  let ?st = "cx_state cx"
  note D = readyD [OF R]
  define cx0 where "cx0 = cx\<lparr>cx_state := ?st\<lparr>cs_pending_count := Suc (cs_pending_count ?st)\<rparr>\<rparr>"
  define ref where "ref = TemporarySlot (arrival decoded)"
  obtain ok cx1 where em: "EmitOne S ref cx0 = (ok, cx1)" by (cases "EmitOne S ref cx0")
  have F: "emit_expected S cfg decoded now cx = (if \<not> ok then cx1 else DrainContiguous S cfg now (bump cx1))"
    using em by (simp add: emit_expected_def Let_def cx0_def ref_def arrival_def bump_def)
  have st1: "cx_state cx1 = emit_state ref (cx_state cx0)" using EmitOne_state [of S ref cx0] em by simp
  have ret1: "retained (cx_state cx1) = retained ?st"
    by (rule retained_cong) (simp add: st1 ref_def cx0_def)
  have inv0: "inv (cx_env cx0)" using D(4) by (simp add: cx0_def)
  have meta: "cs_gap_metadata_pending (cx_state cx0) \<longrightarrow> \<not> cs_history_complete (cx_state cx0)"
    using D(2) by (simp add: chan_inv_def cx0_def)
  have ret: "{#arrival decoded#} + retained (cx_state cx0)
      = add_mset (arrival decoded) (retained (emit_state ref (cx_state cx0)))"
    by (simp add: retained_def ref_def)
  note E = emit_stepc [OF inv0 em, of "arrival decoded", OF _ _ _ _ _ meta ret]
  have from_cx: "stepc c I cx y" if "stepc c I cx0 y" for c I y
    using that by (simp add: cx0_def stepc_def Let_def accounted_def consumed_ok_def retained_def)
  have inv1: "chan_inv cfg (cx_state cx1)"
    using D(2) ret1 by (simp add: chan_inv_def slot_home_def st1 cx0_def ref_def)
  have lt1: "frontier_lt (cx_state cx1)"
    using D(3) unfolding frontier_lt_def ret1 by (simp add: st1 cx0_def)
  show ?thesis
  proof (cases ok)
    case False
    have "stepc [] {#arrival decoded#} cx0 cx1"
      using False at good key by (intro E(2)) (simp_all add: ref_def cx0_def)
    then show ?thesis using from_cx inv1 lt1 False by (auto simp: kept_def ctx_ok_def F)
  next
    case True
    have "stepc [(arrival decoded, emitted_tick (cx_state cx0) (arrival decoded))]
        {#arrival decoded#} cx0 (bump cx1)"
      using True at good key by (intro E(1)) (simp_all add: ref_def cx0_def)
    note step1 = from_cx [OF this]
    have "good_seq (cs_expected ?st)" using good at by simp
    note G = good_seq_succ [OF this]
    have "chan_inv cfg (cx_state (bump cx1))"
      using inv1 G nd by (auto simp: st1 cx0_def chan_inv_def slot_home_def)
    moreover have "frontier_le (cx_state (bump cx1))"
      using lt1 by (auto simp: frontier_lt_def frontier_le_def intro: word_less_succ_le)
    ultimately have due: "ctx_due cfg (bump cx1)" using nd by (simp add: ctx_due_def st1 cx0_def)
    from DrainContiguous_spec [OF D(1) due stepcD(1) [OF step1], of now]
    have "kept cfg {#} (bump cx1) (DrainContiguous S cfg now (bump cx1))" by (auto simp: kept_def)
    from kept_trans [OF step1 this] show ?thesis using True by (simp add: F)
  qed
qed

section \<open>The retry loop of ProcessActive\<close>

text \<open>
  The slots a record brings into the channel: itself, unless its position is already behind the
  frontier or already retained.
\<close>

definition intake :: "ChannelState \<Rightarrow> TickDecodeResult \<Rightarrow> PendingSlot multiset" where
  "intake st decoded = (if native_seq (td_tick decoded) < cs_expected st
      \<or> held st (native_seq (td_tick decoded)) then {#} else {#arrival decoded#})"

lemma wait_for_gap_spec:
  assumes R: "ready cfg cx" and nd: "\<not> cs_discovering (cx_state cx)"
  shows "kept cfg {#} cx (wait_for_gap S cfg now cx)"
proof -
  note D = readyD [OF R]
  define cx1 where "cx1 = (if cs_gap_open_ns (cx_state cx) = 0
           then cx\<lparr>cx_state := (cx_state cx)\<lparr>cs_gap_open_ns := now\<rparr>,
                   cx_next_deadline :=
                     ScheduleDeadline now (rc_gap_wait_ns cfg) (cx_next_deadline cx)\<rparr>
           else cx)"
  have step: "stepc [] {#} cx cx1"
    using stepc_deadline(2) [OF stepc_deadline(1) [OF stepc_refl [OF D(4)]]] stepc_refl [OF D(4)]
    by (simp add: cx1_def)
  have ok1: "ctx_ok cfg cx1" using D(6) by (simp add: cx1_def ctx_ok_def)
  have R1: "ready cfg cx1"
    using kept_ready [OF _ R, of "{#}" cx1] step ok1 by (auto simp: kept_def)
  have nd1: "\<not> cs_discovering (cx_state cx1)" using nd by (simp add: cx1_def)
  show ?thesis
  proof (cases "rc_gap_wait_ns cfg = 0")
    case True
    from kept_trans [OF step ForceGapToMinimum_spec(1) [OF R1 nd1, of now]]
    show ?thesis using True by (simp add: wait_for_gap_def Let_def flip: cx1_def)
  next
    case False
    then have "wait_for_gap S cfg now cx = cx1" by (simp add: wait_for_gap_def Let_def flip: cx1_def)
    then show ?thesis using step ok1 by (auto simp: kept_def)
  qed
qed

lemma ForceGapToMinimum_pure:
  assumes R: "ready cfg cx" and nd: "\<not> cs_discovering (cx_state cx)"
    and some: "retained (cx_state cx) \<noteq> {#}"
    and e: "MinimumPending (cx_state cx) \<le> e" "\<not> held (cx_state cx) e"
  shows "cs_expected (cx_state (ForceGapToMinimum S cfg now cx)) \<le> e"
    and "\<not> held (cx_state (ForceGapToMinimum S cfg now cx)) e"
proof -
  let ?st = "cx_state cx"
  let ?m = "MinimumPending ?st"
  note D = readyD [OF R]
  from MinimumPending_props [OF D(2) some] obtain slot where
    slot: "slot \<in># retained ?st" "?m = slot_seq slot" "\<forall>s \<in># retained ?st. ?m \<le> slot_seq s" .
  have gt: "cs_expected ?st < ?m" using D(3) slot(1,2) by (simp add: frontier_lt_def)
  have small: "unat ?m \<le> 2 ^ 63"
    using retained_home(1) [OF D(2) slot(1)] slot(2) by (simp add: slot_home_def good_seq_def)
  obtain ok cx1 where rec: "RecordGap S (cs_expected ?st) (?m - 1) ?m now cx = (ok, cx1)"
    by (cases "RecordGap S (cs_expected ?st) (?m - 1) ?m now cx")
  note G = RecordGap_spec [OF D(2,4,5) nd gt small rec]
  let ?cx2 = "set_expected ?m cx1"
  have F: "ForceGapToMinimum S cfg now cx = DrainContiguous S cfg now ?cx2"
    using some gt rec G(1) D(7) by (simp add: ForceGapToMinimum_def Let_def set_expected_def)
  have ret: "retained (cx_state ?cx2) = retained ?st"
    by (rule retained_cong) (simp add: set_expected_def G(4))
  have free: "\<forall>s \<in># retained (cx_state ?cx2). slot_seq s \<noteq> e"
    using e(2) unfolding ret by (auto simp: held_def)
  show "cs_expected (cx_state (ForceGapToMinimum S cfg now cx)) \<le> e"
    unfolding F using e(1) free by (intro DrainContiguous_pure(2)) (simp_all add: set_expected_def)
  show "\<not> held (cx_state (ForceGapToMinimum S cfg now cx)) e"
    unfolding F held_def using DrainContiguous_pure(1) [of S cfg now ?cx2] free
    by (auto dest: mset_subset_eqD)
qed

lemma ProcessActive_spec:
  assumes "ready cfg cx" and "\<not> cs_discovering (cx_state cx)"
    and good: "good_seq (native_seq (td_tick decoded))"
    and "tick_market (td_tick decoded) = cs_market (cx_state cx)"
      "tick_channel (td_tick decoded) = cs_channel (cx_state cx)"
  shows "\<exists>cx'. ProcessActive S cfg decoded now cx = Some cx'
    \<and> kept cfg (intake (cx_state cx) decoded) cx cx'"
  using assms(1,2,4,5)
proof (induction "cs_pending_count (cx_state cx)" arbitrary: cx rule: less_induct)
  case less
  let ?st = "cx_state cx" and ?seq = "native_seq (td_tick decoded)"
  note R = less.prems(1) and nd = less.prems(2) and key = less.prems(3,4)
  note D = readyD [OF R]
  consider (behind) "?seq < cs_expected ?st" | (at) "?seq = cs_expected ?st"
    | (ahead) "cs_expected ?st < ?seq" by (rule linorder_less_linear [THEN disjE]) auto
  then show ?case
  proof cases
    case behind
    let ?cx' = "snd (DivertLateRecovery S decoded LateRecoveryReason_kBehindCommittedFrontier
      (count_late S cx))"
    note C = count_late_kept [OF D(4)]
    note V = DivertLateRecovery_kept [OF stepcD(1) [OF C(1)]]
    have "kept cfg {#} (count_late S cx) ?cx'"
      using V D(6) C(2) unfolding kept_def by (auto simp: ctx_ok_def)
    from kept_trans [OF C(1) this] show ?thesis
      using behind by (subst ProcessActive.simps) (simp add: intake_def Let_def)
  next
    case at
    have "\<not> held ?st ?seq" using D(3) at by (auto simp: held_def frontier_lt_def)
    then show ?thesis
      using emit_expected_spec [OF R nd at good key, of now] at
      by (subst ProcessActive.simps) (simp add: intake_def Let_def)
  next
    case ahead
    then have ne: "\<not> ?seq < cs_expected ?st" "?seq \<noteq> cs_expected ?st" by auto
    show ?thesis
    proof (cases rule: Insert_cases [OF D(1,2,3) good ahead key])
      case (1 st1)
      let ?cx1 = "cx\<lparr>cx_state := st1\<rparr>"
      have upd: "cs_market st1 = cs_market ?st" "cs_channel st1 = cs_channel ?st"
        "cs_mailbox_slot st1 = cs_mailbox_slot ?st" "cs_discovering st1 = cs_discovering ?st"
        "cs_history_complete st1 = cs_history_complete ?st" "cs_expected st1 = cs_expected ?st"
        "cs_cumulative_missing st1 = cs_cumulative_missing ?st"
        by (subst 1(6), simp)+
      have step: "stepc [] {#arrival decoded#} cx ?cx1"
        using D(4) 1(2) by (intro stepc_silent) (simp_all add: upd accounted_def)
      have k1: "kept cfg {#arrival decoded#} cx ?cx1"
        using step 1(3,4) by (auto simp: kept_def ctx_ok_def)
      have R1: "ready cfg ?cx1" by (rule kept_ready [OF k1 R])
      have nd1: "\<not> cs_discovering (cx_state ?cx1)" using nd by (simp add: upd)
      have I: "intake ?st decoded = {#arrival decoded#}" using ne 1(5) by (simp add: intake_def)
      show ?thesis
      proof (cases "?seq - cs_expected ?st > rc_maximum_reorder_span cfg")
        case True
        then have "ProcessActive S cfg decoded now cx = Some (ForceGapToMinimum S cfg now ?cx1)"
          using ne 1(1) by (subst ProcessActive.simps) (simp add: Let_def)
        then show ?thesis
          using kept_trans [OF step ForceGapToMinimum_spec(1) [OF R1 nd1, of now]] I by simp
      next
        case False
        then have "ProcessActive S cfg decoded now cx = Some (wait_for_gap S cfg now ?cx1)"
          using ne 1(1) by (subst ProcessActive.simps) (simp add: Let_def)
        then show ?thesis
          using kept_trans [OF step wait_for_gap_spec [OF R1 nd1, of now]] I by simp
      qed
    next
      case 2
      then have "ProcessActive S cfg decoded now cx = Some (count_late S cx)"
        using ne by (subst ProcessActive.simps) (simp add: Let_def)
      moreover have "kept cfg {#} cx (count_late S cx)"
        using count_late_kept [OF D(4)] D(6) by (auto simp: kept_def ctx_ok_def)
      ultimately show ?thesis using 2(2) by (simp add: intake_def)
    next
      case 3
      then have "ProcessActive S cfg decoded now cx = Some (pending_conflict S cfg decoded now cx)"
        using ne by (subst ProcessActive.simps) (simp add: Let_def)
      then show ?thesis using pending_conflict_kept [OF R, of decoded now] 3(2) by (simp add: intake_def)
    next
      case 4
      have I: "intake ?st decoded = {#arrival decoded#}" using ne 4(2) by (simp add: intake_def)
      have pc: "0 < cs_pending_count ?st" using D(7) 4(3) by (simp add: nonempty_has_size)
      show ?thesis
      proof (cases "?seq < MinimumPending ?st")
        case True
        obtain ok cx1 where rec: "RecordGap S (cs_expected ?st) (?seq - 1) ?seq now cx = (ok, cx1)"
          by (cases "RecordGap S (cs_expected ?st) (?seq - 1) ?seq now cx")
        have small: "unat ?seq \<le> 2 ^ 63" using good by (simp add: good_seq_def)
        note G = RecordGap_spec [OF D(2,4,5) nd ahead small rec]
        let ?cx2 = "set_expected ?seq cx1"
        have eq: "ProcessActive S cfg decoded now cx = ProcessActive S cfg decoded now ?cx2"
          using ne 4(1) True rec G(1)
          by (subst ProcessActive.simps) (simp add: Let_def set_expected_def)
        have at2: "?seq = cs_expected (cx_state ?cx2)" by (simp add: set_expected_def)
        have ret: "retained (cx_state ?cx2) = retained ?st"
          by (rule retained_cong) (simp add: set_expected_def G(4))
        obtain slot where m: "\<forall>s \<in># retained ?st. MinimumPending ?st \<le> slot_seq s"
          using MinimumPending_props [OF D(2) 4(3)] by metis
        have "frontier_lt (cx_state ?cx2)"
          unfolding frontier_lt_def ret using m True by (auto simp: set_expected_def)
        then have k2: "kept cfg {#} cx ?cx2" using G(2,3) by (auto simp: kept_def ctx_ok_def)
        have R2: "ready cfg ?cx2" by (rule kept_ready [OF k2 R])
        have nd2: "\<not> cs_discovering (cx_state ?cx2)" using G(7) nd by (simp add: set_expected_def)
        have key2: "tick_market (td_tick decoded) = cs_market (cx_state ?cx2)"
          "tick_channel (td_tick decoded) = cs_channel (cx_state ?cx2)"
          using stepcD(2,3) [OF G(2)] key by simp_all
        have "ProcessActive S cfg decoded now ?cx2 = Some (emit_expected S cfg decoded now ?cx2)"
          using at2 by (subst ProcessActive.simps) (simp add: Let_def)
        then show ?thesis
          using kept_trans [OF G(2) emit_expected_spec [OF R2 nd2 at2 good key2, of now]] I
          by (simp add: eq)
      next
        case False
        let ?cx2 = "ForceGapToMinimum S cfg now cx"
        note F = ForceGapToMinimum_spec [OF R nd, of now]
        obtain c where step: "stepc c {#} cx ?cx2" using F(1) by (auto simp: kept_def)
        have eq: "ProcessActive S cfg decoded now cx = ProcessActive S cfg decoded now ?cx2"
          using ne 4(1) False pc by (subst ProcessActive.simps) (simp add: Let_def)
        have P: "cs_expected (cx_state ?cx2) \<le> ?seq" "\<not> held (cx_state ?cx2) ?seq"
          using ForceGapToMinimum_pure [OF R nd 4(3) _ 4(2), of now] False by simp_all
        have R2: "ready cfg ?cx2" by (rule kept_ready [OF F(1) R])
        have nd2: "\<not> cs_discovering (cx_state ?cx2)" using stepcD(5) [OF step] nd by blast
        have key2: "tick_market (td_tick decoded) = cs_market (cx_state ?cx2)"
          "tick_channel (td_tick decoded) = cs_channel (cx_state ?cx2)"
          using stepcD(2,3) [OF step] key by simp_all
        from less.hyps [OF F(2) [OF pc] R2 nd2 key2] obtain cx' where
          cx': "ProcessActive S cfg decoded now ?cx2 = Some cx'"
            "kept cfg (intake (cx_state ?cx2) decoded) ?cx2 cx'" by blast
        have "intake (cx_state ?cx2) decoded = {#arrival decoded#}" using P by (simp add: intake_def)
        with kept_trans [OF step, of cfg _ cx'] cx' I show ?thesis by (auto simp: eq)
      qed
    qed
  qed
qed

section \<open>Discovery\<close>

lemma hold_discovery_spec:
  assumes R: "ready cfg cx"
  shows "kept cfg {#} cx (hold_discovery S cfg now cx)"
proof -
  note D = readyD [OF R]
  define cx1 where "cx1 = (if cs_first_seen_ns (cx_state cx) = 0
           then (let cx0 = cx\<lparr>cx_state := (cx_state cx)\<lparr>cs_first_seen_ns := now\<rparr>\<rparr> in
                 if rc_initial_hold_ns cfg \<noteq> 0
                 then cx0\<lparr>cx_next_deadline :=
                        ScheduleDeadline now (rc_initial_hold_ns cfg) (cx_next_deadline cx0)\<rparr>
                 else cx0)
           else cx)"
  have step: "stepc [] {#} cx cx1"
    using stepc_deadline(3) [OF stepc_refl [OF D(4)]] stepc_refl [OF D(4)]
      stepc_deadline(2) [OF stepc_deadline(3) [OF stepc_refl [OF D(4)]]]
    by (simp add: cx1_def Let_def)
  have ok1: "ctx_ok cfg cx1" using D(6) by (simp add: cx1_def ctx_ok_def Let_def)
  then have k1: "kept cfg {#} cx cx1" using step by (auto simp: kept_def)
  have R1: "ready cfg cx1" by (rule kept_ready [OF k1 R])
  have eq: "hold_discovery S cfg now cx = (if rc_initial_hold_ns cfg = 0
      \<or> DeadlineReached now (cs_first_seen_ns (cx_state cx1)) (rc_initial_hold_ns cfg)
     then FinishDiscovery S cfg now cx1 else cx1)"
    by (simp add: hold_discovery_def cx1_def Let_def)
  show ?thesis
    using kept_trans [OF step FinishDiscovery_spec(1) [OF R1, of now]] k1 by (simp add: eq)
qed

text \<open>
  One record on its channel, in every state of the channel.  On an active channel it is taken
  exactly when its position is neither behind the frontier nor retained already; while the
  channel is being discovered it is retained, or the window is closed first.
\<close>

definition channel_ready :: "RecoveryConfig \<Rightarrow> 's ChannelCtx \<Rightarrow> bool" where
  "channel_ready cfg cx \<longleftrightarrow> ready cfg cx
     \<and> (cs_discovering (cx_state cx) \<longrightarrow> rc_mode cfg = StartMode_kPartial)"

lemma ProcessChannel_spec:
  assumes CR: "channel_ready cfg cx" and good: "good_seq (native_seq (td_tick decoded))"
    and key: "tick_market (td_tick decoded) = cs_market (cx_state cx)"
      "tick_channel (td_tick decoded) = cs_channel (cx_state cx)"
  shows "\<exists>I cx'. ProcessChannel S cfg decoded now cx = Some cx' \<and> kept cfg I cx cx'
    \<and> I \<subseteq># {#arrival decoded#} \<and> (cs_frozen (cx_state cx) \<longrightarrow> cx_state cx' = cx_state cx \<and> I = {#})
    \<and> (\<not> cs_frozen (cx_state cx) \<and> \<not> cs_discovering (cx_state cx) \<longrightarrow> I = intake (cx_state cx) decoded)"
proof -
  let ?st = "cx_state cx"
  have R: "ready cfg cx" and part: "cs_discovering ?st \<longrightarrow> rc_mode cfg = StartMode_kPartial"
    using CR by (simp_all add: channel_ready_def)
  note D = readyD [OF R]
  consider (frozen) "cs_frozen ?st" | (active) "\<not> cs_frozen ?st" "\<not> cs_discovering ?st"
    | (discovering) "\<not> cs_frozen ?st" "cs_discovering ?st" by blast
  then show ?thesis
  proof cases
    case frozen
    note C = count_late_kept [OF D(4)]
    have "kept cfg {#} cx (count_late S cx)" using C D(6) by (auto simp: kept_def ctx_ok_def)
    then show ?thesis using frozen C(2) by (auto simp: ProcessChannel_def)
  next
    case active
    have "intake ?st decoded \<subseteq># {#arrival decoded#}" by (simp add: intake_def)
    then show ?thesis
      using ProcessActive_spec [OF R active(2) good key, of now] active
      by (auto simp: ProcessChannel_def)
  next
    case discovering
    have gt: "cs_expected ?st < native_seq (td_tick decoded)"
      using D(2) discovering(2) good by (simp add: chan_inv_def good_seq_def word_less_nat_alt)
    have mode: "rc_mode cfg = StartMode_kPartial" using part discovering(2) by simp
    have sh: "kept cfg {#} cx (snd (DivertLateRecovery S decoded
        LateRecoveryReason_kPendingCanonicalConflict (count_late S cx)))"
    proof -
      note C = count_late_kept [OF D(4)]
      note V = DivertLateRecovery_kept [OF stepcD(1) [OF C(1)], of decoded
          LateRecoveryReason_kPendingCanonicalConflict]
      have "kept cfg {#} (count_late S cx) (snd (DivertLateRecovery S decoded
          LateRecoveryReason_kPendingCanonicalConflict (count_late S cx)))"
        using V D(6) C(2) unfolding kept_def by (auto simp: ctx_ok_def)
      from kept_trans [OF C(1) this] show ?thesis by simp
    qed
    show ?thesis
    proof (cases rule: Insert_cases [OF D(1,2,3) good gt key])
      case (1 st1)
      let ?cx1 = "cx\<lparr>cx_state := st1\<rparr>"
      have upd: "cs_market st1 = cs_market ?st" "cs_channel st1 = cs_channel ?st"
        "cs_mailbox_slot st1 = cs_mailbox_slot ?st" "cs_discovering st1 = cs_discovering ?st"
        "cs_history_complete st1 = cs_history_complete ?st" "cs_expected st1 = cs_expected ?st"
        "cs_cumulative_missing st1 = cs_cumulative_missing ?st"
        by (subst 1(6), simp)+
      have step: "stepc [] {#arrival decoded#} cx ?cx1"
        using D(4) 1(2) by (intro stepc_silent) (simp_all add: upd accounted_def)
      have k1: "kept cfg {#arrival decoded#} cx ?cx1"
        using step 1(3,4) by (auto simp: kept_def ctx_ok_def)
      have R1: "ready cfg ?cx1" by (rule kept_ready [OF k1 R])
      have "ProcessChannel S cfg decoded now cx = Some (hold_discovery S cfg now ?cx1)"
        using discovering mode 1(1) by (simp add: ProcessChannel_def Let_def)
      then show ?thesis using kept_trans [OF step hold_discovery_spec [OF R1, of now]] discovering by auto
    next
      case 2
      then have "ProcessChannel S cfg decoded now cx = Some (count_late S cx)"
        using discovering mode by (simp add: ProcessChannel_def Let_def)
      moreover have "kept cfg {#} cx (count_late S cx)"
        using count_late_kept [OF D(4)] D(6) by (auto simp: kept_def ctx_ok_def)
      ultimately show ?thesis using discovering by (intro exI [of _ "{#}"]) simp
    next
      case 3
      then have "ProcessChannel S cfg decoded now cx = Some (snd (DivertLateRecovery S decoded
          LateRecoveryReason_kPendingCanonicalConflict (count_late S cx)))"
        using discovering mode by (simp add: ProcessChannel_def Let_def)
      then show ?thesis using sh discovering by (intro exI [of _ "{#}"]) simp
    next
      case 4
      let ?cx1 = "FinishDiscovery S cfg now cx"
      note F = FinishDiscovery_spec [OF R, of now]
      obtain c where step: "stepc c {#} cx ?cx1" using F(1) by (auto simp: kept_def)
      have R1: "ready cfg ?cx1" by (rule kept_ready [OF F(1) R])
      have key1: "tick_market (td_tick decoded) = cs_market (cx_state ?cx1)"
        "tick_channel (td_tick decoded) = cs_channel (cx_state ?cx1)"
        using stepcD(2,3) [OF step] key by simp_all
      have eq: "ProcessChannel S cfg decoded now cx = ProcessActive S cfg decoded now ?cx1"
        using discovering mode 4(1) by (simp add: ProcessChannel_def Let_def)
      from ProcessActive_spec [OF R1 F(2) good key1, of now] obtain cx' where
        cx': "ProcessActive S cfg decoded now ?cx1 = Some cx'"
          "kept cfg (intake (cx_state ?cx1) decoded) ?cx1 cx'" by blast
      have "intake (cx_state ?cx1) decoded \<subseteq># {#arrival decoded#}" by (simp add: intake_def)
      with kept_trans [OF step cx'(2)] cx'(1) discovering show ?thesis by (auto simp: eq)
    qed
  qed
qed

section \<open>Deadlines and the final flush\<close>

lemma PollChannel_spec:
  assumes R: "ready cfg cx"
  shows "kept cfg {#} cx (PollChannel S cfg now cx)"
proof -
  note D = readyD [OF R]
  have idle: "kept cfg {#} cx (cx\<lparr>cx_next_deadline := d\<rparr>)" for d
    using stepc_deadline(2) [OF stepc_refl [OF D(4)]] D(6) by (auto simp: kept_def ctx_ok_def)
  show ?thesis
    unfolding PollChannel_def Let_def
    using kept_refl [OF R] FinishDiscovery_spec(1) [OF R] ForceGapToMinimum_spec(1) [OF R] idle
    by (simp split: if_splits)
qed

lemma flush_while_spec:
  assumes "ready cfg cx" and "\<not> cs_discovering (cx_state cx)"
  shows "\<exists>cx'. flush_while S cfg now cx = Some cx' \<and> kept cfg {#} cx cx' \<and> retained (cx_state cx') = {#}"
  using assms
proof (induction "cs_pending_count (cx_state cx)" arbitrary: cx rule: less_induct)
  case less
  note D = readyD [OF less.prems(1)]
  show ?case
  proof (cases "cs_pending_count (cx_state cx) > 0")
    case False
    then show ?thesis
      using kept_refl [OF less.prems(1)] D(7) by (subst flush_while.simps) simp
  next
    case True
    let ?cx1 = "ForceGapToMinimum S cfg now cx"
    note F = ForceGapToMinimum_spec [OF less.prems, of now]
    obtain c where step: "stepc c {#} cx ?cx1" using F(1) by (auto simp: kept_def)
    have "\<not> cs_discovering (cx_state ?cx1)" using stepcD(5) [OF step] less.prems(2) by blast
    from less.hyps [OF F(2) [OF True] kept_ready [OF F(1) less.prems(1)] this] obtain cx' where
      "flush_while S cfg now ?cx1 = Some cx'" "kept cfg {#} ?cx1 cx'" "retained (cx_state cx') = {#}"
      by blast
    then show ?thesis using True kept_trans [OF step, of cfg "{#}" cx'] by (subst flush_while.simps) simp
  qed
qed

lemma FlushChannel_spec:
  assumes R: "ready cfg cx"
  shows "\<exists>cx'. FlushChannel S cfg now cx = Some cx' \<and> kept cfg {#} cx cx'
    \<and> (if cs_frozen (cx_state cx) then cx' = cx else retained (cx_state cx') = {#})"
proof (cases "cs_frozen (cx_state cx)")
  case True
  then show ?thesis using kept_refl [OF R] by (simp add: FlushChannel_def)
next
  case False
  define cx1 where "cx1 = (if cs_discovering (cx_state cx) then FinishDiscovery S cfg now cx else cx)"
  have k1: "kept cfg {#} cx cx1" and nd: "\<not> cs_discovering (cx_state cx1)"
    using FinishDiscovery_spec [OF R, of now] kept_refl [OF R] by (simp_all add: cx1_def)
  then obtain c where step: "stepc c {#} cx cx1" by (auto simp: kept_def)
  from flush_while_spec [OF kept_ready [OF k1 R] nd, of now] obtain cx' where
    "flush_while S cfg now cx1 = Some cx'" "kept cfg {#} cx1 cx'" "retained (cx_state cx') = {#}"
    by blast
  then show ?thesis
    using False kept_trans [OF step, of cfg "{#}" cx'] by (simp add: FlushChannel_def Let_def flip: cx1_def)
qed

end

end
