(* ===== verification/Recovery_Table.thy ===== *)
theory Recovery_Table
  imports Recovery_Process
begin

text \<open>
  The channel table of \<open>SequenceRecovery\<close>: open addressing with linear probing over a
  power-of-two array of channel indices.  \<open>FindOrCreate\<close> is a finite map from channel keys to
  channel indices that grows by one entry at a time; every probe sequence ends because the
  table always has a free cell.
\<close>

section \<open>Keys and probes\<close>

definition chan_key :: "ChannelState \<Rightarrow> Market \<times> u32" where
  "chan_key st = (cs_market st, cs_channel st)"

definition home_slot :: "SequenceRecovery \<Rightarrow> Market \<Rightarrow> u32 \<Rightarrow> nat" where
  "home_slot rec market channel = unat (HashChannel market channel) AND sr_channel_table_mask rec"

definition probe_slot :: "SequenceRecovery \<Rightarrow> Market \<Rightarrow> u32 \<Rightarrow> nat \<Rightarrow> nat" where
  "probe_slot rec market channel j =
     (home_slot rec market channel + j) mod length (sr_channel_table rec)"

text \<open>The abstract map: the index of a key.\<close>

definition index_of :: "SequenceRecovery \<Rightarrow> Market \<Rightarrow> u32 \<Rightarrow> nat option" where
  "index_of rec market channel =
     find (\<lambda>i. chan_key (sr_channels rec ! i) = (market, channel)) [0 ..< sr_channel_count rec]"

definition table_shape :: "SequenceRecovery \<Rightarrow> bool" where
  "table_shape rec \<longleftrightarrow> (\<exists>k. length (sr_channel_table rec) = 2 ^ k) \<and>
     sr_channel_table_mask rec = length (sr_channel_table rec) - 1 \<and>
     sr_channel_count rec \<le> length (sr_channels rec) \<and>
     length (sr_channels rec) < length (sr_channel_table rec)"

text \<open>Cell \<open>j\<close> of the probe sequence holds the channel, and no earlier cell is free.\<close>

definition reached :: "SequenceRecovery \<Rightarrow> nat \<Rightarrow> nat \<Rightarrow> bool" where
  "reached rec i j \<longleftrightarrow> j < length (sr_channel_table rec) \<and>
     (let st = sr_channels rec ! i in
      sr_channel_table rec ! probe_slot rec (cs_market st) (cs_channel st) j = Suc i \<and>
      (\<forall>j' < j. sr_channel_table rec ! probe_slot rec (cs_market st) (cs_channel st) j' \<noteq> 0))"

definition table_ok :: "SequenceRecovery \<Rightarrow> bool" where
  "table_ok rec \<longleftrightarrow> table_shape rec \<and>
     (\<forall>s < length (sr_channel_table rec). sr_channel_table rec ! s \<le> sr_channel_count rec) \<and>
     (\<forall>s < length (sr_channel_table rec). \<forall>s' < length (sr_channel_table rec).
        sr_channel_table rec ! s \<noteq> 0 \<longrightarrow> sr_channel_table rec ! s = sr_channel_table rec ! s' \<longrightarrow> s = s') \<and>
     (\<forall>i < sr_channel_count rec. \<exists>j. reached rec i j) \<and>
     (\<forall>i < sr_channel_count rec. \<forall>i' < sr_channel_count rec.
        chan_key (sr_channels rec ! i) = chan_key (sr_channels rec ! i') \<longrightarrow> i = i')"

lemma table_okD:
  assumes "table_ok rec"
  shows "table_shape rec"
    "s < length (sr_channel_table rec) \<Longrightarrow> sr_channel_table rec ! s \<le> sr_channel_count rec"
    "s < length (sr_channel_table rec) \<Longrightarrow> s' < length (sr_channel_table rec) \<Longrightarrow>
       sr_channel_table rec ! s \<noteq> 0 \<Longrightarrow> sr_channel_table rec ! s = sr_channel_table rec ! s' \<Longrightarrow> s = s'"
    "i < sr_channel_count rec \<Longrightarrow> \<exists>j. reached rec i j"
    "i < sr_channel_count rec \<Longrightarrow> i' < sr_channel_count rec \<Longrightarrow>
       chan_key (sr_channels rec ! i) = chan_key (sr_channels rec ! i') \<Longrightarrow> i = i'"
  using assms unfolding table_ok_def by blast+

lemma table_nonempty: "table_shape rec \<Longrightarrow> 0 < length (sr_channel_table rec)"
  by (auto simp: table_shape_def)

lemma probe_slot_less: "table_shape rec \<Longrightarrow> probe_slot rec m c j < length (sr_channel_table rec)"
  using table_nonempty by (simp add: probe_slot_def)

lemma home_slot_probe:
  assumes "table_shape rec"
  shows "home_slot rec m c = probe_slot rec m c 0"
proof -
  from assms obtain k where k: "length (sr_channel_table rec) = 2 ^ k" by (auto simp: table_shape_def)
  have "home_slot rec m c = unat (HashChannel m c) mod length (sr_channel_table rec)"
    using assms nat_and_pred_pow2 [OF k] by (simp add: home_slot_def table_shape_def)
  then show ?thesis by (simp add: probe_slot_def)
qed

lemma probe_slot_Suc:
  assumes "table_shape rec"
  shows "(probe_slot rec m c j + 1) AND sr_channel_table_mask rec = probe_slot rec m c (Suc j)"
proof -
  from assms obtain k where k: "length (sr_channel_table rec) = 2 ^ k" by (auto simp: table_shape_def)
  have "(probe_slot rec m c j + 1) AND sr_channel_table_mask rec
      = (probe_slot rec m c j + 1) mod length (sr_channel_table rec)"
    using assms nat_and_pred_pow2 [OF k] by (simp add: table_shape_def)
  then show ?thesis by (simp add: probe_slot_def mod_simps)
qed

lemma index_of_Some:
  assumes "table_ok rec"
  shows "index_of rec m c = Some i \<longleftrightarrow> i < sr_channel_count rec \<and> chan_key (sr_channels rec ! i) = (m, c)"
proof
  assume "index_of rec m c = Some i"
  then show "i < sr_channel_count rec \<and> chan_key (sr_channels rec ! i) = (m, c)"
    by (auto simp: index_of_def find_Some_iff)
next
  assume i: "i < sr_channel_count rec \<and> chan_key (sr_channels rec ! i) = (m, c)"
  then have "i \<in> set [0 ..< sr_channel_count rec]" by simp
  then have "index_of rec m c \<noteq> None" using i by (auto simp: index_of_def find_None_iff)
  then obtain i' where i': "index_of rec m c = Some i'" by auto
  then have "i' < sr_channel_count rec" "chan_key (sr_channels rec ! i') = (m, c)"
    by (auto simp: index_of_def find_Some_iff)
  then have "i' = i" using table_okD(5) [OF assms, of i' i] i by simp
  then show "index_of rec m c = Some i" using i' by simp
qed

lemma index_of_None:
  "index_of rec m c = None \<longleftrightarrow> (\<forall>i < sr_channel_count rec. chan_key (sr_channels rec ! i) \<noteq> (m, c))"
  by (auto simp: index_of_def find_None_iff)

section \<open>A free cell on every probe sequence\<close>

lemma free_cell:
  assumes "table_ok rec"
  shows "\<exists>j < length (sr_channel_table rec). sr_channel_table rec ! probe_slot rec m c j = 0"
proof -
  let ?T = "sr_channel_table rec"
  note shape = table_okD(1) [OF assms]
  have "\<exists>s < length ?T. ?T ! s = 0"
  proof (rule ccontr)
    assume "\<not> (\<exists>s < length ?T. ?T ! s = 0)"
    then have all: "\<forall>s < length ?T. ?T ! s \<noteq> 0" by simp
    have nz: "?T ! s \<noteq> 0" if "s < length ?T" for s using all that by simp
    have "inj_on (\<lambda>s. ?T ! s) {..< length ?T}"
    proof (rule inj_onI)
      fix s s' assume s: "s \<in> {..< length ?T}" "s' \<in> {..< length ?T}" "?T ! s = ?T ! s'"
      show "s = s'" by (rule table_okD(3) [OF assms]) (use s nz [of s] in auto)
    qed
    moreover have "(\<lambda>s. ?T ! s) ` {..< length ?T} \<subseteq> {1 .. sr_channel_count rec}"
    proof
      fix v assume "v \<in> (\<lambda>s. ?T ! s) ` {..< length ?T}"
      then obtain s where s: "s < length ?T" "v = ?T ! s" by auto
      then show "v \<in> {1 .. sr_channel_count rec}"
        using nz [OF s(1)] table_okD(2) [OF assms s(1)] by simp
    qed
    ultimately have "card {..< length ?T} \<le> card {1 .. sr_channel_count rec}"
      by (intro card_inj_on_le) auto
    then show False using shape by (simp add: table_shape_def)
  qed
  then obtain s where s: "s < length ?T" "?T ! s = 0" by blast
  from mod_shift_surj [OF s(1), of "home_slot rec m c"] obtain j where
    "j < length ?T" "(home_slot rec m c + j) mod length ?T = s" by blast
  then show ?thesis using s by (auto simp: probe_slot_def)
qed

section \<open>The probe loop\<close>

lemma mod_offset_inj:
  fixes a b c P :: nat
  assumes "a < P" and "b < P" and "(c + a) mod P = (c + b) mod P"
  shows "a = b"
proof -
  have aux: "y \<le> x" if "x < P" "y < P" "(c + x) mod P = (c + y) mod P" for x y
  proof (rule ccontr)
    assume "\<not> y \<le> x"
    then have "P dvd (c + y) - (c + x)"
      using that(3) by (intro mod_eq_dvd_iff_nat [THEN iffD1]) auto
    then have "P dvd y - x" by simp
    then show False using \<open>\<not> y \<le> x\<close> that(2) by (auto dest!: dvd_imp_le)
  qed
  show ?thesis using aux [of a b] aux [of b a] assms by simp
qed

text \<open>Where the probe loop stands after \<open>j\<close> probes for a key.\<close>

definition probing :: "SequenceRecovery \<Rightarrow> Market \<Rightarrow> u32 \<Rightarrow> nat \<Rightarrow> bool" where
  "probing rec m c j \<longleftrightarrow> (\<forall>j' < j. let v = sr_channel_table rec ! probe_slot rec m c j' in
     v \<noteq> 0 \<and> chan_key (sr_channels rec ! (v - 1)) \<noteq> (m, c))"

lemma probe_channels_step:
  assumes "table_shape rec" and "probing rec m c j" and "j < length (sr_channel_table rec)"
  defines "v \<equiv> sr_channel_table rec ! probe_slot rec m c j"
  shows "probe_channels S m c (length (sr_channel_table rec) - j) (probe_slot rec m c j) rec env =
    (if v = 0 then
       (if sr_channel_count rec \<ge> length (sr_channels rec) then (None, rec, env)
        else let (allocated, env1) = sk_alloc S env; index = sr_channel_count rec in
          if \<not> allocated then (None, rec, env1)
          else (Some index,
            rec\<lparr>sr_channels := (sr_channels rec)[index :=
                  new_channel (sr_config rec) m c index (sr_channels rec ! index)],
                sr_channel_table := (sr_channel_table rec)[probe_slot rec m c j := Suc index],
                sr_channel_count := Suc index\<rparr>, env1))
     else if chan_key (sr_channels rec ! (v - 1)) = (m, c) then (Some (v - 1), rec, env)
     else probe_channels S m c (length (sr_channel_table rec) - Suc j) (probe_slot rec m c (Suc j)) rec env)"
proof -
  have "length (sr_channel_table rec) - j = Suc (length (sr_channel_table rec) - Suc j)"
    using assms(3) by simp
  then show ?thesis
    using probe_slot_Suc [OF assms(1), of m c j]
    by (simp add: v_def Let_def chan_key_def split: prod.splits)
qed

text \<open>
  Until the loop stops it has only seen other channels, so it stops at the channel's own cell,
  or at the first free cell when the key is new.
\<close>

lemma probe_channels_stops:
  assumes T: "table_ok rec" and "probing rec m c j" and "j < length (sr_channel_table rec)"
    and "\<exists>k \<ge> j. k < length (sr_channel_table rec) \<and> sr_channel_table rec ! probe_slot rec m c k = 0"
  shows "\<exists>j' \<ge> j. j' < length (sr_channel_table rec) \<and> probing rec m c j' \<and>
    (sr_channel_table rec ! probe_slot rec m c j' = 0
      \<or> chan_key (sr_channels rec ! (sr_channel_table rec ! probe_slot rec m c j' - 1)) = (m, c)) \<and>
    probe_channels S m c (length (sr_channel_table rec) - j) (probe_slot rec m c j) rec env
      = probe_channels S m c (length (sr_channel_table rec) - j') (probe_slot rec m c j') rec env"
  using assms(2-4)
proof (induction "length (sr_channel_table rec) - j" arbitrary: j)
  case 0
  then show ?case by simp
next
  case (Suc n)
  let ?v = "sr_channel_table rec ! probe_slot rec m c j"
  show ?case
  proof (cases "?v = 0 \<or> chan_key (sr_channels rec ! (?v - 1)) = (m, c)")
    case True
    then show ?thesis using Suc.prems by (intro exI [of _ j]) simp
  next
    case False
    have p: "probing rec m c (Suc j)"
      using Suc.prems(1) False by (auto simp: probing_def Let_def less_Suc_eq)
    from Suc.prems(3) obtain k where k: "k \<ge> j" "k < length (sr_channel_table rec)"
      "sr_channel_table rec ! probe_slot rec m c k = 0" by blast
    have "k \<noteq> j" using k(3) False by auto
    then have k': "k \<ge> Suc j" using k(1) by simp
    have eq: "probe_channels S m c (length (sr_channel_table rec) - j) (probe_slot rec m c j) rec env
      = probe_channels S m c (length (sr_channel_table rec) - Suc j) (probe_slot rec m c (Suc j)) rec env"
      using probe_channels_step [OF table_okD(1) [OF T] Suc.prems(1,2), of S env] False by simp
    have n: "n = length (sr_channel_table rec) - Suc j" using Suc.hyps(2) by simp
    have "\<exists>j' \<ge> Suc j. j' < length (sr_channel_table rec) \<and> probing rec m c j' \<and>
      (sr_channel_table rec ! probe_slot rec m c j' = 0
        \<or> chan_key (sr_channels rec ! (sr_channel_table rec ! probe_slot rec m c j' - 1)) = (m, c)) \<and>
      probe_channels S m c (length (sr_channel_table rec) - Suc j) (probe_slot rec m c (Suc j)) rec env
        = probe_channels S m c (length (sr_channel_table rec) - j') (probe_slot rec m c j') rec env"
      by (rule Suc.hyps(1) [OF n p]) (use k k' in auto)
    then show ?thesis unfolding eq by (meson Suc_leD)
  qed
qed

section \<open>FindOrCreate is a finite map\<close>

definition add_channel :: "SequenceRecovery \<Rightarrow> Market \<Rightarrow> u32 \<Rightarrow> nat \<Rightarrow> SequenceRecovery" where
  "add_channel rec m c slot = (let index = sr_channel_count rec in
     rec\<lparr>sr_channels := (sr_channels rec)[index :=
           new_channel (sr_config rec) m c index (sr_channels rec ! index)],
         sr_channel_table := (sr_channel_table rec)[slot := Suc index],
         sr_channel_count := Suc index\<rparr>)"

lemma add_channel_fields [simp]:
  "sr_config (add_channel rec m c s) = sr_config rec"
  "sr_channels (add_channel rec m c s) = (sr_channels rec)[sr_channel_count rec :=
     new_channel (sr_config rec) m c (sr_channel_count rec) (sr_channels rec ! sr_channel_count rec)]"
  "sr_channel_table (add_channel rec m c s) = (sr_channel_table rec)[s := Suc (sr_channel_count rec)]"
  "sr_channel_count (add_channel rec m c s) = Suc (sr_channel_count rec)"
  "sr_channel_table_mask (add_channel rec m c s) = sr_channel_table_mask rec"
  "sr_next_deadline_ns (add_channel rec m c s) = sr_next_deadline_ns rec"
  by (simp_all add: add_channel_def Let_def)

lemma chan_key_new [simp]: "chan_key (new_channel cfg m c i st) = (m, c)"
  by (simp add: chan_key_def new_channel_def)

lemma probe_slot_add [simp]: "probe_slot (add_channel rec m c s) m' c' j = probe_slot rec m' c' j"
  by (simp add: probe_slot_def home_slot_def)

lemma add_channel_ok:
  assumes T: "table_ok rec" and new: "index_of rec m c = None"
    and room: "sr_channel_count rec < length (sr_channels rec)"
    and p: "probing rec m c j" and j: "j < length (sr_channel_table rec)"
    and free: "sr_channel_table rec ! probe_slot rec m c j = 0"
  shows "table_ok (add_channel rec m c (probe_slot rec m c j))"
    and "index_of (add_channel rec m c (probe_slot rec m c j)) m' c'
      = (if (m', c') = (m, c) then Some (sr_channel_count rec) else index_of rec m' c')"
proof -
  let ?n = "sr_channel_count rec" and ?s = "probe_slot rec m c j"
  let ?rec = "add_channel rec m c ?s"
  note shape = table_okD(1) [OF T]
  have s: "?s < length (sr_channel_table rec)" by (rule probe_slot_less [OF shape])
  have old: "sr_channels ?rec ! i = sr_channels rec ! i" if "i < ?n" for i using that by simp
  have fresh: "chan_key (sr_channels ?rec ! ?n) = (m, c)" using room by simp
  have cell: "sr_channel_table ?rec ! t \<noteq> 0" if "t < length (sr_channel_table rec)"
    "sr_channel_table rec ! t \<noteq> 0" for t using that s by (simp add: nth_list_update)
  have keys: "chan_key (sr_channels rec ! i) \<noteq> (m, c)" if "i < ?n" for i
    using new that by (simp add: index_of_None)
  show tab: "table_ok ?rec"
    unfolding table_ok_def
  proof (intro conjI allI impI)
    show "table_shape ?rec" using shape room by (simp add: table_shape_def)
    show "sr_channel_table ?rec ! t \<le> sr_channel_count ?rec"
      if "t < length (sr_channel_table ?rec)" for t
      using that table_okD(2) [OF T, of t] by (cases "t = ?s") simp_all
    show "t = t'" if "t < length (sr_channel_table ?rec)" "t' < length (sr_channel_table ?rec)"
      "sr_channel_table ?rec ! t \<noteq> 0" "sr_channel_table ?rec ! t = sr_channel_table ?rec ! t'" for t t'
      using that table_okD(2) [OF T, of t] table_okD(2) [OF T, of t'] table_okD(3) [OF T, of t t']
      by (cases "t = ?s"; cases "t' = ?s") simp_all
    show "\<exists>j. reached ?rec i j" if "i < sr_channel_count ?rec" for i
    proof (cases "i = ?n")
      case True
      have "reached ?rec ?n j"
        unfolding reached_def Let_def
      proof (intro conjI allI impI)
        show "j < length (sr_channel_table ?rec)" using j by simp
        show "sr_channel_table ?rec ! probe_slot ?rec (cs_market (sr_channels ?rec ! ?n))
            (cs_channel (sr_channels ?rec ! ?n)) j = Suc ?n"
          using room s by (simp add: new_channel_def)
        show "sr_channel_table ?rec ! probe_slot ?rec (cs_market (sr_channels ?rec ! ?n))
            (cs_channel (sr_channels ?rec ! ?n)) j' \<noteq> 0" if "j' < j" for j'
          using p that room cell [OF probe_slot_less [OF shape], of m c j']
          by (simp add: probing_def Let_def new_channel_def)
      qed
      then show ?thesis using True by blast
    next
      case False
      with that have i: "i < ?n" by simp
      from table_okD(4) [OF T i] obtain k where k: "reached rec i k" by blast
      let ?st = "sr_channels rec ! i"
      have "probe_slot rec (cs_market ?st) (cs_channel ?st) k \<noteq> ?s"
        using k free by (auto simp: reached_def Let_def)
      then have "reached ?rec i k"
        using k cell [OF probe_slot_less [OF shape]] i by (simp add: reached_def Let_def)
      then show ?thesis by blast
    qed
    show "a = b" if "a < sr_channel_count ?rec" "b < sr_channel_count ?rec"
      "chan_key (sr_channels ?rec ! a) = chan_key (sr_channels ?rec ! b)" for a b
      using that fresh keys old table_okD(5) [OF T, of a b]
      by (cases "a = ?n"; cases "b = ?n") (auto simp: less_Suc_eq)
  qed
  show "index_of ?rec m' c' = (if (m', c') = (m, c) then Some ?n else index_of rec m' c')"
  proof (cases "(m', c') = (m, c)")
    case True
    then show ?thesis using index_of_Some [OF tab, of m' c' ?n] fresh by simp
  next
    case False
    have "index_of ?rec m' c' = Some i \<longleftrightarrow> index_of rec m' c' = Some i" for i
      unfolding index_of_Some [OF tab] index_of_Some [OF T]
      using False fresh old by (cases "i = ?n") (auto simp: less_Suc_eq)
    then show ?thesis using False by (metis not_Some_eq)
  qed
qed

text \<open>The four outcomes of \<open>FindOrCreate\<close>.\<close>

lemma FindOrCreate_spec:
  assumes T: "table_ok rec"
  shows "index_of rec m c = Some i \<Longrightarrow> FindOrCreate S m c rec env = (Some i, rec, env)"
    and "index_of rec m c = None \<Longrightarrow> sr_channel_count rec = length (sr_channels rec) \<Longrightarrow>
      FindOrCreate S m c rec env = (None, rec, env)"
    and "index_of rec m c = None \<Longrightarrow> sr_channel_count rec < length (sr_channels rec) \<Longrightarrow>
      sk_alloc S env = (False, env1) \<Longrightarrow> FindOrCreate S m c rec env = (None, rec, env1)"
    and "index_of rec m c = None \<Longrightarrow> sr_channel_count rec < length (sr_channels rec) \<Longrightarrow>
      sk_alloc S env = (True, env1) \<Longrightarrow>
      \<exists>s. FindOrCreate S m c rec env = (Some (sr_channel_count rec), add_channel rec m c s, env1) \<and>
        table_ok (add_channel rec m c s) \<and>
        (\<forall>m' c'. index_of (add_channel rec m c s) m' c'
          = (if (m', c') = (m, c) then Some (sr_channel_count rec) else index_of rec m' c'))"
proof -
  let ?T = "sr_channel_table rec"
  note shape = table_okD(1) [OF T]
  have "probing rec m c 0" by (simp add: probing_def)
  from probe_channels_stops [OF T this table_nonempty [OF shape], of S env] free_cell [OF T, of m c]
  obtain j where j: "j < length ?T" "probing rec m c j"
    and at: "?T ! probe_slot rec m c j = 0
      \<or> chan_key (sr_channels rec ! (?T ! probe_slot rec m c j - 1)) = (m, c)"
    and eq: "probe_channels S m c (length ?T) (probe_slot rec m c 0) rec env
      = probe_channels S m c (length ?T - j) (probe_slot rec m c j) rec env" by auto
  let ?v = "?T ! probe_slot rec m c j"
  have F: "FindOrCreate S m c rec env
      = probe_channels S m c (length ?T - j) (probe_slot rec m c j) rec env"
    using eq home_slot_probe [OF shape, of m c] by (simp add: FindOrCreate_def home_slot_def)
  note step = F [unfolded probe_channels_step [OF shape j(2,1)]]
  have zero_new: "index_of rec m c = None" if z: "?v = 0"
  proof (rule ccontr)
    assume "index_of rec m c \<noteq> None"
    then obtain i where i: "i < sr_channel_count rec" "chan_key (sr_channels rec ! i) = (m, c)"
      using index_of_Some [OF T] by auto
    from table_okD(4) [OF T i(1)] obtain k where k: "k < length ?T"
      "?T ! probe_slot rec m c k = Suc i" "\<forall>j' < k. ?T ! probe_slot rec m c j' \<noteq> 0"
      using i(2) by (auto simp: reached_def Let_def chan_key_def)
    have "\<not> j < k" "j \<noteq> k" using k z by auto
    then have "k < j" by simp
    then show False using j(2) k(2) i(2) by (auto simp: probing_def Let_def)
  qed
  have nonzero_old: "index_of rec m c = Some (?v - 1)" if nz: "?v \<noteq> 0"
    using nz at table_okD(2) [OF T probe_slot_less [OF shape], of m c j]
    by (simp add: index_of_Some [OF T])
  show "index_of rec m c = Some i \<Longrightarrow> FindOrCreate S m c rec env = (Some i, rec, env)"
    using zero_new nonzero_old at by (cases "?v = 0") (simp_all add: step)
  show "index_of rec m c = None \<Longrightarrow> sr_channel_count rec = length (sr_channels rec) \<Longrightarrow>
      FindOrCreate S m c rec env = (None, rec, env)"
    using nonzero_old by (cases "?v = 0") (simp_all add: step)
  show "index_of rec m c = None \<Longrightarrow> sr_channel_count rec < length (sr_channels rec) \<Longrightarrow>
      sk_alloc S env = (False, env1) \<Longrightarrow> FindOrCreate S m c rec env = (None, rec, env1)"
    using nonzero_old by (cases "?v = 0") (simp_all add: step)
  assume new: "index_of rec m c = None" and room: "sr_channel_count rec < length (sr_channels rec)"
    and alloc: "sk_alloc S env = (True, env1)"
  then have z: "?v = 0" using nonzero_old by auto
  have "FindOrCreate S m c rec env
      = (Some (sr_channel_count rec), add_channel rec m c (probe_slot rec m c j), env1)"
    using z room alloc by (simp add: step add_channel_def Let_def)
  then show "\<exists>s. FindOrCreate S m c rec env = (Some (sr_channel_count rec), add_channel rec m c s, env1) \<and>
        table_ok (add_channel rec m c s) \<and>
        (\<forall>m' c'. index_of (add_channel rec m c s) m' c'
          = (if (m', c') = (m, c) then Some (sr_channel_count rec) else index_of rec m' c'))"
    using add_channel_ok [OF T new room j(2,1) z] by blast
qed

end
