(* ===== verification/Recovery_Stream.thy ===== *)
theory Recovery_Stream
  imports Recovery_Table
begin

text \<open>
  Runs of a whole \<open>SequenceRecovery\<close>: any sequence of \<open>Process\<close>, \<open>Poll\<close>, \<open>Flush\<close> and
  \<open>FreezeDecodeFailure\<close> calls returns, keeps the table and every channel well formed, and
  delivers to each consumer edge a sequence that is strictly increasing on every channel;
  while no fatal is raised, no record that was taken is lost or duplicated.
\<close>

section \<open>Runs\<close>

datatype RecoveryInput =
    ProcessTick TickDecodeResult u64
  | PollDeadlines u64
  | FlushAll u64
  | DecodeFailure Market u32 u64 u64

fun recovery_step ::
  "'s Sink \<Rightarrow> RecoveryInput \<Rightarrow> SequenceRecovery \<Rightarrow> 's \<Rightarrow> (SequenceRecovery \<times> 's) option" where
  "recovery_step S (ProcessTick decoded now) rec env = Process S decoded now rec env"
| "recovery_step S (PollDeadlines now) rec env = Some (Poll S now rec env)"
| "recovery_step S (FlushAll now) rec env = Flush S now rec env"
| "recovery_step S (DecodeFailure m c seq now) rec env =
     Some (FreezeDecodeFailure S m c seq now rec env)"

fun recovery_run ::
  "'s Sink \<Rightarrow> RecoveryInput list \<Rightarrow> SequenceRecovery \<Rightarrow> 's \<Rightarrow> (SequenceRecovery \<times> 's) option" where
  "recovery_run S [] rec env = Some (rec, env)"
| "recovery_run S (x # xs) rec env =
     Option.bind (recovery_step S x rec env) (\<lambda>(rec1, env1). recovery_run S xs rec1 env1)"

definition input_ok :: "RecoveryInput \<Rightarrow> bool" where
  "input_ok x = (case x of ProcessTick decoded now \<Rightarrow> good_seq (native_seq (td_tick decoded)) | _ \<Rightarrow> True)"

text \<open>The records handed to a run.\<close>

fun arrivals :: "RecoveryInput list \<Rightarrow> PendingSlot multiset" where
  "arrivals [] = {#}"
| "arrivals (ProcessTick decoded now # xs) = add_mset (arrival decoded) (arrivals xs)"
| "arrivals (_ # xs) = arrivals xs"

section \<open>The state of one channel within the table\<close>

definition all_retained :: "SequenceRecovery \<Rightarrow> PendingSlot multiset" where
  "all_retained rec = (\<Sum>i < sr_channel_count rec. retained (sr_channels rec ! i))"

text \<open>The frontier of a key and its count of missing positions; a key not yet seen is at 1.\<close>

definition frontier_of :: "SequenceRecovery \<Rightarrow> Market \<Rightarrow> u32 \<Rightarrow> nat" where
  "frontier_of rec m c = (case index_of rec m c of None \<Rightarrow> 1 | Some i \<Rightarrow> unat (cs_expected (sr_channels rec ! i)))"

definition missing_of :: "SequenceRecovery \<Rightarrow> Market \<Rightarrow> u32 \<Rightarrow> nat" where
  "missing_of rec m c =
     (case index_of rec m c of None \<Rightarrow> 0 | Some i \<Rightarrow> unat (cs_cumulative_missing (sr_channels rec ! i)))"

definition of_key :: "Market \<Rightarrow> u32 \<Rightarrow> CanonicalTick \<Rightarrow> bool" where
  "of_key m c t \<longleftrightarrow> tick_market t = m \<and> tick_channel t = c"

definition chan_good :: "SequenceRecovery \<Rightarrow> nat \<Rightarrow> ChannelState \<Rightarrow> bool" where
  "chan_good rec i st \<longleftrightarrow> chan_inv (sr_config rec) st \<and> frontier_lt st \<and> cs_mailbox_slot st = i
     \<and> (cs_discovering st \<longrightarrow> rc_mode (sr_config rec) = StartMode_kPartial)"

lemma store_ctx_fields [simp]:
  "sr_config (fst (store_ctx i rec cx)) = sr_config rec"
  "sr_channels (fst (store_ctx i rec cx)) = (sr_channels rec)[i := cx_state cx]"
  "sr_channel_table (fst (store_ctx i rec cx)) = sr_channel_table rec"
  "sr_channel_table_mask (fst (store_ctx i rec cx)) = sr_channel_table_mask rec"
  "sr_channel_count (fst (store_ctx i rec cx)) = sr_channel_count rec"
  "snd (store_ctx i rec cx) = cx_env cx"
  by (simp_all add: store_ctx_def)

text \<open>Storing a channel with the same key does not touch the map.\<close>

lemma table_ok_cong:
  assumes "table_ok rec" and "sr_channel_table rec' = sr_channel_table rec"
    and "sr_channel_table_mask rec' = sr_channel_table_mask rec"
    and "sr_channel_count rec' = sr_channel_count rec"
    and "length (sr_channels rec') = length (sr_channels rec)"
    and keys: "\<forall>i < sr_channel_count rec. chan_key (sr_channels rec' ! i) = chan_key (sr_channels rec ! i)"
  shows "table_ok rec'" and "index_of rec' = index_of rec"
proof -
  have p: "probe_slot rec' = probe_slot rec"
    by (intro ext) (simp add: probe_slot_def home_slot_def assms(2,3))
  have r: "reached rec' i j = reached rec i j" if "i < sr_channel_count rec" for i j
    using keys that by (simp add: reached_def p assms(2) Let_def chan_key_def)
  show "table_ok rec'"
    using assms(1) keys r by (simp add: table_ok_def table_shape_def assms(2-5))
  show "index_of rec' = index_of rec"
    using keys by (intro ext) (auto simp: index_of_def assms(4) intro!: find_cong)
qed

lemma sum_update:
  fixes f :: "nat \<Rightarrow> 'a::comm_monoid_add"
  assumes "i < n"
  shows "(\<Sum>j < n. f j) = f i + (\<Sum>j \<in> {..< n} - {i}. f j)"
  using assms by (intro sum.remove) auto

lemma all_retained_split:
  assumes "i < sr_channel_count rec"
  shows "all_retained rec = retained (sr_channels rec ! i)
    + (\<Sum>j \<in> {..< sr_channel_count rec} - {i}. retained (sr_channels rec ! j))"
  unfolding all_retained_def using assms by (rule sum_update)

context recovery_sink
begin

definition rec_ok :: "SequenceRecovery \<Rightarrow> 's \<Rightarrow> bool" where
  "rec_ok rec env \<longleftrightarrow> table_ok rec \<and> cfg_ok (sr_config rec) \<and> inv env \<and>
     length (sr_channels rec) \<le> limit \<and>
     (\<forall>i < sr_channel_count rec. chan_good rec i (sr_channels rec ! i)) \<and>
     (\<forall>i < sr_channel_count rec. home (chan_key (sr_channels rec ! i))) \<and>
     (\<forall>i < length (sr_channels rec). sr_channel_count rec \<le> i \<longrightarrow>
        sr_channels rec ! i = default_channel_state)"

definition ordered :: "SequenceRecovery \<Rightarrow> 's \<Rightarrow> bool" where
  "ordered rec env \<longleftrightarrow>
     (\<forall>t \<in> set (view env). \<exists>i. index_of rec (tick_market t) (tick_channel t) = Some i
        \<and> native_seq t < cs_expected (sr_channels rec ! i)) \<and>
     (\<forall>m c. sorted_wrt (<) (map native_seq (filter (of_key m c) (view env))))"

text \<open>
  \<open>effect c I\<close> between two states of the recovery: \<open>c\<close> are the slots consumed, with the ticks
  built for them, and \<open>I\<close> the slots taken in.
\<close>

definition effect ::
  "(PendingSlot \<times> CanonicalTick) list \<Rightarrow> PendingSlot multiset \<Rightarrow> SequenceRecovery \<times> 's
     \<Rightarrow> SequenceRecovery \<times> 's \<Rightarrow> bool" where
  "effect c I s s' \<longleftrightarrow>
     view (snd s') = view (snd s) @ filter sel (map snd (filter (\<lambda>e. ps_emit (fst e)) c)) \<and>
     (\<forall>e \<in> set c. payload (snd e) = payload (ps_tick (fst e))) \<and>
     sr_config (fst s') = sr_config (fst s) \<and>
     (healthy (snd s') \<longrightarrow> healthy (snd s) \<and>
        mset (map fst c) + all_retained (fst s') = I + all_retained (fst s) \<and>
        (rc_mode (sr_config (fst s)) = StartMode_kFromOpen \<longrightarrow>
           (\<forall>m ch. missing_of (fst s') m ch + length (filter (\<lambda>e. of_key m ch (ps_tick (fst e))) c)
               + frontier_of (fst s) m ch
             = missing_of (fst s) m ch + frontier_of (fst s') m ch)))"

lemma effect_trans:
  assumes "effect c I x y" and "effect d J y z"
  shows "effect (c @ d) (I + J) x z"
proof -
  have "mset (map fst (c @ d)) + all_retained (fst z) = I + J + all_retained (fst x)"
    if "healthy (snd z)"
  proof -
    have h: "healthy (snd y)" using assms(2) that by (simp add: effect_def)
    have e1: "mset (map fst d) + all_retained (fst z) = J + all_retained (fst y)"
      using assms(2) that by (simp add: effect_def)
    have e2: "mset (map fst c) + all_retained (fst y) = I + all_retained (fst x)"
      using assms(1) h by (simp add: effect_def)
    have "mset (map fst (c @ d)) + all_retained (fst z)
        = mset (map fst c) + (mset (map fst d) + all_retained (fst z))" by simp
    also have "\<dots> = J + (mset (map fst c) + all_retained (fst y))"
      unfolding e1 by (simp add: ac_simps)
    finally show ?thesis unfolding e2 by (simp add: ac_simps)
  qed
  moreover have "missing_of (fst z) m ch
      + length (filter (\<lambda>e. of_key m ch (ps_tick (fst e))) (c @ d)) + frontier_of (fst x) m ch
      = missing_of (fst x) m ch + frontier_of (fst z) m ch"
    if "healthy (snd z)" "rc_mode (sr_config (fst x)) = StartMode_kFromOpen" for m ch
  proof -
    have h: "healthy (snd y)" "rc_mode (sr_config (fst y)) = StartMode_kFromOpen"
      using assms that by (simp_all add: effect_def)
    have "missing_of (fst z) m ch + length (filter (\<lambda>e. of_key m ch (ps_tick (fst e))) d)
        + frontier_of (fst y) m ch = missing_of (fst y) m ch + frontier_of (fst z) m ch"
      using assms(2) that(1) h(2) by (simp add: effect_def)
    moreover have "missing_of (fst y) m ch + length (filter (\<lambda>e. of_key m ch (ps_tick (fst e))) c)
        + frontier_of (fst x) m ch = missing_of (fst x) m ch + frontier_of (fst y) m ch"
      using assms(1) that(2) h(1) by (simp add: effect_def)
    ultimately show ?thesis by simp
  qed
  ultimately show ?thesis using assms by (auto simp: effect_def)
qed

lemma effect_silent:
  assumes "view env' = view env" and "healthy env' \<Longrightarrow> healthy env"
    and "sr_config rec' = sr_config rec" and "all_retained rec' = all_retained rec"
    and "rc_mode (sr_config rec) = StartMode_kFromOpen \<Longrightarrow> missing_of rec' = missing_of rec"
    and "rc_mode (sr_config rec) = StartMode_kFromOpen \<Longrightarrow> frontier_of rec' = frontier_of rec"
  shows "effect [] {#} (rec, env) (rec', env')"
  using assms by (simp add: effect_def)

lemma rec_ok_channel:
  assumes "rec_ok rec env" and "i < sr_channel_count rec"
  shows "channel_ready (sr_config rec) (channel_ctx i rec env)"
proof -
  have "i < limit" using assms by (auto simp: rec_ok_def table_ok_def table_shape_def)
  then show ?thesis
    using assms by (auto simp: rec_ok_def channel_ready_def ready_def ctx_ok_def chan_good_def channel_ctx_def)
qed

section \<open>One channel operation inside the table\<close>

lemma emissions_sorted:
  assumes "sorted_wrt (<) (map (\<lambda>e. slot_seq (fst e)) c)"
    and "\<forall>e \<in> set c. payload (snd e) = payload (ps_tick (fst e))"
  shows "sorted_wrt (<) (map native_seq (filter P (map snd (filter Q c))))"
proof -
  have "sorted_wrt (\<lambda>a b. slot_seq (fst a) < slot_seq (fst b)) c"
    using assms(1) by (simp add: sorted_wrt_map)
  then have "sorted_wrt (\<lambda>a b. native_seq (snd a) < native_seq (snd b)) c"
    using assms(2) by (elim sorted_wrt_mono_rel [rotated]) (metis payload_fields(1))
  then have "sorted_wrt (\<lambda>a b. native_seq (snd a) < native_seq (snd b)) (filter Q c)"
    by (rule sorted_wrt_filter)
  then have "sorted_wrt (\<lambda>a b. native_seq a < native_seq b) (map snd (filter Q c))"
    by (simp add: sorted_wrt_map)
  then have "sorted_wrt (\<lambda>a b. native_seq a < native_seq b) (filter P (map snd (filter Q c)))"
    by (rule sorted_wrt_filter)
  then show ?thesis by (simp add: sorted_wrt_map)
qed

lemma store_kept:
  assumes ok: "rec_ok rec env" and ord: "ordered rec env" and i: "i < sr_channel_count rec"
    and kept: "kept (sr_config rec) I (channel_ctx i rec env) cx'"
    and st: "store_ctx i rec cx' = (rec', env')"
  shows "rec_ok rec' env'" and "ordered rec' env'" and "\<exists>c. effect c I (rec, env) (rec', env')"
    and "index_of rec' = index_of rec" and "sr_channel_count rec' = sr_channel_count rec"
proof -
  let ?st = "sr_channels rec ! i"
  have T: "table_ok rec" using ok by (simp add: rec_ok_def)
  have len: "i < length (sr_channels rec)" using T i by (simp add: table_ok_def table_shape_def)
  obtain c where step: "stepc c I (channel_ctx i rec env) cx'" and cok: "ctx_ok (sr_config rec) cx'"
    using kept by (auto simp: kept_def)
  note D = stepcD [OF step]
  have f: "sr_config rec' = sr_config rec" "sr_channels rec' = (sr_channels rec)[i := cx_state cx']"
    "sr_channel_table rec' = sr_channel_table rec"
    "sr_channel_table_mask rec' = sr_channel_table_mask rec"
    "sr_channel_count rec' = sr_channel_count rec" "env' = cx_env cx'"
    using store_ctx_fields [of i rec cx'] st by simp_all
  have cx: "cx_state (channel_ctx i rec env) = ?st" "cx_env (channel_ctx i rec env) = env"
    by (simp_all add: channel_ctx_def)
  have here: "sr_channels rec' ! i = cx_state cx'" using len by (simp add: f)
  have other: "sr_channels rec' ! j = sr_channels rec ! j" if "j \<noteq> i" for j using that by (simp add: f)
  have key: "chan_key (cx_state cx') = chan_key ?st" using D(2,3) by (simp add: chan_key_def cx)
  have keys: "\<forall>j < sr_channel_count rec. chan_key (sr_channels rec' ! j) = chan_key (sr_channels rec ! j)"
    using here other key by metis
  note C = table_ok_cong [OF T f(3,4,5) _ keys]
  have T': "table_ok rec'" and idx: "index_of rec' = index_of rec" using C by (simp_all add: f)
  show "index_of rec' = index_of rec" "sr_channel_count rec' = sr_channel_count rec" by (rule idx, rule f)
  have me: "index_of rec (cs_market ?st) (cs_channel ?st) = Some i"
    using index_of_Some [OF T] i by (simp add: chan_key_def)
  show "rec_ok rec' env'"
    unfolding rec_ok_def
  proof (intro conjI allI impI)
    show "table_ok rec'" by (rule T')
    show "cfg_ok (sr_config rec')" "length (sr_channels rec') \<le> limit" using ok by (simp_all add: rec_ok_def f)
    show "inv env'" using D(1) by (simp add: f)
    show "home (chan_key (sr_channels rec' ! j))" if "j < sr_channel_count rec'" for j
      using ok keys that by (simp add: rec_ok_def f(5))
    show "chan_good rec' j (sr_channels rec' ! j)" if "j < sr_channel_count rec'" for j
    proof (cases "j = i")
      case True
      have "chan_good rec i ?st" using ok i by (simp add: rec_ok_def)
      then show ?thesis
        using True cok D(4,5) here by (auto simp: chan_good_def ctx_ok_def cx f(1))
    next
      case False
      then show ?thesis using ok that other [OF False] by (simp add: rec_ok_def f(1,5) chan_good_def)
    qed
    show "sr_channels rec' ! j = default_channel_state"
      if "j < length (sr_channels rec')" "sr_channel_count rec' \<le> j" for j
      using that ok i by (simp add: rec_ok_def f)
  qed
  let ?E = "filter sel (map snd (filter (\<lambda>e. ps_emit (fst e)) c))"
  have view': "view env' = view env @ ?E" using D(8) by (simp add: f cx)
  have cons: "payload (snd e) = payload (ps_tick (fst e)) \<and> of_key (cs_market ?st) (cs_channel ?st) (ps_tick (fst e))
      \<and> cs_expected ?st \<le> slot_seq (fst e) \<and> slot_seq (fst e) < cs_expected (cx_state cx')"
    if "e \<in> set c" for e
    using D(10) [OF that] by (auto simp: consumed_ok_def of_key_def cx split_beta)
  have newt: "of_key (cs_market ?st) (cs_channel ?st) t \<and> cs_expected ?st \<le> native_seq t
      \<and> native_seq t < cs_expected (cx_state cx')" if t: "t \<in> set ?E" for t
  proof -
    from t obtain e where e: "e \<in> set c" "t = snd e" by auto
    from cons [OF e(1)] payload_fields [of "snd e" "ps_tick (fst e)"] e(2) show ?thesis
      by (simp add: of_key_def)
  qed
  show "ordered rec' env'"
    unfolding ordered_def
  proof (intro conjI ballI allI)
    fix t assume "t \<in> set (view env')"
    then consider "t \<in> set (view env)" | "t \<in> set ?E" unfolding view' by auto
    then show "\<exists>j. index_of rec' (tick_market t) (tick_channel t) = Some j
        \<and> native_seq t < cs_expected (sr_channels rec' ! j)"
    proof cases
      case 1
      then obtain j where j: "index_of rec (tick_market t) (tick_channel t) = Some j"
        "native_seq t < cs_expected (sr_channels rec ! j)" using ord by (auto simp: ordered_def)
      then have "native_seq t < cs_expected (sr_channels rec' ! j)"
        using D(7) here other [of j] by (cases "j = i") (auto simp: cx)
      then show ?thesis using j idx by auto
    next
      case 2
      from newt [OF this] me show ?thesis by (auto simp: idx here of_key_def)
    qed
  next
    fix m ch
    have old: "sorted_wrt (<) (map native_seq (filter (of_key m ch) (view env)))"
      using ord by (simp add: ordered_def)
    have new: "sorted_wrt (<) (map native_seq (filter (of_key m ch) ?E))"
    proof -
      have "filter (of_key m ch) ?E
          = filter (\<lambda>t. sel t \<and> of_key m ch t) (map snd (filter (\<lambda>e. ps_emit (fst e)) c))"
        by (simp add: conj_commute)
      then show ?thesis using emissions_sorted [OF D(9)] cons by simp
    qed
    have "native_seq a < native_seq b"
      if a: "a \<in> set (filter (of_key m ch) (view env))" and b: "b \<in> set (filter (of_key m ch) ?E)" for a b
    proof -
      have "b \<in> set ?E" "of_key m ch b" using b by auto
      with newt have nb: "of_key (cs_market ?st) (cs_channel ?st) b" "cs_expected ?st \<le> native_seq b" by blast+
      have "a \<in> set (view env)" "of_key m ch a" using a by auto
      then obtain j where j: "index_of rec m ch = Some j" "native_seq a < cs_expected (sr_channels rec ! j)"
        using ord by (auto simp: ordered_def of_key_def)
      have "m = cs_market ?st" "ch = cs_channel ?st"
        using \<open>of_key m ch b\<close> nb(1) by (simp_all add: of_key_def)
      then have "j = i" using j(1) me by simp
      then show ?thesis using j(2) nb(2) by simp
    qed
    then show "sorted_wrt (<) (map native_seq (filter (of_key m ch) (view env')))"
      using old new by (simp add: view' sorted_wrt_append)
  qed
  have "effect c I (rec, env) (rec', env')"
    unfolding effect_def
  proof (intro conjI ballI impI allI)
    show "view (snd (rec', env')) = view (snd (rec, env)) @ ?E" using view' by simp
    show "payload (snd e) = payload (ps_tick (fst e))" if "e \<in> set c" for e using cons [OF that] by blast
    show "sr_config (fst (rec', env')) = sr_config (fst (rec, env))" by (simp add: f)
    assume h: "healthy (snd (rec', env'))"
    then have h': "healthy (cx_env cx')" by (simp add: f)
    show "healthy (snd (rec, env))" using D(11) [OF h'] by (simp add: cx)
    have rest: "(\<Sum>j \<in> {..< sr_channel_count rec'} - {i}. retained (sr_channels rec' ! j))
        = (\<Sum>j \<in> {..< sr_channel_count rec} - {i}. retained (sr_channels rec ! j))"
      using other by (intro sum.cong) (auto simp: f(5))
    have i': "i < sr_channel_count rec'" using i f(5) by simp
    have "mset (map fst c) + all_retained rec' = (mset (map fst c) + retained (cx_state cx'))
        + (\<Sum>j \<in> {..< sr_channel_count rec} - {i}. retained (sr_channels rec ! j))"
      using all_retained_split [OF i'] rest here by simp
    also have "\<dots> = I + all_retained rec"
      using D(12) [OF h'] all_retained_split [OF i] by (simp add: cx)
    finally show "mset (map fst c) + all_retained (fst (rec', env')) = I + all_retained (fst (rec, env))"
      by simp
    fix m ch
    assume "rc_mode (sr_config (fst (rec, env))) = StartMode_kFromOpen"
    moreover have "chan_good rec i ?st" using ok i by (simp add: rec_ok_def)
    ultimately have nd: "\<not> cs_discovering ?st" by (auto simp: chan_good_def)
    have acc: "accounted (length c) ?st (cx_state cx')" using D(13) [OF h'] nd by (simp add: cx)
    show "missing_of (fst (rec', env')) m ch + length (filter (\<lambda>e. of_key m ch (ps_tick (fst e))) c)
        + frontier_of (fst (rec, env)) m ch
      = missing_of (fst (rec, env)) m ch + frontier_of (fst (rec', env')) m ch"
    proof (cases "(m, ch) = (cs_market ?st, cs_channel ?st)")
      case True
      then have "filter (\<lambda>e. of_key m ch (ps_tick (fst e))) c = c" using cons by (auto intro!: filter_True)
      then show ?thesis using True acc me here by (simp add: missing_of_def frontier_of_def idx accounted_def)
    next
      case False
      then have none: "filter (\<lambda>e. of_key m ch (ps_tick (fst e))) c = []"
        using cons by (auto intro!: filter_False simp: of_key_def)
      have "missing_of rec' m ch = missing_of rec m ch \<and> frontier_of rec' m ch = frontier_of rec m ch"
      proof (cases "index_of rec m ch")
        case None
        then show ?thesis by (simp add: missing_of_def frontier_of_def idx)
      next
        case (Some j)
        then have "chan_key (sr_channels rec ! j) = (m, ch)" using index_of_Some [OF T] by simp
        then have "j \<noteq> i" using False by (auto simp: chan_key_def)
        then show ?thesis using Some other by (simp add: missing_of_def frontier_of_def idx)
      qed
      then show ?thesis by (simp add: none)
    qed
  qed
  then show "\<exists>c. effect c I (rec, env) (rec', env')" by blast
qed

section \<open>Looking up and creating a channel\<close>

lemma new_channel_good:
  assumes "cfg_ok (sr_config rec)"
  shows "sr_config rec' = sr_config rec \<Longrightarrow>
      chan_good rec' n (new_channel (sr_config rec) m c n default_channel_state)"
    and "retained (new_channel (sr_config rec) m c n default_channel_state) = {#}"
proof -
  let ?st = "new_channel (sr_config rec) m c n default_channel_state"
  show ret: "retained ?st = {#}"
    by (auto simp: retained_def new_channel_def default_pending_slot_def)
  assume "sr_config rec' = sr_config rec"
  then show "chan_good rec' n ?st"
    using ret
    by (auto simp: chan_good_def chan_inv_def frontier_lt_def new_channel_def default_channel_state_def
        default_pending_slot_def split: StartMode.splits)
qed

lemma FindOrCreate_kept:
  assumes ok: "rec_ok rec env" and ord: "ordered rec env" and home: "home (m, c)"
    and find: "FindOrCreate S m c rec env = (r, rec1, env1)"
  shows "rec_ok rec1 env1 \<and> ordered rec1 env1 \<and> effect [] {#} (rec, env) (rec1, env1)
    \<and> sr_config rec1 = sr_config rec
    \<and> (\<forall>i. r = Some i \<longrightarrow> i < sr_channel_count rec1 \<and> chan_key (sr_channels rec1 ! i) = (m, c))"
proof -
  have T: "table_ok rec" and i: "inv env" using ok by (simp_all add: rec_ok_def)
  have le: "sr_channel_count rec \<le> length (sr_channels rec)"
    using T by (simp add: table_ok_def table_shape_def)
  note F = FindOrCreate_spec [OF T, of m c]
  have self: "effect [] {#} (rec, env) (rec, env)" by (intro effect_silent) simp_all
  obtain b e1 where al: "sk_alloc S env = (b, e1)" by (cases "sk_alloc S env")
  have A: "inv e1" "healthy e1 = healthy env" "view e1 = view env" using alloc_kept [OF i al] by simp_all
  consider (found) j where "index_of rec m c = Some j"
    | (full) "index_of rec m c = None" "sr_channel_count rec = length (sr_channels rec)"
    | (refused) "index_of rec m c = None" "sr_channel_count rec < length (sr_channels rec)" "\<not> b"
    | (created) "index_of rec m c = None" "sr_channel_count rec < length (sr_channels rec)" "b"
    using le by (cases "index_of rec m c") (auto simp: order_le_less)
  then show ?thesis
  proof cases
    case found
    then show ?thesis using F(1) [OF found, of S env] find ok ord self index_of_Some [OF T] by auto
  next
    case full
    then show ?thesis using F(2) [OF full, of S env] find ok ord self by auto
  next
    case refused
    then have "r = None" "rec1 = rec" "env1 = e1" using F(3) [of S env e1] al find by auto
    moreover have "effect [] {#} (rec, env) (rec, e1)" using A by (intro effect_silent) simp_all
    ultimately show ?thesis using ok ord A by (simp add: rec_ok_def ordered_def)
  next
    case created
    let ?n = "sr_channel_count rec"
    from F(4) [OF created(1,2), of S env e1] al created(3) obtain s where
      f: "FindOrCreate S m c rec env = (Some ?n, add_channel rec m c s, e1)"
      and T1: "table_ok (add_channel rec m c s)"
      and idx: "\<forall>m' c'. index_of (add_channel rec m c s) m' c'
          = (if (m', c') = (m, c) then Some ?n else index_of rec m' c')" by auto
    have r: "r = Some ?n" "rec1 = add_channel rec m c s" "env1 = e1" using f find by simp_all
    have fresh: "sr_channels rec ! ?n = default_channel_state" using ok created(2) by (simp add: rec_ok_def)
    have cfg: "cfg_ok (sr_config rec)" using ok by (simp add: rec_ok_def)
    note N = new_channel_good [OF cfg]
    have at: "sr_channels rec1 ! ?n = new_channel (sr_config rec) m c ?n default_channel_state"
      using created(2) by (simp add: r fresh)
    have old: "sr_channels rec1 ! j = sr_channels rec ! j" if "j \<noteq> ?n" for j using that by (simp add: r)
    have "rec_ok rec1 env1"
      unfolding rec_ok_def
    proof (intro conjI allI impI)
      show "table_ok rec1" "inv env1" using T1 A by (simp_all add: r)
      show "cfg_ok (sr_config rec1)" "length (sr_channels rec1) \<le> limit" using ok by (simp_all add: r rec_ok_def)
      show "home (chan_key (sr_channels rec1 ! j))" if "j < sr_channel_count rec1" for j
      proof (cases "j = ?n")
        case True
        then show ?thesis using home unfolding True at by (simp add: chan_key_def new_channel_def)
      next
        case False
        then show ?thesis using old [OF False] ok that by (simp add: rec_ok_def r)
      qed
      show "chan_good rec1 j (sr_channels rec1 ! j)" if "j < sr_channel_count rec1" for j
      proof (cases "j = ?n")
        case True
        then show ?thesis using N(1) [of rec1 ?n m c] at by (simp add: r)
      next
        case False
        then have "chan_good rec j (sr_channels rec ! j)" using ok that by (simp add: rec_ok_def r)
        then show ?thesis using old [OF False] by (simp add: chan_good_def r)
      qed
      show "sr_channels rec1 ! j = default_channel_state"
        if "j < length (sr_channels rec1)" "sr_channel_count rec1 \<le> j" for j
        using that ok by (simp add: r rec_ok_def)
    qed
    moreover have "ordered rec1 env1"
      unfolding ordered_def
    proof (intro conjI ballI allI)
      fix t assume "t \<in> set (view env1)"
      then obtain j where j: "index_of rec (tick_market t) (tick_channel t) = Some j"
        "native_seq t < cs_expected (sr_channels rec ! j)"
        using ord A by (auto simp: ordered_def r)
      then have "j < ?n" using index_of_Some [OF T] by blast
      then show "\<exists>j. index_of rec1 (tick_market t) (tick_channel t) = Some j
          \<and> native_seq t < cs_expected (sr_channels rec1 ! j)"
        using j created(1) idx old [of j] by (auto simp: r)
    next
      show "sorted_wrt (<) (map native_seq (filter (of_key m' c') (view env1)))" for m' c'
        using ord A by (simp add: ordered_def r)
    qed
    moreover have "effect [] {#} (rec, env) (rec1, env1)"
    proof (rule effect_silent)
      have "all_retained rec1 = retained (sr_channels rec1 ! ?n) + (\<Sum>j < ?n. retained (sr_channels rec1 ! j))"
        by (simp add: all_retained_def r)
      also have "(\<Sum>j < ?n. retained (sr_channels rec1 ! j)) = all_retained rec"
        unfolding all_retained_def using old by (intro sum.cong) auto
      finally show "all_retained rec1 = all_retained rec" using N(2) [of m c ?n] at by simp
      assume mode: "rc_mode (sr_config rec) = StartMode_kFromOpen"
      have new: "cs_expected (sr_channels rec1 ! ?n) = 1" "cs_cumulative_missing (sr_channels rec1 ! ?n) = 0"
        unfolding at by (simp_all add: new_channel_def default_channel_state_def mode)
      have keep: "sr_channels rec1 ! j = sr_channels rec ! j" if "index_of rec m' c' = Some j" for m' c' j
        using that index_of_Some [OF T, of m' c' j] old [of j] by auto
      show "missing_of rec1 = missing_of rec"
        using idx new(2) created(1) keep
        by (intro ext) (auto simp: missing_of_def r(2) split: option.splits simp del: add_channel_fields)
      show "frontier_of rec1 = frontier_of rec"
        using idx new(1) created(1) keep
        by (intro ext) (auto simp: frontier_of_def r(2) split: option.splits simp del: add_channel_fields)
    qed (use A in \<open>simp_all add: r\<close>)
    ultimately show ?thesis using at by (simp add: r)
  qed
qed

section \<open>The public operations\<close>

text \<open>What a call promises: the state stays good, and its effect takes in \<open>I\<close>.\<close>

definition served :: "PendingSlot multiset \<Rightarrow> SequenceRecovery \<times> 's \<Rightarrow> SequenceRecovery \<times> 's \<Rightarrow> bool" where
  "served I s s' \<longleftrightarrow> rec_ok (fst s') (snd s') \<and> ordered (fst s') (snd s') \<and> (\<exists>c. effect c I s s')"

lemma served_trans: "served I x y \<Longrightarrow> served J y z \<Longrightarrow> served (I + J) x z"
  unfolding served_def using effect_trans by blast

lemma served_refl: "rec_ok (fst s) (snd s) \<Longrightarrow> ordered (fst s) (snd s) \<Longrightarrow> served {#} s s"
  unfolding served_def using effect_silent [of "snd s" "snd s" "fst s" "fst s"] by (cases s) auto

lemma served_fatal:
  assumes "rec_ok rec env" and "ordered rec env"
  shows "served {#} (rec, env) (rec, sk_fatal S msg env)"
proof -
  have i: "inv env" using assms(1) by (simp add: rec_ok_def)
  have "effect [] {#} (rec, env) (rec, sk_fatal S msg env)"
    using fatal_kept [OF i, of msg] by (intro effect_silent) simp_all
  then show ?thesis
    using assms fatal_kept [OF i, of msg] by (auto simp: served_def rec_ok_def ordered_def)
qed

lemma served_store:
  assumes "rec_ok rec env" and "ordered rec env" and "i < sr_channel_count rec"
    and "kept (sr_config rec) I (channel_ctx i rec env) cx'"
  shows "served I (rec, env) (store_ctx i rec cx')"
proof -
  obtain rec' env' where st: "store_ctx i rec cx' = (rec', env')" by (cases "store_ctx i rec cx'")
  show ?thesis using store_kept [OF assms st] by (simp add: served_def st)
qed

lemma Process_served:
  assumes ok: "rec_ok rec env" and ord: "ordered rec env"
    and good: "good_seq (native_seq (td_tick decoded))"
    and home: "home (tick_market (td_tick decoded), tick_channel (td_tick decoded))"
  shows "\<exists>s' I. Process S decoded now rec env = Some s' \<and> I \<subseteq># {#arrival decoded#} \<and> served I (rec, env) s'"
proof -
  let ?m = "tick_market (td_tick decoded)" and ?c = "tick_channel (td_tick decoded)"
  obtain r rec1 env1 where f: "FindOrCreate S ?m ?c rec env = (r, rec1, env1)"
    by (cases "FindOrCreate S ?m ?c rec env")
  from FindOrCreate_kept [OF ok ord home f] have K: "rec_ok rec1 env1" "ordered rec1 env1"
    "effect [] {#} (rec, env) (rec1, env1)" "sr_config rec1 = sr_config rec"
    and at: "\<forall>i. r = Some i \<longrightarrow> i < sr_channel_count rec1 \<and> chan_key (sr_channels rec1 ! i) = (?m, ?c)"
    by blast+
  have S1: "served {#} (rec, env) (rec1, env1)" using K by (auto simp: served_def)
  show ?thesis
  proof (cases r)
    case None
    have "served {#} (rec, env) (rec1, sk_fatal S ''native-sequence channel capacity or allocation exhausted'' env1)"
      using served_trans [OF S1 served_fatal [OF K(1,2)]] by simp
    then show ?thesis using None f by (auto simp: Process_def intro!: exI [of _ "{#}"])
  next
    case (Some i)
    have i: "i < sr_channel_count rec1" "chan_key (sr_channels rec1 ! i) = (?m, ?c)" using at Some by auto
    have key: "?m = cs_market (cx_state (channel_ctx i rec1 env1))"
      "?c = cs_channel (cx_state (channel_ctx i rec1 env1))"
      using i(2) by (simp_all add: chan_key_def channel_ctx_def)
    from ProcessChannel_spec [OF rec_ok_channel [OF K(1) i(1)] good key, of now] obtain I cx' where
      cx': "ProcessChannel S (sr_config rec1) decoded now (channel_ctx i rec1 env1) = Some cx'"
        "kept (sr_config rec1) I (channel_ctx i rec1 env1) cx'" "I \<subseteq># {#arrival decoded#}" by blast
    have "served ({#} + I) (rec, env) (store_ctx i rec1 cx')"
      by (rule served_trans [OF S1 served_store [OF K(1,2) i(1) cx'(2)]])
    then show ?thesis using Some f cx' by (intro exI [of _ "store_ctx i rec1 cx'"] exI [of _ I])
      (simp add: Process_def)
  qed
qed

lemma poll_loop_served:
  assumes "rec_ok rec env" and "ordered rec env" and "i + n \<le> sr_channel_count rec"
  shows "served {#} (rec, env) (poll_loop S now n i rec env)"
  using assms
proof (induction n arbitrary: i rec env)
  case 0
  then show ?case using served_refl [of "(rec, env)"] by simp
next
  case (Suc n)
  have i: "i < sr_channel_count rec" using Suc.prems(3) by simp
  let ?cx' = "PollChannel S (sr_config rec) now (channel_ctx i rec env)"
  have "ready (sr_config rec) (channel_ctx i rec env)"
    using rec_ok_channel [OF Suc.prems(1) i] by (simp add: channel_ready_def)
  note k = PollChannel_spec [OF this, of now]
  obtain rec1 env1 where st: "store_ctx i rec ?cx' = (rec1, env1)" by (cases "store_ctx i rec ?cx'")
  have S1: "served {#} (rec, env) (rec1, env1)"
    using served_store [OF Suc.prems(1,2) i k] by (simp add: st)
  have n: "Suc i + n \<le> sr_channel_count rec1"
    using store_kept(5) [OF Suc.prems(1,2) i k st] Suc.prems(3) by simp
  have "served {#} (rec1, env1) (poll_loop S now n (Suc i) rec1 env1)"
    by (rule Suc.IH) (use S1 n in \<open>simp_all add: served_def\<close>)
  from served_trans [OF S1 this] show ?case by (simp add: st)
qed

lemma set_deadline_ok:
  assumes "rec_ok rec env" and "ordered rec env"
  shows "rec_ok (rec\<lparr>sr_next_deadline_ns := d\<rparr>) env" and "ordered (rec\<lparr>sr_next_deadline_ns := d\<rparr>) env"
    and "effect [] {#} (rec, env) (rec\<lparr>sr_next_deadline_ns := d\<rparr>, env)"
proof -
  let ?rec = "rec\<lparr>sr_next_deadline_ns := d\<rparr>"
  have T: "table_ok rec" using assms(1) by (simp add: rec_ok_def)
  have C: "table_ok ?rec" "index_of ?rec = index_of rec"
    using table_ok_cong [OF T, of ?rec] by simp_all
  show "rec_ok ?rec env" using assms(1) C by (simp add: rec_ok_def chan_good_def)
  show "ordered ?rec env" using assms(2) C by (simp add: ordered_def)
  show "effect [] {#} (rec, env) (?rec, env)"
    by (rule effect_silent)
      (simp_all add: all_retained_def missing_of_def frontier_of_def C fun_eq_iff cong: option.case_cong)
qed

lemma Poll_served:
  assumes "rec_ok rec env" and "ordered rec env"
  shows "served {#} (rec, env) (Poll S now rec env)"
proof (cases "sr_next_deadline_ns rec = 0 \<or> now < sr_next_deadline_ns rec")
  case True
  then show ?thesis using served_refl [of "(rec, env)"] assms by (auto simp: Poll_def)
next
  case False
  note Z = set_deadline_ok [OF assms, of 0]
  have "served {#} (rec, env) (rec\<lparr>sr_next_deadline_ns := 0\<rparr>, env)" using Z by (auto simp: served_def)
  moreover have "served {#} (rec\<lparr>sr_next_deadline_ns := 0\<rparr>, env)
      (poll_loop S now (sr_channel_count rec) 0 (rec\<lparr>sr_next_deadline_ns := 0\<rparr>) env)"
    by (rule poll_loop_served [OF Z(1,2)]) simp
  ultimately have "served ({#} + {#}) (rec, env)
      (poll_loop S now (sr_channel_count rec) 0 (rec\<lparr>sr_next_deadline_ns := 0\<rparr>) env)"
    by (rule served_trans)
  then show ?thesis using False by (simp add: Poll_def)
qed

text \<open>After a flush nothing is retained except on frozen channels.\<close>

definition drained :: "ChannelState \<Rightarrow> bool" where
  "drained st \<longleftrightarrow> cs_frozen st \<or> retained st = {#}"

lemma flush_loop_served:
  assumes "rec_ok rec env" and "ordered rec env" and "i + n = sr_channel_count rec"
    and "\<forall>j < i. drained (sr_channels rec ! j)"
  shows "\<exists>s'. flush_loop S now n i rec env = Some s' \<and> served {#} (rec, env) s'
    \<and> (\<forall>j < sr_channel_count (fst s'). drained (sr_channels (fst s') ! j))"
  using assms
proof (induction n arbitrary: i rec env)
  case 0
  then show ?case using served_refl [of "(rec, env)"] by simp
next
  case (Suc n)
  have i: "i < sr_channel_count rec" using Suc.prems(3) by simp
  have len: "i < length (sr_channels rec)"
    using i Suc.prems(1) by (auto simp: rec_ok_def table_ok_def table_shape_def)
  let ?cx = "channel_ctx i rec env"
  have R: "ready (sr_config rec) ?cx"
    using rec_ok_channel [OF Suc.prems(1) i] by (simp add: channel_ready_def)
  from FlushChannel_spec [OF R, of now] obtain cx' where
    f: "FlushChannel S (sr_config rec) now ?cx = Some cx'" and k: "kept (sr_config rec) {#} ?cx cx'"
    and r: "if cs_frozen (cx_state ?cx) then cx' = ?cx else retained (cx_state cx') = {#}" by blast
  obtain rec1 env1 where st: "store_ctx i rec cx' = (rec1, env1)" by (cases "store_ctx i rec cx'")
  have S1: "served {#} (rec, env) (rec1, env1)"
    using served_store [OF Suc.prems(1,2) i k] by (simp add: st)
  have ch: "sr_channels rec1 = (sr_channels rec)[i := cx_state cx']"
    using store_ctx_fields(2) [of i rec cx'] by (simp add: st)
  have n: "Suc i + n = sr_channel_count rec1"
    using store_kept(5) [OF Suc.prems(1,2) i k st] Suc.prems(3) by simp
  have me: "drained (cx_state cx')"
    using r by (cases "cs_frozen (cx_state ?cx)") (simp_all add: drained_def)
  have all: "\<forall>j < Suc i. drained (sr_channels rec1 ! j)"
    using Suc.prems(4) me len by (auto simp: ch less_Suc_eq nth_list_update)
  have "rec_ok rec1 env1" "ordered rec1 env1" using S1 by (simp_all add: served_def)
  from Suc.IH [OF this n all] obtain s' where
    s': "flush_loop S now n (Suc i) rec1 env1 = Some s'" "served {#} (rec1, env1) s'"
      "\<forall>j < sr_channel_count (fst s'). drained (sr_channels (fst s') ! j)" by blast
  from served_trans [OF S1 s'(2)] s'(1,3) show ?case by (simp add: f st)
qed

lemma Flush_served:
  assumes "rec_ok rec env" and "ordered rec env"
  shows "\<exists>s'. Flush S now rec env = Some s' \<and> served {#} (rec, env) s'
    \<and> (\<forall>j < sr_channel_count (fst s'). drained (sr_channels (fst s') ! j))"
  unfolding Flush_def by (rule flush_loop_served [OF assms]) simp_all

lemma FreezeDecodeFailure_served:
  assumes ok: "rec_ok rec env" and ord: "ordered rec env" and home: "home (m, c)"
  shows "served {#} (rec, env) (FreezeDecodeFailure S m c seq now rec env)"
proof (cases "rc_mode (sr_config rec) = StartMode_kFromOpen")
  case False
  then show ?thesis
    using served_refl [of "(rec, env)"] assms by (simp add: FreezeDecodeFailure_def)
next
  case True
  obtain r rec1 env1 where f: "FindOrCreate S m c rec env = (r, rec1, env1)"
    by (cases "FindOrCreate S m c rec env")
  from FindOrCreate_kept [OF ok ord home f] have K: "rec_ok rec1 env1" "ordered rec1 env1"
    "effect [] {#} (rec, env) (rec1, env1)"
    and at: "\<forall>i. r = Some i \<longrightarrow> i < sr_channel_count rec1" by blast+
  have S1: "served {#} (rec, env) (rec1, env1)" using K by (auto simp: served_def)
  show ?thesis
  proof (cases r)
    case None
    then show ?thesis
      using served_trans [OF S1 served_fatal [OF K(1,2)]] True f by (simp add: FreezeDecodeFailure_def)
  next
    case (Some i)
    have i: "i < sr_channel_count rec1" using at Some by simp
    let ?cx = "channel_ctx i rec1 env1"
    let ?cx' = "FreezeFromOpen S ChannelFaultReason_kDecodeFailure seq now ?cx"
    have R: "ready (sr_config rec1) ?cx"
      using rec_ok_channel [OF K(1) i] by (simp add: channel_ready_def)
    note F = FreezeFromOpen_kept [OF readyD(4) [OF R]]
    have "kept (sr_config rec1) {#} ?cx ?cx'"
      using F readyD(2,3) [OF R] unfolding kept_def by (auto simp: ctx_ok_def)
    from served_trans [OF S1 served_store [OF K(1,2) i this]]
    show ?thesis using True f Some by (simp add: FreezeDecodeFailure_def)
  qed
qed

section \<open>Every run is served\<close>

text \<open>The input names a channel that lives here.\<close>

definition home_input :: "RecoveryInput \<Rightarrow> bool" where
  "home_input x = (case x of
     ProcessTick decoded now \<Rightarrow> home (tick_market (td_tick decoded), tick_channel (td_tick decoded))
   | DecodeFailure m c seq now \<Rightarrow> home (m, c)
   | _ \<Rightarrow> True)"

lemma recovery_step_served:
  assumes "rec_ok rec env" and "ordered rec env" and "input_ok x" and "home_input x"
  shows "\<exists>s' I. recovery_step S x rec env = Some s' \<and> I \<subseteq># arrivals [x] \<and> served I (rec, env) s'"
proof (cases x)
  case (ProcessTick decoded now)
  then show ?thesis using Process_served [OF assms(1,2), of decoded now] assms(3,4) by (auto simp: input_ok_def home_input_def)
next
  case (PollDeadlines now)
  then show ?thesis using Poll_served [OF assms(1,2), of now] by auto
next
  case (FlushAll now)
  then show ?thesis using Flush_served [OF assms(1,2), of now] by auto
next
  case (DecodeFailure m c seq now)
  then show ?thesis using FreezeDecodeFailure_served [OF assms(1,2), of m c seq now] assms(4) by (auto simp: home_input_def)
qed

lemma arrivals_Cons: "arrivals (x # xs) = arrivals [x] + arrivals xs"
  by (cases x) simp_all

lemma recovery_run_served:
  assumes "rec_ok rec env" and "ordered rec env" and "list_all input_ok xs" and "list_all home_input xs"
  shows "\<exists>s' I. recovery_run S xs rec env = Some s' \<and> I \<subseteq># arrivals xs \<and> served I (rec, env) s'"
  using assms
proof (induction xs arbitrary: rec env)
  case Nil
  then show ?case using served_refl [of "(rec, env)"] by auto
next
  case (Cons x xs)
  from recovery_step_served [OF Cons.prems(1,2), of x] Cons.prems(3,4) obtain s1 I where
    s1: "recovery_step S x rec env = Some s1" "I \<subseteq># arrivals [x]" "served I (rec, env) s1" by auto
  obtain rec1 env1 where p: "s1 = (rec1, env1)" by (cases s1)
  have "rec_ok rec1 env1" "ordered rec1 env1" using s1(3) by (simp_all add: served_def p)
  from Cons.IH [OF this] Cons.prems(3,4) obtain s' J where
    s': "recovery_run S xs rec1 env1 = Some s'" "J \<subseteq># arrivals xs" "served J (rec1, env1) s'" by auto
  have "I + J \<subseteq># arrivals (x # xs)"
    unfolding arrivals_Cons [of x xs] by (rule subset_mset.add_mono [OF s1(2) s'(2)])
  moreover have "served (I + J) (rec, env) s'"
    using served_trans [OF s1(3) [unfolded p] s'(3)] .
  ultimately show ?case using s1(1) s'(1) p by auto
qed

end

section \<open>The constructor\<close>

lemma table_capacity_from_pow2: "\<exists>j. table_capacity_from (2 ^ k) n = 2 ^ j"
proof (induction "n - 2 ^ k" arbitrary: k rule: less_induct)
  case less
  show ?case
  proof (cases "2 ^ k < n")
    case True
    then have "n - 2 ^ Suc k < n - 2 ^ k" by (intro diff_less_mono2) simp_all
    from less [OF this] show ?thesis
      using True by (subst table_capacity_from.simps) (simp add: mult.commute)
  next
    case False
    then show ?thesis by (subst table_capacity_from.simps) auto
  qed
qed

lemma table_capacity_from_ge: "0 < v \<Longrightarrow> n \<le> table_capacity_from v n \<and> v \<le> table_capacity_from v n"
proof (induction v n rule: table_capacity_from.induct)
  case (1 v n)
  then show ?case by (subst (1 2) table_capacity_from.simps) auto
qed

context recovery_sink
begin

lemma new_recovery_ok:
  assumes "entries = 2 ^ k" and "k \<le> 63" and "maximum_channels \<le> limit" and "inv env" and "view env = []"
  shows "rec_ok (new_recovery mode maximum_channels entries span hold wait) env"
    and "ordered (new_recovery mode maximum_channels entries span hold wait) env"
    and "all_retained (new_recovery mode maximum_channels entries span hold wait) = {#}"
    and "frontier_of (new_recovery mode maximum_channels entries span hold wait) m c = 1"
    and "missing_of (new_recovery mode maximum_channels entries span hold wait) m c = 0"
proof -
  let ?rec = "new_recovery mode maximum_channels entries span hold wait"
  let ?n = "table_capacity_from 1 (maximum_channels * 2)"
  have p: "\<exists>j. ?n = 2 ^ j" using table_capacity_from_pow2 [of 0] by simp
  have ge: "maximum_channels * 2 \<le> ?n" "1 \<le> ?n" using table_capacity_from_ge [of 1 "maximum_channels * 2"] by auto
  have f: "sr_channel_table ?rec = replicate ?n 0" "sr_channel_count ?rec = 0"
    "sr_channels ?rec = replicate maximum_channels default_channel_state"
    "sr_channel_table_mask ?rec = ?n - 1"
    "cfg_ok (sr_config ?rec)"
    using assms(1,2) by (auto simp: new_recovery_def Let_def cfg_ok_def)
  have "maximum_channels < ?n" using ge by (cases "maximum_channels = 0") linarith+
  then have T: "table_ok ?rec" using p by (simp add: table_ok_def table_shape_def f)
  then show "rec_ok ?rec env" using assms(3,4) by (simp add: rec_ok_def f)
  show "ordered ?rec env" using assms(5) by (simp add: ordered_def)
  show "all_retained ?rec = {#}" by (simp add: all_retained_def f)
  have "index_of ?rec m c = None" by (simp add: index_of_def f)
  then show "frontier_of ?rec m c = 1" "missing_of ?rec m c = 0"
    by (simp_all add: frontier_of_def missing_of_def)
qed

end

end
