(* ===== verification/Spsc_Ring.thy ===== *)
theory Spsc_Ring
  imports Prelude
begin

text \<open>
  \<open>IsPowerOfTwo\<close>, \<open>RoundUpPowerOfTwo\<close>, \<open>CheckedRingCapacity\<close> and the class template
  \<open>SpscRing\<close> of \<open>src/engine.cpp\<close>.  \<open>head_\<close> and \<open>tail_\<close> are free-running 64-bit counters
  that wrap; \<open>cached_tail_\<close> and \<open>cached_head_\<close> are each side's last view of the other side.
  The storage is an \<open>UninitializedArray\<close>: a cell is \<open>None\<close> until its first \<open>Store\<close>, and
  loading such a cell yields \<open>None\<close>, which the ring invariant excludes.  Here every operation
  is one step; the interleaved operations are in theory \<open>Ring_Interleaving\<close>.
\<close>

section \<open>Capacities\<close>

definition IsPowerOfTwo :: "nat \<Rightarrow> bool" where
  "IsPowerOfTwo n \<longleftrightarrow> n \<noteq> 0 \<and> n AND (n - 1) = 0"

function round_up_loop :: "nat \<Rightarrow> nat \<Rightarrow> nat" where
  "round_up_loop requested val =
     (if 0 < val \<and> val < requested then round_up_loop requested (val * 2) else val)"
  by pat_completeness auto
termination by (relation "measure (\<lambda>(r, v). r - v)") auto

declare round_up_loop.simps [simp del]

definition RoundUpPowerOfTwo :: "nat \<Rightarrow> nat option" where
  "RoundUpPowerOfTwo requested =
     (if requested = 0 \<or> requested > SIZE_MAX div 2 then None
      else Some (round_up_loop requested 1))"

text \<open>\<open>None\<close> is the \<open>std::invalid_argument\<close> that \<open>CheckedRingCapacity\<close> throws.\<close>

definition CheckedRingCapacity :: "nat \<Rightarrow> nat option" where
  "CheckedRingCapacity requested =
     (case RoundUpPowerOfTwo requested of
        None \<Rightarrow> None
      | Some capacity \<Rightarrow> if capacity > SIZE_MAX then None else Some capacity)"

section \<open>The ring\<close>

record 'a SpscRing =
  rg_capacity :: nat
  rg_storage :: "'a option list"
  rg_mask :: nat
  rg_head :: u64
  rg_cached_tail :: u64
  rg_tail :: u64
  rg_cached_head :: u64

definition new_ring :: "nat \<Rightarrow> 'a SpscRing option" where
  "new_ring requested =
     map_option (\<lambda>c. \<lparr>rg_capacity = c, rg_storage = replicate c None, rg_mask = c - 1,
         rg_head = 0, rg_cached_tail = 0, rg_tail = 0, rg_cached_head = 0\<rparr>)
       (CheckedRingCapacity requested)"

definition TryPush :: "'a \<Rightarrow> 'a SpscRing \<Rightarrow> bool \<times> 'a SpscRing" where
  "TryPush v r =
    (let head = rg_head r;
         r1 = (if unat (head - rg_cached_tail r) \<ge> rg_capacity r
               then r\<lparr>rg_cached_tail := rg_tail r\<rparr> else r) in
     if unat (head - rg_cached_tail r1) \<ge> rg_capacity r1 then (False, r1)
     else (True, r1\<lparr>rg_storage := (rg_storage r1)[unat head AND rg_mask r1 := Some v],
                    rg_head := head + 1\<rparr>))"

definition TryPop :: "'a SpscRing \<Rightarrow> 'a option \<times> 'a SpscRing" where
  "TryPop r =
    (let tail = rg_tail r;
         r1 = (if rg_cached_head r = tail then r\<lparr>rg_cached_head := rg_head r\<rparr> else r) in
     if rg_cached_head r1 = tail then (None, r1)
     else (rg_storage r1 ! (unat tail AND rg_mask r1), r1\<lparr>rg_tail := tail + 1\<rparr>))"

definition ring_empty :: "'a SpscRing \<Rightarrow> bool" where
  "ring_empty r \<longleftrightarrow> rg_tail r = rg_head r"

section \<open>Capacities: the rounding loop\<close>

lemma IsPowerOfTwo_exp: "IsPowerOfTwo (2 ^ k)"
  unfolding IsPowerOfTwo_def nat_and_mask by simp

lemma round_up_loop_pow2:
  assumes "val = 2 ^ k"
  shows "\<exists>j \<ge> k. round_up_loop requested val = 2 ^ j"
  using assms
proof (induction requested val arbitrary: k rule: round_up_loop.induct)
  case (1 requested val)
  show ?case
  proof (cases "val < requested")
    case True
    have "val * 2 = 2 ^ Suc k" using "1.prems" by simp
    with True "1.IH" [of "Suc k"] "1.prems" show ?thesis
      by (subst round_up_loop.simps) (auto intro: Suc_leD)
  next
    case False
    then show ?thesis using "1.prems" by (subst round_up_loop.simps) auto
  qed
qed

lemma round_up_loop_ge: "0 < val \<Longrightarrow> requested \<le> round_up_loop requested val"
proof (induction requested val rule: round_up_loop.induct)
  case (1 requested val)
  then show ?case by (subst round_up_loop.simps) auto
qed

lemma round_up_loop_less:
  "0 < val \<Longrightarrow> val < 2 * requested \<Longrightarrow> round_up_loop requested val < 2 * requested"
proof (induction requested val rule: round_up_loop.induct)
  case (1 requested val)
  then show ?case by (subst round_up_loop.simps) auto
qed

lemma RoundUpPowerOfTwo_Some:
  assumes "RoundUpPowerOfTwo requested = Some c"
  shows "\<exists>k. c = 2 ^ k" and "requested \<le> c" and "c < 2 * requested"
    and "0 < requested" and "requested \<le> SIZE_MAX div 2"
proof -
  have c: "c = round_up_loop requested 1" and r: "0 < requested" "requested \<le> SIZE_MAX div 2"
    using assms by (auto simp: RoundUpPowerOfTwo_def split: if_splits)
  show "\<exists>k. c = 2 ^ k" using round_up_loop_pow2 [of 1 0 requested] c by auto
  show "requested \<le> c" using round_up_loop_ge [of 1 requested] c by simp
  show "c < 2 * requested" using round_up_loop_less [of 1 requested] c r by simp
  show "0 < requested" "requested \<le> SIZE_MAX div 2" using r by auto
qed

lemma CheckedRingCapacity_Some:
  assumes "CheckedRingCapacity requested = Some c"
  shows "\<exists>k \<le> 63. c = 2 ^ k" and "requested \<le> c" and "c < 2 * requested"
proof -
  have r: "RoundUpPowerOfTwo requested = Some c"
    using assms by (auto simp: CheckedRingCapacity_def split: option.splits if_splits)
  from RoundUpPowerOfTwo_Some (1) [OF r] obtain k where k: "c = 2 ^ k" by blast
  have "c < 2 ^ 64" using RoundUpPowerOfTwo_Some (3,5) [OF r] by (simp add: SIZE_MAX_def)
  then have "k < 64" unfolding k by (rule power_less_imp_less_exp [rotated]) simp
  then show "\<exists>k \<le> 63. c = 2 ^ k" using k by auto
  show "requested \<le> c" "c < 2 * requested" using RoundUpPowerOfTwo_Some [OF r] by auto
qed

section \<open>Counters modulo the capacity\<close>

lemma unat_word_add_mod_pow2:
  fixes x :: u64
  assumes "c = 2 ^ k" and "k \<le> 64"
  shows "unat (x + of_nat n) mod c = (unat x + n) mod c"
proof -
  have dvd: "c dvd 2 ^ 64" unfolding assms(1) using assms(2) by (rule le_imp_power_dvd)
  have "unat (x + of_nat n) = (unat x + n) mod 2 ^ 64"
    by (simp add: unat_word_ariths unat_of_nat take_bit_eq_mod mod_simps)
  then show ?thesis using mod_mod_cancel [OF dvd, of "unat x + n"] by simp
qed

definition ring_count :: "'a SpscRing \<Rightarrow> nat" where
  "ring_count r = unat (rg_head r - rg_tail r)"

definition ring_index :: "'a SpscRing \<Rightarrow> nat \<Rightarrow> nat" where
  "ring_index r i = (unat (rg_tail r) + i) mod rg_capacity r"

text \<open>The queue contents, oldest first.\<close>

definition ring_list :: "'a SpscRing \<Rightarrow> 'a list" where
  "ring_list r = map (\<lambda>i. the (rg_storage r ! ring_index r i)) [0 ..< ring_count r]"

definition ring_ok :: "'a SpscRing \<Rightarrow> bool" where
  "ring_ok r \<longleftrightarrow>
     (\<exists>k \<le> 63. rg_capacity r = 2 ^ k) \<and> rg_mask r = rg_capacity r - 1 \<and>
     length (rg_storage r) = rg_capacity r \<and>
     ring_count r \<le> unat (rg_head r - rg_cached_tail r) \<and>
     unat (rg_head r - rg_cached_tail r) \<le> rg_capacity r \<and>
     unat (rg_cached_head r - rg_tail r) \<le> ring_count r \<and>
     (\<forall>i < ring_count r. rg_storage r ! ring_index r i \<noteq> None)"

lemma length_ring_list [simp]: "length (ring_list r) = ring_count r"
  by (simp add: ring_list_def)

lemma ring_okD:
  assumes "ring_ok r"
  shows "rg_mask r = rg_capacity r - 1" "length (rg_storage r) = rg_capacity r"
    "ring_count r \<le> unat (rg_head r - rg_cached_tail r)"
    "unat (rg_head r - rg_cached_tail r) \<le> rg_capacity r"
    "unat (rg_cached_head r - rg_tail r) \<le> ring_count r"
    "i < ring_count r \<Longrightarrow> rg_storage r ! ring_index r i \<noteq> None"
    "ring_count r \<le> rg_capacity r"
  using assms by (auto simp: ring_ok_def)

lemma ring_mask_index:
  assumes "ring_ok r"
  shows "unat w AND rg_mask r = unat w mod rg_capacity r"
  using assms nat_and_mask by (auto simp: ring_ok_def)

lemma ring_capacity_bounds:
  assumes "ring_ok r"
  shows "0 < rg_capacity r" and "rg_capacity r \<le> 2 ^ 63"
proof -
  obtain k where k: "k \<le> 63" "rg_capacity r = 2 ^ k" using assms by (auto simp: ring_ok_def)
  show "0 < rg_capacity r" by (simp add: k)
  show "rg_capacity r \<le> 2 ^ 63" unfolding k(2) using k(1) by (rule power_increasing) simp
qed

lemma ring_index_less:
  assumes "ring_ok r"
  shows "ring_index r i < rg_capacity r"
  using ring_capacity_bounds(1) [OF assms] by (simp add: ring_index_def)

lemma ring_index_inj:
  assumes "i < rg_capacity r" "j < rg_capacity r" "ring_index r i = ring_index r j"
  shows "i = j"
proof (rule ccontr)
  assume "i \<noteq> j"
  have aux: False if ij: "a < b" "b < rg_capacity r" "ring_index r a = ring_index r b" for a b
  proof -
    have "(unat (rg_tail r) + b) - (unat (rg_tail r) + a) = b - a" using ij by simp
    moreover have "rg_capacity r dvd (unat (rg_tail r) + b) - (unat (rg_tail r) + a)"
      using ij by (intro mod_eq_dvd_iff_nat [THEN iffD1]) (auto simp: ring_index_def)
    ultimately show False using ij by (auto dest!: dvd_imp_le)
  qed
  show False using aux [of i j] aux [of j i] assms \<open>i \<noteq> j\<close> by (metis linorder_neqE_nat)
qed

lemma ring_head_index:
  assumes "ring_ok r"
  shows "unat (rg_head r) AND rg_mask r = ring_index r (ring_count r)"
proof -
  from assms obtain k where k: "rg_capacity r = 2 ^ k" "k \<le> 63" by (auto simp: ring_ok_def)
  have "rg_head r = rg_tail r + of_nat (ring_count r)"
    by (simp add: ring_count_def)
  then have "unat (rg_head r) mod rg_capacity r = ring_index r (ring_count r)"
    using unat_word_add_mod_pow2 [OF k(1), of "rg_tail r" "ring_count r"] k(2)
    by (simp add: ring_index_def)
  then show ?thesis by (simp add: ring_mask_index [OF assms])
qed

lemma ring_tail_index:
  assumes "ring_ok r"
  shows "unat (rg_tail r) AND rg_mask r = ring_index r 0"
  by (simp add: ring_mask_index [OF assms] ring_index_def)

lemma count_0_iff: "ring_count r = 0 \<longleftrightarrow> rg_tail r = rg_head r"
  by (auto simp: ring_count_def unsigned_eq_0_iff)

lemma ring_empty_iff: "ring_empty r \<longleftrightarrow> ring_list r = []"
  by (metis count_0_iff length_0_conv length_ring_list ring_empty_def)

section \<open>A push\<close>

lemma refresh_tail_ok:
  "ring_ok r \<Longrightarrow> ring_ok (r\<lparr>rg_cached_tail := rg_tail r\<rparr>)"
  "ring_list (r\<lparr>rg_cached_tail := rg_tail r\<rparr>) = ring_list r"
  "ring_count (r\<lparr>rg_cached_tail := rg_tail r\<rparr>) = ring_count r"
proof -
  show c: "ring_count (r\<lparr>rg_cached_tail := rg_tail r\<rparr>) = ring_count r"
    by (simp add: ring_count_def)
  show "ring_list (r\<lparr>rg_cached_tail := rg_tail r\<rparr>) = ring_list r"
    by (simp add: ring_list_def c ring_index_def)
  show "ring_ok r \<Longrightarrow> ring_ok (r\<lparr>rg_cached_tail := rg_tail r\<rparr>)"
    unfolding ring_ok_def c ring_index_def
    by (auto simp: ring_count_def)
qed

lemma refresh_head_ok:
  "ring_ok r \<Longrightarrow> ring_ok (r\<lparr>rg_cached_head := rg_head r\<rparr>)"
  "ring_list (r\<lparr>rg_cached_head := rg_head r\<rparr>) = ring_list r"
  "ring_count (r\<lparr>rg_cached_head := rg_head r\<rparr>) = ring_count r"
proof -
  show c: "ring_count (r\<lparr>rg_cached_head := rg_head r\<rparr>) = ring_count r"
    by (simp add: ring_count_def)
  show "ring_list (r\<lparr>rg_cached_head := rg_head r\<rparr>) = ring_list r"
    by (simp add: ring_list_def c ring_index_def)
  show "ring_ok r \<Longrightarrow> ring_ok (r\<lparr>rg_cached_head := rg_head r\<rparr>)"
    unfolding ring_ok_def c ring_index_def
    by (auto simp: ring_count_def)
qed

definition ring_store :: "'a \<Rightarrow> 'a SpscRing \<Rightarrow> 'a SpscRing" where
  "ring_store v r = r\<lparr>rg_storage := (rg_storage r)[unat (rg_head r) AND rg_mask r := Some v],
      rg_head := rg_head r + 1\<rparr>"

lemma ring_store_ok:
  assumes ok: "ring_ok r" and room: "unat (rg_head r - rg_cached_tail r) < rg_capacity r"
  shows "ring_ok (ring_store v r)" and "ring_list (ring_store v r) = ring_list r @ [v]"
proof -
  let ?r = "ring_store v r"
  let ?n = "ring_count r"
  have n: "?n < rg_capacity r" using ring_okD(3) [OF ok] room by simp
  have cap: "rg_capacity r \<le> 2 ^ 63" by (rule ring_capacity_bounds [OF ok])
  have succ: "unat (x + 1) = Suc (unat x)" if "unat x < rg_capacity r" for x :: u64
  proof -
    have "x < 9223372036854775808" using that cap by (simp add: word_less_nat_alt)
    then show ?thesis by (rule unat_succ)
  qed
  have count: "ring_count ?r = Suc ?n"
  proof -
    have eq: "rg_head r + 1 - rg_tail r = (rg_head r - rg_tail r) + 1" by simp
    have "unat (rg_head r + 1 - rg_tail r) = Suc ?n"
      unfolding eq using succ [of "rg_head r - rg_tail r"] n by (simp add: ring_count_def)
    then show ?thesis by (simp add: ring_store_def ring_count_def)
  qed
  have cached: "unat (rg_head r + 1 - rg_cached_tail r) = Suc (unat (rg_head r - rg_cached_tail r))"
  proof -
    have eq: "rg_head r + 1 - rg_cached_tail r = (rg_head r - rg_cached_tail r) + 1" by simp
    show ?thesis unfolding eq by (rule succ) (rule room)
  qed
  have idx: "ring_index ?r i = ring_index r i" for i
    by (simp add: ring_store_def ring_index_def)
  have store: "rg_storage ?r = (rg_storage r)[ring_index r ?n := Some v]"
    by (simp add: ring_store_def ring_head_index [OF ok])
  have len: "length (rg_storage r) = rg_capacity r" by (rule ring_okD [OF ok])
  have old: "rg_storage ?r ! ring_index r i = rg_storage r ! ring_index r i" if "i < ?n" for i
  proof -
    have "ring_index r i \<noteq> ring_index r ?n"
      using ring_index_inj [of i r ?n] that n by auto
    then show ?thesis by (simp add: store)
  qed
  have new: "rg_storage ?r ! ring_index r ?n = Some v"
    using ring_index_less [OF ok] by (simp add: store len)
  show "ring_ok ?r"
    unfolding ring_ok_def count idx
  proof (intro conjI allI impI)
    show "\<exists>k \<le> 63. rg_capacity ?r = 2 ^ k" "rg_mask ?r = rg_capacity ?r - 1"
      "length (rg_storage ?r) = rg_capacity ?r"
      using ok by (auto simp: ring_ok_def ring_store_def)
    show "Suc ?n \<le> unat (rg_head ?r - rg_cached_tail ?r)"
      "unat (rg_head ?r - rg_cached_tail ?r) \<le> rg_capacity ?r"
      using ring_okD(3) [OF ok] room cached by (simp_all add: ring_store_def)
    show "unat (rg_cached_head ?r - rg_tail ?r) \<le> Suc ?n"
      using ring_okD(5) [OF ok] by (simp add: ring_store_def)
    show "rg_storage ?r ! ring_index r i \<noteq> None" if "i < Suc ?n" for i
      using that old [of i] new ring_okD(6) [OF ok, of i] by (cases "i = ?n") auto
  qed
  show "ring_list ?r = ring_list r @ [v]"
    unfolding ring_list_def count idx using old new by simp
qed

lemma TryPush_cases:
  assumes ok: "ring_ok r"
  obtains (full) r1 where "TryPush v r = (False, r1)" "ring_ok r1" "ring_list r1 = ring_list r"
      "rg_capacity r1 = rg_capacity r" "length (ring_list r) = rg_capacity r"
    | (pushed) r1 where "TryPush v r = (True, r1)" "ring_ok r1" "ring_list r1 = ring_list r @ [v]"
      "rg_capacity r1 = rg_capacity r" "length (ring_list r) < rg_capacity r"
proof (cases "unat (rg_head r - rg_cached_tail r) \<ge> rg_capacity r")
  case False
  then have "TryPush v r = (True, ring_store v r)"
    by (simp add: TryPush_def ring_store_def Let_def)
  then show thesis
    using pushed ring_store_ok [OF ok] False ring_okD(3) [OF ok] by (auto simp: ring_store_def)
next
  case True
  let ?r = "r\<lparr>rg_cached_tail := rg_tail r\<rparr>"
  have ok': "ring_ok ?r" by (rule refresh_tail_ok(1) [OF ok])
  show thesis
  proof (cases "ring_count r \<ge> rg_capacity r")
    case full': True
    then have "TryPush v r = (False, ?r)"
      using True by (simp add: TryPush_def Let_def ring_count_def)
    then show thesis
      using full ok' refresh_tail_ok(2) [of r] full' ring_okD(7) [OF ok] by simp
  next
    case room: False
    then have "TryPush v r = (True, ring_store v ?r)"
      using True by (simp add: TryPush_def ring_store_def Let_def ring_count_def)
    moreover have "unat (rg_head ?r - rg_cached_tail ?r) < rg_capacity ?r"
      using room by (simp add: ring_count_def)
    ultimately show thesis
      using pushed ring_store_ok [OF ok'] refresh_tail_ok(2) [of r] room
      by (auto simp: ring_store_def)
  qed
qed

section \<open>A pop\<close>

lemma ring_advance_ok:
  assumes ok: "ring_ok r" and avail: "rg_cached_head r \<noteq> rg_tail r"
  shows "ring_ok (r\<lparr>rg_tail := rg_tail r + 1\<rparr>)"
    and "ring_list r = the (rg_storage r ! ring_index r 0) # ring_list (r\<lparr>rg_tail := rg_tail r + 1\<rparr>)"
    and "rg_storage r ! ring_index r 0 \<noteq> None"
proof -
  let ?r = "r\<lparr>rg_tail := rg_tail r + 1\<rparr>"
  let ?n = "ring_count r"
  have pos: "0 < unat (rg_cached_head r - rg_tail r)"
    using avail by (metis eq_iff_diff_eq_0 gr0I unsigned_eq_0_iff)
  then have n: "0 < ?n" using ring_okD(5) [OF ok] by simp
  have pred: "unat (x - (y + 1)) = unat (x - y) - 1" if "0 < unat (x - y)" for x y :: u64
  proof -
    have eq: "x - (y + 1) = (x - y) - 1" by simp
    have "0 < x - y" using that by (simp add: word_less_nat_alt)
    then show ?thesis unfolding eq by (rule unat_pred)
  qed
  have count: "ring_count ?r = ?n - 1"
    using pred [of "rg_head r" "rg_tail r"] n by (simp add: ring_count_def)
  have idx: "ring_index ?r i = ring_index r (Suc i)" for i
  proof -
    from ok obtain k where k: "rg_capacity r = 2 ^ k" "k \<le> 63" by (auto simp: ring_ok_def)
    have "unat (rg_tail r + 1) mod rg_capacity r = (unat (rg_tail r) + 1) mod rg_capacity r"
      using unat_word_add_mod_pow2 [OF k(1), of "rg_tail r" 1] k(2) by simp
    then have "(unat (rg_tail r + 1) + i) mod rg_capacity r
        = (unat (rg_tail r) + 1 + i) mod rg_capacity r"
      by (metis mod_add_left_eq)
    then show ?thesis by (simp add: ring_index_def)
  qed
  show "ring_ok ?r"
    unfolding ring_ok_def count idx
  proof (intro conjI allI impI)
    show "\<exists>k \<le> 63. rg_capacity ?r = 2 ^ k" "rg_mask ?r = rg_capacity ?r - 1"
      "length (rg_storage ?r) = rg_capacity ?r"
      using ok by (auto simp: ring_ok_def)
    show "?n - 1 \<le> unat (rg_head ?r - rg_cached_tail ?r)"
      "unat (rg_head ?r - rg_cached_tail ?r) \<le> rg_capacity ?r"
      using ring_okD(3,4) [OF ok] by simp_all
    show "unat (rg_cached_head ?r - rg_tail ?r) \<le> ?n - 1"
      using pred [OF pos] ring_okD(5) [OF ok] by simp
    show "rg_storage ?r ! ring_index r (Suc i) \<noteq> None" if "i < ?n - 1" for i
      using that ring_okD(6) [OF ok, of "Suc i"] by simp
  qed
  show "rg_storage r ! ring_index r 0 \<noteq> None" using ring_okD(6) [OF ok n] .
  have "[0 ..< ?n] = 0 # map Suc [0 ..< ?n - 1]"
    using n by (simp add: upt_conv_Cons map_Suc_upt)
  then show "ring_list r = the (rg_storage r ! ring_index r 0) # ring_list ?r"
    unfolding ring_list_def count idx by simp
qed

lemma TryPop_cases:
  assumes ok: "ring_ok r"
  obtains (none) r1 where "TryPop r = (None, r1)" "ring_ok r1" "ring_list r = []" "ring_list r1 = []"
      "rg_capacity r1 = rg_capacity r"
    | (popped) v r1 where "TryPop r = (Some v, r1)" "ring_ok r1" "ring_list r = v # ring_list r1"
      "rg_capacity r1 = rg_capacity r"
proof -
  have pop: thesis if r1: "ring_ok r1" "ring_list r1 = ring_list r" "rg_capacity r1 = rg_capacity r"
      "rg_cached_head r1 \<noteq> rg_tail r1"
      "TryPop r = (rg_storage r1 ! (unat (rg_tail r1) AND rg_mask r1), r1\<lparr>rg_tail := rg_tail r1 + 1\<rparr>)"
    for r1
  proof -
    note adv = ring_advance_ok [OF r1(1,4)]
    from adv(3) obtain v where "rg_storage r1 ! ring_index r1 0 = Some v" by blast
    then show thesis
      using popped [of v "r1\<lparr>rg_tail := rg_tail r1 + 1\<rparr>"] adv(1,2) r1
      by (simp add: ring_tail_index [OF r1(1)])
  qed
  show thesis
  proof (cases "rg_cached_head r = rg_tail r")
    case False
    then have "TryPop r = (rg_storage r ! (unat (rg_tail r) AND rg_mask r), r\<lparr>rg_tail := rg_tail r + 1\<rparr>)"
      by (simp add: TryPop_def Let_def)
    with False show thesis using pop [of r] ok by simp
  next
    case True
    let ?r = "r\<lparr>rg_cached_head := rg_head r\<rparr>"
    show thesis
    proof (cases "rg_head r = rg_tail r")
      case empty: True
      have "TryPop r = (None, ?r)" using True empty by (simp add: TryPop_def Let_def)
      moreover have "ring_list r = []" using empty count_0_iff [of r] by (metis length_0_conv length_ring_list)
      ultimately show thesis
        using none [of ?r] refresh_head_ok [of r] ok by simp
    next
      case False
      have "TryPop r = (rg_storage ?r ! (unat (rg_tail ?r) AND rg_mask ?r), ?r\<lparr>rg_tail := rg_tail ?r + 1\<rparr>)"
        using True False by (simp add: TryPop_def Let_def)
      then show thesis
        using pop [of ?r] refresh_head_ok [of r] ok False by simp
    qed
  qed
qed

lemma new_ring_ok:
  assumes "new_ring requested = Some r"
  shows "ring_ok r" and "ring_list r = []" and "requested \<le> rg_capacity r"
proof -
  from assms obtain c where c: "CheckedRingCapacity requested = Some c"
    and r: "r = \<lparr>rg_capacity = c, rg_storage = replicate c None, rg_mask = c - 1,
         rg_head = 0, rg_cached_tail = 0, rg_tail = 0, rg_cached_head = 0\<rparr>"
    by (auto simp: new_ring_def)
  have count: "ring_count r = 0" by (simp add: r ring_count_def)
  then show "ring_list r = []" by (simp add: ring_list_def)
  have f: "rg_capacity r = c" "rg_mask r = c - 1" "length (rg_storage r) = c"
    "rg_head r = 0" "rg_tail r = 0" "rg_cached_tail r = 0" "rg_cached_head r = 0"
    by (simp_all add: r)
  show "ring_ok r"
    unfolding ring_ok_def f count using CheckedRingCapacity_Some(1) [OF c] by auto
  show "requested \<le> rg_capacity r" using CheckedRingCapacity_Some(2) [OF c] r by simp
qed

end
