(* ===== verification/Queue_Interface.thy ===== *)
theory Queue_Interface
  imports Spsc_Ring
begin

text \<open>
  The contract of a bounded single-producer single-consumer queue, as its clients (the lane
  storage and the dispatch matrix) rely on it, and the proof that \<open>SpscRing\<close> provides it.
\<close>

section \<open>Runs of queue operations\<close>

datatype 'a queue_op = Push 'a | Pop

text \<open>
  What a run of operations observes: the values whose push was accepted and the values
  popped, each in order, and the final queue.
\<close>

fun queue_run ::
  "('a \<Rightarrow> 'q \<Rightarrow> bool \<times> 'q) \<Rightarrow> ('q \<Rightarrow> 'a option \<times> 'q) \<Rightarrow> 'a queue_op list \<Rightarrow> 'q
     \<Rightarrow> 'a list \<times> 'a list \<times> 'q" where
  "queue_run push pop [] q = ([], [], q)"
| "queue_run push pop (Push v # ops) q =
     (let (ok, q1) = push v q; (acc, out, q2) = queue_run push pop ops q1
      in ((if ok then v # acc else acc), out, q2))"
| "queue_run push pop (Pop # ops) q =
     (let (r, q1) = pop q; (acc, out, q2) = queue_run push pop ops q1
      in (acc, (case r of None \<Rightarrow> out | Some v \<Rightarrow> v # out), q2))"

section \<open>The contract\<close>

locale bounded_queue =
  fixes push :: "'a \<Rightarrow> 'q \<Rightarrow> bool \<times> 'q"
    and pop :: "'q \<Rightarrow> 'a option \<times> 'q"
    and contents :: "'q \<Rightarrow> 'a list"
    and capacity :: "'q \<Rightarrow> nat"
    and wf :: "'q \<Rightarrow> bool"
  assumes push_rejected: "wf q \<Longrightarrow> push v q = (False, q1) \<Longrightarrow>
        wf q1 \<and> contents q1 = contents q \<and> capacity q1 = capacity q
          \<and> capacity q \<le> length (contents q)"
    and push_accepted: "wf q \<Longrightarrow> push v q = (True, q1) \<Longrightarrow>
        wf q1 \<and> contents q1 = contents q @ [v] \<and> capacity q1 = capacity q
          \<and> length (contents q) < capacity q"
    and pop_nothing: "wf q \<Longrightarrow> pop q = (None, q1) \<Longrightarrow>
        wf q1 \<and> contents q = [] \<and> contents q1 = [] \<and> capacity q1 = capacity q"
    and pop_value: "wf q \<Longrightarrow> pop q = (Some v, q1) \<Longrightarrow>
        wf q1 \<and> contents q = v # contents q1 \<and> capacity q1 = capacity q"
begin

lemma push_cases:
  assumes "wf q"
  obtains (rejected) q1 where "push v q = (False, q1)" "wf q1" "contents q1 = contents q"
      "capacity q1 = capacity q" "capacity q \<le> length (contents q)"
    | (accepted) q1 where "push v q = (True, q1)" "wf q1" "contents q1 = contents q @ [v]"
      "capacity q1 = capacity q" "length (contents q) < capacity q"
proof (cases "push v q")
  case (Pair b q1)
  show thesis
  proof (cases b)
    case True
    with Pair have "push v q = (True, q1)" by simp
    from accepted [OF this] push_accepted [OF assms this] show thesis by blast
  next
    case False
    with Pair have "push v q = (False, q1)" by simp
    from rejected [OF this] push_rejected [OF assms this] show thesis by blast
  qed
qed

lemma pop_cases:
  assumes "wf q"
  obtains (drained) q1 where "pop q = (None, q1)" "wf q1" "contents q = []" "contents q1 = []"
      "capacity q1 = capacity q"
    | (popped) v q1 where "pop q = (Some v, q1)" "wf q1" "contents q = v # contents q1"
      "capacity q1 = capacity q"
proof (cases "pop q")
  case (Pair r q1)
  show thesis
  proof (cases r)
    case None
    with Pair have p: "pop q = (None, q1)" by simp
    have f: "wf q1 \<and> contents q = [] \<and> contents q1 = [] \<and> capacity q1 = capacity q"
      by (rule pop_nothing [OF assms p])
    show thesis using f by (intro drained [OF p]) simp_all
  next
    case (Some v)
    with Pair have "pop q = (Some v, q1)" by simp
    from popped [OF this] pop_value [OF assms this] show thesis by blast
  qed
qed

lemma wf_push: "wf q \<Longrightarrow> wf (snd (push v q))"
  by (rule push_cases [of q v]) simp_all

lemma wf_pop: "wf q \<Longrightarrow> wf (snd (pop q))"
  by (rule pop_cases [of q]) simp_all

lemma push_accepts_iff: "wf q \<Longrightarrow> fst (push v q) \<longleftrightarrow> length (contents q) < capacity q"
  by (rule push_cases [of q v]) simp_all

lemma push_contents:
  "wf q \<Longrightarrow> contents (snd (push v q)) = contents q @ (if fst (push v q) then [v] else [])"
  by (rule push_cases [of q v]) simp_all

lemma push_capacity: "wf q \<Longrightarrow> capacity (snd (push v q)) = capacity q"
  by (rule push_cases [of q v]) simp_all

lemma pop_capacity: "wf q \<Longrightarrow> capacity (snd (pop q)) = capacity q"
  by (rule pop_cases [of q]) simp_all

lemma pop_contents:
  "wf q \<Longrightarrow> contents q = (case fst (pop q) of None \<Rightarrow> [] | Some v \<Rightarrow> [v]) @ contents (snd (pop q))"
  by (rule pop_cases [of q]) simp_all

lemma pop_None_iff: "wf q \<Longrightarrow> fst (pop q) = None \<longleftrightarrow> contents q = []"
  by (rule pop_cases [of q]) simp_all

lemma run_fifo:
  assumes "wf q" and "queue_run push pop ops q = (acc, out, q')"
  shows "wf q' \<and> contents q @ acc = out @ contents q' \<and> capacity q' = capacity q"
  using assms
proof (induction ops arbitrary: q acc out q')
  case (Cons x ops)
  show ?case
  proof (cases x)
    case (Push v)
    obtain ok q1 where p: "push v q = (ok, q1)" by (cases "push v q")
    obtain acc1 out1 where r: "queue_run push pop ops q1 = (acc1, out1, q')"
      and acc: "acc = (if ok then v # acc1 else acc1)" "out = out1"
      using Cons.prems(2) Push p by (auto split: prod.splits)
    have "wf q1" using wf_push [OF Cons.prems(1), of v] p by simp
    from Cons.IH [OF this r] show ?thesis
      using p acc push_contents [OF Cons.prems(1), of v] push_capacity [OF Cons.prems(1), of v]
      by (cases ok) auto
  next
    case Pop
    obtain r q1 where p: "pop q = (r, q1)" by (cases "pop q")
    obtain out1 where r: "queue_run push pop ops q1 = (acc, out1, q')"
      and out: "out = (case r of None \<Rightarrow> out1 | Some v \<Rightarrow> v # out1)"
      using Cons.prems(2) Pop p by (auto split: prod.splits)
    have "wf q1" using wf_pop [OF Cons.prems(1)] p by simp
    from Cons.IH [OF this r] show ?thesis
      using p out pop_contents [OF Cons.prems(1)] pop_capacity [OF Cons.prems(1)]
      by (cases r) auto
  qed
qed simp

end

section \<open>The ring provides it\<close>

interpretation ring: bounded_queue TryPush TryPop ring_list rg_capacity ring_ok
proof unfold_locales
  fix q q1 :: "'a SpscRing" and v
  assume ok: "ring_ok q"
  show "TryPush v q = (False, q1) \<Longrightarrow> ring_ok q1 \<and> ring_list q1 = ring_list q
      \<and> rg_capacity q1 = rg_capacity q \<and> rg_capacity q \<le> length (ring_list q)"
    using ok by (cases rule: TryPush_cases [OF ok, of v]) auto
  show "TryPush v q = (True, q1) \<Longrightarrow> ring_ok q1 \<and> ring_list q1 = ring_list q @ [v]
      \<and> rg_capacity q1 = rg_capacity q \<and> length (ring_list q) < rg_capacity q"
    using ok by (cases rule: TryPush_cases [OF ok, of v]) auto
  show "TryPop q = (None, q1) \<Longrightarrow> ring_ok q1 \<and> ring_list q = [] \<and> ring_list q1 = []
      \<and> rg_capacity q1 = rg_capacity q"
    using ok by (cases rule: TryPop_cases [OF ok]) auto
  show "TryPop q = (Some v, q1) \<Longrightarrow> ring_ok q1 \<and> ring_list q = v # ring_list q1
      \<and> rg_capacity q1 = rg_capacity q"
    using ok by (cases rule: TryPop_cases [OF ok]) auto
qed

end
