(* ===== verification/Gap_Mailbox.thy ===== *)
theory Gap_Mailbox
  imports Canonical
begin

text \<open>
  The class \<open>GapMailboxSlot\<close> of \<open>src/engine.cpp\<close>: three buffers, a versioned token
  \<open>(generation << 2) | buffer index\<close> and the reader's claim.  Here \<open>Publish\<close> is one step;
  \<open>TrySnapshot\<close> runs its attempts with an explicit interference of the producer between the
  claim and the second token load.  The interleaving of single loads and stores is in theory
  \<open>Mailbox_Interleaving\<close>.
\<close>

section \<open>State and operations\<close>

record GapMailboxSlot =
  mb_buffers :: "ChannelGap list"
  mb_published_token :: u64
  mb_reader_index :: nat
  mb_producer_generation :: u64
  mb_delivered_token :: u64

datatype SnapshotResult = kReady ChannelGap | kNoChange | kBusy

definition default_gap :: ChannelGap where
  "default_gap = \<lparr>g_market = Market_kUnknown, g_channel = 0, g_first_missing = 0,
     g_last_missing = 0, g_first_present_after_gap = 0, g_detected_monotonic_ns = 0,
     g_gap_epoch = 0, g_cumulative_missing_sequences = 0\<rparr>"

definition kNoReader :: nat where
  "kNoReader = 3"

definition new_mailbox :: GapMailboxSlot where
  "new_mailbox = \<lparr>mb_buffers = replicate 3 default_gap, mb_published_token = 3,
     mb_reader_index = kNoReader, mb_producer_generation = 0, mb_delivered_token = 3\<rparr>"

definition token_index :: "u64 \<Rightarrow> nat" where
  "token_index token = unat (token AND 3)"

text \<open>The buffer the producer writes, from the current buffer and the reader's claim.\<close>

definition publish_target :: "nat \<Rightarrow> nat \<Rightarrow> nat" where
  "publish_target current_index reader_index =
    (let target = (current_index + 1) mod 3 in
     if target = reader_index then (target + 1) mod 3 else target)"

definition make_token :: "u64 \<Rightarrow> nat \<Rightarrow> u64" where
  "make_token generation target = push_bit 2 generation OR of_nat target"

definition Publish :: "ChannelGap \<Rightarrow> GapMailboxSlot \<Rightarrow> GapMailboxSlot" where
  "Publish gap slot =
    (let current_token = mb_published_token slot;
         target = publish_target (token_index current_token) (mb_reader_index slot);
         generation = mb_producer_generation slot + 1 in
     slot\<lparr>mb_buffers := (mb_buffers slot)[target := gap],
          mb_producer_generation := generation,
          mb_published_token := make_token generation target\<rparr>)"

definition kMaximumAttempts :: nat where
  "kMaximumAttempts = 8"

text \<open>
  The attempt loop, with \<open>n\<close> attempts left.  \<open>interfere n\<close> is what the producer does between
  the store of the claim and the second load of the token.
\<close>

fun snapshot_attempts ::
  "(nat \<Rightarrow> GapMailboxSlot \<Rightarrow> GapMailboxSlot) \<Rightarrow> nat \<Rightarrow> GapMailboxSlot
     \<Rightarrow> SnapshotResult \<times> GapMailboxSlot" where
  "snapshot_attempts interfere 0 slot = (kBusy, slot)"
| "snapshot_attempts interfere (Suc n) slot =
    (let token_before = mb_published_token slot;
         index = token_index token_before in
     if index \<ge> length (mb_buffers slot) then (kNoChange, slot)
     else
       let slot1 = interfere n (slot\<lparr>mb_reader_index := index\<rparr>);
           after = mb_published_token slot1 in
       if token_before \<noteq> after
       then snapshot_attempts interfere n (slot1\<lparr>mb_reader_index := kNoReader\<rparr>)
       else
         let snapshot = mb_buffers slot1 ! index;
             slot2 = slot1\<lparr>mb_reader_index := kNoReader\<rparr> in
         if mb_delivered_token slot2 = token_before then (kNoChange, slot2)
         else (kReady snapshot, slot2\<lparr>mb_delivered_token := token_before\<rparr>))"

definition TrySnapshot_with ::
  "(nat \<Rightarrow> GapMailboxSlot \<Rightarrow> GapMailboxSlot) \<Rightarrow> GapMailboxSlot \<Rightarrow> SnapshotResult \<times> GapMailboxSlot"
where
  "TrySnapshot_with interfere slot = snapshot_attempts interfere kMaximumAttempts slot"

definition TrySnapshot :: "GapMailboxSlot \<Rightarrow> SnapshotResult \<times> GapMailboxSlot" where
  "TrySnapshot slot = TrySnapshot_with (\<lambda>_ s. s) slot"

section \<open>Tokens\<close>

definition kMaximumGeneration :: nat where
  "kMaximumGeneration = 4611686018427387904"

lemma publish_target_props:
  assumes "cur \<le> 3"
  shows "publish_target cur rd < 3" "publish_target cur rd \<noteq> rd"
    "cur < 3 \<Longrightarrow> publish_target cur rd \<noteq> cur"
  using assms by (auto simp: publish_target_def Let_def) presburger+

lemma token_index_le [simp]: "token_index t \<le> 3"
proof -
  have "t AND 3 \<le> 3" by (rule word_and_le1)
  then show ?thesis by (simp add: token_index_def word_le_nat_alt)
qed

lemma token_index_mod: "token_index t = unat t mod 4"
proof -
  have "unat (t AND 3) = unat t AND 3" by (simp add: unsigned_and_eq)
  then show ?thesis using nat_and_mask [of "unat t" 2] by (simp add: token_index_def)
qed

lemma unat_make_token:
  assumes "unat g < kMaximumGeneration" and "i < 4"
  shows "unat (make_token g i) = 4 * unat g + i"
proof -
  have g: "unat (push_bit 2 g) = 4 * unat g"
    using assms(1) unfolding unsigned_push_bit_eq
    by (simp add: push_bit_eq_mult take_bit_nat_eq_self kMaximumGeneration_def)
  have i: "unat (of_nat i :: u64) = i"
    using assms(2) by (simp add: unat_of_nat take_bit_nat_eq_self)
  have "i OR push_bit 2 (unat g) = i + unat g * 2 ^ 2"
    using assms(2) by (intro nat_or_push_bit) simp
  then have "4 * unat g OR i = 4 * unat g + i"
    by (simp add: or.commute push_bit_eq_mult mult.commute)
  then show ?thesis
    unfolding make_token_def unsigned_or_eq g i .
qed

lemma token_index_make_token:
  assumes "i < 4"
  shows "token_index (make_token g i) = i"
proof -
  have i: "unat (of_nat i :: u64) = i" using assms by (simp add: unat_of_nat take_bit_nat_eq_self)
  have low: "(3 :: u64) = Bit_Operations.mask 2" by (simp add: mask_eq_exp_minus_1)
  have "make_token g i AND 3 = of_nat i AND 3"
    unfolding low by (rule bit_word_eqI) (auto simp: make_token_def bit_simps)
  then have "token_index (make_token g i) = unat ((of_nat i :: u64) AND 3)" by (simp add: token_index_def)
  also have "\<dots> = i AND 3" using i by (simp add: unsigned_and_eq)
  also have "\<dots> = i" using assms nat_and_mask [of i 2] by simp
  finally show ?thesis .
qed

section \<open>The mailbox as a one-place register of the latest gap\<close>

text \<open>
  The register view: the latest published gap, and whether the consumer has not yet seen it.
\<close>

definition mb_latest :: "GapMailboxSlot \<Rightarrow> ChannelGap option" where
  "mb_latest slot = (if token_index (mb_published_token slot) < 3
     then Some (mb_buffers slot ! token_index (mb_published_token slot)) else None)"

definition mb_unread :: "GapMailboxSlot \<Rightarrow> bool" where
  "mb_unread slot \<longleftrightarrow> mb_delivered_token slot \<noteq> mb_published_token slot"

text \<open>Between operations the reader holds no claim, and a mailbox without a gap has none to deliver.\<close>

definition mailbox_ok :: "GapMailboxSlot \<Rightarrow> bool" where
  "mailbox_ok slot \<longleftrightarrow> length (mb_buffers slot) = 3 \<and> mb_reader_index slot = kNoReader \<and>
     (token_index (mb_published_token slot) = 3 \<longrightarrow> \<not> mb_unread slot)"

text \<open>As long as the generations have not wrapped, tokens are never used twice.\<close>

definition mailbox_fresh :: "GapMailboxSlot \<Rightarrow> bool" where
  "mailbox_fresh slot \<longleftrightarrow> unat (mb_producer_generation slot) < kMaximumGeneration \<and>
     unat (mb_published_token slot) div 4 = unat (mb_producer_generation slot) \<and>
     unat (mb_delivered_token slot) div 4 \<le> unat (mb_producer_generation slot)"

lemma mailbox_ok_new: "mailbox_ok new_mailbox"
  by (simp add: mailbox_ok_def new_mailbox_def mb_unread_def)

lemma mailbox_fresh_new: "mailbox_fresh new_mailbox"
  by (simp add: mailbox_fresh_def new_mailbox_def kMaximumGeneration_def)

lemma mb_latest_new [simp]: "mb_latest new_mailbox = None" "\<not> mb_unread new_mailbox"
  by (simp_all add: mb_latest_def mb_unread_def new_mailbox_def token_index_def)

lemma Publish_ok:
  assumes ok: "mailbox_ok slot"
  shows "mailbox_ok (Publish gap slot)" and "mb_latest (Publish gap slot) = Some gap"
proof -
  let ?t = "publish_target (token_index (mb_published_token slot)) (mb_reader_index slot)"
  let ?g = "mb_producer_generation slot + 1"
  have t: "?t < 3" by (rule publish_target_props) simp
  have idx: "token_index (make_token ?g ?t) = ?t" using t by (intro token_index_make_token) simp
  have P: "mb_buffers (Publish gap slot) = (mb_buffers slot)[?t := gap]"
    "mb_published_token (Publish gap slot) = make_token ?g ?t"
    "mb_reader_index (Publish gap slot) = mb_reader_index slot"
    by (simp_all add: Publish_def Let_def)
  have len: "length (mb_buffers slot) = 3" using ok by (simp add: mailbox_ok_def)
  show "mb_latest (Publish gap slot) = Some gap" unfolding mb_latest_def P idx using t len by simp
  show "mailbox_ok (Publish gap slot)" unfolding mailbox_ok_def P idx using ok t by (simp add: mailbox_ok_def)
qed

lemma Publish_fresh:
  assumes fresh: "mailbox_fresh slot"
    and gen: "Suc (unat (mb_producer_generation slot)) < kMaximumGeneration"
  shows "mailbox_fresh (Publish gap slot)" and "mb_unread (Publish gap slot)"
    and "unat (mb_producer_generation (Publish gap slot)) = Suc (unat (mb_producer_generation slot))"
proof -
  let ?t = "publish_target (token_index (mb_published_token slot)) (mb_reader_index slot)"
  let ?g = "mb_producer_generation slot + 1"
  have t: "?t < 3" by (rule publish_target_props) simp
  have "mb_producer_generation slot < 4611686018427387904"
    using gen by (simp add: word_less_nat_alt kMaximumGeneration_def)
  then have g: "unat ?g = Suc (unat (mb_producer_generation slot))" by (rule unat_succ)
  with gen have g': "unat ?g < kMaximumGeneration" by simp
  have tok: "unat (make_token ?g ?t) = 4 * unat ?g + ?t"
    using t by (intro unat_make_token [OF g']) simp
  have div: "unat (make_token ?g ?t) div 4 = unat ?g" using tok t by simp
  have P: "mb_published_token (Publish gap slot) = make_token ?g ?t"
    "mb_producer_generation (Publish gap slot) = ?g"
    "mb_delivered_token (Publish gap slot) = mb_delivered_token slot"
    by (simp_all add: Publish_def Let_def)
  show "mb_unread (Publish gap slot)"
    unfolding mb_unread_def
  proof
    assume "mb_delivered_token (Publish gap slot) = mb_published_token (Publish gap slot)"
    then have "unat (mb_delivered_token slot) div 4 = unat ?g" using div by (simp add: P)
    then show False using fresh g by (simp add: mailbox_fresh_def)
  qed
  show "mailbox_fresh (Publish gap slot)"
    unfolding mailbox_fresh_def P div using fresh g g' by (simp add: mailbox_fresh_def del: of_nat_add)
  show "unat (mb_producer_generation (Publish gap slot)) = Suc (unat (mb_producer_generation slot))"
    by (simp add: P g)
qed

lemma TrySnapshot_ok:
  assumes ok: "mailbox_ok slot"
  shows "fst (TrySnapshot slot) =
      (if mb_unread slot then kReady (the (mb_latest slot)) else kNoChange)"
    and "mailbox_ok (snd (TrySnapshot slot))"
    and "mb_latest (snd (TrySnapshot slot)) = mb_latest slot"
    and "\<not> mb_unread (snd (TrySnapshot slot))"
    and "mb_producer_generation (snd (TrySnapshot slot)) = mb_producer_generation slot"
    and "mailbox_fresh slot \<Longrightarrow> mailbox_fresh (snd (TrySnapshot slot))"
proof -
  have rd: "slot\<lparr>mb_reader_index := kNoReader\<rparr> = slot" using ok by (simp add: mailbox_ok_def)
  have len: "length (mb_buffers slot) = 3" using ok by (simp add: mailbox_ok_def)
  have eight: "(8 :: nat) = Suc 7" by simp
  have *: "TrySnapshot slot =
     (if token_index (mb_published_token slot) \<ge> 3 then (kNoChange, slot)
      else if mb_delivered_token slot = mb_published_token slot then (kNoChange, slot)
      else (kReady (mb_buffers slot ! token_index (mb_published_token slot)),
            slot\<lparr>mb_delivered_token := mb_published_token slot\<rparr>))"
    unfolding TrySnapshot_def TrySnapshot_with_def kMaximumAttempts_def eight snapshot_attempts.simps
    by (simp add: len Let_def rd)
  have idx: "token_index (mb_published_token slot) = 3
      \<or> token_index (mb_published_token slot) < 3"
    using token_index_le [of "mb_published_token slot"] by linarith
  show "fst (TrySnapshot slot) =
      (if mb_unread slot then kReady (the (mb_latest slot)) else kNoChange)"
    using ok idx by (auto simp: * mb_unread_def mb_latest_def mailbox_ok_def)
  show "mailbox_ok (snd (TrySnapshot slot))"
    using ok by (simp add: * mailbox_ok_def mb_unread_def)
  show "mb_latest (snd (TrySnapshot slot)) = mb_latest slot"
    by (simp add: * mb_latest_def)
  show "\<not> mb_unread (snd (TrySnapshot slot))"
    using ok idx by (auto simp: * mb_unread_def mailbox_ok_def)
  show "mb_producer_generation (snd (TrySnapshot slot)) = mb_producer_generation slot"
    by (simp add: *)
  show "mailbox_fresh slot \<Longrightarrow> mailbox_fresh (snd (TrySnapshot slot))"
    by (simp add: * mailbox_fresh_def)
qed

end
