(* ===== verification/Dispatcher.thy ===== *)
theory Dispatcher
  imports Queue_Interface Gap_Mailbox Decoder_Types
begin

text \<open>
  The class \<open>Dispatcher\<close> of \<open>src/engine.cpp\<close>: the producer x owner matrices of rings for
  ticks and snapshots, the per-lane fault and LateRecovery rings, and the per-channel gap
  mailboxes with their dirty bitmap.  A queue matrix is the row-major list
  \<open>queues[producer * owners + owner]\<close> of the code.
\<close>

section \<open>State\<close>

record Dispatcher =
  dp_tick_producers :: nat
  dp_snapshot_producers :: nat
  dp_owners :: nat
  dp_tick_queues :: "CanonicalTick SpscRing list"
  dp_snapshot_queues :: "CanonicalSnapshot SpscRing list"
  dp_fault_queues :: "ChannelFault SpscRing list"
  dp_late_recovery_queues :: "LateRecoveryTick SpscRing list"
  dp_gap_channels_per_producer :: nat
  dp_gap_words_per_producer :: nat
  dp_gap_slots :: "GapMailboxSlot list"
  dp_gap_dirty_words :: "u64 list"
  dp_gap_consumer_pending :: "u64 list"
  dp_tick_consumer_cursor :: "nat list"
  dp_snapshot_consumer_cursor :: "nat list"
  dp_gap_consumer_word_cursor :: nat
  dp_late_recovery_consumer_cursor :: nat
  dp_fault_consumer_cursor :: nat

text \<open>\<open>None\<close> is the exception of a ring constructor.\<close>

definition new_dispatcher :: "nat \<Rightarrow> nat \<Rightarrow> nat \<Rightarrow> nat \<Rightarrow> nat \<Rightarrow> nat \<Rightarrow> nat \<Rightarrow> Dispatcher option" where
  "new_dispatcher tick_producers snapshot_producers owners queue_capacity fault_capacity
     late_recovery_capacity maximum_channels =
    (case (new_ring queue_capacity, new_ring queue_capacity, new_ring fault_capacity,
           new_ring late_recovery_capacity) of
       (Some tick_ring, Some snapshot_ring, Some fault_ring, Some late_ring) \<Rightarrow>
         (let words = (maximum_channels + 63) div 64 in
          Some \<lparr>dp_tick_producers = tick_producers, dp_snapshot_producers = snapshot_producers,
            dp_owners = owners,
            dp_tick_queues = replicate (tick_producers * owners) tick_ring,
            dp_snapshot_queues = replicate (snapshot_producers * owners) snapshot_ring,
            dp_fault_queues = replicate tick_producers fault_ring,
            dp_late_recovery_queues = replicate tick_producers late_ring,
            dp_gap_channels_per_producer = maximum_channels,
            dp_gap_words_per_producer = words,
            dp_gap_slots = replicate (tick_producers * maximum_channels) new_mailbox,
            dp_gap_dirty_words = replicate (tick_producers * words) 0,
            dp_gap_consumer_pending = replicate (tick_producers * words) 0,
            dp_tick_consumer_cursor = replicate owners 0,
            dp_snapshot_consumer_cursor = replicate owners 0,
            dp_gap_consumer_word_cursor = 0, dp_late_recovery_consumer_cursor = 0,
            dp_fault_consumer_cursor = 0\<rparr>)
     | _ \<Rightarrow> None)"

section \<open>Publishing\<close>

definition PublishTick :: "nat \<Rightarrow> nat \<Rightarrow> CanonicalTick \<Rightarrow> Dispatcher \<Rightarrow> bool \<times> Dispatcher" where
  "PublishTick producer owner tick d =
    (if producer \<ge> dp_tick_producers d \<or> owner \<ge> dp_owners d then (False, d)
     else
       let edge = producer * dp_owners d + owner;
           (ok, q) = TryPush tick (dp_tick_queues d ! edge) in
       (ok, d\<lparr>dp_tick_queues := (dp_tick_queues d)[edge := q]\<rparr>))"

definition PublishSnapshot ::
  "nat \<Rightarrow> nat \<Rightarrow> CanonicalSnapshot \<Rightarrow> Dispatcher \<Rightarrow> bool \<times> Dispatcher" where
  "PublishSnapshot producer owner snapshot d =
    (if producer \<ge> dp_snapshot_producers d \<or> owner \<ge> dp_owners d then (False, d)
     else
       let edge = producer * dp_owners d + owner;
           (ok, q) = TryPush snapshot (dp_snapshot_queues d ! edge) in
       (ok, d\<lparr>dp_snapshot_queues := (dp_snapshot_queues d)[edge := q]\<rparr>))"

definition PublishGap :: "nat \<Rightarrow> nat \<Rightarrow> ChannelGap \<Rightarrow> Dispatcher \<Rightarrow> bool \<times> Dispatcher" where
  "PublishGap producer channel_slot gap d =
    (if producer \<ge> dp_tick_producers d \<or> channel_slot \<ge> dp_gap_channels_per_producer d
     then (False, d)
     else
       let slot_index = producer * dp_gap_channels_per_producer d + channel_slot;
           word_index = producer * dp_gap_words_per_producer d + channel_slot div 64;
           bit = push_bit (channel_slot mod 64) 1 in
       (True, d\<lparr>dp_gap_slots := (dp_gap_slots d)
                  [slot_index := Publish gap (dp_gap_slots d ! slot_index)],
                dp_gap_dirty_words := (dp_gap_dirty_words d)
                  [word_index := (dp_gap_dirty_words d ! word_index) OR bit]\<rparr>))"

definition PublishFault :: "nat \<Rightarrow> ChannelFault \<Rightarrow> Dispatcher \<Rightarrow> bool \<times> Dispatcher" where
  "PublishFault producer fault d =
    (if producer < length (dp_fault_queues d)
     then (let (ok, q) = TryPush fault (dp_fault_queues d ! producer) in
           (ok, d\<lparr>dp_fault_queues := (dp_fault_queues d)[producer := q]\<rparr>))
     else (False, d))"

definition PublishLateRecovery ::
  "nat \<Rightarrow> LateRecoveryTick \<Rightarrow> Dispatcher \<Rightarrow> bool \<times> Dispatcher" where
  "PublishLateRecovery producer rec d =
    (if producer < length (dp_late_recovery_queues d)
     then (let (ok, q) = TryPush rec (dp_late_recovery_queues d ! producer) in
           (ok, d\<lparr>dp_late_recovery_queues := (dp_late_recovery_queues d)[producer := q]\<rparr>))
     else (False, d))"

section \<open>Polling a row of rings\<close>

text \<open>
  The common loop of the poll operations, with \<open>n\<close> producers left: starting at the cursor,
  the first producer whose ring yields a record wins.  \<open>edge\<close> is the index of a producer's
  ring in the list.
\<close>

fun poll_queues ::
  "(nat \<Rightarrow> nat) \<Rightarrow> nat \<Rightarrow> nat \<Rightarrow> nat \<Rightarrow> nat \<Rightarrow> 'a SpscRing list
     \<Rightarrow> ('a \<times> nat) option \<times> 'a SpscRing list" where
  "poll_queues edge producers cursor 0 cnt qs = (None, qs)"
| "poll_queues edge producers cursor (Suc n) cnt qs =
    (let producer = (cursor + cnt) mod producers;
         (r, q) = TryPop (qs ! edge producer);
         qs1 = qs[edge producer := q] in
     case r of
       Some v \<Rightarrow> (Some (v, producer), qs1)
     | None \<Rightarrow> poll_queues edge producers cursor n (Suc cnt) qs1)"

definition TryPollTick :: "nat \<Rightarrow> Dispatcher \<Rightarrow> CanonicalTick option \<times> Dispatcher" where
  "TryPollTick owner d =
    (if owner \<ge> dp_owners d then (None, d)
     else
       let producers = dp_tick_producers d;
           (r, qs) = poll_queues (\<lambda>producer. producer * dp_owners d + owner) producers
                       (dp_tick_consumer_cursor d ! owner) producers 0 (dp_tick_queues d);
           d1 = d\<lparr>dp_tick_queues := qs\<rparr> in
       case r of
         None \<Rightarrow> (None, d1)
       | Some (tick, producer) \<Rightarrow>
           (Some tick, d1\<lparr>dp_tick_consumer_cursor :=
              (dp_tick_consumer_cursor d1)[owner := (producer + 1) mod producers]\<rparr>))"

definition TryPollSnapshot :: "nat \<Rightarrow> Dispatcher \<Rightarrow> CanonicalSnapshot option \<times> Dispatcher" where
  "TryPollSnapshot owner d =
    (if owner \<ge> dp_owners d then (None, d)
     else
       let producers = dp_snapshot_producers d;
           (r, qs) = poll_queues (\<lambda>producer. producer * dp_owners d + owner) producers
                       (dp_snapshot_consumer_cursor d ! owner) producers 0 (dp_snapshot_queues d);
           d1 = d\<lparr>dp_snapshot_queues := qs\<rparr> in
       case r of
         None \<Rightarrow> (None, d1)
       | Some (snapshot, producer) \<Rightarrow>
           (Some snapshot, d1\<lparr>dp_snapshot_consumer_cursor :=
              (dp_snapshot_consumer_cursor d1)[owner := (producer + 1) mod producers]\<rparr>))"

definition TryPollLateRecovery :: "Dispatcher \<Rightarrow> LateRecoveryTick option \<times> Dispatcher" where
  "TryPollLateRecovery d =
    (let producers = length (dp_late_recovery_queues d) in
     if producers = 0 then (None, d)
     else
       let (r, qs) = poll_queues (\<lambda>producer. producer) producers
                       (dp_late_recovery_consumer_cursor d) producers 0
                       (dp_late_recovery_queues d);
           d1 = d\<lparr>dp_late_recovery_queues := qs\<rparr> in
       case r of
         None \<Rightarrow> (None, d1)
       | Some (rec, producer) \<Rightarrow>
           (Some rec, d1\<lparr>dp_late_recovery_consumer_cursor := (producer + 1) mod producers\<rparr>))"

definition TryPollFault :: "Dispatcher \<Rightarrow> ChannelFault option \<times> Dispatcher" where
  "TryPollFault d =
    (let producers = length (dp_fault_queues d) in
     if producers = 0 then (None, d)
     else
       let (r, qs) = poll_queues (\<lambda>producer. producer) producers
                       (dp_fault_consumer_cursor d) producers 0 (dp_fault_queues d);
           d1 = d\<lparr>dp_fault_queues := qs\<rparr> in
       case r of
         None \<Rightarrow> (None, d1)
       | Some (fault, producer) \<Rightarrow>
           (Some fault, d1\<lparr>dp_fault_consumer_cursor := (producer + 1) mod producers\<rparr>))"

section \<open>Polling the gap mailboxes\<close>

text \<open>\<open>std::countr_zero\<close>: the index of the lowest set bit (64 for zero).\<close>

fun countr_zero_from :: "nat \<Rightarrow> nat \<Rightarrow> u64 \<Rightarrow> nat" where
  "countr_zero_from 0 i w = i"
| "countr_zero_from (Suc n) i w = (if bit w i then i else countr_zero_from n (Suc i) w)"

definition countr_zero :: "u64 \<Rightarrow> nat" where
  "countr_zero w = countr_zero_from 64 0 w"

lemma countr_zero_from_bit:
  "countr_zero_from n i w < i + n \<Longrightarrow> bit w (countr_zero_from n i w)"
  by (induction n i w rule: countr_zero_from.induct) (auto split: if_splits)

lemma countr_zero_from_range: "i \<le> countr_zero_from n i w \<and> countr_zero_from n i w \<le> i + n"
proof (induction n i w rule: countr_zero_from.induct)
  case (2 n i w)
  then show ?case by auto
qed simp

lemma countr_zero_from_none:
  "countr_zero_from n i w = i + n \<Longrightarrow> i \<le> j \<Longrightarrow> j < i + n \<Longrightarrow> \<not> bit w j"
proof (induction n i w rule: countr_zero_from.induct)
  case (2 n i w)
  then show ?case by (cases "j = i") (auto split: if_splits)
qed simp

lemma countr_zero_set:
  assumes "w \<noteq> 0"
  shows "bit w (countr_zero w)" and "countr_zero w < 64"
proof -
  show lt: "countr_zero w < 64"
  proof (rule ccontr)
    assume "\<not> countr_zero w < 64"
    then have eq: "countr_zero_from 64 0 w = 0 + 64"
      using countr_zero_from_range [of 0 64 w] by (simp add: countr_zero_def)
    have "\<not> bit w j" for j
      using countr_zero_from_none [OF eq, of j] bit_imp_le_length [of w j] by (cases "j < 64") auto
    then have "w = 0" by (auto intro: bit_word_eqI)
    with assms show False by simp
  qed
  then show "bit w (countr_zero w)"
    using countr_zero_from_bit [of 64 0 w] by (simp add: countr_zero_def)
qed

definition clear_bit64 :: "nat \<Rightarrow> u64 \<Rightarrow> u64" where
  "clear_bit64 i w = w AND NOT (push_bit i 1)"

lemma clear_bit64_less:
  assumes "bit w i"
  shows "unat (clear_bit64 i w) < unat w"
proof -
  have "clear_bit64 i w AND push_bit i 1 = 0"
    by (auto simp: clear_bit64_def intro!: bit_word_eqI simp: bit_simps)
  moreover have "clear_bit64 i w OR push_bit i 1 = w"
    using assms by (auto simp: clear_bit64_def intro!: bit_word_eqI simp: bit_simps)
  ultimately have "w = clear_bit64 i w + push_bit i 1"
    by (metis disjunctive_add_eq_or)
  then have sum: "unat w = unat (clear_bit64 i w) OR unat (push_bit i 1 :: u64)"
    using \<open>clear_bit64 i w OR push_bit i 1 = w\<close> by (metis unsigned_or_eq)
  have le: "clear_bit64 i w \<le> w" by (simp add: clear_bit64_def word_and_le2)
  have "clear_bit64 i w \<noteq> w"
  proof
    assume "clear_bit64 i w = w"
    then have "bit (clear_bit64 i w) i" using assms by simp
    then show False by (simp add: clear_bit64_def bit_simps)
  qed
  with le show ?thesis by (simp add: word_le_nat_alt word_unat_eq_iff)
qed

text \<open>
  The inner \<open>while (pending != 0)\<close> loop on one word; the result is a delivered gap, or
  \<open>kBusy\<close>, or \<open>kNoChange\<close> for an exhausted word, with the remaining pending word.
\<close>

function gap_word_loop ::
  "nat \<Rightarrow> u64 \<Rightarrow> Dispatcher \<Rightarrow> SnapshotResult \<times> u64 \<times> Dispatcher" where
  "gap_word_loop word_index pending d =
    (if pending = 0 then (kNoChange, pending, d)
     else
       let bit_index = countr_zero pending;
           pending1 = clear_bit64 bit_index pending;
           producer = word_index div dp_gap_words_per_producer d;
           local_word = word_index mod dp_gap_words_per_producer d;
           channel_slot = local_word * 64 + bit_index in
       if channel_slot \<ge> dp_gap_channels_per_producer d
       then gap_word_loop word_index pending1 d
       else
         let slot_index = producer * dp_gap_channels_per_producer d + channel_slot;
             (result, slot) = TrySnapshot (dp_gap_slots d ! slot_index);
             d1 = d\<lparr>dp_gap_slots := (dp_gap_slots d)[slot_index := slot]\<rparr> in
         case result of
           kBusy \<Rightarrow> (kBusy, pending1 OR push_bit bit_index 1, d1)
         | kNoChange \<Rightarrow> gap_word_loop word_index pending1 d1
         | kReady gap \<Rightarrow> (kReady gap, pending1, d1))"
  by pat_completeness auto
termination
  by (relation "measure (\<lambda>(i, p, d). unat p)")
    (auto intro!: clear_bit64_less countr_zero_set)

declare gap_word_loop.simps [simp del]

fun poll_gap_loop :: "nat \<Rightarrow> nat \<Rightarrow> Dispatcher \<Rightarrow> ChannelGap option \<times> Dispatcher" where
  "poll_gap_loop 0 cnt d = (None, d)"
| "poll_gap_loop (Suc n) cnt d =
    (let word_count = length (dp_gap_consumer_pending d);
         word_index = (dp_gap_consumer_word_cursor d + cnt) mod word_count;
         pending = dp_gap_consumer_pending d ! word_index;
         (pending1, d1) = (if pending = 0
           then (dp_gap_dirty_words d ! word_index,
                 d\<lparr>dp_gap_dirty_words := (dp_gap_dirty_words d)[word_index := 0]\<rparr>)
           else (pending, d));
         (result, pending2, d2) = gap_word_loop word_index pending1 d1;
         d3 = d2\<lparr>dp_gap_consumer_pending :=
                (dp_gap_consumer_pending d2)[word_index := pending2]\<rparr> in
     case result of
       kBusy \<Rightarrow> (None, d3)
     | kReady gap \<Rightarrow>
         (Some gap, d3\<lparr>dp_gap_consumer_word_cursor := (word_index + 1) mod word_count\<rparr>)
     | kNoChange \<Rightarrow> poll_gap_loop n (Suc cnt) d3)"

definition TryPollGap :: "Dispatcher \<Rightarrow> ChannelGap option \<times> Dispatcher" where
  "TryPollGap d =
    (if dp_gap_consumer_pending d = [] then (None, d)
     else poll_gap_loop (length (dp_gap_consumer_pending d)) 0 d)"

section \<open>The dispatcher invariant and its views\<close>

definition dispatcher_ok :: "Dispatcher \<Rightarrow> bool" where
  "dispatcher_ok d \<longleftrightarrow>
     length (dp_tick_queues d) = dp_tick_producers d * dp_owners d \<and>
     list_all ring_ok (dp_tick_queues d) \<and>
     length (dp_snapshot_queues d) = dp_snapshot_producers d * dp_owners d \<and>
     list_all ring_ok (dp_snapshot_queues d) \<and>
     length (dp_fault_queues d) = dp_tick_producers d \<and>
     list_all ring_ok (dp_fault_queues d) \<and>
     length (dp_late_recovery_queues d) = dp_tick_producers d \<and>
     list_all ring_ok (dp_late_recovery_queues d) \<and>
     dp_gap_words_per_producer d = (dp_gap_channels_per_producer d + 63) div 64 \<and>
     length (dp_gap_slots d) = dp_tick_producers d * dp_gap_channels_per_producer d \<and>
     length (dp_gap_dirty_words d) = dp_tick_producers d * dp_gap_words_per_producer d \<and>
     length (dp_gap_consumer_pending d) = dp_tick_producers d * dp_gap_words_per_producer d \<and>
     length (dp_tick_consumer_cursor d) = dp_owners d \<and>
     length (dp_snapshot_consumer_cursor d) = dp_owners d"

definition tick_edge :: "Dispatcher \<Rightarrow> nat \<Rightarrow> nat \<Rightarrow> CanonicalTick list" where
  "tick_edge d producer owner = ring_list (dp_tick_queues d ! (producer * dp_owners d + owner))"

definition snapshot_edge :: "Dispatcher \<Rightarrow> nat \<Rightarrow> nat \<Rightarrow> CanonicalSnapshot list" where
  "snapshot_edge d producer owner =
     ring_list (dp_snapshot_queues d ! (producer * dp_owners d + owner))"

definition late_edge :: "Dispatcher \<Rightarrow> nat \<Rightarrow> LateRecoveryTick list" where
  "late_edge d producer = ring_list (dp_late_recovery_queues d ! producer)"

definition fault_edge :: "Dispatcher \<Rightarrow> nat \<Rightarrow> ChannelFault list" where
  "fault_edge d producer = ring_list (dp_fault_queues d ! producer)"

text \<open>The matrix dimensions, which no operation changes.\<close>

definition same_shape :: "Dispatcher \<Rightarrow> Dispatcher \<Rightarrow> bool" where
  "same_shape d d' \<longleftrightarrow> dp_tick_producers d' = dp_tick_producers d \<and>
     dp_snapshot_producers d' = dp_snapshot_producers d \<and> dp_owners d' = dp_owners d \<and>
     dp_gap_channels_per_producer d' = dp_gap_channels_per_producer d"

lemma same_shape_refl [simp]: "same_shape d d"
  by (simp add: same_shape_def)

lemma same_shape_trans: "same_shape a b \<Longrightarrow> same_shape b c \<Longrightarrow> same_shape a c"
  by (simp add: same_shape_def)

lemma list_all_update: "list_all P xs \<Longrightarrow> P y \<Longrightarrow> list_all P (xs[i := y])"
  by (metis (no_types, lifting) list_all_iff insertE set_update_subset_insert subsetD)

lemma ring_ok_nth: "list_all ring_ok qs \<Longrightarrow> i < length qs \<Longrightarrow> ring_ok (qs ! i)"
  by (simp add: list_all_length)

section \<open>Publishing appends to exactly one edge\<close>

lemma PublishTick_spec:
  assumes ok: "dispatcher_ok d" and pub: "PublishTick p w t d = (res, d')"
  shows "dispatcher_ok d'" and "same_shape d d'"
    and "p' < dp_tick_producers d \<Longrightarrow> w' < dp_owners d \<Longrightarrow>
      tick_edge d' p' w' = tick_edge d p' w' @ (if res \<and> p' = p \<and> w' = w then [t] else [])"
proof -
  have "dispatcher_ok d' \<and> same_shape d d' \<and>
      (p' < dp_tick_producers d \<longrightarrow> w' < dp_owners d \<longrightarrow> tick_edge d' p' w'
         = tick_edge d p' w' @ (if res \<and> p' = p \<and> w' = w then [t] else []))"
  proof (cases "p \<ge> dp_tick_producers d \<or> w \<ge> dp_owners d")
    case True
    then show ?thesis using pub ok by (auto simp: PublishTick_def)
  next
    case False
    let ?i = "p * dp_owners d + w"
    have i: "?i < length (dp_tick_queues d)"
      using False ok row_major_less [of p "dp_tick_producers d" w "dp_owners d"]
      by (simp add: dispatcher_ok_def)
    have rok: "ring_ok (dp_tick_queues d ! ?i)"
      using ok i by (intro ring_ok_nth) (simp_all add: dispatcher_ok_def)
    obtain q where q: "TryPush t (dp_tick_queues d ! ?i) = (res, q)"
      and d': "d' = d\<lparr>dp_tick_queues := (dp_tick_queues d)[?i := q]\<rparr>"
      using pub False by (auto simp: PublishTick_def Let_def split: prod.splits)
    have qok: "ring_ok q" using ring.wf_push [OF rok, of t] q by simp
    have ql: "ring_list q = ring_list (dp_tick_queues d ! ?i) @ (if res then [t] else [])"
      using ring.push_contents [OF rok, of t] q by simp
    have "dispatcher_ok d'"
      using ok qok by (simp add: d' dispatcher_ok_def list_all_update)
    moreover have "tick_edge d' p' w'
         = tick_edge d p' w' @ (if res \<and> p' = p \<and> w' = w then [t] else [])"
      if "w' < dp_owners d"
      using that False i ql by (auto simp: d' tick_edge_def nth_list_update row_major_eq_iff)
    ultimately show ?thesis by (simp add: d' same_shape_def)
  qed
  then show "dispatcher_ok d'" "same_shape d d'"
    "p' < dp_tick_producers d \<Longrightarrow> w' < dp_owners d \<Longrightarrow>
      tick_edge d' p' w' = tick_edge d p' w' @ (if res \<and> p' = p \<and> w' = w then [t] else [])"
    by auto
qed

lemma PublishSnapshot_spec:
  assumes ok: "dispatcher_ok d" and pub: "PublishSnapshot p w t d = (res, d')"
  shows "dispatcher_ok d'" and "same_shape d d'"
    and "p' < dp_snapshot_producers d \<Longrightarrow> w' < dp_owners d \<Longrightarrow>
      snapshot_edge d' p' w' = snapshot_edge d p' w' @ (if res \<and> p' = p \<and> w' = w then [t] else [])"
    and "tick_edge d' = tick_edge d"
proof -
  have "dispatcher_ok d' \<and> same_shape d d' \<and> tick_edge d' = tick_edge d \<and>
      (p' < dp_snapshot_producers d \<longrightarrow> w' < dp_owners d \<longrightarrow> snapshot_edge d' p' w'
         = snapshot_edge d p' w' @ (if res \<and> p' = p \<and> w' = w then [t] else []))"
  proof (cases "p \<ge> dp_snapshot_producers d \<or> w \<ge> dp_owners d")
    case True
    then show ?thesis using pub ok by (auto simp: PublishSnapshot_def)
  next
    case False
    let ?i = "p * dp_owners d + w"
    have i: "?i < length (dp_snapshot_queues d)"
      using False ok row_major_less [of p "dp_snapshot_producers d" w "dp_owners d"]
      by (simp add: dispatcher_ok_def)
    have rok: "ring_ok (dp_snapshot_queues d ! ?i)"
      using ok i by (intro ring_ok_nth) (simp_all add: dispatcher_ok_def)
    obtain q where q: "TryPush t (dp_snapshot_queues d ! ?i) = (res, q)"
      and d': "d' = d\<lparr>dp_snapshot_queues := (dp_snapshot_queues d)[?i := q]\<rparr>"
      using pub False by (auto simp: PublishSnapshot_def Let_def split: prod.splits)
    have qok: "ring_ok q" using ring.wf_push [OF rok, of t] q by simp
    have ql: "ring_list q = ring_list (dp_snapshot_queues d ! ?i) @ (if res then [t] else [])"
      using ring.push_contents [OF rok, of t] q by simp
    have "dispatcher_ok d'"
      using ok qok by (simp add: d' dispatcher_ok_def list_all_update)
    moreover have "snapshot_edge d' p' w'
         = snapshot_edge d p' w' @ (if res \<and> p' = p \<and> w' = w then [t] else [])"
      if "w' < dp_owners d"
      using that False i ql by (auto simp: d' snapshot_edge_def nth_list_update row_major_eq_iff)
    moreover have "tick_edge d' = tick_edge d" by (intro ext) (simp add: d' tick_edge_def)
    ultimately show ?thesis by (simp add: d' same_shape_def)
  qed
  then show "dispatcher_ok d'" "same_shape d d'" "tick_edge d' = tick_edge d"
    "p' < dp_snapshot_producers d \<Longrightarrow> w' < dp_owners d \<Longrightarrow>
      snapshot_edge d' p' w' = snapshot_edge d p' w' @ (if res \<and> p' = p \<and> w' = w then [t] else [])"
    by auto
qed

text \<open>The remaining publishers leave the tick matrix alone.\<close>

lemma PublishGap_spec:
  assumes ok: "dispatcher_ok d" and pub: "PublishGap p i g d = (res, d')"
  shows "dispatcher_ok d'" and "same_shape d d'" and "tick_edge d' = tick_edge d"
    and "res \<longleftrightarrow> p < dp_tick_producers d \<and> i < dp_gap_channels_per_producer d"
  using assms
  by (auto simp: PublishGap_def Let_def dispatcher_ok_def same_shape_def tick_edge_def fun_eq_iff
      split: if_splits)

lemma PublishFault_spec:
  assumes ok: "dispatcher_ok d" and pub: "PublishFault p f d = (res, d')"
  shows "dispatcher_ok d'" and "same_shape d d'" and "tick_edge d' = tick_edge d"
proof -
  have *: "ring_ok (snd (TryPush f (dp_fault_queues d ! p)))" if "p < length (dp_fault_queues d)"
    using that ok by (intro ring.wf_push ring_ok_nth) (simp_all add: dispatcher_ok_def)
  show "dispatcher_ok d'" "same_shape d d'" "tick_edge d' = tick_edge d"
    using assms * by (auto simp: PublishFault_def dispatcher_ok_def same_shape_def tick_edge_def
        fun_eq_iff intro!: list_all_update split: if_splits prod.splits)
qed

lemma PublishLateRecovery_spec:
  assumes ok: "dispatcher_ok d" and pub: "PublishLateRecovery p f d = (res, d')"
  shows "dispatcher_ok d'" and "same_shape d d'" and "tick_edge d' = tick_edge d"
proof -
  have *: "ring_ok (snd (TryPush f (dp_late_recovery_queues d ! p)))"
    if "p < length (dp_late_recovery_queues d)"
    using that ok by (intro ring.wf_push ring_ok_nth) (simp_all add: dispatcher_ok_def)
  show "dispatcher_ok d'" "same_shape d d'" "tick_edge d' = tick_edge d"
    using assms * by (auto simp: PublishLateRecovery_def dispatcher_ok_def same_shape_def
        tick_edge_def fun_eq_iff intro!: list_all_update split: if_splits prod.splits)
qed

section \<open>Polling takes the head of the first nonempty edge\<close>

lemma poll_queues_spec:
  assumes "list_all ring_ok qs" and "\<forall>p < P. edge p < length qs" and "0 < P"
    and "poll_queues edge P cursor n cnt qs = (r, qs')"
  shows "length qs' = length qs \<and> list_all ring_ok qs' \<and>
    (case r of
       None \<Rightarrow> map ring_list qs' = map ring_list qs
         \<and> (\<forall>j < n. ring_list (qs ! edge ((cursor + cnt + j) mod P)) = [])
     | Some (v, p) \<Rightarrow> (\<exists>j < n. p = (cursor + cnt + j) mod P
           \<and> (\<forall>i < j. ring_list (qs ! edge ((cursor + cnt + i) mod P)) = []))
         \<and> ring_list (qs ! edge p) = v # ring_list (qs' ! edge p)
         \<and> (\<forall>k < length qs. k \<noteq> edge p \<longrightarrow> ring_list (qs' ! k) = ring_list (qs ! k)))"
  using assms
proof (induction n arbitrary: cnt qs)
  case (Suc n)
  let ?p = "(cursor + cnt) mod P"
  have e: "edge ?p < length qs" using Suc.prems(2,3) by simp
  have rok: "ring_ok (qs ! edge ?p)" using Suc.prems(1) e by (rule ring_ok_nth)
  show ?case
  proof (cases rule: ring.pop_cases [OF rok])
    case (2 v q)
    then have r: "r = Some (v, ?p)" "qs' = qs[edge ?p := q]"
      using Suc.prems(4) by (auto simp: Let_def)
    have "\<exists>j < Suc n. ?p = (cursor + cnt + j) mod P
           \<and> (\<forall>i < j. ring_list (qs ! edge ((cursor + cnt + i) mod P)) = [])"
      by (rule exI [of _ 0]) simp
    then show ?thesis using 2 e Suc.prems(1) by (simp add: r list_all_update)
  next
    case (1 q)
    let ?qs = "qs[edge ?p := q]"
    have rec: "poll_queues edge P cursor n (Suc cnt) ?qs = (r, qs')"
      using Suc.prems(4) 1 by (simp add: Let_def)
    have same: "ring_list (?qs ! k) = ring_list (qs ! k)" if "k < length qs" for k
      using 1 that by (cases "k = edge ?p") auto
    have msame: "map ring_list ?qs = map ring_list qs"
      by (rule nth_equalityI) (simp_all add: same)
    have samep: "ring_list (?qs ! edge (x mod P)) = ring_list (qs ! edge (x mod P))" for x
      using Suc.prems(2,3) by (intro same) simp
    have zero: "ring_list (qs ! edge ((cursor + cnt) mod P)) = []" using 1 by simp
    have "list_all ring_ok ?qs" using Suc.prems(1) 1 by (simp add: list_all_update)
    note IH = Suc.IH [OF this _ Suc.prems(3) rec]
    show ?thesis
    proof (cases r)
      case None
      have "\<forall>j < Suc n. ring_list (qs ! edge ((cursor + cnt + j) mod P)) = []"
      proof (intro allI impI)
        fix j assume "j < Suc n"
        then show "ring_list (qs ! edge ((cursor + cnt + j) mod P)) = []"
          using IH Suc.prems(2) None zero samep by (cases j) auto
      qed
      then show ?thesis using IH Suc.prems(2) None msame by simp
    next
      case (Some vp)
      obtain v p where vp: "vp = (v, p)" by (cases vp)
      from IH Suc.prems(2) Some vp obtain j where j: "j < n" "p = (cursor + Suc cnt + j) mod P"
        "\<forall>i < j. ring_list (?qs ! edge ((cursor + Suc cnt + i) mod P)) = []" by auto
      have "\<forall>i < Suc j. ring_list (qs ! edge ((cursor + cnt + i) mod P)) = []"
      proof (intro allI impI)
        fix i assume "i < Suc j"
        then show "ring_list (qs ! edge ((cursor + cnt + i) mod P)) = []"
          using j(3) zero samep by (cases i) auto
      qed
      then have ex: "\<exists>j < Suc n. p = (cursor + cnt + j) mod P
           \<and> (\<forall>i < j. ring_list (qs ! edge ((cursor + cnt + i) mod P)) = [])"
        using j by (intro exI [of _ "Suc j"]) simp
      have "edge p < length qs" using Suc.prems(2,3) j(2) by simp
      then show ?thesis using IH Suc.prems(2) Some vp ex same by auto
    qed
  qed
qed simp

text \<open>The queues of one owner, as a row of the matrix.\<close>

lemma poll_row_spec:
  assumes all: "list_all ring_ok qs" and len: "length qs = P * W" and w: "w < W" and P: "0 < P"
    and q: "poll_queues (\<lambda>p. p * W + w) P cursor P 0 qs = (s, qs')"
  shows "length qs' = length qs \<and> list_all ring_ok qs' \<and>
    (case s of
       None \<Rightarrow> (\<forall>p < P. ring_list (qs ! (p * W + w)) = []) \<and>
         (\<forall>p < P. \<forall>w' < W. ring_list (qs' ! (p * W + w')) = ring_list (qs ! (p * W + w')))
     | Some (v, p) \<Rightarrow> p < P \<and> ring_list (qs ! (p * W + w)) = v # ring_list (qs' ! (p * W + w)) \<and>
         (\<forall>p' < P. \<forall>w' < W. (p', w') \<noteq> (p, w) \<longrightarrow>
            ring_list (qs' ! (p' * W + w')) = ring_list (qs ! (p' * W + w'))))"
proof -
  have edges: "\<forall>p < P. p * W + w < length qs" using w len row_major_less by simp
  note S = poll_queues_spec [OF all edges P q]
  show ?thesis
  proof (cases s)
    case None
    have empty: "ring_list (qs ! (p * W + w)) = []" if "p < P" for p
    proof -
      from mod_shift_surj [OF that] obtain j where "j < P" "(cursor + j) mod P = p" by blast
      then show ?thesis using S None by auto
    qed
    have same: "map ring_list qs' = map ring_list qs" using S None by simp
    have "ring_list (qs' ! (p * W + w')) = ring_list (qs ! (p * W + w'))" if "p < P" "w' < W" for p w'
    proof -
      have i: "p * W + w' < length qs" using that len row_major_less by simp
      have "map ring_list qs' ! (p * W + w') = map ring_list qs ! (p * W + w')" by (simp only: same)
      then show ?thesis using i S by simp
    qed
    then show ?thesis using S None empty by simp
  next
    case (Some vp)
    obtain v p where vp: "vp = (v, p)" by (cases vp)
    have "ring_list (qs' ! (p' * W + w')) = ring_list (qs ! (p' * W + w'))"
      if "p' < P" "w' < W" "(p', w') \<noteq> (p, w)" for p' w'
    proof -
      have "p' * W + w' < length qs" using that len row_major_less by simp
      moreover have "p' * W + w' \<noteq> p * W + w" using that w by (auto simp: row_major_eq_iff)
      ultimately show ?thesis using S Some vp by simp
    qed
    moreover have "p < P" using S Some vp P by auto
    ultimately show ?thesis using S Some vp by simp
  qed
qed

lemma TryPollTick_spec:
  assumes ok: "dispatcher_ok d" and w: "w < dp_owners d" and P: "0 < dp_tick_producers d"
    and poll: "TryPollTick w d = (r, d')"
  shows "dispatcher_ok d' \<and> same_shape d d' \<and>
    (case r of
       None \<Rightarrow> (\<forall>p < dp_tick_producers d. tick_edge d p w = []) \<and>
         (\<forall>p < dp_tick_producers d. \<forall>w' < dp_owners d. tick_edge d' p w' = tick_edge d p w')
     | Some t \<Rightarrow> \<exists>p < dp_tick_producers d. tick_edge d p w = t # tick_edge d' p w \<and>
         (\<forall>p' < dp_tick_producers d. \<forall>w' < dp_owners d.
            (p', w') \<noteq> (p, w) \<longrightarrow> tick_edge d' p' w' = tick_edge d p' w'))"
proof -
  let ?P = "dp_tick_producers d" and ?W = "dp_owners d"
  obtain s qs where q: "poll_queues (\<lambda>p. p * ?W + w) ?P (dp_tick_consumer_cursor d ! w) ?P 0 (dp_tick_queues d)
      = (s, qs)" by fastforce
  have "list_all ring_ok (dp_tick_queues d)" "length (dp_tick_queues d) = ?P * ?W"
    using ok by (simp_all add: dispatcher_ok_def)
  note S = poll_row_spec [OF this w P q]
  show ?thesis
    using poll q w S ok
    by (auto simp: TryPollTick_def Let_def tick_edge_def same_shape_def dispatcher_ok_def split: option.splits)
qed

lemma TryPollSnapshot_spec:
  assumes ok: "dispatcher_ok d" and w: "w < dp_owners d" and P: "0 < dp_snapshot_producers d"
    and poll: "TryPollSnapshot w d = (r, d')"
  shows "dispatcher_ok d' \<and> same_shape d d' \<and> tick_edge d' = tick_edge d \<and>
    (case r of
       None \<Rightarrow> (\<forall>p < dp_snapshot_producers d. snapshot_edge d p w = []) \<and>
         (\<forall>p < dp_snapshot_producers d. \<forall>w' < dp_owners d. snapshot_edge d' p w' = snapshot_edge d p w')
     | Some t \<Rightarrow> \<exists>p < dp_snapshot_producers d. snapshot_edge d p w = t # snapshot_edge d' p w \<and>
         (\<forall>p' < dp_snapshot_producers d. \<forall>w' < dp_owners d.
            (p', w') \<noteq> (p, w) \<longrightarrow> snapshot_edge d' p' w' = snapshot_edge d p' w'))"
proof -
  let ?P = "dp_snapshot_producers d" and ?W = "dp_owners d"
  obtain s qs where q: "poll_queues (\<lambda>p. p * ?W + w) ?P (dp_snapshot_consumer_cursor d ! w) ?P 0
      (dp_snapshot_queues d) = (s, qs)" by fastforce
  have "list_all ring_ok (dp_snapshot_queues d)" "length (dp_snapshot_queues d) = ?P * ?W"
    using ok by (simp_all add: dispatcher_ok_def)
  note S = poll_row_spec [OF this w P q]
  show ?thesis
    using poll q w S ok
    by (auto simp: TryPollSnapshot_def Let_def snapshot_edge_def tick_edge_def same_shape_def dispatcher_ok_def
        fun_eq_iff split: option.splits)
qed

end
