(* ===== verification/Gap_Polling.thy ===== *)
theory Gap_Polling
  imports Dispatcher
begin

text \<open>
  The gap side of the dispatcher: an unread mailbox is always announced by a dirty bit or by a
  pending bit of the consumer, so \<open>TryPollGap\<close> returns nothing only when every mailbox has been
  read, and otherwise delivers the latest gap of some unread mailbox.
\<close>

section \<open>Reading one mailbox\<close>

lemma TrySnapshot_read:
  assumes "mailbox_ok slot" and "\<not> mb_unread slot"
  shows "TrySnapshot slot = (kNoChange, slot)"
proof -
  have rd: "slot\<lparr>mb_reader_index := kNoReader\<rparr> = slot" using assms(1) by (simp add: mailbox_ok_def)
  have len: "length (mb_buffers slot) = 3" using assms(1) by (simp add: mailbox_ok_def)
  have eight: "(8 :: nat) = Suc 7" by simp
  show ?thesis
    using assms(2)
    unfolding TrySnapshot_def TrySnapshot_with_def kMaximumAttempts_def eight snapshot_attempts.simps
    by (simp add: len Let_def rd mb_unread_def)
qed

lemma TrySnapshot_unread:
  assumes "mailbox_ok slot" and "mb_unread slot"
  shows "fst (TrySnapshot slot) = kReady (the (mb_latest slot))"
  using TrySnapshot_ok(1) [OF assms(1)] assms(2) by simp

section \<open>Cells, words and bits\<close>

definition gap_cell :: "Dispatcher \<Rightarrow> nat \<Rightarrow> nat \<Rightarrow> GapMailboxSlot" where
  "gap_cell d producer channel =
     dp_gap_slots d ! (producer * dp_gap_channels_per_producer d + channel)"

definition gap_word :: "Dispatcher \<Rightarrow> nat \<Rightarrow> nat \<Rightarrow> nat" where
  "gap_word d producer channel = producer * dp_gap_words_per_producer d + channel div 64"

text \<open>The channel that a bit of a word stands for, and whether there is one.\<close>

definition word_channel :: "Dispatcher \<Rightarrow> nat \<Rightarrow> nat \<Rightarrow> nat" where
  "word_channel d word_index i = (word_index mod dp_gap_words_per_producer d) * 64 + i"

definition word_producer :: "Dispatcher \<Rightarrow> nat \<Rightarrow> nat" where
  "word_producer d word_index = word_index div dp_gap_words_per_producer d"

definition bit_unread :: "Dispatcher \<Rightarrow> nat \<Rightarrow> nat \<Rightarrow> bool" where
  "bit_unread d word_index i \<longleftrightarrow> i < 64 \<and> word_channel d word_index i < dp_gap_channels_per_producer d
     \<and> mb_unread (gap_cell d (word_producer d word_index) (word_channel d word_index i))"

definition gap_ok :: "Dispatcher \<Rightarrow> bool" where
  "gap_ok d \<longleftrightarrow> dispatcher_ok d \<and> list_all mailbox_ok (dp_gap_slots d) \<and>
     (\<forall>p < dp_tick_producers d. \<forall>c < dp_gap_channels_per_producer d. mb_unread (gap_cell d p c) \<longrightarrow>
        bit (dp_gap_dirty_words d ! gap_word d p c) (c mod 64)
        \<or> bit (dp_gap_consumer_pending d ! gap_word d p c) (c mod 64))"

lemma gap_words_bound:
  "c < channels \<Longrightarrow> c div 64 < (channels + 63) div (64::nat)"
  by (simp add: less_Suc_eq_le div_le_mono)

lemma gap_word_less:
  assumes "dispatcher_ok d" and "p < dp_tick_producers d" and "c < dp_gap_channels_per_producer d"
  shows "gap_word d p c < length (dp_gap_consumer_pending d)"
    and "gap_word d p c < length (dp_gap_dirty_words d)"
    and "word_producer d (gap_word d p c) = p" and "word_channel d (gap_word d p c) (c mod 64) = c"
proof -
  have w: "c div 64 < dp_gap_words_per_producer d"
    using assms gap_words_bound by (simp add: dispatcher_ok_def)
  show "gap_word d p c < length (dp_gap_consumer_pending d)"
    "gap_word d p c < length (dp_gap_dirty_words d)"
    using assms w row_major_less by (simp_all add: dispatcher_ok_def gap_word_def)
  show "word_producer d (gap_word d p c) = p" using w by (simp add: word_producer_def gap_word_def)
  show "word_channel d (gap_word d p c) (c mod 64) = c" using w by (simp add: word_channel_def gap_word_def)
qed

lemma gap_cell_less:
  assumes "dispatcher_ok d" and "p < dp_tick_producers d" and "c < dp_gap_channels_per_producer d"
  shows "p * dp_gap_channels_per_producer d + c < length (dp_gap_slots d)"
  using assms row_major_less by (simp add: dispatcher_ok_def)

lemma word_producer_less:
  assumes "dispatcher_ok d" and "w < length (dp_gap_consumer_pending d)"
  shows "word_producer d w < dp_tick_producers d"
  using assms by (simp add: dispatcher_ok_def word_producer_def less_mult_imp_div_less)

text \<open>Delivering a mailbox.\<close>

definition read_cell :: "nat \<Rightarrow> nat \<Rightarrow> Dispatcher \<Rightarrow> Dispatcher" where
  "read_cell p c d = d\<lparr>dp_gap_slots :=
     (dp_gap_slots d)[p * dp_gap_channels_per_producer d + c := snd (TrySnapshot (gap_cell d p c))]\<rparr>"

lemma read_cell_ok:
  assumes "dispatcher_ok d" and "list_all mailbox_ok (dp_gap_slots d)"
    and "p < dp_tick_producers d" and "c < dp_gap_channels_per_producer d"
  shows "dispatcher_ok (read_cell p c d)" and "list_all mailbox_ok (dp_gap_slots (read_cell p c d))"
    and "\<not> mb_unread (gap_cell (read_cell p c d) p c)"
    and "p' < dp_tick_producers d \<Longrightarrow> c' < dp_gap_channels_per_producer d \<Longrightarrow> (p', c') \<noteq> (p, c) \<Longrightarrow>
      gap_cell (read_cell p c d) p' c' = gap_cell d p' c'"
    and "same_shape d (read_cell p c d)" and "tick_edge (read_cell p c d) = tick_edge d"
proof -
  let ?i = "p * dp_gap_channels_per_producer d + c"
  have i: "?i < length (dp_gap_slots d)" by (rule gap_cell_less [OF assms(1,3,4)])
  have m: "mailbox_ok (gap_cell d p c)" using assms(2) i by (simp add: list_all_length gap_cell_def)
  show "dispatcher_ok (read_cell p c d)" using assms(1) by (simp add: dispatcher_ok_def read_cell_def)
  show "list_all mailbox_ok (dp_gap_slots (read_cell p c d))"
    using assms(2) TrySnapshot_ok(2) [OF m] by (simp add: read_cell_def list_all_update)
  show "\<not> mb_unread (gap_cell (read_cell p c d) p c)"
    using TrySnapshot_ok(4) [OF m] i by (simp add: read_cell_def gap_cell_def)
  show "p' < dp_tick_producers d \<Longrightarrow> c' < dp_gap_channels_per_producer d \<Longrightarrow> (p', c') \<noteq> (p, c) \<Longrightarrow>
      gap_cell (read_cell p c d) p' c' = gap_cell d p' c'"
    using assms(4) by (auto simp: read_cell_def gap_cell_def nth_list_update row_major_eq_iff)
  show "same_shape d (read_cell p c d)" by (simp add: same_shape_def read_cell_def)
  show "tick_edge (read_cell p c d) = tick_edge d"
    by (intro ext) (simp add: tick_edge_def read_cell_def)
qed

section \<open>The loop over one word\<close>

lemma bit_clear_bit64: "bit (clear_bit64 i w) j \<longleftrightarrow> bit w j \<and> j \<noteq> i"
  by (auto simp: clear_bit64_def bit_simps dest: bit_imp_le_length)

lemma gap_word_loop_spec:
  assumes "dispatcher_ok d" and "list_all mailbox_ok (dp_gap_slots d)"
    and "w < length (dp_gap_consumer_pending d)"
    and "gap_word_loop w pending d = (r, pending', d')"
  shows "(\<forall>i. bit pending' i \<longrightarrow> bit pending i) \<and>
    (\<forall>i. bit pending i \<longrightarrow> \<not> bit pending' i \<longrightarrow> \<not> bit_unread d' w i) \<and>
    (case r of
       kNoChange \<Rightarrow> d' = d \<and> pending' = 0
     | kReady g \<Rightarrow> \<exists>i. bit pending i \<and> bit_unread d w i
         \<and> g = the (mb_latest (gap_cell d (word_producer d w) (word_channel d w i)))
         \<and> d' = read_cell (word_producer d w) (word_channel d w i) d
     | kBusy \<Rightarrow> False)"
  using assms(4)
proof (induction "unat pending" arbitrary: pending r pending' d' rule: less_induct)
  case less
  note ok = assms(1-3)
  show ?case
  proof (cases "pending = 0")
    case True
    then show ?thesis using less.prems by (subst (asm) gap_word_loop.simps) auto
  next
    case False
    let ?b = "countr_zero pending"
    let ?p1 = "clear_bit64 ?b pending"
    let ?p = "word_producer d w" and ?c = "word_channel d w ?b"
    have b: "bit pending ?b" "?b < 64" by (rule countr_zero_set [OF False])+
    have smaller: "unat ?p1 < unat pending" by (rule clear_bit64_less [OF b(1)])
    have p: "?p < dp_tick_producers d" by (rule word_producer_less [OF ok(1,3)])
    have skip: ?thesis if rec: "gap_word_loop w ?p1 d = (r, pending', d')" and nb: "\<not> bit_unread d w ?b"
    proof -
      note IH = less.hyps [OF smaller rec]
      have "\<not> bit_unread d' w ?b"
      proof (cases r)
        case (kReady g)
        then obtain i where i: "bit ?p1 i" "bit_unread d w i" "d' = read_cell ?p (word_channel d w i) d"
          using IH by auto
        then have ne: "word_channel d w ?b \<noteq> word_channel d w i"
          by (auto simp: bit_clear_bit64 word_channel_def)
        have c: "word_channel d w i < dp_gap_channels_per_producer d" using i(2) by (simp add: bit_unread_def)
        have "gap_cell d' ?p ?c = gap_cell d ?p ?c" if "?c < dp_gap_channels_per_producer d"
          unfolding i(3) using that ne by (intro read_cell_ok(4) [OF ok(1,2) p c p]) auto
        moreover have "word_channel d' = word_channel d" "word_producer d' = word_producer d"
          "dp_gap_channels_per_producer d' = dp_gap_channels_per_producer d"
          by (auto simp: i(3) read_cell_def word_channel_def word_producer_def fun_eq_iff)
        ultimately show ?thesis using nb by (auto simp: bit_unread_def)
      qed (use IH nb in auto)
      then show ?thesis using IH by (auto simp: bit_clear_bit64 split: SnapshotResult.splits)
    qed
    show ?thesis
    proof (cases "?c \<ge> dp_gap_channels_per_producer d")
      case True
      have "gap_word_loop w ?p1 d = (r, pending', d')"
        using less.prems False True by (subst (asm) gap_word_loop.simps)
          (simp add: Let_def word_channel_def)
      then show ?thesis using True by (intro skip) (simp_all add: bit_unread_def)
    next
      case small: False
      have i: "?p * dp_gap_channels_per_producer d + ?c < length (dp_gap_slots d)"
        using small by (intro gap_cell_less [OF ok(1) p]) simp
      have m: "mailbox_ok (gap_cell d ?p ?c)" using ok(2) i by (simp add: list_all_length gap_cell_def)
      have idx: "dp_gap_slots d ! (w div dp_gap_words_per_producer d * dp_gap_channels_per_producer d
          + (w mod dp_gap_words_per_producer d * 64 + ?b)) = gap_cell d ?p ?c"
        by (simp add: gap_cell_def word_producer_def word_channel_def)
      show ?thesis
      proof (cases "mb_unread (gap_cell d ?p ?c)")
        case True
        obtain slot where s: "TrySnapshot (gap_cell d ?p ?c)
            = (kReady (the (mb_latest (gap_cell d ?p ?c))), slot)"
          using TrySnapshot_unread [OF m True] by (cases "TrySnapshot (gap_cell d ?p ?c)") simp
        have r: "r = kReady (the (mb_latest (gap_cell d ?p ?c)))" "pending' = ?p1" "d' = read_cell ?p ?c d"
          using less.prems False small s idx
          by (subst (asm) gap_word_loop.simps;
              simp add: Let_def word_channel_def word_producer_def read_cell_def)+
        have "\<not> bit_unread d' w ?b"
          using read_cell_ok(3) [OF ok(1,2) p, of ?c] small
          by (simp add: bit_unread_def r(3)) (simp add: word_channel_def word_producer_def read_cell_def)
        then show ?thesis using b True small r by (auto simp: bit_clear_bit64 bit_unread_def)
      next
        case False
        have s: "TrySnapshot (gap_cell d ?p ?c) = (kNoChange, gap_cell d ?p ?c)"
          by (rule TrySnapshot_read [OF m False])
        have same: "d\<lparr>dp_gap_slots := (dp_gap_slots d)[w div dp_gap_words_per_producer d
            * dp_gap_channels_per_producer d + (w mod dp_gap_words_per_producer d * 64 + ?b)
            := gap_cell d ?p ?c]\<rparr> = d"
          using idx by (metis Dispatcher.surjective Dispatcher.update_convs(10) list_update_id)
        have "gap_word_loop w ?p1 d = (r, pending', d')"
          using less.prems \<open>pending \<noteq> 0\<close> small s idx same by (subst (asm) gap_word_loop.simps)
            (simp add: Let_def word_channel_def)
        then show ?thesis using False by (intro skip) (simp_all add: bit_unread_def)
      qed
    qed
  qed
qed

section \<open>The loop over the words\<close>

lemma unread_bit:
  assumes "dispatcher_ok d" and "p < dp_tick_producers d" and "c < dp_gap_channels_per_producer d"
  shows "bit_unread d (gap_word d p c) (c mod 64) \<longleftrightarrow> mb_unread (gap_cell d p c)"
  using gap_word_less [OF assms] assms(3) by (simp add: bit_unread_def)

text \<open>What a poll may change: one unread mailbox is read, or none is touched.\<close>

definition gap_polled :: "Dispatcher \<Rightarrow> ChannelGap option \<Rightarrow> Dispatcher \<Rightarrow> bool" where
  "gap_polled d r d' \<longleftrightarrow> gap_ok d' \<and> same_shape d d' \<and> tick_edge d' = tick_edge d
     \<and> length (dp_gap_consumer_pending d') = length (dp_gap_consumer_pending d) \<and>
    (case r of
       None \<Rightarrow> dp_gap_slots d' = dp_gap_slots d
     | Some g \<Rightarrow> \<exists>p < dp_tick_producers d. \<exists>c < dp_gap_channels_per_producer d.
         mb_unread (gap_cell d p c) \<and> g = the (mb_latest (gap_cell d p c)) \<and>
         dp_gap_slots d' = dp_gap_slots (read_cell p c d))"

lemma same_gap_view:
  assumes "dp_gap_slots d' = dp_gap_slots d" and "same_shape d d'"
    and "dp_gap_words_per_producer d' = dp_gap_words_per_producer d"
  shows "gap_cell d' = gap_cell d" "gap_word d' = gap_word d" "bit_unread d' = bit_unread d"
  using assms by (intro ext; simp add: gap_cell_def gap_word_def bit_unread_def word_channel_def
      word_producer_def same_shape_def)+

text \<open>A word whose dirty bits a poll does not skip: it has no pending bit, or no dirty one.\<close>

definition word_settled :: "Dispatcher \<Rightarrow> nat \<Rightarrow> bool" where
  "word_settled d w \<longleftrightarrow> dp_gap_consumer_pending d ! w = 0 \<or> dp_gap_dirty_words d ! w = 0"

lemma visit_word:
  assumes ok: "gap_ok d" and w: "w < length (dp_gap_consumer_pending d)"
    and load: "(pending1, d1) = (if dp_gap_consumer_pending d ! w = 0
           then (dp_gap_dirty_words d ! w,
                 d\<lparr>dp_gap_dirty_words := (dp_gap_dirty_words d)[w := 0]\<rparr>)
           else (dp_gap_consumer_pending d ! w, d))"
    and loop: "gap_word_loop w pending1 d1 = (r, pending2, d2)"
    and d3: "d3 = d2\<lparr>dp_gap_consumer_pending := (dp_gap_consumer_pending d2)[w := pending2]\<rparr>"
  shows "case r of
      kBusy \<Rightarrow> False
    | kReady g \<Rightarrow> gap_polled d (Some g) d3 \<and> (\<forall>v. word_settled d v \<longrightarrow> word_settled d3 v)
    | kNoChange \<Rightarrow> gap_polled d None d3 \<and> dp_gap_consumer_pending d3 = (dp_gap_consumer_pending d)[w := 0]
        \<and> dp_gap_consumer_word_cursor d3 = dp_gap_consumer_word_cursor d
        \<and> (word_settled d w \<longrightarrow> (\<forall>i. \<not> bit_unread d w i))
        \<and> (\<forall>v. word_settled d v \<longrightarrow> word_settled d3 v)"
proof -
  have dok: "dispatcher_ok d" and mok: "list_all mailbox_ok (dp_gap_slots d)" using ok by (simp_all add: gap_ok_def)
  have d1: "dp_gap_slots d1 = dp_gap_slots d" "same_shape d d1" "tick_edge d1 = tick_edge d"
    "dp_gap_words_per_producer d1 = dp_gap_words_per_producer d" "dispatcher_ok d1"
    "dp_gap_consumer_pending d1 = dp_gap_consumer_pending d"
    "dp_gap_consumer_word_cursor d1 = dp_gap_consumer_word_cursor d"
    "v \<noteq> w \<Longrightarrow> dp_gap_dirty_words d1 ! v = dp_gap_dirty_words d ! v" for v
    using load dok by (auto simp: same_shape_def tick_edge_def dispatcher_ok_def fun_eq_iff split: if_splits)
  note V1 = same_gap_view [OF d1(1,2,4)]
  have w1: "w < length (dp_gap_consumer_pending d1)" using w d1(6) by simp
  note L = gap_word_loop_spec [OF d1(5) _ w1 loop, unfolded d1(1), OF mok]
  have wd: "w < length (dp_gap_dirty_words d)" using w dok by (simp add: dispatcher_ok_def)
  have covered: "bit pending1 i \<or> (dp_gap_consumer_pending d ! w \<noteq> 0 \<and> bit (dp_gap_dirty_words d1 ! w) i)"
    if u: "mb_unread (gap_cell d p c)" "p < dp_tick_producers d" "c < dp_gap_channels_per_producer d"
      "gap_word d p c = w" "c mod 64 = i" for p c i
  proof -
    have "bit (dp_gap_dirty_words d ! gap_word d p c) (c mod 64)
        \<or> bit (dp_gap_consumer_pending d ! gap_word d p c) (c mod 64)"
      using ok u(1-3) by (simp add: gap_ok_def)
    then show ?thesis using load u(4,5) by (cases "dp_gap_consumer_pending d ! w = 0") auto
  qed
  have good: "gap_ok d3" if slots: "dp_gap_slots d2 = dp_gap_slots d1
      \<or> (\<exists>p c. p < dp_tick_producers d \<and> c < dp_gap_channels_per_producer d
          \<and> dp_gap_slots d2 = dp_gap_slots (read_cell p c d))"
    and frame: "dispatcher_ok d2" "same_shape d1 d2" "dp_gap_dirty_words d2 = dp_gap_dirty_words d1"
      "dp_gap_consumer_pending d2 = dp_gap_consumer_pending d1"
      "dp_gap_words_per_producer d2 = dp_gap_words_per_producer d1"
  proof -
    have shape: "same_shape d d3" using same_shape_trans [OF d1(2) frame(2)] by (simp add: d3 same_shape_def)
    have words: "gap_word d3 = gap_word d"
      using shape d1(4) frame(5) by (intro ext) (simp add: gap_word_def d3)
    have "list_all mailbox_ok (dp_gap_slots d3)"
      using slots mok read_cell_ok(2) [OF dok mok] by (auto simp: d3 d1(1))
    moreover have "dispatcher_ok d3" using frame(1) by (simp add: d3 dispatcher_ok_def)
    moreover have "bit (dp_gap_dirty_words d3 ! gap_word d3 p c) (c mod 64)
        \<or> bit (dp_gap_consumer_pending d3 ! gap_word d3 p c) (c mod 64)"
      if pc: "p < dp_tick_producers d3" "c < dp_gap_channels_per_producer d3"
        and u: "mb_unread (gap_cell d3 p c)" for p c
    proof -
      have pc': "p < dp_tick_producers d" "c < dp_gap_channels_per_producer d"
        using pc shape by (simp_all add: same_shape_def)
      have C: "dp_gap_channels_per_producer d3 = dp_gap_channels_per_producer d"
        using shape by (simp add: same_shape_def)
      have old: "mb_unread (gap_cell d p c)"
      proof (cases "dp_gap_slots d2 = dp_gap_slots d1")
        case True
        then show ?thesis using u C by (simp add: gap_cell_def d3 d1(1))
      next
        case False
        with slots obtain q e where q: "q < dp_tick_producers d" "e < dp_gap_channels_per_producer d"
          "dp_gap_slots d2 = dp_gap_slots (read_cell q e d)" by blast
        then have "gap_cell d3 p c = gap_cell (read_cell q e d) p c"
          using C by (simp add: gap_cell_def d3 read_cell_def)
        then show ?thesis
          using u read_cell_ok(3) [OF dok mok q(1,2)] read_cell_ok(4) [OF dok mok q(1,2) pc']
          by (cases "(p, c) = (q, e)") auto
      qed
      show ?thesis
      proof (cases "gap_word d p c = w")
        case False
        then show ?thesis
          using ok old pc' d1(6) d1(8) [OF False] unfolding words
          by (simp add: d3 frame gap_ok_def)
      next
        case True
        have bu: "bit_unread d2 w (c mod 64)"
        proof -
          have "dispatcher_ok d3" "p < dp_tick_producers d3" "c < dp_gap_channels_per_producer d3"
            using frame(1) pc by (simp_all add: d3 dispatcher_ok_def)
          from unread_bit [OF this] u True words have "bit_unread d3 w (c mod 64)" by simp
          then show ?thesis by (simp add: bit_unread_def gap_cell_def word_channel_def word_producer_def d3)
        qed
        from covered [OF old pc' True refl] show ?thesis
        proof
          assume "bit pending1 (c mod 64)"
          then have "bit pending2 (c mod 64)" using L bu by blast
          then show ?thesis using True w d1(6) unfolding words by (simp add: d3 frame)
        next
          assume "dp_gap_consumer_pending d ! w \<noteq> 0 \<and> bit (dp_gap_dirty_words d1 ! w) (c mod 64)"
          then show ?thesis using True unfolding words by (simp add: d3 frame)
        qed
      qed
    qed
    ultimately show ?thesis by (simp add: gap_ok_def)
  qed
  show ?thesis
  proof (cases r)
    case kBusy
    then show ?thesis using L by simp
  next
    case kNoChange
    then have n: "d2 = d1" "pending2 = 0" using L by auto
    have "gap_ok d3" by (rule good) (use d1 in \<open>simp_all add: n\<close>)
    moreover have "\<forall>i. \<not> bit_unread d w i" if z: "word_settled d w"
    proof (intro allI notI)
      fix i assume u: "bit_unread d w i"
      let ?p = "word_producer d w" and ?c = "word_channel d w i"
      have c: "?c < dp_gap_channels_per_producer d" using u by (simp add: bit_unread_def)
      have p: "?p < dp_tick_producers d" by (rule word_producer_less [OF dok w])
      have u': "mb_unread (gap_cell d ?p ?c)" using u by (simp add: bit_unread_def)
      have i: "i < 64" using u by (simp add: bit_unread_def)
      have "w mod dp_gap_words_per_producer d < dp_gap_words_per_producer d"
        using c gap_words_bound [OF c] dok by (simp add: dispatcher_ok_def)
      then have g: "gap_word d ?p ?c = w" "?c mod 64 = i"
        using i by (simp_all add: gap_word_def word_producer_def word_channel_def)
      have "dp_gap_consumer_pending d ! w = 0 \<or> dp_gap_dirty_words d1 ! w = 0"
        using z load by (auto simp: word_settled_def split: if_splits)
      then have "bit pending1 i" using covered [OF u' p c g] by auto
      then have "\<not> bit_unread d1 w i" using L n by auto
      then show False using u V1(3) by simp
    qed
    moreover have "word_settled d3 v" if "word_settled d v" for v
      using that load w wd by (cases "v = w") (auto simp: word_settled_def d3 n split: if_splits)
    ultimately show ?thesis
      using kNoChange n d1 by (simp add: gap_polled_def d3 same_shape_def tick_edge_def fun_eq_iff)
  next
    case (kReady g)
    then obtain i where i: "bit_unread d1 w i"
      "g = the (mb_latest (gap_cell d1 (word_producer d1 w) (word_channel d1 w i)))"
      "d2 = read_cell (word_producer d1 w) (word_channel d1 w i) d1" using L by auto
    let ?p = "word_producer d w" and ?c = "word_channel d w i"
    have eq: "word_producer d1 w = ?p" "word_channel d1 w i = ?c"
      using d1(4) by (simp_all add: word_producer_def word_channel_def)
    have C: "dp_gap_channels_per_producer d1 = dp_gap_channels_per_producer d"
      "dp_tick_producers d1 = dp_tick_producers d" using d1(2) by (simp_all add: same_shape_def)
    have c: "?c < dp_gap_channels_per_producer d" and u: "mb_unread (gap_cell d ?p ?c)"
      using i(1) V1(1) C eq by (simp_all add: bit_unread_def)
    have p: "?p < dp_tick_producers d" by (rule word_producer_less [OF dok w])
    have slots: "dp_gap_slots d2 = dp_gap_slots (read_cell ?p ?c d)"
      using i(3) V1(1) C d1(1) by (simp add: eq read_cell_def)
    have m1: "list_all mailbox_ok (dp_gap_slots d1)" using mok by (simp add: d1(1))
    note RC = read_cell_ok [OF d1(5) m1, of ?p ?c, unfolded C, OF p c]
    have d2: "d2 = read_cell ?p ?c d1" using i(3) by (simp add: eq)
    have "gap_ok d3"
    proof (rule good)
      show "dp_gap_slots d2 = dp_gap_slots d1 \<or> (\<exists>p c. p < dp_tick_producers d
          \<and> c < dp_gap_channels_per_producer d \<and> dp_gap_slots d2 = dp_gap_slots (read_cell p c d))"
        using p c slots by blast
      show "dispatcher_ok d2" "same_shape d1 d2" using RC(1,5) by (simp_all add: d2)
    qed (simp_all add: d2 read_cell_def)
    moreover have "same_shape d d3"
      using same_shape_trans [OF d1(2) RC(5)] by (simp add: d3 d2 same_shape_def)
    moreover have "tick_edge d3 = tick_edge d"
      using RC(6) d1(3) by (simp add: d3 d2 tick_edge_def fun_eq_iff)
    moreover have "length (dp_gap_consumer_pending d3) = length (dp_gap_consumer_pending d)"
      using d1(6) by (simp add: d3 d2 read_cell_def)
    moreover have "g = the (mb_latest (gap_cell d ?p ?c))" using i(2) V1(1) by (simp add: eq)
    moreover have "dp_gap_slots d3 = dp_gap_slots (read_cell ?p ?c d)" using slots by (simp add: d3)
    moreover have "word_settled d3 v" if "word_settled d v" for v
      using that load w wd by (cases "v = w") (auto simp: word_settled_def d3 d2 read_cell_def split: if_splits)
    ultimately show ?thesis using kReady p c u by (auto simp: gap_polled_def)
  qed
qed

lemma gap_polled_trans:
  assumes "gap_polled d None d1" and "gap_polled d1 r d2"
    and "dp_gap_words_per_producer d1 = dp_gap_words_per_producer d"
  shows "gap_polled d r d2"
proof -
  have s: "dp_gap_slots d1 = dp_gap_slots d" "same_shape d d1" using assms(1) by (simp_all add: gap_polled_def)
  note V = same_gap_view [OF s assms(3)]
  have "dp_gap_slots (read_cell p c d1) = dp_gap_slots (read_cell p c d)" for p c
    using s V(1) by (simp add: read_cell_def same_shape_def)
  then show ?thesis
    using assms(1,2) same_shape_trans [of d d1 d2] V s
    by (auto simp: gap_polled_def same_shape_def split: option.splits)
qed

lemma words_eq:
  assumes "gap_ok d" and "gap_ok d'" and "same_shape d d'"
  shows "dp_gap_words_per_producer d' = dp_gap_words_per_producer d"
  using assms by (simp add: gap_ok_def dispatcher_ok_def same_shape_def)

lemma gap_polled_cursor [simp]:
  "gap_polled d r (d'\<lparr>dp_gap_consumer_word_cursor := x\<rparr>) = gap_polled d r d'"
proof -
  let ?d = "d'\<lparr>dp_gap_consumer_word_cursor := x\<rparr>"
  have "gap_cell ?d = gap_cell d'" "gap_word ?d = gap_word d'" "tick_edge ?d = tick_edge d'"
    by (intro ext; simp add: gap_cell_def gap_word_def tick_edge_def)+
  moreover have "dispatcher_ok ?d = dispatcher_ok d'" "same_shape d ?d = same_shape d d'"
    by (simp_all add: dispatcher_ok_def same_shape_def)
  ultimately show ?thesis by (cases r) (simp_all add: gap_polled_def gap_ok_def)
qed

lemma poll_gap_loop_spec:
  assumes "gap_ok d" and "0 < length (dp_gap_consumer_pending d)"
    and "poll_gap_loop n cnt d = (r, d')"
  shows "gap_polled d r d' \<and> (\<forall>v. word_settled d v \<longrightarrow> word_settled d' v) \<and>
    (r = None \<longrightarrow> (\<forall>j < n. dp_gap_consumer_pending d' !
          ((dp_gap_consumer_word_cursor d + cnt + j) mod length (dp_gap_consumer_pending d)) = 0) \<and>
      (\<forall>v < length (dp_gap_consumer_pending d). dp_gap_consumer_pending d ! v = 0
          \<longrightarrow> dp_gap_consumer_pending d' ! v = 0) \<and>
      (\<forall>j < n. let w = (dp_gap_consumer_word_cursor d + cnt + j) mod length (dp_gap_consumer_pending d) in
         word_settled d w \<longrightarrow> (\<forall>i. \<not> bit_unread d w i)))"
  using assms
proof (induction n arbitrary: cnt d)
  case 0
  then show ?case by (simp add: gap_polled_def)
next
  case (Suc n)
  let ?N = "length (dp_gap_consumer_pending d)"
  let ?w = "(dp_gap_consumer_word_cursor d + cnt) mod ?N"
  have w: "?w < ?N" using Suc.prems(2) by simp
  obtain pending1 d1 where load: "(pending1, d1) = (if dp_gap_consumer_pending d ! ?w = 0
           then (dp_gap_dirty_words d ! ?w,
                 d\<lparr>dp_gap_dirty_words := (dp_gap_dirty_words d)[?w := 0]\<rparr>)
           else (dp_gap_consumer_pending d ! ?w, d))" by (metis surj_pair)
  obtain s pending2 d2 where loop: "gap_word_loop ?w pending1 d1 = (s, pending2, d2)" by (metis surj_pair)
  define d3 where "d3 = d2\<lparr>dp_gap_consumer_pending := (dp_gap_consumer_pending d2)[?w := pending2]\<rparr>"
  note V = visit_word [OF Suc.prems(1) w load loop d3_def]
  have eq: "poll_gap_loop (Suc n) cnt d = (case s of
       kBusy \<Rightarrow> (None, d3)
     | kReady gap \<Rightarrow> (Some gap, d3\<lparr>dp_gap_consumer_word_cursor := (?w + 1) mod ?N\<rparr>)
     | kNoChange \<Rightarrow> poll_gap_loop n (Suc cnt) d3)"
    unfolding poll_gap_loop.simps Let_def load [symmetric] loop prod.case d3_def by (rule refl)
  show ?case
  proof (cases s)
    case kBusy
    then show ?thesis using V by simp
  next
    case (kReady g)
    then have r: "r = Some g" "d' = d3\<lparr>dp_gap_consumer_word_cursor := (?w + 1) mod ?N\<rparr>"
      using Suc.prems(3) eq by auto
    have "gap_polled d (Some g) d3 \<and> (\<forall>v. word_settled d v \<longrightarrow> word_settled d3 v)" using V kReady by simp
    then show ?thesis using r by (simp add: word_settled_def)
  next
    case kNoChange
    then have rec: "poll_gap_loop n (Suc cnt) d3 = (r, d')" using Suc.prems(3) eq by simp
    have P: "gap_polled d None d3" "dp_gap_consumer_pending d3 = (dp_gap_consumer_pending d)[?w := 0]"
      "dp_gap_consumer_word_cursor d3 = dp_gap_consumer_word_cursor d"
      "word_settled d ?w \<longrightarrow> (\<forall>i. \<not> bit_unread d ?w i)" "\<And>v. word_settled d v \<Longrightarrow> word_settled d3 v"
      using V kNoChange by simp_all
    have ok3: "gap_ok d3" "same_shape d d3" "dp_gap_slots d3 = dp_gap_slots d"
      using P(1) by (simp_all add: gap_polled_def)
    have N3: "length (dp_gap_consumer_pending d3) = ?N" by (simp add: P(2))
    note IH = Suc.IH [OF ok3(1) _ rec, unfolded N3 P(3), OF Suc.prems(2)]
    have W: "dp_gap_words_per_producer d3 = dp_gap_words_per_producer d"
      by (rule words_eq [OF Suc.prems(1) ok3(1,2)])
    have bu: "bit_unread d3 = bit_unread d" by (rule same_gap_view(3) [OF ok3(3,2) W])
    have polled: "gap_polled d r d'" using gap_polled_trans [OF P(1) _ W] IH by blast
    have "\<forall>v. word_settled d v \<longrightarrow> word_settled d' v" using IH P(5) by blast
    then show ?thesis
    proof (intro conjI impI polled)
      assume none: "r = None"
      have keep: "dp_gap_consumer_pending d' ! v = 0"
        if "v < ?N" "dp_gap_consumer_pending d3 ! v = 0" for v using IH none that by simp
      show "\<forall>v < ?N. dp_gap_consumer_pending d ! v = 0 \<longrightarrow> dp_gap_consumer_pending d' ! v = 0"
      proof (intro allI impI)
        fix v assume "v < ?N" "dp_gap_consumer_pending d ! v = 0"
        then show "dp_gap_consumer_pending d' ! v = 0"
          using w by (intro keep) (simp_all add: P(2) nth_list_update)
      qed
      show "\<forall>j < Suc n. dp_gap_consumer_pending d' ! ((dp_gap_consumer_word_cursor d + cnt + j) mod ?N) = 0"
      proof (intro allI impI)
        fix j assume "j < Suc n"
        then show "dp_gap_consumer_pending d' ! ((dp_gap_consumer_word_cursor d + cnt + j) mod ?N) = 0"
          using IH none keep [OF w] w by (cases j) (auto simp: P(2))
      qed
      show "\<forall>j < Suc n. let w = (dp_gap_consumer_word_cursor d + cnt + j) mod ?N in
         word_settled d w \<longrightarrow> (\<forall>i. \<not> bit_unread d w i)"
      proof (intro allI impI)
        fix j assume j: "j < Suc n"
        show "let w = (dp_gap_consumer_word_cursor d + cnt + j) mod ?N in
         word_settled d w \<longrightarrow> (\<forall>i. \<not> bit_unread d w i)"
        proof (cases j)
          case 0
          then show ?thesis using P(4) by (simp add: Let_def)
        next
          case (Suc k)
          then show ?thesis
            using IH none j P(5) by (auto simp: Let_def bu)
        qed
      qed
    qed
  qed
qed

section \<open>TryPollGap\<close>

text \<open>
  A poll that returns nothing leaves no pending bit; if no word had both pending and dirty bits
  before it, then no mailbox was unread.
\<close>

lemma TryPollGap_spec:
  assumes ok: "gap_ok d" and poll: "TryPollGap d = (r, d')"
  shows "gap_polled d r d'"
    and "r = None \<Longrightarrow> \<forall>w < length (dp_gap_consumer_pending d'). dp_gap_consumer_pending d' ! w = 0"
    and "r = None \<Longrightarrow> \<forall>w < length (dp_gap_consumer_pending d). word_settled d w \<Longrightarrow>
      p < dp_tick_producers d \<Longrightarrow> c < dp_gap_channels_per_producer d \<Longrightarrow> \<not> mb_unread (gap_cell d p c)"
    and "word_settled d v \<Longrightarrow> word_settled d' v"
proof -
  let ?N = "length (dp_gap_consumer_pending d)"
  have dok: "dispatcher_ok d" using ok by (simp add: gap_ok_def)
  have "gap_polled d r d' \<and> (word_settled d v \<longrightarrow> word_settled d' v) \<and>
    (r = None \<longrightarrow> (\<forall>w < length (dp_gap_consumer_pending d'). dp_gap_consumer_pending d' ! w = 0)) \<and>
    (r = None \<longrightarrow> (\<forall>w < ?N. word_settled d w) \<longrightarrow>
      (\<forall>p < dp_tick_producers d. \<forall>c < dp_gap_channels_per_producer d. \<not> mb_unread (gap_cell d p c)))"
  proof (cases "?N = 0")
    case True
    then have "r = None" "d' = d" using poll by (auto simp: TryPollGap_def)
    moreover have "\<not> (p < dp_tick_producers d \<and> c < dp_gap_channels_per_producer d)" for p c
      using gap_word_less(1) [OF dok, of p c] True by auto
    ultimately show ?thesis using ok True by (auto simp: gap_polled_def)
  next
    case False
    then have loop: "poll_gap_loop ?N 0 d = (r, d')" using poll by (simp add: TryPollGap_def)
    note P = poll_gap_loop_spec [OF ok _ loop] False
    have polled: "gap_polled d r d'" "word_settled d v \<longrightarrow> word_settled d' v" using P by simp_all
    have all: "\<exists>j < ?N. (dp_gap_consumer_word_cursor d + 0 + j) mod ?N = w" if "w < ?N" for w
      using mod_shift_surj [OF that] by simp
    have zero: "dp_gap_consumer_pending d' ! w = 0" if "r = None" "w < ?N" for w
      using P that(1) all [OF that(2)] by auto
    have none: "\<not> mb_unread (gap_cell d p c)" if "r = None" "\<forall>w < ?N. word_settled d w"
      "p < dp_tick_producers d" "c < dp_gap_channels_per_producer d" for p c
    proof -
      note w = gap_word_less(1) [OF dok that(3,4)]
      from all [OF w] obtain j where j: "j < ?N"
        "(dp_gap_consumer_word_cursor d + 0 + j) mod ?N = gap_word d p c" by blast
      have "\<not> bit_unread d (gap_word d p c) (c mod 64)" using P that(1,2) j w by (auto simp: Let_def)
      then show ?thesis using unread_bit [OF dok that(3,4)] by simp
    qed
    have len: "length (dp_gap_consumer_pending d') = ?N" using polled by (simp add: gap_polled_def)
    show ?thesis using polled zero none len by simp
  qed
  then show "gap_polled d r d'"
    "r = None \<Longrightarrow> \<forall>w < length (dp_gap_consumer_pending d'). dp_gap_consumer_pending d' ! w = 0"
    "r = None \<Longrightarrow> \<forall>w < ?N. word_settled d w \<Longrightarrow>
      p < dp_tick_producers d \<Longrightarrow> c < dp_gap_channels_per_producer d \<Longrightarrow> \<not> mb_unread (gap_cell d p c)"
    "word_settled d v \<Longrightarrow> word_settled d' v"
    by blast+
qed

section \<open>PublishGap announces what it writes\<close>

lemma PublishGap_announced:
  assumes ok: "gap_ok d" and p: "p < dp_tick_producers d" and c: "c < dp_gap_channels_per_producer d"
    and pub: "PublishGap p c g d = (res, d')"
  shows "res" and "gap_ok d'" and "gap_cell d' p c = Publish g (gap_cell d p c)"
    and "mb_latest (gap_cell d' p c) = Some g"
    and "p' < dp_tick_producers d \<Longrightarrow> c' < dp_gap_channels_per_producer d \<Longrightarrow> (p', c') \<noteq> (p, c) \<Longrightarrow>
      gap_cell d' p' c' = gap_cell d p' c'"
proof -
  let ?i = "p * dp_gap_channels_per_producer d + c"
  have dok: "dispatcher_ok d" and mok: "list_all mailbox_ok (dp_gap_slots d)" using ok by (simp_all add: gap_ok_def)
  have i: "?i < length (dp_gap_slots d)" by (rule gap_cell_less [OF dok p c])
  have m: "mailbox_ok (gap_cell d p c)" using mok i by (simp add: list_all_length gap_cell_def)
  note P = Publish_ok [OF m, of g]
  have r: "res" "d' = d\<lparr>dp_gap_slots := (dp_gap_slots d)[?i := Publish g (gap_cell d p c)],
      dp_gap_dirty_words := (dp_gap_dirty_words d)
        [gap_word d p c := (dp_gap_dirty_words d ! gap_word d p c) OR push_bit (c mod 64) 1]\<rparr>"
    using pub p c by (auto simp: PublishGap_def Let_def gap_cell_def gap_word_def)
  show cell: "gap_cell d' p c = Publish g (gap_cell d p c)" using i by (simp add: r(2) gap_cell_def)
  show res by (rule r)
  show "mb_latest (gap_cell d' p c) = Some g" unfolding cell by (rule P)
  show other: "gap_cell d' p' c' = gap_cell d p' c'"
    if "p' < dp_tick_producers d" "c' < dp_gap_channels_per_producer d" "(p', c') \<noteq> (p, c)" for p' c'
    using that c by (auto simp: r(2) gap_cell_def nth_list_update row_major_eq_iff)
  have w: "gap_word d p c < length (dp_gap_dirty_words d)" by (rule gap_word_less [OF dok p c])
  have shape: "dp_tick_producers d' = dp_tick_producers d"
    "dp_gap_channels_per_producer d' = dp_gap_channels_per_producer d" "gap_word d' = gap_word d"
    "dp_gap_consumer_pending d' = dp_gap_consumer_pending d"
    by (simp_all add: r(2) gap_word_def fun_eq_iff)
  have bits: "bit (dp_gap_dirty_words d' ! v) j" if "bit (dp_gap_dirty_words d ! v) j" for v j
    using that w by (simp add: r(2) nth_list_update bit_simps)
  have mine: "bit (dp_gap_dirty_words d' ! gap_word d p c) (c mod 64)"
    using w by (simp add: r(2) bit_simps)
  show "gap_ok d'"
    unfolding gap_ok_def shape
  proof (intro conjI allI impI)
    show "dispatcher_ok d'" using dok by (simp add: r(2) dispatcher_ok_def)
    show "list_all mailbox_ok (dp_gap_slots d')" using mok P(1) by (simp add: r(2) list_all_update)
    fix p' c' assume q: "p' < dp_tick_producers d" "c' < dp_gap_channels_per_producer d"
      and u: "mb_unread (gap_cell d' p' c')"
    show "bit (dp_gap_dirty_words d' ! gap_word d p' c') (c' mod 64)
        \<or> bit (dp_gap_consumer_pending d ! gap_word d p' c') (c' mod 64)"
    proof (cases "(p', c') = (p, c)")
      case True
      then show ?thesis using mine by simp
    next
      case False
      then have "mb_unread (gap_cell d p' c')" using u other [OF q] by simp
      then show ?thesis using ok q bits by (auto simp: gap_ok_def)
    qed
  qed
qed

lemma new_dispatcher_gap_ok:
  assumes "new_dispatcher tp sp ow qc fc lc mc = Some d"
  shows "gap_ok d" and "p < tp \<Longrightarrow> w < ow \<Longrightarrow> tick_edge d p w = []"
    and "dp_tick_producers d = tp" "dp_snapshot_producers d = sp" "dp_owners d = ow"
      "dp_gap_channels_per_producer d = mc"
    and "p < sp \<Longrightarrow> w < ow \<Longrightarrow> snapshot_edge d p w = []"
    and "p < tp \<Longrightarrow> late_edge d p = []" "p < tp \<Longrightarrow> fault_edge d p = []"
proof -
  obtain tick_ring snapshot_ring fault_ring late_ring where
    n: "new_ring qc = Some (tick_ring :: CanonicalTick SpscRing)"
      "new_ring qc = Some (snapshot_ring :: CanonicalSnapshot SpscRing)"
      "new_ring fc = Some (fault_ring :: ChannelFault SpscRing)"
      "new_ring lc = Some (late_ring :: LateRecoveryTick SpscRing)"
    and d: "d = \<lparr>dp_tick_producers = tp, dp_snapshot_producers = sp, dp_owners = ow,
            dp_tick_queues = replicate (tp * ow) tick_ring,
            dp_snapshot_queues = replicate (sp * ow) snapshot_ring,
            dp_fault_queues = replicate tp fault_ring,
            dp_late_recovery_queues = replicate tp late_ring,
            dp_gap_channels_per_producer = mc,
            dp_gap_words_per_producer = (mc + 63) div 64,
            dp_gap_slots = replicate (tp * mc) new_mailbox,
            dp_gap_dirty_words = replicate (tp * ((mc + 63) div 64)) 0,
            dp_gap_consumer_pending = replicate (tp * ((mc + 63) div 64)) 0,
            dp_tick_consumer_cursor = replicate ow 0,
            dp_snapshot_consumer_cursor = replicate ow 0,
            dp_gap_consumer_word_cursor = 0, dp_late_recovery_consumer_cursor = 0,
            dp_fault_consumer_cursor = 0\<rparr>"
    using assms by (auto simp: new_dispatcher_def Let_def split: option.splits)
  note R = new_ring_ok [OF n(1)] new_ring_ok [OF n(2)] new_ring_ok [OF n(3)] new_ring_ok [OF n(4)]
  show dims: "dp_tick_producers d = tp" "dp_snapshot_producers d = sp" "dp_owners d = ow"
    "dp_gap_channels_per_producer d = mc" by (simp_all add: d)
  have "dispatcher_ok d" using R by (simp add: d dispatcher_ok_def list_all_length)
  moreover have "gap_cell d p c = new_mailbox" if "p < tp" "c < mc" for p c
    using that row_major_less [of p tp c mc] by (simp add: d gap_cell_def)
  ultimately show "gap_ok d"
    unfolding gap_ok_def dims by (simp add: mailbox_ok_new list_all_length) (simp add: d mailbox_ok_new)
  show "p < tp \<Longrightarrow> w < ow \<Longrightarrow> tick_edge d p w = []"
    using row_major_less [of p tp w ow] R by (simp add: d tick_edge_def)
  show "p < sp \<Longrightarrow> w < ow \<Longrightarrow> snapshot_edge d p w = []"
    using row_major_less [of p sp w ow] R by (simp add: d snapshot_edge_def)
  show "p < tp \<Longrightarrow> late_edge d p = []" "p < tp \<Longrightarrow> fault_edge d p = []"
    using R by (simp_all add: d late_edge_def fault_edge_def)
qed

section \<open>The other polls leave the tick matrix alone\<close>

lemma TryPollSnapshot_frame:
  assumes ok: "dispatcher_ok d" and poll: "TryPollSnapshot w d = (r, d')"
  shows "dispatcher_ok d'" and "same_shape d d'" and "tick_edge d' = tick_edge d"
proof -
  let ?P = "dp_snapshot_producers d" and ?W = "dp_owners d"
  let ?edge = "\<lambda>p. p * ?W + w"
  obtain s qs where q: "poll_queues ?edge ?P (dp_snapshot_consumer_cursor d ! w) ?P 0 (dp_snapshot_queues d)
      = (s, qs)" by (cases "poll_queues ?edge ?P (dp_snapshot_consumer_cursor d ! w) ?P 0 (dp_snapshot_queues d)")
  have all: "list_all ring_ok (dp_snapshot_queues d)"
    and len: "length (dp_snapshot_queues d) = ?P * ?W" using ok by (simp_all add: dispatcher_ok_def)
  have "dispatcher_ok d' \<and> same_shape d d' \<and> tick_edge d' = tick_edge d"
  proof (cases "w < ?W \<and> 0 < ?P")
    case True
    then have "\<forall>p < ?P. ?edge p < length (dp_snapshot_queues d)" using len row_major_less by simp
    from poll_queues_spec [OF all this _ q] True
    have "length qs = ?P * ?W" "list_all ring_ok qs" using len by auto
    then show ?thesis
      using poll q True ok
      by (auto simp: TryPollSnapshot_def Let_def dispatcher_ok_def same_shape_def tick_edge_def
          fun_eq_iff split: option.splits)
  next
    case False
    have "s = None \<and> qs = dp_snapshot_queues d" if "?P = 0" using q that by simp
    then have "d' = d" using poll q False by (auto simp: TryPollSnapshot_def Let_def split: if_splits)
    then show ?thesis using ok by simp
  qed
  then show "dispatcher_ok d'" "same_shape d d'" "tick_edge d' = tick_edge d" by blast+
qed

lemma TryPollLateRecovery_frame:
  assumes ok: "dispatcher_ok d" and poll: "TryPollLateRecovery d = (r, d')"
  shows "dispatcher_ok d'" and "same_shape d d'" and "tick_edge d' = tick_edge d"
proof -
  let ?P = "length (dp_late_recovery_queues d)"
  obtain s qs where q: "poll_queues (\<lambda>p. p) ?P (dp_late_recovery_consumer_cursor d) ?P 0
      (dp_late_recovery_queues d) = (s, qs)" by (metis surj_pair)
  have all: "list_all ring_ok (dp_late_recovery_queues d)" using ok by (simp add: dispatcher_ok_def)
  have "dispatcher_ok d' \<and> same_shape d d' \<and> tick_edge d' = tick_edge d"
  proof (cases "0 < ?P")
    case True
    from poll_queues_spec [OF all _ True q] have "length qs = ?P" "list_all ring_ok qs" by auto
    then show ?thesis
      using poll q True ok
      by (auto simp: TryPollLateRecovery_def Let_def dispatcher_ok_def same_shape_def tick_edge_def
          fun_eq_iff split: option.splits)
  next
    case False
    then have "d' = d" using poll by (auto simp: TryPollLateRecovery_def)
    then show ?thesis using ok by simp
  qed
  then show "dispatcher_ok d'" "same_shape d d'" "tick_edge d' = tick_edge d" by blast+
qed

lemma TryPollFault_frame:
  assumes ok: "dispatcher_ok d" and poll: "TryPollFault d = (r, d')"
  shows "dispatcher_ok d'" and "same_shape d d'" and "tick_edge d' = tick_edge d"
proof -
  let ?P = "length (dp_fault_queues d)"
  obtain s qs where q: "poll_queues (\<lambda>p. p) ?P (dp_fault_consumer_cursor d) ?P 0
      (dp_fault_queues d) = (s, qs)" by (metis surj_pair)
  have all: "list_all ring_ok (dp_fault_queues d)" using ok by (simp add: dispatcher_ok_def)
  have "dispatcher_ok d' \<and> same_shape d d' \<and> tick_edge d' = tick_edge d"
  proof (cases "0 < ?P")
    case True
    from poll_queues_spec [OF all _ True q] have "length qs = ?P" "list_all ring_ok qs" by auto
    then show ?thesis
      using poll q True ok
      by (auto simp: TryPollFault_def Let_def dispatcher_ok_def same_shape_def tick_edge_def
          fun_eq_iff split: option.splits)
  next
    case False
    then have "d' = d" using poll by (auto simp: TryPollFault_def)
    then show ?thesis using ok by simp
  qed
  then show "dispatcher_ok d'" "same_shape d d'" "tick_edge d' = tick_edge d" by blast+
qed

text \<open>The gap poll too, whatever state the mailboxes are in.\<close>

definition tick_frame :: "Dispatcher \<Rightarrow> Dispatcher \<Rightarrow> bool" where
  "tick_frame d d' \<longleftrightarrow> (dispatcher_ok d \<longrightarrow> dispatcher_ok d') \<and> same_shape d d' \<and> tick_edge d' = tick_edge d
     \<and> snapshot_edge d' = snapshot_edge d \<and> late_edge d' = late_edge d \<and> fault_edge d' = fault_edge d"

lemma tick_frame_refl [simp]: "tick_frame d d"
  by (simp add: tick_frame_def)

lemma tick_frame_trans: "tick_frame a b \<Longrightarrow> tick_frame b c \<Longrightarrow> tick_frame a c"
  using same_shape_trans by (auto simp: tick_frame_def)

lemma tick_frame_gap_updates:
  "tick_frame d (d\<lparr>dp_gap_slots := (dp_gap_slots d)[i := slot]\<rparr>)"
  "tick_frame d (d\<lparr>dp_gap_dirty_words := (dp_gap_dirty_words d)[i := w]\<rparr>)"
  "tick_frame d (d\<lparr>dp_gap_consumer_pending := (dp_gap_consumer_pending d)[i := w]\<rparr>)"
  "tick_frame d (d\<lparr>dp_gap_consumer_word_cursor := n\<rparr>)"
  by (auto simp: tick_frame_def dispatcher_ok_def same_shape_def tick_edge_def snapshot_edge_def
      late_edge_def fault_edge_def fun_eq_iff)

lemma gap_word_loop_frame:
  "gap_word_loop w pending d = (r, pending', d') \<Longrightarrow> tick_frame d d'"
proof (induction "unat pending" arbitrary: pending d rule: less_induct)
  case less
  let ?b = "countr_zero pending"
  let ?p1 = "clear_bit64 ?b pending"
  let ?c = "(w mod dp_gap_words_per_producer d) * 64 + ?b"
  let ?i = "(w div dp_gap_words_per_producer d) * dp_gap_channels_per_producer d + ?c"
  show ?case
  proof (cases "pending = 0")
    case True
    then show ?thesis using less.prems by (subst (asm) gap_word_loop.simps) auto
  next
    case False
    have smaller: "unat ?p1 < unat pending"
      by (rule clear_bit64_less [OF countr_zero_set(1) [OF False]])
    obtain s slot where t: "TrySnapshot (dp_gap_slots d ! ?i) = (s, slot)" by (metis surj_pair)
    note F = tick_frame_gap_updates(1) [of d ?i slot]
    show ?thesis
    proof (cases "?c \<ge> dp_gap_channels_per_producer d")
      case True
      then have "gap_word_loop w ?p1 d = (r, pending', d')"
        using less.prems False by (subst (asm) gap_word_loop.simps) (simp add: Let_def)
      then show ?thesis by (rule less.hyps [OF smaller])
    next
      case small: False
      show ?thesis
      proof (cases s)
        case kNoChange
        then have "gap_word_loop w ?p1 (d\<lparr>dp_gap_slots := (dp_gap_slots d)[?i := slot]\<rparr>) = (r, pending', d')"
          using less.prems False small t by (subst (asm) gap_word_loop.simps) (simp add: Let_def)
        from tick_frame_trans [OF F less.hyps [OF smaller this]] show ?thesis .
      next
        case (kReady g)
        then have "d' = d\<lparr>dp_gap_slots := (dp_gap_slots d)[?i := slot]\<rparr>"
          using less.prems False small t by (subst (asm) gap_word_loop.simps) (simp add: Let_def)
        then show ?thesis using F by simp
      next
        case kBusy
        then have "d' = d\<lparr>dp_gap_slots := (dp_gap_slots d)[?i := slot]\<rparr>"
          using less.prems False small t by (subst (asm) gap_word_loop.simps) (simp add: Let_def)
        then show ?thesis using F by simp
      qed
    qed
  qed
qed

lemma poll_gap_loop_frame: "poll_gap_loop n cnt d = (r, d') \<Longrightarrow> tick_frame d d'"
proof (induction n arbitrary: cnt d)
  case (Suc n)
  let ?w = "(dp_gap_consumer_word_cursor d + cnt) mod length (dp_gap_consumer_pending d)"
  obtain pending1 d1 where load: "(pending1, d1) = (if dp_gap_consumer_pending d ! ?w = 0
           then (dp_gap_dirty_words d ! ?w,
                 d\<lparr>dp_gap_dirty_words := (dp_gap_dirty_words d)[?w := 0]\<rparr>)
           else (dp_gap_consumer_pending d ! ?w, d))" by (metis surj_pair)
  obtain s pending2 d2 where loop: "gap_word_loop ?w pending1 d1 = (s, pending2, d2)" by (metis surj_pair)
  let ?d3 = "d2\<lparr>dp_gap_consumer_pending := (dp_gap_consumer_pending d2)[?w := pending2]\<rparr>"
  have eq: "poll_gap_loop (Suc n) cnt d = (case s of
       kBusy \<Rightarrow> (None, ?d3)
     | kReady gap \<Rightarrow> (Some gap, ?d3\<lparr>dp_gap_consumer_word_cursor :=
         (?w + 1) mod length (dp_gap_consumer_pending d)\<rparr>)
     | kNoChange \<Rightarrow> poll_gap_loop n (Suc cnt) ?d3)"
    unfolding poll_gap_loop.simps Let_def load [symmetric] loop prod.case by (rule refl)
  have "tick_frame d d1" using load tick_frame_gap_updates(2) [of d ?w 0] by (auto split: if_splits)
  from tick_frame_trans [OF this tick_frame_trans [OF gap_word_loop_frame [OF loop]
      tick_frame_gap_updates(3) [of d2 ?w pending2]]]
  have d3: "tick_frame d ?d3" .
  show ?case
  proof (cases s)
    case kNoChange
    then have "poll_gap_loop n (Suc cnt) ?d3 = (r, d')" using Suc.prems eq by simp
    from tick_frame_trans [OF d3 Suc.IH [OF this]] show ?thesis .
  next
    case (kReady g)
    then have "d' = ?d3\<lparr>dp_gap_consumer_word_cursor := (?w + 1) mod length (dp_gap_consumer_pending d)\<rparr>"
      using Suc.prems eq by simp
    then show ?thesis using tick_frame_trans [OF d3 tick_frame_gap_updates(4)] by simp
  next
    case kBusy
    then show ?thesis using Suc.prems eq d3 by simp
  qed
qed simp

lemma TryPollGap_frame: "TryPollGap d = (r, d') \<Longrightarrow> tick_frame d d'"
  using poll_gap_loop_frame by (auto simp: TryPollGap_def split: if_splits)

end
