(* ===== verification/Diagnostic_Queues.thy ===== *)
theory Diagnostic_Queues
  imports Gap_Polling
begin

text \<open>
  The LateRecovery and fault rings of the \<open>Dispatcher\<close> of \<open>src/engine.cpp\<close>: one ring per tick lane,
  read in turn by one consumer.  What a publication appends, what a poll takes, and that every other
  operation of the dispatcher leaves these rings alone.
\<close>

section \<open>A list of rings\<close>

text \<open>The poll of a plain list of rings is the poll of a matrix with one column.\<close>

lemma poll_list_spec:
  assumes all: "list_all ring_ok qs" and "0 < length qs"
    and q: "poll_queues (\<lambda>p. p) (length qs) cursor (length qs) 0 qs = (s, qs')"
  shows "length qs' = length qs" and "list_all ring_ok qs'"
    and "s = None \<Longrightarrow> p < length qs \<Longrightarrow> ring_list (qs ! p) = [] \<and> ring_list (qs' ! p) = []"
    and "s = Some (v, p) \<Longrightarrow> p < length qs \<and> ring_list (qs ! p) = v # ring_list (qs' ! p)"
    and "s = Some (v, p) \<Longrightarrow> p' < length qs \<Longrightarrow> p' \<noteq> p \<Longrightarrow> ring_list (qs' ! p') = ring_list (qs ! p')"
  using poll_row_spec [of qs "length qs" 1 0 cursor s qs'] assms by (auto split: option.splits)

section \<open>Polls\<close>

lemma TryPollLateRecovery_spec:
  assumes ok: "dispatcher_ok d" and poll: "TryPollLateRecovery d = (r, d')"
  shows "case r of
       None \<Rightarrow> (\<forall>p < dp_tick_producers d. late_edge d p = [] \<and> late_edge d' p = [])
     | Some x \<Rightarrow> \<exists>p < dp_tick_producers d. late_edge d p = x # late_edge d' p \<and>
         (\<forall>p' < dp_tick_producers d. p' \<noteq> p \<longrightarrow> late_edge d' p' = late_edge d p')"
    and "fault_edge d' = fault_edge d"
proof -
  let ?qs = "dp_late_recovery_queues d"
  obtain s qs where q: "poll_queues (\<lambda>p. p) (length ?qs) (dp_late_recovery_consumer_cursor d) (length ?qs) 0 ?qs
      = (s, qs)" by fastforce
  have len: "list_all ring_ok ?qs" "length ?qs = dp_tick_producers d" using ok by (simp_all add: dispatcher_ok_def)
  show "fault_edge d' = fault_edge d"
    using poll by (auto simp: TryPollLateRecovery_def Let_def fault_edge_def fun_eq_iff split: if_splits prod.splits option.splits)
  show "case r of
       None \<Rightarrow> (\<forall>p < dp_tick_producers d. late_edge d p = [] \<and> late_edge d' p = [])
     | Some x \<Rightarrow> \<exists>p < dp_tick_producers d. late_edge d p = x # late_edge d' p \<and>
         (\<forall>p' < dp_tick_producers d. p' \<noteq> p \<longrightarrow> late_edge d' p' = late_edge d p')"
  proof (cases "0 < length ?qs")
    case True
    note S = poll_list_spec [OF len(1) True q]
    show ?thesis
      using poll q True S len(2)
      by (auto simp: TryPollLateRecovery_def Let_def late_edge_def split: option.splits)
  next
    case False
    then show ?thesis using poll len(2) by (auto simp: TryPollLateRecovery_def)
  qed
qed

lemma TryPollFault_spec:
  assumes ok: "dispatcher_ok d" and poll: "TryPollFault d = (r, d')"
  shows "case r of
       None \<Rightarrow> (\<forall>p < dp_tick_producers d. fault_edge d p = [] \<and> fault_edge d' p = [])
     | Some x \<Rightarrow> \<exists>p < dp_tick_producers d. fault_edge d p = x # fault_edge d' p \<and>
         (\<forall>p' < dp_tick_producers d. p' \<noteq> p \<longrightarrow> fault_edge d' p' = fault_edge d p')"
    and "late_edge d' = late_edge d"
proof -
  let ?qs = "dp_fault_queues d"
  obtain s qs where q: "poll_queues (\<lambda>p. p) (length ?qs) (dp_fault_consumer_cursor d) (length ?qs) 0 ?qs
      = (s, qs)" by fastforce
  have len: "list_all ring_ok ?qs" "length ?qs = dp_tick_producers d" using ok by (simp_all add: dispatcher_ok_def)
  show "late_edge d' = late_edge d"
    using poll by (auto simp: TryPollFault_def Let_def late_edge_def fun_eq_iff split: if_splits prod.splits option.splits)
  show "case r of
       None \<Rightarrow> (\<forall>p < dp_tick_producers d. fault_edge d p = [] \<and> fault_edge d' p = [])
     | Some x \<Rightarrow> \<exists>p < dp_tick_producers d. fault_edge d p = x # fault_edge d' p \<and>
         (\<forall>p' < dp_tick_producers d. p' \<noteq> p \<longrightarrow> fault_edge d' p' = fault_edge d p')"
  proof (cases "0 < length ?qs")
    case True
    note S = poll_list_spec [OF len(1) True q]
    show ?thesis
      using poll q True S len(2)
      by (auto simp: TryPollFault_def Let_def fault_edge_def split: option.splits)
  next
    case False
    then show ?thesis using poll len(2) by (auto simp: TryPollFault_def)
  qed
qed

section \<open>Publications\<close>

lemma PublishLateRecovery_edge:
  assumes ok: "dispatcher_ok d" and pub: "PublishLateRecovery p x d = (res, d')"
  shows "p' < dp_tick_producers d \<Longrightarrow> late_edge d' p' = late_edge d p' @ (if res \<and> p' = p then [x] else [])"
    and "fault_edge d' = fault_edge d"
proof -
  show "fault_edge d' = fault_edge d"
    using pub by (auto simp: PublishLateRecovery_def fault_edge_def fun_eq_iff split: if_splits prod.splits)
  assume p': "p' < dp_tick_producers d"
  have len: "list_all ring_ok (dp_late_recovery_queues d)" "length (dp_late_recovery_queues d) = dp_tick_producers d"
    using ok by (simp_all add: dispatcher_ok_def)
  show "late_edge d' p' = late_edge d p' @ (if res \<and> p' = p then [x] else [])"
  proof (cases "p < dp_tick_producers d")
    case True
    obtain q where q: "TryPush x (dp_late_recovery_queues d ! p) = (res, q)"
      and d': "d' = d\<lparr>dp_late_recovery_queues := (dp_late_recovery_queues d)[p := q]\<rparr>"
      using pub True len(2) by (auto simp: PublishLateRecovery_def split: prod.splits)
    have "ring_list q = ring_list (dp_late_recovery_queues d ! p) @ (if res then [x] else [])"
      using ring.push_contents [OF ring_ok_nth [OF len(1)], of p x] q True len(2) by simp
    then show ?thesis using True len(2) by (simp add: late_edge_def d' nth_list_update)
  next
    case False
    then show ?thesis using pub p' len(2) by (auto simp: PublishLateRecovery_def)
  qed
qed

lemma PublishFault_edge:
  assumes ok: "dispatcher_ok d" and pub: "PublishFault p x d = (res, d')"
  shows "p' < dp_tick_producers d \<Longrightarrow> fault_edge d' p' = fault_edge d p' @ (if res \<and> p' = p then [x] else [])"
    and "late_edge d' = late_edge d"
proof -
  show "late_edge d' = late_edge d"
    using pub by (auto simp: PublishFault_def late_edge_def fun_eq_iff split: if_splits prod.splits)
  assume p': "p' < dp_tick_producers d"
  have len: "list_all ring_ok (dp_fault_queues d)" "length (dp_fault_queues d) = dp_tick_producers d"
    using ok by (simp_all add: dispatcher_ok_def)
  show "fault_edge d' p' = fault_edge d p' @ (if res \<and> p' = p then [x] else [])"
  proof (cases "p < dp_tick_producers d")
    case True
    obtain q where q: "TryPush x (dp_fault_queues d ! p) = (res, q)"
      and d': "d' = d\<lparr>dp_fault_queues := (dp_fault_queues d)[p := q]\<rparr>"
      using pub True len(2) by (auto simp: PublishFault_def split: prod.splits)
    have "ring_list q = ring_list (dp_fault_queues d ! p) @ (if res then [x] else [])"
      using ring.push_contents [OF ring_ok_nth [OF len(1)], of p x] q True len(2) by simp
    then show ?thesis using True len(2) by (simp add: fault_edge_def d' nth_list_update)
  next
    case False
    then show ?thesis using pub p' len(2) by (auto simp: PublishFault_def)
  qed
qed

section \<open>The other operations\<close>

lemma diagnostic_edges_cong:
  "dp_late_recovery_queues d' = dp_late_recovery_queues d \<Longrightarrow> late_edge d' = late_edge d"
  "dp_fault_queues d' = dp_fault_queues d \<Longrightarrow> fault_edge d' = fault_edge d"
  by (intro ext, simp add: late_edge_def fault_edge_def)+

lemma polls_keep_diagnostics:
  "late_edge (snd (TryPollTick w d)) = late_edge d" "fault_edge (snd (TryPollTick w d)) = fault_edge d"
  "late_edge (snd (TryPollSnapshot w d)) = late_edge d" "fault_edge (snd (TryPollSnapshot w d)) = fault_edge d"
  by (rule diagnostic_edges_cong;
      simp add: TryPollTick_def TryPollSnapshot_def Let_def split: prod.split option.split)+

lemma publishes_keep_diagnostics:
  "late_edge (snd (PublishTick p w t d)) = late_edge d" "fault_edge (snd (PublishTick p w t d)) = fault_edge d"
  "late_edge (snd (PublishSnapshot p w s d)) = late_edge d" "fault_edge (snd (PublishSnapshot p w s d)) = fault_edge d"
  "late_edge (snd (PublishGap p i g d)) = late_edge d" "fault_edge (snd (PublishGap p i g d)) = fault_edge d"
  by (rule diagnostic_edges_cong;
      simp add: PublishTick_def PublishSnapshot_def PublishGap_def Let_def split: prod.split)+

section \<open>Every operation keeps the announcements of the gap mailboxes\<close>

lemma gap_ok_cong:
  assumes "gap_ok d" and "dispatcher_ok d'" and "same_shape d d'" and "dp_gap_slots d' = dp_gap_slots d"
    and "dp_gap_dirty_words d' = dp_gap_dirty_words d" and "dp_gap_consumer_pending d' = dp_gap_consumer_pending d"
    and "dp_gap_words_per_producer d' = dp_gap_words_per_producer d"
  shows "gap_ok d'"
proof -
  have "gap_cell d' = gap_cell d" "gap_word d' = gap_word d"
    using same_gap_view [OF assms(4,3,7)] by simp_all
  then show ?thesis using assms by (simp add: gap_ok_def same_shape_def)
qed

definition gap_fields :: "Dispatcher \<Rightarrow> GapMailboxSlot list \<times> u64 list \<times> u64 list \<times> nat" where
  "gap_fields d = (dp_gap_slots d, dp_gap_dirty_words d, dp_gap_consumer_pending d, dp_gap_words_per_producer d)"

lemma gap_fields_kept:
  "gap_fields (snd (TryPollTick w d)) = gap_fields d" "gap_fields (snd (TryPollSnapshot w d)) = gap_fields d"
  "gap_fields (snd (TryPollLateRecovery d)) = gap_fields d" "gap_fields (snd (TryPollFault d)) = gap_fields d"
  "gap_fields (snd (PublishTick p w t d)) = gap_fields d" "gap_fields (snd (PublishSnapshot p w s d)) = gap_fields d"
  "gap_fields (snd (PublishFault p f d)) = gap_fields d" "gap_fields (snd (PublishLateRecovery p r d)) = gap_fields d"
  by (simp_all add: gap_fields_def TryPollTick_def TryPollSnapshot_def TryPollLateRecovery_def TryPollFault_def
      PublishTick_def PublishSnapshot_def PublishFault_def PublishLateRecovery_def Let_def
      split: prod.split option.split)

lemma gap_ok_fields:
  "gap_ok d \<Longrightarrow> gap_fields d' = gap_fields d \<Longrightarrow> dispatcher_ok d' \<Longrightarrow> same_shape d d' \<Longrightarrow> gap_ok d'"
  by (rule gap_ok_cong) (simp_all add: gap_fields_def)

lemma gap_fields_pending: "gap_fields d' = gap_fields d \<Longrightarrow> dp_gap_consumer_pending d' = dp_gap_consumer_pending d"
  by (simp add: gap_fields_def)

lemma PublishGap_pending: "dp_gap_consumer_pending (snd (PublishGap p i g d)) = dp_gap_consumer_pending d"
  by (simp add: PublishGap_def Let_def)

lemma PublishGap_gap_ok:
  assumes "gap_ok d"
  shows "gap_ok (snd (PublishGap p i g d))"
proof (cases "p < dp_tick_producers d \<and> i < dp_gap_channels_per_producer d")
  case True
  then show ?thesis using PublishGap_announced(2) [OF assms, of p i g] by (cases "PublishGap p i g d") simp
next
  case False
  then show ?thesis using assms by (auto simp: PublishGap_def)
qed

lemma TryPollGap_gap_ok: "gap_ok d \<Longrightarrow> gap_ok (snd (TryPollGap d))"
  using TryPollGap_spec(1) [of d "fst (TryPollGap d)" "snd (TryPollGap d)"] by (simp add: gap_polled_def)

end
