(* ===== verification/Lane_Sink.thy ===== *)
theory Lane_Sink
  imports Recovery_Stream Diagnostic_Queues
begin

text \<open>
  The callbacks that \<open>TickWorker\<close> of \<open>src/engine.cpp\<close> hands to its \<open>SequenceRecovery\<close>:
  \<open>emit_tick\<close>, \<open>emit_gap\<close>, \<open>emit_fault\<close>, \<open>emit_late\<close> and \<open>fatal\<close>, with \<open>InstrumentOwner\<close>,
  \<open>SetFatal\<close> and the bounded spinning of \<open>PublishBounded\<close>.  Consumers poll concurrently: what
  they do between two attempts of a spin is the next batch of an explicit schedule, and
  \<open>le_received\<close> records what each of them has taken from each lane.  The theory proves that
  these callbacks satisfy the interface \<open>recovery_sink\<close>, for every lane and every owner.
\<close>

section \<open>Configuration and health\<close>

record EngineConfig =
  trade_date :: u32
  start_mode :: StartMode
  enabled_streams :: StreamMask
  tick_decoder_lanes :: nat
  snapshot_decoder_lanes :: nat
  instrument_workers :: nat
  tick_slots_per_lane :: nat
  snapshot_slots_per_lane :: nat
  maximum_tick_body_bytes :: nat
  maximum_snapshot_body_bytes :: nat
  dispatch_queue_capacity :: nat
  diagnostic_queue_capacity :: nat
  late_recovery_queue_capacity :: nat
  maximum_channels_per_tick_lane :: nat
  reorder_entries_per_channel :: nat
  maximum_reorder_span :: u64
  partial_initial_hold_ns :: u64
  partial_gap_wait_ns :: u64
  from_open_gap_wait_ns :: u64
  recovery_timer_scan_ns :: u64
  cfg_maximum_text_bytes :: nat
  cfg_maximum_depth_items :: nat
  cfg_maximum_queue_items :: nat
  first_decoder_cpu :: int

text \<open>\<open>fatal_claimed_\<close>, \<open>accepting_\<close>, \<open>healthy_\<close> and \<open>fatal_error_\<close> of the engine.\<close>

record Health =
  hl_claimed :: bool
  hl_accepting :: bool
  hl_healthy :: bool
  hl_fatal_error :: string

definition SetFatal :: "string \<Rightarrow> Health \<Rightarrow> Health" where
  "SetFatal message h = (if hl_claimed h then h
     else h\<lparr>hl_claimed := True, hl_accepting := False, hl_fatal_error := message,
            hl_healthy := False\<rparr>)"

definition instrument_owner_mask :: "nat \<Rightarrow> nat" where
  "instrument_owner_mask workers = (if IsPowerOfTwo workers then workers - 1 else 0)"

definition InstrumentOwner :: "nat \<Rightarrow> u32 \<Rightarrow> nat" where
  "InstrumentOwner workers ordinal =
    (let mask = instrument_owner_mask workers in
     if mask \<noteq> 0 then unat ordinal AND mask else unat ordinal mod workers)"

lemma IsPowerOfTwo_iff: "IsPowerOfTwo n \<longleftrightarrow> (\<exists>k. n = 2 ^ k)"
proof
  assume "\<exists>k. n = 2 ^ k"
  then show "IsPowerOfTwo n" using IsPowerOfTwo_exp by auto
next
  assume p: "IsPowerOfTwo n"
  then have n: "n \<noteq> 0" "n AND (n - 1) = 0" by (simp_all add: IsPowerOfTwo_def)
  show "\<exists>k. n = 2 ^ k"
    using n
  proof (induction n rule: less_induct)
    case (less n)
    show ?case
    proof (cases "even n")
      case True
      then obtain m where m: "n = 2 * m" by blast
      then have "m \<noteq> 0" "m < n" using less.prems(1) by auto
      have "n - 1 = 2 * (m - 1) + 1" using m \<open>m \<noteq> 0\<close> by simp
      then have "n AND (n - 1) = 2 * (m AND (m - 1))"
        unfolding m by (subst and_rec) (simp add: m)
      then have "m AND (m - 1) = 0" using less.prems(2) by simp
      from less.IH [OF \<open>m < n\<close> \<open>m \<noteq> 0\<close> this] obtain k where "m = 2 ^ k" by blast
      then have "n = 2 ^ Suc k" using m by simp
      then show ?thesis by blast
    next
      case False
      then obtain m where m: "n = 2 * m + 1" using oddE by blast
      then have "n AND (n - 1) = 2 * m"
        by (subst and_rec) (simp add: m)
      then have "n = 2 ^ 0" using less.prems(2) m by simp
      then show ?thesis by blast
    qed
  qed
qed

lemma InstrumentOwner_mod:
  shows "InstrumentOwner workers ordinal = unat ordinal mod workers"
proof (cases "IsPowerOfTwo workers \<and> workers \<noteq> 1")
  case True
  then obtain k where k: "workers = 2 ^ k" by (auto simp: IsPowerOfTwo_iff)
  have "workers - 1 \<noteq> 0" using True by (auto simp: IsPowerOfTwo_def)
  then show ?thesis
    using True nat_and_pred_pow2 [OF k] by (simp add: InstrumentOwner_def instrument_owner_mask_def)
next
  case False
  then show ?thesis by (auto simp: InstrumentOwner_def instrument_owner_mask_def)
qed

section \<open>The environment of a tick lane\<close>

datatype ConsumerPoll = PollTicks nat | PollSnapshots nat | PollGaps | PollLates | PollFaults

record LaneEnv =
  le_dispatcher :: Dispatcher
  le_stats :: TickLaneStats
  le_health :: Health
  le_schedule :: "ConsumerPoll list list"
  le_received :: "nat \<Rightarrow> nat \<Rightarrow> CanonicalTick list"
  le_allocations :: "bool list"
  le_received_snapshots :: "nat \<Rightarrow> nat \<Rightarrow> CanonicalSnapshot list"
  le_received_lates :: "nat \<Rightarrow> LateRecoveryTick list"
  le_received_faults :: "nat \<Rightarrow> ChannelFault list"
  le_calls :: "(ConsumerPoll \<times> bool) list"

fun consumer_dispatch :: "ConsumerPoll \<Rightarrow> Dispatcher \<Rightarrow> Dispatcher" where
  "consumer_dispatch (PollTicks owner) d = snd (TryPollTick owner d)"
| "consumer_dispatch (PollSnapshots owner) d = snd (TryPollSnapshot owner d)"
| "consumer_dispatch PollGaps d = snd (TryPollGap d)"
| "consumer_dispatch PollLates d = snd (TryPollLateRecovery d)"
| "consumer_dispatch PollFaults d = snd (TryPollFault d)"

text \<open>What the call returns to the consumer.\<close>

fun consumer_delivers :: "ConsumerPoll \<Rightarrow> Dispatcher \<Rightarrow> bool" where
  "consumer_delivers (PollTicks owner) d = (fst (TryPollTick owner d) \<noteq> None)"
| "consumer_delivers (PollSnapshots owner) d = (fst (TryPollSnapshot owner d) \<noteq> None)"
| "consumer_delivers PollGaps d = (fst (TryPollGap d) \<noteq> None)"
| "consumer_delivers PollLates d = (fst (TryPollLateRecovery d) \<noteq> None)"
| "consumer_delivers PollFaults d = (fst (TryPollFault d) \<noteq> None)"

text \<open>What left an edge between two dispatcher states is what its consumer received.\<close>

definition taken :: "Dispatcher \<Rightarrow> Dispatcher \<Rightarrow> nat \<Rightarrow> nat \<Rightarrow> CanonicalTick list" where
  "taken d d' producer owner =
     take (length (tick_edge d producer owner) - length (tick_edge d' producer owner))
       (tick_edge d producer owner)"

definition taken_snapshots :: "Dispatcher \<Rightarrow> Dispatcher \<Rightarrow> nat \<Rightarrow> nat \<Rightarrow> CanonicalSnapshot list" where
  "taken_snapshots d d' producer owner =
     take (length (snapshot_edge d producer owner) - length (snapshot_edge d' producer owner))
       (snapshot_edge d producer owner)"

definition taken_lates :: "Dispatcher \<Rightarrow> Dispatcher \<Rightarrow> nat \<Rightarrow> LateRecoveryTick list" where
  "taken_lates d d' producer =
     take (length (late_edge d producer) - length (late_edge d' producer)) (late_edge d producer)"

definition taken_faults :: "Dispatcher \<Rightarrow> Dispatcher \<Rightarrow> nat \<Rightarrow> ChannelFault list" where
  "taken_faults d d' producer =
     take (length (fault_edge d producer) - length (fault_edge d' producer)) (fault_edge d producer)"

definition consumer_poll :: "ConsumerPoll \<Rightarrow> LaneEnv \<Rightarrow> LaneEnv" where
  "consumer_poll c env =
    (let d' = consumer_dispatch c (le_dispatcher env) in
     env\<lparr>le_dispatcher := d', le_received := (\<lambda>p w. le_received env p w @ taken (le_dispatcher env) d' p w),
       le_received_snapshots := (\<lambda>p w. le_received_snapshots env p w
         @ taken_snapshots (le_dispatcher env) d' p w),
       le_received_lates := (\<lambda>p. le_received_lates env p @ taken_lates (le_dispatcher env) d' p),
       le_received_faults := (\<lambda>p. le_received_faults env p @ taken_faults (le_dispatcher env) d' p),
       le_calls := le_calls env @ [(c, consumer_delivers c (le_dispatcher env))]\<rparr>)"

definition consumer_turn :: "LaneEnv \<Rightarrow> LaneEnv" where
  "consumer_turn env =
    (case le_schedule env of
       [] \<Rightarrow> env
     | batch # rest \<Rightarrow> fold consumer_poll batch (env\<lparr>le_schedule := rest\<rparr>))"

definition kMaximumSpins :: nat where
  "kMaximumSpins = 2048"

fun publish_spins :: "nat \<Rightarrow> (Dispatcher \<Rightarrow> bool \<times> Dispatcher) \<Rightarrow> LaneEnv \<Rightarrow> bool \<times> LaneEnv" where
  "publish_spins 0 publish env = (False, env)"
| "publish_spins (Suc n) publish env =
    (let (ok, d) = publish (le_dispatcher env); env1 = env\<lparr>le_dispatcher := d\<rparr> in
     if ok then (True, env1) else publish_spins n publish (consumer_turn env1))"

definition lane_stat :: "(TickLaneStats \<Rightarrow> TickLaneStats) \<Rightarrow> LaneEnv \<Rightarrow> LaneEnv" where
  "lane_stat f env = env\<lparr>le_stats := f (le_stats env)\<rparr>"

definition PublishBounded :: "(Dispatcher \<Rightarrow> bool \<times> Dispatcher) \<Rightarrow> LaneEnv \<Rightarrow> bool \<times> LaneEnv" where
  "PublishBounded publish env =
    (case publish_spins kMaximumSpins publish env of
       (True, env1) \<Rightarrow> (True, env1)
     | (False, env1) \<Rightarrow>
         (False, lane_stat (\<lambda>s. s\<lparr>ts_dispatch_overflows := ts_dispatch_overflows s + 1\<rparr>) env1))"

section \<open>The callbacks of TickWorker\<close>

definition emit_tick :: "EngineConfig \<Rightarrow> nat \<Rightarrow> CanonicalTick \<Rightarrow> LaneEnv \<Rightarrow> bool \<times> LaneEnv" where
  "emit_tick cfg lane_index tick env =
    (let owner = InstrumentOwner (instrument_workers cfg) (c_instrument_ordinal (t_common tick));
         (published, env1) = PublishBounded (PublishTick lane_index owner tick) env in
     if published
     then (True, lane_stat (\<lambda>s. s\<lparr>ts_dispatched_ticks := ts_dispatched_ticks s + 1\<rparr>) env1)
     else (False, env1))"

definition emit_gap :: "nat \<Rightarrow> nat \<Rightarrow> ChannelGap \<Rightarrow> LaneEnv \<Rightarrow> bool \<times> LaneEnv" where
  "emit_gap lane_index channel_slot gap env =
    (let (ok, d) = PublishGap lane_index channel_slot gap (le_dispatcher env)
     in (ok, env\<lparr>le_dispatcher := d\<rparr>))"

definition emit_fault :: "nat \<Rightarrow> ChannelFault \<Rightarrow> LaneEnv \<Rightarrow> bool \<times> LaneEnv" where
  "emit_fault lane_index fault env =
    (let (published, env1) = PublishBounded (PublishFault lane_index fault) env in
     if published
     then (True, lane_stat (\<lambda>s. s\<lparr>ts_channel_faults_dispatched := ts_channel_faults_dispatched s + 1\<rparr>) env1)
     else (False, env1))"

definition emit_late :: "nat \<Rightarrow> LateRecoveryTick \<Rightarrow> LaneEnv \<Rightarrow> bool \<times> LaneEnv" where
  "emit_late lane_index rec env =
    (let (published, env1) = PublishBounded (PublishLateRecovery lane_index rec) env in
     if published
     then (True, lane_stat (\<lambda>s. s\<lparr>ts_late_recovery_dispatched := ts_late_recovery_dispatched s + 1\<rparr>) env1)
     else (False, env1))"

definition lane_fatal :: "string \<Rightarrow> LaneEnv \<Rightarrow> LaneEnv" where
  "lane_fatal message env = env\<lparr>le_health := SetFatal message (le_health env)\<rparr>"

text \<open>The outcome of the next \<open>nothrow\<close> allocation; it succeeds once the list is used up.\<close>

definition lane_alloc :: "LaneEnv \<Rightarrow> bool \<times> LaneEnv" where
  "lane_alloc env =
    (case le_allocations env of
       [] \<Rightarrow> (True, env)
     | ok # rest \<Rightarrow> (ok, env\<lparr>le_allocations := rest\<rparr>))"

definition lane_sink :: "EngineConfig \<Rightarrow> nat \<Rightarrow> LaneEnv Sink" where
  "lane_sink cfg lane_index =
    \<lparr>sk_tick = emit_tick cfg lane_index, sk_gap = emit_gap lane_index,
     sk_fault = emit_fault lane_index, sk_late = emit_late lane_index,
     sk_fatal = lane_fatal, sk_stats = lane_stat, sk_alloc = lane_alloc\<rparr>"

section \<open>Consumers preserve what an edge has carried\<close>

definition lane_inv :: "EngineConfig \<Rightarrow> nat \<Rightarrow> nat \<Rightarrow> LaneEnv \<Rightarrow> bool" where
  "lane_inv cfg lane_index owner env \<longleftrightarrow>
     dispatcher_ok (le_dispatcher env) \<and>
     dp_tick_producers (le_dispatcher env) = tick_decoder_lanes cfg \<and>
     dp_owners (le_dispatcher env) = instrument_workers cfg \<and>
     dp_gap_channels_per_producer (le_dispatcher env) = maximum_channels_per_tick_lane cfg \<and>
     (hl_claimed (le_health env) \<longleftrightarrow> \<not> hl_healthy (le_health env)) \<and>
     lane_index < tick_decoder_lanes cfg \<and> owner < instrument_workers cfg"

definition lane_healthy :: "LaneEnv \<Rightarrow> bool" where
  "lane_healthy env \<longleftrightarrow> hl_healthy (le_health env)"

text \<open>Everything the lane has sent to the owner: received by it, or still in the edge.\<close>

definition lane_view :: "nat \<Rightarrow> nat \<Rightarrow> LaneEnv \<Rightarrow> CanonicalTick list" where
  "lane_view lane_index owner env =
     le_received env lane_index owner @ tick_edge (le_dispatcher env) lane_index owner"

definition owned_by :: "EngineConfig \<Rightarrow> nat \<Rightarrow> CanonicalTick \<Rightarrow> bool" where
  "owned_by cfg owner tick \<longleftrightarrow>
     InstrumentOwner (instrument_workers cfg) (c_instrument_ordinal (t_common tick)) = owner"

lemma consumer_dispatch_frame:
  fixes c :: ConsumerPoll
  assumes ok: "dispatcher_ok d" and p: "p < dp_tick_producers d" and w: "w < dp_owners d"
  defines "d' \<equiv> consumer_dispatch c d"
  shows "dispatcher_ok d'" and "same_shape d d'"
    and "taken d d' p w @ tick_edge d' p w = tick_edge d p w"
proof -
  have "dispatcher_ok d' \<and> same_shape d d' \<and> taken d d' p w @ tick_edge d' p w = tick_edge d p w"
  proof (cases c)
    case (PollTicks owner)
    obtain r q where t: "TryPollTick owner d = (r, q)" by (cases "TryPollTick owner d")
    show ?thesis
    proof (cases "owner < dp_owners d")
      case False
      then have "q = d" using t by (auto simp: TryPollTick_def)
      then show ?thesis using ok t PollTicks by (simp add: d'_def taken_def)
    next
      case True
      have P: "0 < dp_tick_producers d" using p by simp
      note S = TryPollTick_spec [OF ok True P t]
      show ?thesis
      proof (cases r)
        case None
        then show ?thesis using S PollTicks t p w by (simp add: d'_def taken_def)
      next
        case (Some x)
        then obtain p0 where p0: "tick_edge d p0 owner = x # tick_edge q p0 owner"
          "\<forall>p' < dp_tick_producers d. \<forall>w' < dp_owners d.
            (p', w') \<noteq> (p0, owner) \<longrightarrow> tick_edge q p' w' = tick_edge d p' w'" using S by auto
        then show ?thesis using S Some PollTicks t p w
          by (cases "(p, w) = (p0, owner)") (auto simp: d'_def taken_def)
      qed
    qed
  next
    case (PollSnapshots owner)
    obtain r q where t: "TryPollSnapshot owner d = (r, q)" by (cases "TryPollSnapshot owner d")
    show ?thesis using TryPollSnapshot_frame [OF ok t] t PollSnapshots by (simp add: d'_def taken_def)
  next
    case PollGaps
    obtain r q where t: "TryPollGap d = (r, q)" by (cases "TryPollGap d")
    show ?thesis using TryPollGap_frame [OF t] ok t PollGaps by (simp add: d'_def taken_def tick_frame_def)
  next
    case PollLates
    obtain r q where t: "TryPollLateRecovery d = (r, q)" by (cases "TryPollLateRecovery d")
    show ?thesis using TryPollLateRecovery_frame [OF ok t] t PollLates by (simp add: d'_def taken_def)
  next
    case PollFaults
    obtain r q where t: "TryPollFault d = (r, q)" by (cases "TryPollFault d")
    show ?thesis using TryPollFault_frame [OF ok t] t PollFaults by (simp add: d'_def taken_def)
  qed
  then show "dispatcher_ok d'" "same_shape d d'"
    "taken d d' p w @ tick_edge d' p w = tick_edge d p w" by blast+
qed

lemma consumer_poll_kept:
  assumes inv: "lane_inv cfg l w env"
  shows "lane_inv cfg l w (consumer_poll c env)" "lane_view l w (consumer_poll c env) = lane_view l w env"
    "le_health (consumer_poll c env) = le_health env"
proof -
  let ?d = "le_dispatcher env"
  have "dispatcher_ok ?d" "l < dp_tick_producers ?d" "w < dp_owners ?d"
    using inv by (simp_all add: lane_inv_def)
  note F = consumer_dispatch_frame [OF this, of c]
  show "lane_inv cfg l w (consumer_poll c env)"
    using inv F(1,2) by (simp add: lane_inv_def consumer_poll_def Let_def same_shape_def)
  show "lane_view l w (consumer_poll c env) = lane_view l w env"
    using F(3) by (simp add: lane_view_def consumer_poll_def Let_def)
  show "le_health (consumer_poll c env) = le_health env" by (simp add: consumer_poll_def Let_def)
qed

lemma consumer_fold_kept:
  assumes "lane_inv cfg l w env"
  shows "lane_inv cfg l w (fold consumer_poll cs env) \<and> lane_view l w (fold consumer_poll cs env) = lane_view l w env
    \<and> le_health (fold consumer_poll cs env) = le_health env"
  using assms
proof (induction cs arbitrary: env)
  case (Cons c cs)
  from Cons.IH [OF consumer_poll_kept(1) [OF Cons.prems, of c]] consumer_poll_kept [OF Cons.prems, of c]
  show ?case by simp
qed simp

lemma consumer_turn_kept:
  assumes "lane_inv cfg l w env"
  shows "lane_inv cfg l w (consumer_turn env)" "lane_view l w (consumer_turn env) = lane_view l w env"
    "le_health (consumer_turn env) = le_health env"
proof -
  have "lane_inv cfg l w (env\<lparr>le_schedule := rest\<rparr>)" "lane_view l w (env\<lparr>le_schedule := rest\<rparr>) = lane_view l w env"
    for rest using assms by (simp_all add: lane_inv_def lane_view_def)
  then show "lane_inv cfg l w (consumer_turn env)" "lane_view l w (consumer_turn env) = lane_view l w env"
    "le_health (consumer_turn env) = le_health env"
    using assms consumer_fold_kept [of cfg l w] by (simp_all add: consumer_turn_def split: list.splits)
qed

section \<open>Publishing with bounded spinning\<close>

text \<open>An attempt that, when it succeeds, appends \<open>xs\<close> to the edge.\<close>

definition attempt_appends :: "nat \<Rightarrow> nat \<Rightarrow> CanonicalTick list \<Rightarrow> (Dispatcher \<Rightarrow> bool \<times> Dispatcher) \<Rightarrow> bool" where
  "attempt_appends l w xs publish \<longleftrightarrow> (\<forall>d ok d'. dispatcher_ok d \<longrightarrow> l < dp_tick_producers d \<longrightarrow>
     w < dp_owners d \<longrightarrow> publish d = (ok, d') \<longrightarrow> dispatcher_ok d' \<and> same_shape d d' \<and>
       tick_edge d' l w = tick_edge d l w @ (if ok then xs else []))"

lemma publish_spins_kept:
  assumes "attempt_appends l w xs publish" and "lane_inv cfg l w env"
    and "publish_spins n publish env = (ok, env')"
  shows "lane_inv cfg l w env' \<and> lane_view l w env' = lane_view l w env @ (if ok then xs else [])
    \<and> le_health env' = le_health env"
  using assms(2,3)
proof (induction n arbitrary: env)
  case (Suc n)
  obtain b d where p: "publish (le_dispatcher env) = (b, d)" by (cases "publish (le_dispatcher env)")
  let ?env1 = "env\<lparr>le_dispatcher := d\<rparr>"
  have "dispatcher_ok (le_dispatcher env)" "l < dp_tick_producers (le_dispatcher env)"
    "w < dp_owners (le_dispatcher env)" using Suc.prems(1) by (simp_all add: lane_inv_def)
  then have A: "dispatcher_ok d" "same_shape (le_dispatcher env) d"
    "tick_edge d l w = tick_edge (le_dispatcher env) l w @ (if b then xs else [])"
    using assms(1) p by (auto simp: attempt_appends_def)
  have inv1: "lane_inv cfg l w ?env1" using Suc.prems(1) A(1,2) by (simp add: lane_inv_def same_shape_def)
  have view1: "lane_view l w ?env1 = lane_view l w env @ (if b then xs else [])"
    using A(3) by (simp add: lane_view_def)
  show ?case
  proof (cases b)
    case True
    then show ?thesis using Suc.prems(2) p inv1 view1 by auto
  next
    case False
    then have "publish_spins n publish (consumer_turn ?env1) = (ok, env')" using Suc.prems(2) p by simp
    from Suc.IH [OF consumer_turn_kept(1) [OF inv1] this] consumer_turn_kept [OF inv1] view1 False
    show ?thesis by simp
  qed
qed simp

lemma lane_stat_kept:
  "lane_inv cfg l w (lane_stat f env) = lane_inv cfg l w env"
  "lane_view l w (lane_stat f env) = lane_view l w env"
  "le_health (lane_stat f env) = le_health env"
  "lane_healthy (lane_stat f env) = lane_healthy env"
  by (simp_all add: lane_stat_def lane_inv_def lane_view_def lane_healthy_def)

lemma PublishBounded_kept:
  assumes "attempt_appends l w xs publish" and "lane_inv cfg l w env"
    and "PublishBounded publish env = (ok, env')"
  shows "lane_inv cfg l w env'" "lane_view l w env' = lane_view l w env @ (if ok then xs else [])"
    "le_health env' = le_health env"
proof -
  obtain b e where p: "publish_spins kMaximumSpins publish env = (b, e)"
    by (cases "publish_spins kMaximumSpins publish env")
  note K = publish_spins_kept [OF assms(1,2) p]
  have "ok = b \<and> (\<exists>f. env' = lane_stat f e \<or> env' = e)"
    using assms(3) p by (auto simp: PublishBounded_def split: bool.splits)
  then show "lane_inv cfg l w env'" "lane_view l w env' = lane_view l w env @ (if ok then xs else [])"
    "le_health env' = le_health env"
    using K by (auto simp: lane_stat_kept)
qed

section \<open>The lane's callbacks satisfy the interface of the recovery\<close>

lemma attempt_tick:
  "attempt_appends l w (if owner = w then [t] else []) (PublishTick l owner t)"
  unfolding attempt_appends_def
proof (intro allI impI)
  fix d ok d'
  assume a: "dispatcher_ok d" "l < dp_tick_producers d" "w < dp_owners d" "PublishTick l owner t d = (ok, d')"
  show "dispatcher_ok d' \<and> same_shape d d' \<and>
      tick_edge d' l w = tick_edge d l w @ (if ok then if owner = w then [t] else [] else [])"
    using PublishTick_spec(1,2) [OF a(1,4)] PublishTick_spec(3) [OF a(1,4,2,3)] by auto
qed

lemma attempt_fault: "attempt_appends l w [] (PublishFault p f)"
  unfolding attempt_appends_def using PublishFault_spec by auto

lemma attempt_late: "attempt_appends l w [] (PublishLateRecovery p r)"
  unfolding attempt_appends_def using PublishLateRecovery_spec by auto

lemma payload_ordinal:
  assumes "payload t = payload u"
  shows "c_instrument_ordinal (t_common t) = c_instrument_ordinal (t_common u)"
proof -
  have "c_instrument_ordinal (t_common (payload t)) = c_instrument_ordinal (t_common (payload u))"
    using assms by simp
  then show ?thesis by (simp add: payload_def)
qed

lemma SetFatal_unhealthy: "hl_claimed h \<longleftrightarrow> \<not> hl_healthy h \<Longrightarrow> \<not> hl_healthy (SetFatal msg h)"
  by (simp add: SetFatal_def)

interpretation lane: recovery_sink "lane_sink cfg l" "lane_inv cfg l w" lane_healthy "lane_view l w"
    "owned_by cfg w" "maximum_channels_per_tick_lane cfg" home for cfg l w home
proof unfold_locales
  fix s s' :: LaneEnv and t :: CanonicalTick
  assume inv: "lane_inv cfg l w s"
  let ?owner = "InstrumentOwner (instrument_workers cfg) (c_instrument_ordinal (t_common t))"
  obtain ok e where p: "PublishBounded (PublishTick l ?owner t) s = (ok, e)" by fastforce
  note K = PublishBounded_kept [OF attempt_tick inv p]
  show "lane_inv cfg l w s' \<and> lane_healthy s' = lane_healthy s \<and>
      lane_view l w s' = lane_view l w s @ (if owned_by cfg w t then [t] else [])"
    if "sk_tick (lane_sink cfg l) t s = (True, s')"
  proof -
    have "ok" "s' = lane_stat (\<lambda>s. s\<lparr>ts_dispatched_ticks := ts_dispatched_ticks s + 1\<rparr>) e"
      using that p by (auto simp: lane_sink_def emit_tick_def Let_def split: if_splits)
    then show ?thesis using K by (simp add: lane_stat_kept owned_by_def lane_healthy_def)
  qed
  show "lane_inv cfg l w s' \<and> lane_view l w s' = lane_view l w s"
    if "sk_tick (lane_sink cfg l) t s = (False, s')"
  proof -
    have "\<not> ok" "s' = e"
      using that p by (auto simp: lane_sink_def emit_tick_def Let_def split: if_splits)
    then show ?thesis using K by simp
  qed
next
  fix s s' :: LaneEnv and i :: nat and g :: ChannelGap and b :: bool
  assume inv: "lane_inv cfg l w s" and e: "sk_gap (lane_sink cfg l) i g s = (b, s')"
  obtain ok d where p: "PublishGap l i g (le_dispatcher s) = (ok, d)" by fastforce
  have s': "b = ok" "s' = s\<lparr>le_dispatcher := d\<rparr>" using e p by (auto simp: lane_sink_def emit_gap_def)
  have "dispatcher_ok (le_dispatcher s)" using inv by (simp add: lane_inv_def)
  note G = PublishGap_spec [OF this p]
  show "lane_inv cfg l w s' \<and> lane_healthy s' = lane_healthy s \<and> lane_view l w s' = lane_view l w s
      \<and> (i < maximum_channels_per_tick_lane cfg \<longrightarrow> b)"
    using inv G by (auto simp: s' lane_inv_def lane_healthy_def lane_view_def same_shape_def)
next
  fix s s' :: LaneEnv and flt :: ChannelFault and b :: bool
  assume inv: "lane_inv cfg l w s" and e: "sk_fault (lane_sink cfg l) flt s = (b, s')"
  obtain ok e1 where p: "PublishBounded (PublishFault l flt) s = (ok, e1)" by fastforce
  note K = PublishBounded_kept [OF attempt_fault inv p]
  have "s' = e1 \<or> (\<exists>f. s' = lane_stat f e1)"
    using e p by (auto simp: lane_sink_def emit_fault_def Let_def split: if_splits)
  then show "lane_inv cfg l w s' \<and> lane_healthy s' = lane_healthy s \<and> lane_view l w s' = lane_view l w s"
    using K by (auto simp: lane_stat_kept lane_healthy_def)
next
  fix s s' :: LaneEnv and late :: LateRecoveryTick and b :: bool
  assume inv: "lane_inv cfg l w s" and e: "sk_late (lane_sink cfg l) late s = (b, s')"
  obtain ok e1 where p: "PublishBounded (PublishLateRecovery l late) s = (ok, e1)" by fastforce
  note K = PublishBounded_kept [OF attempt_late inv p]
  have "s' = e1 \<or> (\<exists>f. s' = lane_stat f e1)"
    using e p by (auto simp: lane_sink_def emit_late_def Let_def split: if_splits)
  then show "lane_inv cfg l w s' \<and> lane_healthy s' = lane_healthy s \<and> lane_view l w s' = lane_view l w s"
    using K by (auto simp: lane_stat_kept lane_healthy_def)
next
  fix s :: LaneEnv and msg :: string
  assume inv: "lane_inv cfg l w s"
  show "lane_inv cfg l w (sk_fatal (lane_sink cfg l) msg s)
      \<and> \<not> lane_healthy (sk_fatal (lane_sink cfg l) msg s)
      \<and> lane_view l w (sk_fatal (lane_sink cfg l) msg s) = lane_view l w s"
    using inv by (auto simp: lane_sink_def lane_fatal_def lane_inv_def lane_healthy_def lane_view_def SetFatal_def)
next
  fix s :: LaneEnv and f :: "TickLaneStats \<Rightarrow> TickLaneStats"
  assume "lane_inv cfg l w s"
  then show "lane_inv cfg l w (sk_stats (lane_sink cfg l) f s)
      \<and> lane_healthy (sk_stats (lane_sink cfg l) f s) = lane_healthy s
      \<and> lane_view l w (sk_stats (lane_sink cfg l) f s) = lane_view l w s"
    by (simp add: lane_sink_def lane_stat_kept)
next
  fix s s' :: LaneEnv and b :: bool
  assume "lane_inv cfg l w s" "sk_alloc (lane_sink cfg l) s = (b, s')"
  then show "lane_inv cfg l w s' \<and> lane_healthy s' = lane_healthy s \<and> lane_view l w s' = lane_view l w s"
    by (auto simp: lane_sink_def lane_alloc_def lane_inv_def lane_healthy_def lane_view_def split: list.splits)
next
  fix t u :: CanonicalTick
  assume "payload t = payload u"
  from payload_ordinal [OF this] show "owned_by cfg w t = owned_by cfg w u" by (simp add: owned_by_def)
qed

section \<open>The lane as the engine creates it\<close>

definition config_dispatcher :: "EngineConfig \<Rightarrow> Dispatcher option" where
  "config_dispatcher cfg = new_dispatcher (tick_decoder_lanes cfg) (snapshot_decoder_lanes cfg)
     (instrument_workers cfg) (dispatch_queue_capacity cfg) (diagnostic_queue_capacity cfg)
     (late_recovery_queue_capacity cfg) (maximum_channels_per_tick_lane cfg)"

definition config_recovery :: "EngineConfig \<Rightarrow> SequenceRecovery" where
  "config_recovery cfg = new_recovery (start_mode cfg) (maximum_channels_per_tick_lane cfg)
     (reorder_entries_per_channel cfg) (maximum_reorder_span cfg) (partial_initial_hold_ns cfg)
     (if start_mode cfg = StartMode_kFromOpen then from_open_gap_wait_ns cfg else partial_gap_wait_ns cfg)"

definition new_health :: Health where
  "new_health = \<lparr>hl_claimed = False, hl_accepting = True, hl_healthy = True, hl_fatal_error = []\<rparr>"

text \<open>A lane that has sent nothing yet, with a consumer schedule and allocation outcomes.\<close>

definition new_lane_env :: "Dispatcher \<Rightarrow> ConsumerPoll list list \<Rightarrow> bool list \<Rightarrow> LaneEnv" where
  "new_lane_env d schedule allocations = \<lparr>le_dispatcher = d, le_stats = default_tick_stats,
     le_health = new_health, le_schedule = schedule, le_received = (\<lambda>p w. []),
     le_allocations = allocations, le_received_snapshots = (\<lambda>p w. []),
     le_received_lates = (\<lambda>p. []), le_received_faults = (\<lambda>p. []), le_calls = []\<rparr>"

lemma CheckedRingCapacity_ex:
  assumes "0 < n" and "n \<le> SIZE_MAX div 2"
  shows "\<exists>c. CheckedRingCapacity n = Some c"
  using assms round_up_loop_less [of 1 n]
  by (auto simp: CheckedRingCapacity_def RoundUpPowerOfTwo_def SIZE_MAX_def)

lemma new_dispatcher_ex:
  assumes "0 < qc" "qc \<le> SIZE_MAX div 2" "0 < fc" "fc \<le> SIZE_MAX div 2" "0 < lc" "lc \<le> SIZE_MAX div 2"
  shows "\<exists>d. new_dispatcher tp sp ow qc fc lc mc = Some d"
  using CheckedRingCapacity_ex [OF assms(1,2)] CheckedRingCapacity_ex [OF assms(3,4)]
    CheckedRingCapacity_ex [OF assms(5,6)]
  by (auto simp: new_dispatcher_def new_ring_def Let_def)

lemma new_lane_env_ok:
  assumes "config_dispatcher cfg = Some d" and "l < tick_decoder_lanes cfg" and "w < instrument_workers cfg"
  shows "lane_inv cfg l w (new_lane_env d sched allocs)"
    and "lane_view l w (new_lane_env d sched allocs) = []"
    and "lane_healthy (new_lane_env d sched allocs)"
proof -
  note N = new_dispatcher_gap_ok [OF assms(1) [unfolded config_dispatcher_def]]
  show "lane_inv cfg l w (new_lane_env d sched allocs)"
    using N assms(2,3) by (simp add: lane_inv_def new_lane_env_def gap_ok_def new_health_def)
  show "lane_view l w (new_lane_env d sched allocs) = []"
    using N(2) assms(2,3) by (simp add: lane_view_def new_lane_env_def)
  show "lane_healthy (new_lane_env d sched allocs)"
    by (simp add: lane_healthy_def new_lane_env_def new_health_def)
qed

lemma config_recovery_ok:
  assumes "config_dispatcher cfg = Some d" and "l < tick_decoder_lanes cfg" and "w < instrument_workers cfg"
    and "reorder_entries_per_channel cfg = 2 ^ k" and "k \<le> 63"
  shows "lane.rec_ok cfg l w home (config_recovery cfg) (new_lane_env d sched allocs)"
    and "lane.ordered l w (config_recovery cfg) (new_lane_env d sched allocs)"
    and "all_retained (config_recovery cfg) = {#}"
    and "frontier_of (config_recovery cfg) m c = 1" and "missing_of (config_recovery cfg) m c = 0"
proof -
  note E = new_lane_env_ok [OF assms(1-3), of sched allocs]
  note N = lane.new_recovery_ok [OF assms(4,5) order_refl E(1,2)]
  show "lane.rec_ok cfg l w home (config_recovery cfg) (new_lane_env d sched allocs)"
    "lane.ordered l w (config_recovery cfg) (new_lane_env d sched allocs)"
    "all_retained (config_recovery cfg) = {#}"
    "frontier_of (config_recovery cfg) m c = 1" "missing_of (config_recovery cfg) m c = 0"
    unfolding config_recovery_def by (rule N)+
qed

text \<open>Every run of a lane from its creation.\<close>

lemma lane_run_served:
  assumes "config_dispatcher cfg = Some d" and "l < tick_decoder_lanes cfg" and "w < instrument_workers cfg"
    and "reorder_entries_per_channel cfg = 2 ^ k" and "k \<le> 63" and "list_all input_ok inputs"
  obtains rec env I c where
    "recovery_run (lane_sink cfg l) inputs (config_recovery cfg) (new_lane_env d sched allocs) = Some (rec, env)"
    "I \<subseteq># arrivals inputs" "lane.rec_ok cfg l w (\<lambda>_. True) rec env" "lane.ordered l w rec env"
    "lane.effect l w cfg c I (config_recovery cfg, new_lane_env d sched allocs) (rec, env)"
proof -
  note C = config_recovery_ok(1) [OF assms(1-5), of "\<lambda>_. True" sched allocs]
    config_recovery_ok(2) [OF assms(1-5), of sched allocs]
  have "list_all (lane.home_input (\<lambda>_. True)) inputs"
    by (auto simp: list_all_iff lane.home_input_def split: RecoveryInput.split)
  from lane.recovery_run_served [OF C(1) C(2) assms(6) this] obtain s' I where
    "recovery_run (lane_sink cfg l) inputs (config_recovery cfg) (new_lane_env d sched allocs) = Some s'"
    "I \<subseteq># arrivals inputs"
    "lane.served cfg l w (\<lambda>_. True) I (config_recovery cfg, new_lane_env d sched allocs) s'" by blast
  then show thesis using that by (cases s') (auto simp: lane.served_def)
qed

end
