(* ===== verification/Recovery_Claims.thy ===== *)
theory Recovery_Claims
  imports Lane_Sink
begin

text \<open>
  The properties of a tick lane's native-sequence recovery, stated over the lane's own
  callbacks (\<open>lane_sink\<close>), its configured recovery and an arbitrary consumer schedule, with
  concrete witnesses.
\<close>

section \<open>A concrete configuration for the witnesses\<close>

definition demo_cfg :: EngineConfig where
  "demo_cfg = \<lparr>trade_date = 20240102, start_mode = StartMode_kFromOpen, enabled_streams = 31,
     tick_decoder_lanes = 1, snapshot_decoder_lanes = 1, instrument_workers = 2,
     tick_slots_per_lane = 4, snapshot_slots_per_lane = 2, maximum_tick_body_bytes = 128,
     maximum_snapshot_body_bytes = 256, dispatch_queue_capacity = 4,
     diagnostic_queue_capacity = 2, late_recovery_queue_capacity = 2,
     maximum_channels_per_tick_lane = 2, reorder_entries_per_channel = 4,
     maximum_reorder_span = 4, partial_initial_hold_ns = 10, partial_gap_wait_ns = 20,
     from_open_gap_wait_ns = 20, recovery_timer_scan_ns = 5, cfg_maximum_text_bytes = 16,
     cfg_maximum_depth_items = 10, cfg_maximum_queue_items = 10, first_decoder_cpu = -1\<rparr>"

definition demo_tick :: "u64 \<Rightarrow> TickDecodeResult" where
  "demo_tick seq = \<lparr>td_tick = default_tick\<lparr>t_common := default_common
      \<lparr>c_native_sequence := seq, c_instrument_ordinal := 0\<rparr>\<rparr>, td_catalog_match = True\<rparr>"

definition demo_dispatcher :: Dispatcher where
  "demo_dispatcher = the (config_dispatcher demo_cfg)"

lemma demo_dispatcher_some: "config_dispatcher demo_cfg = Some demo_dispatcher"
proof -
  have "\<exists>d. config_dispatcher demo_cfg = Some d"
    unfolding config_dispatcher_def by (rule new_dispatcher_ex) (simp_all add: demo_cfg_def SIZE_MAX_def)
  then show ?thesis by (auto simp: demo_dispatcher_def)
qed

lemma demo_cfg_fields [simp]:
  "tick_decoder_lanes demo_cfg = 1" "instrument_workers demo_cfg = 2"
  "reorder_entries_per_channel demo_cfg = 4" "start_mode demo_cfg = StartMode_kFromOpen"
  "maximum_channels_per_tick_lane demo_cfg = 2"
  by (simp_all add: demo_cfg_def)

definition demo_inputs :: "RecoveryInput list" where
  "demo_inputs = [ProcessTick (demo_tick 1) 5, ProcessTick (demo_tick 3) 6, PollDeadlines 100,
     ProcessTick (demo_tick 4) 101, FlushAll 200]"

lemma demo_inputs_ok: "list_all input_ok demo_inputs"
  by (simp add: demo_inputs_def input_ok_def demo_tick_def good_seq_def)

section \<open>Runs\<close>

lemma recovery_run_append:
  "recovery_run S (xs @ ys) rec env =
     Option.bind (recovery_run S xs rec env) (\<lambda>(rec1, env1). recovery_run S ys rec1 env1)"
proof (induction xs arbitrary: rec env)
  case (Cons x xs)
  show ?case
  proof (cases "recovery_step S x rec env")
    case (Some s)
    then show ?thesis using Cons.IH by (cases s) simp
  qed simp
qed simp

text \<open>
  C1. Every run of a tick lane's recovery returns, whatever records, polls, flushes and decode
  failures it is given and however the consumers poll meanwhile; and what each owner receives
  from the lane is, on every exchange channel, strictly increasing in the native sequence.
\<close>

theorem lane_streams_increase:
  assumes "config_dispatcher cfg = Some d" and "lane_index < tick_decoder_lanes cfg"
    and "owner < instrument_workers cfg"
    and "reorder_entries_per_channel cfg = 2 ^ k" and "k \<le> 63" and "list_all input_ok inputs"
  shows "\<exists>rec env. recovery_run (lane_sink cfg lane_index) inputs (config_recovery cfg)
      (new_lane_env d schedule allocations) = Some (rec, env) \<and>
    (\<forall>m c. sorted_wrt (<) (map native_seq (filter (of_key m c) (lane_view lane_index owner env))))"
proof -
  obtain rec env where
    run: "recovery_run (lane_sink cfg lane_index) inputs (config_recovery cfg)
      (new_lane_env d schedule allocations) = Some (rec, env)"
    and ord: "lane.ordered lane_index owner rec env"
    by (rule lane_run_served [OF assms])
  show ?thesis using run ord by (auto simp: lane.ordered_def)
qed

theorem lane_streams_increase_witness:
  "\<exists>rec env. recovery_run (lane_sink demo_cfg 0) demo_inputs (config_recovery demo_cfg)
      (new_lane_env demo_dispatcher [[PollTicks 0]] []) = Some (rec, env) \<and>
    (\<forall>m c. sorted_wrt (<) (map native_seq (filter (of_key m c) (lane_view 0 0 env))))"
  by (rule lane_streams_increase [OF demo_dispatcher_some, where k = 2]) (simp_all add: demo_inputs_ok)





text \<open>
  C19. A run that ends with the final flush returns and leaves no record behind: every channel
  is frozen or retains nothing.
\<close>

theorem lane_flush_drains:
  assumes "config_dispatcher cfg = Some d" and "lane_index < tick_decoder_lanes cfg"
    and "owner < instrument_workers cfg"
    and "reorder_entries_per_channel cfg = 2 ^ k" and "k \<le> 63" and "list_all input_ok inputs"
  shows "\<exists>rec env. recovery_run (lane_sink cfg lane_index) (inputs @ [FlushAll now]) (config_recovery cfg)
      (new_lane_env d schedule allocations) = Some (rec, env) \<and>
    (\<forall>i < sr_channel_count rec. cs_frozen (sr_channels rec ! i) \<or> retained (sr_channels rec ! i) = {#})"
proof -
  obtain rec env where
    run: "recovery_run (lane_sink cfg lane_index) inputs (config_recovery cfg)
      (new_lane_env d schedule allocations) = Some (rec, env)"
    and ok: "lane.rec_ok cfg lane_index owner (\<lambda>_. True) rec env" "lane.ordered lane_index owner rec env"
    by (rule lane_run_served [OF assms])
  obtain s' where "Flush (lane_sink cfg lane_index) now rec env = Some s'"
    "\<forall>j < sr_channel_count (fst s'). lane.drained (sr_channels (fst s') ! j)"
    using lane.Flush_served [OF ok, of now] by (elim exE conjE) (rule that)
  moreover obtain rec' env' where "s' = (rec', env')" by (cases s')
  ultimately have f: "Flush (lane_sink cfg lane_index) now rec env = Some (rec', env')"
    and all: "\<forall>j < sr_channel_count rec'. lane.drained (sr_channels rec' ! j)" by simp_all
  have "recovery_run (lane_sink cfg lane_index) (inputs @ [FlushAll now]) (config_recovery cfg)
      (new_lane_env d schedule allocations) = Some (rec', env')"
    unfolding recovery_run_append run by (simp add: f)
  then show ?thesis using all unfolding lane.drained_def by blast
qed

theorem lane_flush_drains_witness:
  "\<exists>rec env. recovery_run (lane_sink demo_cfg 0) (demo_inputs @ [FlushAll 300]) (config_recovery demo_cfg)
      (new_lane_env demo_dispatcher [] [True]) = Some (rec, env) \<and>
    (\<forall>i < sr_channel_count rec. cs_frozen (sr_channels rec ! i) \<or> retained (sr_channels rec ! i) = {#})"
  by (rule lane_flush_drains [OF demo_dispatcher_some, where k = 2 and owner = 0]) (simp_all add: demo_inputs_ok)

end
