(* ===== verification/Gap_Claims.thy ===== *)
theory Gap_Claims
  imports Recovery_Claims
begin

text \<open>
  The delivery of channel gaps through the mailboxes of the dispatcher (\<open>PublishGap\<close> and
  \<open>TryPollGap\<close> of \<open>src/engine.cpp\<close>): the mailboxes implement one register per channel slot, two empty
  polls in a row mean that every gap was delivered, and one empty poll does not.
\<close>

section \<open>The abstract registers\<close>

text \<open>The gaps not yet delivered, by tick lane and channel slot.\<close>

definition gap_registers :: "Dispatcher \<Rightarrow> nat \<times> nat \<Rightarrow> ChannelGap option" where
  "gap_registers d k = (if fst k < dp_tick_producers d \<and> snd k < dp_gap_channels_per_producer d \<and>
      mb_unread (gap_cell d (fst k) (snd k)) then mb_latest (gap_cell d (fst k) (snd k)) else None)"

datatype GapOp = GapPublish nat nat ChannelGap | GapPoll

fun gap_op :: "GapOp \<Rightarrow> Dispatcher \<Rightarrow> Dispatcher" where
  "gap_op (GapPublish p c g) d = snd (PublishGap p c g d)"
| "gap_op GapPoll d = snd (TryPollGap d)"

text \<open>What an operation does to the registers.\<close>

fun gap_spec :: "GapOp \<Rightarrow> Dispatcher \<Rightarrow> Dispatcher \<Rightarrow> bool" where
  "gap_spec (GapPublish p c g) d d' \<longleftrightarrow> gap_registers d' =
     (if p < dp_tick_producers d \<and> c < dp_gap_channels_per_producer d
      then (gap_registers d)((p, c) \<mapsto> g) else gap_registers d)"
| "gap_spec GapPoll d d' \<longleftrightarrow> (case fst (TryPollGap d) of
     None \<Rightarrow> gap_registers d' = gap_registers d
   | Some g \<Rightarrow> \<exists>k. gap_registers d k = Some g \<and> gap_registers d' = (gap_registers d)(k := None))"

section \<open>The operations implement them\<close>

text \<open>The invariant, with a bound on the publications so far: tokens have 62 bits of generation.\<close>

definition gap_bounded :: "nat \<Rightarrow> Dispatcher \<Rightarrow> bool" where
  "gap_bounded n d \<longleftrightarrow> gap_ok d \<and> (\<forall>p < dp_tick_producers d. \<forall>c < dp_gap_channels_per_producer d.
     mailbox_fresh (gap_cell d p c) \<and> unat (mb_producer_generation (gap_cell d p c)) \<le> n)"

lemma publish_registers:
  assumes ok: "gap_bounded n d" and n: "Suc n < kMaximumGeneration"
  shows "gap_bounded (Suc n) (gap_op (GapPublish p c g) d) \<and> gap_spec (GapPublish p c g) d (gap_op (GapPublish p c g) d)"
proof (cases "p < dp_tick_producers d \<and> c < dp_gap_channels_per_producer d")
  case False
  then have "PublishGap p c g d = (False, d)" by (auto simp: PublishGap_def)
  moreover have "gap_bounded (Suc n) d" using ok by (auto simp: gap_bounded_def intro: le_SucI)
  ultimately show ?thesis using False by auto
next
  case True
  then have p: "p < dp_tick_producers d" and c: "c < dp_gap_channels_per_producer d" by simp_all
  have gok: "gap_ok d" and gens: "unat (mb_producer_generation (gap_cell d p c)) \<le> n" "mailbox_fresh (gap_cell d p c)"
    using ok p c by (simp_all add: gap_bounded_def)
  obtain b d' where pub: "PublishGap p c g d = (b, d')" by fastforce
  have gen: "Suc (unat (mb_producer_generation (gap_cell d p c))) < kMaximumGeneration" using gens n by simp
  note A = PublishGap_announced [OF gok p c pub] and F = Publish_fresh [OF gens(2) gen, of g]
  have dok: "dispatcher_ok d" and mok: "list_all mailbox_ok (dp_gap_slots d)" using gok by (simp_all add: gap_ok_def)
  have i: "p * dp_gap_channels_per_producer d + c < length (dp_gap_slots d)" by (rule gap_cell_less [OF dok p c])
  have m: "mailbox_ok (gap_cell d p c)" using mok i by (simp add: list_all_length gap_cell_def)
  have shape: "dp_tick_producers d' = dp_tick_producers d" "dp_gap_channels_per_producer d' = dp_gap_channels_per_producer d"
    using pub p c i by (auto simp: PublishGap_def Let_def gap_cell_def)
  have "mailbox_fresh (gap_cell d' p' c') \<and> unat (mb_producer_generation (gap_cell d' p' c')) \<le> Suc n"
    if "p' < dp_tick_producers d" "c' < dp_gap_channels_per_producer d" for p' c'
    using ok that A(5) [OF that] F gens
    by (cases "(p', c') = (p, c)") (auto simp: A(3) gap_bounded_def intro: le_SucI)
  then have "gap_bounded (Suc n) d'" using A(2) by (simp add: gap_bounded_def shape)
  moreover have "gap_registers d' k = ((gap_registers d)((p, c) \<mapsto> g)) k" for k
    using A(4) F(2) A(5) [of "fst k" "snd k"] p c
    by (cases k) (auto simp: gap_registers_def shape A(3))
  ultimately show ?thesis using pub p c by (simp add: fun_eq_iff)
qed

lemma poll_registers:
  assumes ok: "gap_bounded n d"
  shows "gap_bounded n (gap_op GapPoll d) \<and> gap_spec GapPoll d (gap_op GapPoll d)"
proof -
  have gok: "gap_ok d" using ok by (simp add: gap_bounded_def)
  then have dok: "dispatcher_ok d" and mok: "list_all mailbox_ok (dp_gap_slots d)" by (simp_all add: gap_ok_def)
  obtain r d' where poll: "TryPollGap d = (r, d')" by fastforce
  have P: "gap_polled d r d'" by (rule TryPollGap_spec(1) [OF gok poll])
  have shape: "dp_tick_producers d' = dp_tick_producers d" "dp_gap_channels_per_producer d' = dp_gap_channels_per_producer d"
    and gok': "gap_ok d'" using P by (simp_all add: gap_polled_def same_shape_def)
  have cells: "gap_cell d' p c = dp_gap_slots d' ! (p * dp_gap_channels_per_producer d + c)" for p c
    by (simp add: gap_cell_def shape)
  show ?thesis
  proof (cases r)
    case None
    then have same: "gap_cell d' p c = gap_cell d p c" for p c
      using P by (simp add: gap_polled_def cells) (simp add: gap_cell_def)
    then have "gap_registers d' = gap_registers d" by (simp add: gap_registers_def shape fun_eq_iff)
    moreover have "gap_bounded n d'" using ok gok' by (simp add: gap_bounded_def shape same)
    ultimately show ?thesis using poll None by simp
  next
    case (Some g)
    then obtain p c where p: "p < dp_tick_producers d" and c: "c < dp_gap_channels_per_producer d"
      and g: "mb_unread (gap_cell d p c)" "g = the (mb_latest (gap_cell d p c))"
      and slots: "dp_gap_slots d' = dp_gap_slots (read_cell p c d)" using P by (auto simp: gap_polled_def)
    note R = read_cell_ok [OF dok mok p c]
    have i: "p * dp_gap_channels_per_producer d + c < length (dp_gap_slots d)" by (rule gap_cell_less [OF dok p c])
    have m: "mailbox_ok (gap_cell d p c)" using mok i by (simp add: list_all_length gap_cell_def)
    have cell: "gap_cell d' p' c' = gap_cell (read_cell p c d) p' c'" for p' c'
      unfolding cells slots by (simp add: gap_cell_def read_cell_def)
    have mine: "gap_cell (read_cell p c d) p c = snd (TrySnapshot (gap_cell d p c))"
      using i by (simp add: read_cell_def gap_cell_def)
    have "mailbox_fresh (gap_cell d' p' c') \<and> unat (mb_producer_generation (gap_cell d' p' c')) \<le> n"
      if "p' < dp_tick_producers d" "c' < dp_gap_channels_per_producer d" for p' c'
      using ok that R(4) [OF that] TrySnapshot_ok(5,6) [OF m] mine
      by (cases "(p', c') = (p, c)") (auto simp: cell gap_bounded_def)
    then have b: "gap_bounded n d'" using gok' by (simp add: gap_bounded_def shape)
    have "token_index (mb_published_token (gap_cell d p c)) \<noteq> 3" using m g(1) by (auto simp: mailbox_ok_def)
    then have "token_index (mb_published_token (gap_cell d p c)) < 3"
      using token_index_le [of "mb_published_token (gap_cell d p c)"] by linarith
    then have "mb_latest (gap_cell d p c) \<noteq> None" by (simp add: mb_latest_def)
    then have some: "gap_registers d (p, c) = Some g" using p c g by (auto simp: gap_registers_def)
    have "gap_registers d' k = ((gap_registers d)((p, c) := None)) k" for k
      using R(3) R(4) [of "fst k" "snd k"] p c by (cases k) (auto simp: gap_registers_def shape cell)
    then have "gap_registers d' = (gap_registers d)((p, c) := None)" by (simp add: fun_eq_iff)
    then show ?thesis using b some poll Some by auto
  qed
qed

lemma gap_op_registers:
  assumes "gap_bounded n d" and "Suc n < kMaximumGeneration"
  shows "gap_bounded (Suc n) (gap_op op d) \<and> gap_spec op d (gap_op op d)"
proof (cases op)
  case GapPoll
  then show ?thesis using poll_registers [OF assms(1)] by (auto simp: gap_bounded_def intro: le_SucI)
next
  case (GapPublish p c g)
  then show ?thesis using publish_registers [OF assms] by simp
qed

lemma new_registers:
  assumes "config_dispatcher cfg = Some d"
  shows "gap_bounded 0 d" and "gap_registers d = Map.empty"
proof -
  note N = new_dispatcher_gap_ok [OF assms [unfolded config_dispatcher_def]]
  have dok: "dispatcher_ok d" using N(1) by (simp add: gap_ok_def)
  have cell: "gap_cell d p c = new_mailbox" if "p < dp_tick_producers d" "c < dp_gap_channels_per_producer d" for p c
  proof -
    have "dp_gap_slots d = replicate (length (dp_gap_slots d)) new_mailbox"
      using assms by (auto simp: config_dispatcher_def new_dispatcher_def Let_def split: option.splits Option.bind_splits)
    then show ?thesis using gap_cell_less [OF dok that] by (metis gap_cell_def nth_replicate)
  qed
  show "gap_bounded 0 d" using N(1) by (simp add: gap_bounded_def cell) (simp add: mailbox_fresh_new, simp add: new_mailbox_def)
  show "gap_registers d = Map.empty" by (auto simp: gap_registers_def cell)
qed

lemma gap_run_bounded:
  assumes "config_dispatcher cfg = Some d" and "length ops < kMaximumGeneration"
  shows "gap_bounded (length ops) (fold gap_op ops d)"
  using assms(2)
proof (induction ops rule: rev_induct)
  case (snoc x ops)
  then show ?case using gap_op_registers [of "length ops"] by simp
qed (simp add: new_registers(1) [OF assms(1)])

section \<open>The properties\<close>

text \<open>
  C21. The gap mailboxes of a dispatcher implement one register per tick lane and channel slot, for
  fewer than \<open>2 ^ 62\<close> operations in any order: publishing overwrites the register of its slot and no
  other, a poll that delivers a gap delivers the latest one of a register and empties exactly that
  register, a poll that delivers nothing changes none, and after two polls in a row that deliver
  nothing every register is empty.
\<close>

theorem gap_mailboxes_refine:
  assumes "config_dispatcher cfg = Some d0" and "Suc (length ops) < kMaximumGeneration"
    and "d = fold gap_op ops d0"
  shows "gap_registers d0 = Map.empty \<and> gap_spec op d (gap_op op d) \<and>
    (fst (TryPollGap d) = None \<and> fst (TryPollGap (snd (TryPollGap d))) = None \<longrightarrow>
      gap_registers d = Map.empty)"
proof -
  have b: "gap_bounded (length ops) d" using gap_run_bounded [OF assms(1)] assms(2,3) by simp
  have "gap_registers d = Map.empty"
    if n: "fst (TryPollGap d) = None" "fst (TryPollGap (snd (TryPollGap d))) = None"
  proof -
    obtain d1 d2 where p: "TryPollGap d = (None, d1)" "TryPollGap d1 = (None, d2)"
      using n by (cases "TryPollGap d"; cases "TryPollGap (snd (TryPollGap d))") auto
    have ok: "gap_ok d" "gap_ok d1" using b poll_registers [OF b] p(1) by (simp_all add: gap_bounded_def)
    note Z = TryPollGap_spec(2) [OF ok(1) p(1) refl]
    have "gap_registers d1 = Map.empty"
      using TryPollGap_spec(3) [OF ok(2) p(2) refl] Z by (intro ext) (auto simp: gap_registers_def word_settled_def)
    moreover have "gap_registers d1 = gap_registers d" using poll_registers [OF b] p(1) by simp
    ultimately show ?thesis by simp
  qed
  then show ?thesis using new_registers(2) [OF assms(1)] gap_op_registers [OF b assms(2)] by blast
qed

definition demo_gap :: "u32 \<Rightarrow> u64 \<Rightarrow> ChannelGap" where
  "demo_gap channel epoch =
     default_gap\<lparr>g_market := Market_kShenzhen, g_channel := channel, g_gap_epoch := epoch\<rparr>"

definition demo_gap_ops :: "GapOp list" where
  "demo_gap_ops = [GapPublish 0 0 (demo_gap 7 1), GapPublish 0 1 (demo_gap 8 1), GapPoll,
     GapPublish 0 1 (demo_gap 8 2), GapPoll, GapPublish 0 0 (demo_gap 7 2), GapPoll,
     GapPublish 0 0 (demo_gap 7 3)]"

text \<open>A dispatcher with one tick lane and two channel slots, by what its word and its slots hold.\<close>

definition duo :: "u64 \<Rightarrow> u64 \<Rightarrow> GapMailboxSlot \<Rightarrow> GapMailboxSlot \<Rightarrow> Dispatcher \<Rightarrow> bool" where
  "duo dirty pending a b d \<longleftrightarrow> dp_tick_producers d = 1 \<and> dp_gap_channels_per_producer d = 2 \<and>
     dp_gap_words_per_producer d = 1 \<and> dp_gap_slots d = [a, b] \<and> dp_gap_dirty_words d = [dirty] \<and>
     dp_gap_consumer_pending d = [pending] \<and> dp_gap_consumer_word_cursor d = 0 \<and> mailbox_ok a \<and> mailbox_ok b"

lemma duo_words [simp]:
  "countr_zero 1 = 0" "countr_zero 2 = 1" "countr_zero 3 = 0"
  "clear_bit64 0 1 = 0" "clear_bit64 (Suc 0) 2 = 0" "clear_bit64 0 3 = 2"
  by (simp_all add: countr_zero_def clear_bit64_def eval_nat_numeral)

lemma duo_new: "config_dispatcher demo_cfg = Some d \<Longrightarrow> duo 0 0 new_mailbox new_mailbox d"
  by (auto simp: config_dispatcher_def new_dispatcher_def demo_cfg_def duo_def Let_def mailbox_ok_new numeral_2_eq_2
      split: option.splits)

lemma duo_publish:
  assumes "duo q p a b d"
  shows "duo (q OR 1) p (Publish g a) b (gap_op (GapPublish 0 0 g) d)"
    and "duo (q OR 2) p a (Publish g b) (gap_op (GapPublish 0 1 g) d)"
  using assms Publish_ok(1) [of a g] Publish_ok(1) [of b g]
  by (auto simp: duo_def PublishGap_def Let_def)

text \<open>The polls of the example, by the word the consumer looks at.\<close>

lemma duo_poll:
  assumes d: "duo q p a b d"
  shows "p = 0 \<Longrightarrow> q = 3 \<Longrightarrow> mb_unread a \<Longrightarrow>
      fst (TryPollGap d) \<noteq> None \<and> duo 0 2 (snd (TrySnapshot a)) b (gap_op GapPoll d)"
    and "p = 0 \<Longrightarrow> q = 1 \<Longrightarrow> mb_unread a \<Longrightarrow> fst (TryPollGap d) \<noteq> None"
    and "p = 2 \<Longrightarrow> mb_unread b \<Longrightarrow>
      fst (TryPollGap d) \<noteq> None \<and> duo q 0 a (snd (TrySnapshot b)) (gap_op GapPoll d)"
    and "p = 2 \<Longrightarrow> \<not> mb_unread b \<Longrightarrow>
      fst (TryPollGap d) = None \<and> duo q 0 a (snd (TrySnapshot b)) (gap_op GapPoll d)"
proof -
  have ok: "mailbox_ok a" "mailbox_ok b" using d by (simp_all add: duo_def)
  obtain sa where sa: "TrySnapshot a = (if mb_unread a then kReady (the (mb_latest a)) else kNoChange, sa)"
    using TrySnapshot_ok(1) [OF ok(1)] by (cases "TrySnapshot a") simp
  obtain sb where sb: "TrySnapshot b = (if mb_unread b then kReady (the (mb_latest b)) else kNoChange, sb)"
    using TrySnapshot_ok(1) [OF ok(2)] by (cases "TrySnapshot b") simp
  have ok': "mailbox_ok a" "mailbox_ok b" "mailbox_ok sa" "mailbox_ok sb"
    using ok TrySnapshot_ok(2) [OF ok(1)] TrySnapshot_ok(2) [OF ok(2)] by (simp_all add: sa sb)
  show "p = 0 \<Longrightarrow> q = 3 \<Longrightarrow> mb_unread a \<Longrightarrow>
      fst (TryPollGap d) \<noteq> None \<and> duo 0 2 (snd (TrySnapshot a)) b (gap_op GapPoll d)"
    using d ok' by (subst (asm) duo_def) (simp add: TryPollGap_def gap_word_loop.simps [of 0 3] Let_def sa, simp add: duo_def sa)
  show "p = 0 \<Longrightarrow> q = 1 \<Longrightarrow> mb_unread a \<Longrightarrow> fst (TryPollGap d) \<noteq> None"
    using d ok' by (subst (asm) duo_def) (simp add: TryPollGap_def gap_word_loop.simps [of 0 1] Let_def sa)
  show "p = 2 \<Longrightarrow> mb_unread b \<Longrightarrow>
      fst (TryPollGap d) \<noteq> None \<and> duo q 0 a (snd (TrySnapshot b)) (gap_op GapPoll d)"
    using d ok' by (subst (asm) duo_def) (simp add: TryPollGap_def gap_word_loop.simps [of 0 2] Let_def sb, simp add: duo_def sb)
  show "p = 2 \<Longrightarrow> \<not> mb_unread b \<Longrightarrow>
      fst (TryPollGap d) = None \<and> duo q 0 a (snd (TrySnapshot b)) (gap_op GapPoll d)"
    using d ok' by (subst (asm) duo_def) (simp add: TryPollGap_def gap_word_loop.simps [of 0 2] gap_word_loop.simps [of 0 0] Let_def sb, simp add: duo_def sb)
qed

lemma demo_gap_polls:
  "fst (TryPollGap (fold gap_op demo_gap_ops demo_dispatcher)) = None"
  "fst (TryPollGap (gap_op GapPoll (fold gap_op demo_gap_ops demo_dispatcher))) \<noteq> None"
proof -
  define fresh where "fresh n x \<longleftrightarrow> mailbox_fresh x \<and> unat (mb_producer_generation x) \<le> n" for n x
  have pub: "mb_unread (Publish g x) \<and> fresh (Suc n) (Publish g x)" if "fresh n x" "n < 8" for g x n
    using that Publish_fresh [of x g] by (simp add: fresh_def kMaximumGeneration_def)
  have read: "fresh n (snd (TrySnapshot x))" if "fresh n x" "mailbox_ok x" for n x
    using that TrySnapshot_ok(5,6) [OF that(2)] by (simp add: fresh_def)
  have ok: "mailbox_ok a \<and> mailbox_ok b" if "duo q p a b d" for q p a b d using that by (simp add: duo_def)
  let ?n = new_mailbox
  define A1 where "A1 = Publish (demo_gap 7 1) ?n"
  define B1 where "B1 = Publish (demo_gap 8 1) ?n"
  define A1' where "A1' = snd (TrySnapshot A1)"
  define B2 where "B2 = Publish (demo_gap 8 2) B1"
  define B2' where "B2' = snd (TrySnapshot B2)"
  define A2 where "A2 = Publish (demo_gap 7 2) A1'"
  define A2' where "A2' = snd (TrySnapshot A2)"
  define A3 where "A3 = Publish (demo_gap 7 3) A2'"
  define d where "d k = fold gap_op (take k demo_gap_ops) demo_dispatcher" for k
  have step: "d (Suc k) = gap_op (demo_gap_ops ! k) (d k)" if "k < 8" for k
  proof -
    have "k < length demo_gap_ops" using that by (simp add: demo_gap_ops_def)
    then show ?thesis by (simp add: d_def take_Suc_conv_app_nth)
  qed
  have g0: "fresh 0 ?n" by (simp add: fresh_def mailbox_fresh_new) (simp add: new_mailbox_def)
  have d0: "duo 0 0 ?n ?n (d 0)" using duo_new [OF demo_dispatcher_some] by (simp add: d_def)
  have d1: "duo 1 0 A1 ?n (d 1)"
    using duo_publish(1) [OF d0, of "demo_gap 7 1"] step [of 0] by (simp add: A1_def demo_gap_ops_def)
  have A1: "mb_unread A1" "fresh 1 A1" using pub [OF g0] by (simp_all add: A1_def)
  have d2: "duo 3 0 A1 B1 (d 2)"
    using duo_publish(2) [OF d1, of "demo_gap 8 1"] step [of 1] by (simp add: B1_def demo_gap_ops_def numeral_2_eq_2)
  have B1: "fresh 1 B1" using pub [OF g0] by (simp add: B1_def)
  have d3: "duo 0 2 A1' B1 (d 3)"
    using duo_poll(1) [OF d2 refl refl A1(1)] step [of 2] by (simp add: A1'_def demo_gap_ops_def numeral_3_eq_3)
  have A1': "fresh 1 A1'" using read [OF A1(2)] ok [OF d1] by (simp add: A1'_def)
  have B2: "mb_unread B2" using pub [OF B1] by (simp add: B2_def)
  have d4: "duo 2 2 A1' B2 (d 4)"
    using duo_publish(2) [OF d3, of "demo_gap 8 2"] step [of 3] by (simp add: B2_def demo_gap_ops_def)
  have d5: "duo 2 0 A1' B2' (d 5)"
    using duo_poll(3) [OF d4 refl B2(1)] step [of 4] by (simp add: B2'_def demo_gap_ops_def)
  have B2': "\<not> mb_unread B2'" using TrySnapshot_ok(4) ok [OF d4] by (simp add: B2'_def)
  have A2: "mb_unread A2" "fresh 2 A2" using pub [OF A1'] by (simp_all add: A2_def numeral_2_eq_2)
  have d6: "duo 3 0 A2 B2' (d 6)"
    using duo_publish(1) [OF d5, of "demo_gap 7 2"] step [of 5] by (simp add: A2_def demo_gap_ops_def)
  have d7: "duo 0 2 A2' B2' (d 7)"
    using duo_poll(1) [OF d6 refl refl A2(1)] step [of 6] by (simp add: A2'_def demo_gap_ops_def)
  have A2': "fresh 2 A2'" using read [OF A2(2)] ok [OF d6] by (simp add: A2'_def)
  have A3: "mb_unread A3" using pub [OF A2'] by (simp add: A3_def)
  have d8: "duo 1 2 A3 B2' (d 8)"
    using duo_publish(1) [OF d7, of "demo_gap 7 3"] step [of 7] by (simp add: A3_def demo_gap_ops_def)
  have "d 8 = fold gap_op demo_gap_ops demo_dispatcher" by (simp add: d_def demo_gap_ops_def)
  moreover note duo_poll(4) [OF d8 refl B2']
  moreover have "fst (TryPollGap (gap_op GapPoll (d 8))) \<noteq> None"
    by (rule duo_poll(2) [OF conjunct2 [OF duo_poll(4) [OF d8 refl B2']] refl refl A3])
  ultimately show "fst (TryPollGap (fold gap_op demo_gap_ops demo_dispatcher)) = None"
    "fst (TryPollGap (gap_op GapPoll (fold gap_op demo_gap_ops demo_dispatcher))) \<noteq> None" by simp_all
qed

theorem gap_mailboxes_refine_witness:
  "\<exists>k g. gap_registers (fold gap_op (demo_gap_ops @ [GapPoll]) demo_dispatcher) k = Some g"
proof -
  have len: "Suc (length (demo_gap_ops @ [GapPoll])) < kMaximumGeneration"
    by (simp add: demo_gap_ops_def kMaximumGeneration_def)
  show ?thesis
    using gap_mailboxes_refine [OF demo_dispatcher_some len refl, of GapPoll] demo_gap_polls(2)
    by (auto split: option.splits)
qed

text \<open>
  C40. One empty poll does not mean that every gap was delivered: there is a sequence of publications
  and polls after which \<open>TryPollGap\<close> returns nothing although a published gap was never delivered,
  and the next poll, with no publication in between, delivers it.  A word of dirty bits taken over
  earlier still carries the bit of a mailbox that was read meanwhile, and it hides the new bits of
  the same word for one poll.
\<close>

theorem gap_poll_hides:
  "\<exists>ops k g. let d = fold gap_op ops demo_dispatcher in
    gap_registers d k = Some g \<and> fst (TryPollGap d) = None \<and> fst (TryPollGap (snd (TryPollGap d))) = Some g"
proof -
  let ?d = "fold gap_op demo_gap_ops demo_dispatcher"
  have b: "gap_bounded (length demo_gap_ops) ?d"
    by (rule gap_run_bounded [OF demo_dispatcher_some]) (simp add: demo_gap_ops_def kMaximumGeneration_def)
  have b1: "gap_bounded (length demo_gap_ops) (gap_op GapPoll ?d)"
    and same: "gap_registers (gap_op GapPoll ?d) = gap_registers ?d"
    using poll_registers [OF b] demo_gap_polls(1) by simp_all
  obtain g where g: "fst (TryPollGap (gap_op GapPoll ?d)) = Some g" using demo_gap_polls(2) by auto
  then obtain k where "gap_registers (gap_op GapPoll ?d) k = Some g" using poll_registers [OF b1] by auto
  then show ?thesis
    using same g demo_gap_polls(1) by (intro exI [of _ demo_gap_ops] exI [of _ k] exI [of _ g]) (simp add: Let_def)
qed

end
