(* ===== verification/Mailbox_Interleaving.thy ===== *)
theory Mailbox_Interleaving
  imports Gap_Mailbox
begin

text \<open>
  The lock-free mailbox \<open>GapMailboxSlot\<close> of \<open>src/engine.cpp\<close>, one load or store at a time: the
  producer and the consumer each stand at a point of their function and either may move next.  The
  atomics are sequentially consistent in the code, so interleavings are what can happen.  A buffer is
  \<open>None\<close> while the producer is writing it; the copy of the consumer lasts from its check to its
  release of the claim.
\<close>

section \<open>The two threads\<close>

text \<open>Points of \<open>Publish\<close>: after each load and around the copy into the buffer.\<close>

datatype ProducerAt =
    P_Idle
  | P_Loaded ChannelGap u64
  | P_Target ChannelGap nat
  | P_Writing ChannelGap nat
  | P_Store ChannelGap nat

text \<open>
  Points of \<open>TrySnapshot\<close>, with the attempts left, the number of gaps published when the call began
  (a history value) and the token it read.
\<close>

datatype ConsumerAt =
    C_Idle
  | C_Attempt nat nat
  | C_Claim nat nat u64
  | C_Check nat nat u64
  | C_Retry nat nat
  | C_Copy nat u64
  | C_Release nat u64 "ChannelGap option"

text \<open>
  The history: the gaps published so far, the positions delivered so far, and for every finished call
  the number published at its begin, at its end, and the position delivered last, with its result.
\<close>

record CallLog =
  cl_since :: nat
  cl_until :: nat
  cl_position :: nat
  cl_result :: SnapshotResult

record MailboxRun =
  mr_buffers :: "ChannelGap option list"
  mr_published_token :: u64
  mr_reader_index :: nat
  mr_producer_generation :: u64
  mr_delivered_token :: u64
  mr_producer :: ProducerAt
  mr_consumer :: ConsumerAt
  mr_published :: "ChannelGap list"
  mr_positions :: "nat list"
  mr_calls :: "CallLog list"

definition generation_of :: "u64 \<Rightarrow> nat" where
  "generation_of token = unat token div 4"

definition finish_call :: "nat \<Rightarrow> SnapshotResult \<Rightarrow> MailboxRun \<Rightarrow> MailboxRun" where
  "finish_call since result s = s\<lparr>mr_consumer := C_Idle, mr_calls := mr_calls s @
     [\<lparr>cl_since = since, cl_until = length (mr_published s),
       cl_position = generation_of (mr_delivered_token s), cl_result = result\<rparr>]\<rparr>"

definition initial_mailbox :: MailboxRun where
  "initial_mailbox = \<lparr>mr_buffers = replicate 3 (Some default_gap), mr_published_token = 3,
     mr_reader_index = kNoReader, mr_producer_generation = 0, mr_delivered_token = 3,
     mr_producer = P_Idle, mr_consumer = C_Idle, mr_published = [], mr_positions = [], mr_calls = []\<rparr>"

section \<open>Steps\<close>

inductive mailbox_step :: "MailboxRun \<Rightarrow> MailboxRun \<Rightarrow> bool" where
  p_load: "mr_producer s = P_Idle \<Longrightarrow>
    mailbox_step s (s\<lparr>mr_producer := P_Loaded gap (mr_published_token s)\<rparr>)"
| p_choose: "mr_producer s = P_Loaded gap current_token \<Longrightarrow>
    mailbox_step s (s\<lparr>mr_producer := P_Target gap (publish_target (token_index current_token) (mr_reader_index s))\<rparr>)"
| p_write: "mr_producer s = P_Target gap target \<Longrightarrow>
    mailbox_step s (s\<lparr>mr_producer := P_Writing gap target, mr_buffers := (mr_buffers s)[target := None]\<rparr>)"
| p_written: "mr_producer s = P_Writing gap target \<Longrightarrow>
    mailbox_step s (s\<lparr>mr_producer := P_Store gap target, mr_buffers := (mr_buffers s)[target := Some gap],
      mr_producer_generation := mr_producer_generation s + 1\<rparr>)"
| p_store: "mr_producer s = P_Store gap target \<Longrightarrow>
    mailbox_step s (s\<lparr>mr_producer := P_Idle, mr_published := mr_published s @ [gap],
      mr_published_token := make_token (mr_producer_generation s) target\<rparr>)"
| c_call: "mr_consumer s = C_Idle \<Longrightarrow>
    mailbox_step s (s\<lparr>mr_consumer := C_Attempt kMaximumAttempts (length (mr_published s))\<rparr>)"
| c_busy: "mr_consumer s = C_Attempt 0 since \<Longrightarrow> mailbox_step s (finish_call since kBusy s)"
| c_none: "mr_consumer s = C_Attempt (Suc k) since \<Longrightarrow> token_index (mr_published_token s) \<ge> 3 \<Longrightarrow>
    mailbox_step s (finish_call since kNoChange s)"
| c_load: "mr_consumer s = C_Attempt (Suc k) since \<Longrightarrow> token_index (mr_published_token s) < 3 \<Longrightarrow>
    mailbox_step s (s\<lparr>mr_consumer := C_Claim k since (mr_published_token s)\<rparr>)"
| c_claim: "mr_consumer s = C_Claim k since token \<Longrightarrow>
    mailbox_step s (s\<lparr>mr_consumer := C_Check k since token, mr_reader_index := token_index token\<rparr>)"
| c_changed: "mr_consumer s = C_Check k since token \<Longrightarrow> mr_published_token s \<noteq> token \<Longrightarrow>
    mailbox_step s (s\<lparr>mr_consumer := C_Retry k since\<rparr>)"
| c_retry: "mr_consumer s = C_Retry k since \<Longrightarrow>
    mailbox_step s (s\<lparr>mr_consumer := C_Attempt k since, mr_reader_index := kNoReader\<rparr>)"
| c_checked: "mr_consumer s = C_Check k since token \<Longrightarrow> mr_published_token s = token \<Longrightarrow>
    mailbox_step s (s\<lparr>mr_consumer := C_Copy since token\<rparr>)"
| c_copied: "mr_consumer s = C_Copy since token \<Longrightarrow>
    mailbox_step s (s\<lparr>mr_consumer := C_Release since token (mr_buffers s ! token_index token)\<rparr>)"
| c_same: "mr_consumer s = C_Release since token snapshot \<Longrightarrow> mr_delivered_token s = token \<Longrightarrow>
    mailbox_step s (finish_call since kNoChange (s\<lparr>mr_reader_index := kNoReader\<rparr>))"
| c_ready: "mr_consumer s = C_Release since token snapshot \<Longrightarrow> mr_delivered_token s \<noteq> token \<Longrightarrow>
    mailbox_step s (finish_call since (kReady (the snapshot)) (s\<lparr>mr_reader_index := kNoReader,
      mr_delivered_token := token, mr_positions := mr_positions s @ [generation_of token]\<rparr>))"

inductive mailbox_run :: "MailboxRun \<Rightarrow> bool" where
  start: "mailbox_run initial_mailbox"
| step: "mailbox_run s \<Longrightarrow> mailbox_step s s' \<Longrightarrow> mailbox_run s'"

section \<open>The invariant\<close>

text \<open>The published token carries the number of gaps published and points to the last one.\<close>

definition token_ok :: "MailboxRun \<Rightarrow> bool" where
  "token_ok s \<longleftrightarrow> length (mr_buffers s) = 3 \<and>
     (let n = length (mr_published s); t = mr_published_token s in
      generation_of t = n \<and> (n = 0 \<longrightarrow> t = 3) \<and>
      (0 < n \<longrightarrow> token_index t < 3 \<and> mr_buffers s ! token_index t = Some (last (mr_published s))))"

definition producer_ok :: "MailboxRun \<Rightarrow> bool" where
  "producer_ok s \<longleftrightarrow>
     unat (mr_producer_generation s) = length (mr_published s) +
       (case mr_producer s of P_Store gap target \<Rightarrow> 1 | _ \<Rightarrow> 0) \<and>
     (case mr_producer s of
        P_Idle \<Rightarrow> True
      | P_Loaded gap token \<Rightarrow> token = mr_published_token s
      | P_Target gap target \<Rightarrow> target < 3 \<and> target \<noteq> token_index (mr_published_token s)
      | P_Writing gap target \<Rightarrow> target < 3 \<and> target \<noteq> token_index (mr_published_token s)
      | P_Store gap target \<Rightarrow> target < 3 \<and> target \<noteq> token_index (mr_published_token s) \<and>
          mr_buffers s ! target = Some gap)"

text \<open>The buffer the producer may still write.\<close>

definition p_target :: "MailboxRun \<Rightarrow> nat option" where
  "p_target s = (case mr_producer s of P_Target gap target \<Rightarrow> Some target | P_Writing gap target \<Rightarrow> Some target
     | P_Store gap target \<Rightarrow> Some target | _ \<Rightarrow> None)"

text \<open>A token the consumer read during a call that began after \<open>since\<close> publications.\<close>

definition seen_token :: "nat \<Rightarrow> u64 \<Rightarrow> MailboxRun \<Rightarrow> bool" where
  "seen_token since token s \<longleftrightarrow> since \<le> generation_of token \<and> 0 < generation_of token \<and>
     generation_of token \<le> length (mr_published s) \<and> token_index token < 3 \<and>
     (generation_of token = length (mr_published s) \<longrightarrow> token = mr_published_token s) \<and>
     generation_of (mr_delivered_token s) \<le> generation_of token \<and>
     (generation_of (mr_delivered_token s) = generation_of token \<longrightarrow> mr_delivered_token s = token)"

definition consumer_ok :: "MailboxRun \<Rightarrow> bool" where
  "consumer_ok s \<longleftrightarrow> (case mr_consumer s of
       C_Idle \<Rightarrow> True
     | C_Attempt k since \<Rightarrow> k \<le> kMaximumAttempts \<and> since + (kMaximumAttempts - k) \<le> length (mr_published s)
     | C_Claim k since token \<Rightarrow> k < kMaximumAttempts \<and> seen_token since token s \<and>
         since + (kMaximumAttempts - Suc k) \<le> generation_of token
     | C_Check k since token \<Rightarrow> k < kMaximumAttempts \<and> seen_token since token s \<and>
         since + (kMaximumAttempts - Suc k) \<le> generation_of token \<and> mr_reader_index s = token_index token
     | C_Retry k since \<Rightarrow> k < kMaximumAttempts \<and> since + (kMaximumAttempts - k) \<le> length (mr_published s)
     | C_Copy since token \<Rightarrow> seen_token since token s \<and> mr_reader_index s = token_index token \<and>
         p_target s \<noteq> Some (token_index token) \<and>
         mr_buffers s ! token_index token = Some (mr_published s ! (generation_of token - 1))
     | C_Release since token snapshot \<Rightarrow> seen_token since token s \<and>
         snapshot = Some (mr_published s ! (generation_of token - 1)))"

text \<open>What a finished call has promised.\<close>

definition call_ok :: "ChannelGap list \<Rightarrow> CallLog \<Rightarrow> bool" where
  "call_ok published c \<longleftrightarrow> cl_since c \<le> cl_until c \<and> cl_until c \<le> length published \<and> (case cl_result c of
       kReady gap \<Rightarrow> cl_since c \<le> cl_position c \<and> 0 < cl_position c \<and> cl_position c \<le> cl_until c \<and>
         gap = published ! (cl_position c - 1)
     | kNoChange \<Rightarrow> cl_since c \<le> cl_position c \<and> cl_position c \<le> cl_until c
     | kBusy \<Rightarrow> cl_since c + kMaximumAttempts \<le> cl_until c)"

definition delivered_gaps :: "CallLog list \<Rightarrow> ChannelGap list" where
  "delivered_gaps calls = concat (map (\<lambda>c. case cl_result c of kReady gap \<Rightarrow> [gap] | _ \<Rightarrow> []) calls)"

definition history_ok :: "MailboxRun \<Rightarrow> bool" where
  "history_ok s \<longleftrightarrow> list_all (call_ok (mr_published s)) (mr_calls s) \<and>
     sorted_wrt (<) (mr_positions s) \<and>
     (\<forall>k \<in> set (mr_positions s). 0 < k \<and> k \<le> generation_of (mr_delivered_token s)) \<and>
     generation_of (mr_delivered_token s) \<le> length (mr_published s) \<and>
     (generation_of (mr_delivered_token s) = length (mr_published s) \<longrightarrow>
        mr_delivered_token s = mr_published_token s) \<and>
     delivered_gaps (mr_calls s) = map (\<lambda>k. mr_published s ! (k - 1)) (mr_positions s)"

definition mailbox_inv :: "MailboxRun \<Rightarrow> bool" where
  "mailbox_inv s \<longleftrightarrow> token_ok s \<and> producer_ok s \<and> consumer_ok s \<and> history_ok s"

section \<open>Every step keeps it\<close>

lemma generation_make_token:
  assumes "unat g < kMaximumGeneration" and "i < 3"
  shows "generation_of (make_token g i) = unat g" and "token_index (make_token g i) = i"
  using assms unat_make_token [of g i] token_index_make_token [of i g] by (simp_all add: generation_of_def)

lemma generation_none [simp]: "generation_of 3 = 0" "token_index 3 = 3"
  by (simp_all add: generation_of_def token_index_def)

lemma delivered_gaps_snoc [simp]:
  "delivered_gaps (calls @ [c]) = delivered_gaps calls @ (case cl_result c of kReady gap \<Rightarrow> [gap] | _ \<Rightarrow> [])"
  by (simp add: delivered_gaps_def)

lemma call_ok_append: "call_ok published c \<Longrightarrow> call_ok (published @ more_gaps) c"
  by (auto simp: call_ok_def nth_append split: SnapshotResult.splits)

lemma initial_ok: "mailbox_inv initial_mailbox"
  by (simp add: mailbox_inv_def initial_mailbox_def token_ok_def producer_ok_def consumer_ok_def history_ok_def
      delivered_gaps_def)

text \<open>Moves of the producer that publish nothing.\<close>

lemma producer_quiet:
  assumes inv: "mailbox_inv s"
    and s': "s' = s\<lparr>mr_producer := p, mr_buffers := b, mr_producer_generation := g\<rparr>"
    and p: "producer_ok s'"
    and buf: "length b = 3" "\<And>i. Some i \<noteq> p_target s' \<Longrightarrow> b ! i = mr_buffers s ! i"
    and t: "p_target s' \<noteq> Some (token_index (mr_published_token s))"
    and c: "\<And>since token. mr_consumer s = C_Copy since token \<Longrightarrow> p_target s' \<noteq> Some (token_index token)"
  shows "mailbox_inv s'"
proof -
  have "token_ok s'" using inv buf t by (auto simp: mailbox_inv_def token_ok_def s' Let_def)
  moreover have "consumer_ok s'"
    using inv c buf(2) by (auto simp: mailbox_inv_def consumer_ok_def seen_token_def s' split: ConsumerAt.splits)
  moreover have "history_ok s'" using inv by (simp add: mailbox_inv_def history_ok_def s')
  ultimately show ?thesis using p by (simp add: mailbox_inv_def)
qed

text \<open>Moves of the consumer that finish no call.\<close>

lemma consumer_quiet:
  assumes inv: "mailbox_inv s" and s': "s' = s\<lparr>mr_consumer := c, mr_reader_index := r\<rparr>" and c: "consumer_ok s'"
  shows "mailbox_inv s'"
  using inv c
  by (simp add: mailbox_inv_def token_ok_def producer_ok_def history_ok_def s' split: ProducerAt.splits)

lemma consumer_moves:
  assumes inv: "mailbox_inv s" and s': "s' = s\<lparr>mr_consumer := c\<rparr>" and c: "consumer_ok s'"
  shows "mailbox_inv s'"
  by (rule consumer_quiet [OF inv, where c = c and r = "mr_reader_index s"]) (use s' c in simp_all)

lemma finish_quiet:
  assumes inv: "mailbox_inv s" and r: "call_ok (mr_published s) \<lparr>cl_since = since, cl_until = length (mr_published s),
       cl_position = generation_of (mr_delivered_token s), cl_result = result\<rparr>"
    and "result = kNoChange \<or> result = kBusy"
  shows "mailbox_inv (finish_call since result (s\<lparr>mr_reader_index := i\<rparr>))"
  using assms
  by (auto simp: mailbox_inv_def token_ok_def producer_ok_def consumer_ok_def history_ok_def finish_call_def
      split: ProducerAt.splits)

lemma mailbox_inv_step:
  assumes "mailbox_step s s'" and inv: "mailbox_inv s" and "length (mr_published s') < kMaximumGeneration"
  shows "mailbox_inv s'"
  using assms(1,3)
proof cases
  case (p_load gap)
  have "mailbox_inv (s\<lparr>mr_producer := P_Loaded gap (mr_published_token s), mr_buffers := mr_buffers s,
      mr_producer_generation := mr_producer_generation s\<rparr>)"
    by (rule producer_quiet [OF inv refl]) (use inv p_load in \<open>auto simp: mailbox_inv_def producer_ok_def token_ok_def p_target_def\<close>)
  then show ?thesis using p_load by simp
next
  case (p_choose gap current)
  let ?t = "publish_target (token_index current) (mr_reader_index s)"
  have cur: "current = mr_published_token s" using inv p_choose by (simp add: mailbox_inv_def producer_ok_def)
  have t: "?t < 3" "?t \<noteq> mr_reader_index s" by (rule publish_target_props, simp)+
  have "?t \<noteq> token_index current" using t(1) publish_target_props(3) [of "token_index current"] by force
  then have "mailbox_inv (s\<lparr>mr_producer := P_Target gap ?t, mr_buffers := mr_buffers s,
      mr_producer_generation := mr_producer_generation s\<rparr>)"
    using inv p_choose cur t
    by (intro producer_quiet [OF inv refl]) (auto simp: mailbox_inv_def producer_ok_def token_ok_def consumer_ok_def p_target_def)
  then show ?thesis using p_choose by simp
next
  case (p_write gap target)
  have "mailbox_inv (s\<lparr>mr_producer := P_Writing gap target, mr_buffers := (mr_buffers s)[target := None],
      mr_producer_generation := mr_producer_generation s\<rparr>)"
    by (rule producer_quiet [OF inv refl])
      (use inv p_write in \<open>auto simp: mailbox_inv_def producer_ok_def token_ok_def consumer_ok_def p_target_def\<close>)
  then show ?thesis using p_write by simp
next
  case (p_written gap target)
  have "mr_producer_generation s < 4611686018427387904"
    using inv p_written assms(3) by (simp add: mailbox_inv_def producer_ok_def word_less_nat_alt kMaximumGeneration_def)
  then have gen: "unat (mr_producer_generation s + 1) = Suc (unat (mr_producer_generation s))" by (rule unat_succ)
  have "mailbox_inv (s\<lparr>mr_producer := P_Store gap target, mr_buffers := (mr_buffers s)[target := Some gap],
      mr_producer_generation := mr_producer_generation s + 1\<rparr>)"
    by (rule producer_quiet [OF inv refl])
      (use inv p_written gen in \<open>auto simp: mailbox_inv_def producer_ok_def token_ok_def consumer_ok_def p_target_def\<close>)
  then show ?thesis using p_written by simp
next
  case (p_store gap target)
  let ?t = "make_token (mr_producer_generation s) target" and ?n = "length (mr_published s)"
  have P: "unat (mr_producer_generation s) = Suc ?n" "target < 3" "mr_buffers s ! target = Some gap"
    using inv p_store by (simp_all add: mailbox_inv_def producer_ok_def)
  have small: "unat (mr_producer_generation s) < kMaximumGeneration" using p_store P(1) assms(3) by simp
  note G = generation_make_token [OF small P(2)]
  have "token_ok s'" using inv P p_store G by (simp add: mailbox_inv_def token_ok_def Let_def)
  moreover have "producer_ok s'" using P p_store by (simp add: producer_ok_def)
  moreover have "consumer_ok s'"
    using inv P(1) p_store
    by (auto simp: mailbox_inv_def consumer_ok_def seen_token_def p_target_def nth_append split: ConsumerAt.splits)
  moreover have "history_ok s'"
    using inv p_store
    by (auto simp: mailbox_inv_def history_ok_def list_all_iff nth_append intro!: call_ok_append)
  ultimately show ?thesis by (simp add: mailbox_inv_def)
next
  case c_call
  then show ?thesis using inv
    by (intro consumer_moves [OF inv]) (auto simp: consumer_ok_def)
next
  case (c_busy since)
  then show ?thesis using inv finish_quiet [OF inv, of since kBusy "mr_reader_index s"]
    by (simp add: mailbox_inv_def consumer_ok_def call_ok_def)
next
  case (c_none k since)
  have "mr_published s = []" using inv c_none by (auto simp: mailbox_inv_def token_ok_def Let_def)
  then show ?thesis using inv c_none finish_quiet [OF inv, of since kNoChange "mr_reader_index s"]
    by (simp add: mailbox_inv_def consumer_ok_def call_ok_def history_ok_def)
next
  case (c_load k since)
  then show ?thesis using inv
    by (intro consumer_moves [OF inv])
      (auto simp: mailbox_inv_def consumer_ok_def seen_token_def token_ok_def history_ok_def Let_def)
next
  case (c_claim k since token)
  then show ?thesis using inv
    by (intro consumer_quiet [OF inv]) (auto simp: mailbox_inv_def consumer_ok_def seen_token_def)
next
  case (c_changed k since token)
  then show ?thesis using inv
    by (intro consumer_moves [OF inv])
      (auto simp: mailbox_inv_def consumer_ok_def seen_token_def)
next
  case (c_retry k since)
  then show ?thesis using inv
    by (intro consumer_quiet [OF inv]) (auto simp: mailbox_inv_def consumer_ok_def)
next
  case (c_checked k since token)
  then show ?thesis using inv
    by (intro consumer_moves [OF inv])
      (auto simp: mailbox_inv_def consumer_ok_def seen_token_def token_ok_def producer_ok_def p_target_def Let_def
        last_conv_nth split: ProducerAt.splits)
next
  case (c_copied since token)
  then show ?thesis using inv
    by (intro consumer_moves [OF inv])
      (auto simp: mailbox_inv_def consumer_ok_def seen_token_def)
next
  case (c_same since token snapshot)
  then show ?thesis using inv finish_quiet [OF inv, of since kNoChange kNoReader]
    by (simp add: mailbox_inv_def consumer_ok_def call_ok_def history_ok_def seen_token_def)
next
  case (c_ready since token snapshot)
  have S: "seen_token since token s" "snapshot = Some (mr_published s ! (generation_of token - 1))"
    using inv c_ready by (simp_all add: mailbox_inv_def consumer_ok_def)
  then have less: "generation_of (mr_delivered_token s) < generation_of token"
    using c_ready by (auto simp: seen_token_def)
  have "token_ok s' \<and> producer_ok s'"
    using inv c_ready by (simp add: mailbox_inv_def token_ok_def producer_ok_def finish_call_def split: ProducerAt.splits)
  moreover have "consumer_ok s'" using c_ready by (simp add: consumer_ok_def finish_call_def)
  moreover have "history_ok s'"
    using inv c_ready S less
    by (auto simp: mailbox_inv_def history_ok_def finish_call_def call_ok_def seen_token_def sorted_wrt_append)
  ultimately show ?thesis by (simp add: mailbox_inv_def)
qed

lemma published_grows: "mailbox_step s s' \<Longrightarrow> length (mr_published s) \<le> length (mr_published s')"
  by (induction rule: mailbox_step.induct) (simp_all add: finish_call_def)

lemma mailbox_run_inv:
  "mailbox_run s \<Longrightarrow> length (mr_published s) < kMaximumGeneration \<Longrightarrow> mailbox_inv s"
proof (induction rule: mailbox_run.induct)
  case (step s s')
  then show ?case using mailbox_inv_step published_grows [of s s'] by simp
qed (rule initial_ok)

section \<open>What the mailbox guarantees\<close>

text \<open>
  C11. The lock-free mailbox is correct under every interleaving of its loads and stores, for fewer
  than \<open>2 ^ 62\<close> publications.  The producer never writes the buffer that the consumer is copying,
  so no copy is torn.  The gaps delivered are gaps published, intact, in the order of publication and
  none twice.  And every call that has returned kept its word: what it delivered had been published
  by its end and nothing published before it began is newer, \<open>kNoChange\<close> means that nothing
  published before it began is newer than the last delivery, and \<open>kBusy\<close> that at least eight gaps
  were published while it ran.
\<close>

theorem mailbox_lock_free:
  assumes "mailbox_run s" and "length (mr_published s) < kMaximumGeneration"
  shows "(\<forall>since token gap target. mr_consumer s = C_Copy since token \<longrightarrow> mr_producer s = P_Writing gap target \<longrightarrow>
      target \<noteq> token_index token) \<and>
    delivered_gaps (mr_calls s) = map (\<lambda>k. mr_published s ! (k - 1)) (mr_positions s) \<and>
    sorted_wrt (<) (mr_positions s) \<and> set (mr_positions s) \<subseteq> {1 .. length (mr_published s)} \<and>
    list_all (call_ok (mr_published s)) (mr_calls s)"
proof -
  have inv: "mailbox_inv s" by (rule mailbox_run_inv [OF assms])
  then have h: "history_ok s" and c: "consumer_ok s" by (simp_all add: mailbox_inv_def)
  have "target \<noteq> token_index token" if "mr_consumer s = C_Copy since token" "mr_producer s = P_Writing gap target"
    for since token gap target
    using c that by (simp add: consumer_ok_def p_target_def)
  moreover have "set (mr_positions s) \<subseteq> {1 .. length (mr_published s)}"
    using h by (fastforce simp: history_ok_def)
  ultimately show ?thesis using h by (simp add: history_ok_def)
qed

text \<open>One publication, and a call that begins before it and delivers it on its first attempt.\<close>

theorem mailbox_lock_free_witness:
  "\<exists>s. mailbox_run s \<and> delivered_gaps (mr_calls s) = [default_gap] \<and> mr_published s = [default_gap] \<and>
    sorted_wrt (<) (mr_positions s)"
proof -
  let ?g = default_gap and ?b = "[Some default_gap, Some default_gap, Some default_gap]"
  let ?s = "\<lambda>p c buffers token reader generation published. \<lparr>mr_buffers = buffers, mr_published_token = token,
     mr_reader_index = reader, mr_producer_generation = generation, mr_delivered_token = 3,
     mr_producer = p, mr_consumer = c, mr_published = published, mr_positions = [], mr_calls = []\<rparr>"
  let ?c = "C_Attempt 8 0"
  have "mailbox_run (?s P_Idle C_Idle ?b 3 3 0 [])"
    using mailbox_run.start by (simp add: initial_mailbox_def kNoReader_def numeral_3_eq_3)
  from mailbox_run.step [OF this c_call] have "mailbox_run (?s P_Idle ?c ?b 3 3 0 [])"
    by (simp add: kMaximumAttempts_def)
  from mailbox_run.step [OF this p_load [of _ ?g]] have "mailbox_run (?s (P_Loaded ?g 3) ?c ?b 3 3 0 [])" by simp
  from mailbox_run.step [OF this p_choose] have "mailbox_run (?s (P_Target ?g 1) ?c ?b 3 3 0 [])"
    by (simp add: publish_target_def)
  from mailbox_run.step [OF this p_write] have "mailbox_run (?s (P_Writing ?g 1) ?c [Some ?g, None, Some ?g] 3 3 0 [])" by simp
  from mailbox_run.step [OF this p_written] have "mailbox_run (?s (P_Store ?g 1) ?c ?b 3 3 1 [])" by simp
  from mailbox_run.step [OF this p_store] have "mailbox_run (?s P_Idle ?c ?b 5 3 1 [?g])" by (simp add: make_token_def)
  from mailbox_run.step [OF this c_load [of _ 7 0]] have "mailbox_run (?s P_Idle (C_Claim 7 0 5) ?b 5 3 1 [?g])"
    by (simp add: token_index_def)
  from mailbox_run.step [OF this c_claim] have "mailbox_run (?s P_Idle (C_Check 7 0 5) ?b 5 1 1 [?g])"
    by (simp add: token_index_def)
  from mailbox_run.step [OF this c_checked] have "mailbox_run (?s P_Idle (C_Copy 0 5) ?b 5 1 1 [?g])" by simp
  from mailbox_run.step [OF this c_copied] have "mailbox_run (?s P_Idle (C_Release 0 5 (Some ?g)) ?b 5 1 1 [?g])"
    by (simp add: token_index_def)
  from mailbox_run.step [OF this c_ready] obtain s where s: "mailbox_run s" "mr_published s = [?g]"
    "delivered_gaps (mr_calls s) = [?g]"
    by (simp add: finish_call_def) (auto simp: delivered_gaps_def)
  then show ?thesis using mailbox_lock_free [OF s(1)] by (auto simp: kMaximumGeneration_def)
qed

end
