(* ===== verification/Ring_Interleaving.thy ===== *)
theory Ring_Interleaving
  imports Spsc_Ring
begin

text \<open>
  The ring \<open>SpscRing\<close> of \<open>src/engine.cpp\<close>, one access at a time: the producer and the consumer each
  stand at a point of \<open>TryPush\<close> or \<open>TryPop\<close>, and either may move next.  The loads of the other
  side's counter are acquire loads and may return any value that counter has had since the last such
  load, so a side may see the other one late.  A cell is \<open>None\<close> while it is being written.
\<close>

section \<open>The two threads\<close>

datatype 'a PushAt = Push_Idle | Push_Full 'a | Push_Store 'a | Push_Storing 'a | Push_Publish 'a

datatype 'a PopAt = Pop_Idle | Pop_Empty | Pop_Load | Pop_Advance "'a option"

text \<open>
  The history: the values pushed and popped so far, and how many the other side had popped or pushed
  at the last load of its counter.
\<close>

record 'a RingRun =
  rr_ring :: "'a SpscRing"
  rr_push :: "'a PushAt"
  rr_pop :: "'a PopAt"
  rr_pushed :: "'a list"
  rr_popped :: "'a list"
  rr_seen_tail :: nat
  rr_seen_head :: nat

definition head_cell :: "'a RingRun \<Rightarrow> nat" where
  "head_cell s = unat (rg_head (rr_ring s)) AND rg_mask (rr_ring s)"

definition tail_cell :: "'a RingRun \<Rightarrow> nat" where
  "tail_cell s = unat (rg_tail (rr_ring s)) AND rg_mask (rr_ring s)"

text \<open>The test \<open>head - cached_tail_ >= capacity_\<close>.\<close>

definition looks_full :: "'a SpscRing \<Rightarrow> bool" where
  "looks_full r \<longleftrightarrow> unat (rg_head r - rg_cached_tail r) \<ge> rg_capacity r"

definition start_ring :: "'a SpscRing \<Rightarrow> 'a RingRun" where
  "start_ring r = \<lparr>rr_ring = r, rr_push = Push_Idle, rr_pop = Pop_Idle, rr_pushed = [], rr_popped = [],
     rr_seen_tail = 0, rr_seen_head = 0\<rparr>"

section \<open>Steps\<close>

inductive ring_step :: "'a RingRun \<Rightarrow> 'a RingRun \<Rightarrow> bool" where
  push_room: "rr_push s = Push_Idle \<Longrightarrow> \<not> looks_full (rr_ring s) \<Longrightarrow>
    ring_step s (s\<lparr>rr_push := Push_Store v\<rparr>)"
| push_full: "rr_push s = Push_Idle \<Longrightarrow> looks_full (rr_ring s) \<Longrightarrow>
    ring_step s (s\<lparr>rr_push := Push_Full v\<rparr>)"
| push_refresh: "rr_push s = Push_Full v \<Longrightarrow> rr_seen_tail s \<le> t \<Longrightarrow> t \<le> length (rr_popped s) \<Longrightarrow>
    r = (rr_ring s)\<lparr>rg_cached_tail := of_nat t\<rparr> \<Longrightarrow>
    ring_step s (s\<lparr>rr_ring := r, rr_seen_tail := t,
      rr_push := if looks_full r then Push_Idle else Push_Store v\<rparr>)"
| push_store: "rr_push s = Push_Store v \<Longrightarrow>
    ring_step s (s\<lparr>rr_push := Push_Storing v,
      rr_ring := (rr_ring s)\<lparr>rg_storage := (rg_storage (rr_ring s))[head_cell s := None]\<rparr>\<rparr>)"
| push_stored: "rr_push s = Push_Storing v \<Longrightarrow>
    ring_step s (s\<lparr>rr_push := Push_Publish v,
      rr_ring := (rr_ring s)\<lparr>rg_storage := (rg_storage (rr_ring s))[head_cell s := Some v]\<rparr>\<rparr>)"
| push_publish: "rr_push s = Push_Publish v \<Longrightarrow>
    ring_step s (s\<lparr>rr_push := Push_Idle, rr_pushed := rr_pushed s @ [v],
      rr_ring := (rr_ring s)\<lparr>rg_head := rg_head (rr_ring s) + 1\<rparr>\<rparr>)"
| pop_some: "rr_pop s = Pop_Idle \<Longrightarrow> rg_cached_head (rr_ring s) \<noteq> rg_tail (rr_ring s) \<Longrightarrow>
    ring_step s (s\<lparr>rr_pop := Pop_Load\<rparr>)"
| pop_empty: "rr_pop s = Pop_Idle \<Longrightarrow> rg_cached_head (rr_ring s) = rg_tail (rr_ring s) \<Longrightarrow>
    ring_step s (s\<lparr>rr_pop := Pop_Empty\<rparr>)"
| pop_refresh: "rr_pop s = Pop_Empty \<Longrightarrow> rr_seen_head s \<le> h \<Longrightarrow> h \<le> length (rr_pushed s) \<Longrightarrow>
    ring_step s (s\<lparr>rr_ring := (rr_ring s)\<lparr>rg_cached_head := of_nat h\<rparr>, rr_seen_head := h,
      rr_pop := if of_nat h = rg_tail (rr_ring s) then Pop_Idle else Pop_Load\<rparr>)"
| pop_load: "rr_pop s = Pop_Load \<Longrightarrow>
    ring_step s (s\<lparr>rr_pop := Pop_Advance (rg_storage (rr_ring s) ! tail_cell s)\<rparr>)"
| pop_advance: "rr_pop s = Pop_Advance cell \<Longrightarrow>
    ring_step s (s\<lparr>rr_pop := Pop_Idle, rr_popped := rr_popped s @ [the cell],
      rr_ring := (rr_ring s)\<lparr>rg_tail := rg_tail (rr_ring s) + 1\<rparr>\<rparr>)"

inductive ring_run :: "nat \<Rightarrow> 'a RingRun \<Rightarrow> bool" for requested :: nat where
  start: "new_ring requested = Some r \<Longrightarrow> ring_run requested (start_ring r)"
| step: "ring_run requested s \<Longrightarrow> ring_step s s' \<Longrightarrow> ring_run requested s'"

section \<open>The invariant\<close>

definition counters_ok :: "'a RingRun \<Rightarrow> bool" where
  "counters_ok s \<longleftrightarrow> (let r = rr_ring s; n = length (rr_pushed s); m = length (rr_popped s) in
     (\<exists>k \<le> 63. rg_capacity r = 2 ^ k) \<and> rg_mask r = rg_capacity r - 1 \<and> length (rg_storage r) = rg_capacity r \<and>
     rg_head r = of_nat n \<and> rg_tail r = of_nat m \<and>
     rg_cached_tail r = of_nat (rr_seen_tail s) \<and> rg_cached_head r = of_nat (rr_seen_head s) \<and>
     rr_seen_tail s \<le> m \<and> m \<le> rr_seen_head s \<and> rr_seen_head s \<le> n \<and> n \<le> rr_seen_tail s + rg_capacity r)"

definition push_ok :: "'a RingRun \<Rightarrow> bool" where
  "push_ok s \<longleftrightarrow> (let room = length (rr_pushed s) < rr_seen_tail s + rg_capacity (rr_ring s) in
     case rr_push s of Push_Idle \<Rightarrow> True | Push_Full v \<Rightarrow> True | Push_Store v \<Rightarrow> room | Push_Storing v \<Rightarrow> room
     | Push_Publish v \<Rightarrow> room \<and> rg_storage (rr_ring s) ! (length (rr_pushed s) mod rg_capacity (rr_ring s)) = Some v)"

definition pop_ok :: "'a RingRun \<Rightarrow> bool" where
  "pop_ok s \<longleftrightarrow> (let some = length (rr_popped s) < rr_seen_head s in
     case rr_pop s of Pop_Idle \<Rightarrow> True | Pop_Empty \<Rightarrow> True | Pop_Load \<Rightarrow> some
     | Pop_Advance cell \<Rightarrow> some \<and> cell = Some (rr_pushed s ! length (rr_popped s)))"

definition cells_ok :: "'a RingRun \<Rightarrow> bool" where
  "cells_ok s \<longleftrightarrow> rr_popped s = take (length (rr_popped s)) (rr_pushed s) \<and>
     (\<forall>i. length (rr_popped s) \<le> i \<longrightarrow> i < length (rr_pushed s) \<longrightarrow>
        rg_storage (rr_ring s) ! (i mod rg_capacity (rr_ring s)) = Some (rr_pushed s ! i))"

definition ring_inv :: "'a RingRun \<Rightarrow> bool" where
  "ring_inv s \<longleftrightarrow> counters_ok s \<and> push_ok s \<and> pop_ok s \<and> cells_ok s"

section \<open>Counters\<close>

lemma counter_cell:
  assumes "k \<le> 63"
  shows "unat (of_nat n :: u64) AND (2 ^ k - 1) = n mod 2 ^ k"
proof -
  have "(2 :: nat) ^ k dvd 2 ^ 64" using assms by (intro le_imp_power_dvd) simp
  moreover have "unat (of_nat n :: u64) = n mod 2 ^ 64" by (simp add: unat_of_nat take_bit_eq_mod)
  ultimately show ?thesis unfolding nat_and_mask by (simp only: mod_mod_cancel)
qed

lemma counter_diff:
  assumes "m \<le> n" and "n - m < 2 ^ 64"
  shows "unat (of_nat n - of_nat m :: u64) = n - m"
proof -
  have "of_nat n - of_nat m = (of_nat (n - m) :: u64)" using assms(1) by (simp add: of_nat_diff)
  then show ?thesis using assms(2) by (simp add: unat_of_nat take_bit_nat_eq_self)
qed

lemma cells_differ:
  assumes "i < n" and "n < i + c"
  shows "i mod c \<noteq> n mod (c :: nat)"
proof
  assume "i mod c = n mod c"
  then have "c dvd n - i" using assms(1) mod_eq_dvd_iff_nat [of i n c] by simp
  then show False using assms by (auto dest!: dvd_imp_le)
qed

text \<open>What the words say about the numbers of values pushed and popped.\<close>

lemma counters:
  assumes "counters_ok s"
  defines "r \<equiv> rr_ring s" and "n \<equiv> length (rr_pushed s)" and "m \<equiv> length (rr_popped s)"
  shows "0 < rg_capacity r" and "length (rg_storage r) = rg_capacity r"
    and "head_cell s = n mod rg_capacity r" and "tail_cell s = m mod rg_capacity r"
    and "t \<le> n \<Longrightarrow> n \<le> t + rg_capacity r \<Longrightarrow>
      looks_full (r\<lparr>rg_cached_tail := of_nat t\<rparr>) \<longleftrightarrow> t + rg_capacity r \<le> n"
    and "m \<le> h \<Longrightarrow> h \<le> n \<Longrightarrow> of_nat h = rg_tail r \<longleftrightarrow> h = m"
    and "looks_full r \<longleftrightarrow> rr_seen_tail s + rg_capacity r \<le> n"
    and "rg_cached_head r = rg_tail r \<longleftrightarrow> rr_seen_head s = m"
proof -
  obtain k where k: "k \<le> 63" "rg_capacity r = 2 ^ k" using assms by (auto simp: counters_ok_def Let_def)
  have c: "rg_head r = of_nat n" "rg_tail r = of_nat m" "rg_mask r = 2 ^ k - 1" "rg_cached_tail r = of_nat (rr_seen_tail s)"
    "rg_cached_head r = of_nat (rr_seen_head s)" "rr_seen_tail s \<le> m" "m \<le> rr_seen_head s" "rr_seen_head s \<le> n"
    "n \<le> rr_seen_tail s + rg_capacity r"
    using assms(1) k(2) by (simp_all add: counters_ok_def Let_def r_def n_def m_def)
  have "rg_capacity r \<le> 2 ^ 63" unfolding k(2) using k(1) by (rule power_increasing) simp
  then have small: "a - b < 2 ^ 64" if "a \<le> b + rg_capacity r" for a b :: nat using that by simp
  show "0 < rg_capacity r" by (simp add: k)
  show "length (rg_storage r) = rg_capacity r" using assms(1) by (simp add: counters_ok_def Let_def r_def)
  show "head_cell s = n mod rg_capacity r" "tail_cell s = m mod rg_capacity r"
    using c counter_cell [OF k(1)] by (simp_all add: head_cell_def tail_cell_def k(2) flip: r_def)
  show full: "looks_full (r\<lparr>rg_cached_tail := of_nat t\<rparr>) \<longleftrightarrow> t + rg_capacity r \<le> n"
    if "t \<le> n" "n \<le> t + rg_capacity r" for t
    using counter_diff [OF that(1) small [OF that(2)]] that by (auto simp: looks_full_def c(1))
  show same: "of_nat h = rg_tail r \<longleftrightarrow> h = m" if "m \<le> h" "h \<le> n" for h
  proof -
    have "unat (of_nat h - of_nat m :: u64) = h - m" using that c(6,9) by (intro counter_diff small) simp_all
    then show ?thesis using that by (auto simp: c(2))
  qed
  have "rr_seen_tail s \<le> n" using c by simp
  from full [OF this c(9)] show "looks_full r \<longleftrightarrow> rr_seen_tail s + rg_capacity r \<le> n"
    by (simp add: looks_full_def c(4))
  show "rg_cached_head r = rg_tail r \<longleftrightarrow> rr_seen_head s = m" using same [of "rr_seen_head s"] c by simp
qed

section \<open>Every step keeps it\<close>

lemma start_ok:
  assumes "new_ring requested = Some r"
  shows "ring_inv (start_ring r)"
proof -
  obtain c where c: "CheckedRingCapacity requested = Some c" and r: "r = \<lparr>rg_capacity = c, rg_storage = replicate c None,
      rg_mask = c - 1, rg_head = 0, rg_cached_tail = 0, rg_tail = 0, rg_cached_head = 0\<rparr>"
    using assms by (auto simp: new_ring_def)
  show ?thesis
    using CheckedRingCapacity_Some(1) [OF c]
    by (simp add: ring_inv_def counters_ok_def push_ok_def pop_ok_def cells_ok_def start_ring_def r)
qed

text \<open>A write into the cell of the producer's counter touches no cell that holds a value.\<close>

lemma store_quiet:
  assumes inv: "ring_inv s" and room: "length (rr_pushed s) < rr_seen_tail s + rg_capacity (rr_ring s)"
    and s': "s' = s\<lparr>rr_push := p, rr_ring := (rr_ring s)\<lparr>rg_storage := (rg_storage (rr_ring s))[head_cell s := x]\<rparr>\<rparr>"
    and p: "push_ok s'"
  shows "ring_inv s'"
proof -
  have c: "counters_ok s" using inv by (simp add: ring_inv_def)
  then have "rr_seen_tail s \<le> length (rr_popped s)" by (simp add: counters_ok_def Let_def)
  then have cell: "head_cell s \<noteq> i mod rg_capacity (rr_ring s)"
    if "length (rr_popped s) \<le> i" "i < length (rr_pushed s)" for i
    unfolding counters(3) [OF c] using that room by (intro cells_differ [symmetric]) simp_all
  have "cells_ok s'" using inv cell by (auto simp: ring_inv_def cells_ok_def s')
  moreover have "counters_ok s'" using c by (simp add: counters_ok_def Let_def s')
  moreover have "pop_ok s'" using inv by (simp add: ring_inv_def pop_ok_def s' Let_def split: PopAt.splits)
  ultimately show ?thesis using p by (simp add: ring_inv_def)
qed

lemma ring_inv_step:
  assumes "ring_step s s'" and inv: "ring_inv s"
  shows "ring_inv s'"
proof -
  have c: "counters_ok s" and po: "push_ok s" and pp: "pop_ok s" and ce: "cells_ok s" using inv by (simp_all add: ring_inv_def)
  note C = counters [OF c]
  let ?n = "length (rr_pushed s)" and ?m = "length (rr_popped s)" and ?cap = "rg_capacity (rr_ring s)"
  have seen: "rr_seen_tail s \<le> ?m" "?m \<le> rr_seen_head s" "rr_seen_head s \<le> ?n" "?n \<le> rr_seen_tail s + ?cap"
    using c by (simp_all add: counters_ok_def Let_def)
  from assms(1) show ?thesis
  proof cases
    case (push_room v)
    then show ?thesis using inv C(7)
      by (auto simp: ring_inv_def counters_ok_def push_ok_def pop_ok_def cells_ok_def Let_def not_le split: PopAt.splits)
  next
    case (push_full v)
    then show ?thesis using inv by (auto simp: ring_inv_def counters_ok_def push_ok_def pop_ok_def cells_ok_def Let_def split: PushAt.splits PopAt.splits)
  next
    case (push_refresh v t r)
    have "looks_full r \<longleftrightarrow> t + ?cap \<le> ?n" unfolding push_refresh using push_refresh seen by (intro C(5)) simp_all
    then show ?thesis using inv push_refresh seen
      by (auto simp: ring_inv_def counters_ok_def push_ok_def pop_ok_def cells_ok_def Let_def split: PushAt.splits PopAt.splits)
  next
    case (push_store v)
    have room: "?n < rr_seen_tail s + ?cap" using po push_store by (simp add: push_ok_def)
    show ?thesis by (rule store_quiet [OF inv room push_store(1)]) (use room push_store in \<open>simp add: push_ok_def\<close>)
  next
    case (push_stored v)
    have room: "?n < rr_seen_tail s + ?cap" using po push_stored by (simp add: push_ok_def)
    have cell: "head_cell s < length (rg_storage (rr_ring s))" using C(1-3) by simp
    show ?thesis by (rule store_quiet [OF inv room push_stored(1)])
      (use room push_stored cell C(3) in \<open>simp add: push_ok_def\<close>)
  next
    case (push_publish v)
    have room: "?n < rr_seen_tail s + ?cap" and v: "rg_storage (rr_ring s) ! (?n mod ?cap) = Some v"
      using po push_publish by (simp_all add: push_ok_def)
    have "counters_ok s'" using c room push_publish by (auto simp: counters_ok_def Let_def)
    moreover have "cells_ok s'" using ce v push_publish seen by (auto simp: cells_ok_def nth_append less_Suc_eq)
    moreover have "pop_ok s'" using pp push_publish seen by (auto simp: pop_ok_def nth_append split: PopAt.splits)
    ultimately show ?thesis using push_publish by (simp add: ring_inv_def push_ok_def)
  next
    case pop_some
    then show ?thesis using inv C(8) seen
      by (auto simp: ring_inv_def counters_ok_def push_ok_def pop_ok_def cells_ok_def Let_def split: PushAt.splits PopAt.splits)
  next
    case pop_empty
    then show ?thesis using inv by (auto simp: ring_inv_def counters_ok_def push_ok_def pop_ok_def cells_ok_def Let_def split: PushAt.splits PopAt.splits)
  next
    case (pop_refresh h)
    have "of_nat h = rg_tail (rr_ring s) \<longleftrightarrow> h = ?m" using pop_refresh seen by (intro C(6)) simp_all
    then show ?thesis using inv pop_refresh seen
      by (auto simp: ring_inv_def counters_ok_def push_ok_def pop_ok_def cells_ok_def Let_def split: PushAt.splits)
  next
    case pop_load
    then show ?thesis using inv seen C(4)
      by (auto simp: ring_inv_def counters_ok_def push_ok_def pop_ok_def cells_ok_def Let_def split: PushAt.splits PopAt.splits)
  next
    case (pop_advance cell)
    have "?m < rr_seen_head s" "cell = Some (rr_pushed s ! ?m)" using pp pop_advance by (simp_all add: pop_ok_def)
    then show ?thesis using inv pop_advance seen
      by (auto simp: ring_inv_def counters_ok_def push_ok_def pop_ok_def cells_ok_def Let_def take_Suc_conv_app_nth
          split: PushAt.splits)
  qed
qed

lemma ring_run_inv: "ring_run requested s \<Longrightarrow> ring_inv s"
  by (induction rule: ring_run.induct) (auto intro: start_ok ring_inv_step)

section \<open>What the ring guarantees\<close>

text \<open>
  C7. The ring is a bounded queue under every interleaving of its two sides, however late they see
  each other's counters and however often these wrap.  The producer never writes the cell that the
  consumer is reading; what has been popped is what was pushed, intact, in order and without loss or
  repetition; no more values wait than the ring has cells; and the value a pop is about to return is
  the oldest one waiting.
\<close>

theorem ring_lock_free:
  assumes "ring_run requested s"
  shows "(\<forall>v. rr_push s = Push_Storing v \<longrightarrow> rr_pop s = Pop_Load \<longrightarrow> head_cell s \<noteq> tail_cell s) \<and>
    rr_popped s = take (length (rr_popped s)) (rr_pushed s) \<and>
    length (rr_popped s) \<le> length (rr_pushed s) \<and>
    length (rr_pushed s) - length (rr_popped s) \<le> rg_capacity (rr_ring s) \<and>
    (\<forall>cell. rr_pop s = Pop_Advance cell \<longrightarrow> cell = Some (rr_pushed s ! length (rr_popped s)))"
proof -
  have inv: "ring_inv s" by (rule ring_run_inv [OF assms])
  then have c: "counters_ok s" by (simp add: ring_inv_def)
  have seen: "rr_seen_tail s \<le> length (rr_popped s)" "length (rr_popped s) \<le> rr_seen_head s"
    "rr_seen_head s \<le> length (rr_pushed s)" "length (rr_pushed s) \<le> rr_seen_tail s + rg_capacity (rr_ring s)"
    using c by (simp_all add: counters_ok_def Let_def)
  have "head_cell s \<noteq> tail_cell s" if "rr_push s = Push_Storing v" "rr_pop s = Pop_Load" for v
  proof -
    have "length (rr_pushed s) < rr_seen_tail s + rg_capacity (rr_ring s)" "length (rr_popped s) < rr_seen_head s"
      using inv that by (simp_all add: ring_inv_def push_ok_def pop_ok_def)
    then show ?thesis
      unfolding counters(3,4) [OF c] using seen
      by (intro cells_differ [symmetric]) linarith+
  qed
  moreover have "cell = Some (rr_pushed s ! length (rr_popped s))" if "rr_pop s = Pop_Advance cell" for cell
    using inv that by (simp add: ring_inv_def pop_ok_def)
  ultimately show ?thesis using inv seen by (auto simp: ring_inv_def cells_ok_def)
qed

theorem ring_lock_free_witness:
  "\<exists>s :: nat RingRun. ring_run 1 s \<and> rr_pushed s = [7] \<and> rr_popped s = [7] \<and> rr_push s = Push_Full 8 \<and>
    length (rr_pushed s) - length (rr_popped s) \<le> rg_capacity (rr_ring s)"
proof -
  let ?r = "\<lambda>cell head cached_head tail. \<lparr>rg_capacity = 1, rg_storage = [cell], rg_mask = 0, rg_head = head,
     rg_cached_tail = 0, rg_tail = tail, rg_cached_head = cached_head\<rparr> :: nat SpscRing"
  let ?s = "\<lambda>r push pop pushed popped h. \<lparr>rr_ring = r, rr_push = push, rr_pop = pop, rr_pushed = pushed,
     rr_popped = popped, rr_seen_tail = 0, rr_seen_head = h\<rparr> :: nat RingRun"
  have "new_ring 1 = Some (?r None 0 0 0)"
    by (simp add: new_ring_def CheckedRingCapacity_def RoundUpPowerOfTwo_def round_up_loop.simps SIZE_MAX_def)
  from ring_run.start [OF this] have "ring_run 1 (?s (?r None 0 0 0) Push_Idle Pop_Idle [] [] 0)"
    by (simp add: start_ring_def)
  from ring_run.step [OF this push_room [of _ 7]] have "ring_run 1 (?s (?r None 0 0 0) (Push_Store 7) Pop_Idle [] [] 0)"
    by (simp add: looks_full_def)
  from ring_run.step [OF this push_store] have "ring_run 1 (?s (?r None 0 0 0) (Push_Storing 7) Pop_Idle [] [] 0)"
    by (simp add: head_cell_def)
  from ring_run.step [OF this push_stored] have "ring_run 1 (?s (?r (Some 7) 0 0 0) (Push_Publish 7) Pop_Idle [] [] 0)"
    by (simp add: head_cell_def)
  from ring_run.step [OF this push_publish] have "ring_run 1 (?s (?r (Some 7) 1 0 0) Push_Idle Pop_Idle [7] [] 0)" by simp
  from ring_run.step [OF this push_full [of _ 8]] have "ring_run 1 (?s (?r (Some 7) 1 0 0) (Push_Full 8) Pop_Idle [7] [] 0)"
    by (simp add: looks_full_def)
  from ring_run.step [OF this pop_empty] have "ring_run 1 (?s (?r (Some 7) 1 0 0) (Push_Full 8) Pop_Empty [7] [] 0)" by simp
  from ring_run.step [OF this pop_refresh [of _ 1]] have "ring_run 1 (?s (?r (Some 7) 1 1 0) (Push_Full 8) Pop_Load [7] [] 1)"
    by simp
  from ring_run.step [OF this pop_load] have "ring_run 1 (?s (?r (Some 7) 1 1 0) (Push_Full 8) (Pop_Advance (Some 7)) [7] [] 1)"
    by (simp add: tail_cell_def)
  from ring_run.step [OF this pop_advance] have "ring_run 1 (?s (?r (Some 7) 1 1 1) (Push_Full 8) Pop_Idle [7] [7] 1)" by simp
  from ring_lock_free [OF this] this show ?thesis by fastforce
qed

end
