(* ===== verification/Text_Input.thy ===== *)
theory Text_Input
  imports Prelude
begin

text \<open>
  The standard-library text routines the configuration readers use: \<open>std::getline\<close> on an
  open stream, the removal of a trailing carriage return, and \<open>std::from_chars\<close> on integers.
  A stream is its remaining characters; read errors of the operating system are not modelled.
\<close>

section \<open>Lines\<close>

definition LF :: char where
  "LF = CHR 0x0A"

definition CR :: char where
  "CR = CHR 0x0D"

text \<open>
  \<open>std::getline\<close>: fails when no character is left; otherwise extracts up to and including
  the next line feed, which is not part of the line.
\<close>

definition getline :: "string \<Rightarrow> (string \<times> string) option" where
  "getline s = (if s = [] then None
     else let line = takeWhile (\<lambda>c. c \<noteq> LF) s in Some (line, drop (Suc (length line)) s))"

text \<open>The lines a \<open>while (std::getline(stream, line))\<close> loop visits.\<close>

function text_lines :: "string \<Rightarrow> string list" where
  "text_lines s = (case getline s of None \<Rightarrow> [] | Some (line, rest) \<Rightarrow> line # text_lines rest)"
  by pat_completeness auto
termination
  by (relation "measure length") (auto simp: getline_def Let_def split: if_splits)

declare text_lines.simps [simp del]

definition strip_cr :: "string \<Rightarrow> string" where
  "strip_cr line = (if line \<noteq> [] \<and> last line = CR then butlast line else line)"

text \<open>The text of a list of lines, each ended by a line feed.\<close>

definition unlines :: "string list \<Rightarrow> string" where
  "unlines ls = concat (map (\<lambda>l. l @ [LF]) ls)"

lemma text_lines_Nil [simp]: "text_lines [] = []"
  by (simp add: text_lines.simps getline_def)

lemma text_lines_line:
  assumes "LF \<notin> set line"
  shows "text_lines (line @ LF # rest) = line # text_lines rest"
proof -
  have "takeWhile (\<lambda>c. c \<noteq> LF) (line @ LF # rest) = line"
    using assms by (induction line) auto
  then show ?thesis by (subst text_lines.simps) (simp add: getline_def Let_def)
qed

lemma text_lines_unlines:
  assumes "\<forall>l \<in> set ls. LF \<notin> set l"
  shows "text_lines (unlines ls) = ls"
  using assms by (induction ls) (auto simp: unlines_def text_lines_line)

section \<open>Integers\<close>

definition is_digit :: "char \<Rightarrow> bool" where
  "is_digit c \<longleftrightarrow> 48 \<le> (of_char c :: nat) \<and> (of_char c :: nat) \<le> 57"

definition digit_value :: "char \<Rightarrow> nat" where
  "digit_value c = of_char c - 48"

fun digits_value :: "nat \<Rightarrow> string \<Rightarrow> nat" where
  "digits_value acc [] = acc"
| "digits_value acc (c # cs) = digits_value (10 * acc + digit_value c) cs"

datatype errc = invalid_argument | result_out_of_range

text \<open>
  \<open>std::from_chars\<close> in base ten for an unsigned type with maximum \<open>limit\<close>: the longest run
  of digits is converted, the rest of the text is returned; no sign and no white space.
\<close>

definition from_chars_unsigned :: "nat \<Rightarrow> string \<Rightarrow> errc + (nat \<times> string)" where
  "from_chars_unsigned limit s =
    (let ds = takeWhile is_digit s; rest = dropWhile is_digit s in
     if ds = [] then Inl invalid_argument
     else if digits_value 0 ds > limit then Inl result_out_of_range
     else Inr (digits_value 0 ds, rest))"

text \<open>The same for \<open>int\<close>: a leading minus sign is accepted.\<close>

definition from_chars_int :: "string \<Rightarrow> errc + (int \<times> string)" where
  "from_chars_int s =
    (let negative = (s \<noteq> [] \<and> hd s = CHR ''-'');
         body = (if negative then tl s else s);
         ds = takeWhile is_digit body; rest = dropWhile is_digit body;
         magnitude = int (digits_value 0 ds) in
     if ds = [] then Inl invalid_argument
     else if negative then
       (if - magnitude < I32_MIN then Inl result_out_of_range else Inr (- magnitude, rest))
     else if magnitude > - I32_MIN - 1 then Inl result_out_of_range
     else Inr (magnitude, rest))"

section \<open>Decimal numerals\<close>

definition digit_char :: "nat \<Rightarrow> char" where
  "digit_char d = char_of (48 + d)"

function decimal :: "nat \<Rightarrow> string" where
  "decimal n = (if n < 10 then [digit_char n] else decimal (n div 10) @ [digit_char (n mod 10)])"
  by pat_completeness auto
termination
  by (relation "measure id") auto

declare decimal.simps [simp del]

lemma of_char_digit [simp]: "d < 10 \<Longrightarrow> (of_char (digit_char d) :: nat) = 48 + d"
  by (simp add: digit_char_def)

lemma digit_char_simps [simp]:
  "d < 10 \<Longrightarrow> is_digit (digit_char d)"
  "d < 10 \<Longrightarrow> digit_value (digit_char d) = d"
  by (simp_all add: is_digit_def digit_value_def)

lemma decimal_digits: "list_all is_digit (decimal n)"
proof (induction n rule: decimal.induct)
  case (1 n)
  then show ?case by (subst decimal.simps) auto
qed

lemma decimal_nonempty [simp]: "decimal n \<noteq> []"
  by (subst decimal.simps) simp

lemma digits_value_append:
  "digits_value acc (xs @ ys) = digits_value (digits_value acc xs) ys"
  by (induction xs arbitrary: acc) auto

lemma digits_value_decimal [simp]: "digits_value 0 (decimal n) = n"
proof (induction n rule: decimal.induct)
  case (1 n)
  then show ?case by (subst decimal.simps) (auto simp: digits_value_append)
qed

lemma takeWhile_all: "list_all P xs \<Longrightarrow> (ys = [] \<or> \<not> P (hd ys)) \<Longrightarrow>
    takeWhile P (xs @ ys) = xs \<and> dropWhile P (xs @ ys) = ys"
  by (induction xs; cases ys) auto

lemma from_chars_decimal:
  assumes "n \<le> limit" and "rest = [] \<or> \<not> is_digit (hd rest)"
  shows "from_chars_unsigned limit (decimal n @ rest) = Inr (n, rest)"
  using assms takeWhile_all [OF decimal_digits assms(2)] by (simp add: from_chars_unsigned_def)

lemma from_chars_unsigned_bound:
  "from_chars_unsigned limit s = Inr (n, rest) \<Longrightarrow> n \<le> limit"
  by (auto simp: from_chars_unsigned_def Let_def split: if_splits)

lemma from_chars_int_bound:
  "from_chars_int s = Inr (n, rest) \<Longrightarrow> I32_MIN \<le> n \<and> n \<le> - I32_MIN - 1"
  by (auto simp: from_chars_int_def Let_def I32_MIN_def split: if_splits)

end
