(* ===== verification/Stream_Config.thy ===== *)
theory Stream_Config
  imports Text_Input Message
begin

text \<open>
  Component \<open>src/stream_config.cpp\<close>: the list of subscribed message tuples.  The file is the
  text of the stream configuration (\<open>None\<close> when it cannot be opened); the result is the error
  string or the stream mask.
\<close>

section \<open>The code\<close>

definition find_first_not_of :: "char set \<Rightarrow> string \<Rightarrow> nat option" where
  "find_first_not_of ws s = (let n = length (takeWhile (\<lambda>c. c \<in> ws) s) in
     if n = length s then None else Some n)"

definition find_last_not_of :: "char set \<Rightarrow> string \<Rightarrow> nat option" where
  "find_last_not_of ws s = (let n = length (takeWhile (\<lambda>c. c \<in> ws) (rev s)) in
     if n = length s then None else Some (length s - n - 1))"

definition Trim :: "string \<Rightarrow> string" where
  "Trim text = (let whitespace = {CHR '' '', CHR 0x09} in
     case find_first_not_of whitespace text of None \<Rightarrow> []
     | Some begin_pos \<Rightarrow>
         (case find_last_not_of whitespace text of None \<Rightarrow> []
          | Some end_pos \<Rightarrow> take (end_pos - begin_pos + 1) (drop begin_pos text)))"

definition ParseUnsigned :: "string \<Rightarrow> 'a::len word option" where
  "ParseUnsigned text = (if text = [] then None
     else case from_chars_unsigned U32_MAX text of Inl ec \<Rightarrow> None
     | Inr (parsed, rest) \<Rightarrow>
         if rest \<noteq> [] \<or> parsed > 2 ^ LENGTH('a) - 1 then None else Some (of_nat parsed))"

definition find_char :: "char \<Rightarrow> string \<Rightarrow> nat \<Rightarrow> nat option" where
  "find_char c s from = (let n = length (takeWhile (\<lambda>d. d \<noteq> c) (drop from s)) in
     if from + n < length s then Some (from + n) else None)"

definition ParseTuple :: "string \<Rightarrow> MessageKey option" where
  "ParseTuple line = (case find_char (CHR ''.'') line 0 of None \<Rightarrow> None
   | Some first_dot \<Rightarrow>
     (case find_char (CHR ''.'') line (first_dot + 1) of None \<Rightarrow> None
      | Some second_dot \<Rightarrow>
        if find_char (CHR ''.'') line (second_dot + 1) \<noteq> None then None
        else (case ParseUnsigned (take first_dot line) of None \<Rightarrow> None
        | Some service \<Rightarrow>
          (case ParseUnsigned (take (second_dot - first_dot - 1) (drop (first_dot + 1) line)) of
             None \<Rightarrow> None
           | Some version \<Rightarrow>
             (case ParseUnsigned (drop (second_dot + 1) line) of None \<Rightarrow> None
              | Some message \<Rightarrow> Some (mk_key service version message))))))"

text \<open>The reading loop over the remaining lines.\<close>

fun stream_config_loop :: "string list \<Rightarrow> nat \<Rightarrow> StreamMask \<Rightarrow> string + StreamMask" where
  "stream_config_loop [] line_number streams =
     (if streams = 0 then Inl ''stream config selects no data streams'' else Inr streams)"
| "stream_config_loop (raw_line # raw_lines) line_number streams =
     (let line_number = line_number + 1; line = Trim (strip_cr raw_line) in
      if line = [] \<or> hd line = CHR ''#'' then stream_config_loop raw_lines line_number streams
      else case ParseTuple line of
        None \<Rightarrow> Inl (''invalid stream tuple at line '' @ decimal line_number)
      | Some key \<Rightarrow>
          let b = StreamBit key in
          if b = 0 then
            Inl (''stream tuple has no decoder in this build at line '' @ decimal line_number)
          else if streams AND b \<noteq> 0 then
            Inl (''duplicate stream tuple at line '' @ decimal line_number)
          else stream_config_loop raw_lines line_number (streams OR b))"

definition LoadStreamConfig :: "string \<Rightarrow> string option \<Rightarrow> string + StreamMask" where
  "LoadStreamConfig path file = (case file of
     None \<Rightarrow> Inl (''cannot open stream config: '' @ path)
   | Some text \<Rightarrow> stream_config_loop (text_lines text) 0 0)"

section \<open>Parsing a printed tuple\<close>

definition show_key :: "MessageKey \<Rightarrow> string" where
  "show_key key = decimal (unat (service_id key)) @ ''.'' @ decimal (unat (service_version key))
     @ ''.'' @ decimal (unat (message_id key))"

lemma dot_not_digit: "\<not> is_digit (CHR ''.'')"
  by (simp add: is_digit_def)

lemma no_dot_decimal: "CHR ''.'' \<notin> set (decimal n)"
  using decimal_digits [of n] dot_not_digit by (auto simp: list_all_iff)

lemma takeWhile_until:
  assumes "c \<notin> set xs"
  shows "takeWhile (\<lambda>d. d \<noteq> c) (xs @ c # ys) = xs" "takeWhile (\<lambda>d. d \<noteq> c) xs = xs"
  using assms by (induction xs) auto

lemma find_char_at:
  assumes "c \<notin> set xs" and "from = length pre"
  shows "find_char c (pre @ xs @ c # ys) from = Some (length pre + length xs)"
    and "find_char c (pre @ xs) from = None"
  using assms by (simp_all add: find_char_def takeWhile_until)

lemma ParseUnsigned_decimal:
  assumes "LENGTH('a::len) \<le> 32"
  shows "ParseUnsigned (decimal (unat (w :: 'a word))) = Some w"
proof -
  have lt: "unat w < 2 ^ LENGTH('a)" by (rule unsigned_less)
  also have "(2 :: nat) ^ LENGTH('a) \<le> 2 ^ 32" using assms by (intro power_increasing) auto
  finally have "unat w \<le> U32_MAX" by (simp add: U32_MAX_def)
  then have "from_chars_unsigned U32_MAX (decimal (unat w) @ []) = Inr (unat w, [])"
    by (intro from_chars_decimal) auto
  moreover have "unat w \<le> 2 ^ LENGTH('a) - 1" using lt by linarith
  ultimately show ?thesis by (simp add: ParseUnsigned_def)
qed

lemma ParseTuple_show_key: "ParseTuple (show_key key) = Some key"
proof -
  let ?a = "decimal (unat (service_id key))" and ?b = "decimal (unat (service_version key))"
    and ?c = "decimal (unat (message_id key))" and ?dot = "CHR ''.''"
  let ?s = "?a @ ?dot # ?b @ ?dot # ?c"
  have s: "show_key key = ?s" by (simp add: show_key_def)
  have 1: "find_char ?dot ?s 0 = Some (length ?a)"
    using find_char_at(1) [of ?dot ?a 0 "[]"] by (simp add: no_dot_decimal)
  have 2: "find_char ?dot ?s (length ?a + 1) = Some (length ?a + 1 + length ?b)"
    using find_char_at(1) [of ?dot ?b "length ?a + 1" "?a @ [?dot]"] by (simp add: no_dot_decimal)
  have 3: "find_char ?dot ?s (length ?a + 1 + length ?b + 1) = None"
    using find_char_at(2) [of ?dot ?c "length ?a + 1 + length ?b + 1" "?a @ ?dot # ?b @ [?dot]"]
    by (simp add: no_dot_decimal)
  have "ParseTuple ?s = Some (mk_key (service_id key) (service_version key) (message_id key))"
    unfolding ParseTuple_def 1 option.case 2 3
    by (simp add: ParseUnsigned_decimal)
  then show ?thesis by (simp add: s mk_key_def)
qed

lemma show_key_chars: "c \<in> set (show_key key) \<Longrightarrow> is_digit c \<or> c = CHR ''.''"
  using decimal_digits by (auto simp: show_key_def list_all_iff)

lemma Trim_id:
  assumes "s \<noteq> []" and "hd s \<notin> {CHR '' '', CHR 0x09}" and "last s \<notin> {CHR '' '', CHR 0x09}"
  shows "Trim s = s"
proof -
  have a: "takeWhile (\<lambda>c. c \<in> {CHR '' '', CHR 0x09}) s = []"
    using assms by (cases s) auto
  have b: "takeWhile (\<lambda>c. c \<in> {CHR '' '', CHR 0x09}) (rev s) = []"
    using assms by (cases s rule: rev_cases) auto
  have "length s - 1 + 1 = length s" using assms(1) by (cases s) auto
  then show ?thesis using assms(1)
    by (simp add: Trim_def find_first_not_of_def find_last_not_of_def a [simplified] b [simplified] Let_def)
qed

lemma show_key_line:
  shows "show_key key \<noteq> []" "Trim (strip_cr (show_key key)) = show_key key"
    "hd (show_key key) \<noteq> CHR ''#''" "LF \<notin> set (show_key key)"
proof -
  show ne: "show_key key \<noteq> []" by (simp add: show_key_def)
  have ok: "\<not> (is_digit c \<or> c = CHR ''.'')"
    if "c \<in> {CHR '' '', CHR 0x09, CR, LF, CHR ''#''}" for c
    using that by (auto simp: is_digit_def CR_def LF_def)
  have nin: "c \<notin> set (show_key key)" if "c \<in> {CHR '' '', CHR 0x09, CR, LF, CHR ''#''}" for c
    using ok [OF that] show_key_chars by blast
  have hd: "hd (show_key key) \<in> set (show_key key)" and last: "last (show_key key) \<in> set (show_key key)"
    using ne by simp_all
  have ne_in: "x \<noteq> c" if "x \<in> set (show_key key)"
    "c \<in> {CHR '' '', CHR 0x09, CR, LF, CHR ''#''}" for x c
    using that(1) nin [OF that(2)] by metis
  show "hd (show_key key) \<noteq> CHR ''#''" by (rule ne_in [OF hd]) simp
  show "LF \<notin> set (show_key key)" by (rule nin) simp
  have "last (show_key key) \<noteq> CR" by (rule ne_in [OF last]) simp
  then have "strip_cr (show_key key) = show_key key" by (simp add: strip_cr_def)
  moreover have "Trim (show_key key) = show_key key"
  proof (rule Trim_id [OF ne])
    have "hd (show_key key) \<noteq> CHR '' ''" "hd (show_key key) \<noteq> CHR 0x09"
      by (rule ne_in [OF hd]; simp)+
    then show "hd (show_key key) \<notin> {CHR '' '', CHR 0x09}" by simp
    have "last (show_key key) \<noteq> CHR '' ''" "last (show_key key) \<noteq> CHR 0x09"
      by (rule ne_in [OF last]; simp)+
    then show "last (show_key key) \<notin> {CHR '' '', CHR 0x09}" by simp
  qed
  ultimately show "Trim (strip_cr (show_key key)) = show_key key" by simp
qed


section \<open>Which configurations are accepted\<close>

definition content_lines :: "string list \<Rightarrow> string list" where
  "content_lines ls = filter (\<lambda>l. l \<noteq> [] \<and> hd l \<noteq> CHR ''#'') (map (Trim \<circ> strip_cr) ls)"

fun stream_bits :: "MessageKey list \<Rightarrow> StreamMask" where
  "stream_bits [] = 0"
| "stream_bits (k # ks) = StreamBit k OR stream_bits ks"

definition config_keys :: "string list \<Rightarrow> MessageKey list \<Rightarrow> bool" where
  "config_keys ls ks \<longleftrightarrow> map ParseTuple (content_lines ls) = map Some ks \<and>
     set ks \<subseteq> set kSupportedMessageKeys \<and> distinct ks"

lemma or_and_zero:
  fixes a b c :: u32
  shows "(a OR b) AND c = 0 \<longleftrightarrow> a AND c = 0 \<and> b AND c = 0"
  by (simp add: bit.conj_disj_distrib2 or_eq_0_iff)

lemma StreamBit_zero_iff: "StreamBit k = 0 \<longleftrightarrow> k \<notin> set kSupportedMessageKeys"
  using StreamBit_supported by blast

lemma stream_config_loop_iff:
  "stream_config_loop ls n streams = Inr m \<longleftrightarrow>
     (\<exists>ks. config_keys ls ks \<and> (\<forall>k \<in> set ks. streams AND StreamBit k = 0) \<and>
       m = streams OR stream_bits ks \<and> m \<noteq> 0)"
proof (induction ls arbitrary: n streams)
  case Nil
  show ?case by (auto simp: config_keys_def content_lines_def)
next
  case (Cons l ls)
  let ?l = "Trim (strip_cr l)"
  show ?case
  proof (cases "?l = [] \<or> hd ?l = CHR ''#''")
    case True
    then have "content_lines (l # ls) = content_lines ls" by (auto simp: content_lines_def)
    then show ?thesis using True Cons.IH [of "n + 1" streams]
      by (simp add: config_keys_def Let_def)
  next
    case False
    then have cl: "content_lines (l # ls) = ?l # content_lines ls" by (auto simp: content_lines_def)
    have ks: "config_keys (l # ls) ks \<longleftrightarrow> (\<exists>k ks'. ks = k # ks' \<and> ParseTuple ?l = Some k \<and>
        k \<in> set kSupportedMessageKeys \<and> k \<notin> set ks' \<and> config_keys ls ks')" for ks
      by (cases ks) (auto simp: config_keys_def cl)
    show ?thesis
    proof (cases "ParseTuple ?l")
      case None
      then show ?thesis using False by (auto simp: ks)
    next
      case (Some k)
      show ?thesis
      proof (cases "k \<in> set kSupportedMessageKeys \<and> streams AND StreamBit k = 0")
        case False
        then show ?thesis using \<open>\<not> (?l = [] \<or> hd ?l = CHR ''#'')\<close> Some
          by (auto simp: ks Let_def StreamBit_zero_iff)
      next
        case True
        have dis: "(\<forall>j \<in> set ks'. (streams OR StreamBit k) AND StreamBit j = 0)
            \<longleftrightarrow> k \<notin> set ks' \<and> (\<forall>j \<in> set ks'. streams AND StreamBit j = 0)"
          if "set ks' \<subseteq> set kSupportedMessageKeys" for ks'
        proof -
          have "StreamBit k AND StreamBit j = 0 \<longleftrightarrow> k \<noteq> j" for j
            using True StreamBit_disjoint [of k j] StreamBit_zero_iff [of k] by (cases "k = j") auto
          then show ?thesis by (auto simp: or_and_zero)
        qed
        have "stream_config_loop (l # ls) n streams = stream_config_loop ls (n + 1) (streams OR StreamBit k)"
          using False Some True by (auto simp: Let_def StreamBit_zero_iff)
        then have step: "stream_config_loop (l # ls) n streams = Inr m \<longleftrightarrow>
            (\<exists>ks'. config_keys ls ks' \<and> (\<forall>j \<in> set ks'. (streams OR StreamBit k) AND StreamBit j = 0) \<and>
              m = (streams OR StreamBit k) OR stream_bits ks' \<and> m \<noteq> 0)"
          by (simp only: Cons.IH)
        have keys: "config_keys (l # ls) ks \<longleftrightarrow> (\<exists>ks'. ks = k # ks' \<and> k \<notin> set ks' \<and> config_keys ls ks')" for ks
          using Some True by (simp add: ks)
        have sub: "config_keys ls ks' \<Longrightarrow> set ks' \<subseteq> set kSupportedMessageKeys" for ks'
          by (simp add: config_keys_def)
        have "stream_config_loop (l # ls) n streams = Inr m \<longleftrightarrow> (\<exists>ks'. (k \<notin> set ks' \<and> config_keys ls ks') \<and>
            (\<forall>j \<in> set (k # ks'). streams AND StreamBit j = 0) \<and> m = streams OR stream_bits (k # ks') \<and> m \<noteq> 0)"
          unfolding step
        proof (rule ex_cong1)
          fix ks'
          have "config_keys ls ks' \<Longrightarrow> (\<forall>j \<in> set ks'. (streams OR StreamBit k) AND StreamBit j = 0)
              \<longleftrightarrow> k \<notin> set ks' \<and> (\<forall>j \<in> set (k # ks'). streams AND StreamBit j = 0)"
            using dis [OF sub] True by simp
          then show "(config_keys ls ks' \<and> (\<forall>j \<in> set ks'. (streams OR StreamBit k) AND StreamBit j = 0) \<and>
                m = (streams OR StreamBit k) OR stream_bits ks' \<and> m \<noteq> 0)
              \<longleftrightarrow> ((k \<notin> set ks' \<and> config_keys ls ks') \<and>
                (\<forall>j \<in> set (k # ks'). streams AND StreamBit j = 0) \<and> m = streams OR stream_bits (k # ks') \<and> m \<noteq> 0)"
            by (simp only: stream_bits.simps or.assoc) blast
        qed
        then show ?thesis unfolding keys by blast
      qed
    qed
  qed
qed


section \<open>What the mask means\<close>

lemma stream_bits_and:
  assumes "set ks \<subseteq> set kSupportedMessageKeys"
  shows "stream_bits ks AND StreamBit k = (if k \<in> set ks then StreamBit k else 0)"
  using assms
proof (induction ks)
  case (Cons j ks)
  have "(StreamBit j OR stream_bits ks) AND StreamBit k
      = (StreamBit j AND StreamBit k) OR (stream_bits ks AND StreamBit k)"
    by (simp add: bit.conj_disj_distrib2)
  then show ?case using Cons StreamBit_disjoint [of j k] by (cases "j = k") auto
qed simp

lemma stream_bits_enabled:
  assumes "set ks \<subseteq> set kSupportedMessageKeys"
  shows "StreamEnabled (stream_bits ks) k \<longleftrightarrow> k \<in> set ks"
proof -
  have "StreamBit k \<noteq> 0" if "k \<in> set ks" using that assms StreamBit_supported by blast
  then show ?thesis by (auto simp: StreamEnabled_def Let_def stream_bits_and [OF assms])
qed

lemma stream_bits_supported: "stream_bits ks AND kSupportedStreamMask = stream_bits ks"
proof (induction ks)
  case (Cons k ks)
  then show ?case using StreamBit_in_mask [of k] by (simp add: bit.conj_disj_distrib2)
qed simp

lemma stream_bits_zero:
  assumes "set ks \<subseteq> set kSupportedMessageKeys"
  shows "stream_bits ks = 0 \<longleftrightarrow> ks = []"
proof
  assume z: "stream_bits ks = 0"
  show "ks = []"
  proof (cases ks)
    case (Cons k ks')
    then have "StreamBit k = stream_bits ks AND StreamBit k"
      using stream_bits_and [OF assms, of k] by (simp only: list.set_intros if_True)
    then have "StreamBit k = 0" by (simp add: z)
    then show ?thesis using assms Cons StreamBit_supported by auto
  qed
qed simp

theorem LoadStreamConfig_accepts:
  "LoadStreamConfig path (Some text) = Inr m \<longleftrightarrow>
     (\<exists>ks. config_keys (text_lines text) ks \<and> ks \<noteq> [] \<and> m = stream_bits ks)"
proof -
  have "set ks \<subseteq> set kSupportedMessageKeys" if "config_keys ls ks" for ls ks
    using that by (simp add: config_keys_def)
  then show ?thesis
    by (auto simp: LoadStreamConfig_def stream_config_loop_iff stream_bits_zero)
qed


text \<open>An accepted stream configuration selects at least one stream, only streams this build decodes, and
  enables a message key exactly when one of its content lines is that key's tuple.\<close>

lemma LoadStreamConfig_selects:
  assumes "LoadStreamConfig path (Some text) = Inr m"
  shows "m \<noteq> 0 \<and> m AND kSupportedStreamMask = m \<and>
    (\<forall>k. StreamEnabled m k \<longleftrightarrow> (\<exists>l \<in> set (content_lines (text_lines text)). ParseTuple l = Some k))"
proof -
  from assms obtain ks where ks: "config_keys (text_lines text) ks" "ks \<noteq> []" "m = stream_bits ks"
    by (auto simp: LoadStreamConfig_accepts)
  then have sup: "set ks \<subseteq> set kSupportedMessageKeys"
    and eq: "map ParseTuple (content_lines (text_lines text)) = map Some ks"
    by (simp_all add: config_keys_def)
  have "k \<in> set ks \<longleftrightarrow> Some k \<in> ParseTuple ` set (content_lines (text_lines text))" for k
    using arg_cong [OF eq, of set] by (auto simp: image_iff)
  then have "k \<in> set ks \<longleftrightarrow> (\<exists>l \<in> set (content_lines (text_lines text)). ParseTuple l = Some k)" for k
    by (metis imageE imageI)
  then show ?thesis
    using ks stream_bits_zero [OF sup] stream_bits_enabled [OF sup] stream_bits_supported by simp
qed

lemma LoadStreamConfig_show:
  assumes "ks \<noteq> []" and "distinct ks" and "set ks \<subseteq> set kSupportedMessageKeys"
  shows "\<exists>m. LoadStreamConfig path (Some (unlines (map show_key ks))) = Inr m \<and>
    (\<forall>k. StreamEnabled m k \<longleftrightarrow> k \<in> set ks)"
proof -
  have "text_lines (unlines (map show_key ks)) = map show_key ks"
    by (rule text_lines_unlines) (auto simp: show_key_line)
  moreover have "content_lines (map show_key ks) = map show_key ks"
    by (induction ks) (simp_all add: content_lines_def show_key_line)
  ultimately have "config_keys (text_lines (unlines (map show_key ks))) ks"
    using assms(2,3) by (simp add: config_keys_def ParseTuple_show_key comp_def)
  then show ?thesis
    using assms(1) stream_bits_enabled [OF assms(3)] by (auto simp: LoadStreamConfig_accepts)
qed

section \<open>The reader's contract\<close>

text \<open>Every choice of supported tuples survives printing and reading: the configuration that
  lists the tuples one per line, in any order, is accepted and enables exactly those tuples.\<close>

theorem stream_config_roundtrip:
  assumes "ks \<noteq> []" and "distinct ks" and "set ks \<subseteq> set kSupportedMessageKeys"
  shows "\<exists>m. LoadStreamConfig path (Some (unlines (map show_key ks))) = Inr m \<and>
    (\<forall>k. StreamEnabled m k \<longleftrightarrow> k \<in> set ks)"
  using assms by (rule LoadStreamConfig_show)

theorem stream_config_roundtrip_witness:
  "\<exists>m. LoadStreamConfig ''streams'' (Some (unlines (map show_key [mk_key 6 101 36, mk_key 4 101 24])))
      = Inr m \<and> (\<forall>k. StreamEnabled m k \<longleftrightarrow> k \<in> set [mk_key 6 101 36, mk_key 4 101 24])"
  by (rule stream_config_roundtrip) (simp_all add: kSupportedMessageKeys_def mk_key_def)

end
