(* ===== verification/Consumer_Calls.thy ===== *)
theory Consumer_Calls
  imports Lane_Sink
begin

text \<open>
  The consumers of the dispatcher: the streams of snapshots and diagnostic records they read, the
  log of their calls, and that the number of calls that delivered a record of a kind is the number of
  records of that kind received.
\<close>

section \<open>Snapshot and diagnostic streams\<close>

text \<open>Everything a snapshot lane has sent to an owner: received by it, or still in the edge.\<close>

definition snapshot_view :: "nat \<Rightarrow> nat \<Rightarrow> LaneEnv \<Rightarrow> CanonicalSnapshot list" where
  "snapshot_view lane_index owner env =
     le_received_snapshots env lane_index owner @ snapshot_edge (le_dispatcher env) lane_index owner"

lemma snapshot_edge_cong:
  "dp_snapshot_queues d' = dp_snapshot_queues d \<Longrightarrow> dp_owners d' = dp_owners d \<Longrightarrow> snapshot_edge d' = snapshot_edge d"
  by (intro ext) (simp add: snapshot_edge_def)

lemma polls_keep_snapshots:
  "snapshot_edge (snd (TryPollTick w d)) = snapshot_edge d"
  "snapshot_edge (snd (TryPollLateRecovery d)) = snapshot_edge d"
  "snapshot_edge (snd (TryPollFault d)) = snapshot_edge d"
  by (rule snapshot_edge_cong;
      simp add: TryPollTick_def TryPollLateRecovery_def TryPollFault_def Let_def split: prod.split option.split)+

lemma publishes_keep_snapshots:
  "snapshot_edge (snd (PublishTick p w t d)) = snapshot_edge d"
  "snapshot_edge (snd (PublishGap p i g d)) = snapshot_edge d"
  "snapshot_edge (snd (PublishFault p f d)) = snapshot_edge d"
  "snapshot_edge (snd (PublishLateRecovery p r d)) = snapshot_edge d"
  by (rule snapshot_edge_cong;
      simp add: PublishTick_def PublishGap_def PublishFault_def PublishLateRecovery_def Let_def split: prod.split)+

lemma consumer_dispatch_snapshots:
  fixes c :: ConsumerPoll
  assumes ok: "dispatcher_ok d" and p: "p < dp_snapshot_producers d" and w: "w < dp_owners d"
  defines "d' \<equiv> consumer_dispatch c d"
  shows "taken_snapshots d d' p w @ snapshot_edge d' p w = snapshot_edge d p w"
proof (cases c)
  case (PollSnapshots owner)
  obtain r q where t: "TryPollSnapshot owner d = (r, q)" by (cases "TryPollSnapshot owner d")
  show ?thesis
  proof (cases "owner < dp_owners d")
    case False
    then show ?thesis using t PollSnapshots by (simp add: d'_def taken_snapshots_def TryPollSnapshot_def)
  next
    case True
    have P: "0 < dp_snapshot_producers d" using p by simp
    note S = TryPollSnapshot_spec [OF ok True P t]
    show ?thesis
    proof (cases r)
      case None
      then show ?thesis using S PollSnapshots t p w by (simp add: d'_def taken_snapshots_def)
    next
      case (Some x)
      then obtain p0 where p0: "snapshot_edge d p0 owner = x # snapshot_edge q p0 owner"
        "\<forall>p' < dp_snapshot_producers d. \<forall>w' < dp_owners d.
          (p', w') \<noteq> (p0, owner) \<longrightarrow> snapshot_edge q p' w' = snapshot_edge d p' w'" using S by auto
      then show ?thesis using S Some PollSnapshots t p w
        by (cases "(p, w) = (p0, owner)") (auto simp: d'_def taken_snapshots_def)
    qed
  qed
next
  case PollGaps
  then show ?thesis using TryPollGap_frame [of d "fst (TryPollGap d)" "snd (TryPollGap d)"]
    by (simp add: d'_def taken_snapshots_def tick_frame_def)
qed (simp_all add: d'_def taken_snapshots_def polls_keep_snapshots)

text \<open>Everything a tick lane has sent to the consumer of LateRecovery records, and to that of faults.\<close>

definition late_view :: "nat \<Rightarrow> LaneEnv \<Rightarrow> LateRecoveryTick list" where
  "late_view lane_index env = le_received_lates env lane_index @ late_edge (le_dispatcher env) lane_index"

definition fault_view :: "nat \<Rightarrow> LaneEnv \<Rightarrow> ChannelFault list" where
  "fault_view lane_index env = le_received_faults env lane_index @ fault_edge (le_dispatcher env) lane_index"

lemma consumer_dispatch_diagnostics:
  fixes c :: ConsumerPoll
  assumes ok: "dispatcher_ok d" and p: "p < dp_tick_producers d"
  defines "d' \<equiv> consumer_dispatch c d"
  shows "taken_lates d d' p @ late_edge d' p = late_edge d p"
    and "taken_faults d d' p @ fault_edge d' p = fault_edge d p"
proof -
  have same: "taken_lates d d' p @ late_edge d' p = late_edge d p \<and> taken_faults d d' p @ fault_edge d' p = fault_edge d p"
    if "late_edge d' = late_edge d" "fault_edge d' = fault_edge d"
    using that by (simp add: taken_lates_def taken_faults_def)
  have "taken_lates d d' p @ late_edge d' p = late_edge d p \<and> taken_faults d d' p @ fault_edge d' p = fault_edge d p"
  proof (cases c)
    case PollGaps
    then show ?thesis using TryPollGap_frame [of d "fst (TryPollGap d)" "snd (TryPollGap d)"]
      by (intro same) (simp_all add: d'_def tick_frame_def)
  next
    case PollLates
    obtain r q where t: "TryPollLateRecovery d = (r, q)" by (cases "TryPollLateRecovery d")
    note S = TryPollLateRecovery_spec [OF ok t]
    show ?thesis
    proof (cases r)
      case (Some x)
      then obtain p0 where p0: "late_edge d p0 = x # late_edge q p0"
        "\<forall>p' < dp_tick_producers d. p' \<noteq> p0 \<longrightarrow> late_edge q p' = late_edge d p'" using S(1) by auto
      then show ?thesis using S(2) PollLates t p
        by (cases "p = p0") (auto simp: d'_def taken_lates_def taken_faults_def)
    qed (use S PollLates t p in \<open>simp add: d'_def taken_lates_def taken_faults_def\<close>)
  next
    case PollFaults
    obtain r q where t: "TryPollFault d = (r, q)" by (cases "TryPollFault d")
    note S = TryPollFault_spec [OF ok t]
    show ?thesis
    proof (cases r)
      case (Some x)
      then obtain p0 where p0: "fault_edge d p0 = x # fault_edge q p0"
        "\<forall>p' < dp_tick_producers d. p' \<noteq> p0 \<longrightarrow> fault_edge q p' = fault_edge d p'" using S(1) by auto
      then show ?thesis using S(2) PollFaults t p
        by (cases "p = p0") (auto simp: d'_def taken_lates_def taken_faults_def)
    qed (use S PollFaults t p in \<open>simp add: d'_def taken_lates_def taken_faults_def\<close>)
  qed (simp_all add: d'_def polls_keep_diagnostics taken_lates_def taken_faults_def)
  then show "taken_lates d d' p @ late_edge d' p = late_edge d p"
    "taken_faults d d' p @ fault_edge d' p = fault_edge d p" by blast+
qed

section \<open>What one call does to the queues\<close>

text \<open>
  The kinds of record a consumer polls for, with the lanes that send them and the consumers that
  read them; there is one reader of LateRecovery records and faults.
\<close>

datatype RecordKind = Kind_Tick | Kind_Snapshot | Kind_Late | Kind_Fault

fun kind_lanes :: "EngineConfig \<Rightarrow> RecordKind \<Rightarrow> nat" where
  "kind_lanes cfg Kind_Tick = tick_decoder_lanes cfg"
| "kind_lanes cfg Kind_Snapshot = snapshot_decoder_lanes cfg"
| "kind_lanes cfg Kind_Late = tick_decoder_lanes cfg"
| "kind_lanes cfg Kind_Fault = tick_decoder_lanes cfg"

fun kind_readers :: "EngineConfig \<Rightarrow> RecordKind \<Rightarrow> nat" where
  "kind_readers cfg Kind_Tick = instrument_workers cfg"
| "kind_readers cfg Kind_Snapshot = instrument_workers cfg"
| "kind_readers cfg Kind_Late = 1"
| "kind_readers cfg Kind_Fault = 1"

text \<open>The length of a queue, and how much a reader has received from it.\<close>

fun queued :: "RecordKind \<Rightarrow> Dispatcher \<Rightarrow> nat \<Rightarrow> nat \<Rightarrow> nat" where
  "queued Kind_Tick d p v = length (tick_edge d p v)"
| "queued Kind_Snapshot d p v = length (snapshot_edge d p v)"
| "queued Kind_Late d p v = length (late_edge d p)"
| "queued Kind_Fault d p v = length (fault_edge d p)"

fun received :: "RecordKind \<Rightarrow> LaneEnv \<Rightarrow> nat \<Rightarrow> nat \<Rightarrow> nat" where
  "received Kind_Tick env p v = length (le_received env p v)"
| "received Kind_Snapshot env p v = length (le_received_snapshots env p v)"
| "received Kind_Late env p v = length (le_received_lates env p)"
| "received Kind_Fault env p v = length (le_received_faults env p)"

definition queued_total :: "EngineConfig \<Rightarrow> Dispatcher \<Rightarrow> RecordKind \<Rightarrow> nat" where
  "queued_total cfg d k = (\<Sum>p<kind_lanes cfg k. \<Sum>v<kind_readers cfg k. queued k d p v)"

definition received_count :: "EngineConfig \<Rightarrow> LaneEnv \<Rightarrow> RecordKind \<Rightarrow> nat" where
  "received_count cfg env k = (\<Sum>p<kind_lanes cfg k. \<Sum>v<kind_readers cfg k. received k env p v)"

text \<open>The kind a call asks for, and the reader that makes it.\<close>

fun poll_kind :: "ConsumerPoll \<Rightarrow> RecordKind option" where
  "poll_kind (PollTicks owner) = Some Kind_Tick"
| "poll_kind (PollSnapshots owner) = Some Kind_Snapshot"
| "poll_kind PollGaps = None"
| "poll_kind PollLates = Some Kind_Late"
| "poll_kind PollFaults = Some Kind_Fault"

fun poll_reader :: "ConsumerPoll \<Rightarrow> nat" where
  "poll_reader (PollTicks owner) = owner"
| "poll_reader (PollSnapshots owner) = owner"
| "poll_reader PollGaps = 0"
| "poll_reader PollLates = 0"
| "poll_reader PollFaults = 0"

definition dispatcher_dims :: "EngineConfig \<Rightarrow> Dispatcher \<Rightarrow> bool" where
  "dispatcher_dims cfg d \<longleftrightarrow> dispatcher_ok d \<and> dp_tick_producers d = tick_decoder_lanes cfg \<and>
     dp_snapshot_producers d = snapshot_decoder_lanes cfg \<and> dp_owners d = instrument_workers cfg"

text \<open>A call that delivers a record takes it from one queue of its reader; any other takes nothing.\<close>

lemma call_cases:
  fixes c :: ConsumerPoll
  assumes dims: "dispatcher_dims cfg d"
  obtains (idle) "consumer_delivers c d \<Longrightarrow> poll_kind c = None"
      "\<And>k p v. p < kind_lanes cfg k \<Longrightarrow> v < kind_readers cfg k \<Longrightarrow> queued k (consumer_dispatch c d) p v = queued k d p v"
      "\<And>k p. poll_kind c = Some k \<Longrightarrow> p < kind_lanes cfg k \<Longrightarrow> poll_reader c < kind_readers cfg k \<Longrightarrow>
        queued k d p (poll_reader c) = 0"
  | (taken) k p where "consumer_delivers c d" "poll_kind c = Some k" "p < kind_lanes cfg k" "poll_reader c < kind_readers cfg k"
      "queued k d p (poll_reader c) = Suc (queued k (consumer_dispatch c d) p (poll_reader c))"
      "\<And>j q v. q < kind_lanes cfg j \<Longrightarrow> v < kind_readers cfg j \<Longrightarrow> (j, q, v) \<noteq> (k, p, poll_reader c) \<Longrightarrow>
        queued j (consumer_dispatch c d) q v = queued j d q v"
proof -
  have ok: "dispatcher_ok d" and D [simp]: "dp_tick_producers d = tick_decoder_lanes cfg"
    "dp_snapshot_producers d = snapshot_decoder_lanes cfg" "dp_owners d = instrument_workers cfg"
    using dims by (simp_all add: dispatcher_dims_def)
  show thesis
  proof (cases c)
    case (PollTicks owner)
    obtain r q where t: "TryPollTick owner d = (r, q)" by (cases "TryPollTick owner d")
    have others: "snapshot_edge q = snapshot_edge d" "late_edge q = late_edge d" "fault_edge q = fault_edge d"
      using polls_keep_snapshots(1) [of owner d] polls_keep_diagnostics(1,2) [of owner d] t by simp_all
    show thesis
    proof (cases "owner < dp_owners d \<and> 0 < dp_tick_producers d")
      case False
      then have "r = None \<and> q = d" using t by (auto simp: TryPollTick_def Let_def split: if_splits)
      then show thesis using False t by (intro idle) (auto simp: PollTicks)
    next
      case True
      note S = TryPollTick_spec [OF ok conjunct1 [OF True] conjunct2 [OF True] t]
      show thesis
      proof (cases r)
        case None
        have "queued k q p v = queued k d p v" if "p < kind_lanes cfg k" "v < kind_readers cfg k" for k p v
          using S None that by (cases k) (simp_all add: others)
        then show thesis using S None t by (intro idle) (auto simp: PollTicks)
      next
        case (Some x)
        then obtain p where p: "p < tick_decoder_lanes cfg" "tick_edge d p owner = x # tick_edge q p owner"
          "\<forall>p' < tick_decoder_lanes cfg. \<forall>w' < instrument_workers cfg. (p', w') \<noteq> (p, owner) \<longrightarrow>
             tick_edge q p' w' = tick_edge d p' w'" using S by auto
        have "queued j q p' v = queued j d p' v"
          if "p' < kind_lanes cfg j" "v < kind_readers cfg j" "(j, p', v) \<noteq> (Kind_Tick, p, owner)" for j p' v
          using p(3) that by (cases j) (simp_all add: others)
        then show thesis using True Some p(1,2) t by (intro taken [of Kind_Tick p]) (simp_all add: PollTicks)
      qed
    qed
  next
    case (PollSnapshots owner)
    obtain r q where t: "TryPollSnapshot owner d = (r, q)" by (cases "TryPollSnapshot owner d")
    have others: "tick_edge q = tick_edge d" "late_edge q = late_edge d" "fault_edge q = fault_edge d"
      using TryPollSnapshot_frame(3) [OF ok t] polls_keep_diagnostics(3,4) [of owner d] t by simp_all
    show thesis
    proof (cases "owner < dp_owners d \<and> 0 < dp_snapshot_producers d")
      case False
      then have "r = None \<and> q = d" using t by (auto simp: TryPollSnapshot_def Let_def split: if_splits)
      then show thesis using False t by (intro idle) (auto simp: PollSnapshots)
    next
      case True
      note S = TryPollSnapshot_spec [OF ok conjunct1 [OF True] conjunct2 [OF True] t]
      show thesis
      proof (cases r)
        case None
        have "queued k q p v = queued k d p v" if "p < kind_lanes cfg k" "v < kind_readers cfg k" for k p v
          using S None that by (cases k) (simp_all add: others)
        then show thesis using S None t by (intro idle) (auto simp: PollSnapshots)
      next
        case (Some x)
        then obtain p where p: "p < snapshot_decoder_lanes cfg" "snapshot_edge d p owner = x # snapshot_edge q p owner"
          "\<forall>p' < snapshot_decoder_lanes cfg. \<forall>w' < instrument_workers cfg. (p', w') \<noteq> (p, owner) \<longrightarrow>
             snapshot_edge q p' w' = snapshot_edge d p' w'" using S by auto
        have "queued j q p' v = queued j d p' v"
          if "p' < kind_lanes cfg j" "v < kind_readers cfg j" "(j, p', v) \<noteq> (Kind_Snapshot, p, owner)" for j p' v
          using p(3) that by (cases j) (simp_all add: others)
        then show thesis using True Some p(1,2) t by (intro taken [of Kind_Snapshot p]) (simp_all add: PollSnapshots)
      qed
    qed
  next
    case PollGaps
    have "tick_frame d (snd (TryPollGap d))" by (rule TryPollGap_frame [of d "fst (TryPollGap d)"]) simp
    then have "queued k (snd (TryPollGap d)) p v = queued k d p v" for k p v
      by (cases k) (simp_all add: tick_frame_def)
    then show thesis by (intro idle) (simp_all add: PollGaps)
  next
    case PollLates
    obtain r q where t: "TryPollLateRecovery d = (r, q)" by (cases "TryPollLateRecovery d")
    note S = TryPollLateRecovery_spec [OF ok t]
    have others: "tick_edge q = tick_edge d" "snapshot_edge q = snapshot_edge d" "fault_edge q = fault_edge d"
      using TryPollLateRecovery_frame(3) [OF ok t] polls_keep_snapshots(2) [of d] S(2) t by simp_all
    show thesis
    proof (cases r)
      case None
      have "queued k q p v = queued k d p v" if "p < kind_lanes cfg k" "v < kind_readers cfg k" for k p v
        using S(1) None that by (cases k) (simp_all add: others)
      then show thesis using S(1) None t by (intro idle) (auto simp: PollLates)
    next
      case (Some x)
      then obtain p where p: "p < tick_decoder_lanes cfg" "late_edge d p = x # late_edge q p"
        "\<forall>p' < tick_decoder_lanes cfg. p' \<noteq> p \<longrightarrow> late_edge q p' = late_edge d p'" using S(1) by auto
      have "queued j q p' v = queued j d p' v"
        if "p' < kind_lanes cfg j" "v < kind_readers cfg j" "(j, p', v) \<noteq> (Kind_Late, p, 0)" for j p' v
        using p(3) that by (cases j) (simp_all add: others)
      then show thesis using Some p(1,2) t by (intro taken [of Kind_Late p]) (simp_all add: PollLates)
    qed
  next
    case PollFaults
    obtain r q where t: "TryPollFault d = (r, q)" by (cases "TryPollFault d")
    note S = TryPollFault_spec [OF ok t]
    have others: "tick_edge q = tick_edge d" "snapshot_edge q = snapshot_edge d" "late_edge q = late_edge d"
      using TryPollFault_frame(3) [OF ok t] polls_keep_snapshots(3) [of d] S(2) t by simp_all
    show thesis
    proof (cases r)
      case None
      have "queued k q p v = queued k d p v" if "p < kind_lanes cfg k" "v < kind_readers cfg k" for k p v
        using S(1) None that by (cases k) (simp_all add: others)
      then show thesis using S(1) None t by (intro idle) (auto simp: PollFaults)
    next
      case (Some x)
      then obtain p where p: "p < tick_decoder_lanes cfg" "fault_edge d p = x # fault_edge q p"
        "\<forall>p' < tick_decoder_lanes cfg. p' \<noteq> p \<longrightarrow> fault_edge q p' = fault_edge d p'" using S(1) by auto
      have "queued j q p' v = queued j d p' v"
        if "p' < kind_lanes cfg j" "v < kind_readers cfg j" "(j, p', v) \<noteq> (Kind_Fault, p, 0)" for j p' v
        using p(3) that by (cases j) (simp_all add: others)
      then show thesis using Some p(1,2) t by (intro taken [of Kind_Fault p]) (simp_all add: PollFaults)
    qed
  qed
qed

lemma sum_one_less:
  fixes f g :: "nat \<Rightarrow> nat"
  assumes "l < n" and "Suc (g l) = f l" and "\<And>i. i < n \<Longrightarrow> i \<noteq> l \<Longrightarrow> g i = f i"
  shows "Suc (\<Sum>i < n. g i) = (\<Sum>i < n. f i)"
proof -
  have "(\<Sum>i \<in> {..<n} - {l}. g i) = (\<Sum>i \<in> {..<n} - {l}. f i)" using assms(3) by (intro sum.cong) auto
  then show ?thesis using assms(1,2) by (simp add: sum.remove [of "{..<n}" l])
qed

text \<open>What a call delivers leaves the queues.\<close>

lemma call_queued:
  assumes dims: "dispatcher_dims cfg d"
  shows "queued_total cfg d k
    = queued_total cfg (consumer_dispatch c d) k + (if consumer_delivers c d \<and> poll_kind c = Some k then 1 else 0)"
proof (rule call_cases [OF dims, of c], goal_cases idle taken)
  case idle
  then show ?thesis by (auto simp: queued_total_def)
next
  case (taken j p)
  note T = taken
  show ?thesis
  proof (cases "j = k")
    case True
    have "Suc (\<Sum>v<kind_readers cfg k. queued k (consumer_dispatch c d) p v) = (\<Sum>v<kind_readers cfg k. queued k d p v)"
      by (rule sum_one_less [OF T(4) [unfolded True]]) (use T(3,5,6) True in auto)
    then have "Suc (queued_total cfg (consumer_dispatch c d) k) = queued_total cfg d k"
      unfolding queued_total_def
      by (rule sum_one_less [OF T(3) [unfolded True]]) (use T(6) True in \<open>auto intro!: sum.cong\<close>)
    then show ?thesis using T(1,2) True by simp
  next
    case False
    then have "queued_total cfg (consumer_dispatch c d) k = queued_total cfg d k"
      unfolding queued_total_def using T(6) by (intro sum.cong) auto
    then show ?thesis using T(2) False by simp
  qed
qed

text \<open>What leaves the queues is received.\<close>

lemma call_received:
  assumes dims: "dispatcher_dims cfg (le_dispatcher env)"
  shows "received_count cfg (consumer_poll c env) k = received_count cfg env k +
    (if consumer_delivers c (le_dispatcher env) \<and> poll_kind c = Some k then 1 else 0)"
proof -
  let ?d = "le_dispatcher env" and ?d' = "consumer_dispatch c (le_dispatcher env)"
  have ok: "dispatcher_ok ?d" and D: "dp_tick_producers ?d = tick_decoder_lanes cfg"
    "dp_snapshot_producers ?d = snapshot_decoder_lanes cfg" "dp_owners ?d = instrument_workers cfg"
    using dims by (simp_all add: dispatcher_dims_def)
  have len: "length t + length e' = length e" if "t @ e' = e" for t e' e :: "'a list" using that by auto
  have "received k (consumer_poll c env) p v + queued k ?d' p v = received k env p v + queued k ?d p v"
    if "p < kind_lanes cfg k" "v < kind_readers cfg k" for p v
    using that len [OF consumer_dispatch_frame(3) [OF ok, of p v c]] len [OF consumer_dispatch_snapshots [OF ok, of p v c]]
      len [OF consumer_dispatch_diagnostics(1) [OF ok, of p c]] len [OF consumer_dispatch_diagnostics(2) [OF ok, of p c]] D
    by (cases k) (simp_all add: consumer_poll_def Let_def)
  then have "received_count cfg (consumer_poll c env) k + queued_total cfg ?d' k
      = received_count cfg env k + queued_total cfg ?d k"
    unfolding received_count_def queued_total_def sum.distrib [symmetric] by (intro sum.cong) simp_all
  then show ?thesis using call_queued [OF dims, of k c] by simp
qed

section \<open>The log of the calls\<close>

definition delivered :: "RecordKind \<Rightarrow> (ConsumerPoll \<times> bool) list \<Rightarrow> nat" where
  "delivered k calls = length (filter (\<lambda>(c, result). result \<and> poll_kind c = Some k) calls)"

text \<open>The last \<open>TryPollGap\<close>, if any, returned nothing.\<close>

definition gap_loop_done :: "(ConsumerPoll \<times> bool) list \<Rightarrow> bool" where
  "gap_loop_done calls \<longleftrightarrow> (case filter (\<lambda>(c, result). c = PollGaps) (rev calls) of [] \<Rightarrow> True | (c, result) # cs \<Rightarrow> \<not> result)"

definition nothing_pending :: "Dispatcher \<Rightarrow> bool" where
  "nothing_pending d \<longleftrightarrow> (\<forall>v < length (dp_gap_consumer_pending d). dp_gap_consumer_pending d ! v = 0)"

definition calls_ok :: "EngineConfig \<Rightarrow> LaneEnv \<Rightarrow> bool" where
  "calls_ok cfg env \<longleftrightarrow> (\<forall>k. delivered k (le_calls env) = received_count cfg env k) \<and>
     (gap_loop_done (le_calls env) \<longrightarrow> nothing_pending (le_dispatcher env))"

lemma delivered_append [simp]: "delivered k (calls @ more_calls) = delivered k calls + delivered k more_calls"
  by (simp add: delivered_def)

lemma delivered_one [simp]: "delivered k [(c, result)] = (if result \<and> poll_kind c = Some k then 1 else 0)"
  by (simp add: delivered_def)

lemma gap_loop_done_snoc [simp]:
  "gap_loop_done (calls @ [(c, result)]) \<longleftrightarrow> (if c = PollGaps then \<not> result else gap_loop_done calls)"
  by (simp add: gap_loop_done_def)

lemma gap_loop_done_Nil [simp]: "gap_loop_done []"
  by (simp add: gap_loop_done_def)

lemma calls_ok_cong:
  assumes "le_calls a = le_calls b" and "\<And>k. received_count cfg a k = received_count cfg b k"
    and "dp_gap_consumer_pending (le_dispatcher a) = dp_gap_consumer_pending (le_dispatcher b)"
  shows "calls_ok cfg a = calls_ok cfg b"
  using assms by (simp add: calls_ok_def nothing_pending_def)

lemma received_count_cong:
  assumes "le_received a = le_received b" and "le_received_snapshots a = le_received_snapshots b"
    and "le_received_lates a = le_received_lates b" and "le_received_faults a = le_received_faults b"
  shows "received_count cfg a k = received_count cfg b k"
proof -
  have "received k a = received k b" using assms by (cases k) (simp_all add: fun_eq_iff)
  then show ?thesis by (simp add: received_count_def)
qed

lemma calls_ok_fields:
  "calls_ok cfg (lane_stat f env) = calls_ok cfg env" "calls_ok cfg (lane_fatal m env) = calls_ok cfg env"
  "calls_ok cfg (env\<lparr>le_schedule := x\<rparr>) = calls_ok cfg env"
  "calls_ok cfg (env\<lparr>le_allocations := a\<rparr>) = calls_ok cfg env"
  "calls_ok cfg (env\<lparr>le_health := h\<rparr>) = calls_ok cfg env"
  "dp_gap_consumer_pending d = dp_gap_consumer_pending (le_dispatcher env) \<Longrightarrow>
     calls_ok cfg (env\<lparr>le_dispatcher := d\<rparr>) = calls_ok cfg env"
  by (rule calls_ok_cong; (rule received_count_cong)?; simp add: lane_stat_def lane_fatal_def)+

lemma calls_ok_poll:
  assumes ok: "calls_ok cfg env" and dims: "dispatcher_dims cfg (le_dispatcher env)" and gaps: "gap_ok (le_dispatcher env)"
  shows "calls_ok cfg (consumer_poll c env)"
proof -
  let ?d = "le_dispatcher env"
  have fields: "le_calls (consumer_poll c env) = le_calls env @ [(c, consumer_delivers c ?d)]"
    "le_dispatcher (consumer_poll c env) = consumer_dispatch c ?d" by (simp_all add: consumer_poll_def Let_def)
  have "nothing_pending (consumer_dispatch c ?d)" if "gap_loop_done (le_calls env @ [(c, consumer_delivers c ?d)])"
  proof (cases "c = PollGaps")
    case True
    then have "TryPollGap ?d = (None, snd (TryPollGap ?d))" using that by (cases "TryPollGap ?d") simp
    from TryPollGap_spec(2) [OF gaps this refl] show ?thesis by (simp add: True nothing_pending_def)
  next
    case False
    then have "gap_fields (consumer_dispatch c ?d) = gap_fields ?d" by (cases c) (simp_all add: gap_fields_kept)
    then have "dp_gap_consumer_pending (consumer_dispatch c ?d) = dp_gap_consumer_pending ?d" by (simp add: gap_fields_def)
    then show ?thesis using ok that False by (simp add: calls_ok_def nothing_pending_def)
  qed
  then show ?thesis using ok call_received [OF dims, of c] unfolding calls_ok_def fields by simp
qed

end
