(* ===== verification/Lane_Frame.thy ===== *)
theory Lane_Frame
  imports Consumer_Calls
begin

text \<open>
  What a lane leaves alone.  \<open>observed\<close> collects everything the consumers of the other lanes have
  been sent: ticks, snapshots, LateRecovery records and faults.  The callbacks of a tick lane change
  nothing of it, and the consumers' polls never lose or reorder a record of any kind.
\<close>

section \<open>The environment and what is observed of it\<close>

definition health_ok :: "Health \<Rightarrow> bool" where
  "health_ok h \<longleftrightarrow> (hl_claimed h \<longleftrightarrow> \<not> hl_healthy h) \<and> (hl_claimed h \<longrightarrow> \<not> hl_accepting h)"

text \<open>The gate is not opened again by a fatal, and the first fatal stays.\<close>

definition health_moves :: "Health \<Rightarrow> Health \<Rightarrow> bool" where
  "health_moves h h' \<longleftrightarrow> (hl_accepting h' \<longrightarrow> hl_accepting h) \<and> (hl_claimed h \<longrightarrow> h' = h)"

lemma health_moves_refl [simp]: "health_moves h h"
  by (simp add: health_moves_def)

lemma health_moves_trans: "health_moves a b \<Longrightarrow> health_moves b c \<Longrightarrow> health_moves a c"
  by (auto simp: health_moves_def)

lemma SetFatal_facts [simp]:
  "health_ok h \<Longrightarrow> health_ok (SetFatal m h)" "health_moves h (SetFatal m h)"
  "health_ok h \<Longrightarrow> \<not> hl_healthy (SetFatal m h)" "health_ok h \<Longrightarrow> \<not> hl_accepting (SetFatal m h)"
  by (auto simp: health_ok_def health_moves_def SetFatal_def)

definition env_ok :: "EngineConfig \<Rightarrow> LaneEnv \<Rightarrow> bool" where
  "env_ok cfg env \<longleftrightarrow>
     dispatcher_ok (le_dispatcher env) \<and> gap_ok (le_dispatcher env) \<and>
     dp_tick_producers (le_dispatcher env) = tick_decoder_lanes cfg \<and>
     dp_snapshot_producers (le_dispatcher env) = snapshot_decoder_lanes cfg \<and>
     dp_owners (le_dispatcher env) = instrument_workers cfg \<and>
     dp_gap_channels_per_producer (le_dispatcher env) = maximum_channels_per_tick_lane cfg \<and>
     health_ok (le_health env) \<and> calls_ok cfg env"

lemma env_ok_dims: "env_ok cfg env \<Longrightarrow> dispatcher_dims cfg (le_dispatcher env)"
  by (simp add: env_ok_def dispatcher_dims_def)

lemma env_ok_lane_inv:
  "env_ok cfg env \<Longrightarrow> l < tick_decoder_lanes cfg \<Longrightarrow> w < instrument_workers cfg \<Longrightarrow> lane_inv cfg l w env"
  by (simp add: env_ok_def lane_inv_def health_ok_def)

text \<open>The streams of every lane outside \<open>T\<close> (tick lanes) and \<open>U\<close> (snapshot lanes).\<close>

type_synonym Streams = "(nat \<Rightarrow> nat \<Rightarrow> CanonicalTick list) \<times> (nat \<Rightarrow> nat \<Rightarrow> CanonicalSnapshot list)
  \<times> (nat \<Rightarrow> LateRecoveryTick list) \<times> (nat \<Rightarrow> ChannelFault list)"

definition observed :: "EngineConfig \<Rightarrow> nat set \<Rightarrow> nat set \<Rightarrow> LaneEnv \<Rightarrow> Streams" where
  "observed cfg T U env =
    ((\<lambda>p w. if p < tick_decoder_lanes cfg \<and> p \<notin> T \<and> w < instrument_workers cfg then lane_view p w env else []),
     (\<lambda>p w. if p < snapshot_decoder_lanes cfg \<and> p \<notin> U \<and> w < instrument_workers cfg
            then snapshot_view p w env else []),
     (\<lambda>p. if p < tick_decoder_lanes cfg \<and> p \<notin> T then late_view p env else []),
     (\<lambda>p. if p < tick_decoder_lanes cfg \<and> p \<notin> T then fault_view p env else []))"

lemma observedI:
  assumes "\<And>p w. p < tick_decoder_lanes cfg \<Longrightarrow> p \<notin> T \<Longrightarrow> w < instrument_workers cfg \<Longrightarrow>
      lane_view p w env' = lane_view p w env"
    and "\<And>p w. p < snapshot_decoder_lanes cfg \<Longrightarrow> p \<notin> U \<Longrightarrow> w < instrument_workers cfg \<Longrightarrow>
      snapshot_view p w env' = snapshot_view p w env"
    and "\<And>p. p < tick_decoder_lanes cfg \<Longrightarrow> p \<notin> T \<Longrightarrow> late_view p env' = late_view p env"
    and "\<And>p. p < tick_decoder_lanes cfg \<Longrightarrow> p \<notin> T \<Longrightarrow> fault_view p env' = fault_view p env"
  shows "observed cfg T U env' = observed cfg T U env"
  using assms unfolding observed_def by (intro arg_cong2 [where f = Pair] ext) auto

lemma observedD:
  assumes "observed cfg T U env' = observed cfg T U env"
  shows "p < tick_decoder_lanes cfg \<Longrightarrow> p \<notin> T \<Longrightarrow> w < instrument_workers cfg \<Longrightarrow>
      lane_view p w env' = lane_view p w env"
    and "p < snapshot_decoder_lanes cfg \<Longrightarrow> p \<notin> U \<Longrightarrow> w < instrument_workers cfg \<Longrightarrow>
      snapshot_view p w env' = snapshot_view p w env"
    and "p < tick_decoder_lanes cfg \<Longrightarrow> p \<notin> T \<Longrightarrow> late_view p env' = late_view p env"
    and "p < tick_decoder_lanes cfg \<Longrightarrow> p \<notin> T \<Longrightarrow> fault_view p env' = fault_view p env"
  using fun_cong [OF fun_cong [OF arg_cong [OF assms, of fst]], of p w]
    fun_cong [OF fun_cong [OF arg_cong [OF assms, of "\<lambda>x. fst (snd x)"]], of p w]
    fun_cong [OF arg_cong [OF assms, of "\<lambda>x. fst (snd (snd x))"], of p]
    fun_cong [OF arg_cong [OF assms, of "\<lambda>x. snd (snd (snd x))"], of p]
  by (simp_all add: observed_def)

lemma observed_mono:
  assumes "observed cfg T U env' = observed cfg T U env" and "T \<subseteq> T'" and "U \<subseteq> U'"
  shows "observed cfg T' U' env' = observed cfg T' U' env"
  by (rule observedI) (use observedD [OF assms(1)] assms(2,3) in blast)+

text \<open>Fields that no stream depends on.\<close>

lemma observed_fields:
  "observed cfg T U (lane_stat f env) = observed cfg T U env"
  "observed cfg T U (lane_fatal m env) = observed cfg T U env"
  "observed cfg T U (env\<lparr>le_schedule := x\<rparr>) = observed cfg T U env"
  "observed cfg T U (env\<lparr>le_allocations := a\<rparr>) = observed cfg T U env"
  "observed cfg T U (env\<lparr>le_health := h\<rparr>) = observed cfg T U env"
  by (rule observedI;
      simp add: lane_view_def snapshot_view_def late_view_def fault_view_def lane_stat_def lane_fatal_def)+

lemma env_ok_fields:
  "env_ok cfg (lane_stat f env) = env_ok cfg env"
  "env_ok cfg env \<Longrightarrow> env_ok cfg (lane_fatal m env)"
  "env_ok cfg (env\<lparr>le_schedule := x\<rparr>) = env_ok cfg env"
  "env_ok cfg (env\<lparr>le_allocations := a\<rparr>) = env_ok cfg env"
  by (simp_all add: env_ok_def calls_ok_fields) (simp_all add: lane_stat_def lane_fatal_def)

section \<open>Consumers lose nothing\<close>

lemma consumer_poll_frame:
  assumes ok: "env_ok cfg env"
  shows "env_ok cfg (consumer_poll c env)" "observed cfg {} {} (consumer_poll c env) = observed cfg {} {} env"
    "le_health (consumer_poll c env) = le_health env"
proof -
  let ?d = "le_dispatcher env"
  show "le_health (consumer_poll c env) = le_health env" by (simp add: consumer_poll_def Let_def)
  show "observed cfg {} {} (consumer_poll c env) = observed cfg {} {} env"
  proof (rule observedI)
    fix p w assume "p < tick_decoder_lanes cfg" "w < instrument_workers cfg"
    then show "lane_view p w (consumer_poll c env) = lane_view p w env"
      using consumer_poll_kept(2) [OF env_ok_lane_inv [OF ok]] by simp
  next
    fix p w assume "p < snapshot_decoder_lanes cfg" "w < instrument_workers cfg"
    then show "snapshot_view p w (consumer_poll c env) = snapshot_view p w env"
      using consumer_dispatch_snapshots [of ?d p w c] ok
      by (simp add: env_ok_def snapshot_view_def consumer_poll_def Let_def)
  next
    fix p assume "p < tick_decoder_lanes cfg"
    then show "late_view p (consumer_poll c env) = late_view p env" "fault_view p (consumer_poll c env) = fault_view p env"
      using consumer_dispatch_diagnostics [of ?d p c] ok
      by (simp_all add: env_ok_def late_view_def fault_view_def consumer_poll_def Let_def)
  qed
  have kept: "dispatcher_ok (consumer_dispatch c ?d) \<and> same_shape ?d (consumer_dispatch c ?d)"
  proof (cases c)
    case (PollTicks owner)
    obtain r q where t: "TryPollTick owner ?d = (r, q)" by (cases "TryPollTick owner ?d")
    show ?thesis
    proof (cases "owner < dp_owners ?d \<and> 0 < dp_tick_producers ?d")
      case True
      then show ?thesis using TryPollTick_spec [OF _ _ _ t] ok t PollTicks by (simp add: env_ok_def)
    next
      case False
      then have "q = ?d" using t by (auto simp: TryPollTick_def Let_def split: if_splits)
      then show ?thesis using ok t PollTicks by (simp add: env_ok_def)
    qed
  next
    case (PollSnapshots owner)
    obtain r q where t: "TryPollSnapshot owner ?d = (r, q)" by (cases "TryPollSnapshot owner ?d")
    show ?thesis using TryPollSnapshot_frame [OF _ t] ok t PollSnapshots by (simp add: env_ok_def)
  next
    case PollGaps
    obtain r q where t: "TryPollGap ?d = (r, q)" by (cases "TryPollGap ?d")
    show ?thesis using TryPollGap_frame [OF t] ok t PollGaps by (simp add: env_ok_def tick_frame_def)
  next
    case PollLates
    obtain r q where t: "TryPollLateRecovery ?d = (r, q)" by (cases "TryPollLateRecovery ?d")
    show ?thesis using TryPollLateRecovery_frame [OF _ t] ok t PollLates by (simp add: env_ok_def)
  next
    case PollFaults
    obtain r q where t: "TryPollFault ?d = (r, q)" by (cases "TryPollFault ?d")
    show ?thesis using TryPollFault_frame [OF _ t] ok t PollFaults by (simp add: env_ok_def)
  qed
  have gaps: "gap_ok (consumer_dispatch c ?d)"
  proof (cases c)
    case PollGaps
    then show ?thesis using TryPollGap_gap_ok ok by (simp add: env_ok_def)
  qed (rule gap_ok_fields [of ?d]; use ok kept in \<open>simp add: env_ok_def gap_fields_kept\<close>)+
  show "env_ok cfg (consumer_poll c env)"
    using ok kept gaps calls_ok_poll [OF _ env_ok_dims [OF ok]] unfolding env_ok_def
    by (simp add: same_shape_def) (simp add: consumer_poll_def Let_def)
qed

lemma consumer_fold_frame:
  assumes "env_ok cfg env"
  shows "env_ok cfg (fold consumer_poll cs env) \<and>
    observed cfg {} {} (fold consumer_poll cs env) = observed cfg {} {} env \<and>
    le_health (fold consumer_poll cs env) = le_health env"
  using assms
proof (induction cs arbitrary: env)
  case (Cons c cs)
  from Cons.IH [OF consumer_poll_frame(1) [OF Cons.prems, of c]] consumer_poll_frame [OF Cons.prems, of c]
  show ?case by simp
qed simp

lemma consumer_turn_frame:
  assumes "env_ok cfg env"
  shows "env_ok cfg (consumer_turn env)" "observed cfg {} {} (consumer_turn env) = observed cfg {} {} env"
    "le_health (consumer_turn env) = le_health env"
  using assms consumer_fold_frame [of cfg "env\<lparr>le_schedule := rest\<rparr>" for rest]
  by (simp_all add: consumer_turn_def env_ok_fields observed_fields split: list.splits)

section \<open>Publishing touches one stream\<close>

text \<open>An attempt that changes at most the streams of the lanes in \<open>T\<close> and \<open>U\<close>.\<close>

definition attempt_frames ::
  "EngineConfig \<Rightarrow> nat set \<Rightarrow> nat set \<Rightarrow> (Dispatcher \<Rightarrow> bool \<times> Dispatcher) \<Rightarrow> bool" where
  "attempt_frames cfg T U publish \<longleftrightarrow> (\<forall>env ok d. env_ok cfg env \<longrightarrow> publish (le_dispatcher env) = (ok, d) \<longrightarrow>
     env_ok cfg (env\<lparr>le_dispatcher := d\<rparr>) \<and> observed cfg T U (env\<lparr>le_dispatcher := d\<rparr>) = observed cfg T U env)"

lemma publish_spins_frame:
  assumes "attempt_frames cfg T U publish" and "env_ok cfg env" and "publish_spins n publish env = (ok, env')"
  shows "env_ok cfg env' \<and> observed cfg T U env' = observed cfg T U env \<and> le_health env' = le_health env"
  using assms(2,3)
proof (induction n arbitrary: env)
  case (Suc n)
  obtain b d where p: "publish (le_dispatcher env) = (b, d)" by (cases "publish (le_dispatcher env)")
  let ?env1 = "env\<lparr>le_dispatcher := d\<rparr>"
  have A: "env_ok cfg ?env1" "observed cfg T U ?env1 = observed cfg T U env"
    using assms(1) Suc.prems(1) p by (auto simp: attempt_frames_def)
  show ?case
  proof (cases b)
    case True
    then show ?thesis using Suc.prems(2) p A by auto
  next
    case False
    then have "publish_spins n publish (consumer_turn ?env1) = (ok, env')" using Suc.prems(2) p by simp
    from Suc.IH [OF consumer_turn_frame(1) [OF A(1)] this] consumer_turn_frame(2,3) [OF A(1)] A(2)
    show ?thesis using observed_mono [of cfg "{}" "{}" "consumer_turn ?env1" ?env1 T U] by simp
  qed
qed simp

lemma PublishBounded_frame:
  assumes "attempt_frames cfg T U publish" and "env_ok cfg env" and "PublishBounded publish env = (ok, env')"
  shows "env_ok cfg env'" "observed cfg T U env' = observed cfg T U env" "le_health env' = le_health env"
proof -
  obtain b e where p: "publish_spins kMaximumSpins publish env = (b, e)"
    by (cases "publish_spins kMaximumSpins publish env")
  note K = publish_spins_frame [OF assms(1,2) p]
  have "env' = e \<or> (\<exists>f. env' = lane_stat f e)"
    using assms(3) p by (auto simp: PublishBounded_def split: bool.splits)
  then show "env_ok cfg env'" "observed cfg T U env' = observed cfg T U env" "le_health env' = le_health env"
    using K by (auto simp: env_ok_fields observed_fields lane_stat_kept)
qed

definition edges_kept :: "nat set \<Rightarrow> nat set \<Rightarrow> Dispatcher \<Rightarrow> Dispatcher \<Rightarrow> bool" where
  "edges_kept T U d d' \<longleftrightarrow> dispatcher_ok d' \<and> gap_ok d' \<and> same_shape d d' \<and>
     dp_gap_consumer_pending d' = dp_gap_consumer_pending d \<and>
     (\<forall>p < dp_tick_producers d. \<forall>w < dp_owners d. p \<notin> T \<longrightarrow> tick_edge d' p w = tick_edge d p w) \<and>
     (\<forall>p < dp_snapshot_producers d. \<forall>w < dp_owners d. p \<notin> U \<longrightarrow> snapshot_edge d' p w = snapshot_edge d p w) \<and>
     (\<forall>p < dp_tick_producers d. p \<notin> T \<longrightarrow> late_edge d' p = late_edge d p \<and> fault_edge d' p = fault_edge d p)"

lemma attempt_framesI:
  assumes "\<And>d ok d'. dispatcher_ok d \<Longrightarrow> gap_ok d \<Longrightarrow> publish d = (ok, d') \<Longrightarrow> edges_kept T U d d'"
  shows "attempt_frames cfg T U publish"
  unfolding attempt_frames_def
proof (intro allI impI)
  fix env :: LaneEnv and ok d
  assume e: "env_ok cfg env" and p: "publish (le_dispatcher env) = (ok, d)"
  have A: "edges_kept T U (le_dispatcher env) d" using assms e p by (simp add: env_ok_def)
  then have "observed cfg T U (env\<lparr>le_dispatcher := d\<rparr>) = observed cfg T U env"
    using e by (intro observedI)
      (simp_all add: edges_kept_def env_ok_def lane_view_def snapshot_view_def late_view_def fault_view_def)
  then show "env_ok cfg (env\<lparr>le_dispatcher := d\<rparr>) \<and> observed cfg T U (env\<lparr>le_dispatcher := d\<rparr>) = observed cfg T U env"
    using A e by (simp add: env_ok_def edges_kept_def same_shape_def calls_ok_fields)
qed

lemma tick_lane_attempts:
  "attempt_frames cfg {l} {} (PublishTick l w t)"
  "attempt_frames cfg {l} {} (PublishFault l f)"
  "attempt_frames cfg {l} {} (PublishLateRecovery l r)"
  "attempt_frames cfg {} {} (PublishGap l i g)"
proof -
  have "edges_kept {l} {} d d'" if d: "dispatcher_ok d" "gap_ok d" and p: "PublishTick l w t d = (ok, d')" for d ok d'
    using PublishTick_spec [OF d(1) p] publishes_keep_snapshots(1) [of l w t d]
      publishes_keep_diagnostics(1,2) [of l w t d] gap_ok_fields [OF d(2), of d'] gap_fields_pending [of d' d] gap_fields_kept(5) [of l w t d] p
    by (simp add: edges_kept_def)
  then show "attempt_frames cfg {l} {} (PublishTick l w t)" by (rule attempt_framesI)
  have "edges_kept {l} {} d d'" if d: "dispatcher_ok d" "gap_ok d" and p: "PublishFault l f d = (ok, d')" for d ok d'
    using PublishFault_spec [OF d(1) p] publishes_keep_snapshots(3) [of l f d] PublishFault_edge [OF d(1) p]
      gap_ok_fields [OF d(2), of d'] gap_fields_pending [of d' d] gap_fields_kept(7) [of l f d] p
    by (simp add: edges_kept_def)
  then show "attempt_frames cfg {l} {} (PublishFault l f)" by (rule attempt_framesI)
  have "edges_kept {l} {} d d'" if d: "dispatcher_ok d" "gap_ok d" and p: "PublishLateRecovery l r d = (ok, d')" for d ok d'
    using PublishLateRecovery_spec [OF d(1) p] publishes_keep_snapshots(4) [of l r d] PublishLateRecovery_edge [OF d(1) p]
      gap_ok_fields [OF d(2), of d'] gap_fields_pending [of d' d] gap_fields_kept(8) [of l r d] p
    by (simp add: edges_kept_def)
  then show "attempt_frames cfg {l} {} (PublishLateRecovery l r)" by (rule attempt_framesI)
  have "edges_kept {} {} d d'" if d: "dispatcher_ok d" "gap_ok d" and p: "PublishGap l i g d = (ok, d')" for d ok d'
    using PublishGap_spec [OF d(1) p] publishes_keep_snapshots(2) [of l i g d]
      publishes_keep_diagnostics(5,6) [of l i g d] PublishGap_gap_ok [OF d(2), of l i g] PublishGap_pending [of l i g d] p by (simp add: edges_kept_def)
  then show "attempt_frames cfg {} {} (PublishGap l i g)" by (rule attempt_framesI)
qed

lemma attempt_frames_mono:
  "attempt_frames cfg T U publish \<Longrightarrow> T \<subseteq> T' \<Longrightarrow> U \<subseteq> U' \<Longrightarrow> attempt_frames cfg T' U' publish"
  unfolding attempt_frames_def using observed_mono by blast

end
