(* ===== verification/Lane_Books.thy ===== *)
theory Lane_Books
  imports Lane_Frame
begin

text \<open>
  The books of a tick lane: for every kind of record it sends, the records received or queued, less
  the lane's own dispatch counter.  Publishing adds one to both sides, polling moves records from the
  queue to the consumer, and no other operation of the lane's recovery counts a dispatch; so the
  recovery interface carries the books, and with them the streams of the other lanes, through every
  recovery operation.
\<close>

section \<open>What a lane has sent\<close>

fun sent :: "EngineConfig \<Rightarrow> nat \<Rightarrow> LaneEnv \<Rightarrow> Output \<Rightarrow> nat" where
  "sent cfg l env Output_Tick = (\<Sum>w<instrument_workers cfg. length (lane_view l w env))"
| "sent cfg l env Output_Late = length (late_view l env)"
| "sent cfg l env Output_Fault = length (fault_view l env)"

text \<open>The difference is kept at the counters' width, where both sides wrap.\<close>

definition books :: "EngineConfig \<Rightarrow> nat \<Rightarrow> LaneEnv \<Rightarrow> Output \<Rightarrow> u64" where
  "books cfg l env k = of_nat (sent cfg l env k) - dispatched k (le_stats env)"

lemma sent_fields:
  "sent cfg l (lane_stat f env) = sent cfg l env" "sent cfg l (lane_fatal m env) = sent cfg l env"
  "sent cfg l (env\<lparr>le_schedule := x\<rparr>) = sent cfg l env" "sent cfg l (env\<lparr>le_allocations := a\<rparr>) = sent cfg l env"
proof -
  have "sent cfg l (lane_stat f env) k = sent cfg l env k \<and> sent cfg l (lane_fatal m env) k = sent cfg l env k \<and>
    sent cfg l (env\<lparr>le_schedule := x\<rparr>) k = sent cfg l env k \<and> sent cfg l (env\<lparr>le_allocations := a\<rparr>) k = sent cfg l env k"
    for k by (cases k) (simp_all add: lane_view_def late_view_def fault_view_def lane_stat_def lane_fatal_def)
  then show "sent cfg l (lane_stat f env) = sent cfg l env" "sent cfg l (lane_fatal m env) = sent cfg l env"
    "sent cfg l (env\<lparr>le_schedule := x\<rparr>) = sent cfg l env" "sent cfg l (env\<lparr>le_allocations := a\<rparr>) = sent cfg l env"
    by blast+
qed

lemma books_fields:
  "keeps_dispatched f \<Longrightarrow> books cfg l (lane_stat f env) = books cfg l env"
  "books cfg l (lane_fatal m env) = books cfg l env"
  "books cfg l (env\<lparr>le_schedule := x\<rparr>) = books cfg l env"
  "books cfg l (env\<lparr>le_allocations := a\<rparr>) = books cfg l env"
  by (simp_all add: books_def fun_eq_iff sent_fields) (simp_all add: keeps_dispatched_def lane_stat_def lane_fatal_def)

text \<open>Records observed by everyone are still sent.\<close>

lemma sent_observed:
  assumes "observed cfg T U env' = observed cfg T U env" and "l < tick_decoder_lanes cfg" and "l \<notin> T"
  shows "sent cfg l env' = sent cfg l env"
proof
  show "sent cfg l env' k = sent cfg l env k" for k
    using observedD(1,3,4) [OF assms(1)] assms(2,3) by (cases k) simp_all
qed

section \<open>Turns without consumer calls\<close>

text \<open>With an empty schedule the consumers make no calls.\<close>

definition calls_scheduled :: "LaneEnv \<Rightarrow> LaneEnv \<Rightarrow> bool" where
  "calls_scheduled env env' \<longleftrightarrow> (le_schedule env = [] \<longrightarrow> le_schedule env' = [] \<and> le_calls env' = le_calls env)"

lemma calls_scheduled_refl [simp]: "calls_scheduled env env"
  by (simp add: calls_scheduled_def)

lemma calls_scheduled_trans: "calls_scheduled a b \<Longrightarrow> calls_scheduled b c \<Longrightarrow> calls_scheduled a c"
  by (simp add: calls_scheduled_def)

lemma calls_scheduled_fields [simp]:
  "calls_scheduled env (lane_stat f env)" "calls_scheduled env (lane_fatal m env)"
  "calls_scheduled env (env\<lparr>le_dispatcher := d\<rparr>)" "calls_scheduled env (env\<lparr>le_allocations := a\<rparr>)"
  by (simp_all add: calls_scheduled_def lane_stat_def lane_fatal_def)

lemma publish_spins_scheduled: "publish_spins n publish env = (ok, env') \<Longrightarrow> calls_scheduled env env'"
proof (induction n arbitrary: env)
  case (Suc n)
  have "calls_scheduled env (consumer_turn (env\<lparr>le_dispatcher := d\<rparr>))" for d
    by (simp add: calls_scheduled_def consumer_turn_def)
  then show ?case
    using Suc by (auto simp: Let_def split: prod.splits if_splits intro: calls_scheduled_trans)
qed simp

lemma PublishBounded_scheduled: "PublishBounded publish env = (ok, env') \<Longrightarrow> calls_scheduled env env'"
  by (auto simp: PublishBounded_def dest!: publish_spins_scheduled split: prod.splits bool.splits
      intro: calls_scheduled_trans calls_scheduled_fields)

section \<open>Publishing with the books\<close>

lemma consumer_turn_stats: "le_stats (consumer_turn env) = le_stats env"
proof -
  have poll: "le_stats (consumer_poll c e) = le_stats e" for c e by (simp add: consumer_poll_def Let_def)
  have "le_stats (fold consumer_poll cs e) = le_stats e" for cs e
    by (induction cs arbitrary: e) (simp_all add: poll)
  then show ?thesis by (simp add: consumer_turn_def split: list.split)
qed

lemma publish_spins_stats: "publish_spins n publish env = (ok, env') \<Longrightarrow> le_stats env' = le_stats env"
  by (induction n arbitrary: env) (auto simp: Let_def consumer_turn_stats split: prod.splits if_splits)

text \<open>An attempt that, when it succeeds, sends one record of the kind \<open>k\<close>.\<close>

definition attempt_sends ::
  "EngineConfig \<Rightarrow> nat \<Rightarrow> Output \<Rightarrow> (Dispatcher \<Rightarrow> bool \<times> Dispatcher) \<Rightarrow> bool" where
  "attempt_sends cfg l k publish \<longleftrightarrow> attempt_frames cfg {l} {} publish \<and>
     (\<forall>env ok d j. env_ok cfg env \<longrightarrow> publish (le_dispatcher env) = (ok, d) \<longrightarrow>
       sent cfg l (env\<lparr>le_dispatcher := d\<rparr>) j = sent cfg l env j + (if ok \<and> j = k then 1 else 0))"

lemma publish_spins_sent:
  assumes "attempt_sends cfg l k publish" and "l < tick_decoder_lanes cfg"
    and "env_ok cfg env" and "publish_spins n publish env = (ok, env')"
  shows "sent cfg l env' j = sent cfg l env j + (if ok \<and> j = k then 1 else 0)"
  using assms(3,4)
proof (induction n arbitrary: env)
  case (Suc n)
  obtain b d where p: "publish (le_dispatcher env) = (b, d)" by (cases "publish (le_dispatcher env)")
  let ?env1 = "env\<lparr>le_dispatcher := d\<rparr>"
  have ok1: "env_ok cfg ?env1" and s1: "sent cfg l ?env1 j = sent cfg l env j + (if b \<and> j = k then 1 else 0)"
    using assms(1) Suc.prems(1) p by (auto simp: attempt_sends_def attempt_frames_def)
  show ?case
  proof (cases b)
    case True
    then show ?thesis using Suc.prems(2) p s1 by auto
  next
    case False
    then have "publish_spins n publish (consumer_turn ?env1) = (ok, env')" using Suc.prems(2) p by simp
    from Suc.IH [OF consumer_turn_frame(1) [OF ok1] this]
    show ?thesis using sent_observed [OF consumer_turn_frame(2) [OF ok1] assms(2)] s1 False by simp
  qed
qed simp

lemma PublishBounded_books:
  assumes "attempt_sends cfg l k publish" and "l < tick_decoder_lanes cfg"
    and "env_ok cfg env" and "PublishBounded publish env = (ok, env')"
  shows "books cfg l env' j = books cfg l env j + (if ok \<and> j = k then 1 else 0)"
proof -
  obtain b e where p: "publish_spins kMaximumSpins publish env = (b, e)"
    by (cases "publish_spins kMaximumSpins publish env")
  have "books cfg l e j = books cfg l env j + (if b \<and> j = k then 1 else 0)"
    using publish_spins_sent [OF assms(1-3) p] publish_spins_stats [OF p] by (simp add: books_def)
  then show ?thesis
    using assms(4) p by (auto simp: PublishBounded_def books_fields split: bool.splits)
qed

lemma attempts_send:
  assumes "0 < instrument_workers cfg" and "l < tick_decoder_lanes cfg"
  shows "w < instrument_workers cfg \<Longrightarrow> attempt_sends cfg l Output_Tick (PublishTick l w t)"
    and "attempt_sends cfg l Output_Late (PublishLateRecovery l r)"
    and "attempt_sends cfg l Output_Fault (PublishFault l f)"
proof -
  have l: "l < dp_tick_producers (le_dispatcher env)" and d: "dispatcher_ok (le_dispatcher env)"
    and own: "dp_owners (le_dispatcher env) = instrument_workers cfg" if "env_ok cfg env" for env
    using that assms(2) by (simp_all add: env_ok_def)
  show "attempt_sends cfg l Output_Tick (PublishTick l w t)" if w: "w < instrument_workers cfg"
    unfolding attempt_sends_def
  proof (intro conjI tick_lane_attempts allI impI)
    fix env ok d j assume e: "env_ok cfg env" and p: "PublishTick l w t (le_dispatcher env) = (ok, d)"
    have "lane_view l v (env\<lparr>le_dispatcher := d\<rparr>) = lane_view l v env @ (if ok \<and> v = w then [t] else [])"
      if "v < instrument_workers cfg" for v
      using PublishTick_spec(3) [OF _ p, of l v] l d own e that by (simp add: lane_view_def)
    then have "(\<Sum>v<instrument_workers cfg. length (lane_view l v (env\<lparr>le_dispatcher := d\<rparr>)))
        = (\<Sum>v<instrument_workers cfg. length (lane_view l v env) + (if ok \<and> v = w then 1 else 0))"
      by (intro sum.cong) simp_all
    moreover have "(\<Sum>v<instrument_workers cfg. if ok \<and> v = w then 1 else 0 :: nat) = (if ok then 1 else 0)"
      using w by (cases ok) simp_all
    moreover have "late_view l (env\<lparr>le_dispatcher := d\<rparr>) = late_view l env" "fault_view l (env\<lparr>le_dispatcher := d\<rparr>) = fault_view l env"
      using publishes_keep_diagnostics(1,2) [of l w t "le_dispatcher env"] p by (simp_all add: late_view_def fault_view_def)
    ultimately show "sent cfg l (env\<lparr>le_dispatcher := d\<rparr>) j = sent cfg l env j + (if ok \<and> j = Output_Tick then 1 else 0)"
      by (cases j) (simp_all add: sum.distrib)
  qed
  have ticks: "lane_view l v (env\<lparr>le_dispatcher := d\<rparr>) = lane_view l v env"
    if "tick_edge d = tick_edge (le_dispatcher env)" for v env d using that by (simp add: lane_view_def)
  show "attempt_sends cfg l Output_Late (PublishLateRecovery l r)"
    unfolding attempt_sends_def
  proof (intro conjI tick_lane_attempts allI impI)
    fix env ok d j assume e: "env_ok cfg env" and p: "PublishLateRecovery l r (le_dispatcher env) = (ok, d)"
    show "sent cfg l (env\<lparr>le_dispatcher := d\<rparr>) j = sent cfg l env j + (if ok \<and> j = Output_Late then 1 else 0)"
      using PublishLateRecovery_edge [OF _ p] PublishLateRecovery_spec(3) [OF _ p, THEN ticks] l d e
      by (cases j) (simp_all add: late_view_def fault_view_def)
  qed
  show "attempt_sends cfg l Output_Fault (PublishFault l f)"
    unfolding attempt_sends_def
  proof (intro conjI tick_lane_attempts allI impI)
    fix env ok d j assume e: "env_ok cfg env" and p: "PublishFault l f (le_dispatcher env) = (ok, d)"
    show "sent cfg l (env\<lparr>le_dispatcher := d\<rparr>) j = sent cfg l env j + (if ok \<and> j = Output_Fault then 1 else 0)"
      using PublishFault_edge [OF _ p] PublishFault_spec(3) [OF _ p, THEN ticks] l d e
      by (cases j) (simp_all add: late_view_def fault_view_def)
  qed
qed

section \<open>The recovery of a lane leaves the other streams and the books alone\<close>

text \<open>
  The same interface, now observing whether the other lanes' streams are still \<open>V\<close>, with the books
  of the lane at \<open>K\<close> and the calls scheduled at \<open>P\<close> as part of the invariant: no callback of the
  lane changes these.
\<close>

definition frame_view :: "EngineConfig \<Rightarrow> nat \<Rightarrow> Streams \<Rightarrow> LaneEnv \<Rightarrow> CanonicalTick list" where
  "frame_view cfg l V env = (if observed cfg {l} {} env = V then [] else [default_tick])"

definition frame_inv ::
  "EngineConfig \<Rightarrow> nat \<Rightarrow> Health \<Rightarrow> (Output \<Rightarrow> u64) \<Rightarrow> LaneEnv \<Rightarrow> LaneEnv \<Rightarrow> bool" where
  "frame_inv cfg l H K P env \<longleftrightarrow> env_ok cfg env \<and> 0 < instrument_workers cfg \<and> l < tick_decoder_lanes cfg \<and>
     (hl_claimed H \<longrightarrow> le_health env = H) \<and> books cfg l env = K \<and> calls_scheduled P env"

definition lane_accepting :: "LaneEnv \<Rightarrow> bool" where
  "lane_accepting env \<longleftrightarrow> hl_accepting (le_health env)"

text \<open>A callback that publishes one record of kind \<open>k\<close> and counts it.\<close>

lemma counted_frame:
  assumes inv: "frame_inv cfg l H K P s" and pub: "PublishBounded publish s = (ok, e)"
    and sends: "attempt_sends cfg l k publish"
    and f: "\<And>j st. dispatched j (f st) = dispatched j st + (if j = k then 1 else 0)"
    and s': "s' = (if ok then lane_stat f e else e)"
  shows "frame_inv cfg l H K P s' \<and> lane_accepting s' = lane_accepting s \<and> frame_view cfg l V s' = frame_view cfg l V s"
proof -
  have ok: "env_ok cfg s" "l < tick_decoder_lanes cfg" using inv by (simp_all add: frame_inv_def)
  have "attempt_frames cfg {l} {} publish" using sends by (simp add: attempt_sends_def)
  note F = PublishBounded_frame [OF this ok(1) pub]
  have moved: "books cfg l e j = books cfg l s j + (if ok \<and> j = k then 1 else 0)" for j
    by (rule PublishBounded_books [OF sends ok(2,1) pub])
  have stat: "books cfg l (lane_stat f e) j = books cfg l e j - (if j = k then 1 else 0)" for j
    unfolding books_def sent_fields by (simp add: lane_stat_def f)
  have "books cfg l s' = books cfg l s" using moved stat by (simp add: s' fun_eq_iff)
  moreover have "calls_scheduled P s" using inv by (simp add: frame_inv_def)
  then have "calls_scheduled P s'"
    using calls_scheduled_trans PublishBounded_scheduled [OF pub] calls_scheduled_fields(1) [of e f] by (auto simp: s')
  ultimately show ?thesis
    using F inv by (auto simp: s' frame_inv_def lane_accepting_def frame_view_def env_ok_fields observed_fields lane_stat_kept)
qed

lemma stat_frame:
  "keeps_dispatched f \<Longrightarrow> frame_inv cfg l H K P s \<Longrightarrow> frame_inv cfg l H K P (lane_stat f s)"
  "frame_view cfg l V (lane_stat f s) = frame_view cfg l V s"
  by (simp_all add: frame_inv_def frame_view_def env_ok_fields observed_fields lane_stat_kept books_fields
      calls_scheduled_trans [of P s])

lemma counts:
  "dispatched j (st\<lparr>ts_dispatched_ticks := ts_dispatched_ticks st + 1\<rparr>)
     = dispatched j st + (if j = Output_Tick then 1 else 0)"
  "dispatched j (st\<lparr>ts_late_recovery_dispatched := ts_late_recovery_dispatched st + 1\<rparr>)
     = dispatched j st + (if j = Output_Late then 1 else 0)"
  "dispatched j (st\<lparr>ts_channel_faults_dispatched := ts_channel_faults_dispatched st + 1\<rparr>)
     = dispatched j st + (if j = Output_Fault then 1 else 0)"
  by (cases j; simp)+

interpretation others: recovery_sink "lane_sink cfg l" "frame_inv cfg l H K P" lane_accepting "frame_view cfg l V"
    "\<lambda>_. False" "maximum_channels_per_tick_lane cfg" home for cfg l H K P V home
proof unfold_locales
  fix s s' :: LaneEnv and t :: CanonicalTick
  assume inv: "frame_inv cfg l H K P s"
  then have w: "0 < instrument_workers cfg" "l < tick_decoder_lanes cfg" by (simp_all add: frame_inv_def)
  let ?owner = "InstrumentOwner (instrument_workers cfg) (c_instrument_ordinal (t_common t))"
  have "?owner < instrument_workers cfg" using w by (simp add: InstrumentOwner_mod)
  note sends = attempts_send(1) [OF w this, of t]
  have F: "frame_inv cfg l H K P s' \<and> lane_accepting s' = lane_accepting s \<and> frame_view cfg l V s' = frame_view cfg l V s"
    if "sk_tick (lane_sink cfg l) t s = (b, s')" for b
  proof -
    obtain ok e where p: "PublishBounded (PublishTick l ?owner t) s = (ok, e)" by fastforce
    show ?thesis
      by (rule counted_frame [OF inv p sends counts(1)])
        (use that p in \<open>simp add: lane_sink_def emit_tick_def Let_def split: if_splits\<close>)
  qed
  show "sk_tick (lane_sink cfg l) t s = (True, s') \<Longrightarrow> frame_inv cfg l H K P s' \<and> lane_accepting s' = lane_accepting s \<and>
      frame_view cfg l V s' = frame_view cfg l V s @ (if False then [t] else [])"
    "sk_tick (lane_sink cfg l) t s = (False, s') \<Longrightarrow> frame_inv cfg l H K P s' \<and> frame_view cfg l V s' = frame_view cfg l V s"
    using F [of True] F [of False] by simp_all
next
  fix s s' :: LaneEnv and i :: nat and g :: ChannelGap and b :: bool
  assume inv: "frame_inv cfg l H K P s" and e: "sk_gap (lane_sink cfg l) i g s = (b, s')"
  then have ok: "env_ok cfg s" "l < tick_decoder_lanes cfg" by (simp_all add: frame_inv_def)
  obtain ok d where p: "PublishGap l i g (le_dispatcher s) = (ok, d)" by fastforce
  have s': "b = ok" "s' = s\<lparr>le_dispatcher := d\<rparr>" using e p by (auto simp: lane_sink_def emit_gap_def)
  have A: "env_ok cfg s'" "observed cfg {} {} s' = observed cfg {} {} s"
    using tick_lane_attempts(4) [of cfg l i g] ok(1) p s' by (auto simp: attempt_frames_def)
  have "observed cfg {l} {} s' = observed cfg {l} {} s" by (rule observed_mono [OF A(2)]) simp_all
  moreover have "books cfg l s' = books cfg l s"
    using sent_observed [OF A(2) ok(2)] by (simp add: books_def fun_eq_iff s'(2))
  moreover have "i < maximum_channels_per_tick_lane cfg \<longrightarrow> b"
    using PublishGap_spec(4) [OF _ p] ok s' by (auto simp: env_ok_def)
  ultimately show "frame_inv cfg l H K P s' \<and> lane_accepting s' = lane_accepting s \<and> frame_view cfg l V s' = frame_view cfg l V s \<and>
      (i < maximum_channels_per_tick_lane cfg \<longrightarrow> b)"
    using inv A(1) calls_scheduled_trans [of P s s'] by (simp add: frame_inv_def frame_view_def lane_accepting_def s'(2))
next
  fix s s' :: LaneEnv and flt :: ChannelFault and b :: bool
  assume inv: "frame_inv cfg l H K P s" and e: "sk_fault (lane_sink cfg l) flt s = (b, s')"
  then have w: "0 < instrument_workers cfg" "l < tick_decoder_lanes cfg" by (simp_all add: frame_inv_def)
  obtain ok e' where p: "PublishBounded (PublishFault l flt) s = (ok, e')" by fastforce
  show "frame_inv cfg l H K P s' \<and> lane_accepting s' = lane_accepting s \<and> frame_view cfg l V s' = frame_view cfg l V s"
    by (rule counted_frame [OF inv p attempts_send(3) [OF w] counts(3)])
      (use e p in \<open>simp add: lane_sink_def emit_fault_def Let_def split: if_splits\<close>)
next
  fix s s' :: LaneEnv and late :: LateRecoveryTick and b :: bool
  assume inv: "frame_inv cfg l H K P s" and e: "sk_late (lane_sink cfg l) late s = (b, s')"
  then have w: "0 < instrument_workers cfg" "l < tick_decoder_lanes cfg" by (simp_all add: frame_inv_def)
  obtain ok e' where p: "PublishBounded (PublishLateRecovery l late) s = (ok, e')" by fastforce
  show "frame_inv cfg l H K P s' \<and> lane_accepting s' = lane_accepting s \<and> frame_view cfg l V s' = frame_view cfg l V s"
    by (rule counted_frame [OF inv p attempts_send(2) [OF w] counts(2)])
      (use e p in \<open>simp add: lane_sink_def emit_late_def Let_def split: if_splits\<close>)
next
  fix s :: LaneEnv and msg :: string
  assume inv: "frame_inv cfg l H K P s"
  then have ok: "health_ok (le_health s)" by (simp add: frame_inv_def env_ok_def)
  have "hl_claimed H \<longrightarrow> SetFatal msg (le_health s) = H" using inv by (auto simp: frame_inv_def SetFatal_def)
  with ok show "frame_inv cfg l H K P (sk_fatal (lane_sink cfg l) msg s) \<and> \<not> lane_accepting (sk_fatal (lane_sink cfg l) msg s) \<and>
      frame_view cfg l V (sk_fatal (lane_sink cfg l) msg s) = frame_view cfg l V s"
    using inv env_ok_fields(2) [of cfg s msg] calls_scheduled_trans [of P s]
    by (simp add: lane_sink_def frame_inv_def frame_view_def observed_fields books_fields lane_accepting_def)
      (simp add: lane_fatal_def)
next
  fix s :: LaneEnv and f :: "TickLaneStats \<Rightarrow> TickLaneStats"
  assume "frame_inv cfg l H K P s" and "keeps_dispatched f"
  then show "frame_inv cfg l H K P (sk_stats (lane_sink cfg l) f s) \<and>
      lane_accepting (sk_stats (lane_sink cfg l) f s) = lane_accepting s \<and>
      frame_view cfg l V (sk_stats (lane_sink cfg l) f s) = frame_view cfg l V s"
    by (simp add: lane_sink_def stat_frame lane_stat_kept lane_accepting_def)
next
  fix s s' :: LaneEnv and b :: bool
  assume inv: "frame_inv cfg l H K P s" and e: "sk_alloc (lane_sink cfg l) s = (b, s')"
  have "s' = s \<or> s' = s\<lparr>le_allocations := tl (le_allocations s)\<rparr>"
    using e by (simp add: lane_sink_def lane_alloc_def split: list.splits)
  then show "frame_inv cfg l H K P s' \<and> lane_accepting s' = lane_accepting s \<and> frame_view cfg l V s' = frame_view cfg l V s"
    using inv
    by (elim disjE)
      (simp_all add: frame_inv_def frame_view_def env_ok_fields observed_fields books_fields lane_accepting_def
        calls_scheduled_trans [of P s])
qed simp

text \<open>A call of the lane's recovery: the other streams and the books stay.\<close>

lemma recovery_step_frame:
  assumes rec: "lane.rec_ok cfg l w home rec env" and ok: "env_ok cfg env" and x: "input_ok x" "lane.home_input home x"
    and step: "recovery_step (lane_sink cfg l) x rec env = Some (rec', env')"
  shows "env_ok cfg env'" "observed cfg {l} {} env' = observed cfg {l} {} env"
    "health_moves (le_health env) (le_health env')" "books cfg l env' = books cfg l env"
    "calls_scheduled env env'"
proof -
  let ?V = "observed cfg {l} {} env" and ?H = "le_health env" and ?K = "books cfg l env"
  have l: "l < tick_decoder_lanes cfg" "0 < instrument_workers cfg"
    using rec by (auto simp: lane.rec_ok_def lane_inv_def)
  have empty: "frame_view cfg l ?V env = []" by (simp add: frame_view_def)
  have "others.rec_ok cfg l ?H ?K env home rec env"
    unfolding others.rec_ok_def frame_inv_def
    using rec ok l calls_scheduled_refl [of env] unfolding lane.rec_ok_def by blast
  moreover have "others.ordered cfg l ?V rec env" by (simp add: others.ordered_def empty)
  ultimately obtain s' I where "recovery_step (lane_sink cfg l) x rec env = Some s'"
    "others.served cfg l ?H ?K env ?V home I (rec, env) s'"
    using others.recovery_step_served [of cfg l ?H ?K env home rec env ?V x] x
    unfolding others.home_input_def lane.home_input_def by blast
  then have S: "others.served cfg l ?H ?K env ?V home I (rec, env) (rec', env')" using step by simp
  then have inv: "frame_inv cfg l ?H ?K env env'" by (simp add: others.served_def others.rec_ok_def)
  then show "env_ok cfg env'" "books cfg l env' = ?K" "calls_scheduled env env'" by (simp_all add: frame_inv_def)
  from S have eff: "frame_view cfg l ?V env' = []" "lane_accepting env' \<longrightarrow> lane_accepting env"
    by (auto simp: others.served_def others.effect_def empty)
  then show "observed cfg {l} {} env' = ?V" by (simp add: frame_view_def split: if_splits)
  show "health_moves ?H (le_health env')"
    using eff(2) inv by (simp add: health_moves_def frame_inv_def lane_accepting_def)
qed

end
