(* ===== verification/Lane_Storage.thy ===== *)
theory Lane_Storage
  imports Queue_Interface Decoder_Types
begin

text \<open>
  Component \<open>LaneStorage\<close> of \<open>src/engine.cpp\<close>: the fixed slots in which an admitted message
  waits for its lane worker.  The callback thread takes a slot from \<open>free_\<close>, copies the
  message into it and pushes its index on the ready ring; the worker pops the index, reads the
  slot and gives the index back on the recycled ring.  A slot or arena byte that was never
  written is \<open>None\<close> (\<open>UninitializedArray\<close>, \<open>make_unique_for_overwrite\<close>).  The vector
  \<open>free_\<close> is a list whose back is its last element.
\<close>

section \<open>The storage and its operations\<close>

record LaneMessageMetadata =
  lm_header :: ParsedHeader
  lm_ingress_sequence :: u64
  lm_receive_monotonic_ns :: u64
  lm_body_size :: u32

record LaneStorage =
  ls_slot_count :: nat
  ls_maximum_body_bytes :: nat
  ls_metadata :: "LaneMessageMetadata option list"
  ls_arena :: "byte option list"
  ls_ready :: "u32 SpscRing"
  ls_recycled :: "u32 SpscRing"
  ls_free :: "u32 list"

definition new_lane_storage :: "nat \<Rightarrow> nat \<Rightarrow> LaneStorage option" where
  "new_lane_storage slot_count maximum_body_bytes =
    (case (new_ring slot_count, new_ring slot_count) of
       (Some ready, Some recycled) \<Rightarrow> Some
         \<lparr>ls_slot_count = slot_count, ls_maximum_body_bytes = maximum_body_bytes,
          ls_metadata = replicate slot_count None,
          ls_arena = replicate (slot_count * maximum_body_bytes) None,
          ls_ready = ready, ls_recycled = recycled,
          ls_free = map of_nat (rev [0 ..< slot_count])\<rparr>
     | _ \<Rightarrow> None)"

text \<open>
  The \<open>while\<close> loop of \<open>DrainRecycled\<close>.  It stops on every ring: each pop moves the tail one
  step towards the cached head, which is refreshed to the head at most once.
\<close>

definition pops_left :: "'a SpscRing \<Rightarrow> nat" where
  "pops_left r = (if rg_cached_head r = rg_head r then 0 else 2 ^ 64)
     + unat (rg_cached_head r - rg_tail r)"

lemma unat_sub_succ: "x \<noteq> y \<Longrightarrow> unat (x - (y + 1)) < unat (x - (y :: u64))"
proof -
  assume "x \<noteq> y"
  then have "0 < x - y" by (simp add: word_gt_0)
  then have "unat ((x - y) - 1) = unat (x - y) - 1" by (rule unat_pred)
  moreover have "0 < unat (x - y)" using \<open>0 < x - y\<close> by (simp only: word_less_nat_alt unat_0)
  moreover have eq: "x - (y + 1) = (x - y) - 1" by simp
  ultimately show ?thesis unfolding eq by linarith
qed

lemma TryPop_pops_left:
  assumes "TryPop r = (Some v, r')"
  shows "pops_left r' < pops_left r"
proof (cases "rg_cached_head r = rg_tail r")
  case True
  then have "rg_head r \<noteq> rg_tail r"
    and r': "r' = r\<lparr>rg_cached_head := rg_head r, rg_tail := rg_tail r + 1\<rparr>"
    using assms by (auto simp: TryPop_def Let_def split: if_splits)
  have "unat (rg_head r - (rg_tail r + 1)) < 2 ^ 64"
    using unat_less_2_64 [of "rg_head r - (rg_tail r + 1)"] by simp
  then show ?thesis using True \<open>rg_head r \<noteq> rg_tail r\<close> by (simp add: r' pops_left_def)
next
  case False
  then have r': "r' = r\<lparr>rg_tail := rg_tail r + 1\<rparr>"
    using assms by (auto simp: TryPop_def Let_def split: if_splits)
  show ?thesis using unat_sub_succ [OF False] by (simp add: r' pops_left_def)
qed

function drain_ring :: "'a SpscRing \<Rightarrow> 'a list \<Rightarrow> 'a list \<times> 'a SpscRing" where
  "drain_ring r free =
     (case TryPop r of
        (Some index, r') \<Rightarrow> drain_ring r' (free @ [index])
      | (None, r') \<Rightarrow> (free, r'))"
  by pat_completeness auto
termination
  by (relation "measure (\<lambda>(r, free). pops_left r)") (auto intro: TryPop_pops_left [OF sym])

declare drain_ring.simps [simp del]

definition DrainRecycled :: "LaneStorage \<Rightarrow> LaneStorage" where
  "DrainRecycled st =
     (let (free, recycled) = drain_ring (ls_recycled st) (ls_free st)
      in st\<lparr>ls_free := free, ls_recycled := recycled\<rparr>)"

text \<open>The \<open>memcpy\<close> into the arena.\<close>

definition arena_write :: "nat \<Rightarrow> byte list \<Rightarrow> byte option list \<Rightarrow> byte option list" where
  "arena_write offset body arena =
     take offset arena @ map Some body @ drop (offset + length body) arena"

definition TryPublish ::
  "ParsedHeader \<Rightarrow> byte list \<Rightarrow> u64 \<Rightarrow> u64 \<Rightarrow> LaneStorage \<Rightarrow> bool \<times> LaneStorage" where
  "TryPublish header body ingress_sequence receive_monotonic_ns st =
    (if length body > ls_maximum_body_bytes st \<or> length body > U32_MAX then (False, st)
     else
       let st1 = DrainRecycled st in
       if ls_free st1 = [] then (False, st1)
       else
         let index = last (ls_free st1);
             metadata = \<lparr>lm_header = header, lm_ingress_sequence = ingress_sequence,
               lm_receive_monotonic_ns = receive_monotonic_ns,
               lm_body_size = of_nat (length body)\<rparr>;
             st2 = st1\<lparr>ls_free := butlast (ls_free st1),
               ls_metadata := (ls_metadata st1)[unat index := Some metadata],
               ls_arena := arena_write (unat index * ls_maximum_body_bytes st1) body
                 (ls_arena st1)\<rparr>;
             (pushed, ready) = TryPush index (ls_ready st2);
             st3 = st2\<lparr>ls_ready := ready\<rparr> in
         if \<not> pushed then (False, st3\<lparr>ls_free := ls_free st3 @ [index]\<rparr>)
         else (True, st3))"

text \<open>The view of a slot; \<open>None\<close> where the code would read memory that was never written.\<close>

definition slot_view :: "LaneStorage \<Rightarrow> u32 \<Rightarrow> OwnedMessageView option" where
  "slot_view st index =
    (case ls_metadata st ! unat index of
       None \<Rightarrow> None
     | Some metadata \<Rightarrow>
         let cells = take (unat (lm_body_size metadata))
               (drop (unat index * ls_maximum_body_bytes st) (ls_arena st)) in
         if None \<in> set cells then None
         else Some \<lparr>mv_header = lm_header metadata,
           mv_ingress_sequence = lm_ingress_sequence metadata,
           mv_receive_monotonic_ns = lm_receive_monotonic_ns metadata,
           mv_body = map the cells\<rparr>)"

definition TryConsume ::
  "LaneStorage \<Rightarrow> (u32 \<times> OwnedMessageView option) option \<times> LaneStorage" where
  "TryConsume st =
    (let (r, ready) = TryPop (ls_ready st); st1 = st\<lparr>ls_ready := ready\<rparr> in
     case r of
       None \<Rightarrow> (None, st1)
     | Some index \<Rightarrow> (Some (index, slot_view st1 index), st1))"

definition Release :: "u32 \<Rightarrow> LaneStorage \<Rightarrow> bool \<times> LaneStorage" where
  "Release index st =
    (if unat index < ls_slot_count st
     then let (pushed, recycled) = TryPush index (ls_recycled st)
          in (pushed, st\<lparr>ls_recycled := recycled\<rparr>)
     else (False, st))"

definition lane_empty :: "LaneStorage \<Rightarrow> bool" where
  "lane_empty st = ring_empty (ls_ready st)"

section \<open>The slots are partitioned\<close>

text \<open>
  \<open>held\<close> are the slots the worker has popped and not yet released.  Every slot is exactly once
  free, ready, held or recycled, and every ready or held slot is fully written.
\<close>

definition body_fits :: "LaneStorage \<Rightarrow> u32 \<Rightarrow> bool" where
  "body_fits st i \<longleftrightarrow> (\<exists>m. ls_metadata st ! unat i = Some m \<and>
      unat (lm_body_size m) \<le> ls_maximum_body_bytes st)"

definition lane_ok :: "u32 list \<Rightarrow> LaneStorage \<Rightarrow> bool" where
  "lane_ok held st \<longleftrightarrow>
     ls_slot_count st \<le> 2 ^ 32 \<and>
     length (ls_metadata st) = ls_slot_count st \<and>
     length (ls_arena st) = ls_slot_count st * ls_maximum_body_bytes st \<and>
     ring_ok (ls_ready st) \<and> ring_ok (ls_recycled st) \<and>
     ls_slot_count st \<le> rg_capacity (ls_ready st) \<and>
     ls_slot_count st \<le> rg_capacity (ls_recycled st) \<and>
     mset (ls_free st @ ring_list (ls_ready st) @ held @ ring_list (ls_recycled st))
       = mset (map of_nat [0 ..< ls_slot_count st]) \<and>
     (\<forall>i \<in> set (ring_list (ls_ready st) @ held). slot_view st i \<noteq> None \<and> body_fits st i)"

text \<open>The messages waiting in the lane, oldest first.\<close>

definition lane_queue :: "LaneStorage \<Rightarrow> OwnedMessageView list" where
  "lane_queue st = map (\<lambda>i. the (slot_view st i)) (ring_list (ls_ready st))"

lemma lane_okD:
  assumes "lane_ok held st"
  shows "ls_slot_count st \<le> 2 ^ 32" "length (ls_metadata st) = ls_slot_count st"
    "length (ls_arena st) = ls_slot_count st * ls_maximum_body_bytes st"
    "ring_ok (ls_ready st)" "ring_ok (ls_recycled st)"
    "ls_slot_count st \<le> rg_capacity (ls_ready st)"
    "ls_slot_count st \<le> rg_capacity (ls_recycled st)"
    "mset (ls_free st) + mset (ring_list (ls_ready st)) + mset held
       + mset (ring_list (ls_recycled st)) = mset (map of_nat [0 ..< ls_slot_count st])"
    "i \<in> set (ring_list (ls_ready st)) \<Longrightarrow> slot_view st i \<noteq> None"
    "i \<in> set held \<Longrightarrow> slot_view st i \<noteq> None"
    "i \<in> set (ring_list (ls_ready st) @ held) \<Longrightarrow> body_fits st i"
  using assms by (simp_all add: lane_ok_def ac_simps)

lemma lane_counts:
  assumes "lane_ok held st"
  shows "length (ls_free st) + length (ring_list (ls_ready st)) + length held
    + length (ring_list (ls_recycled st)) = ls_slot_count st"
  using arg_cong [OF lane_okD(8) [OF assms], of size] by simp

lemma distinct_slots:
  assumes "n \<le> 2 ^ 32"
  shows "distinct (map (of_nat :: nat \<Rightarrow> u32) [0 ..< n])"
proof -
  have "inj_on (of_nat :: nat \<Rightarrow> u32) (set [0 ..< n])"
  proof (rule inj_onI)
    fix x y assume "x \<in> set [0 ..< n]" "y \<in> set [0 ..< n]" "of_nat x = (of_nat y :: u32)"
    then have "unat (of_nat x :: u32) = unat (of_nat y :: u32)" "x < 2 ^ 32" "y < 2 ^ 32"
      using assms by auto
    then show "x = y" by (simp add: unat_of_nat take_bit_nat_eq_self)
  qed
  then show ?thesis by (simp add: distinct_map)
qed

lemma lane_slots:
  assumes "lane_ok held st"
  shows "distinct (ls_free st @ ring_list (ls_ready st) @ held @ ring_list (ls_recycled st))"
    and "i \<in> set (ls_free st @ ring_list (ls_ready st) @ held @ ring_list (ls_recycled st))
      \<Longrightarrow> unat i < ls_slot_count st"
proof -
  have eq: "mset (ls_free st @ ring_list (ls_ready st) @ held @ ring_list (ls_recycled st))
      = mset (map of_nat [0 ..< ls_slot_count st])"
    using assms by (simp add: lane_ok_def)
  show "distinct (ls_free st @ ring_list (ls_ready st) @ held @ ring_list (ls_recycled st))"
    using distinct_slots [OF lane_okD(1) [OF assms]] mset_eq_imp_distinct_iff [OF eq] by simp
  assume "i \<in> set (ls_free st @ ring_list (ls_ready st) @ held @ ring_list (ls_recycled st))"
  then have "i \<in> set (map of_nat [0 ..< ls_slot_count st])" by (simp only: mset_eq_setD [OF eq])
  then obtain k where "i = of_nat k" "k < ls_slot_count st" by auto
  then show "unat i < ls_slot_count st"
    using lane_okD(1) [OF assms] by (simp add: unat_of_nat take_bit_nat_eq_self)
qed

section \<open>The loop of DrainRecycled\<close>

lemma drain_ring_spec:
  assumes "ring_ok r" and "drain_ring r free = (free', r')"
  shows "ring_ok r' \<and> ring_list r' = [] \<and> free' = free @ ring_list r
    \<and> rg_capacity r' = rg_capacity r"
  using assms
proof (induction r free rule: drain_ring.induct)
  case (1 r free)
  show ?case
  proof (cases rule: ring.pop_cases [OF "1.prems"(1)])
    case (1 q)
    then show ?thesis using "1.prems"(2) by (subst (asm) drain_ring.simps) auto
  next
    case (2 v q)
    then have rec: "drain_ring q (free @ [v]) = (free', r')"
      using "1.prems"(2) by (subst (asm) drain_ring.simps) auto
    from "1.IH" [OF 2(1) [symmetric] refl 2(2) rec] 2 show ?thesis by simp
  qed
qed

lemma DrainRecycled_spec:
  assumes "lane_ok held st"
  shows "lane_ok held (DrainRecycled st)" and "lane_queue (DrainRecycled st) = lane_queue st"
    and "ring_list (ls_recycled (DrainRecycled st)) = []"
    and "ls_free (DrainRecycled st) = ls_free st @ ring_list (ls_recycled st)"
    and "ls_ready (DrainRecycled st) = ls_ready st"
    and "ls_slot_count (DrainRecycled st) = ls_slot_count st"
    and "ls_maximum_body_bytes (DrainRecycled st) = ls_maximum_body_bytes st"
    and "slot_view (DrainRecycled st) = slot_view st"
proof -
  obtain free r where d: "drain_ring (ls_recycled st) (ls_free st) = (free, r)"
    by (cases "drain_ring (ls_recycled st) (ls_free st)")
  then have st: "DrainRecycled st = st\<lparr>ls_free := free, ls_recycled := r\<rparr>"
    by (simp add: DrainRecycled_def)
  have r: "ring_ok r" "ring_list r = []" "free = ls_free st @ ring_list (ls_recycled st)"
    "rg_capacity r = rg_capacity (ls_recycled st)"
    using drain_ring_spec [OF lane_okD(5) [OF assms] d] by auto
  show view: "slot_view (DrainRecycled st) = slot_view st"
    by (intro ext) (simp add: st slot_view_def Let_def cong: option.case_cong)
  show "lane_ok held (DrainRecycled st)"
    using assms r unfolding lane_ok_def view by (simp add: st body_fits_def ac_simps)
  show "lane_queue (DrainRecycled st) = lane_queue st" unfolding lane_queue_def view by (simp add: st)
  show "ring_list (ls_recycled (DrainRecycled st)) = []"
    "ls_free (DrainRecycled st) = ls_free st @ ring_list (ls_recycled st)"
    "ls_ready (DrainRecycled st) = ls_ready st"
    "ls_slot_count (DrainRecycled st) = ls_slot_count st"
    "ls_maximum_body_bytes (DrainRecycled st) = ls_maximum_body_bytes st"
    using r by (simp_all add: st)
qed

section \<open>Writing one slot leaves the others alone\<close>

lemma length_arena_write:
  "offset + length body \<le> length arena \<Longrightarrow> length (arena_write offset body arena) = length arena"
  by (simp add: arena_write_def)

lemma arena_write_same:
  assumes "offset + length body \<le> length arena"
  shows "take (length body) (drop offset (arena_write offset body arena)) = map Some body"
  using assms by (simp add: arena_write_def)

lemma arena_write_other:
  assumes "offset + length body \<le> length arena"
    and "o' + n \<le> offset \<or> offset + length body \<le> o'"
  shows "take n (drop o' (arena_write offset body arena)) = take n (drop o' arena)"
proof (rule nth_equalityI)
  have len: "length (arena_write offset body arena) = length arena"
    by (rule length_arena_write [OF assms(1)])
  then show "length (take n (drop o' (arena_write offset body arena))) = length (take n (drop o' arena))"
    by simp
  fix i assume i: "i < length (take n (drop o' (arena_write offset body arena)))"
  then have "arena_write offset body arena ! (o' + i) = arena ! (o' + i)"
    using assms len by (auto simp: arena_write_def nth_append)
  then show "take n (drop o' (arena_write offset body arena)) ! i = take n (drop o' arena) ! i"
    using i len by (simp add: nth_drop less_diff_conv)
qed

lemma slot_extent:
  fixes i n m :: nat
  assumes "i < n"
  shows "i * m + m \<le> n * m"
proof -
  have "Suc i * m \<le> n * m" using assms by (intro mult_le_mono1) simp
  then show ?thesis by simp
qed

lemma slot_disjoint:
  fixes i j m :: nat
  assumes "i \<noteq> j"
  shows "i * m + m \<le> j * m \<or> j * m + m \<le> i * m"
  using assms slot_extent [of i j m] slot_extent [of j i m] by (auto simp: neq_iff)

definition write_slot ::
  "u32 \<Rightarrow> LaneMessageMetadata \<Rightarrow> byte list \<Rightarrow> LaneStorage \<Rightarrow> LaneStorage" where
  "write_slot index metadata body st =
     st\<lparr>ls_metadata := (ls_metadata st)[unat index := Some metadata],
        ls_arena := arena_write (unat index * ls_maximum_body_bytes st) body (ls_arena st)\<rparr>"

lemma write_slot_same:
  assumes "unat index < ls_slot_count st" and "length body \<le> ls_maximum_body_bytes st"
    and "length body \<le> U32_MAX"
    and "length (ls_metadata st) = ls_slot_count st"
    and "length (ls_arena st) = ls_slot_count st * ls_maximum_body_bytes st"
    and "lm_body_size metadata = of_nat (length body)"
  shows "slot_view (write_slot index metadata body st) index = Some
    \<lparr>mv_header = lm_header metadata, mv_ingress_sequence = lm_ingress_sequence metadata,
     mv_receive_monotonic_ns = lm_receive_monotonic_ns metadata, mv_body = body\<rparr>"
proof -
  have size: "unat (lm_body_size metadata) = length body"
    using assms(3,6) by (simp add: U32_MAX_def unat_of_nat take_bit_nat_eq_self)
  have fits: "unat index * ls_maximum_body_bytes st + length body \<le> length (ls_arena st)"
    using slot_extent [OF assms(1), of "ls_maximum_body_bytes st"] assms(2,5) by simp
  have cells: "take (length body) (drop (unat index * ls_maximum_body_bytes st)
      (ls_arena (write_slot index metadata body st))) = map Some body"
    using arena_write_same [OF fits] by (simp add: write_slot_def)
  have m: "ls_metadata (write_slot index metadata body st) ! unat index = Some metadata"
    using assms(1,4) by (simp add: write_slot_def)
  have b: "ls_maximum_body_bytes (write_slot index metadata body st) = ls_maximum_body_bytes st"
    by (simp add: write_slot_def)
  show ?thesis
    unfolding slot_view_def m b option.case Let_def size cells by (auto simp: comp_def)
qed

lemma write_slot_other:
  assumes "unat index < ls_slot_count st" and "length body \<le> ls_maximum_body_bytes st"
    and "length (ls_arena st) = ls_slot_count st * ls_maximum_body_bytes st"
    and "i \<noteq> index" and fits: "body_fits st i"
  shows "slot_view (write_slot index metadata body st) i = slot_view st i"
proof -
  from fits obtain m where m: "ls_metadata st ! unat i = Some m"
    "unat (lm_body_size m) \<le> ls_maximum_body_bytes st" by (auto simp: body_fits_def)
  have ne: "unat i \<noteq> unat index" using assms(4) by (simp add: word_unat_eq_iff)
  have "unat index * ls_maximum_body_bytes st + length body \<le> length (ls_arena st)"
    using slot_extent [OF assms(1), of "ls_maximum_body_bytes st"] assms(2,3) by simp
  then have cells: "take (unat (lm_body_size m)) (drop (unat i * ls_maximum_body_bytes st)
      (arena_write (unat index * ls_maximum_body_bytes st) body (ls_arena st)))
      = take (unat (lm_body_size m)) (drop (unat i * ls_maximum_body_bytes st) (ls_arena st))"
    using slot_disjoint [OF ne, of "ls_maximum_body_bytes st"] m(2) assms(2)
    by (intro arena_write_other) auto
  show ?thesis
    using ne m by (simp add: slot_view_def write_slot_def cells)
qed

section \<open>Publishing, consuming and releasing\<close>

definition message_view :: "ParsedHeader \<Rightarrow> byte list \<Rightarrow> u64 \<Rightarrow> u64 \<Rightarrow> OwnedMessageView" where
  "message_view header body ingress receive = \<lparr>mv_header = header, mv_ingress_sequence = ingress,
     mv_receive_monotonic_ns = receive, mv_body = body\<rparr>"

lemma mset_butlast_last: "xs \<noteq> [] \<Longrightarrow> mset (butlast xs) + {#last xs#} = mset xs"
  by (metis append_butlast_last_id mset.simps(1) mset.simps(2) union_code)

lemma TryPublish_spec:
  assumes ok: "lane_ok held st" and pub: "TryPublish header body ingress receive st = (res, st')"
  shows "lane_ok held st'"
    and "res \<longleftrightarrow> length body \<le> ls_maximum_body_bytes st \<and> length body \<le> U32_MAX
           \<and> length (lane_queue st) + length held < ls_slot_count st"
    and "lane_queue st' = lane_queue st @ (if res then [message_view header body ingress receive] else [])"
    and "\<forall>i \<in> set held. slot_view st' i = slot_view st i"
    and "ls_slot_count st' = ls_slot_count st"
    and "ls_maximum_body_bytes st' = ls_maximum_body_bytes st"
proof -
  let ?goal = "lane_ok held st' \<and>
    (res \<longleftrightarrow> length body \<le> ls_maximum_body_bytes st \<and> length body \<le> U32_MAX
           \<and> length (lane_queue st) + length held < ls_slot_count st) \<and>
    lane_queue st' = lane_queue st @ (if res then [message_view header body ingress receive] else []) \<and>
    (\<forall>i \<in> set held. slot_view st' i = slot_view st i) \<and>
    ls_slot_count st' = ls_slot_count st \<and> ls_maximum_body_bytes st' = ls_maximum_body_bytes st"
  let ?st1 = "DrainRecycled st"
  note D = DrainRecycled_spec [OF ok]
  have n: "length (ls_free ?st1) + length (lane_queue st) + length held = ls_slot_count st"
    using lane_counts [OF D(1)] D by (simp add: lane_queue_def)
  have ?goal
  proof (cases "length body > ls_maximum_body_bytes st \<or> length body > U32_MAX")
    case True
    then show ?thesis using pub ok by (auto simp: TryPublish_def)
  next
    case small: False
    show ?thesis
    proof (cases "ls_free ?st1 = []")
      case True
      then have "res = False" "st' = ?st1" using pub small by (auto simp: TryPublish_def Let_def)
      then show ?thesis using D n True by simp
    next
      case False
      define index where "index = last (ls_free ?st1)"
      define md where "md = \<lparr>lm_header = header, lm_ingress_sequence = ingress,
          lm_receive_monotonic_ns = receive, lm_body_size = of_nat (length body)\<rparr>"
      define w where "w = write_slot index md body ?st1"
      have i_in: "index \<in> set (ls_free ?st1)" using False by (simp add: index_def)
      have i_less: "unat index < ls_slot_count ?st1" using lane_slots(2) [OF D(1)] i_in by simp
      have i_new: "index \<notin> set (ring_list (ls_ready ?st1) @ held)"
        using lane_slots(1) [OF D(1)] i_in by auto
      have room: "length (ring_list (ls_ready ?st1)) < rg_capacity (ls_ready ?st1)"
        using n False lane_okD(6) [OF D(1)] D(6) by (cases "ls_free ?st1") (simp_all add: lane_queue_def D(5))
      obtain q where q: "TryPush index (ls_ready ?st1) = (True, q)" "ring_ok q"
        "ring_list q = ring_list (ls_ready ?st1) @ [index]" "rg_capacity q = rg_capacity (ls_ready ?st1)"
        using ring.push_cases [OF lane_okD(4) [OF D(1)], of index] room by force
      have res: "res = True" and
        "st' = ?st1\<lparr>ls_free := butlast (ls_free ?st1), ls_metadata := ls_metadata w,
          ls_arena := ls_arena w, ls_ready := q\<rparr>"
        using pub small False q(1)
        by (simp_all add: TryPublish_def Let_def w_def write_slot_def md_def index_def)
      then have "st' = w\<lparr>ls_free := butlast (ls_free ?st1), ls_ready := q\<rparr>"
        by (intro LaneStorage.equality) (simp_all add: w_def write_slot_def)
      note st' = res this
      have same: "slot_view st' = slot_view w"
        by (intro ext) (simp add: st' slot_view_def Let_def cong: option.case_cong)
      have fits: "body_fits ?st1 i" if "i \<in> set (ring_list (ls_ready ?st1) @ held)" for i
        by (rule lane_okD(11) [OF D(1) that])
      have old: "slot_view w i = slot_view ?st1 i" if "i \<in> set (ring_list (ls_ready ?st1) @ held)" for i
        unfolding w_def using that i_new small D(7) lane_okD(3) [OF D(1)] i_less fits [OF that]
        by (intro write_slot_other) auto
      have new: "slot_view w index = Some (message_view header body ingress receive)"
        unfolding w_def using small D(7) i_less lane_okD(2,3) [OF D(1)]
        by (subst write_slot_same) (simp_all add: md_def message_view_def)
      have fits': "body_fits st' i" if "i \<in> set (index # ring_list (ls_ready ?st1) @ held)" for i
      proof (cases "i = index")
        case True
        then show ?thesis using i_less lane_okD(2) [OF D(1)] small D(7)
          by (simp add: body_fits_def st' w_def write_slot_def md_def U32_MAX_def unat_of_nat
              take_bit_nat_eq_self)
      next
        case False
        then have "unat i \<noteq> unat index" by (simp add: word_unat_eq_iff)
        then show ?thesis using fits [of i] that False
          by (auto simp: body_fits_def st' w_def write_slot_def)
      qed
      have parts: "mset (butlast (ls_free ?st1)) + {#index#} = mset (ls_free ?st1)"
        unfolding index_def by (rule mset_butlast_last [OF False])
      have arena: "length (ls_arena w) = length (ls_arena ?st1)"
        using slot_extent [OF i_less, of "ls_maximum_body_bytes ?st1"] small D(7) lane_okD(3) [OF D(1)]
        by (simp add: w_def write_slot_def length_arena_write)
      have "lane_ok held st'"
        unfolding lane_ok_def
      proof (intro conjI)
        show "mset (ls_free st' @ ring_list (ls_ready st') @ held @ ring_list (ls_recycled st'))
            = mset (map of_nat [0 ..< ls_slot_count st'])"
        proof -
          have "mset (ls_free st' @ ring_list (ls_ready st') @ held @ ring_list (ls_recycled st'))
              = (mset (butlast (ls_free ?st1)) + {#index#}) + mset (ring_list (ls_ready ?st1))
                + mset held + mset (ring_list (ls_recycled ?st1))"
            by (simp add: st' w_def write_slot_def q(3))
          also have "\<dots> = mset (map of_nat [0 ..< ls_slot_count ?st1])"
            by (simp only: parts lane_okD(8) [OF D(1)])
          finally show ?thesis by (simp add: st' w_def write_slot_def)
        qed
        show "\<forall>i \<in> set (ring_list (ls_ready st') @ held). slot_view st' i \<noteq> None \<and> body_fits st' i"
          unfolding same using q(3) fits' old new lane_okD(9,10) [OF D(1)]
          by (auto simp: st' simp flip: not_None_eq)
      qed (use lane_okD(1-7) [OF D(1)] q arena in \<open>simp_all add: st' w_def write_slot_def\<close>)
      moreover have "lane_queue st' = lane_queue st @ [message_view header body ingress receive]"
      proof -
        have "lane_queue st' = map (\<lambda>i. the (slot_view w i)) (ring_list (ls_ready ?st1)) @
            [the (slot_view w index)]" unfolding lane_queue_def same by (simp add: st' q(3))
        also have "map (\<lambda>i. the (slot_view w i)) (ring_list (ls_ready ?st1)) = lane_queue ?st1"
          unfolding lane_queue_def using old by simp
        finally show ?thesis using new D(2) by simp
      qed
      moreover have "length (lane_queue st) + length held < ls_slot_count st"
        using n False by (cases "ls_free ?st1") simp_all
      moreover have "\<forall>i \<in> set held. slot_view st' i = slot_view st i"
        unfolding same using old D(8) by simp
      ultimately show ?thesis using small D(6,7) st'(1) by (simp add: st' w_def write_slot_def)
    qed
  qed
  then show "lane_ok held st'"
    "res \<longleftrightarrow> length body \<le> ls_maximum_body_bytes st \<and> length body \<le> U32_MAX
           \<and> length (lane_queue st) + length held < ls_slot_count st"
    "lane_queue st' = lane_queue st @ (if res then [message_view header body ingress receive] else [])"
    "\<forall>i \<in> set held. slot_view st' i = slot_view st i"
    "ls_slot_count st' = ls_slot_count st" "ls_maximum_body_bytes st' = ls_maximum_body_bytes st"
    by blast+
qed

lemma TryConsume_spec:
  assumes ok: "lane_ok held st" and con: "TryConsume st = (r, st')"
  shows "case r of
      None \<Rightarrow> lane_queue st = [] \<and> lane_ok held st'
    | Some (index, view) \<Rightarrow> lane_ok (held @ [index]) st' \<and> view \<noteq> None \<and>
        lane_queue st = the view # lane_queue st' \<and> slot_view st' index = view \<and> index \<notin> set held"
    and "ls_slot_count st' = ls_slot_count st"
    and "ls_maximum_body_bytes st' = ls_maximum_body_bytes st"
    and "slot_view st' = slot_view st"
proof -
  obtain v q where p: "TryPop (ls_ready st) = (v, q)" by (cases "TryPop (ls_ready st)")
  have st': "st' = st\<lparr>ls_ready := q\<rparr>"
    and r: "r = (case v of None \<Rightarrow> None | Some i \<Rightarrow> Some (i, slot_view st' i))"
    using con p by (auto simp: TryConsume_def Let_def split: option.splits)
  show shape: "ls_slot_count st' = ls_slot_count st" "ls_maximum_body_bytes st' = ls_maximum_body_bytes st"
    by (simp_all add: st')
  show same: "slot_view st' = slot_view st"
    by (intro ext) (simp add: st' slot_view_def Let_def cong: option.case_cong)
  have bf: "body_fits st' i = body_fits st i" for i by (simp add: st' body_fits_def)
  show "case r of
      None \<Rightarrow> lane_queue st = [] \<and> lane_ok held st'
    | Some (index, view) \<Rightarrow> lane_ok (held @ [index]) st' \<and> view \<noteq> None \<and>
        lane_queue st = the view # lane_queue st' \<and> slot_view st' index = view \<and> index \<notin> set held"
  proof (cases rule: ring.pop_cases [OF lane_okD(4) [OF ok]])
    case (1 q1)
    then have q: "v = None" "q = q1" using p by simp_all
    have "lane_ok held st'"
      using ok 1 unfolding lane_ok_def same bf by (simp add: st' q)
    then show ?thesis using 1 by (simp add: r q lane_queue_def)
  next
    case (2 i q1)
    then have q: "v = Some i" "q = q1" using p by simp_all
    have "lane_ok (held @ [i]) st'"
      using ok 2 unfolding lane_ok_def same bf by (auto simp: st' q ac_simps)
    moreover have "i \<notin> set held" using lane_slots(1) [OF ok] 2(3) by auto
    moreover have "lane_queue st = the (slot_view st i) # lane_queue st'"
      unfolding lane_queue_def same by (simp add: 2(3) st' q)
    moreover have "slot_view st i \<noteq> None" using lane_okD(9) [OF ok, of i] 2(3) by simp
    ultimately show ?thesis by (simp add: r q same)
  qed
qed

lemma Release_spec:
  assumes ok: "lane_ok (held @ [index]) st" and rel: "Release index st = (res, st')"
  shows "res" and "lane_ok held st'" and "lane_queue st' = lane_queue st"
    and "ls_slot_count st' = ls_slot_count st"
    and "ls_maximum_body_bytes st' = ls_maximum_body_bytes st"
proof -
  have less: "unat index < ls_slot_count st" using lane_slots(2) [OF ok, of index] by simp
  have room: "length (ring_list (ls_recycled st)) < rg_capacity (ls_recycled st)"
    using lane_counts [OF ok] lane_okD(7) [OF ok] by simp
  obtain q where q: "TryPush index (ls_recycled st) = (True, q)" "ring_ok q"
    "ring_list q = ring_list (ls_recycled st) @ [index]"
    "rg_capacity q = rg_capacity (ls_recycled st)"
    using ring.push_cases [OF lane_okD(5) [OF ok], of index] room by force
  have st': "res = True" "st' = st\<lparr>ls_recycled := q\<rparr>"
    using rel less q by (auto simp: Release_def)
  have same: "slot_view st' = slot_view st"
    by (intro ext) (simp add: st' slot_view_def Let_def cong: option.case_cong)
  have bf: "body_fits st' i = body_fits st i" for i by (simp add: st' body_fits_def)
  show res using st' by simp
  show "lane_ok held st'"
    using ok q unfolding lane_ok_def same bf by (simp add: st' ac_simps)
  show "lane_queue st' = lane_queue st" unfolding lane_queue_def same by (simp add: st')
  show "ls_slot_count st' = ls_slot_count st" "ls_maximum_body_bytes st' = ls_maximum_body_bytes st"
    by (simp_all add: st')
qed

lemma new_lane_storage_ok:
  assumes "new_lane_storage n m = Some st" and "n \<le> 2 ^ 32"
  shows "lane_ok [] st" and "lane_queue st = []" and "ls_slot_count st = n"
    and "ls_maximum_body_bytes st = m"
proof -
  obtain ready recycled where r: "new_ring n = Some (ready :: u32 SpscRing)"
    "new_ring n = Some (recycled :: u32 SpscRing)"
    and st: "st = \<lparr>ls_slot_count = n, ls_maximum_body_bytes = m,
          ls_metadata = replicate n None, ls_arena = replicate (n * m) None,
          ls_ready = ready, ls_recycled = recycled, ls_free = map of_nat (rev [0 ..< n])\<rparr>"
    using assms(1) by (auto simp: new_lane_storage_def split: option.splits)
  have e: "ring_ok ready" "ring_list ready = []" "n \<le> rg_capacity ready"
    "ring_ok recycled" "ring_list recycled = []" "n \<le> rg_capacity recycled"
    using new_ring_ok [OF r(1)] new_ring_ok [OF r(2)] by auto
  show "lane_ok [] st" using e assms(2) by (simp add: lane_ok_def st)
  show "lane_queue st = []" using e by (simp add: lane_queue_def st)
  show "ls_slot_count st = n" "ls_maximum_body_bytes st = m" by (simp_all add: st)
qed

lemma new_lane_storage_Some:
  assumes "0 < n" and "n \<le> 2 ^ 32"
  shows "\<exists>st. new_lane_storage n m = Some st"
proof -
  have "CheckedRingCapacity n \<noteq> None"
    using assms round_up_loop_less [of 1 n]
    by (auto simp: CheckedRingCapacity_def RoundUpPowerOfTwo_def SIZE_MAX_def)
  then show ?thesis by (auto simp: new_lane_storage_def new_ring_def)
qed

end
