(* ===== verification/Probing.thy ===== *)
theory Probing
  imports Prelude
begin

text \<open>
  Open addressing with linear probing, as a data structure: a table of cells holding an index
  plus one (zero is free), and the list of the keys in insertion order.  \<open>probe_inv\<close> is the
  invariant, \<open>stops_at\<close> says where a probe loop for a key ends, and the lemmas say that it
  always ends, at the key's own cell or at a free one, and that filling that free cell with the
  next index keeps the invariant.
\<close>

definition probe_pos :: "'c list \<Rightarrow> nat \<Rightarrow> nat \<Rightarrow> nat" where
  "probe_pos T h j = (h + j) mod length T"

definition probe_inv :: "nat list \<Rightarrow> ('k \<Rightarrow> nat) \<Rightarrow> 'k list \<Rightarrow> bool" where
  "probe_inv T home keys \<longleftrightarrow> length keys < length T \<and> distinct keys \<and>
     (\<forall>s < length T. T ! s \<le> length keys) \<and>
     (\<forall>s < length T. \<forall>s' < length T. T ! s \<noteq> 0 \<longrightarrow> T ! s = T ! s' \<longrightarrow> s = s') \<and>
     (\<forall>i < length keys. \<exists>j < length T. T ! probe_pos T (home (keys ! i)) j = Suc i \<and>
        (\<forall>j' < j. T ! probe_pos T (home (keys ! i)) j' \<noteq> 0))"

definition passes :: "nat list \<Rightarrow> ('k \<Rightarrow> nat) \<Rightarrow> 'k list \<Rightarrow> 'k \<Rightarrow> nat \<Rightarrow> bool" where
  "passes T home keys k j \<longleftrightarrow> T ! probe_pos T (home k) j \<noteq> 0 \<and>
     keys ! (T ! probe_pos T (home k) j - 1) \<noteq> k"

definition stops_at :: "nat list \<Rightarrow> ('k \<Rightarrow> nat) \<Rightarrow> 'k list \<Rightarrow> 'k \<Rightarrow> nat \<Rightarrow> bool" where
  "stops_at T home keys k j \<longleftrightarrow> j < length T \<and> (\<forall>j' < j. passes T home keys k j') \<and>
     \<not> passes T home keys k j"

lemma probe_invD:
  assumes "probe_inv T home keys"
  shows "length keys < length T" "distinct keys"
    "s < length T \<Longrightarrow> T ! s \<le> length keys"
    "s < length T \<Longrightarrow> s' < length T \<Longrightarrow> T ! s \<noteq> 0 \<Longrightarrow> T ! s = T ! s' \<Longrightarrow> s = s'"
    "i < length keys \<Longrightarrow> \<exists>j < length T. T ! probe_pos T (home (keys ! i)) j = Suc i \<and>
        (\<forall>j' < j. T ! probe_pos T (home (keys ! i)) j' \<noteq> 0)"
  using assms unfolding probe_inv_def by blast+

lemma probe_pos_less [simp]: "T \<noteq> [] \<Longrightarrow> probe_pos T h j < length T"
  by (simp add: probe_pos_def)

lemma probe_inv_nonempty: "probe_inv T home keys \<Longrightarrow> T \<noteq> []"
  by (auto simp: probe_inv_def)

lemma probe_free_cell:
  assumes "probe_inv T home keys"
  shows "\<exists>j < length T. T ! probe_pos T h j = 0"
proof -
  have "\<exists>s < length T. T ! s = 0"
  proof (rule ccontr)
    assume "\<not> (\<exists>s < length T. T ! s = 0)"
    then have nz: "T ! s \<noteq> 0" if "s < length T" for s using that by simp
    have "inj_on (\<lambda>s. T ! s) {..< length T}"
      using probe_invD(4) [OF assms] nz by (intro inj_onI) simp
    moreover have "(\<lambda>s. T ! s) ` {..< length T} \<subseteq> {1 .. length keys}"
    proof
      fix v assume "v \<in> (\<lambda>s. T ! s) ` {..< length T}"
      then obtain s where s: "s < length T" "v = T ! s" by auto
      then show "v \<in> {1 .. length keys}"
        using nz [OF s(1)] probe_invD(3) [OF assms s(1)] by simp
    qed
    ultimately have "card {..< length T} \<le> card {1 .. length keys}"
      by (intro card_inj_on_le) auto
    then show False using probe_invD(1) [OF assms] by simp
  qed
  then obtain s where s: "s < length T" "T ! s = 0" by blast
  from mod_shift_surj [OF s(1), of h] obtain j where "j < length T" "(h + j) mod length T = s" by blast
  then show ?thesis using s(2) by (intro exI [of _ j]) (simp add: probe_pos_def)
qed

lemma stops_exists:
  assumes "probe_inv T home keys"
  obtains j where "stops_at T home keys k j"
proof -
  let ?P = "\<lambda>j. j < length T \<and> \<not> passes T home keys k j"
  obtain j where "?P j" using probe_free_cell [OF assms, of "home k"] by (auto simp: passes_def)
  then have L: "?P (LEAST j. ?P j)" by (rule LeastI)
  have "stops_at T home keys k (LEAST j. ?P j)"
    unfolding stops_at_def
  proof (intro conjI allI impI)
    fix j' assume less: "j' < (LEAST j. ?P j)"
    then have "\<not> ?P j'" by (rule not_less_Least)
    moreover have "j' < length T" using less L by linarith
    ultimately show "passes T home keys k j'" by blast
  qed (use L in blast)+
  then show thesis by (rule that)
qed

lemma stops_hit:
  assumes I: "probe_inv T home keys" and S: "stops_at T home keys k j"
  defines "v \<equiv> T ! probe_pos T (home k) j"
  shows "v \<noteq> 0 \<Longrightarrow> v - 1 < length keys \<and> keys ! (v - 1) = k"
    and "v = 0 \<longleftrightarrow> k \<notin> set keys"
proof -
  have bound: "v \<le> length keys"
    unfolding v_def by (rule probe_invD(3) [OF I probe_pos_less [OF probe_inv_nonempty [OF I]]])
  show hit: "v \<noteq> 0 \<Longrightarrow> v - 1 < length keys \<and> keys ! (v - 1) = k"
    using S bound by (auto simp: stops_at_def passes_def v_def)
  show "v = 0 \<longleftrightarrow> k \<notin> set keys"
  proof
    assume z: "v = 0"
    show "k \<notin> set keys"
    proof
      assume "k \<in> set keys"
      then obtain i where i: "i < length keys" "keys ! i = k" by (auto simp: in_set_conv_nth)
      from probe_invD(5) [OF I i(1)] obtain m where m: "T ! probe_pos T (home k) m = Suc i"
        "\<forall>m' < m. T ! probe_pos T (home k) m' \<noteq> 0" unfolding i(2) by blast
      have "\<not> j < m" "j \<noteq> m" using m z by (auto simp: v_def)
      then have "passes T home keys k m" using S by (simp add: stops_at_def)
      then show False using m(1) i(2) by (simp add: passes_def)
    qed
  next
    assume "k \<notin> set keys"
    then show "v = 0" using hit nth_mem by metis
  qed
qed

lemma probe_insert:
  assumes I: "probe_inv T home keys" and S: "stops_at T home keys k j"
    and free: "T ! probe_pos T (home k) j = 0" and room: "Suc (length keys) < length T"
  shows "probe_inv (T[probe_pos T (home k) j := Suc (length keys)]) home (keys @ [k])"
proof -
  let ?p = "probe_pos T (home k) j" and ?n = "length keys"
  let ?T = "T[?p := Suc ?n]"
  have p: "?p < length T" using probe_inv_nonempty [OF I] by simp
  have pos: "probe_pos ?T h m = probe_pos T h m" for h m by (simp add: probe_pos_def)
  have fresh: "k \<notin> set keys" using stops_hit(2) [OF I S] free by simp
  have kept: "?T ! s = T ! s" if "T ! s \<noteq> 0" for s using that free by (cases "s = ?p") auto
  have pass: "T ! probe_pos T (home k) m \<noteq> 0" if "m < j" for m
    using S that by (simp add: stops_at_def passes_def)
  show ?thesis
    unfolding probe_inv_def
  proof (intro conjI allI impI)
    show "length (keys @ [k]) < length ?T" using room by simp
    show "distinct (keys @ [k])" using fresh probe_invD(2) [OF I] by simp
    show "?T ! s \<le> length (keys @ [k])" if "s < length ?T" for s
      using that probe_invD(3) [OF I, of s] by (cases "s = ?p") simp_all
    show "s = s'" if "s < length ?T" "s' < length ?T" "?T ! s \<noteq> 0" "?T ! s = ?T ! s'" for s s'
      using that probe_invD(3) [OF I, of s] probe_invD(3) [OF I, of s'] probe_invD(4) [OF I, of s s']
      by (cases "s = ?p"; cases "s' = ?p") simp_all
    show "\<exists>m < length ?T. ?T ! probe_pos ?T (home ((keys @ [k]) ! i)) m = Suc i \<and>
        (\<forall>m' < m. ?T ! probe_pos ?T (home ((keys @ [k]) ! i)) m' \<noteq> 0)"
      if "i < length (keys @ [k])" for i
    proof (cases "i < ?n")
      case True
      from probe_invD(5) [OF I True] obtain m where m: "m < length T"
        "T ! probe_pos T (home (keys ! i)) m = Suc i"
        "\<forall>m' < m. T ! probe_pos T (home (keys ! i)) m' \<noteq> 0" by blast
      show ?thesis
        using m kept True by (intro exI [of _ m]) (simp add: pos nth_append)
    next
      case False
      then have i: "i = ?n" using that by simp
      have "j < length T" using S by (simp add: stops_at_def)
      then show ?thesis
        using i p pass kept by (intro exI [of _ j]) (simp add: pos nth_append)
    qed
  qed
qed

lemma probe_inv_empty: "0 < n \<Longrightarrow> probe_inv (replicate n 0) home []"
  by (simp add: probe_inv_def)

lemma mask_step:
  assumes "length T = 2 ^ k"
  shows "h AND (length T - 1) = probe_pos T h 0"
    and "(probe_pos T h j + 1) AND (length T - 1) = probe_pos T h (Suc j)"
  using assms nat_and_pred_pow2 [OF assms] by (simp_all add: probe_pos_def mod_simps)

end
