(* ===== verification/Catalog.thy ===== *)
theory Catalog
  imports Canonical Text_Input Probing
begin

text \<open>
  Component \<open>src/catalog.cpp\<close>: the instrument catalog, an open-addressing hash table from
  exact identities (market, security id source, security id) to instrument numbers, its builder,
  its CSV reader and its lookup.  The builder refines a finite map.  Allocation failures
  are not modelled.
\<close>

section \<open>Data\<close>

record InstrumentDefinition =
  idf_instrument_id :: u32
  idf_market :: Market
  idf_security_id_source :: string
  idf_security_id :: string

record InstrumentMatch =
  im_instrument_id :: u32
  im_ordinal :: u32

record CatalogEntry =
  ce_match :: InstrumentMatch
  ce_identity :: ExactIdentity
  ce_hash :: u64

record InstrumentCatalog =
  ic_entries :: "CatalogEntry list"
  ic_table :: "u32 list"

definition empty_catalog :: InstrumentCatalog where
  "empty_catalog = \<lparr>ic_entries = [], ic_table = []\<rparr>"

text \<open>The bytes of a \<open>std::string\<close>.\<close>

definition bytes_of :: "string \<Rightarrow> byte list" where
  "bytes_of s = map of_char s"

section \<open>Hashing\<close>

definition Mix :: "u64 \<Rightarrow> u64" where
  "Mix value0 =
    (let value1 = value0 XOR drop_bit 30 value0;
         value2 = value1 * 0xbf58476d1ce4e5b9;
         value3 = value2 XOR drop_bit 27 value2;
         value4 = value3 * 0x94d049bb133111eb in
     value4 XOR drop_bit 31 value4)"

definition fnv_append :: "byte \<Rightarrow> u64 \<Rightarrow> u64" where
  "fnv_append octet hash = (hash XOR ucast octet) * 1099511628211"

definition HashIdentity :: "Market \<Rightarrow> byte list \<Rightarrow> byte list \<Rightarrow> u64" where
  "HashIdentity market source security =
    (let h0 = 1469598103934665603;
         h1 = fnv_append (of_nat (market_code market)) h0;
         h2 = fnv_append (of_nat (length source)) h1;
         h3 = fold fnv_append source h2;
         h4 = fnv_append (of_nat (length security)) h3;
         h5 = fold fnv_append security h4 in
     Mix h5)"

definition IsPrintableAscii :: "byte list \<Rightarrow> bool" where
  "IsPrintableAscii bytes = list_all (\<lambda>octet. 0x20 \<le> octet \<and> octet \<le> 0x7e) bytes"

section \<open>Building\<close>

text \<open>\<open>std::copy\<close> of \<open>source\<close> to the beginning of a fixed array.\<close>

definition copy_to :: "byte list \<Rightarrow> byte list \<Rightarrow> byte list" where
  "copy_to source destination = source @ drop (length source) destination"

definition same_identity :: "CatalogEntry \<Rightarrow> CatalogEntry \<Rightarrow> bool" where
  "same_identity existing entry \<longleftrightarrow>
     (let e = ce_identity existing; n = ce_identity entry in
      ce_hash existing = ce_hash entry \<and> id_market e = id_market n \<and>
      security_id_source_size e = security_id_source_size n \<and>
      security_id_size e = security_id_size n \<and>
      take (unat (security_id_source_size e)) (security_id_source e)
        = take (unat (security_id_source_size e)) (security_id_source n) \<and>
      take (unat (security_id_size e)) (security_id e) = take (unat (security_id_size e)) (security_id n))"

text \<open>
  The placement loop \<open>for (;;)\<close> for a new entry: \<open>Some (Some slot)\<close> is the free slot,
  \<open>Some None\<close> an equal identity in the table.  With no probe left the loop of the source would
  run on: \<open>None\<close>.
\<close>

fun place_entry :: "nat \<Rightarrow> CatalogEntry list \<Rightarrow> u32 list \<Rightarrow> nat \<Rightarrow> CatalogEntry \<Rightarrow> nat option option" where
  "place_entry 0 entries table slot entry = None"
| "place_entry (Suc n) entries table slot entry =
    (if table ! slot = 0 then Some (Some slot)
     else if same_identity (entries ! unat (table ! slot - 1)) entry then Some None
     else place_entry n entries table ((slot + 1) AND (length table - 1)) entry)"

definition make_entry :: "InstrumentDefinition \<Rightarrow> nat \<Rightarrow> CatalogEntry" where
  "make_entry d index =
    (let source_bytes = bytes_of (idf_security_id_source d);
         security_bytes = bytes_of (idf_security_id d);
         identity = default_identity\<lparr>id_market := idf_market d,
           security_id_source_size := of_nat (length source_bytes),
           security_id_size := of_nat (length security_bytes),
           security_id_source := copy_to source_bytes empty_identity_array,
           security_id := copy_to security_bytes empty_identity_array\<rparr>;
         source = take (unat (security_id_source_size identity)) (security_id_source identity);
         security = take (unat (security_id_size identity)) (security_id identity) in
     \<lparr>ce_match = \<lparr>im_instrument_id = idf_instrument_id d, im_ordinal = of_nat index\<rparr>,
      ce_identity = identity, ce_hash = HashIdentity (idf_market d) source security\<rparr>)"

definition check_definition :: "u32 set \<Rightarrow> InstrumentDefinition \<Rightarrow> string option" where
  "check_definition ids d =
    (let security = bytes_of (idf_security_id d); source = bytes_of (idf_security_id_source d) in
     if idf_instrument_id d = 0 \<or> idf_instrument_id d \<in> ids
     then Some ''instrument_id must be nonzero and unique''
     else if idf_market d \<noteq> Market_kShanghai \<and> idf_market d \<noteq> Market_kShenzhen
     then Some ''catalog market must be SH or SZ''
     else if security = [] \<or> length security > kMaximumIdentityBytes \<or>
       length source > kMaximumIdentityBytes \<or> \<not> IsPrintableAscii security \<or> \<not> IsPrintableAscii source
     then Some (''catalog identity must be nonempty printable ASCII within the fixed '' @ ''identity bound'')
     else if idf_market d = Market_kShanghai \<and> source \<noteq> []
     then Some ''Shanghai catalog identities require an empty security_id_source''
     else if idf_market d = Market_kShenzhen \<and> source = []
     then Some ''Shenzhen catalog identities require an exact nonempty security_id_source''
     else None)"

text \<open>
  The loop over the definitions from \<open>index\<close> on.  The result is \<open>None\<close> when a placement loop
  does not end, otherwise the error string or the built catalog.
\<close>

fun build_loop :: "InstrumentDefinition list \<Rightarrow> nat \<Rightarrow> u32 set \<Rightarrow> InstrumentCatalog
    \<Rightarrow> (string + InstrumentCatalog) option" where
  "build_loop [] index ids built = Some (Inr built)"
| "build_loop (d # ds) index ids built =
    (case check_definition ids d of Some e \<Rightarrow> Some (Inl e)
     | None \<Rightarrow>
       (let entry = make_entry d index;
            slot = unat (ce_hash entry) AND (length (ic_table built) - 1) in
        case place_entry (length (ic_table built)) (ic_entries built) (ic_table built) slot entry of
          None \<Rightarrow> None
        | Some None \<Rightarrow> Some (Inl ''duplicate exact instrument identity'')
        | Some (Some free) \<Rightarrow>
            build_loop ds (index + 1) (insert (idf_instrument_id d) ids)
              \<lparr>ic_entries = ic_entries built @ [entry],
               ic_table = (ic_table built)[free := of_nat (index + 1)]\<rparr>))"

function table_size_from :: "nat \<Rightarrow> nat \<Rightarrow> nat" where
  "table_size_from table_size n =
     (if table_size = 0 \<or> n * 2 \<le> table_size then table_size else table_size_from (table_size * 2) n)"
  by pat_completeness auto
termination
  by (relation "measure (\<lambda>(table_size, n). n * 2 - table_size)") auto

declare table_size_from.simps [simp del]

definition Build :: "InstrumentDefinition list \<Rightarrow> (string + InstrumentCatalog) option" where
  "Build definitions =
    (if definitions = [] then Some (Inl ''catalog must contain at least one instrument'')
     else if length definitions \<ge> U32_MAX then Some (Inl ''catalog contains too many instruments'')
     else build_loop definitions 0 {}
       \<lparr>ic_entries = [], ic_table = replicate (table_size_from 1 (length definitions)) 0\<rparr>)"

section \<open>Lookup\<close>

fun find_loop :: "nat \<Rightarrow> InstrumentCatalog \<Rightarrow> u64 \<Rightarrow> Market \<Rightarrow> byte list \<Rightarrow> byte list \<Rightarrow> nat
    \<Rightarrow> InstrumentMatch option" where
  "find_loop 0 cat hash market source security slot = None"
| "find_loop (Suc n) cat hash market source security slot =
    (let entry_plus_one = ic_table cat ! slot in
     if entry_plus_one = 0 then None
     else let entry = ic_entries cat ! unat (entry_plus_one - 1); identity = ce_identity entry in
       if ce_hash entry = hash \<and> id_market identity = market \<and>
          unat (security_id_source_size identity) = length source \<and>
          unat (security_id_size identity) = length security \<and>
          take (length source) (security_id_source identity) = source \<and>
          take (length security) (security_id identity) = security
       then Some (ce_match entry)
       else find_loop n cat hash market source security
         ((slot + 1) AND (length (ic_table cat) - 1)))"

definition Find :: "InstrumentCatalog \<Rightarrow> Market \<Rightarrow> byte list \<Rightarrow> byte list \<Rightarrow> InstrumentMatch option" where
  "Find cat market source security =
    (if ic_table cat = [] \<or> security = [] \<or> length source > kMaximumIdentityBytes \<or>
        length security > kMaximumIdentityBytes then None
     else let hash = HashIdentity market source security in
       find_loop (length (ic_table cat)) cat hash market source security
         (unat hash AND (length (ic_table cat) - 1)))"

section \<open>The CSV reader\<close>

fun split_csv :: "string \<Rightarrow> string \<Rightarrow> string list" where
  "split_csv field [] = [field]"
| "split_csv field (c # cs) =
     (if c = CHR '','' then field # split_csv [] cs else split_csv (field @ [c]) cs)"

definition SplitCsvLine :: "string \<Rightarrow> string list" where
  "SplitCsvLine line = split_csv [] line"

definition csv_header :: string where
  "csv_header = ''instrument_id,market,security_id_source,security_id''"

definition parse_row :: "nat \<Rightarrow> string \<Rightarrow> string + InstrumentDefinition" where
  "parse_row line_number line =
    (if line = [] then Inl (''empty catalog row at line '' @ decimal line_number)
     else let fields = SplitCsvLine line in
       if length fields \<noteq> 4
       then Inl (''catalog row must contain four columns at line '' @ decimal line_number)
       else case from_chars_unsigned U32_MAX (fields ! 0) of
         Inl ec \<Rightarrow> Inl (''invalid instrument_id at line '' @ decimal line_number)
       | Inr (instrument_id, rest) \<Rightarrow>
           if rest \<noteq> [] then Inl (''invalid instrument_id at line '' @ decimal line_number)
           else if fields ! 1 = ''SH'' then
             Inr \<lparr>idf_instrument_id = of_nat instrument_id, idf_market = Market_kShanghai,
               idf_security_id_source = fields ! 2, idf_security_id = fields ! 3\<rparr>
           else if fields ! 1 = ''SZ'' then
             Inr \<lparr>idf_instrument_id = of_nat instrument_id, idf_market = Market_kShenzhen,
               idf_security_id_source = fields ! 2, idf_security_id = fields ! 3\<rparr>
           else Inl (''market must be SH or SZ at line '' @ decimal line_number))"

fun rows_loop :: "string list \<Rightarrow> nat \<Rightarrow> string + InstrumentDefinition list" where
  "rows_loop [] line_number = Inr []"
| "rows_loop (line # ls) line_number =
     rbind (parse_row (line_number + 1) (strip_cr line)) (\<lambda>d.
     rbind (rows_loop ls (line_number + 1)) (\<lambda>ds. Inr (d # ds)))"

definition LoadCsv :: "string \<Rightarrow> string option \<Rightarrow> (string + InstrumentCatalog) option" where
  "LoadCsv path file = (case file of
     None \<Rightarrow> Some (Inl (''cannot open catalog CSV: '' @ path))
   | Some text \<Rightarrow>
     (case text_lines text of
        [] \<Rightarrow> Some (Inl ''catalog CSV is empty'')
      | header # ls \<Rightarrow>
        if strip_cr header \<noteq> csv_header
        then Some (Inl ''catalog CSV header is not the required schema'')
        else case rows_loop ls 1 of
          Inl e \<Rightarrow> Some (Inl e)
        | Inr definitions \<Rightarrow> Build definitions))"


section \<open>Keys and the table invariant\<close>

type_synonym catalog_key = "Market \<times> byte list \<times> byte list"

definition entry_key :: "CatalogEntry \<Rightarrow> catalog_key" where
  "entry_key e = (let i = ce_identity e in
     (id_market i, take (unat (security_id_source_size i)) (security_id_source i),
      take (unat (security_id_size i)) (security_id i)))"

definition def_key :: "InstrumentDefinition \<Rightarrow> catalog_key" where
  "def_key d = (idf_market d, bytes_of (idf_security_id_source d), bytes_of (idf_security_id d))"

definition key_home :: "catalog_key \<Rightarrow> nat" where
  "key_home k = unat (HashIdentity (fst k) (fst (snd k)) (snd (snd k)))"

definition entry_wf :: "CatalogEntry \<Rightarrow> bool" where
  "entry_wf e \<longleftrightarrow> unat (ce_hash e) = key_home (entry_key e) \<and>
     unat (security_id_source_size (ce_identity e)) \<le> length (security_id_source (ce_identity e)) \<and>
     unat (security_id_size (ce_identity e)) \<le> length (security_id (ce_identity e))"

definition catalog_ok :: "InstrumentCatalog \<Rightarrow> bool" where
  "catalog_ok cat \<longleftrightarrow> (\<exists>k. length (ic_table cat) = 2 ^ k) \<and> list_all entry_wf (ic_entries cat) \<and>
     probe_inv (map unat (ic_table cat)) key_home (map entry_key (ic_entries cat))"

lemma catalog_okD:
  assumes "catalog_ok cat"
  shows "\<exists>k. length (ic_table cat) = 2 ^ k" "ic_table cat \<noteq> []"
    "i < length (ic_entries cat) \<Longrightarrow> entry_wf (ic_entries cat ! i)"
    "probe_inv (map unat (ic_table cat)) key_home (map entry_key (ic_entries cat))"
  using assms by (auto simp: catalog_ok_def list_all_length)

lemma same_identity_iff:
  assumes "entry_wf a" and "entry_wf b"
  shows "same_identity a b \<longleftrightarrow> entry_key a = entry_key b"
proof
  assume "same_identity a b"
  then show "entry_key a = entry_key b" unfolding same_identity_def entry_key_def Let_def
    by (elim conjE) simp
next
  assume eq: "entry_key a = entry_key b"
  then have "unat (security_id_source_size (ce_identity a)) = unat (security_id_source_size (ce_identity b))"
    "unat (security_id_size (ce_identity a)) = unat (security_id_size (ce_identity b))"
    using assms by (auto simp: entry_key_def entry_wf_def Let_def dest!: arg_cong [where f = length])
  moreover have "unat (ce_hash a) = unat (ce_hash b)"
    using assms eq by (simp add: entry_wf_def)
  ultimately show "same_identity a b"
    using eq by (simp add: same_identity_def entry_key_def Let_def word_unat_eq_iff)
qed

lemma find_match_iff:
  assumes "entry_wf e"
  shows "ce_hash e = HashIdentity m s c \<and> id_market (ce_identity e) = m \<and>
       unat (security_id_source_size (ce_identity e)) = length s \<and>
       unat (security_id_size (ce_identity e)) = length c \<and>
       take (length s) (security_id_source (ce_identity e)) = s \<and>
       take (length c) (security_id (ce_identity e)) = c \<longleftrightarrow> entry_key e = (m, s, c)"
proof
  assume "entry_key e = (m, s, c)"
  then show "ce_hash e = HashIdentity m s c \<and> id_market (ce_identity e) = m \<and>
       unat (security_id_source_size (ce_identity e)) = length s \<and>
       unat (security_id_size (ce_identity e)) = length c \<and>
       take (length s) (security_id_source (ce_identity e)) = s \<and>
       take (length c) (security_id (ce_identity e)) = c"
    using assms by (auto simp: entry_wf_def entry_key_def key_home_def Let_def word_unat_eq_iff)
qed (auto simp: entry_key_def Let_def)

section \<open>The probe loops\<close>

text \<open>The cell of the table at probe \<open>j\<close> of a key, read as a number.\<close>

lemma table_cell:
  assumes "ic_table cat \<noteq> []"
  shows "map unat (ic_table cat) ! probe_pos (map unat (ic_table cat)) h j
      = unat (ic_table cat ! probe_pos (ic_table cat) h j)"
    and "probe_pos (map unat (ic_table cat)) h j = probe_pos (ic_table cat) h j"
  using assms by (simp_all add: probe_pos_def)

lemma probe_bound:
  assumes "catalog_ok cat" and "ic_table cat ! probe_pos (ic_table cat) h j \<noteq> 0"
  shows "unat (ic_table cat ! probe_pos (ic_table cat) h j - 1) < length (ic_entries cat)"
    and "unat (ic_table cat ! probe_pos (ic_table cat) h j - 1)
      = unat (ic_table cat ! probe_pos (ic_table cat) h j) - 1"
proof -
  let ?p = "probe_pos (ic_table cat) h j" and ?c = "ic_table cat ! probe_pos (ic_table cat) h j"
  have "?p < length (map unat (ic_table cat))" using catalog_okD(2) [OF assms(1)] by simp
  from probe_invD(3) [OF catalog_okD(4) [OF assms(1)] this] have "unat ?c \<le> length (ic_entries cat)"
    using catalog_okD(2) [OF assms(1)] by simp
  moreover have "0 < unat ?c" using assms(2) by (simp add: unat_gt_0)
  moreover show "unat (?c - 1) = unat ?c - 1" using assms(2) by (rule unat_minus_one)
  ultimately show "unat (?c - 1) < length (ic_entries cat)" by linarith
qed

lemma passes_iff:
  assumes "catalog_ok cat"
  shows "passes (map unat (ic_table cat)) key_home (map entry_key (ic_entries cat)) k j \<longleftrightarrow>
    (let v = ic_table cat ! probe_pos (ic_table cat) (key_home k) j in
     v \<noteq> 0 \<and> entry_key (ic_entries cat ! unat (v - 1)) \<noteq> k)"
proof (cases "ic_table cat ! probe_pos (ic_table cat) (key_home k) j = 0")
  case True
  then show ?thesis using catalog_okD(2) [OF assms] by (simp add: passes_def table_cell Let_def)
next
  case False
  from probe_bound(1) [OF assms False] show ?thesis
    using False catalog_okD(2) [OF assms] unfolding probe_bound(2) [OF assms False] Let_def
    by (simp add: passes_def table_cell unat_eq_zero probe_bound(2) [OF assms False])
qed

lemma mask_probe:
  assumes "catalog_ok cat"
  shows "h AND (length (ic_table cat) - 1) = probe_pos (ic_table cat) h 0"
    and "(probe_pos (ic_table cat) h j + 1) AND (length (ic_table cat) - 1)
      = probe_pos (ic_table cat) h (Suc j)"
  using catalog_okD(1) [OF assms] mask_step by metis+

text \<open>The two loops walk along the passed cells up to the stop.\<close>

lemma find_loop_occupied:
  assumes C: "catalog_ok cat" and v: "ic_table cat ! probe_pos (ic_table cat) h i \<noteq> 0"
  shows "find_loop (Suc n) cat (HashIdentity m s c) m s c (probe_pos (ic_table cat) h i)
    = (let entry = ic_entries cat ! unat (ic_table cat ! probe_pos (ic_table cat) h i - 1) in
       if entry_key entry = (m, s, c) then Some (ce_match entry)
       else find_loop n cat (HashIdentity m s c) m s c (probe_pos (ic_table cat) h (Suc i)))"
proof -
  have "entry_wf (ic_entries cat ! unat (ic_table cat ! probe_pos (ic_table cat) h i - 1))"
    by (rule catalog_okD(3) [OF C probe_bound(1) [OF C v]])
  from find_match_iff [OF this] show ?thesis
    unfolding find_loop.simps Let_def mask_probe(2) [OF C] using v by (simp only: if_False)
qed

lemma find_loop_walk:
  assumes C: "catalog_ok cat" and k: "k = (m, s, c)" and hash: "hash = HashIdentity m s c"
    and S: "stops_at (map unat (ic_table cat)) key_home (map entry_key (ic_entries cat)) k j"
    and "i \<le> j"
  shows "find_loop (length (ic_table cat) - i) cat hash m s c (probe_pos (ic_table cat) (key_home k) i)
    = (let v = ic_table cat ! probe_pos (ic_table cat) (key_home k) j in
       if v = 0 then None else Some (ce_match (ic_entries cat ! unat (v - 1))))"
  using assms(5)
proof (induction "j - i" arbitrary: i)
  case 0
  then have i: "i = j" by simp
  have "j < length (ic_table cat)" using S by (simp add: stops_at_def)
  then have n: "length (ic_table cat) - j = Suc (length (ic_table cat) - Suc j)" by simp
  let ?v = "ic_table cat ! probe_pos (ic_table cat) (key_home k) j"
  have stop: "?v = 0 \<or> entry_key (ic_entries cat ! unat (?v - 1)) = k"
    using S by (auto simp: stops_at_def passes_iff [OF C] Let_def)
  show ?case
    using stop find_loop_occupied [OF C, of "key_home k" j] unfolding i n
    by (cases "?v = 0") (simp_all add: Let_def k hash del: find_loop.simps(2), simp)
next
  case (Suc d)
  then have less: "i < j" by simp
  then have "i < length (ic_table cat)" using S by (simp add: stops_at_def)
  then have n: "length (ic_table cat) - i = Suc (length (ic_table cat) - Suc i)" by simp
  let ?v = "ic_table cat ! probe_pos (ic_table cat) (key_home k) i"
  have pass: "?v \<noteq> 0" "entry_key (ic_entries cat ! unat (?v - 1)) \<noteq> k"
    using S less by (auto simp: stops_at_def passes_iff [OF C] Let_def)
  have "find_loop (length (ic_table cat) - i) cat hash m s c (probe_pos (ic_table cat) (key_home k) i)
    = find_loop (length (ic_table cat) - Suc i) cat hash m s c (probe_pos (ic_table cat) (key_home k) (Suc i))"
    unfolding n hash find_loop_occupied [OF C pass(1)] using pass(2) by (simp add: Let_def k)
  then show ?case using Suc less by simp
qed

lemma place_entry_walk:
  assumes C: "catalog_ok cat" and wf: "entry_wf e"
    and S: "stops_at (map unat (ic_table cat)) key_home (map entry_key (ic_entries cat)) (entry_key e) j"
    and "i \<le> j"
  shows "place_entry (length (ic_table cat) - i) (ic_entries cat) (ic_table cat)
      (probe_pos (ic_table cat) (key_home (entry_key e)) i) e
    = Some (let p = probe_pos (ic_table cat) (key_home (entry_key e)) j in
       if ic_table cat ! p = 0 then Some p else None)"
  using assms(4)
proof (induction "j - i" arbitrary: i)
  case 0
  then have i: "i = j" by simp
  have "j < length (ic_table cat)" using S by (simp add: stops_at_def)
  then have n: "length (ic_table cat) - j = Suc (length (ic_table cat) - Suc j)" by simp
  let ?v = "ic_table cat ! probe_pos (ic_table cat) (key_home (entry_key e)) j"
  have stop: "?v = 0 \<or> entry_key (ic_entries cat ! unat (?v - 1)) = entry_key e"
    using S by (auto simp: stops_at_def passes_iff [OF C] Let_def)
  show ?case
  proof (cases "?v = 0")
    case False
    then have "entry_wf (ic_entries cat ! unat (?v - 1))"
      using catalog_okD(3) [OF C probe_bound(1) [OF C]] by blast
    from same_identity_iff [OF this wf] show ?thesis
      using False stop unfolding i n by (simp add: Let_def)
  qed (simp add: i n Let_def)
next
  case (Suc d)
  then have less: "i < j" by simp
  then have "i < length (ic_table cat)" using S by (simp add: stops_at_def)
  then have n: "length (ic_table cat) - i = Suc (length (ic_table cat) - Suc i)" by simp
  let ?v = "ic_table cat ! probe_pos (ic_table cat) (key_home (entry_key e)) i"
  have pass: "?v \<noteq> 0" "entry_key (ic_entries cat ! unat (?v - 1)) \<noteq> entry_key e"
    using S less by (auto simp: stops_at_def passes_iff [OF C] Let_def)
  have "entry_wf (ic_entries cat ! unat (?v - 1))"
    using catalog_okD(3) [OF C probe_bound(1) [OF C pass(1)]] .
  from same_identity_iff [OF this wf]
  have "place_entry (length (ic_table cat) - i) (ic_entries cat) (ic_table cat)
      (probe_pos (ic_table cat) (key_home (entry_key e)) i) e
    = place_entry (length (ic_table cat) - Suc i) (ic_entries cat) (ic_table cat)
      (probe_pos (ic_table cat) (key_home (entry_key e)) (Suc i)) e"
    unfolding n using pass mask_probe(2) [OF C, of "key_home (entry_key e)" i] by simp
  then show ?case using Suc less by simp
qed


section \<open>Lookup is a finite map\<close>

definition catalog_map :: "InstrumentCatalog \<Rightarrow> catalog_key \<Rightarrow> InstrumentMatch option" where
  "catalog_map cat k = map_option ce_match (find (\<lambda>e. entry_key e = k) (ic_entries cat))"

lemma catalog_map_nth:
  assumes "catalog_ok cat" and "i < length (ic_entries cat)"
  shows "catalog_map cat (entry_key (ic_entries cat ! i)) = Some (ce_match (ic_entries cat ! i))"
proof -
  have "distinct (map entry_key (ic_entries cat))"
    by (rule probe_invD(2) [OF catalog_okD(4) [OF assms(1)]])
  then have "find (\<lambda>e. entry_key e = entry_key (ic_entries cat ! i)) (ic_entries cat)
      = Some (ic_entries cat ! i)"
    using assms(2) by (auto simp: find_Some_iff nth_eq_iff_index_eq distinct_conv_nth intro!: exI [of _ i])
  then show ?thesis by (simp add: catalog_map_def)
qed

lemma Find_map:
  assumes C: "catalog_ok cat"
    and "c \<noteq> []" and "length s \<le> kMaximumIdentityBytes" and "length c \<le> kMaximumIdentityBytes"
  shows "Find cat m s c = catalog_map cat (m, s, c)"
proof -
  let ?k = "(m, s, c)" and ?T = "map unat (ic_table cat)" and ?K = "map entry_key (ic_entries cat)"
  obtain j where S: "stops_at ?T key_home ?K ?k j" by (rule stops_exists [OF catalog_okD(4) [OF C]])
  let ?v = "ic_table cat ! probe_pos (ic_table cat) (key_home ?k) j"
  have home: "unat (HashIdentity m s c) = key_home ?k" by (simp add: key_home_def)
  have F: "Find cat m s c = (if ?v = 0 then None else Some (ce_match (ic_entries cat ! unat (?v - 1))))"
    using find_loop_walk [OF C refl refl S, of 0] assms(2-4) catalog_okD(2) [OF C]
    by (simp add: Find_def Let_def home mask_probe(1) [OF C, simplified])
  show ?thesis
  proof (cases "?v = 0")
    case True
    then have "?k \<notin> set ?K"
      using stops_hit(2) [OF catalog_okD(4) [OF C] S] catalog_okD(2) [OF C] by (simp add: table_cell)
    then have "find (\<lambda>e. entry_key e = ?k) (ic_entries cat) = None"
      by (force simp: find_None_iff)
    then show ?thesis using True F by (simp add: catalog_map_def)
  next
    case False
    note bound = probe_bound(1) [OF C False]
    have "entry_key (ic_entries cat ! unat (?v - 1)) = ?k"
      using S False by (auto simp: stops_at_def passes_iff [OF C] Let_def)
    from catalog_map_nth [OF C bound, unfolded this] show ?thesis using False F by simp
  qed
qed

section \<open>Building\<close>

lemma length_bytes_of [simp]: "length (bytes_of s) = length s"
  by (simp add: bytes_of_def)

definition definition_ok :: "InstrumentDefinition \<Rightarrow> bool" where
  "definition_ok d \<longleftrightarrow> idf_instrument_id d \<noteq> 0 \<and>
     idf_security_id d \<noteq> [] \<and> length (idf_security_id d) \<le> kMaximumIdentityBytes \<and>
     length (idf_security_id_source d) \<le> kMaximumIdentityBytes \<and>
     IsPrintableAscii (bytes_of (idf_security_id d)) \<and>
     IsPrintableAscii (bytes_of (idf_security_id_source d)) \<and>
     (case idf_market d of Market_kUnknown \<Rightarrow> False
      | Market_kShanghai \<Rightarrow> idf_security_id_source d = []
      | Market_kShenzhen \<Rightarrow> idf_security_id_source d \<noteq> [])"

lemma check_definition_iff:
  "check_definition ids d = None \<longleftrightarrow> definition_ok d \<and> idf_instrument_id d \<notin> ids"
proof -
  have "length s = 0 \<longleftrightarrow> s = []" for s :: string by simp
  then have e: "bytes_of s = [] \<longleftrightarrow> s = []" for s by (simp add: bytes_of_def)
  show ?thesis
    by (cases "idf_market d") (auto simp: check_definition_def definition_ok_def Let_def e)
qed

lemma size_byte: "n \<le> kMaximumIdentityBytes \<Longrightarrow> unat (of_nat n :: u8) = n"
  by (simp add: kMaximumIdentityBytes_def unat_of_nat take_bit_eq_mod)

lemma take_copy_to: "take (length xs) (copy_to xs ys) = xs"
  by (simp add: copy_to_def)

lemma make_entry_facts:
  assumes "definition_ok d"
  shows "entry_key (make_entry d i) = def_key d" "entry_wf (make_entry d i)"
    "ce_match (make_entry d i) = \<lparr>im_instrument_id = idf_instrument_id d, im_ordinal = of_nat i\<rparr>"
    "unat (ce_hash (make_entry d i)) = key_home (def_key d)"
proof -
  have "unat (of_nat (length (idf_security_id d)) :: u8) = length (bytes_of (idf_security_id d))"
    "unat (of_nat (length (idf_security_id_source d)) :: u8) = length (bytes_of (idf_security_id_source d))"
    using assms by (simp_all add: definition_ok_def size_byte)
  then show "entry_key (make_entry d i) = def_key d" "entry_wf (make_entry d i)"
    "ce_match (make_entry d i) = \<lparr>im_instrument_id = idf_instrument_id d, im_ordinal = of_nat i\<rparr>"
    "unat (ce_hash (make_entry d i)) = key_home (def_key d)"
    by (simp_all add: make_entry_def entry_key_def def_key_def entry_wf_def key_home_def Let_def
        take_copy_to) (simp_all add: copy_to_def)
qed

definition add_entry :: "CatalogEntry \<Rightarrow> nat \<Rightarrow> InstrumentCatalog \<Rightarrow> InstrumentCatalog" where
  "add_entry e p cat = \<lparr>ic_entries = ic_entries cat @ [e],
     ic_table = (ic_table cat)[p := of_nat (Suc (length (ic_entries cat)))]\<rparr>"

lemma place_entry_spec:
  assumes C: "catalog_ok cat" and wf: "entry_wf e"
    and room: "Suc (length (ic_entries cat)) < length (ic_table cat)"
    and small: "Suc (length (ic_entries cat)) \<le> U32_MAX"
  defines "r \<equiv> place_entry (length (ic_table cat)) (ic_entries cat) (ic_table cat)
      (unat (ce_hash e) AND (length (ic_table cat) - 1)) e"
  shows "entry_key e \<in> entry_key ` set (ic_entries cat) \<Longrightarrow> r = Some None"
    and "entry_key e \<notin> entry_key ` set (ic_entries cat) \<Longrightarrow>
      \<exists>p. r = Some (Some p) \<and> catalog_ok (add_entry e p cat)"
proof -
  let ?k = "entry_key e" and ?T = "map unat (ic_table cat)" and ?K = "map entry_key (ic_entries cat)"
  obtain j where S: "stops_at ?T key_home ?K ?k j" by (rule stops_exists [OF catalog_okD(4) [OF C]])
  let ?p = "probe_pos (ic_table cat) (key_home ?k) j"
  have "unat (ce_hash e) = key_home ?k" using wf by (simp add: entry_wf_def)
  then have r: "r = Some (if ic_table cat ! ?p = 0 then Some ?p else None)"
    unfolding r_def using place_entry_walk [OF C wf S, of 0] by (simp add: mask_probe(1) [OF C, simplified] Let_def)
  have z: "ic_table cat ! ?p = 0 \<longleftrightarrow> ?k \<notin> entry_key ` set (ic_entries cat)"
    using stops_hit(2) [OF catalog_okD(4) [OF C] S] catalog_okD(2) [OF C]
    by (simp add: table_cell unat_eq_zero)
  show "?k \<in> entry_key ` set (ic_entries cat) \<Longrightarrow> r = Some None" using r z by simp
  assume new: "?k \<notin> entry_key ` set (ic_entries cat)"
  have free: "?T ! probe_pos ?T (key_home ?k) j = 0"
    using new z catalog_okD(2) [OF C] by (simp add: table_cell)
  have u: "unat (of_nat (Suc (length (ic_entries cat))) :: u32) = Suc (length (ic_entries cat))"
    using small by (simp add: U32_MAX_def unat_of_nat take_bit_eq_mod del: of_nat_Suc)
  have "probe_inv (?T[probe_pos ?T (key_home ?k) j := Suc (length ?K)]) key_home (?K @ [?k])"
    by (rule probe_insert [OF catalog_okD(4) [OF C] S free]) (use room in simp)
  moreover have "?T[probe_pos ?T (key_home ?k) j := Suc (length ?K)] = map unat (ic_table (add_entry e ?p cat))"
    using u catalog_okD(2) [OF C] by (simp add: add_entry_def map_update table_cell del: of_nat_Suc)
  ultimately have "catalog_ok (add_entry e ?p cat)"
    using C wf by (simp add: catalog_ok_def add_entry_def)
  then show "\<exists>p. r = Some (Some p) \<and> catalog_ok (add_entry e p cat)" using r z new by auto
qed


definition acceptable_after :: "u32 set \<Rightarrow> catalog_key set \<Rightarrow> InstrumentDefinition list \<Rightarrow> bool" where
  "acceptable_after ids keys ds \<longleftrightarrow> list_all definition_ok ds \<and>
     distinct (map idf_instrument_id ds) \<and> set (map idf_instrument_id ds) \<inter> ids = {} \<and>
     distinct (map def_key ds) \<and> set (map def_key ds) \<inter> keys = {}"

abbreviation acceptable :: "InstrumentDefinition list \<Rightarrow> bool" where
  "acceptable ds \<equiv> acceptable_after {} {} ds"

lemma acceptable_after_Cons:
  "acceptable_after ids keys (d # ds) \<longleftrightarrow> definition_ok d \<and> idf_instrument_id d \<notin> ids \<and>
     def_key d \<notin> keys \<and> acceptable_after (insert (idf_instrument_id d) ids) (insert (def_key d) keys) ds"
  by (auto simp: acceptable_after_def)

lemma build_loop_spec:
  assumes "catalog_ok cat" and "index = length (ic_entries cat)"
    and "length (ic_entries cat) + length ds < length (ic_table cat)"
    and "length (ic_entries cat) + length ds \<le> U32_MAX"
  shows "if acceptable_after ids (entry_key ` set (ic_entries cat)) ds
    then \<exists>cat'. build_loop ds index ids cat = Some (Inr cat') \<and> catalog_ok cat' \<and>
      ic_entries cat' = ic_entries cat @ map (\<lambda>(i, d). make_entry d i) (enumerate index ds)
    else \<exists>e. build_loop ds index ids cat = Some (Inl e)"
  using assms
proof (induction ds arbitrary: index ids cat)
  case Nil
  then show ?case by (simp add: acceptable_after_def)
next
  case (Cons d ds)
  let ?keys = "entry_key ` set (ic_entries cat)" and ?e = "make_entry d index"
  show ?case
  proof (cases "definition_ok d \<and> idf_instrument_id d \<notin> ids")
    case False
    then obtain e where "check_definition ids d = Some e" using check_definition_iff by fastforce
    then show ?thesis using False by (auto simp: acceptable_after_Cons)
  next
    case True
    then have chk: "check_definition ids d = None" by (simp add: check_definition_iff)
    note e = make_entry_facts [OF conjunct1 [OF True], of index]
    have room: "Suc (length (ic_entries cat)) < length (ic_table cat)"
      "Suc (length (ic_entries cat)) \<le> U32_MAX"
      using Cons.prems(3,4) by simp_all
    note place = place_entry_spec [OF Cons.prems(1) e(2) room, unfolded e(1)]
    show ?thesis
    proof (cases "def_key d \<in> ?keys")
      case True
      from place(1) [OF this] have "build_loop (d # ds) index ids cat
          = Some (Inl ''duplicate exact instrument identity'')"
        by (simp add: chk Let_def)
      then show ?thesis using True by (auto simp: acceptable_after_Cons)
    next
      case False
      from place(2) [OF this] obtain p where p: "place_entry (length (ic_table cat)) (ic_entries cat)
          (ic_table cat) (unat (ce_hash ?e) AND (length (ic_table cat) - 1)) ?e = Some (Some p)"
        and ok: "catalog_ok (add_entry ?e p cat)" by blast
      let ?cat = "add_entry ?e p cat" and ?ids = "insert (idf_instrument_id d) ids"
      have step: "build_loop (d # ds) index ids cat = build_loop ds (index + 1) ?ids ?cat"
        using p Cons.prems(2) by (simp add: chk Let_def add_entry_def)
      have keys: "entry_key ` set (ic_entries ?cat) = insert (def_key d) ?keys"
        by (simp add: add_entry_def e(1))
      have "index + 1 = length (ic_entries ?cat)"
        "length (ic_entries ?cat) + length ds < length (ic_table ?cat)"
        "length (ic_entries ?cat) + length ds \<le> U32_MAX"
        using Cons.prems(2-4) by (simp_all add: add_entry_def)
      from Cons.IH [OF ok this, of ?ids, unfolded keys]
      show ?thesis unfolding step using True False
        by (simp add: acceptable_after_Cons add_entry_def split: if_splits)
    qed
  qed
qed

lemma table_size_from_spec:
  assumes "table_size = 2 ^ k"
  shows "\<exists>k'. table_size_from table_size n = 2 ^ k'" "n * 2 \<le> table_size_from table_size n"
  using assms
proof (induction table_size n arbitrary: k rule: table_size_from.induct)
  case (1 table_size n)
  case 1
  show ?case
  proof (cases "n * 2 \<le> table_size")
    case True
    then show ?thesis using 1 by (subst table_size_from.simps) auto
  next
    case False
    then have go: "\<not> (table_size = 0 \<or> n * 2 \<le> table_size)" using 1 by simp
    have "table_size * 2 = 2 ^ Suc k" using 1 by simp
    from "1.IH"(1) [OF go this] show ?thesis using go by (subst table_size_from.simps) simp
  qed
next
  case (1 table_size n)
  case 2
  show ?case
  proof (cases "n * 2 \<le> table_size")
    case True
    then show ?thesis using 2 by (subst table_size_from.simps) auto
  next
    case False
    then have go: "\<not> (table_size = 0 \<or> n * 2 \<le> table_size)" using 2 by simp
    have "table_size * 2 = 2 ^ Suc k" using 2 by simp
    from "1.IH"(2) [OF go this] show ?thesis using go by (subst table_size_from.simps) simp
  qed
qed

lemma Build_spec:
  assumes "ds \<noteq> []" and "length ds < U32_MAX"
  shows "if acceptable ds
    then \<exists>cat. Build ds = Some (Inr cat) \<and> catalog_ok cat \<and>
      ic_entries cat = map (\<lambda>(i, d). make_entry d i) (enumerate 0 ds)
    else \<exists>e. Build ds = Some (Inl e)"
proof -
  let ?n = "table_size_from 1 (length ds)"
  let ?cat = "\<lparr>ic_entries = [], ic_table = replicate ?n 0\<rparr>"
  from table_size_from_spec [of 1 0 "length ds"] obtain k where k: "?n = 2 ^ k"
    and big: "length ds * 2 \<le> ?n" by auto
  have "0 < length ds" using assms(1) by simp
  then have lt: "length ds < ?n" using big by linarith
  have "map unat (replicate ?n (0 :: u32)) = replicate ?n 0" by simp
  then have "catalog_ok ?cat" using k lt by (auto simp: catalog_ok_def probe_inv_empty)
  from build_loop_spec [OF this, of 0 ds "{}"] show ?thesis
    using assms lt by (cases "acceptable ds") (simp_all add: Build_def)
qed


lemma Build_Inr_iff:
  "(\<exists>cat. Build ds = Some (Inr cat)) \<longleftrightarrow> ds \<noteq> [] \<and> length ds < U32_MAX \<and> acceptable ds"
proof (cases "ds \<noteq> [] \<and> length ds < U32_MAX")
  case True
  with Build_spec [of ds] show ?thesis by (auto split: if_splits)
next
  case False
  then show ?thesis by (auto simp: Build_def)
qed

lemma Build_total: "Build ds \<noteq> None"
proof (cases "ds \<noteq> [] \<and> length ds < U32_MAX")
  case True
  with Build_spec [of ds] show ?thesis by (auto split: if_splits)
next
  case False
  then show ?thesis by (auto simp: Build_def)
qed

lemma Build_ok:
  assumes "Build ds = Some (Inr cat)"
  shows "catalog_ok cat" "ic_entries cat = map (\<lambda>(i, d). make_entry d i) (enumerate 0 ds)"
    "list_all definition_ok ds" "distinct (map def_key ds)" "length ds < U32_MAX"
proof -
  have a: "ds \<noteq> []" "length ds < U32_MAX" "acceptable ds" using assms Build_Inr_iff by blast+
  from Build_spec [OF a(1,2)] a(3) assms
  show "catalog_ok cat" "ic_entries cat = map (\<lambda>(i, d). make_entry d i) (enumerate 0 ds)"
    by simp_all
  show "list_all definition_ok ds" "distinct (map def_key ds)" "length ds < U32_MAX"
    using a by (simp_all add: acceptable_after_def)
qed

lemma Build_Find:
  assumes B: "Build ds = Some (Inr cat)"
  shows "Find cat m s c = Some r \<longleftrightarrow> (\<exists>i < length ds. def_key (ds ! i) = (m, s, c) \<and>
    r = \<lparr>im_instrument_id = idf_instrument_id (ds ! i), im_ordinal = of_nat i\<rparr>)"
proof -
  note ok = Build_ok [OF B]
  have nth: "ic_entries cat ! i = make_entry (ds ! i) i" if "i < length ds" for i
    using that by (simp add: ok(2) nth_enumerate_eq)
  have dok: "definition_ok (ds ! i)" if "i < length ds" for i
    using ok(3) that by (simp add: list_all_length)
  have key: "entry_key (ic_entries cat ! i) = def_key (ds ! i)"
    "ce_match (ic_entries cat ! i) = \<lparr>im_instrument_id = idf_instrument_id (ds ! i), im_ordinal = of_nat i\<rparr>"
    if "i < length ds" for i
    using that nth make_entry_facts(1,3) [OF dok] by simp_all
  have len: "length (ic_entries cat) = length ds" by (simp add: ok(2))
  show ?thesis
  proof (cases "c \<noteq> [] \<and> length s \<le> kMaximumIdentityBytes \<and> length c \<le> kMaximumIdentityBytes")
    case False
    then have "Find cat m s c = None" by (auto simp: Find_def)
    moreover have "def_key (ds ! i) \<noteq> (m, s, c)" if "i < length ds" for i
      using dok [OF that] False by (auto simp: definition_ok_def def_key_def bytes_of_def)
    ultimately show ?thesis by auto
  next
    case True
    then have F: "Find cat m s c = catalog_map cat (m, s, c)" using Find_map [OF ok(1)] by blast
    show ?thesis
    proof
      assume "Find cat m s c = Some r"
      then obtain e where "find (\<lambda>e. entry_key e = (m, s, c)) (ic_entries cat) = Some e" "r = ce_match e"
        unfolding F by (auto simp: catalog_map_def)
      then obtain i where "i < length ds" "entry_key (ic_entries cat ! i) = (m, s, c)"
        "r = ce_match (ic_entries cat ! i)"
        using len by (auto simp: find_Some_iff)
      then show "\<exists>i < length ds. def_key (ds ! i) = (m, s, c) \<and>
          r = \<lparr>im_instrument_id = idf_instrument_id (ds ! i), im_ordinal = of_nat i\<rparr>"
        using key by auto
    next
      assume "\<exists>i < length ds. def_key (ds ! i) = (m, s, c) \<and>
          r = \<lparr>im_instrument_id = idf_instrument_id (ds ! i), im_ordinal = of_nat i\<rparr>"
      then obtain i where i: "i < length ds" "def_key (ds ! i) = (m, s, c)"
        "r = \<lparr>im_instrument_id = idf_instrument_id (ds ! i), im_ordinal = of_nat i\<rparr>" by blast
      then show "Find cat m s c = Some r"
        using catalog_map_nth [OF ok(1), of i] key [OF i(1)] len by (simp add: F)
    qed
  qed
qed

section \<open>Printing and reading CSV\<close>

definition market_code_text :: "Market \<Rightarrow> string" where
  "market_code_text m = (if m = Market_kShanghai then ''SH'' else ''SZ'')"

definition csv_row :: "InstrumentDefinition \<Rightarrow> string" where
  "csv_row d = decimal (unat (idf_instrument_id d)) @ '','' @ market_code_text (idf_market d) @ '','' @
     idf_security_id_source d @ '','' @ idf_security_id d"

definition csv_text :: "InstrumentDefinition list \<Rightarrow> string" where
  "csv_text ds = unlines (csv_header # map csv_row ds)"

definition comma_free :: "InstrumentDefinition \<Rightarrow> bool" where
  "comma_free d \<longleftrightarrow> CHR '','' \<notin> set (idf_security_id_source d) \<and> CHR '','' \<notin> set (idf_security_id d)"

lemma split_csv_field:
  assumes "CHR '','' \<notin> set f"
  shows "split_csv acc (f @ CHR '','' # rest) = (acc @ f) # split_csv [] rest"
    and "split_csv acc f = [acc @ f]"
  using assms by (induction f arbitrary: acc) auto

lemma comma_not_decimal: "CHR '','' \<notin> set (decimal n)"
proof -
  have "\<not> is_digit (CHR '','')" by (simp add: is_digit_def)
  then show ?thesis using decimal_digits [of n] by (auto simp: list_all_iff)
qed

lemma SplitCsvLine_row:
  assumes "comma_free d"
  shows "SplitCsvLine (csv_row d) = [decimal (unat (idf_instrument_id d)), market_code_text (idf_market d),
    idf_security_id_source d, idf_security_id d]"
  using assms comma_not_decimal
  by (simp add: SplitCsvLine_def csv_row_def split_csv_field comma_free_def market_code_text_def)

lemma parse_row_csv_row:
  assumes "comma_free d" and "definition_ok d"
  shows "parse_row n (csv_row d) = Inr d"
proof -
  have "unat (idf_instrument_id d) < 2 ^ 32" using unsigned_less [of "idf_instrument_id d"] by simp
  then have "from_chars_unsigned U32_MAX (decimal (unat (idf_instrument_id d)) @ [])
      = Inr (unat (idf_instrument_id d), [])"
    by (intro from_chars_decimal) (simp_all add: U32_MAX_def)
  moreover have "csv_row d \<noteq> []" by (simp add: csv_row_def)
  moreover have "idf_market d = Market_kShanghai \<or> idf_market d = Market_kShenzhen"
    using assms(2) by (cases "idf_market d") (simp_all add: definition_ok_def)
  ultimately show ?thesis using SplitCsvLine_row [OF assms(1)]
    by (auto simp: parse_row_def Let_def market_code_text_def)
qed

lemma printable_char:
  assumes "IsPrintableAscii (bytes_of s)" and "x \<in> set s"
  shows "x \<noteq> CR" "x \<noteq> LF"
proof -
  have "0x20 \<le> (of_char x :: byte)" using assms by (auto simp: IsPrintableAscii_def bytes_of_def list_all_iff)
  then show "x \<noteq> CR" "x \<noteq> LF" by (auto simp: CR_def LF_def)
qed

lemma csv_row_line:
  assumes "definition_ok d"
  shows "LF \<notin> set (csv_row d)" "strip_cr (csv_row d) = csv_row d"
proof -
  have dig: "is_digit x \<Longrightarrow> x \<noteq> LF" for x by (auto simp: is_digit_def LF_def)
  have "LF \<notin> set (decimal n)" for n using decimal_digits [of n] dig by (auto simp: list_all_iff)
  moreover have "LF \<notin> set (idf_security_id_source d)" "LF \<notin> set (idf_security_id d)"
    using assms printable_char(2) by (auto simp: definition_ok_def)
  ultimately show "LF \<notin> set (csv_row d)"
    by (auto simp: csv_row_def market_code_text_def LF_def)
  have "idf_security_id d \<noteq> []" using assms by (simp add: definition_ok_def)
  then have "last (csv_row d) = last (idf_security_id d)" "last (idf_security_id d) \<in> set (idf_security_id d)"
    by (simp_all add: csv_row_def)
  then have "last (csv_row d) \<noteq> CR" using assms printable_char(1) by (auto simp: definition_ok_def)
  then show "strip_cr (csv_row d) = csv_row d" by (simp add: strip_cr_def)
qed

lemma rows_loop_csv:
  assumes "list_all definition_ok ds" and "list_all comma_free ds"
  shows "rows_loop (map csv_row ds) n = Inr ds"
  using assms by (induction ds arbitrary: n) (simp_all add: csv_row_line parse_row_csv_row)

lemma LoadCsv_csv_text:
  assumes "list_all definition_ok ds" and "list_all comma_free ds"
  shows "LoadCsv path (Some (csv_text ds)) = Build ds"
proof -
  have "text_lines (csv_text ds) = csv_header # map csv_row ds"
    unfolding csv_text_def
    by (rule text_lines_unlines) (use assms csv_row_line in \<open>auto simp: list_all_iff csv_header_def LF_def\<close>)
  moreover have "strip_cr csv_header = csv_header" by (simp add: strip_cr_def csv_header_def CR_def)
  ultimately show ?thesis by (simp add: LoadCsv_def rows_loop_csv [OF assms])
qed

section \<open>The catalog's contract\<close>

definition demo_definitions :: "InstrumentDefinition list" where
  "demo_definitions =
     [\<lparr>idf_instrument_id = 1, idf_market = Market_kShanghai, idf_security_id_source = [],
       idf_security_id = ''600000''\<rparr>,
      \<lparr>idf_instrument_id = 2, idf_market = Market_kShenzhen, idf_security_id_source = ''102'',
       idf_security_id = ''000001''\<rparr>]"

definition demo_catalog :: InstrumentCatalog where
  "demo_catalog = (case Build demo_definitions of Some (Inr cat) \<Rightarrow> cat | _ \<Rightarrow> empty_catalog)"

lemma demo_definitions_ok:
  "list_all definition_ok demo_definitions" "acceptable demo_definitions"
  "list_all comma_free demo_definitions" "demo_definitions \<noteq> []" "length demo_definitions < U32_MAX"
  by (simp_all add: demo_definitions_def definition_ok_def acceptable_after_def comma_free_def
      kMaximumIdentityBytes_def IsPrintableAscii_def bytes_of_def def_key_def U32_MAX_def)

lemma demo_catalog_built: "Build demo_definitions = Some (Inr demo_catalog)"
  using Build_Inr_iff [of demo_definitions] demo_definitions_ok by (auto simp: demo_catalog_def)

text \<open>C32. Building a catalog always returns (every placement loop ends), and it succeeds exactly on
  a nonempty list of fewer than \<open>UINT32_MAX\<close> definitions whose fields are valid, whose
  instrument numbers are nonzero and distinct and whose exact identities are distinct.\<close>

theorem catalog_build_exact:
  "Build ds \<noteq> None \<and>
   ((\<exists>cat. Build ds = Some (Inr cat)) \<longleftrightarrow> ds \<noteq> [] \<and> length ds < U32_MAX \<and> acceptable ds)"
  using Build_total Build_Inr_iff by blast

text \<open>C18. Lookup in a built catalog is the finite map of its definitions: it finds a match exactly
  for the identity of some definition, and the match carries that definition's instrument
  number and its position in the list.\<close>

theorem catalog_find_exact:
  assumes "Build ds = Some (Inr cat)"
  shows "Find cat m s c = Some r \<longleftrightarrow> (\<exists>i < length ds. def_key (ds ! i) = (m, s, c) \<and>
    r = \<lparr>im_instrument_id = idf_instrument_id (ds ! i), im_ordinal = of_nat i\<rparr>)"
  using assms by (rule Build_Find)

theorem catalog_find_exact_witness:
  "Find demo_catalog Market_kShenzhen (bytes_of ''102'') (bytes_of ''000001'')
    = Some \<lparr>im_instrument_id = 2, im_ordinal = 1\<rparr>"
  unfolding catalog_find_exact [OF demo_catalog_built]
  by (rule exI [of _ 1]) (simp add: demo_definitions_def def_key_def)

text \<open>C33. A list of valid definitions without commas in their fields survives printing as CSV and
  loading: the loader hands exactly these definitions to the builder, so the loaded catalog is
  the built one.\<close>

theorem catalog_csv_roundtrip:
  assumes "list_all definition_ok ds" and "list_all comma_free ds"
  shows "LoadCsv path (Some (csv_text ds)) = Build ds"
  using assms by (rule LoadCsv_csv_text)

theorem catalog_csv_roundtrip_witness:
  "LoadCsv ''catalog.csv'' (Some (csv_text demo_definitions)) = Build demo_definitions"
  by (rule catalog_csv_roundtrip) (rule demo_definitions_ok)+

end
