(* ===== verification/Decoder_Fields.thy ===== *)
theory Decoder_Fields
  imports Decoder_Types Catalog
begin

text \<open>
  Component \<open>src/decoder.cpp\<close>, field level: the protected dynamic ranges, the text and list
  descriptors, fixed-point decimals, quantities, times, identities and the catalog lookup.
  Output parameters are returned; a \<open>DecodeError\<close> other than \<open>kNone\<close> is the left case of the
  result.  The thread-local range table is the state \<open>RangeState\<close>; after an error it is not
  read again before the next \<open>DynamicRangeScope\<close> clears it, so an error does not return it.
\<close>

section \<open>Result combinators\<close>

definition need :: "'e \<Rightarrow> 'a option \<Rightarrow> 'e + 'a" where
  "need e m = (case m of None \<Rightarrow> Inl e | Some x \<Rightarrow> Inr x)"

definition check :: "bool \<Rightarrow> 'e \<Rightarrow> 'e + unit" where
  "check P e = (if P then Inr () else Inl e)"

named_theorems return_iff \<open>when a decoding step returns a value\<close>

lemma need_Inr_iff [return_iff]: "need e m = Inr x \<longleftrightarrow> m = Some x"
  by (cases m) (simp_all add: need_def)

lemma check_Inr_iff [return_iff]: "check P e = Inr u \<longleftrightarrow> P"
  by (simp add: check_def)

lemma need_Inl_iff: "need e m = Inl e' \<longleftrightarrow> m = None \<and> e' = e"
  by (cases m) (auto simp: need_def)

lemma check_Inl_iff: "check P e = Inl e' \<longleftrightarrow> \<not> P \<and> e' = e"
  by (auto simp: check_def)

declare rbind_Inr_iff [return_iff]

section \<open>Constants\<close>

definition kNullI32 :: int where
  "kNullI32 = I32_MIN"

definition kNullI64 :: int where
  "kNullI64 = I64_MIN"

definition kNullTime :: u32 where
  "kNullTime = 1000000000"

section \<open>Protected ranges\<close>

record RangeState =
  rs_protect :: bool
  rs_ranges :: "(nat \<times> nat) list"

text \<open>A thread outside every scope, and the state a \<open>DynamicRangeScope\<close> sets up.\<close>

definition no_scope :: RangeState where
  "no_scope = \<lparr>rs_protect = False, rs_ranges = []\<rparr>"

definition DynamicRangeScope :: RangeState where
  "DynamicRangeScope = \<lparr>rs_protect = True, rs_ranges = []\<rparr>"

definition ProtectDynamicRange :: "nat \<Rightarrow> nat \<Rightarrow> RangeState \<Rightarrow> DecodeError + RangeState" where
  "ProtectDynamicRange begin_pos nbytes rs =
    (if \<not> rs_protect rs \<or> nbytes = 0 then Inr rs
     else if begin_pos > SIZE_MAX - nbytes then Inl kInvalidOffset
     else let end_pos = begin_pos + nbytes in
       if list_ex (\<lambda>(b, e). begin_pos < e \<and> b < end_pos) (rs_ranges rs) then Inl kRangeOverlap
       else Inr (rs\<lparr>rs_ranges := rs_ranges rs @ [(begin_pos, end_pos)]\<rparr>))"

section \<open>Text and list descriptors\<close>

text \<open>The subspan \<open>body.subspan(start, size)\<close>.\<close>

definition subspan :: "byte list \<Rightarrow> nat \<Rightarrow> nat \<Rightarrow> byte list" where
  "subspan body start nbytes = take nbytes (drop start body)"

text \<open>\<open>relative_offset\<close> is acceptable for an empty text or list.\<close>

definition empty_offset_ok :: "byte list \<Rightarrow> nat \<Rightarrow> nat \<Rightarrow> bool" where
  "empty_offset_ok body descriptor_offset relative_offset \<longleftrightarrow>
     \<not> (relative_offset \<noteq> 0 \<and> (relative_offset > SIZE_MAX - descriptor_offset \<or>
          descriptor_offset + relative_offset > length body))"

definition ReadText ::
  "byte list \<Rightarrow> nat \<Rightarrow> nat \<Rightarrow> nat \<Rightarrow> bool \<Rightarrow> RangeState \<Rightarrow> DecodeError + (byte list \<times> RangeState)" where
  "ReadText body descriptor_offset fixed_bytes maximum_bytes require_nonempty rs =
    (if length body < fixed_bytes then Inl kTruncated
     else
     rbind (need kTruncated (LoadUnsigned body descriptor_offset :: u16 option)) (\<lambda>text_length.
     rbind (need kTruncated (LoadUnsigned body (descriptor_offset + 2) :: u32 option)) (\<lambda>relative_word.
     let nbytes = unat text_length; relative_offset = unat relative_word in
     if nbytes > maximum_bytes then Inl kCountExceeded
     else if nbytes = 0 then
       (if \<not> empty_offset_ok body descriptor_offset relative_offset then Inl kInvalidOffset
        else if require_nonempty then Inl kInvalidText else Inr ([], rs))
     else if relative_offset < 6 \<or> relative_offset > SIZE_MAX - descriptor_offset then Inl kInvalidOffset
     else let start = descriptor_offset + relative_offset in
       if start < fixed_bytes \<or> start > length body \<or> nbytes > length body - start
       then Inl kInvalidOffset
       else let text_value = subspan body start nbytes in
         if \<not> IsPrintableAscii text_value then Inl kInvalidText
         else rbind (ProtectDynamicRange start nbytes rs) (\<lambda>rs1. Inr (text_value, rs1)))))"

record ListView =
  lv_start :: nat
  lv_count :: nat
  lv_item_size :: nat

definition ReadList ::
  "byte list \<Rightarrow> nat \<Rightarrow> nat \<Rightarrow> nat \<Rightarrow> nat \<Rightarrow> RangeState \<Rightarrow> DecodeError + (ListView \<times> RangeState)" where
  "ReadList body descriptor_offset item_size fixed_bytes maximum_items rs =
    (if length body < fixed_bytes then Inl kTruncated
     else
     rbind (need kTruncated (LoadUnsigned body descriptor_offset :: u32 option)) (\<lambda>count_word.
     rbind (need kTruncated (LoadUnsigned body (descriptor_offset + 4) :: u32 option)) (\<lambda>relative_word.
     let count_size = unat count_word; relative_offset = unat relative_word in
     if count_size > maximum_items then Inl kCountExceeded
     else if count_size = 0 then
       (if \<not> empty_offset_ok body descriptor_offset relative_offset then Inl kInvalidOffset
        else Inr (\<lparr>lv_start = 0, lv_count = 0, lv_item_size = item_size\<rparr>, rs))
     else if relative_offset < 8 \<or> item_size = 0 \<or> count_size > SIZE_MAX div item_size \<or>
       relative_offset > SIZE_MAX - descriptor_offset then Inl kInvalidOffset
     else let start = descriptor_offset + relative_offset; nbytes = count_size * item_size in
       if start < fixed_bytes \<or> start > length body \<or> nbytes > length body - start
       then Inl kInvalidOffset
       else rbind (ProtectDynamicRange start nbytes rs) (\<lambda>rs1.
         Inr (\<lparr>lv_start = start, lv_count = count_size, lv_item_size = item_size\<rparr>, rs1)))))"

section \<open>Decimals and quantities\<close>

text \<open>
  \<open>NormalizeP6\<close>.  C++ integer division truncates towards zero, so \<open>INT64_MIN / multiplier\<close> is
  \<open>- (2^63 div multiplier)\<close>.
\<close>

definition p6_powers :: "int list" where
  "p6_powers = [1, 10, 100, 1000, 10000, 100000, 1000000]"

definition NormalizeP6 :: "FixedDecimal \<Rightarrow> DecodeError + FixedDecimal" where
  "NormalizeP6 d =
    (if fd_source_scale d > 6 then Inl kFixedPointOverflow
     else if \<not> fd_raw_valid d then Inr d
     else let multiplier = p6_powers ! (6 - fd_source_scale d) in
       if (fd_raw d > 0 \<and> fd_raw d > I64_MAX div multiplier) \<or>
          (fd_raw d < 0 \<and> fd_raw d < - ((- I64_MIN) div multiplier))
       then Inl kFixedPointOverflow
       else Inr (d\<lparr>fd_p6 := fd_raw d * multiplier, fd_p6_valid := True\<rparr>))"

definition LoadDecimal32Raw ::
  "byte list \<Rightarrow> nat \<Rightarrow> nat \<Rightarrow> u64 \<Rightarrow> FixedDecimal \<Rightarrow> DecodeError + (u64 \<times> FixedDecimal)" where
  "LoadDecimal32Raw body offset scale quality d =
    rbind (need kTruncated (LoadI32 body offset)) (\<lambda>raw.
      let d1 = d\<lparr>fd_raw := raw, fd_source_scale := scale\<rparr> in
      if raw = kNullI32 then Inr (quality OR kQualityNullSourceValue, d1)
      else Inr (quality, d1\<lparr>fd_raw_valid := True\<rparr>))"

definition LoadDecimal64Raw ::
  "byte list \<Rightarrow> nat \<Rightarrow> nat \<Rightarrow> u64 \<Rightarrow> FixedDecimal \<Rightarrow> DecodeError + (u64 \<times> FixedDecimal)" where
  "LoadDecimal64Raw body offset scale quality d =
    rbind (need kTruncated (LoadI64 body offset)) (\<lambda>raw.
      let d1 = d\<lparr>fd_raw := raw, fd_source_scale := scale\<rparr> in
      if raw = kNullI64 then Inr (quality OR kQualityNullSourceValue, d1)
      else Inr (quality, d1\<lparr>fd_raw_valid := True\<rparr>))"

definition DecodePrice32 ::
  "byte list \<Rightarrow> nat \<Rightarrow> nat \<Rightarrow> u64 \<Rightarrow> FixedDecimal \<Rightarrow> DecodeError + (u64 \<times> FixedDecimal)" where
  "DecodePrice32 body offset scale quality d =
    rbind (LoadDecimal32Raw body offset scale quality d) (\<lambda>(quality1, d1).
      if \<not> fd_raw_valid d1 then Inr (quality1, d1)
      else if fd_raw d1 \<le> 0 then Inr (quality1 OR kQualityInvalidPrice, d1)
      else rbind (NormalizeP6 d1) (\<lambda>d2. Inr (quality1, d2)))"

definition DecodePrice64 ::
  "byte list \<Rightarrow> nat \<Rightarrow> nat \<Rightarrow> u64 \<Rightarrow> FixedDecimal \<Rightarrow> DecodeError + (u64 \<times> FixedDecimal)" where
  "DecodePrice64 body offset scale quality d =
    rbind (LoadDecimal64Raw body offset scale quality d) (\<lambda>(quality1, d1).
      if \<not> fd_raw_valid d1 then Inr (quality1, d1)
      else if fd_raw d1 \<le> 0 then Inr (quality1 OR kQualityInvalidPrice, d1)
      else rbind (NormalizeP6 d1) (\<lambda>d2. Inr (quality1, d2)))"

definition DecodeDecimal64 ::
  "byte list \<Rightarrow> nat \<Rightarrow> nat \<Rightarrow> u64 \<Rightarrow> FixedDecimal \<Rightarrow> DecodeError + (u64 \<times> FixedDecimal)" where
  "DecodeDecimal64 body offset scale quality d =
    rbind (LoadDecimal64Raw body offset scale quality d) (\<lambda>(quality1, d1).
      rbind (NormalizeP6 d1) (\<lambda>d2. Inr (quality1, d2)))"

definition DecodeQuantity ::
  "byte list \<Rightarrow> nat \<Rightarrow> nat \<Rightarrow> bool \<Rightarrow> u64 \<Rightarrow> ScaledInteger \<Rightarrow> DecodeError + (u64 \<times> ScaledInteger)" where
  "DecodeQuantity body offset scale nullable quality q =
    rbind (need kTruncated (LoadI64 body offset)) (\<lambda>raw.
      let q1 = q\<lparr>si_raw := raw, si_scale := scale\<rparr> in
      if nullable \<and> raw = kNullI64 then Inr (quality OR kQualityNullSourceValue, q1)
      else if raw < 0 then Inr (quality OR kQualityInvalidQuantity, q1)
      else Inr (quality, q1\<lparr>si_valid := True\<rparr>))"

section \<open>Times\<close>

text \<open>The result is the validity, the quality flags and the nanoseconds from midnight.\<close>

definition DecodeTime :: "u32 \<Rightarrow> u64 \<Rightarrow> u64 \<Rightarrow> bool \<times> u64 \<times> u64" where
  "DecodeTime raw quality ns =
    (if raw = kNullTime
     then (False, quality OR (kQualityNullSourceValue OR kQualityInvalidTime), ns)
     else let hour = raw div 10000000; minute = (raw div 100000) mod 100;
              sec = (raw div 1000) mod 100; millisecond = raw mod 1000 in
       if hour \<ge> 24 \<or> minute \<ge> 60 \<or> sec \<ge> 60
       then (False, quality OR kQualityInvalidTime, ns)
       else let seconds = (ucast hour :: u64) * 3600 + ucast minute * 60 + ucast sec in
         (True, quality, seconds * 1000000000 + ucast millisecond * 1000000))"

section \<open>Identities\<close>

definition CopyText :: "byte list \<Rightarrow> byte list \<Rightarrow> byte list \<times> u8" where
  "CopyText source destination = (copy_to source destination, of_nat (length source))"

definition InitializeCommon ::
  "OwnedMessageView \<Rightarrow> u32 \<Rightarrow> Market \<Rightarrow> CanonicalKind \<Rightarrow> CanonicalCommon \<Rightarrow> CanonicalCommon" where
  "InitializeCommon message trade_date market kind common =
    (let (valid, quality, ns) = DecodeTime (local_time_raw (mv_header message))
           (c_quality_flags common) (c_vendor_local_time_ns common) in
     common\<lparr>c_ingress_sequence := mv_ingress_sequence message,
       c_vendor_sequence_id := vendor_sequence_id (mv_header message),
       c_receive_monotonic_ns := mv_receive_monotonic_ns message,
       c_trade_date := trade_date, c_message_key := hdr_key (mv_header message), c_kind := kind,
       c_identity := (c_identity common)\<lparr>id_market := market\<rparr>,
       c_vendor_local_time_raw := local_time_raw (mv_header message),
       c_vendor_local_time_valid := valid, c_quality_flags := quality, c_vendor_local_time_ns := ns\<rparr>)"

text \<open>An optional text descriptor: \<open>SIZE_MAX\<close> as offset means that there is none.\<close>

definition read_optional_text ::
  "byte list \<Rightarrow> nat \<Rightarrow> nat \<Rightarrow> nat \<Rightarrow> RangeState \<Rightarrow> DecodeError + (byte list option \<times> RangeState)" where
  "read_optional_text body offset fixed_bytes maximum_bytes rs =
    (if offset = SIZE_MAX then Inr (None, rs)
     else rbind (ReadText body offset fixed_bytes maximum_bytes True rs)
       (\<lambda>(text_value, rs1). Inr (Some text_value, rs1)))"

definition ReadIdentity ::
  "byte list \<Rightarrow> Market \<Rightarrow> nat \<Rightarrow> nat \<Rightarrow> nat \<Rightarrow> nat \<Rightarrow> DecoderLimits \<Rightarrow> CanonicalCommon \<Rightarrow> RangeState
     \<Rightarrow> DecodeError + (CanonicalCommon \<times> RangeState)" where
  "ReadIdentity body market fixed_bytes stream_offset security_offset source_offset limits common rs =
    rbind (read_optional_text body stream_offset fixed_bytes (maximum_text_bytes limits) rs) (\<lambda>(stream, rs1).
    let common1 = (case stream of None \<Rightarrow> common
      | Some bytes \<Rightarrow> common\<lparr>c_md_stream_id := fst (CopyText bytes (c_md_stream_id common)),
          c_md_stream_id_size := snd (CopyText bytes (c_md_stream_id common))\<rparr>) in
    rbind (ReadText body security_offset fixed_bytes (maximum_text_bytes limits) True rs1) (\<lambda>(security, rs2).
    rbind (read_optional_text body source_offset fixed_bytes (maximum_text_bytes limits) rs2) (\<lambda>(source_text, rs3).
    let source = (case source_text of None \<Rightarrow> [] | Some bytes \<Rightarrow> bytes);
        identity = c_identity common1 in
    Inr (common1\<lparr>c_identity := identity\<lparr>id_market := market,
        security_id := fst (CopyText security (security_id identity)),
        security_id_size := snd (CopyText security (security_id identity)),
        security_id_source := fst (CopyText source (security_id_source identity)),
        security_id_source_size := snd (CopyText source (security_id_source identity))\<rparr>\<rparr>, rs3))))"

definition ApplyCatalog :: "InstrumentCatalog \<Rightarrow> CanonicalCommon \<Rightarrow> bool \<times> CanonicalCommon" where
  "ApplyCatalog cat common =
    (let identity = c_identity common;
         source = take (unat (security_id_source_size identity)) (security_id_source identity);
         security = take (unat (security_id_size identity)) (security_id identity) in
     case Find cat (id_market identity) source security of
       None \<Rightarrow> (False, common\<lparr>c_quality_flags := c_quality_flags common OR kQualityInstrumentNotInCatalog\<rparr>)
     | Some m \<Rightarrow> (True, common\<lparr>c_instrument_id := im_instrument_id m, c_instrument_ordinal := im_ordinal m\<rparr>))"

end
