(* ===== verification/Decoder_Ticks.thy ===== *)
theory Decoder_Ticks
  imports Decoder_Fields
begin

text \<open>
  Component \<open>src/decoder.cpp\<close>, tick messages: the Shanghai NGTS tick, the Shenzhen order and the
  Shenzhen transaction, \<open>DecodeTick\<close> and \<open>ExtractTickNativeDescriptor\<close>.  The sizes and offsets
  of the vendor structures are the numbers the source asserts about them.
\<close>

section \<open>Wire sizes\<close>

definition sizeof_NGTSTick :: nat where
  "sizeof_NGTSTick = 70"

definition sizeof_Order300192_v2 :: nat where
  "sizeof_Order300192_v2 = 58"

definition sizeof_Transaction300191_v2 :: nat where
  "sizeof_Transaction300191_v2 = 70"

section \<open>Field updates of a tick\<close>

definition tick_quality :: "u64 \<Rightarrow> CanonicalTick \<Rightarrow> CanonicalTick" where
  "tick_quality flag t = t\<lparr>t_common := (t_common t)
     \<lparr>c_quality_flags := c_quality_flags (t_common t) OR flag\<rparr>\<rparr>"

definition tick_valid :: "u64 \<Rightarrow> CanonicalTick \<Rightarrow> CanonicalTick" where
  "tick_valid flag t = t\<lparr>t_validity := t_validity t OR flag\<rparr>"

definition tick_when :: "bool \<Rightarrow> (CanonicalTick \<Rightarrow> CanonicalTick) \<Rightarrow> CanonicalTick \<Rightarrow> CanonicalTick" where
  "tick_when P f t = (if P then f t else t)"

text \<open>\<open>LoadDecimal..Raw\<close> into a field of the tick, with its quality flags.\<close>

definition load_tick_price ::
  "(u64 \<Rightarrow> FixedDecimal \<Rightarrow> DecodeError + (u64 \<times> FixedDecimal)) \<Rightarrow> CanonicalTick \<Rightarrow> DecodeError + CanonicalTick" where
  "load_tick_price load t =
    rbind (load (c_quality_flags (t_common t)) (t_price t)) (\<lambda>(quality, d).
      Inr (t\<lparr>t_common := (t_common t)\<lparr>c_quality_flags := quality\<rparr>, t_price := d\<rparr>))"

definition load_tick_amount ::
  "(u64 \<Rightarrow> FixedDecimal \<Rightarrow> DecodeError + (u64 \<times> FixedDecimal)) \<Rightarrow> CanonicalTick \<Rightarrow> DecodeError + CanonicalTick" where
  "load_tick_amount load t =
    rbind (load (c_quality_flags (t_common t)) (t_amount t)) (\<lambda>(quality, d).
      Inr (t\<lparr>t_common := (t_common t)\<lparr>c_quality_flags := quality\<rparr>, t_amount := d\<rparr>))"

text \<open>The exchange time at \<open>offset\<close>.\<close>

definition tick_exchange_time :: "byte list \<Rightarrow> nat \<Rightarrow> CanonicalTick \<Rightarrow> DecodeError + CanonicalTick" where
  "tick_exchange_time body offset t =
    rbind (need kTruncated (LoadUnsigned body offset :: u32 option)) (\<lambda>exchange_time.
      let (ok, quality, ns) = DecodeTime exchange_time (c_quality_flags (t_common t))
            (c_exchange_time_ns (t_common t));
          t1 = t\<lparr>t_common := (t_common t)\<lparr>c_exchange_time_raw := exchange_time,
                 c_quality_flags := quality, c_exchange_time_ns := ns\<rparr>\<rparr> in
      Inr (if ok then tick_valid kTickExchangeTimeValid
                   (t1\<lparr>t_common := (t_common t1)\<lparr>c_exchange_time_valid := True\<rparr>\<rparr>)
           else t1))"

text \<open>The quantity with scale 0; a negative raw value is flagged.\<close>

definition tick_raw_quantity :: "int \<Rightarrow> CanonicalTick \<Rightarrow> CanonicalTick" where
  "tick_raw_quantity raw t =
    (let t1 = t\<lparr>t_quantity := (t_quantity t)\<lparr>si_raw := raw, si_scale := 0\<rparr>\<rparr> in
     if raw \<ge> 0 then t1\<lparr>t_quantity := (t_quantity t1)\<lparr>si_valid := True\<rparr>\<rparr>
     else tick_quality kQualityInvalidQuantity t1)"

text \<open>A positive price is normalised, a non-positive one is flagged.\<close>

definition normalize_price :: "CanonicalTick \<Rightarrow> DecodeError + CanonicalTick" where
  "normalize_price t =
    (if fd_raw_valid (t_price t) \<and> fd_raw (t_price t) > 0
     then rbind (NormalizeP6 (t_price t)) (\<lambda>d. Inr (t\<lparr>t_price := d\<rparr>))
     else if fd_raw_valid (t_price t) then Inr (tick_quality kQualityInvalidPrice t)
     else Inr t)"

section \<open>Enumerations\<close>

definition ParseShPhase :: "byte list \<Rightarrow> TradingPhase" where
  "ParseShPhase text_value =
    (if text_value = bytes_of ''START'' then TradingPhase_kStart
     else if text_value = bytes_of ''OCALL'' then TradingPhase_kOpeningCall
     else if text_value = bytes_of ''TRADE'' then TradingPhase_kContinuous
     else if text_value = bytes_of ''SUSP'' then TradingPhase_kSuspended
     else if text_value = bytes_of ''CCALL'' then TradingPhase_kClosingCall
     else if text_value = bytes_of ''CLOSE'' then TradingPhase_kClosed
     else if text_value = bytes_of ''ENDTR'' then TradingPhase_kEnded
     else TradingPhase_kUnknown)"

definition DecodeSzSide :: "int \<Rightarrow> Side" where
  "DecodeSzSide raw = (if raw = 49 then Side_kBuy else if raw = 50 then Side_kSell
     else if raw = 71 then Side_kBorrow else if raw = 70 then Side_kLend else Side_kUnknown)"

definition DecodeSzOrderType :: "int \<Rightarrow> OrderType" where
  "DecodeSzOrderType raw = (if raw = 49 then OrderType_kMarket else if raw = 50 then OrderType_kLimit
     else if raw = 85 then OrderType_kSameSideBest else OrderType_kUnknown)"

section \<open>The Shanghai tick\<close>

definition set_order_side :: "byte list \<Rightarrow> CanonicalTick \<Rightarrow> CanonicalTick" where
  "set_order_side flag_text t =
    (let finish = (\<lambda>t1. tick_when (t_primary_order_id t1 > 0) (tick_valid kTickPrimaryOrderIdValid)
           (tick_valid kTickSideValid t1)) in
     if flag_text = bytes_of ''B'' then finish (t\<lparr>t_side := Side_kBuy, t_primary_order_id := t_buy_order_id t\<rparr>)
     else if flag_text = bytes_of ''S'' then finish (t\<lparr>t_side := Side_kSell, t_primary_order_id := t_sell_order_id t\<rparr>)
     else tick_quality kQualityUnknownEnum t)"

text \<open>The matched quantity an add record carries in its amount field.\<close>

definition sh_matched_quantity :: "CanonicalTick \<Rightarrow> CanonicalTick" where
  "sh_matched_quantity t =
    (let a = t_amount t in
     if fd_raw_valid a \<and> fd_raw a \<ge> 0 \<and> fd_raw a mod 1000 = 0
     then tick_valid kTickMatchedQuantityValid (t\<lparr>t_sh_add_matched_quantity_raw := fd_raw a div 1000\<rparr>)
     else if fd_raw_valid a \<and> fd_raw a < 0 then tick_quality kQualityInvalidQuantity t
     else if fd_raw_valid a then tick_quality kQualityNonIntegralMatchedQuantity t
     else t)"

definition sh_add :: "byte list \<Rightarrow> CanonicalTick \<Rightarrow> DecodeError + CanonicalTick" where
  "sh_add flag_text t0 =
    rbind (normalize_price (t0\<lparr>t_action := TickAction_kAdd\<rparr>)) (\<lambda>t1.
    let t2 = tick_when (fd_p6_valid (t_price t1)) (tick_valid kTickPriceValid) t1;
        t3 = tick_when (si_valid (t_quantity t2)) (tick_valid kTickQuantityValid) t2;
        t4 = set_order_side flag_text t3;
        t5 = sh_matched_quantity t4 in
    Inr (t5\<lparr>t_amount := (t_amount t5)\<lparr>fd_p6_valid := False\<rparr>\<rparr>))"

definition sh_cancel :: "byte list \<Rightarrow> CanonicalTick \<Rightarrow> DecodeError + CanonicalTick" where
  "sh_cancel flag_text t0 =
    (let t1 = t0\<lparr>t_action := TickAction_kCancel\<rparr>;
         t2 = tick_when (si_valid (t_quantity t1)) (tick_valid kTickQuantityValid) t1 in
     Inr (set_order_side flag_text t2))"

definition sh_trade_amount :: "CanonicalTick \<Rightarrow> DecodeError + CanonicalTick" where
  "sh_trade_amount t =
    (if fd_raw_valid (t_amount t) \<and> fd_raw (t_amount t) \<ge> 0
     then rbind (NormalizeP6 (t_amount t)) (\<lambda>d. Inr (t\<lparr>t_amount := d\<rparr>))
     else if fd_raw_valid (t_amount t) then Inr (tick_quality kQualityInvalidAmount t)
     else Inr t)"

definition sh_aggressor :: "byte list \<Rightarrow> CanonicalTick \<Rightarrow> CanonicalTick" where
  "sh_aggressor flag_text t =
    (let t1 = (if flag_text = bytes_of ''B'' then t\<lparr>t_aggressor := Aggressor_kBuy\<rparr>
       else if flag_text = bytes_of ''S'' then t\<lparr>t_aggressor := Aggressor_kSell\<rparr>
       else if flag_text = bytes_of ''N'' then t\<lparr>t_aggressor := Aggressor_kNeutral\<rparr>
       else tick_quality kQualityUnknownEnum t) in
     tick_when (t_aggressor t1 \<noteq> Aggressor_kUnknown) (tick_valid kTickAggressorValid) t1)"

definition publish_order_ids :: "CanonicalTick \<Rightarrow> CanonicalTick" where
  "publish_order_ids t =
    tick_when (t_sell_order_id t > 0) (tick_valid kTickSellOrderIdValid)
      (tick_when (t_buy_order_id t > 0) (tick_valid kTickBuyOrderIdValid) t)"

definition sh_trade :: "byte list \<Rightarrow> CanonicalTick \<Rightarrow> DecodeError + CanonicalTick" where
  "sh_trade flag_text t0 =
    rbind (normalize_price (t0\<lparr>t_action := TickAction_kTrade\<rparr>)) (\<lambda>t1.
    rbind (sh_trade_amount t1) (\<lambda>t2.
    let t3 = tick_when (fd_p6_valid (t_price t2)) (tick_valid kTickPriceValid) t2;
        t4 = tick_when (si_valid (t_quantity t3)) (tick_valid kTickQuantityValid) t3;
        t5 = tick_when (fd_p6_valid (t_amount t4)) (tick_valid kTickAmountValid) t4 in
    Inr (sh_aggressor flag_text (publish_order_ids t5))))"

definition sh_status :: "byte list \<Rightarrow> CanonicalTick \<Rightarrow> DecodeError + CanonicalTick" where
  "sh_status flag_text t0 =
    (let t1 = t0\<lparr>t_action := TickAction_kStatus, t_quantity := (t_quantity t0)\<lparr>si_valid := False\<rparr>,
           t_phase := ParseShPhase flag_text\<rparr> in
     Inr (if t_phase t1 = TradingPhase_kUnknown then tick_quality kQualityUnknownEnum t1
          else tick_valid kTickPhaseValid t1))"

definition sh_unknown :: "CanonicalTick \<Rightarrow> CanonicalTick" where
  "sh_unknown t = tick_quality kQualityUnknownEnum (t\<lparr>t_quantity := (t_quantity t)\<lparr>si_valid := False\<rparr>\<rparr>)"

definition sh_body :: "byte list \<Rightarrow> byte list \<Rightarrow> CanonicalTick \<Rightarrow> DecodeError + CanonicalTick" where
  "sh_body type_text flag_text t =
    (if type_text = bytes_of ''A'' then sh_add flag_text t
     else if type_text = bytes_of ''D'' then sh_cancel flag_text t
     else if type_text = bytes_of ''T'' then sh_trade flag_text t
     else if type_text = bytes_of ''S'' then sh_status flag_text t
     else Inr (sh_unknown t))"

text \<open>The character code of a one-character text, otherwise 0.\<close>

definition raw_char :: "byte list \<Rightarrow> int" where
  "raw_char text_value = (if length text_value = 1 then uint (hd text_value) else 0)"

definition finish_tick :: "InstrumentCatalog \<Rightarrow> CanonicalTick \<Rightarrow> TickDecodeResult" where
  "finish_tick cat t =
    (let (catalog_match, common) = ApplyCatalog cat (t_common t) in
     \<lparr>td_tick = t\<lparr>t_common := common\<rparr>, td_catalog_match = catalog_match\<rparr>)"

text \<open>
  The native position: a load that fails leaves the initial 0, so it is reported like a
  non-positive value.
\<close>

definition positive :: "int option \<Rightarrow> DecodeError + int" where
  "positive m = (case m of None \<Rightarrow> Inl kInvalidNativeSequence
     | Some x \<Rightarrow> if x \<le> 0 then Inl kInvalidNativeSequence else Inr x)"

definition DecodeShanghaiTick ::
  "OwnedMessageView \<Rightarrow> u32 \<Rightarrow> DecoderLimits \<Rightarrow> InstrumentCatalog \<Rightarrow> RangeState
     \<Rightarrow> DecodeError + (TickDecodeResult \<times> RangeState)" where
  "DecodeShanghaiTick message trade_date limits cat rs =
    (let body = mv_body message in
     if length body < sizeof_NGTSTick then Inl kTruncated
     else
     let t0 = default_tick\<lparr>t_common := InitializeCommon message trade_date Market_kShanghai
                CanonicalKind_kShanghaiTick (t_common default_tick)\<rparr> in
     rbind (ReadIdentity body Market_kShanghai sizeof_NGTSTick SIZE_MAX 12 SIZE_MAX limits
       (t_common t0) rs) (\<lambda>(common, rs1).
     rbind (positive (LoadI64 body 0)) (\<lambda>seq_raw.
     rbind (positive (LoadI32 body 8)) (\<lambda>channel_raw.
     rbind (need kTruncated (LoadI64 body 28)) (\<lambda>buy.
     rbind (need kTruncated (LoadI64 body 36)) (\<lambda>sell.
     rbind (need kTruncated (LoadI64 body 48)) (\<lambda>quantity.
     let t1 = t0\<lparr>t_common := common\<lparr>c_native_sequence := word_of_int seq_raw,
                c_channel := word_of_int channel_raw\<rparr>,
                t_buy_order_id := buy, t_sell_order_id := sell\<rparr>;
         t2 = tick_when (buy < 0 \<or> sell < 0) (tick_quality kQualityInvalidOrderReference) t1;
         t3 = tick_raw_quantity quantity t2 in
     rbind (tick_exchange_time body 18 t3) (\<lambda>t4.
     rbind (load_tick_price (LoadDecimal32Raw body 44 3) t4) (\<lambda>t5.
     rbind (load_tick_amount (LoadDecimal64Raw body 56 3) t5) (\<lambda>t6.
     rbind (ReadText body 22 sizeof_NGTSTick (maximum_text_bytes limits) True rs1) (\<lambda>(type_text, rs2).
     rbind (ReadText body 64 sizeof_NGTSTick (maximum_text_bytes limits) True rs2) (\<lambda>(flag_text, rs3).
     rbind (sh_body type_text flag_text
       (t6\<lparr>t_raw_type := raw_char type_text, t_raw_side := raw_char flag_text\<rparr>)) (\<lambda>t7.
     Inr (finish_tick cat t7, rs3))))))))))))))"

section \<open>The Shenzhen order\<close>

definition sz_limit_price :: "CanonicalTick \<Rightarrow> DecodeError + CanonicalTick" where
  "sz_limit_price t =
    (if t_order_type t = OrderType_kLimit
     then rbind (normalize_price t) (\<lambda>t1.
       Inr (tick_when (fd_p6_valid (t_price t1)) (tick_valid kTickPriceValid) t1))
     else Inr t)"

definition sz_order_enums :: "CanonicalTick \<Rightarrow> CanonicalTick" where
  "sz_order_enums t =
    (let t1 = t\<lparr>t_side := DecodeSzSide (t_raw_side t)\<rparr>;
         t2 = (if t_side t1 = Side_kUnknown then tick_quality kQualityUnknownEnum t1
               else tick_valid kTickSideValid t1);
         t3 = t2\<lparr>t_order_type := DecodeSzOrderType (t_raw_type t2)\<rparr> in
     if t_order_type t3 = OrderType_kUnknown then tick_quality kQualityUnknownEnum t3
     else tick_valid kTickOrderTypeValid t3)"

definition DecodeShenzhenOrder ::
  "OwnedMessageView \<Rightarrow> u32 \<Rightarrow> DecoderLimits \<Rightarrow> InstrumentCatalog \<Rightarrow> RangeState
     \<Rightarrow> DecodeError + (TickDecodeResult \<times> RangeState)" where
  "DecodeShenzhenOrder message trade_date limits cat rs =
    (let body = mv_body message in
     if length body < sizeof_Order300192_v2 then Inl kTruncated
     else
     let t0 = default_tick\<lparr>t_common := InitializeCommon message trade_date Market_kShenzhen
                CanonicalKind_kShenzhenOrder (t_common default_tick)\<rparr> in
     rbind (ReadIdentity body Market_kShenzhen sizeof_Order300192_v2 12 18 24 limits
       (t_common t0) rs) (\<lambda>(common, rs1).
     rbind (need kInvalidNativeSequence (LoadUnsigned body 0)) (\<lambda>channel.
     rbind (positive (LoadI64 body 4)) (\<lambda>seq_raw.
     rbind (need kTruncated (LoadI64 body 38)) (\<lambda>quantity.
     rbind (need kTruncated (LoadI32 body 46)) (\<lambda>side_raw.
     rbind (need kTruncated (LoadI32 body 54)) (\<lambda>type_raw.
     let t1 = tick_valid kTickPrimaryOrderIdValid
           (t0\<lparr>t_common := common\<lparr>c_channel := channel, c_native_sequence := word_of_int seq_raw\<rparr>,
              t_raw_side := side_raw, t_raw_type := type_raw,
              t_primary_order_id := seq_raw, t_action := TickAction_kAdd\<rparr>);
         t2 = tick_raw_quantity quantity t1;
         t3 = tick_when (quantity \<ge> 0) (tick_valid kTickQuantityValid) t2 in
     rbind (tick_exchange_time body 50 t3) (\<lambda>t4.
     rbind (load_tick_price (LoadDecimal64Raw body 30 4) t4) (\<lambda>t5.
     rbind (sz_limit_price (sz_order_enums t5)) (\<lambda>t6.
     Inr (finish_tick cat t6, rs1)))))))))))"

section \<open>The Shenzhen transaction\<close>

definition sz_trade :: "CanonicalTick \<Rightarrow> DecodeError + CanonicalTick" where
  "sz_trade t0 =
    rbind (normalize_price (publish_order_ids (t0\<lparr>t_action := TickAction_kTrade\<rparr>))) (\<lambda>t1.
    let t2 = tick_when (fd_p6_valid (t_price t1)) (tick_valid kTickPriceValid) t1 in
    Inr (tick_when (si_valid (t_quantity t2)) (tick_valid kTickQuantityValid) t2))"

definition sz_cancel :: "CanonicalTick \<Rightarrow> CanonicalTick" where
  "sz_cancel t0 =
    (let t1 = publish_order_ids (t0\<lparr>t_action := TickAction_kCancel\<rparr>);
         t2 = tick_when (si_valid (t_quantity t1)) (tick_valid kTickQuantityValid) t1;
         has_bid = t_buy_order_id t2 > 0; has_ask = t_sell_order_id t2 > 0 in
     if has_bid \<noteq> has_ask
     then tick_valid (kTickPrimaryOrderIdValid OR kTickSideValid)
       (t2\<lparr>t_primary_order_id := (if has_bid then t_buy_order_id t2 else t_sell_order_id t2),
          t_side := (if has_bid then Side_kBuy else Side_kSell)\<rparr>)
     else tick_quality kQualityAmbiguousOrderReference t2)"

definition sz_transaction_body :: "CanonicalTick \<Rightarrow> DecodeError + CanonicalTick" where
  "sz_transaction_body t =
    (if t_raw_type t = 70 then sz_trade t
     else if t_raw_type t = 52 then Inr (sz_cancel t)
     else Inr (sh_unknown t))"

definition DecodeShenzhenTransaction ::
  "OwnedMessageView \<Rightarrow> u32 \<Rightarrow> DecoderLimits \<Rightarrow> InstrumentCatalog \<Rightarrow> RangeState
     \<Rightarrow> DecodeError + (TickDecodeResult \<times> RangeState)" where
  "DecodeShenzhenTransaction message trade_date limits cat rs =
    (let body = mv_body message in
     if length body < sizeof_Transaction300191_v2 then Inl kTruncated
     else
     let t0 = default_tick\<lparr>t_common := InitializeCommon message trade_date Market_kShenzhen
                CanonicalKind_kShenzhenTransaction (t_common default_tick)\<rparr> in
     rbind (ReadIdentity body Market_kShenzhen sizeof_Transaction300191_v2 12 34 40 limits
       (t_common t0) rs) (\<lambda>(common, rs1).
     rbind (need kInvalidNativeSequence (LoadUnsigned body 0)) (\<lambda>channel.
     rbind (positive (LoadI64 body 4)) (\<lambda>seq_raw.
     rbind (need kTruncated (LoadI64 body 18)) (\<lambda>buy.
     rbind (need kTruncated (LoadI64 body 26)) (\<lambda>sell.
     rbind (need kTruncated (LoadI64 body 54)) (\<lambda>quantity.
     rbind (need kTruncated (LoadI32 body 62)) (\<lambda>type_raw.
     let t1 = t0\<lparr>t_common := common\<lparr>c_channel := channel, c_native_sequence := word_of_int seq_raw\<rparr>,
                t_buy_order_id := buy, t_sell_order_id := sell, t_raw_type := type_raw\<rparr>;
         t2 = tick_when (buy < 0 \<or> sell < 0) (tick_quality kQualityInvalidOrderReference) t1;
         t3 = tick_raw_quantity quantity t2 in
     rbind (tick_exchange_time body 66 t3) (\<lambda>t4.
     rbind (load_tick_price (LoadDecimal64Raw body 46 4) t4) (\<lambda>t5.
     rbind (sz_transaction_body t5) (\<lambda>t6.
     Inr (finish_tick cat t6, rs1))))))))))))"

section \<open>Dispatch on the message class\<close>

text \<open>
  \<open>DecodeTick\<close> opens a range scope; the ranges of a decode that returns are kept beside the
  result, as the thread-local table keeps them until the next scope.
\<close>

definition decode_tick_scoped ::
  "OwnedMessageView \<Rightarrow> u32 \<Rightarrow> DecoderLimits \<Rightarrow> InstrumentCatalog
     \<Rightarrow> DecodeError + (TickDecodeResult \<times> RangeState)" where
  "decode_tick_scoped message trade_date limits cat =
    (case ClassifyMessage (hdr_key (mv_header message)) of
       MessageClass_kShanghaiTick \<Rightarrow> DecodeShanghaiTick message trade_date limits cat DynamicRangeScope
     | MessageClass_kShenzhenOrder \<Rightarrow> DecodeShenzhenOrder message trade_date limits cat DynamicRangeScope
     | MessageClass_kShenzhenTransaction \<Rightarrow>
         DecodeShenzhenTransaction message trade_date limits cat DynamicRangeScope
     | _ \<Rightarrow> Inl kUnsupported)"

definition DecodeTick ::
  "OwnedMessageView \<Rightarrow> u32 \<Rightarrow> DecoderLimits \<Rightarrow> InstrumentCatalog \<Rightarrow> DecodeError + TickDecodeResult" where
  "DecodeTick message trade_date limits cat =
     rbind (decode_tick_scoped message trade_date limits cat) (\<lambda>(result, rs). Inr result)"

definition ExtractTickNativeDescriptor ::
  "MessageClass \<Rightarrow> byte list \<Rightarrow> (Market \<times> u32 \<times> u64) option" where
  "ExtractTickNativeDescriptor message_class body =
    (case message_class of
       MessageClass_kShanghaiTick \<Rightarrow>
         (if length body < sizeof_NGTSTick then None
          else case (LoadI64 body 0, LoadI32 body 8) of
            (Some raw_sequence, Some raw_channel) \<Rightarrow>
              if raw_sequence \<le> 0 \<or> raw_channel \<le> 0 then None
              else Some (Market_kShanghai, word_of_int raw_channel, word_of_int raw_sequence)
          | _ \<Rightarrow> None)
     | _ \<Rightarrow>
       if message_class = MessageClass_kShenzhenOrder \<or> message_class = MessageClass_kShenzhenTransaction
       then let fixed = (if message_class = MessageClass_kShenzhenOrder then sizeof_Order300192_v2
                         else sizeof_Transaction300191_v2) in
         (if length body < fixed then None
          else case (LoadUnsigned body 0, LoadI64 body 4) of
            (Some channel, Some raw_sequence) \<Rightarrow>
              if raw_sequence \<le> 0 then None
              else Some (Market_kShenzhen, channel, word_of_int raw_sequence)
          | _ \<Rightarrow> None)
       else None)"

end
