(* ===== verification/Decoder_Facts.thy ===== *)
theory Decoder_Facts
  imports Decoder_Fields
begin

text \<open>
  Facts about the field-level decoding routines: the range table stays a table of disjoint
  regions of the body, texts are printable regions of the body, normalisation to six decimals is
  exact and fails exactly on overflow, times are exact, identities keep their array bounds.
\<close>

section \<open>Disjoint regions\<close>

definition disjoint_ranges :: "(nat \<times> nat) list \<Rightarrow> bool" where
  "disjoint_ranges rs \<longleftrightarrow> sorted_wrt (\<lambda>(b, e) (b', e'). e \<le> b' \<or> e' \<le> b) rs"

definition ranges_ok :: "nat \<Rightarrow> nat \<Rightarrow> RangeState \<Rightarrow> bool" where
  "ranges_ok fixed n rs \<longleftrightarrow> rs_protect rs \<and> disjoint_ranges (rs_ranges rs) \<and>
     (\<forall>(b, e) \<in> set (rs_ranges rs). fixed \<le> b \<and> b < e \<and> e \<le> n)"

lemma ranges_ok_scope [simp]: "ranges_ok fixed n DynamicRangeScope"
  by (simp add: ranges_ok_def DynamicRangeScope_def disjoint_ranges_def)

lemma ProtectDynamicRange_ok:
  assumes "ranges_ok fixed n rs" and "ProtectDynamicRange b k rs = Inr rs'"
    and "fixed \<le> b" and "b + k \<le> n"
  shows "ranges_ok fixed n rs'"
    and "0 < k \<Longrightarrow> rs_ranges rs' = rs_ranges rs @ [(b, b + k)]"
proof -
  have *: "rs' = (if k = 0 then rs else rs\<lparr>rs_ranges := rs_ranges rs @ [(b, b + k)]\<rparr>)"
    and free: "0 < k \<Longrightarrow> \<forall>(b', e) \<in> set (rs_ranges rs). \<not> (b < e \<and> b' < b + k)"
    using assms(1,2) by (auto simp: ProtectDynamicRange_def ranges_ok_def Let_def list_ex_iff split: if_splits)
  show "0 < k \<Longrightarrow> rs_ranges rs' = rs_ranges rs @ [(b, b + k)]" by (simp add: *)
  show "ranges_ok fixed n rs'"
  proof (cases "k = 0")
    case True
    then show ?thesis using assms(1) * by simp
  next
    case False
    then show ?thesis using assms(1,3,4) * free
      by (fastforce simp: ranges_ok_def disjoint_ranges_def sorted_wrt_append)
  qed
qed

lemma ReadText_Inr:
  assumes "ReadText body off fixed m ne rs = Inr (t, rs')"
  shows "length t \<le> m" "IsPrintableAscii t" "ne \<longrightarrow> t \<noteq> []" "t = [] \<Longrightarrow> rs' = rs"
    "t \<noteq> [] \<Longrightarrow> \<exists>start. fixed \<le> start \<and> start + length t \<le> length body \<and>
       t = subspan body start (length t) \<and> ProtectDynamicRange start (length t) rs = Inr rs'"
proof -
  from assms obtain n :: u16 and rel :: u32 where L: "LoadUnsigned body off = Some n"
    "LoadUnsigned body (off + 2) = Some rel" and len: "fixed \<le> length body"
    by (auto simp: ReadText_def return_iff split: if_splits)
  let ?start = "off + unat rel"
  have cases: "t = [] \<and> rs' = rs \<and> \<not> ne \<or>
    unat n \<noteq> 0 \<and> unat n \<le> m \<and> fixed \<le> ?start \<and> ?start + unat n \<le> length body \<and>
      t = subspan body ?start (unat n) \<and> IsPrintableAscii t \<and> ProtectDynamicRange ?start (unat n) rs = Inr rs'"
    using assms len unfolding ReadText_def L need_def option.case rbind_simps Let_def
    by (auto simp: return_iff split: if_splits)
  then have n: "t = [] \<and> rs' = rs \<and> \<not> ne \<or> length t = unat n \<and> 0 < unat n"
    by (auto simp: subspan_def)
  show "length t \<le> m" "IsPrintableAscii t" "ne \<longrightarrow> t \<noteq> []" "t = [] \<Longrightarrow> rs' = rs"
    using cases n by (auto simp: IsPrintableAscii_def)
  show "t \<noteq> [] \<Longrightarrow> \<exists>start. fixed \<le> start \<and> start + length t \<le> length body \<and>
       t = subspan body start (length t) \<and> ProtectDynamicRange start (length t) rs = Inr rs'"
    using cases n by (intro exI [of _ ?start]) auto
qed

lemma ReadText_ranges:
  assumes "ranges_ok fixed (length body) rs" and "ReadText body off fixed m ne rs = Inr (t, rs')"
  shows "ranges_ok fixed (length body) rs'"
proof (cases "t = []")
  case True
  then show ?thesis using assms(1) ReadText_Inr(4) [OF assms(2)] by simp
next
  case False
  from ReadText_Inr(5) [OF assms(2) False] show ?thesis using ProtectDynamicRange_ok(1) [OF assms(1)] by blast
qed

lemma ReadList_Inr:
  assumes "ReadList body off item fixed m rs = Inr (lv, rs')"
  shows "lv_item_size lv = item" "lv_count lv \<le> m"
    "lv_count lv \<noteq> 0 \<Longrightarrow> fixed \<le> lv_start lv \<and> lv_start lv + lv_count lv * item \<le> length body \<and>
       ProtectDynamicRange (lv_start lv) (lv_count lv * item) rs = Inr rs' \<and> item \<noteq> 0"
    "lv_count lv = 0 \<Longrightarrow> rs' = rs"
  using assms by (auto simp: ReadList_def Let_def return_iff split: if_splits)

lemma ReadList_ranges:
  assumes "ranges_ok fixed (length body) rs" and "ReadList body off item fixed m rs = Inr (lv, rs')"
  shows "ranges_ok fixed (length body) rs'"
proof (cases "lv_count lv = 0")
  case True
  then show ?thesis using assms(1) ReadList_Inr(4) [OF assms(2)] by simp
next
  case False
  from ReadList_Inr(3) [OF assms(2) False] show ?thesis using ProtectDynamicRange_ok(1) [OF assms(1)] by blast
qed

section \<open>Fixed point\<close>

definition decimal_wf :: "FixedDecimal \<Rightarrow> bool" where
  "decimal_wf d \<longleftrightarrow> (fd_p6_valid d \<longrightarrow> fd_raw_valid d \<and> fd_source_scale d \<le> 6 \<and>
     fd_p6 d = fd_raw d * 10 ^ (6 - fd_source_scale d) \<and> in_i64 (fd_p6 d))"

lemma p6_powers_nth: "n \<le> 6 \<Longrightarrow> p6_powers ! n = 10 ^ n"
proof -
  assume "n \<le> 6"
  then have "n \<in> {0, 1, 2, 3, 4, 5, 6}" by auto
  then show ?thesis by (auto simp: p6_powers_def)
qed

lemma div_less_mult_iff:
  fixes M m x :: int
  assumes "0 < m"
  shows "M div m < x \<longleftrightarrow> M < x * m"
proof -
  have M: "M = (M div m) * m + M mod m" by simp
  have r: "0 \<le> M mod m" "M mod m < m" using assms by simp_all
  show ?thesis
  proof
    assume "M div m < x"
    then have "(M div m + 1) * m \<le> x * m" using assms by (intro mult_right_mono) auto
    moreover have "(M div m + 1) * m = (M div m) * m + m" by (simp add: algebra_simps)
    ultimately show "M < x * m" using M r(2) by linarith
  next
    assume less: "M < x * m"
    show "M div m < x"
    proof (rule ccontr)
      assume "\<not> M div m < x"
      then have "x * m \<le> (M div m) * m" using assms by (intro mult_right_mono) auto
      then show False using less M r(1) by linarith
    qed
  qed
qed

text \<open>The two comparisons of \<open>NormalizeP6\<close> are exactly the overflow of the product.\<close>

lemma mult_overflow_iff:
  fixes x m :: int
  assumes "0 < m"
  shows "(0 < x \<and> I64_MAX div m < x \<or> x < 0 \<and> x < - ((- I64_MIN) div m)) \<longleftrightarrow> \<not> in_i64 (x * m)"
proof -
  have hi: "I64_MAX div m < x \<longleftrightarrow> I64_MAX < x * m" by (rule div_less_mult_iff [OF assms])
  have "x < - ((- I64_MIN) div m) \<longleftrightarrow> (- I64_MIN) div m < - x" by linarith
  also have "\<dots> \<longleftrightarrow> - I64_MIN < - x * m" by (rule div_less_mult_iff [OF assms])
  finally have lo: "x < - ((- I64_MIN) div m) \<longleftrightarrow> x * m < I64_MIN" by (simp add: less_minus_iff)
  have "\<not> 0 < x \<Longrightarrow> x * m \<le> 0" "\<not> x < 0 \<Longrightarrow> 0 \<le> x * m"
    using assms mult_nonpos_nonneg [of x m] mult_nonneg_nonneg [of x m] by simp_all
  then have "I64_MAX < x * m \<Longrightarrow> 0 < x" "x * m < I64_MIN \<Longrightarrow> x < 0"
    by (force simp: I64_MAX_def I64_MIN_def)+
  then show ?thesis unfolding hi lo in_i64_def by linarith
qed

lemma NormalizeP6_iff:
  assumes "fd_raw_valid d" and "fd_source_scale d \<le> 6"
  shows "NormalizeP6 d = (let p6 = fd_raw d * 10 ^ (6 - fd_source_scale d) in
    if in_i64 p6 then Inr (d\<lparr>fd_p6 := p6, fd_p6_valid := True\<rparr>) else Inl kFixedPointOverflow)"
  using assms mult_overflow_iff [of "10 ^ (6 - fd_source_scale d)" "fd_raw d"]
  by (auto simp: NormalizeP6_def Let_def p6_powers_nth)

lemma NormalizeP6_Inr:
  assumes "NormalizeP6 d = Inr d'" and "decimal_wf d"
  shows "decimal_wf d'" "fd_raw d' = fd_raw d" "fd_raw_valid d' = fd_raw_valid d"
    "fd_source_scale d' = fd_source_scale d" "fd_raw_valid d \<Longrightarrow> fd_p6_valid d'"
proof -
  have le: "fd_source_scale d \<le> 6" using assms(1) by (auto simp: NormalizeP6_def split: if_splits)
  show "decimal_wf d'" "fd_raw d' = fd_raw d" "fd_raw_valid d' = fd_raw_valid d"
    "fd_source_scale d' = fd_source_scale d" "fd_raw_valid d \<Longrightarrow> fd_p6_valid d'"
    using assms NormalizeP6_iff [OF _ le]
    by (cases "fd_raw_valid d"; auto simp: Let_def decimal_wf_def NormalizeP6_def split: if_splits)+
qed

lemma decimal_wf_default [simp]: "decimal_wf default_decimal"
  by (simp add: decimal_wf_def default_decimal_def)


lemma LoadDecimal32Raw_Inr:
  assumes "LoadDecimal32Raw body off scale q d = Inr (q', d')"
  shows "fd_source_scale d' = scale" "fd_p6_valid d' = fd_p6_valid d" "LoadI32 body off = Some (fd_raw d')"
    "\<not> fd_p6_valid d \<Longrightarrow> decimal_wf d'"
proof -
  from assms obtain raw where raw: "LoadI32 body off = Some raw"
    by (auto simp: LoadDecimal32Raw_def need_Inr_iff)
  then have "d' = d\<lparr>fd_raw := raw, fd_source_scale := scale, fd_raw_valid := fd_raw_valid d'\<rparr>"
    using assms by (cases "raw = kNullI32") (auto simp: LoadDecimal32Raw_def need_def)
  then obtain v where d': "d' = d\<lparr>fd_raw := raw, fd_source_scale := scale, fd_raw_valid := v\<rparr>" ..
  show "fd_source_scale d' = scale" "fd_p6_valid d' = fd_p6_valid d" "LoadI32 body off = Some (fd_raw d')"
    "\<not> fd_p6_valid d \<Longrightarrow> decimal_wf d'"
    by (simp_all add: d' raw decimal_wf_def)
qed

lemma LoadDecimal64Raw_Inr:
  assumes "LoadDecimal64Raw body off scale q d = Inr (q', d')"
  shows "fd_source_scale d' = scale" "fd_p6_valid d' = fd_p6_valid d" "LoadI64 body off = Some (fd_raw d')"
    "\<not> fd_p6_valid d \<Longrightarrow> decimal_wf d'"
proof -
  from assms obtain raw where raw: "LoadI64 body off = Some raw"
    by (auto simp: LoadDecimal64Raw_def need_Inr_iff)
  then have "d' = d\<lparr>fd_raw := raw, fd_source_scale := scale, fd_raw_valid := fd_raw_valid d'\<rparr>"
    using assms by (cases "raw = kNullI64") (auto simp: LoadDecimal64Raw_def need_def)
  then obtain v where d': "d' = d\<lparr>fd_raw := raw, fd_source_scale := scale, fd_raw_valid := v\<rparr>" ..
  show "fd_source_scale d' = scale" "fd_p6_valid d' = fd_p6_valid d" "LoadI64 body off = Some (fd_raw d')"
    "\<not> fd_p6_valid d \<Longrightarrow> decimal_wf d'"
    by (simp_all add: d' raw decimal_wf_def)
qed

lemma DecodePrice_Inr:
  assumes "\<not> fd_p6_valid d"
  shows "DecodePrice32 body off scale q d = Inr (q', d') \<Longrightarrow> decimal_wf d' \<and> (fd_p6_valid d' \<longrightarrow> 0 < fd_raw d')"
    and "DecodePrice64 body off scale q d = Inr (q', d') \<Longrightarrow> decimal_wf d' \<and> (fd_p6_valid d' \<longrightarrow> 0 < fd_raw d')"
proof -
  have fin: "decimal_wf d' \<and> (fd_p6_valid d' \<longrightarrow> 0 < fd_raw d')"
    if wf: "decimal_wf d1" "\<not> fd_p6_valid d1" and r: "(if \<not> fd_raw_valid d1 then Inr (q1, d1)
      else if fd_raw d1 \<le> 0 then Inr (q1 OR kQualityInvalidPrice, d1)
      else rbind (NormalizeP6 d1) (\<lambda>d2. Inr (q1, d2))) = Inr (q', d')" for d1 q1
    using r wf NormalizeP6_Inr [of d1 d'] by (auto simp: return_iff split: if_splits)
  show "decimal_wf d' \<and> (fd_p6_valid d' \<longrightarrow> 0 < fd_raw d')"
    if "DecodePrice32 body off scale q d = Inr (q', d')"
  proof -
    from that obtain q1 d1 where l: "LoadDecimal32Raw body off scale q d = Inr (q1, d1)"
      by (auto simp: DecodePrice32_def return_iff)
    show ?thesis using fin [of d1 q1] LoadDecimal32Raw_Inr [OF l] that assms
      by (simp add: DecodePrice32_def l)
  qed
  show "decimal_wf d' \<and> (fd_p6_valid d' \<longrightarrow> 0 < fd_raw d')"
    if "DecodePrice64 body off scale q d = Inr (q', d')"
  proof -
    from that obtain q1 d1 where l: "LoadDecimal64Raw body off scale q d = Inr (q1, d1)"
      by (auto simp: DecodePrice64_def return_iff)
    show ?thesis using fin [of d1 q1] LoadDecimal64Raw_Inr [OF l] that assms
      by (simp add: DecodePrice64_def l)
  qed
qed

lemma DecodeDecimal64_wf:
  assumes "DecodeDecimal64 body off scale q d = Inr (q', d')" and "\<not> fd_p6_valid d"
  shows "decimal_wf d'"
  using assms LoadDecimal64Raw_Inr(4) [OF _ assms(2)] NormalizeP6_Inr(1)
  by (auto simp: DecodeDecimal64_def return_iff)

definition scaled_wf :: "ScaledInteger \<Rightarrow> bool" where
  "scaled_wf q \<longleftrightarrow> (si_valid q \<longrightarrow> 0 \<le> si_raw q \<and> in_i64 (si_raw q))"

lemma DecodeQuantity_wf:
  assumes "DecodeQuantity body off scale nullable q x = Inr (q', x')" and "\<not> si_valid x"
  shows "scaled_wf x'"
proof -
  from assms(1) obtain raw where raw: "LoadI64 body off = Some raw"
    by (auto simp: DecodeQuantity_def need_Inr_iff)
  then show ?thesis using assms LoadI64_Some_range [OF raw]
    by (auto simp: DecodeQuantity_def need_def Let_def scaled_wf_def split: if_splits)
qed

section \<open>Times\<close>

definition encode_time :: "nat \<Rightarrow> nat \<Rightarrow> nat \<Rightarrow> nat \<Rightarrow> nat" where
  "encode_time h m s ms = h * 10000000 + m * 100000 + s * 1000 + ms"

definition time_ns :: "nat \<Rightarrow> nat \<Rightarrow> nat \<Rightarrow> nat \<Rightarrow> nat" where
  "time_ns h m s ms = ((h * 60 + m) * 60 + s) * 1000000000 + ms * 1000000"

lemma encode_time_digits:
  assumes "m < 60" and "s < 60" and "ms < 1000"
  shows "encode_time h m s ms div 10000000 = h" "encode_time h m s ms div 100000 mod 100 = m"
    "encode_time h m s ms div 1000 mod 100 = s" "encode_time h m s ms mod 1000 = ms"
proof -
  let ?e = "encode_time h m s ms"
  have e: "?e = ms + 1000 * (s + 100 * (m + 100 * h))" by (simp add: encode_time_def)
  have g: "(r + n * x) mod n = r" "(r + n * x) div n = x" if "r < n" for r n x :: nat
    using that by simp_all
  have d1: "?e mod 1000 = ms" "?e div 1000 = s + 100 * (m + 100 * h)"
    unfolding e by (rule g, rule assms)+
  have s: "s < 100" and m: "m < 100" using assms by simp_all
  have d2: "?e div 100000 = ?e div 1000 div 100" "?e div 10000000 = ?e div 1000 div 100 div 100"
    by (simp_all only: div_mult2_eq [symmetric]) simp_all
  show "?e div 10000000 = h" "?e div 100000 mod 100 = m" "?e div 1000 mod 100 = s" "?e mod 1000 = ms"
    by (simp_all only: d1 d2 g [OF s] g [OF m])
qed

lemma encode_time_compose:
  assumes "r = 1000 * b + ms" and "b = 100 * c + s" and "c = 100 * h + m"
  shows "r = encode_time h m s ms"
  using assms by (simp add: encode_time_def)

lemma time_words:
  fixes raw :: u32
  shows "unat (raw div 10000000) = unat raw div 10000000"
    "unat (raw div 100000 mod 100) = unat raw div 100000 mod 100"
    "unat (raw div 1000 mod 100) = unat raw div 1000 mod 100"
    "unat (raw mod 1000) = unat raw mod 1000"
  by (simp_all add: unat_div unat_mod)

lemma DecodeTime_cases:
  fixes raw :: u32
  defines "h \<equiv> unat raw div 10000000" and "m \<equiv> unat raw div 100000 mod 100"
    and "s \<equiv> unat raw div 1000 mod 100" and "ms \<equiv> unat raw mod 1000"
  shows "h < 24 \<Longrightarrow> m < 60 \<Longrightarrow> s < 60 \<Longrightarrow> DecodeTime raw q ns = (True, q, of_nat (time_ns h m s ms))"
    and "\<not> (h < 24 \<and> m < 60 \<and> s < 60) \<Longrightarrow> fst (DecodeTime raw q ns) = False"
proof -
  have lt: "raw div 10000000 < 24 \<longleftrightarrow> h < 24" "raw div 100000 mod 100 < 60 \<longleftrightarrow> m < 60"
    "raw div 1000 mod 100 < 60 \<longleftrightarrow> s < 60"
    by (simp_all add: word_less_nat_alt time_words h_def m_def s_def)
  have uc: "(ucast x :: u64) = of_nat (unat x)" for x :: u32
    by (metis of_nat_unat)
  show "\<not> (h < 24 \<and> m < 60 \<and> s < 60) \<Longrightarrow> fst (DecodeTime raw q ns) = False"
    using lt by (auto simp: DecodeTime_def Let_def not_le)
  assume b: "h < 24" "m < 60" "s < 60"
  have "raw \<noteq> kNullTime"
  proof
    assume "raw = kNullTime"
    then have "h = 100" by (simp add: h_def kNullTime_def)
    then show False using b by simp
  qed
  then show "DecodeTime raw q ns = (True, q, of_nat (time_ns h m s ms))"
    using b lt
    by (simp add: DecodeTime_def Let_def not_le uc time_words time_ns_def h_def m_def s_def ms_def
        algebra_simps)
qed

lemma DecodeTime_encode:
  assumes "h < 24" and "m < 60" and "s < 60" and "ms < 1000"
  shows "DecodeTime (of_nat (encode_time h m s ms)) q ns = (True, q, of_nat (time_ns h m s ms))"
proof -
  have "encode_time h m s ms < 2 ^ 32" using assms by (simp add: encode_time_def)
  then have u: "unat (of_nat (encode_time h m s ms) :: u32) = encode_time h m s ms"
    by (simp add: unat_of_nat take_bit_eq_mod)
  from DecodeTime_cases(1) [of "of_nat (encode_time h m s ms)", unfolded u] show ?thesis
    using encode_time_digits [OF assms(2-4), of h] assms by simp
qed

lemma DecodeTime_accepts:
  "fst (DecodeTime raw q ns) \<longleftrightarrow>
     (\<exists>h m s ms. h < 24 \<and> m < 60 \<and> s < 60 \<and> ms < 1000 \<and> unat raw = encode_time h m s ms)"
proof
  let ?h = "unat raw div 10000000" and ?m = "unat raw div 100000 mod 100"
    and ?s = "unat raw div 1000 mod 100" and ?ms = "unat raw mod 1000"
  assume "fst (DecodeTime raw q ns)"
  then have b: "?h < 24" "?m < 60" "?s < 60" using DecodeTime_cases(2) [of raw q ns] by auto
  have "unat raw = encode_time ?h ?m ?s ?ms"
  proof -
    have split: "(n :: nat) = k * (n div k) + n mod k" for n k by simp
    have "unat raw div 1000 div 100 = unat raw div 100000" "unat raw div 100000 div 100 = ?h"
      by (simp_all only: div_mult2_eq [symmetric]) simp_all
    then show ?thesis
      using encode_time_compose [OF split [of "unat raw" 1000] split [of "unat raw div 1000" 100]
          split [of "unat raw div 1000 div 100" 100]] by simp
  qed
  then show "\<exists>h m s ms. h < 24 \<and> m < 60 \<and> s < 60 \<and> ms < 1000 \<and> unat raw = encode_time h m s ms"
    using b by (intro exI [of _ ?h] exI [of _ ?m] exI [of _ ?s] exI [of _ ?ms]) simp
next
  assume "\<exists>h m s ms. h < 24 \<and> m < 60 \<and> s < 60 \<and> ms < 1000 \<and> unat raw = encode_time h m s ms"
  then obtain h m s ms where b: "h < 24" "m < 60" "s < 60" "ms < 1000" "unat raw = encode_time h m s ms"
    by blast
  then have "raw = of_nat (encode_time h m s ms)" using word_unat_eq_iff by (metis of_nat_unat ucast_id)
  then show "fst (DecodeTime raw q ns)" using DecodeTime_encode [OF b(1-4)] by simp
qed


section \<open>Identities\<close>

definition identity_wf :: "ExactIdentity \<Rightarrow> bool" where
  "identity_wf i \<longleftrightarrow> length (security_id i) = kMaximumIdentityBytes \<and>
     length (security_id_source i) = kMaximumIdentityBytes \<and>
     0 < unat (security_id_size i) \<and> unat (security_id_size i) \<le> kMaximumIdentityBytes \<and>
     unat (security_id_source_size i) \<le> kMaximumIdentityBytes \<and>
     IsPrintableAscii (take (unat (security_id_size i)) (security_id i)) \<and>
     IsPrintableAscii (take (unat (security_id_source_size i)) (security_id_source i))"

lemma length_copy_to [simp]: "length xs \<le> length ys \<Longrightarrow> length (copy_to xs ys) = length ys"
  by (simp add: copy_to_def)

lemma read_optional_text_Inr:
  assumes "read_optional_text body off fixed m rs = Inr (t, rs')" and "ranges_ok fixed (length body) rs"
  shows "ranges_ok fixed (length body) rs'" "t = Some bs \<Longrightarrow> length bs \<le> m \<and> IsPrintableAscii bs"
proof -
  have "ranges_ok fixed (length body) rs' \<and> (t = Some bs \<longrightarrow> length bs \<le> m \<and> IsPrintableAscii bs)"
  proof (cases "off = SIZE_MAX")
    case True
    then show ?thesis using assms by (simp add: read_optional_text_def)
  next
    case False
    then obtain bs' where r: "ReadText body off fixed m True rs = Inr (bs', rs')" "t = Some bs'"
      using assms(1) by (auto simp: read_optional_text_def)
    then show ?thesis using ReadText_ranges [OF assms(2) r(1)] ReadText_Inr(1,2) [OF r(1)] by auto
  qed
  then show "ranges_ok fixed (length body) rs'" "t = Some bs \<Longrightarrow> length bs \<le> m \<and> IsPrintableAscii bs"
    by blast+
qed

lemma ReadIdentity_Inr:
  assumes R: "ReadIdentity body market fixed so co xo limits common rs = Inr (common', rs')"
    and ok: "ranges_ok fixed (length body) rs"
    and lim: "maximum_text_bytes limits \<le> kMaximumIdentityBytes"
    and arr: "length (security_id (c_identity common)) = kMaximumIdentityBytes"
      "length (security_id_source (c_identity common)) = kMaximumIdentityBytes"
  obtains i sid sz where "common' = common\<lparr>c_identity := i, c_md_stream_id := sid, c_md_stream_id_size := sz\<rparr>"
    "id_market i = market" "identity_wf i" "ranges_ok fixed (length body) rs'"
    "length (c_md_stream_id common) = kMaximumIdentityBytes \<Longrightarrow> length sid = kMaximumIdentityBytes"
proof -
  let ?m = "maximum_text_bytes limits"
  from R obtain st rs1 sec rs2 src where r: "read_optional_text body so fixed ?m rs = Inr (st, rs1)"
    "ReadText body co fixed ?m True rs1 = Inr (sec, rs2)"
    "read_optional_text body xo fixed ?m rs2 = Inr (src, rs')"
    by (auto simp: ReadIdentity_def Let_def)
  let ?src = "case src of None \<Rightarrow> [] | Some bytes \<Rightarrow> bytes"
  let ?i = "(c_identity common)\<lparr>id_market := market,
        security_id := copy_to sec (security_id (c_identity common)), security_id_size := of_nat (length sec),
        security_id_source := copy_to ?src (security_id_source (c_identity common)),
        security_id_source_size := of_nat (length ?src)\<rparr>"
  let ?sid = "case st of None \<Rightarrow> c_md_stream_id common | Some b \<Rightarrow> copy_to b (c_md_stream_id common)"
  let ?sz = "case st of None \<Rightarrow> c_md_stream_id_size common | Some b \<Rightarrow> of_nat (length b)"
  have c': "common' = common\<lparr>c_identity := ?i, c_md_stream_id := ?sid, c_md_stream_id_size := ?sz\<rparr>"
    using R r by (cases st) (auto simp: ReadIdentity_def Let_def CopyText_def)
  have o1: "ranges_ok fixed (length body) rs1" by (rule read_optional_text_Inr(1) [OF r(1) ok])
  have o2: "ranges_ok fixed (length body) rs2" by (rule ReadText_ranges [OF o1 r(2)])
  have o3: "ranges_ok fixed (length body) rs'" by (rule read_optional_text_Inr(1) [OF r(3) o2])
  have src: "length ?src \<le> kMaximumIdentityBytes" "IsPrintableAscii ?src"
    using read_optional_text_Inr(2) [OF r(3) o2] lim
    by (auto simp: IsPrintableAscii_def split: option.splits)
  have sec: "length sec \<le> kMaximumIdentityBytes" "IsPrintableAscii sec" "sec \<noteq> []"
    using ReadText_Inr(1-3) [OF r(2)] lim by auto
  have "identity_wf ?i"
    using src sec arr by (simp add: identity_wf_def size_byte take_copy_to)
  moreover have "length (c_md_stream_id common) = kMaximumIdentityBytes \<Longrightarrow> length ?sid = kMaximumIdentityBytes"
    using read_optional_text_Inr(2) [OF r(1) ok] lim by (auto split: option.splits)
  moreover have "id_market ?i = market" by simp
  ultimately show thesis using that [OF c'] o3 by blast
qed

lemma ApplyCatalog_eq:
  assumes "ApplyCatalog cat common = (matched, common')"
  shows "matched \<longleftrightarrow> Find cat (id_market (c_identity common))
      (take (unat (security_id_source_size (c_identity common))) (security_id_source (c_identity common)))
      (take (unat (security_id_size (c_identity common))) (security_id (c_identity common))) \<noteq> None"
    and "\<exists>q a b. common' = common\<lparr>c_quality_flags := q, c_instrument_id := a, c_instrument_ordinal := b\<rparr>"
proof -
  let ?F = "Find cat (id_market (c_identity common))
      (take (unat (security_id_source_size (c_identity common))) (security_id_source (c_identity common)))
      (take (unat (security_id_size (c_identity common))) (security_id (c_identity common)))"
  have "matched \<longleftrightarrow> ?F \<noteq> None" "common' = common\<lparr>c_quality_flags := c_quality_flags common',
      c_instrument_id := c_instrument_id common', c_instrument_ordinal := c_instrument_ordinal common'\<rparr>"
    using assms by (auto simp: ApplyCatalog_def Let_def split: option.splits)
  then show "matched \<longleftrightarrow> ?F \<noteq> None"
    "\<exists>q a b. common' = common\<lparr>c_quality_flags := q, c_instrument_id := a, c_instrument_ordinal := b\<rparr>"
    by blast+
qed

section \<open>Counting protected ranges\<close>

text \<open>A step that adds at most \<open>k\<close> ranges and keeps them disjoint and inside the body.\<close>

definition ranges_step :: "nat \<Rightarrow> nat \<Rightarrow> nat \<Rightarrow> RangeState \<Rightarrow> RangeState \<Rightarrow> bool" where
  "ranges_step fixed n k rs rs' \<longleftrightarrow> (ranges_ok fixed n rs \<longrightarrow> ranges_ok fixed n rs') \<and>
     length (rs_ranges rs') \<le> length (rs_ranges rs) + k"

lemma ranges_step_refl [simp]: "ranges_step fixed n k rs rs"
  by (simp add: ranges_step_def)

lemma ranges_step_trans:
  "ranges_step fixed n j a b \<Longrightarrow> ranges_step fixed n k b c \<Longrightarrow> j + k \<le> m \<Longrightarrow> ranges_step fixed n m a c"
  by (auto simp: ranges_step_def)

lemma ProtectDynamicRange_length:
  assumes "ProtectDynamicRange b k rs = Inr rs'"
  shows "length (rs_ranges rs') \<le> Suc (length (rs_ranges rs))"
  using assms by (auto simp: ProtectDynamicRange_def Let_def split: if_splits)

lemma ReadText_step:
  assumes "ReadText body off fixed m ne rs = Inr (t, rs')"
  shows "ranges_step fixed (length body) 1 rs rs'"
proof (cases "t = []")
  case True
  then show ?thesis using ReadText_Inr(4) [OF assms] by simp
next
  case False
  from ReadText_Inr(5) [OF assms this] obtain start where "ProtectDynamicRange start (length t) rs = Inr rs'"
    by blast
  then show ?thesis using ReadText_ranges [OF _ assms]
    by (simp add: ranges_step_def ProtectDynamicRange_length)
qed

lemma ReadList_step:
  assumes "ReadList body off item fixed m rs = Inr (lv, rs')"
  shows "ranges_step fixed (length body) 1 rs rs'"
proof (cases "lv_count lv = 0")
  case True
  then show ?thesis using ReadList_Inr(4) [OF assms] by simp
next
  case False
  from ReadList_Inr(3) [OF assms this] show ?thesis using ReadList_ranges [OF _ assms]
    by (auto simp: ranges_step_def dest: ProtectDynamicRange_length)
qed

lemma read_optional_text_step:
  assumes "read_optional_text body off fixed m rs = Inr (t, rs')"
  shows "ranges_step fixed (length body) 1 rs rs'"
  using assms ReadText_step by (fastforce simp: read_optional_text_def split: if_splits)

lemma ReadIdentity_step:
  assumes "ReadIdentity body market fixed so co xo limits common rs = Inr (common', rs')"
  shows "ranges_step fixed (length body) 3 rs rs'"
proof -
  let ?m = "maximum_text_bytes limits"
  from assms obtain st rs1 sec rs2 src where r: "read_optional_text body so fixed ?m rs = Inr (st, rs1)"
    "ReadText body co fixed ?m True rs1 = Inr (sec, rs2)"
    "read_optional_text body xo fixed ?m rs2 = Inr (src, rs')"
    by (auto simp: ReadIdentity_def Let_def)
  have "ranges_step fixed (length body) 2 rs rs2"
    by (rule ranges_step_trans [OF read_optional_text_step [OF r(1)] ReadText_step [OF r(2)]]) simp
  then show ?thesis by (rule ranges_step_trans [OF _ read_optional_text_step [OF r(3)]]) simp
qed

lemma ReadList_count:
  assumes "ReadList body off item fixed m rs = Inr (lv, rs')"
  shows "lv_count lv < 2 ^ 32"
proof -
  from assms obtain c :: u32 where "lv_count lv = unat c"
    by (auto simp: ReadList_def Let_def return_iff split: if_splits)
  then show ?thesis using unsigned_less [of c] by simp
qed

end
