(* ===== verification/Decoder_Tick_Facts.thy ===== *)
theory Decoder_Tick_Facts
  imports Decoder_Ticks Decoder_Facts Recovery_Channel
begin

text \<open>
  What a decoded tick promises: every validity flag that is set is justified by the field it
  speaks about, normalised decimals are exact, the identity fits its arrays, and the native
  position (market, channel, sequence) is the one read from the wire.
\<close>

section \<open>Validity flags\<close>

definition has :: "u64 \<Rightarrow> CanonicalTick \<Rightarrow> bool" where
  "has f t \<longleftrightarrow> t_validity t AND f \<noteq> 0"

text \<open>What a validity flag claims.\<close>

definition flags_justified :: "CanonicalTick \<Rightarrow> bool" where
  "flags_justified t \<longleftrightarrow>
     (has kTickPriceValid t \<longrightarrow> fd_p6_valid (t_price t) \<and> 0 < fd_raw (t_price t)) \<and>
     (has kTickQuantityValid t \<longrightarrow> si_valid (t_quantity t)) \<and>
     (has kTickAmountValid t \<longrightarrow> fd_p6_valid (t_amount t) \<and> 0 \<le> fd_raw (t_amount t)) \<and>
     (has kTickPrimaryOrderIdValid t \<longrightarrow> 0 < t_primary_order_id t) \<and>
     (has kTickBuyOrderIdValid t \<longrightarrow> 0 < t_buy_order_id t) \<and>
     (has kTickSellOrderIdValid t \<longrightarrow> 0 < t_sell_order_id t) \<and>
     (has kTickSideValid t \<longrightarrow> t_side t \<noteq> Side_kUnknown) \<and>
     (has kTickAggressorValid t \<longrightarrow> t_aggressor t \<noteq> Aggressor_kUnknown) \<and>
     (has kTickOrderTypeValid t \<longrightarrow> t_order_type t \<noteq> OrderType_kUnknown) \<and>
     (has kTickExchangeTimeValid t \<longrightarrow> c_exchange_time_valid (t_common t)) \<and>
     (has kTickPhaseValid t \<longrightarrow> t_phase t \<noteq> TradingPhase_kUnknown) \<and>
     (has kTickMatchedQuantityValid t \<longrightarrow> fd_raw_valid (t_amount t) \<and>
        0 \<le> t_sh_add_matched_quantity_raw t \<and>
        fd_raw (t_amount t) = 1000 * t_sh_add_matched_quantity_raw t)"

definition tick_wf :: "CanonicalTick \<Rightarrow> bool" where
  "tick_wf t \<longleftrightarrow> decimal_wf (t_price t) \<and> decimal_wf (t_amount t) \<and> scaled_wf (t_quantity t) \<and>
     flags_justified t \<and> has kTickChannelHistoryValid t"

text \<open>The part of the common block that the field decoders leave alone.\<close>

definition core :: "CanonicalTick \<Rightarrow> CanonicalCommon" where
  "core t = (t_common t)\<lparr>c_quality_flags := 0, c_exchange_time_raw := 0, c_exchange_time_ns := 0,
     c_exchange_time_valid := False, c_instrument_id := 0, c_instrument_ordinal := 0\<rparr>"

text \<open>A tick before its body is decoded.\<close>

definition fresh :: "CanonicalTick \<Rightarrow> bool" where
  "fresh t \<longleftrightarrow> \<not> fd_p6_valid (t_price t) \<and> \<not> fd_p6_valid (t_amount t) \<and> scaled_wf (t_quantity t) \<and>
     t_aggressor t = Aggressor_kUnknown \<and>
     (t_validity t = kTickChannelHistoryValid \<or>
      t_validity t = kTickChannelHistoryValid OR kTickExchangeTimeValid \<and> c_exchange_time_valid (t_common t))"

lemma or_and_nonzero:
  fixes a b c :: u64
  shows "(a OR b) AND c \<noteq> 0 \<longleftrightarrow> a AND c \<noteq> 0 \<or> b AND c \<noteq> 0"
proof -
  have "(a OR b) AND c = (a AND c) OR (b AND c)" by (rule bit.conj_disj_distrib2)
  then show ?thesis by (simp only: or_eq_0_iff de_Morgan_conj)
qed

lemma has_simps [simp]:
  "has f (tick_quality q t) \<longleftrightarrow> has f t"
  "has f (tick_valid g t) \<longleftrightarrow> has f t \<or> g AND f \<noteq> 0"
  by (simp add: has_def tick_quality_def) (simp add: has_def tick_valid_def or_and_nonzero)

lemma core_tick_when [simp]: "core (tick_when P f t) = (if P then core (f t) else core t)"
  by (simp add: tick_when_def)

lemma core_tick_flags [simp]: "core (tick_quality q t) = core t" "core (tick_valid g t) = core t"
  unfolding core_def tick_quality_def tick_valid_def by (rule CanonicalCommon.equality; simp)+

lemma core_updates [simp]:
  "core (t\<lparr>t_price := d\<rparr>) = core t" "core (t\<lparr>t_amount := d\<rparr>) = core t"
  "core (t\<lparr>t_quantity := q'\<rparr>) = core t" "core (t\<lparr>t_action := a\<rparr>) = core t"
  "core (t\<lparr>t_side := s\<rparr>) = core t" "core (t\<lparr>t_aggressor := ag\<rparr>) = core t"
  "core (t\<lparr>t_order_type := ot\<rparr>) = core t" "core (t\<lparr>t_phase := ph\<rparr>) = core t"
  "core (t\<lparr>t_primary_order_id := i\<rparr>) = core t" "core (t\<lparr>t_raw_type := i\<rparr>) = core t"
  "core (t\<lparr>t_raw_side := i\<rparr>) = core t" "core (t\<lparr>t_sh_add_matched_quantity_raw := i\<rparr>) = core t"
  by (simp_all add: core_def)

lemma normalize_price_Inr:
  assumes "normalize_price t = Inr t'" and "\<not> fd_p6_valid (t_price t)"
  shows "\<exists>d q. t' = t\<lparr>t_price := d, t_common := (t_common t)\<lparr>c_quality_flags := q\<rparr>\<rparr> \<and>
    decimal_wf d \<and> (fd_p6_valid d \<longrightarrow> 0 < fd_raw d)"
proof (cases "fd_raw_valid (t_price t) \<and> 0 < fd_raw (t_price t)")
  case True
  then obtain d where d: "NormalizeP6 (t_price t) = Inr d" and t': "t' = t\<lparr>t_price := d\<rparr>"
    using assms(1) unfolding normalize_price_def by (cases "NormalizeP6 (t_price t)") simp_all
  have "t' = t\<lparr>t_price := d, t_common := (t_common t)\<lparr>c_quality_flags := c_quality_flags (t_common t)\<rparr>\<rparr>"
    by (simp add: t')
  moreover have "decimal_wf (t_price t)" using assms(2) by (simp add: decimal_wf_def)
  ultimately show ?thesis using NormalizeP6_Inr(1,2) [OF d] True by metis
next
  case False
  then have "t' = t\<lparr>t_price := t_price t, t_common := (t_common t)\<lparr>c_quality_flags :=
      (if fd_raw_valid (t_price t) then c_quality_flags (t_common t) OR kQualityInvalidPrice
       else c_quality_flags (t_common t))\<rparr>\<rparr>"
    using assms(1) unfolding normalize_price_def tick_quality_def by (auto split: if_splits)
  then show ?thesis using assms(2) unfolding decimal_wf_def by blast
qed

text \<open>The same claim flag by flag, so that setting one flag needs one justification.\<close>

definition tick_flags :: "u64 list" where
  "tick_flags = [kTickPriceValid, kTickQuantityValid, kTickAmountValid, kTickPrimaryOrderIdValid,
     kTickBuyOrderIdValid, kTickSellOrderIdValid, kTickSideValid, kTickAggressorValid,
     kTickOrderTypeValid, kTickExchangeTimeValid, kTickPhaseValid, kTickMatchedQuantityValid]"

definition justified :: "CanonicalTick \<Rightarrow> u64 \<Rightarrow> bool" where
  "justified t f \<longleftrightarrow>
     (f = kTickPriceValid \<longrightarrow> fd_p6_valid (t_price t) \<and> 0 < fd_raw (t_price t)) \<and>
     (f = kTickQuantityValid \<longrightarrow> si_valid (t_quantity t)) \<and>
     (f = kTickAmountValid \<longrightarrow> fd_p6_valid (t_amount t) \<and> 0 \<le> fd_raw (t_amount t)) \<and>
     (f = kTickPrimaryOrderIdValid \<longrightarrow> 0 < t_primary_order_id t) \<and>
     (f = kTickBuyOrderIdValid \<longrightarrow> 0 < t_buy_order_id t) \<and>
     (f = kTickSellOrderIdValid \<longrightarrow> 0 < t_sell_order_id t) \<and>
     (f = kTickSideValid \<longrightarrow> t_side t \<noteq> Side_kUnknown) \<and>
     (f = kTickAggressorValid \<longrightarrow> t_aggressor t \<noteq> Aggressor_kUnknown) \<and>
     (f = kTickOrderTypeValid \<longrightarrow> t_order_type t \<noteq> OrderType_kUnknown) \<and>
     (f = kTickExchangeTimeValid \<longrightarrow> c_exchange_time_valid (t_common t)) \<and>
     (f = kTickPhaseValid \<longrightarrow> t_phase t \<noteq> TradingPhase_kUnknown) \<and>
     (f = kTickMatchedQuantityValid \<longrightarrow> fd_raw_valid (t_amount t) \<and>
        0 \<le> t_sh_add_matched_quantity_raw t \<and>
        fd_raw (t_amount t) = 1000 * t_sh_add_matched_quantity_raw t)"

lemma flag_values:
  "kTickPriceValid = 1" "kTickQuantityValid = 2" "kTickAmountValid = 4" "kTickPrimaryOrderIdValid = 8"
  "kTickBuyOrderIdValid = 16" "kTickSellOrderIdValid = 32" "kTickSideValid = 64"
  "kTickAggressorValid = 128" "kTickOrderTypeValid = 256" "kTickExchangeTimeValid = 512"
  "kTickPhaseValid = 1024" "kTickMatchedQuantityValid = 2048" "kTickChannelHistoryValid = 4096"
  by (simp_all add: validity_defs)

lemma flags_distinct:
  "\<forall>f \<in> set tick_flags. \<forall>g \<in> set tick_flags. (g AND f \<noteq> 0) = (f = g)"
  "\<forall>f \<in> set tick_flags. kTickChannelHistoryValid AND f = 0"
  by (simp_all add: tick_flags_def flag_values)

lemma flags_justified_iff: "flags_justified t \<longleftrightarrow> (\<forall>f \<in> set tick_flags. has f t \<longrightarrow> justified t f)"
  unfolding flags_justified_def tick_flags_def justified_def by (simp add: flag_values)


lemma tick_when_simps [simp]:
  "t_price (tick_when P (tick_valid g) t) = t_price t" "t_amount (tick_when P (tick_valid g) t) = t_amount t"
  "t_quantity (tick_when P (tick_valid g) t) = t_quantity t"
  "t_common (tick_when P (tick_valid g) t) = t_common t"
  "t_buy_order_id (tick_when P (tick_valid g) t) = t_buy_order_id t"
  "t_sell_order_id (tick_when P (tick_valid g) t) = t_sell_order_id t"
  "t_aggressor (tick_when P (tick_valid g) t) = t_aggressor t"
  "has f (tick_when P (tick_valid g) t) \<longleftrightarrow> has f t \<or> P \<and> g AND f \<noteq> 0"
  by (simp_all add: tick_when_def) (simp_all add: tick_valid_def)

lemma tick_flag_simps [simp]:
  "t_price (tick_valid g t) = t_price t" "t_amount (tick_valid g t) = t_amount t"
  "t_quantity (tick_valid g t) = t_quantity t" "t_common (tick_valid g t) = t_common t"
  "t_primary_order_id (tick_valid g t) = t_primary_order_id t" "t_side (tick_valid g t) = t_side t"
  "t_price (tick_quality q t) = t_price t" "t_amount (tick_quality q t) = t_amount t"
  "t_quantity (tick_quality q t) = t_quantity t"
  "t_aggressor (tick_quality q t) = t_aggressor t"
  "t_validity (tick_quality q t) = t_validity t"
  by (simp_all add: tick_valid_def tick_quality_def)

lemma justified_same_fields [simp]:
  "justified (tick_valid g t) f = justified t f" "justified (tick_quality q t) f = justified t f"
  by (simp_all add: justified_def tick_valid_def tick_quality_def)

lemma justified_at [simp]:
  "justified t kTickPriceValid \<longleftrightarrow> fd_p6_valid (t_price t) \<and> 0 < fd_raw (t_price t)"
  "justified t kTickQuantityValid \<longleftrightarrow> si_valid (t_quantity t)"
  "justified t kTickAmountValid \<longleftrightarrow> fd_p6_valid (t_amount t) \<and> 0 \<le> fd_raw (t_amount t)"
  "justified t kTickPrimaryOrderIdValid \<longleftrightarrow> 0 < t_primary_order_id t"
  "justified t kTickBuyOrderIdValid \<longleftrightarrow> 0 < t_buy_order_id t"
  "justified t kTickSellOrderIdValid \<longleftrightarrow> 0 < t_sell_order_id t"
  "justified t kTickSideValid \<longleftrightarrow> t_side t \<noteq> Side_kUnknown"
  "justified t kTickAggressorValid \<longleftrightarrow> t_aggressor t \<noteq> Aggressor_kUnknown"
  "justified t kTickOrderTypeValid \<longleftrightarrow> t_order_type t \<noteq> OrderType_kUnknown"
  "justified t kTickExchangeTimeValid \<longleftrightarrow> c_exchange_time_valid (t_common t)"
  "justified t kTickPhaseValid \<longleftrightarrow> t_phase t \<noteq> TradingPhase_kUnknown"
  "justified t kTickMatchedQuantityValid \<longleftrightarrow> fd_raw_valid (t_amount t) \<and>
     0 \<le> t_sh_add_matched_quantity_raw t \<and> fd_raw (t_amount t) = 1000 * t_sh_add_matched_quantity_raw t"
  by (simp_all add: justified_def flag_values)

lemma in_tick_flags [simp]:
  "kTickPriceValid \<in> set tick_flags" "kTickQuantityValid \<in> set tick_flags"
  "kTickAmountValid \<in> set tick_flags" "kTickPrimaryOrderIdValid \<in> set tick_flags"
  "kTickBuyOrderIdValid \<in> set tick_flags" "kTickSellOrderIdValid \<in> set tick_flags"
  "kTickSideValid \<in> set tick_flags" "kTickAggressorValid \<in> set tick_flags"
  "kTickOrderTypeValid \<in> set tick_flags" "kTickExchangeTimeValid \<in> set tick_flags"
  "kTickPhaseValid \<in> set tick_flags" "kTickMatchedQuantityValid \<in> set tick_flags"
  by (simp_all add: tick_flags_def)

lemma flags_quality [simp]: "flags_justified (tick_quality q t) \<longleftrightarrow> flags_justified t"
  by (simp add: flags_justified_iff)

lemma flags_valid:
  assumes "flags_justified t" and "g \<in> set tick_flags" and "P \<Longrightarrow> justified t g"
  shows "flags_justified (tick_when P (tick_valid g) t)"
  using assms flags_distinct(1) unfolding flags_justified_iff tick_when_def by (auto simp del: tick_when_simps)

lemma flags_field:
  assumes "flags_justified t" and "t_validity t' = t_validity t"
    and "\<And>f. f \<in> set tick_flags \<Longrightarrow> has f t \<Longrightarrow> justified t f \<Longrightarrow> justified t' f"
  shows "flags_justified t'"
  using assms unfolding flags_justified_iff has_def by simp

lemma fresh_flags:
  assumes "fresh t"
  shows "flags_justified t" "has kTickChannelHistoryValid t"
    "f \<in> set tick_flags \<Longrightarrow> f \<noteq> kTickExchangeTimeValid \<Longrightarrow> \<not> has f t"
  using assms unfolding flags_justified_def tick_flags_def fresh_def has_def
  by (auto simp: flag_values)

lemma no_flag:
  assumes "fresh t"
  shows "\<not> has kTickPriceValid t" "\<not> has kTickQuantityValid t" "\<not> has kTickAmountValid t"
    "\<not> has kTickPrimaryOrderIdValid t" "\<not> has kTickBuyOrderIdValid t" "\<not> has kTickSellOrderIdValid t"
    "\<not> has kTickSideValid t" "\<not> has kTickAggressorValid t" "\<not> has kTickOrderTypeValid t"
    "\<not> has kTickPhaseValid t" "\<not> has kTickMatchedQuantityValid t"
  using fresh_flags(3) [OF assms] by (auto simp: tick_flags_def flag_values)

text \<open>The Shanghai bodies.\<close>

lemma set_order_side_wf:
  assumes "flags_justified t" and "\<not> has kTickSideValid t" and "\<not> has kTickPrimaryOrderIdValid t"
  shows "flags_justified (set_order_side flag t)" "core (set_order_side flag t) = core t"
    "t_price (set_order_side flag t) = t_price t" "t_amount (set_order_side flag t) = t_amount t"
    "t_quantity (set_order_side flag t) = t_quantity t"
    "has kTickChannelHistoryValid t \<Longrightarrow> has kTickChannelHistoryValid (set_order_side flag t)"
    "has kTickMatchedQuantityValid (set_order_side flag t) \<longleftrightarrow> has kTickMatchedQuantityValid t"
    "has kTickAmountValid (set_order_side flag t) \<longleftrightarrow> has kTickAmountValid t"
proof -
  have side: "flags_justified (tick_when (t_primary_order_id t1 > 0) (tick_valid kTickPrimaryOrderIdValid)
      (tick_valid kTickSideValid t1))"
    if "t1 = t\<lparr>t_side := s, t_primary_order_id := i\<rparr>" "s \<noteq> Side_kUnknown" for t1 s i
  proof -
    have "flags_justified t1"
      by (rule flags_field [OF assms(1)]) (use assms(2,3) that(1) in \<open>auto simp: justified_def\<close>)
    then have "flags_justified (tick_when True (tick_valid kTickSideValid) t1)"
      by (rule flags_valid) (use that in simp_all)
    then have "flags_justified (tick_valid kTickSideValid t1)" by (simp add: tick_when_def)
    then show ?thesis by (rule flags_valid) simp_all
  qed
  show "flags_justified (set_order_side flag t)"
    using side assms(1) by (simp add: set_order_side_def Let_def)
  show "core (set_order_side flag t) = core t"
    by (simp add: set_order_side_def Let_def)
  show "t_price (set_order_side flag t) = t_price t" "t_amount (set_order_side flag t) = t_amount t"
    "t_quantity (set_order_side flag t) = t_quantity t"
    "has kTickChannelHistoryValid t \<Longrightarrow> has kTickChannelHistoryValid (set_order_side flag t)"
    "has kTickMatchedQuantityValid (set_order_side flag t) \<longleftrightarrow> has kTickMatchedQuantityValid t"
    "has kTickAmountValid (set_order_side flag t) \<longleftrightarrow> has kTickAmountValid t"
    by (auto simp: set_order_side_def Let_def flag_values) (simp_all add: has_def)
qed


lemma normalize_step:
  assumes N: "normalize_price t = Inr t'" and "\<not> fd_p6_valid (t_price t)"
    and "flags_justified t" and "\<not> has kTickPriceValid t"
  shows "flags_justified t'" "core t' = core t" "decimal_wf (t_price t')"
    "fd_p6_valid (t_price t') \<Longrightarrow> 0 < fd_raw (t_price t')"
    "t_amount t' = t_amount t" "t_quantity t' = t_quantity t" "t_validity t' = t_validity t"
    "t_aggressor t' = t_aggressor t" "t_buy_order_id t' = t_buy_order_id t"
    "t_sell_order_id t' = t_sell_order_id t"
proof -
  from normalize_price_Inr [OF N assms(2)] obtain d q where
    t': "t' = t\<lparr>t_price := d, t_common := (t_common t)\<lparr>c_quality_flags := q\<rparr>\<rparr>"
    and d: "decimal_wf d" "fd_p6_valid d \<longrightarrow> 0 < fd_raw d" by (elim exE conjE)
  show "flags_justified t'"
    by (rule flags_field [OF assms(3)]) (use assms(4) in \<open>auto simp: t' justified_def\<close>)
  show "core t' = core t" unfolding t' core_def by (rule CanonicalCommon.equality) simp_all
  show "decimal_wf (t_price t')" "fd_p6_valid (t_price t') \<Longrightarrow> 0 < fd_raw (t_price t')"
    "t_amount t' = t_amount t" "t_quantity t' = t_quantity t" "t_validity t' = t_validity t"
    "t_aggressor t' = t_aggressor t" "t_buy_order_id t' = t_buy_order_id t"
    "t_sell_order_id t' = t_sell_order_id t"
    using d by (simp_all add: t')
qed

lemma has_same: "t_validity t' = t_validity t \<Longrightarrow> has f t' = has f t"
  by (simp add: has_def)

lemma has_updates [simp]:
  "has f (t\<lparr>t_action := a\<rparr>) = has f t" "has f (t\<lparr>t_amount := d\<rparr>) = has f t"
  "has f (t\<lparr>t_sh_add_matched_quantity_raw := i\<rparr>) = has f t" "has f (t\<lparr>t_quantity := q\<rparr>) = has f t"
  "has f (t\<lparr>t_phase := ph\<rparr>) = has f t" "has f (t\<lparr>t_aggressor := ag\<rparr>) = has f t"
  "has f (t\<lparr>t_side := sd\<rparr>) = has f t" "has f (t\<lparr>t_primary_order_id := i\<rparr>) = has f t"
  "has f (t\<lparr>t_order_type := ot\<rparr>) = has f t" "has f (t\<lparr>t_common := c\<rparr>) = has f t"
  by (simp_all add: has_def)

lemma decimal_wf_unset: "\<not> fd_p6_valid d \<Longrightarrow> decimal_wf d"
  by (simp add: decimal_wf_def)

lemma fresh_action:
  assumes "fresh t"
  shows "fresh (t\<lparr>t_action := a\<rparr>)"
  using assms by (simp add: fresh_def)

lemma sh_add_wf:
  assumes "sh_add flag t = Inr t'" and "fresh t"
  shows "tick_wf t' \<and> core t' = core t"
proof -
  let ?t = "t\<lparr>t_action := TickAction_kAdd\<rparr>"
  from assms(1) obtain t1 where N: "normalize_price ?t = Inr t1"
    unfolding sh_add_def by (rule rbind_InrE)
  have F: "fresh ?t" by (rule fresh_action [OF assms(2)])
  note nf = no_flag [OF F]
  have np: "\<not> fd_p6_valid (t_price ?t)" "\<not> fd_p6_valid (t_amount ?t)" "scaled_wf (t_quantity ?t)"
    using F by (simp_all add: fresh_def)
  note n = normalize_step [OF N np(1) fresh_flags(1) [OF F] nf(1)]
  define t2 where "t2 = tick_when (fd_p6_valid (t_price t1)) (tick_valid kTickPriceValid) t1"
  define t3 where "t3 = tick_when (si_valid (t_quantity t2)) (tick_valid kTickQuantityValid) t2"
  define t4 where "t4 = set_order_side flag t3"
  define t5 where "t5 = sh_matched_quantity t4"
  have t': "t' = t5\<lparr>t_amount := (t_amount t5)\<lparr>fd_p6_valid := False\<rparr>\<rparr>"
    using assms(1) N by (simp add: sh_add_def Let_def t2_def t3_def t4_def t5_def)
  have v1: "has f t1 = has f ?t" for f by (rule has_same [OF n(7)])
  have "flags_justified t2" unfolding t2_def by (rule flags_valid [OF n(1)]) (use n(4) in simp_all)
  then have j3: "flags_justified t3" unfolding t3_def by (rule flags_valid) simp_all
  have h3: "has f t3 \<longleftrightarrow> has f ?t \<or> fd_p6_valid (t_price t1) \<and> kTickPriceValid AND f \<noteq> 0
      \<or> si_valid (t_quantity t1) \<and> kTickQuantityValid AND f \<noteq> 0" for f
    unfolding t3_def t2_def by (simp add: v1)
  have "\<not> has kTickSideValid t3" "\<not> has kTickPrimaryOrderIdValid t3" "has kTickChannelHistoryValid t3"
    "\<not> has kTickMatchedQuantityValid t3" "\<not> has kTickAmountValid t3"
    using nf fresh_flags(2) [OF F] unfolding h3 by (simp_all add: flag_values)
  note s = set_order_side_wf [OF j3 this(1,2), of flag, folded t4_def]
  have 4: "flags_justified t4" "core t4 = core t" "\<not> has kTickMatchedQuantityValid t4"
    "\<not> has kTickAmountValid t4" "has kTickChannelHistoryValid t4" "\<not> fd_p6_valid (t_amount t4)"
    "t_price t4 = t_price t1" "t_quantity t4 = t_quantity t"
    using s \<open>has kTickChannelHistoryValid t3\<close> \<open>\<not> has kTickMatchedQuantityValid t3\<close>
      \<open>\<not> has kTickAmountValid t3\<close> n(2,5,6) np
    by (simp_all add: t3_def t2_def)
  have 5: "flags_justified t5" "core t5 = core t4" "t_price t5 = t_price t4" "t_quantity t5 = t_quantity t4"
    "has kTickChannelHistoryValid t5" "\<not> has kTickAmountValid t5"
  proof -
    let ?m = "t4\<lparr>t_sh_add_matched_quantity_raw := fd_raw (t_amount t4) div 1000\<rparr>"
    have "flags_justified ?m"
      by (rule flags_field [OF 4(1)]) (use 4(3) in \<open>auto simp: justified_def\<close>)
    then have "flags_justified (tick_when (fd_raw_valid (t_amount t4) \<and> 0 \<le> fd_raw (t_amount t4) \<and>
        fd_raw (t_amount t4) mod 1000 = 0) (tick_valid kTickMatchedQuantityValid) ?m)"
      by (rule flags_valid) auto
    then show "flags_justified t5" "core t5 = core t4" "t_price t5 = t_price t4" "t_quantity t5 = t_quantity t4"
      "has kTickChannelHistoryValid t5" "\<not> has kTickAmountValid t5"
      using 4 unfolding t5_def sh_matched_quantity_def Let_def
      by (auto simp: tick_when_def flag_values simp del: tick_when_simps split: if_splits)
  qed
  have "flags_justified t'"
    unfolding t' by (rule flags_field [OF 5(1)]) (use 5(6) in \<open>auto simp: justified_def\<close>)
  then show ?thesis
    using 5 4 n(3) np(3) by (simp add: tick_wf_def t' decimal_wf_unset)
qed


lemma fresh_fields:
  assumes "fresh t"
  shows "\<not> fd_p6_valid (t_price t)" "\<not> fd_p6_valid (t_amount t)" "scaled_wf (t_quantity t)"
    "t_aggressor t = Aggressor_kUnknown"
  using assms by (simp_all add: fresh_def)

lemma sh_cancel_wf:
  assumes "sh_cancel flag t = Inr t'" and "fresh t"
  shows "tick_wf t' \<and> core t' = core t"
proof -
  let ?t = "t\<lparr>t_action := TickAction_kCancel\<rparr>"
  define t2 where "t2 = tick_when (si_valid (t_quantity ?t)) (tick_valid kTickQuantityValid) ?t"
  have F: "fresh ?t" by (rule fresh_action [OF assms(2)])
  note nf = no_flag [OF F] and np = fresh_fields [OF F]
  have t': "t' = set_order_side flag t2" using assms(1) by (simp add: sh_cancel_def Let_def t2_def)
  have "flags_justified t2" unfolding t2_def by (rule flags_valid [OF fresh_flags(1) [OF F]]) simp_all
  moreover have "\<not> has kTickSideValid t2" "\<not> has kTickPrimaryOrderIdValid t2" "has kTickChannelHistoryValid t2"
    unfolding t2_def using nf fresh_flags(2) [OF F] by (simp_all add: flag_values)
  ultimately show ?thesis
    using set_order_side_wf [of t2 flag] np
    by (simp add: t' tick_wf_def decimal_wf_unset t2_def del: has_updates)
qed

lemma sh_trade_amount_step:
  assumes A: "sh_trade_amount t = Inr t'" and "\<not> fd_p6_valid (t_amount t)"
    and "flags_justified t" and "\<not> has kTickAmountValid t" and "\<not> has kTickMatchedQuantityValid t"
  shows "flags_justified t'" "core t' = core t" "decimal_wf (t_amount t')"
    "fd_p6_valid (t_amount t') \<Longrightarrow> 0 \<le> fd_raw (t_amount t')"
    "t_price t' = t_price t" "t_quantity t' = t_quantity t" "t_validity t' = t_validity t"
    "t_aggressor t' = t_aggressor t"
proof -
  have "\<exists>d. (t' = t\<lparr>t_amount := d\<rparr> \<or> t' = tick_quality kQualityInvalidAmount (t\<lparr>t_amount := d\<rparr>)) \<and>
      decimal_wf d \<and> (fd_p6_valid d \<longrightarrow> 0 \<le> fd_raw d)"
  proof (cases "fd_raw_valid (t_amount t) \<and> 0 \<le> fd_raw (t_amount t)")
    case True
    then obtain d where d: "NormalizeP6 (t_amount t) = Inr d" and t': "t' = t\<lparr>t_amount := d\<rparr>"
      using A unfolding sh_trade_amount_def by (cases "NormalizeP6 (t_amount t)") simp_all
    show ?thesis
      using NormalizeP6_Inr(1,2) [OF d decimal_wf_unset [OF assms(2)]] True t' by (intro exI [of _ d]) simp
  next
    case False
    then have "t' = t \<or> t' = tick_quality kQualityInvalidAmount t"
      using A unfolding sh_trade_amount_def by (auto split: if_splits)
    then show ?thesis
      using assms(2) decimal_wf_unset [OF assms(2)] by (intro exI [of _ "t_amount t"]) simp
  qed
  then obtain d where t': "t' = t\<lparr>t_amount := d\<rparr> \<or> t' = tick_quality kQualityInvalidAmount (t\<lparr>t_amount := d\<rparr>)"
    and d: "decimal_wf d" "fd_p6_valid d \<longrightarrow> 0 \<le> fd_raw d" by blast
  have "flags_justified (t\<lparr>t_amount := d\<rparr>)"
    by (rule flags_field [OF assms(3)]) (use assms(4,5) in \<open>auto simp: justified_def\<close>)
  then show "flags_justified t'" using t' by auto
  show "core t' = core t" "decimal_wf (t_amount t')"
    "fd_p6_valid (t_amount t') \<Longrightarrow> 0 \<le> fd_raw (t_amount t')"
    "t_price t' = t_price t" "t_quantity t' = t_quantity t" "t_validity t' = t_validity t"
    "t_aggressor t' = t_aggressor t"
    using t' d by auto
qed

lemma sh_aggressor_wf:
  assumes "flags_justified t" and "\<not> has kTickAggressorValid t"
  shows "flags_justified (sh_aggressor flag t)" "core (sh_aggressor flag t) = core t"
    "t_price (sh_aggressor flag t) = t_price t" "t_amount (sh_aggressor flag t) = t_amount t"
    "t_quantity (sh_aggressor flag t) = t_quantity t"
    "has kTickChannelHistoryValid t \<Longrightarrow> has kTickChannelHistoryValid (sh_aggressor flag t)"
proof -
  have "flags_justified (t\<lparr>t_aggressor := a\<rparr>)" for a
    by (rule flags_field [OF assms(1)]) (use assms(2) in \<open>auto simp: justified_def\<close>)
  then show "flags_justified (sh_aggressor flag t)"
    unfolding sh_aggressor_def Let_def using assms(1) by (intro flags_valid) auto
  show "core (sh_aggressor flag t) = core t"
    "t_price (sh_aggressor flag t) = t_price t" "t_amount (sh_aggressor flag t) = t_amount t"
    "t_quantity (sh_aggressor flag t) = t_quantity t"
    "has kTickChannelHistoryValid t \<Longrightarrow> has kTickChannelHistoryValid (sh_aggressor flag t)"
    by (simp_all add: sh_aggressor_def Let_def)
qed

lemma publish_order_ids_wf:
  assumes "flags_justified t"
  shows "flags_justified (publish_order_ids t)" "core (publish_order_ids t) = core t"
    "t_price (publish_order_ids t) = t_price t" "t_amount (publish_order_ids t) = t_amount t"
    "t_quantity (publish_order_ids t) = t_quantity t" "t_aggressor (publish_order_ids t) = t_aggressor t"
    "t_buy_order_id (publish_order_ids t) = t_buy_order_id t"
    "t_sell_order_id (publish_order_ids t) = t_sell_order_id t"
    "f \<noteq> kTickBuyOrderIdValid \<Longrightarrow> f \<noteq> kTickSellOrderIdValid \<Longrightarrow> f \<in> set tick_flags \<Longrightarrow>
       has f (publish_order_ids t) = has f t"
    "has kTickChannelHistoryValid (publish_order_ids t) = has kTickChannelHistoryValid t"
proof -
  have "flags_justified (tick_when (t_buy_order_id t > 0) (tick_valid kTickBuyOrderIdValid) t)"
    by (rule flags_valid [OF assms]) simp_all
  then show "flags_justified (publish_order_ids t)"
    unfolding publish_order_ids_def by (rule flags_valid) simp_all
  show "core (publish_order_ids t) = core t"
    "t_price (publish_order_ids t) = t_price t" "t_amount (publish_order_ids t) = t_amount t"
    "t_quantity (publish_order_ids t) = t_quantity t" "t_aggressor (publish_order_ids t) = t_aggressor t"
    "t_buy_order_id (publish_order_ids t) = t_buy_order_id t"
    "t_sell_order_id (publish_order_ids t) = t_sell_order_id t"
    "has kTickChannelHistoryValid (publish_order_ids t) = has kTickChannelHistoryValid t"
    by (simp_all add: publish_order_ids_def flag_values)
  show "f \<noteq> kTickBuyOrderIdValid \<Longrightarrow> f \<noteq> kTickSellOrderIdValid \<Longrightarrow> f \<in> set tick_flags \<Longrightarrow>
       has f (publish_order_ids t) = has f t"
    using flags_distinct(1) by (auto simp: publish_order_ids_def)
qed

lemma sh_trade_wf:
  assumes "sh_trade flag t = Inr t'" and "fresh t"
  shows "tick_wf t' \<and> core t' = core t"
proof -
  let ?t = "t\<lparr>t_action := TickAction_kTrade\<rparr>"
  have F: "fresh ?t" by (rule fresh_action [OF assms(2)])
  note nf = no_flag [OF F] and np = fresh_fields [OF F]
  from assms(1) obtain t1 t2 where N: "normalize_price ?t = Inr t1" and A: "sh_trade_amount t1 = Inr t2"
    unfolding sh_trade_def by (elim rbind_InrE)
  note n = normalize_step [OF N np(1) fresh_flags(1) [OF F] nf(1)]
  have v1: "has f t1 = has f ?t" for f by (rule has_same [OF n(7)])
  have "\<not> fd_p6_valid (t_amount t1)" "\<not> has kTickAmountValid t1" "\<not> has kTickMatchedQuantityValid t1"
    using np(2) nf n(5) unfolding v1 by simp_all
  note a = sh_trade_amount_step [OF A this(1) n(1) this(2,3)]
  have v2: "has f t2 = has f ?t" for f using v1 has_same [OF a(7)] by simp
  define t3 where "t3 = tick_when (fd_p6_valid (t_price t2)) (tick_valid kTickPriceValid) t2"
  define t4 where "t4 = tick_when (si_valid (t_quantity t3)) (tick_valid kTickQuantityValid) t3"
  define t5 where "t5 = tick_when (fd_p6_valid (t_amount t4)) (tick_valid kTickAmountValid) t4"
  have t': "t' = sh_aggressor flag (publish_order_ids t5)"
    using assms(1) N A by (simp add: sh_trade_def Let_def t3_def t4_def t5_def)
  have "flags_justified t3" unfolding t3_def by (rule flags_valid [OF a(1)]) (use n(4) a(5) in simp_all)
  then have "flags_justified t4" unfolding t4_def by (rule flags_valid) simp_all
  then have j5: "flags_justified t5" unfolding t5_def
    by (rule flags_valid) (use a(4) in \<open>simp_all add: t4_def t3_def\<close>)
  have 5: "core t5 = core t" "t_price t5 = t_price t1" "t_amount t5 = t_amount t2" "t_quantity t5 = t_quantity t"
    "\<not> has kTickAggressorValid t5" "has kTickChannelHistoryValid t5"
    using a(2,5,6) n(2,6) nf fresh_flags(2) [OF F]
    unfolding t5_def t4_def t3_def by (simp_all add: v2 flag_values)
  note p = publish_order_ids_wf [OF j5]
  have "kTickAggressorValid \<noteq> kTickBuyOrderIdValid" "kTickAggressorValid \<noteq> kTickSellOrderIdValid"
    by (simp_all add: flag_values)
  from p(9) [OF this in_tick_flags(8)] have "\<not> has kTickAggressorValid (publish_order_ids t5)"
    using 5(5) by simp
  note g = sh_aggressor_wf [OF p(1) this, of flag, folded t']
  show ?thesis using g p 5 n(3) a(3) np(3) by (simp add: tick_wf_def)
qed

lemma sh_unknown_wf:
  assumes "fresh t"
  shows "tick_wf (sh_unknown t) \<and> core (sh_unknown t) = core t"
proof -
  let ?t = "t\<lparr>t_quantity := (t_quantity t)\<lparr>si_valid := False\<rparr>\<rparr>"
  have "flags_justified ?t"
    by (rule flags_field [OF fresh_flags(1) [OF assms]])
      (use no_flag(2) [OF assms] in \<open>auto simp: justified_def\<close>)
  then show ?thesis
    using fresh_fields [OF assms] fresh_flags(2) [OF assms]
    by (simp add: tick_wf_def sh_unknown_def decimal_wf_unset scaled_wf_def)
qed

lemma sh_status_wf:
  assumes "sh_status flag t = Inr t'" and "fresh t"
  shows "tick_wf t' \<and> core t' = core t"
proof -
  let ?t = "t\<lparr>t_action := TickAction_kStatus, t_quantity := (t_quantity t)\<lparr>si_valid := False\<rparr>,
           t_phase := ParseShPhase flag\<rparr>"
  have j: "flags_justified ?t"
    by (rule flags_field [OF fresh_flags(1) [OF assms(2)]])
      (use no_flag(2,10) [OF assms(2)] in \<open>auto simp: justified_def\<close>)
  have "flags_justified (tick_when (t_phase ?t \<noteq> TradingPhase_kUnknown) (tick_valid kTickPhaseValid) ?t)"
    by (rule flags_valid [OF j]) simp_all
  then show ?thesis
    using assms(1) j fresh_fields [OF assms(2)] fresh_flags(2) [OF assms(2)]
    by (auto simp: tick_wf_def sh_status_def Let_def decimal_wf_unset scaled_wf_def tick_when_def
        simp del: tick_when_simps split: if_splits)
qed

lemma sh_body_wf:
  assumes "sh_body ty flag t = Inr t'" and "fresh t"
  shows "tick_wf t' \<and> core t' = core t"
  using assms sh_add_wf sh_cancel_wf sh_trade_wf sh_status_wf sh_unknown_wf
  by (auto simp: sh_body_def split: if_splits)


text \<open>The Shenzhen bodies.\<close>

lemma sz_trade_wf:
  assumes "sz_trade t = Inr t'" and "fresh t"
  shows "tick_wf t' \<and> core t' = core t"
proof -
  let ?t = "t\<lparr>t_action := TickAction_kTrade\<rparr>"
  have F: "fresh ?t" by (rule fresh_action [OF assms(2)])
  note nf = no_flag [OF F] and np = fresh_fields [OF F]
  from assms(1) obtain t1 where N: "normalize_price (publish_order_ids ?t) = Inr t1"
    unfolding sz_trade_def by (elim rbind_InrE)
  note p = publish_order_ids_wf [OF fresh_flags(1) [OF F]]
  have d: "kTickPriceValid \<noteq> kTickBuyOrderIdValid" "kTickPriceValid \<noteq> kTickSellOrderIdValid"
    by (simp_all add: flag_values)
  have "\<not> fd_p6_valid (t_price (publish_order_ids ?t))" "\<not> has kTickPriceValid (publish_order_ids ?t)"
    using np(1) p(3) nf(1) p(9) [OF d in_tick_flags(1)] by simp_all
  note n = normalize_step [OF N this(1) p(1) this(2)]
  define t2 where "t2 = tick_when (fd_p6_valid (t_price t1)) (tick_valid kTickPriceValid) t1"
  have t': "t' = tick_when (si_valid (t_quantity t2)) (tick_valid kTickQuantityValid) t2"
    using assms(1) N by (simp add: sz_trade_def Let_def t2_def)
  have "flags_justified t2" unfolding t2_def by (rule flags_valid [OF n(1)]) (use n(4) in simp_all)
  then have "flags_justified t'" unfolding t' by (rule flags_valid) simp_all
  moreover have "has kTickChannelHistoryValid t1"
    using has_same [OF n(7)] p(10) fresh_flags(2) [OF F] by simp
  ultimately show ?thesis using n p np by (simp add: tick_wf_def t' t2_def decimal_wf_unset)
qed

lemma sz_cancel_wf:
  assumes "fresh t"
  shows "tick_wf (sz_cancel t) \<and> core (sz_cancel t) = core t"
proof -
  let ?t = "t\<lparr>t_action := TickAction_kCancel\<rparr>"
  have F: "fresh ?t" by (rule fresh_action [OF assms])
  note nf = no_flag [OF F] and np = fresh_fields [OF F]
  define t1 where "t1 = publish_order_ids ?t"
  define t2 where "t2 = tick_when (si_valid (t_quantity t1)) (tick_valid kTickQuantityValid) t1"
  note p = publish_order_ids_wf [OF fresh_flags(1) [OF F], folded t1_def]
  have j2: "flags_justified t2" unfolding t2_def by (rule flags_valid [OF p(1)]) simp_all
  have d: "kTickSideValid \<noteq> kTickBuyOrderIdValid" "kTickSideValid \<noteq> kTickSellOrderIdValid"
    "kTickPrimaryOrderIdValid \<noteq> kTickBuyOrderIdValid" "kTickPrimaryOrderIdValid \<noteq> kTickSellOrderIdValid"
    by (simp_all add: flag_values)
  have h2: "\<not> has kTickSideValid t2" "\<not> has kTickPrimaryOrderIdValid t2" "has kTickChannelHistoryValid t2"
    using p(9) [OF d(1,2) in_tick_flags(7)] p(9) [OF d(3,4) in_tick_flags(4)] p(10) nf fresh_flags(2) [OF F]
    unfolding t2_def by (simp_all add: flag_values)
  have both: "tick_valid (kTickPrimaryOrderIdValid OR kTickSideValid) u
      = tick_valid kTickSideValid (tick_valid kTickPrimaryOrderIdValid u)" for u
    by (simp add: tick_valid_def or.assoc)
  have set: "flags_justified (tick_valid (kTickPrimaryOrderIdValid OR kTickSideValid)
      (t2\<lparr>t_primary_order_id := i, t_side := s\<rparr>))" if "0 < i" "s \<noteq> Side_kUnknown" for i s
  proof -
    let ?u = "t2\<lparr>t_primary_order_id := i, t_side := s\<rparr>"
    have "flags_justified ?u" by (rule flags_field [OF j2]) (use h2 in \<open>auto simp: justified_def\<close>)
    then have "flags_justified (tick_when True (tick_valid kTickPrimaryOrderIdValid) ?u)"
      by (rule flags_valid) (use that in simp_all)
    then have "flags_justified (tick_when True (tick_valid kTickSideValid)
        (tick_when True (tick_valid kTickPrimaryOrderIdValid) ?u))"
      by (rule flags_valid) (use that in \<open>simp_all add: tick_when_def\<close>)
    then show ?thesis by (simp add: both tick_when_def)
  qed
  have "flags_justified (sz_cancel t)"
    unfolding sz_cancel_def Let_def t1_def [symmetric] t2_def [symmetric]
    using set j2 by (auto split: if_splits)
  moreover have "core t2 = core t" "t_price t2 = t_price t" "t_amount t2 = t_amount t" "t_quantity t2 = t_quantity t"
    using p by (simp_all add: t2_def)
  ultimately show ?thesis
    using h2(3) np by (simp add: sz_cancel_def Let_def tick_wf_def decimal_wf_unset flip: t1_def t2_def)
qed

lemma sz_transaction_body_wf:
  assumes "sz_transaction_body t = Inr t'" and "fresh t"
  shows "tick_wf t' \<and> core t' = core t"
  using assms sz_trade_wf sz_cancel_wf sh_unknown_wf by (auto simp: sz_transaction_body_def split: if_splits)


section \<open>The shared prefix of the tick decoders\<close>

definition set_exchange_time :: "bool \<Rightarrow> u32 \<Rightarrow> u64 \<Rightarrow> u64 \<Rightarrow> CanonicalTick \<Rightarrow> CanonicalTick" where
  "set_exchange_time ok raw q ns t = tick_when ok (tick_valid kTickExchangeTimeValid)
     (t\<lparr>t_common := (t_common t)\<lparr>c_exchange_time_raw := raw, c_quality_flags := q, c_exchange_time_ns := ns,
        c_exchange_time_valid := (ok \<or> c_exchange_time_valid (t_common t))\<rparr>\<rparr>)"

lemma tick_exchange_time_Inr:
  assumes "tick_exchange_time body off t = Inr t'"
  shows "\<exists>ok raw q ns. t' = set_exchange_time ok raw q ns t"
proof -
  from assms obtain raw :: u32 where raw: "LoadUnsigned body off = Some raw"
    unfolding tick_exchange_time_def by (elim rbind_InrE) (auto simp: need_Inr_iff)
  obtain ok q ns where d: "DecodeTime raw (c_quality_flags (t_common t)) (c_exchange_time_ns (t_common t))
      = (ok, q, ns)" by (cases "DecodeTime raw (c_quality_flags (t_common t)) (c_exchange_time_ns (t_common t))")
  have "t' = set_exchange_time ok raw q ns t"
    using assms unfolding tick_exchange_time_def raw need_def option.case rbind_simps d
    by (cases ok) (simp_all add: set_exchange_time_def tick_when_def)
  then show ?thesis by blast
qed

lemma core_common [simp]:
  "core (t\<lparr>t_common := (t_common t)\<lparr>c_exchange_time_raw := raw, c_quality_flags := q, c_exchange_time_ns := ns,
        c_exchange_time_valid := v\<rparr>\<rparr>) = core t"
  "core (t\<lparr>t_common := (t_common t)\<lparr>c_quality_flags := q\<rparr>\<rparr>) = core t"
  "core (t\<lparr>t_common := (t_common t)\<lparr>c_quality_flags := q\<rparr>, t_price := d\<rparr>) = core t"
  "core (t\<lparr>t_common := (t_common t)\<lparr>c_quality_flags := q\<rparr>, t_amount := d\<rparr>) = core t"
  unfolding core_def by (rule CanonicalCommon.equality; simp)+

lemma set_exchange_time_facts:
  shows "core (set_exchange_time ok raw q ns t) = core t"
    "t_price (set_exchange_time ok raw q ns t) = t_price t"
    "t_amount (set_exchange_time ok raw q ns t) = t_amount t"
    "t_quantity (set_exchange_time ok raw q ns t) = t_quantity t"
    "t_aggressor (set_exchange_time ok raw q ns t) = t_aggressor t"
    "t_primary_order_id (set_exchange_time ok raw q ns t) = t_primary_order_id t"
    "has f (set_exchange_time ok raw q ns t) \<longleftrightarrow> has f t \<or> ok \<and> kTickExchangeTimeValid AND f \<noteq> 0"
    "t_validity (set_exchange_time ok raw q ns t) =
       (if ok then t_validity t OR kTickExchangeTimeValid else t_validity t)"
    "ok \<Longrightarrow> c_exchange_time_valid (t_common (set_exchange_time ok raw q ns t))"
    "flags_justified t \<Longrightarrow> \<not> has kTickExchangeTimeValid t \<Longrightarrow> flags_justified (set_exchange_time ok raw q ns t)"
proof -
  show "core (set_exchange_time ok raw q ns t) = core t"
    by (simp only: set_exchange_time_def core_tick_when core_tick_flags core_common(1) if_cancel)
  show "t_price (set_exchange_time ok raw q ns t) = t_price t"
    "t_amount (set_exchange_time ok raw q ns t) = t_amount t"
    "t_quantity (set_exchange_time ok raw q ns t) = t_quantity t"
    "t_aggressor (set_exchange_time ok raw q ns t) = t_aggressor t"
    "has f (set_exchange_time ok raw q ns t) \<longleftrightarrow> has f t \<or> ok \<and> kTickExchangeTimeValid AND f \<noteq> 0"
    by (simp_all add: set_exchange_time_def)
  show "t_primary_order_id (set_exchange_time ok raw q ns t) = t_primary_order_id t"
    "t_validity (set_exchange_time ok raw q ns t) =
       (if ok then t_validity t OR kTickExchangeTimeValid else t_validity t)"
    "ok \<Longrightarrow> c_exchange_time_valid (t_common (set_exchange_time ok raw q ns t))"
    by (simp_all add: set_exchange_time_def tick_when_def tick_valid_def)
  show "flags_justified (set_exchange_time ok raw q ns t)"
    if "flags_justified t" "\<not> has kTickExchangeTimeValid t"
    unfolding set_exchange_time_def
  proof (rule flags_valid)
    show "flags_justified (t\<lparr>t_common := (t_common t)\<lparr>c_exchange_time_raw := raw, c_quality_flags := q,
        c_exchange_time_ns := ns, c_exchange_time_valid := ok \<or> c_exchange_time_valid (t_common t)\<rparr>\<rparr>)"
      by (rule flags_field [OF that(1)]) (use that(2) in \<open>auto simp: justified_def\<close>)
  qed simp_all
qed

lemma load_price_step:
  assumes "load_tick_price load t = Inr t'"
    and "\<forall>q q' d'. load q (t_price t) = Inr (q', d') \<longrightarrow> \<not> fd_p6_valid d'"
    and "flags_justified t" and "\<not> has kTickPriceValid t"
  shows "\<exists>q d. t' = t\<lparr>t_common := (t_common t)\<lparr>c_quality_flags := q\<rparr>, t_price := d\<rparr> \<and>
    \<not> fd_p6_valid d" "flags_justified t'"
proof -
  from assms(1) obtain q d where l: "load (c_quality_flags (t_common t)) (t_price t) = Inr (q, d)"
    and t': "t' = t\<lparr>t_common := (t_common t)\<lparr>c_quality_flags := q\<rparr>, t_price := d\<rparr>"
    unfolding load_tick_price_def by (elim rbind_InrE) auto
  show "\<exists>q d. t' = t\<lparr>t_common := (t_common t)\<lparr>c_quality_flags := q\<rparr>, t_price := d\<rparr> \<and>
    \<not> fd_p6_valid d" using t' assms(2) l by blast
  show "flags_justified t'"
    by (rule flags_field [OF assms(3)]) (use assms(4) t' in \<open>auto simp: justified_def\<close>)
qed

lemma load_amount_step:
  assumes "load_tick_amount load t = Inr t'"
    and "\<forall>q q' d'. load q (t_amount t) = Inr (q', d') \<longrightarrow> \<not> fd_p6_valid d'"
  shows "\<exists>q d. t' = t\<lparr>t_common := (t_common t)\<lparr>c_quality_flags := q\<rparr>, t_amount := d\<rparr> \<and>
    \<not> fd_p6_valid d"
proof -
  from assms(1) obtain q d where l: "load (c_quality_flags (t_common t)) (t_amount t) = Inr (q, d)"
    and t': "t' = t\<lparr>t_common := (t_common t)\<lparr>c_quality_flags := q\<rparr>, t_amount := d\<rparr>"
    unfolding load_tick_amount_def by (elim rbind_InrE) auto
  then show ?thesis using assms(2) l by blast
qed

lemma tick_raw_quantity_facts:
  assumes "in_i64 raw" and "\<not> si_valid (t_quantity t)"
  shows "core (tick_raw_quantity raw t) = core t" "scaled_wf (t_quantity (tick_raw_quantity raw t))"
    "t_price (tick_raw_quantity raw t) = t_price t" "t_amount (tick_raw_quantity raw t) = t_amount t"
    "t_validity (tick_raw_quantity raw t) = t_validity t" "t_aggressor (tick_raw_quantity raw t) = t_aggressor t"
    "t_primary_order_id (tick_raw_quantity raw t) = t_primary_order_id t"
    "si_valid (t_quantity (tick_raw_quantity raw t)) \<longleftrightarrow> 0 \<le> raw"
    "t_common (tick_raw_quantity raw t) = (t_common t)\<lparr>c_quality_flags := c_quality_flags (t_common (tick_raw_quantity raw t))\<rparr>"
  using assms by (auto simp: tick_raw_quantity_def Let_def scaled_wf_def) (simp_all add: tick_quality_def)

lemma finish_tick_facts:
  shows "core (td_tick (finish_tick cat t)) = core t"
    "tick_wf (td_tick (finish_tick cat t)) \<longleftrightarrow> tick_wf t"
    "td_catalog_match (finish_tick cat t) \<longleftrightarrow> Find cat (tick_market t)
      (take (unat (security_id_source_size (c_identity (t_common t)))) (security_id_source (c_identity (t_common t))))
      (take (unat (security_id_size (c_identity (t_common t)))) (security_id (c_identity (t_common t)))) \<noteq> None"
proof -
  obtain b c where a: "ApplyCatalog cat (t_common t) = (b, c)" by (cases "ApplyCatalog cat (t_common t)")
  then have f: "td_tick (finish_tick cat t) = t\<lparr>t_common := c\<rparr>" "td_catalog_match (finish_tick cat t) = b"
    by (simp_all add: finish_tick_def)
  from ApplyCatalog_eq(2) [OF a] obtain q x y where
    c: "c = (t_common t)\<lparr>c_quality_flags := q, c_instrument_id := x, c_instrument_ordinal := y\<rparr>" by blast
  show "core (td_tick (finish_tick cat t)) = core t"
    unfolding f core_def c by (rule CanonicalCommon.equality) simp_all
  show "tick_wf (td_tick (finish_tick cat t)) \<longleftrightarrow> tick_wf t"
    unfolding f tick_wf_def flags_justified_def by (simp add: c)
  show "td_catalog_match (finish_tick cat t) \<longleftrightarrow> Find cat (tick_market t)
      (take (unat (security_id_source_size (c_identity (t_common t)))) (security_id_source (c_identity (t_common t))))
      (take (unat (security_id_size (c_identity (t_common t)))) (security_id (c_identity (t_common t)))) \<noteq> None"
    using ApplyCatalog_eq(1) [OF a] f by simp
qed


section \<open>What a decoded tick promises\<close>

definition tick_post :: "OwnedMessageView \<Rightarrow> u32 \<Rightarrow> Market \<Rightarrow> CanonicalKind \<Rightarrow> u32 \<Rightarrow> u64 \<Rightarrow> CanonicalTick \<Rightarrow> bool" where
  "tick_post message trade_date market kind channel seq t \<longleftrightarrow> tick_wf t \<and> good_seq (native_seq t) \<and>
     native_seq t = seq \<and> tick_channel t = channel \<and> tick_market t = market \<and>
     c_kind (t_common t) = kind \<and> c_message_key (t_common t) = hdr_key (mv_header message) \<and>
     c_trade_date (t_common t) = trade_date \<and>
     c_ingress_sequence (t_common t) = mv_ingress_sequence message \<and>
     c_receive_monotonic_ns (t_common t) = mv_receive_monotonic_ns message \<and>
     c_vendor_sequence_id (t_common t) = vendor_sequence_id (mv_header message) \<and>
     identity_wf (c_identity (t_common t)) \<and> length (c_md_stream_id (t_common t)) = kMaximumIdentityBytes \<and>
     c_gap_epoch (t_common t) = 0 \<and> c_gap_before_first (t_common t) = 0 \<and> c_gap_before_last (t_common t) = 0"

lemma positive_Inr [return_iff]: "positive m = Inr x \<longleftrightarrow> m = Some x \<and> 0 < x"
  by (auto simp: positive_def split: option.splits)

lemma good_seq_of_int:
  assumes "0 < x" and "in_i64 x"
  shows "good_seq (word_of_int x)" "unat (word_of_int x :: u64) = nat x"
proof -
  have lt: "nat x < 2 ^ 63" using assms by (simp add: in_i64_def I64_MAX_def nat_less_iff)
  have "(word_of_int x :: u64) = of_nat (nat x)" using assms(1) by (simp add: of_nat_nat)
  moreover have "unat (of_nat (nat x) :: u64) = nat x" using lt by (simp add: unat_of_nat take_bit_eq_mod)
  ultimately show u: "unat (word_of_int x :: u64) = nat x" by simp
  show "good_seq (word_of_int x)" using u lt assms(1) by (simp add: good_seq_def)
qed

lemma InitializeCommon_core:
  "\<exists>q v n. InitializeCommon message trade_date market kind c =
     c\<lparr>c_ingress_sequence := mv_ingress_sequence message,
       c_vendor_sequence_id := vendor_sequence_id (mv_header message),
       c_receive_monotonic_ns := mv_receive_monotonic_ns message,
       c_trade_date := trade_date, c_message_key := hdr_key (mv_header message), c_kind := kind,
       c_identity := (c_identity c)\<lparr>id_market := market\<rparr>,
       c_vendor_local_time_raw := local_time_raw (mv_header message),
       c_vendor_local_time_valid := v, c_quality_flags := q, c_vendor_local_time_ns := n\<rparr>"
  by (cases "DecodeTime (local_time_raw (mv_header message)) (c_quality_flags c) (c_vendor_local_time_ns c)")
    (auto simp: InitializeCommon_def)

text \<open>
  The common block after \<open>InitializeCommon\<close>, \<open>ReadIdentity\<close> and the native position; every
  later step keeps its core.
\<close>

lemma tick_post_core:
  assumes "ReadIdentity (mv_body message) market fixed so co xo limits
      (InitializeCommon message trade_date market kind default_common) rs = Inr (common, rs1)"
    and "ranges_ok fixed (length (mv_body message)) rs"
    and "maximum_text_bytes limits \<le> kMaximumIdentityBytes"
    and "core t = core (t0\<lparr>t_common := common\<lparr>c_native_sequence := seq, c_channel := channel\<rparr>\<rparr>)"
    and "good_seq seq" and "tick_wf t"
  shows "tick_post message trade_date market kind channel seq t"
    and "ranges_ok fixed (length (mv_body message)) rs1"
proof -
  obtain q v n where init: "InitializeCommon message trade_date market kind default_common =
     default_common\<lparr>c_ingress_sequence := mv_ingress_sequence message,
       c_vendor_sequence_id := vendor_sequence_id (mv_header message),
       c_receive_monotonic_ns := mv_receive_monotonic_ns message,
       c_trade_date := trade_date, c_message_key := hdr_key (mv_header message), c_kind := kind,
       c_identity := (c_identity default_common)\<lparr>id_market := market\<rparr>,
       c_vendor_local_time_raw := local_time_raw (mv_header message),
       c_vendor_local_time_valid := v, c_quality_flags := q, c_vendor_local_time_ns := n\<rparr>"
    (is "_ = ?c") using InitializeCommon_core by blast
  have arr: "length (security_id (c_identity ?c)) = kMaximumIdentityBytes"
    "length (security_id_source (c_identity ?c)) = kMaximumIdentityBytes"
    "length (c_md_stream_id ?c) = kMaximumIdentityBytes"
    by (simp_all add: default_common_def default_identity_def empty_identity_array_def)
  from ReadIdentity_Inr [OF assms(1) [unfolded init] assms(2,3) arr(1,2)]
  obtain i sid sz where r: "common = ?c\<lparr>c_identity := i, c_md_stream_id := sid, c_md_stream_id_size := sz\<rparr>"
    "id_market i = market" "identity_wf i" "ranges_ok fixed (length (mv_body message)) rs1"
    "length sid = kMaximumIdentityBytes" using arr(3) by metis
  have eq: "g (core t) = g (core (t0\<lparr>t_common := common\<lparr>c_native_sequence := seq, c_channel := channel\<rparr>\<rparr>))" for g
    using assms(4) by simp
  show "ranges_ok fixed (length (mv_body message)) rs1" by (rule r(4))
  show "tick_post message trade_date market kind channel seq t"
    unfolding tick_post_def
    using assms(5,6) r(2,3,5) eq [of c_native_sequence] eq [of c_channel] eq [of c_identity] eq [of c_kind]
      eq [of c_message_key] eq [of c_trade_date] eq [of c_ingress_sequence] eq [of c_receive_monotonic_ns]
      eq [of c_vendor_sequence_id] eq [of c_md_stream_id] eq [of c_gap_epoch] eq [of c_gap_before_first]
      eq [of c_gap_before_last]
    by (simp add: core_def r(1) default_common_def)
qed


lemma raw_decimal_unset:
  shows "LoadDecimal32Raw body off scale q default_decimal = Inr (q', d') \<Longrightarrow> \<not> fd_p6_valid d'"
    and "LoadDecimal64Raw body off scale q default_decimal = Inr (q', d') \<Longrightarrow> \<not> fd_p6_valid d'"
  using LoadDecimal32Raw_Inr(2) LoadDecimal64Raw_Inr(2) by (fastforce simp: default_decimal_def)+

text \<open>
  A bare tick: the flags and fields the default initialisers leave, with the order numbers and
  the common block filled in.
\<close>

definition bare :: "CanonicalTick \<Rightarrow> bool" where
  "bare t \<longleftrightarrow> t_price t = default_decimal \<and> t_amount t = default_decimal \<and>
     \<not> si_valid (t_quantity t) \<and> t_validity t = kTickChannelHistoryValid \<and> t_aggressor t = Aggressor_kUnknown"

lemma bare_default [simp]: "bare default_tick"
  by (simp add: bare_def default_tick_def default_scaled_def)

text \<open>Quantity, exchange time, price and amount turn a bare tick into a fresh one.\<close>

lemma bare_quantity:
  fixes P :: bool and q :: u64
  assumes "bare t" and "in_i64 quantity"
  defines "u \<equiv> tick_raw_quantity quantity (tick_when P (tick_quality q) t)"
  shows "core u = core t" "scaled_wf (t_quantity u)" "t_price u = default_decimal"
    "t_amount u = default_decimal" "t_validity u = kTickChannelHistoryValid" "t_aggressor u = Aggressor_kUnknown"
proof -
  have b: "\<not> si_valid (t_quantity (tick_when P (tick_quality q) t))"
    using assms(1) by (simp add: bare_def tick_when_def)
  show "core u = core t" "scaled_wf (t_quantity u)" "t_price u = default_decimal"
    "t_amount u = default_decimal" "t_validity u = kTickChannelHistoryValid" "t_aggressor u = Aggressor_kUnknown"
    using tick_raw_quantity_facts [OF assms(2) b] assms(1)
    by (simp_all add: u_def bare_def tick_when_def)
qed

lemma fresh_after_prefix:
  assumes "scaled_wf (t_quantity t)" and "t_amount t = default_decimal" and "t_price t = default_decimal"
    and "t_validity t = kTickChannelHistoryValid" and "t_aggressor t = Aggressor_kUnknown"
    and "t4 = set_exchange_time ok raw q ns t"
    and "t5 = t4\<lparr>t_common := (t_common t4)\<lparr>c_quality_flags := q5\<rparr>, t_price := d5\<rparr>" "\<not> fd_p6_valid d5"
  shows "fresh t5" "core t5 = core t" "t_amount t5 = default_decimal"
  using assms(1-5,8) set_exchange_time_facts [where ok = ok and raw = raw and q = q and ns = ns and t = t, folded assms(6)]
  by (simp_all add: fresh_def assms(7)) (simp add: default_decimal_def)

lemma tick_prefix:
  assumes "bare t1" and "in_i64 quantity"
    and time: "tick_exchange_time body off
      (tick_raw_quantity quantity (tick_when P (tick_quality flag) t1)) = Inr t4"
    and price: "load_tick_price load t4 = Inr t5"
    and raw: "\<forall>q q' d. load q default_decimal = Inr (q', d) \<longrightarrow> \<not> fd_p6_valid d"
  shows "fresh t5" "core t5 = core t1" "t_amount t5 = default_decimal"
proof -
  let ?t3 = "tick_raw_quantity quantity (tick_when P (tick_quality flag) t1)"
  note q3 = bare_quantity [OF assms(1,2), of P flag]
  from tick_exchange_time_Inr [OF time] obtain ok' w q4 ns where t4: "t4 = set_exchange_time ok' w q4 ns ?t3"
    by blast
  have j3: "flags_justified ?t3" "\<not> has kTickExchangeTimeValid ?t3" "\<not> has kTickPriceValid ?t3"
    using q3(5) by (simp_all add: flags_justified_def has_def flag_values)
  note x4 = set_exchange_time_facts [where ok = ok' and raw = w and q = q4 and ns = ns and t = ?t3, folded t4]
  have p4: "\<not> has kTickPriceValid t4" using j3(3) x4(7) by (simp add: flag_values)
  have "t_price t4 = default_decimal" using x4(2) q3(3) by simp
  then have "\<forall>q q' d. load q (t_price t4) = Inr (q', d) \<longrightarrow> \<not> fd_p6_valid d" using raw by simp
  from load_price_step(1) [OF price this x4(10) [OF j3(1,2)] p4]
  obtain q5 d5 where t5: "t5 = t4\<lparr>t_common := (t_common t4)\<lparr>c_quality_flags := q5\<rparr>, t_price := d5\<rparr>"
    "\<not> fd_p6_valid d5" by blast
  show "fresh t5" "core t5 = core t1" "t_amount t5 = default_decimal"
    using fresh_after_prefix [OF q3(2,4,3,5,6) t4 t5] q3(1) by simp_all
qed

lemma DecodeShanghaiTick_post:
  assumes D: "DecodeShanghaiTick message trade_date limits cat rs = Inr (r, rs')"
    and ok: "ranges_ok sizeof_NGTSTick (length (mv_body message)) rs"
    and lim: "maximum_text_bytes limits \<le> kMaximumIdentityBytes"
  shows "\<exists>seq channel. LoadI64 (mv_body message) 0 = Some seq \<and> 0 < seq \<and>
      LoadI32 (mv_body message) 8 = Some channel \<and> 0 < channel \<and>
      tick_post message trade_date Market_kShanghai CanonicalKind_kShanghaiTick
        (word_of_int channel) (word_of_int seq) (td_tick r)"
    and "ranges_ok sizeof_NGTSTick (length (mv_body message)) rs'"
    and "sizeof_NGTSTick \<le> length (mv_body message)"
proof -
  let ?body = "mv_body message"
  let ?t0 = "default_tick\<lparr>t_common := InitializeCommon message trade_date Market_kShanghai
                CanonicalKind_kShanghaiTick (t_common default_tick)\<rparr>"
  show len: "sizeof_NGTSTick \<le> length ?body"
    using D by (auto simp: DecodeShanghaiTick_def Let_def split: if_splits)
  from D len obtain common rs1 seq channel buy sell quantity t4 t5 t6 ty rs2 fl t7 where
    ident: "ReadIdentity ?body Market_kShanghai sizeof_NGTSTick SIZE_MAX 12 SIZE_MAX limits (t_common ?t0) rs
      = Inr (common, rs1)"
    and seq: "LoadI64 ?body 0 = Some seq" "0 < seq" and channel: "LoadI32 ?body 8 = Some channel" "0 < channel"
    and qty: "LoadI64 ?body 48 = Some quantity"
    and time: "tick_exchange_time ?body 18 (tick_raw_quantity quantity (tick_when (buy < 0 \<or> sell < 0)
        (tick_quality kQualityInvalidOrderReference) (?t0\<lparr>t_common := common\<lparr>c_native_sequence := word_of_int seq,
          c_channel := word_of_int channel\<rparr>, t_buy_order_id := buy, t_sell_order_id := sell\<rparr>))) = Inr t4"
    and price: "load_tick_price (LoadDecimal32Raw ?body 44 3) t4 = Inr t5"
    and amount: "load_tick_amount (LoadDecimal64Raw ?body 56 3) t5 = Inr t6"
    and texts: "ReadText ?body 22 sizeof_NGTSTick (maximum_text_bytes limits) True rs1 = Inr (ty, rs2)"
      "ReadText ?body 64 sizeof_NGTSTick (maximum_text_bytes limits) True rs2 = Inr (fl, rs')"
    and body: "sh_body ty fl (t6\<lparr>t_raw_type := raw_char ty, t_raw_side := raw_char fl\<rparr>) = Inr t7"
    and r: "r = finish_tick cat t7"
    unfolding DecodeShanghaiTick_def Let_def
    by (simp only: not_le [symmetric] if_False not_True_eq_False simp_thms)
      (elim rbind_InrE, clarsimp simp: return_iff)
  let ?t1 = "?t0\<lparr>t_common := common\<lparr>c_native_sequence := word_of_int seq,
          c_channel := word_of_int channel\<rparr>, t_buy_order_id := buy, t_sell_order_id := sell\<rparr>"
  have b1: "bare ?t1" using bare_default by (simp add: bare_def)
  have "\<forall>q q' d. LoadDecimal32Raw ?body 44 3 q default_decimal = Inr (q', d) \<longrightarrow> \<not> fd_p6_valid d"
    using raw_decimal_unset(1) by blast
  note f5 = tick_prefix [OF b1 LoadI64_Some_range [OF qty] time price this]
  have "\<forall>q q' d. LoadDecimal64Raw ?body 56 3 q (t_amount t5) = Inr (q', d) \<longrightarrow> \<not> fd_p6_valid d"
    using raw_decimal_unset(2) f5(3) by metis
  from load_amount_step [OF amount this] obtain q6 d6 where
    t6: "t6 = t5\<lparr>t_common := (t_common t5)\<lparr>c_quality_flags := q6\<rparr>, t_amount := d6\<rparr>" "\<not> fd_p6_valid d6"
    by blast
  have f6: "fresh (t6\<lparr>t_raw_type := raw_char ty, t_raw_side := raw_char fl\<rparr>)"
    using f5(1) t6(2) by (simp add: fresh_def t6(1))
  have c6: "core (t6\<lparr>t_raw_type := raw_char ty, t_raw_side := raw_char fl\<rparr>) = core ?t1"
    using f5(2) by (simp add: t6(1))
  from sh_body_wf [OF body f6] have w7: "tick_wf t7" "core t7 = core ?t1" using c6 by simp_all
  have core_r: "core (td_tick r) = core (default_tick\<lparr>t_common := common\<lparr>c_native_sequence := word_of_int seq,
          c_channel := word_of_int channel\<rparr>\<rparr>)"
    using w7(2) finish_tick_facts(1) [of cat t7] by (simp add: r core_def)
  have wf_r: "tick_wf (td_tick r)" using w7(1) finish_tick_facts(2) [of cat t7] by (simp add: r)
  have common: "t_common ?t0 = InitializeCommon message trade_date Market_kShanghai
      CanonicalKind_kShanghaiTick default_common" by (simp add: default_tick_def)
  note post = tick_post_core [OF ident [unfolded common] ok lim core_r
      good_seq_of_int(1) [OF seq(2) LoadI64_Some_range [OF seq(1)]] wf_r]
  show "\<exists>seq channel. LoadI64 ?body 0 = Some seq \<and> 0 < seq \<and> LoadI32 ?body 8 = Some channel \<and> 0 < channel \<and>
      tick_post message trade_date Market_kShanghai CanonicalKind_kShanghaiTick
        (word_of_int channel) (word_of_int seq) (td_tick r)"
    using seq channel post(1) by blast
  show "ranges_ok sizeof_NGTSTick (length ?body) rs'"
    by (rule ReadText_ranges [OF ReadText_ranges [OF post(2) texts(1)] texts(2)])
qed


lemma DecodeShenzhenTransaction_post:
  assumes D: "DecodeShenzhenTransaction message trade_date limits cat rs = Inr (r, rs')"
    and ok: "ranges_ok sizeof_Transaction300191_v2 (length (mv_body message)) rs"
    and lim: "maximum_text_bytes limits \<le> kMaximumIdentityBytes"
  shows "\<exists>seq channel. LoadUnsigned (mv_body message) 0 = Some channel \<and>
      LoadI64 (mv_body message) 4 = Some seq \<and> 0 < seq \<and>
      tick_post message trade_date Market_kShenzhen CanonicalKind_kShenzhenTransaction
        channel (word_of_int seq) (td_tick r)"
    and "ranges_ok sizeof_Transaction300191_v2 (length (mv_body message)) rs'"
    and "sizeof_Transaction300191_v2 \<le> length (mv_body message)"
proof -
  let ?body = "mv_body message"
  let ?t0 = "default_tick\<lparr>t_common := InitializeCommon message trade_date Market_kShenzhen
                CanonicalKind_kShenzhenTransaction (t_common default_tick)\<rparr>"
  show len: "sizeof_Transaction300191_v2 \<le> length ?body"
    using D by (auto simp: DecodeShenzhenTransaction_def Let_def split: if_splits)
  from D len obtain common channel seq buy sell quantity ty t4 t5 t6 where
    ident: "ReadIdentity ?body Market_kShenzhen sizeof_Transaction300191_v2 12 34 40 limits (t_common ?t0) rs
      = Inr (common, rs')"
    and channel: "LoadUnsigned ?body 0 = Some channel" and seq: "LoadI64 ?body 4 = Some seq" "0 < seq"
    and qty: "LoadI64 ?body 54 = Some quantity"
    and time: "tick_exchange_time ?body 66 (tick_raw_quantity quantity (tick_when (buy < 0 \<or> sell < 0)
        (tick_quality kQualityInvalidOrderReference) (?t0\<lparr>t_common := common\<lparr>c_channel := channel,
          c_native_sequence := word_of_int seq\<rparr>, t_buy_order_id := buy, t_sell_order_id := sell,
          t_raw_type := ty\<rparr>))) = Inr t4"
    and price: "load_tick_price (LoadDecimal64Raw ?body 46 4) t4 = Inr t5"
    and body: "sz_transaction_body t5 = Inr t6" and r: "r = finish_tick cat t6"
    unfolding DecodeShenzhenTransaction_def Let_def
    by (simp only: not_le [symmetric] if_False not_True_eq_False simp_thms)
      (elim rbind_InrE, clarsimp simp: return_iff)
  let ?t1 = "?t0\<lparr>t_common := common\<lparr>c_channel := channel, c_native_sequence := word_of_int seq\<rparr>,
      t_buy_order_id := buy, t_sell_order_id := sell, t_raw_type := ty\<rparr>"
  have b1: "bare ?t1" using bare_default by (simp add: bare_def)
  have "\<forall>q q' d. LoadDecimal64Raw ?body 46 4 q default_decimal = Inr (q', d) \<longrightarrow> \<not> fd_p6_valid d"
    using raw_decimal_unset(2) by blast
  note f5 = tick_prefix [OF b1 LoadI64_Some_range [OF qty] time price this]
  from sz_transaction_body_wf [OF body f5(1)] have w6: "tick_wf t6" "core t6 = core ?t1" using f5(2) by simp_all
  have core_r: "core (td_tick r) = core (default_tick\<lparr>t_common := common\<lparr>c_native_sequence := word_of_int seq,
          c_channel := channel\<rparr>\<rparr>)"
    using w6(2) finish_tick_facts(1) [of cat t6] by (simp add: r core_def)
  have wf_r: "tick_wf (td_tick r)" using w6(1) finish_tick_facts(2) [of cat t6] by (simp add: r)
  have common: "t_common ?t0 = InitializeCommon message trade_date Market_kShenzhen
      CanonicalKind_kShenzhenTransaction default_common" by (simp add: default_tick_def)
  note post = tick_post_core [OF ident [unfolded common] ok lim core_r
      good_seq_of_int(1) [OF seq(2) LoadI64_Some_range [OF seq(1)]] wf_r]
  show "\<exists>seq channel. LoadUnsigned ?body 0 = Some channel \<and> LoadI64 ?body 4 = Some seq \<and> 0 < seq \<and>
      tick_post message trade_date Market_kShenzhen CanonicalKind_kShenzhenTransaction
        channel (word_of_int seq) (td_tick r)"
    using seq channel post(1) by blast
  show "ranges_ok sizeof_Transaction300191_v2 (length ?body) rs'" by (rule post(2))
qed


lemma sz_order_enums_wf:
  assumes "flags_justified t" and "\<not> has kTickSideValid t" and "\<not> has kTickOrderTypeValid t"
  shows "flags_justified (sz_order_enums t)" "core (sz_order_enums t) = core t"
    "t_price (sz_order_enums t) = t_price t" "t_amount (sz_order_enums t) = t_amount t"
    "t_quantity (sz_order_enums t) = t_quantity t"
    "has kTickPriceValid (sz_order_enums t) = has kTickPriceValid t"
    "has kTickChannelHistoryValid (sz_order_enums t) = has kTickChannelHistoryValid t"
proof -
  define t1 where "t1 = t\<lparr>t_side := DecodeSzSide (t_raw_side t)\<rparr>"
  define t2 where "t2 = (if t_side t1 = Side_kUnknown then tick_quality kQualityUnknownEnum t1
      else tick_valid kTickSideValid t1)"
  define t3 where "t3 = t2\<lparr>t_order_type := DecodeSzOrderType (t_raw_type t2)\<rparr>"
  have e: "sz_order_enums t = (if t_order_type t3 = OrderType_kUnknown then tick_quality kQualityUnknownEnum t3
      else tick_valid kTickOrderTypeValid t3)"
    by (simp add: sz_order_enums_def Let_def t1_def t2_def t3_def)
  have "flags_justified t1"
    by (rule flags_field [OF assms(1)]) (use assms(2) in \<open>auto simp: t1_def justified_def\<close>)
  then have "flags_justified (tick_when (t_side t1 \<noteq> Side_kUnknown) (tick_valid kTickSideValid) t1)"
    by (rule flags_valid) simp_all
  then have j2: "flags_justified t2"
    using \<open>flags_justified t1\<close> by (auto simp: t2_def tick_when_def split: if_splits)
  have o2: "\<not> has kTickOrderTypeValid t2" using assms(3) by (simp add: t2_def t1_def flag_values)
  have j3: "flags_justified t3"
    by (rule flags_field [OF j2]) (use o2 in \<open>auto simp: t3_def justified_def\<close>)
  then have "flags_justified (tick_when (t_order_type t3 \<noteq> OrderType_kUnknown) (tick_valid kTickOrderTypeValid) t3)"
    by (rule flags_valid) simp_all
  then show "flags_justified (sz_order_enums t)" using j3 by (auto simp: e tick_when_def split: if_splits)
  show "core (sz_order_enums t) = core t"
    "t_price (sz_order_enums t) = t_price t" "t_amount (sz_order_enums t) = t_amount t"
    "t_quantity (sz_order_enums t) = t_quantity t"
    "has kTickPriceValid (sz_order_enums t) = has kTickPriceValid t"
    "has kTickChannelHistoryValid (sz_order_enums t) = has kTickChannelHistoryValid t"
    by (simp_all add: e t3_def t2_def t1_def flag_values)
qed

lemma sz_limit_price_wf:
  assumes "sz_limit_price t = Inr t'" and "\<not> fd_p6_valid (t_price t)"
    and "flags_justified t" and "\<not> has kTickPriceValid t"
  shows "flags_justified t'" "core t' = core t" "decimal_wf (t_price t')"
    "t_amount t' = t_amount t" "t_quantity t' = t_quantity t"
    "has kTickChannelHistoryValid t' = has kTickChannelHistoryValid t"
proof -
  have "flags_justified t' \<and> core t' = core t \<and> decimal_wf (t_price t') \<and>
    t_amount t' = t_amount t \<and> t_quantity t' = t_quantity t \<and>
    has kTickChannelHistoryValid t' = has kTickChannelHistoryValid t"
  proof (cases "t_order_type t = OrderType_kLimit")
    case True
    then obtain t1 where N: "normalize_price t = Inr t1"
      and t': "t' = tick_when (fd_p6_valid (t_price t1)) (tick_valid kTickPriceValid) t1"
      using assms(1) by (auto simp: sz_limit_price_def)
    note n = normalize_step [OF N assms(2-4)]
    have "flags_justified t'" unfolding t' by (rule flags_valid [OF n(1)]) (use n(4) in simp_all)
    then show ?thesis using n(2,3,5,6) has_same [OF n(7)] by (simp add: t' flag_values)
  next
    case False
    then show ?thesis using assms by (simp add: sz_limit_price_def decimal_wf_unset)
  qed
  then show "flags_justified t'" "core t' = core t" "decimal_wf (t_price t')"
    "t_amount t' = t_amount t" "t_quantity t' = t_quantity t"
    "has kTickChannelHistoryValid t' = has kTickChannelHistoryValid t" by blast+
qed

lemma DecodeShenzhenOrder_post:
  assumes D: "DecodeShenzhenOrder message trade_date limits cat rs = Inr (r, rs')"
    and ok: "ranges_ok sizeof_Order300192_v2 (length (mv_body message)) rs"
    and lim: "maximum_text_bytes limits \<le> kMaximumIdentityBytes"
  shows "\<exists>seq channel. LoadUnsigned (mv_body message) 0 = Some channel \<and>
      LoadI64 (mv_body message) 4 = Some seq \<and> 0 < seq \<and>
      tick_post message trade_date Market_kShenzhen CanonicalKind_kShenzhenOrder
        channel (word_of_int seq) (td_tick r)"
    and "ranges_ok sizeof_Order300192_v2 (length (mv_body message)) rs'"
    and "sizeof_Order300192_v2 \<le> length (mv_body message)"
proof -
  let ?body = "mv_body message"
  let ?t0 = "default_tick\<lparr>t_common := InitializeCommon message trade_date Market_kShenzhen
                CanonicalKind_kShenzhenOrder (t_common default_tick)\<rparr>"
  show len: "sizeof_Order300192_v2 \<le> length ?body"
    using D by (auto simp: DecodeShenzhenOrder_def Let_def split: if_splits)
  from D len obtain common channel seq quantity side ty t4 t5 t6 where
    ident: "ReadIdentity ?body Market_kShenzhen sizeof_Order300192_v2 12 18 24 limits (t_common ?t0) rs
      = Inr (common, rs')"
    and channel: "LoadUnsigned ?body 0 = Some channel" and seq: "LoadI64 ?body 4 = Some seq" "0 < seq"
    and qty: "LoadI64 ?body 38 = Some quantity"
    and time: "tick_exchange_time ?body 50 (tick_when (0 \<le> quantity) (tick_valid kTickQuantityValid)
        (tick_raw_quantity quantity (tick_valid kTickPrimaryOrderIdValid (?t0\<lparr>t_common := common\<lparr>c_channel := channel,
          c_native_sequence := word_of_int seq\<rparr>, t_raw_side := side, t_raw_type := ty,
          t_primary_order_id := seq, t_action := TickAction_kAdd\<rparr>)))) = Inr t4"
    and price: "load_tick_price (LoadDecimal64Raw ?body 30 4) t4 = Inr t5"
    and lp: "sz_limit_price (sz_order_enums t5) = Inr t6" and r: "r = finish_tick cat t6"
    unfolding DecodeShenzhenOrder_def Let_def
    by (simp only: not_le [symmetric] if_False not_True_eq_False simp_thms)
      (elim rbind_InrE, clarsimp simp: return_iff)
  let ?t1 = "?t0\<lparr>t_common := common\<lparr>c_channel := channel, c_native_sequence := word_of_int seq\<rparr>,
      t_raw_side := side, t_raw_type := ty, t_primary_order_id := seq, t_action := TickAction_kAdd\<rparr>"
  let ?t2 = "tick_raw_quantity quantity (tick_valid kTickPrimaryOrderIdValid ?t1)"
  let ?t3 = "tick_when (0 \<le> quantity) (tick_valid kTickQuantityValid) ?t2"
  have b1: "bare ?t1" using bare_default by (simp add: bare_def)
  have "\<not> si_valid (t_quantity (tick_valid kTickPrimaryOrderIdValid ?t1))" using b1 by (simp add: bare_def)
  note q = tick_raw_quantity_facts [OF LoadI64_Some_range [OF qty] this]
  have "flags_justified ?t1" using b1 by (simp add: bare_def flags_justified_def has_def flag_values)
  then have "flags_justified (tick_when True (tick_valid kTickPrimaryOrderIdValid) ?t1)"
    by (rule flags_valid) (use seq(2) in simp_all)
  then have j1: "flags_justified (tick_valid kTickPrimaryOrderIdValid ?t1)" by (simp add: tick_when_def)
  have h2: "has f ?t2 \<longleftrightarrow> kTickChannelHistoryValid AND f \<noteq> 0 \<or> kTickPrimaryOrderIdValid AND f \<noteq> 0" for f
    unfolding has_same [OF q(5)] has_simps using b1 by (simp add: has_def bare_def)
  have "flags_justified ?t2"
    unfolding flags_justified_def h2 using q(7) seq(2) by (simp add: flag_values)
  then have j3: "flags_justified ?t3" by (rule flags_valid) (use q(8) in simp_all)
  have h3: "\<not> has kTickExchangeTimeValid ?t3" "\<not> has kTickPriceValid ?t3" "\<not> has kTickSideValid ?t3"
    "\<not> has kTickOrderTypeValid ?t3" "has kTickChannelHistoryValid ?t3"
    unfolding tick_when_simps h2 by (simp_all add: flag_values)
  from tick_exchange_time_Inr [OF time] obtain ok' w q4 ns where t4: "t4 = set_exchange_time ok' w q4 ns ?t3"
    by blast
  note x4 = set_exchange_time_facts [where ok = ok' and raw = w and q = q4 and ns = ns and t = ?t3, folded t4]
  have h4: "\<not> has kTickPriceValid t4" "\<not> has kTickSideValid t4" "\<not> has kTickOrderTypeValid t4"
    "has kTickChannelHistoryValid t4"
    using h3 unfolding x4(7) by (simp_all add: flag_values)
  have "t_price t4 = default_decimal" using x4(2) q(3) b1 by (simp add: bare_def)
  then have "\<forall>q q' d. LoadDecimal64Raw ?body 30 4 q (t_price t4) = Inr (q', d) \<longrightarrow> \<not> fd_p6_valid d"
    using raw_decimal_unset(2) by metis
  note l = load_price_step [OF price this x4(10) [OF j3 h3(1)] h4(1)]
  from l(1) obtain q5 d5 where t5: "t5 = t4\<lparr>t_common := (t_common t4)\<lparr>c_quality_flags := q5\<rparr>, t_price := d5\<rparr>"
    "\<not> fd_p6_valid d5" by blast
  have h5: "has f t5 = has f t4" for f by (rule has_same) (simp add: t5)
  note e = sz_order_enums_wf [OF l(2), unfolded h5, OF h4(2,3)]
  have "\<not> fd_p6_valid (t_price (sz_order_enums t5))" "\<not> has kTickPriceValid (sz_order_enums t5)"
    using e(3,6) t5(2) h4(1) by (simp_all add: t5(1))
  note p = sz_limit_price_wf [OF lp this(1) e(1) this(2)]
  have "core t5 = core t4" by (simp add: t5(1))
  then have c6: "core t6 = core ?t1" using p(2) e(2) x4(1) q(1) by simp
  have "t_amount t6 = default_decimal" "scaled_wf (t_quantity t6)"
    using p(4,5) e(4,5) x4(3,4) q(2,4) b1 by (simp_all add: t5(1) bare_def)
  then have w6: "tick_wf t6" using p e(7) h4(4) by (simp add: tick_wf_def)
  have core_r: "core (td_tick r) = core (default_tick\<lparr>t_common := common\<lparr>c_native_sequence := word_of_int seq,
          c_channel := channel\<rparr>\<rparr>)"
    using c6 finish_tick_facts(1) [of cat t6] by (simp add: r core_def)
  have wf_r: "tick_wf (td_tick r)" using w6 finish_tick_facts(2) [of cat t6] by (simp add: r)
  have common: "t_common ?t0 = InitializeCommon message trade_date Market_kShenzhen
      CanonicalKind_kShenzhenOrder default_common" by (simp add: default_tick_def)
  note post = tick_post_core [OF ident [unfolded common] ok lim core_r
      good_seq_of_int(1) [OF seq(2) LoadI64_Some_range [OF seq(1)]] wf_r]
  show "\<exists>seq channel. LoadUnsigned ?body 0 = Some channel \<and> LoadI64 ?body 4 = Some seq \<and> 0 < seq \<and>
      tick_post message trade_date Market_kShenzhen CanonicalKind_kShenzhenOrder
        channel (word_of_int seq) (td_tick r)"
    using seq channel post(1) by blast
  show "ranges_ok sizeof_Order300192_v2 (length ?body) rs'" by (rule post(2))
qed

end
