(* ===== verification/Decoder_Wire.thy ===== *)
theory Decoder_Wire
  imports Decoder_Tick_Facts
begin

text \<open>
  The wire format of a Shenzhen order, written out, and the decoder run on it: every field of
  the order comes back.
\<close>

section \<open>Loads from a written body\<close>

lemma LoadI64_at:
  assumes "drop off body = le_bytes 8 (unat (word_of_int x :: u64)) @ rest" and "in_i64 x"
  shows "LoadI64 body off = Some x"
proof -
  have "LoadUnsigned body off = Some (word_of_int x :: u64)"
    by (rule LoadUnsigned_le_bytes [of _ _ _ rest]) (use assms(1) in simp_all)
  moreover have "sint (word_of_int x :: u64) = x"
    using assms(2) by (simp add: int_word_sint in_i64_def I64_MIN_def I64_MAX_def)
  ultimately show ?thesis by (simp add: LoadI64_def)
qed

definition in_i32 :: "int \<Rightarrow> bool" where
  "in_i32 x \<longleftrightarrow> I32_MIN \<le> x \<and> x < - I32_MIN"

lemma LoadI32_at:
  assumes "drop off body = le_bytes 4 (unat (word_of_int x :: u32)) @ rest" and "in_i32 x"
  shows "LoadI32 body off = Some x"
proof -
  have "LoadUnsigned body off = Some (word_of_int x :: u32)"
    by (rule LoadUnsigned_le_bytes [of _ _ _ rest]) (use assms(1) in simp_all)
  moreover have "sint (word_of_int x :: u32) = x"
    using assms(2) by (simp add: int_word_sint in_i32_def I32_MIN_def)
  ultimately show ?thesis by (simp add: LoadI32_def)
qed

lemma LoadU16_at:
  assumes "drop off body = le_bytes 2 n @ rest" and "n < 65536"
  shows "LoadUnsigned body off = Some (of_nat n :: u16)"
proof -
  have "unat (of_nat n :: u16) = n" using assms(2) by (simp add: unat_of_nat take_bit_eq_mod)
  then show ?thesis by (intro LoadUnsigned_le_bytes [of _ _ _ rest]) (use assms(1) in simp_all)
qed

lemma LoadU32_at:
  assumes "drop off body = le_bytes 4 n @ rest" and "n < 4294967296"
  shows "LoadUnsigned body off = Some (of_nat n :: u32)"
proof -
  have "unat (of_nat n :: u32) = n" using assms(2) by (simp add: unat_of_nat take_bit_eq_mod)
  then show ?thesis by (intro LoadUnsigned_le_bytes [of _ _ _ rest]) (use assms(1) in simp_all)
qed

section \<open>Reading a written text\<close>

text \<open>A text descriptor: the length and the offset of the text relative to the descriptor.\<close>

definition text_descriptor :: "nat \<Rightarrow> nat \<Rightarrow> byte list" where
  "text_descriptor n rel = le_bytes 2 n @ le_bytes 4 rel"

lemma length_text_descriptor [simp]: "length (text_descriptor n rel) = 6"
  by (simp add: text_descriptor_def)

lemma ReadText_at:
  assumes desc: "drop off body = text_descriptor (length t) rel @ rest"
    and text_at: "drop (off + rel) body = t @ rest'"
    and "t \<noteq> []" and "length t \<le> m" and "m < 65536" and "IsPrintableAscii t"
    and "6 \<le> rel" and "rel < 4294967296" and "fixed \<le> off + rel" and "fixed \<le> length body"
    and "length body < 4294967296"
    and free: "list_all (\<lambda>(b, e). e \<le> off + rel) (rs_ranges rs)" and "rs_protect rs"
  shows "ReadText body off fixed m True rs
    = Inr (t, rs\<lparr>rs_ranges := rs_ranges rs @ [(off + rel, off + rel + length t)]\<rparr>)"
proof -
  have d2: "drop (off + 2) body = le_bytes 4 rel @ rest"
    using arg_cong [OF desc, of "drop 2"] by (simp add: text_descriptor_def add.commute)
  have L: "LoadUnsigned body off = Some (of_nat (length t) :: u16)"
    "LoadUnsigned body (off + 2) = Some (of_nat rel :: u32)"
    by (rule LoadU16_at [where rest = "le_bytes 4 rel @ rest"]; use assms in \<open>simp add: text_descriptor_def\<close>)
      (rule LoadU32_at [OF d2 assms(8)])
  have u: "unat (of_nat (length t) :: u16) = length t" "unat (of_nat rel :: u32) = rel"
    using assms(4,5,8) by (simp_all add: unat_of_nat take_bit_eq_mod)
  have "length (drop (off + rel) body) = length t + length rest'" using text_at by simp
  then have len: "off + rel + length t \<le> length body" using assms(3) by (cases t) auto
  have sub: "subspan body (off + rel) (length t) = t" using text_at by (simp add: subspan_def)
  have "\<not> list_ex (\<lambda>(b, e). off + rel < e \<and> b < off + rel + length t) (rs_ranges rs)"
    using free by (auto simp: list_ex_iff list_all_iff)
  then have P: "ProtectDynamicRange (off + rel) (length t) rs
      = Inr (rs\<lparr>rs_ranges := rs_ranges rs @ [(off + rel, off + rel + length t)]\<rparr>)"
    using len assms(3,11,13) by (simp add: ProtectDynamicRange_def Let_def SIZE_MAX_def)
  have "rel \<le> SIZE_MAX - off" using len assms(11) by (simp add: SIZE_MAX_def)
  then show ?thesis
    unfolding ReadText_def L need_def option.case rbind_simps Let_def u sub
    using assms(3,4,6,7,9,10) len P by simp
qed


section \<open>A Shenzhen order and its bytes\<close>

record SzOrder =
  so_channel :: u32
  so_sequence :: int
  so_stream :: "byte list"
  so_security :: "byte list"
  so_source :: "byte list"
  so_price :: int
  so_quantity :: int
  so_side :: int
  so_time :: u32
  so_type :: int

text \<open>
  The 58 fixed bytes of \<open>Order300192_v2\<close> and the three texts behind them; a text offset counts
  from the descriptor (at 12, 18 and 24).
\<close>

definition sz_order_bytes :: "SzOrder \<Rightarrow> byte list" where
  "sz_order_bytes o' =
     le_bytes 4 (unat (so_channel o')) @ le_bytes 8 (unat (word_of_int (so_sequence o') :: u64)) @
     text_descriptor (length (so_stream o')) 46 @
     text_descriptor (length (so_security o')) (40 + length (so_stream o')) @
     text_descriptor (length (so_source o')) (34 + length (so_stream o') + length (so_security o')) @
     le_bytes 8 (unat (word_of_int (so_price o') :: u64)) @
     le_bytes 8 (unat (word_of_int (so_quantity o') :: u64)) @
     le_bytes 4 (unat (word_of_int (so_side o') :: u32)) @ le_bytes 4 (unat (so_time o')) @
     le_bytes 4 (unat (word_of_int (so_type o') :: u32)) @
     so_stream o' @ so_security o' @ so_source o'"

text \<open>What an exchange may put on the wire, and what the decoder keeps.\<close>

definition wire_text_ok :: "nat \<Rightarrow> byte list \<Rightarrow> bool" where
  "wire_text_ok m t \<longleftrightarrow> t \<noteq> [] \<and> length t \<le> m \<and> IsPrintableAscii t"

definition sz_order_ok :: "nat \<Rightarrow> SzOrder \<Rightarrow> bool" where
  "sz_order_ok m o' \<longleftrightarrow> 0 < so_sequence o' \<and> in_i64 (so_sequence o') \<and>
     wire_text_ok m (so_stream o') \<and> wire_text_ok m (so_security o') \<and> wire_text_ok m (so_source o') \<and>
     in_i64 (so_price o') \<and> in_i64 (so_quantity o') \<and> in_i32 (so_side o') \<and> in_i32 (so_type o') \<and>
     (so_type o' = 50 \<and> 0 < so_price o' \<longrightarrow> in_i64 (so_price o' * 100))"

text \<open>The order a canonical tick speaks of.\<close>

definition order_of_tick :: "CanonicalTick \<Rightarrow> SzOrder" where
  "order_of_tick t = (let c = t_common t; i = c_identity c in
     \<lparr>so_channel = c_channel c, so_sequence = sint (c_native_sequence c),
      so_stream = take (unat (c_md_stream_id_size c)) (c_md_stream_id c),
      so_security = take (unat (security_id_size i)) (security_id i),
      so_source = take (unat (security_id_source_size i)) (security_id_source i),
      so_price = fd_raw (t_price t), so_quantity = si_raw (t_quantity t), so_side = t_raw_side t,
      so_time = c_exchange_time_raw c, so_type = t_raw_type t\<rparr>)"

lemma text_of_copy:
  assumes "length t \<le> kMaximumIdentityBytes"
  shows "take (unat (of_nat (length t) :: u8)) (copy_to t d) = t"
  using assms by (simp add: size_byte take_copy_to)

lemma sz_order_bytes_at:
  fixes o' :: SzOrder
  defines "body \<equiv> sz_order_bytes o'"
  shows "\<exists>r. drop 0 body = le_bytes 4 (unat (so_channel o')) @ r"
    "\<exists>r. drop 4 body = le_bytes 8 (unat (word_of_int (so_sequence o') :: u64)) @ r"
    "\<exists>r. drop 12 body = text_descriptor (length (so_stream o')) 46 @ r"
    "\<exists>r. drop 18 body = text_descriptor (length (so_security o')) (40 + length (so_stream o')) @ r"
    "\<exists>r. drop 24 body = text_descriptor (length (so_source o'))
       (34 + length (so_stream o') + length (so_security o')) @ r"
    "\<exists>r. drop 30 body = le_bytes 8 (unat (word_of_int (so_price o') :: u64)) @ r"
    "\<exists>r. drop 38 body = le_bytes 8 (unat (word_of_int (so_quantity o') :: u64)) @ r"
    "\<exists>r. drop 46 body = le_bytes 4 (unat (word_of_int (so_side o') :: u32)) @ r"
    "\<exists>r. drop 50 body = le_bytes 4 (unat (so_time o')) @ r"
    "\<exists>r. drop 54 body = le_bytes 4 (unat (word_of_int (so_type o') :: u32)) @ r"
    "drop 58 body = so_stream o' @ so_security o' @ so_source o'"
    "length body = 58 + length (so_stream o') + length (so_security o') + length (so_source o')"
  unfolding body_def sz_order_bytes_def by (simp_all del: le_bytes.simps add: text_descriptor_def)


section \<open>The decoder on those bytes\<close>

lemma ReadText_order:
  assumes "wire_text_ok m t" and "m \<le> kMaximumIdentityBytes"
    and "\<exists>r. drop off body = text_descriptor (length t) rel @ r" and "\<exists>r. drop (off + rel) body = t @ r"
    and "6 \<le> rel" and "rel < 200" and "58 \<le> off + rel" and "58 \<le> length body" and "length body < 200"
    and "list_all (\<lambda>(b, e). e \<le> off + rel) R"
  shows "ReadText body off 58 m True \<lparr>rs_protect = True, rs_ranges = R\<rparr>
    = Inr (t, \<lparr>rs_protect = True, rs_ranges = R @ [(off + rel, off + rel + length t)]\<rparr>)"
proof -
  obtain r r' where d: "drop off body = text_descriptor (length t) rel @ r" "drop (off + rel) body = t @ r'"
    using assms(3,4) by blast
  show ?thesis
    using ReadText_at [OF d, of m 58 "\<lparr>rs_protect = True, rs_ranges = R\<rparr>"] assms
    by (simp add: wire_text_ok_def kMaximumIdentityBytes_def)
qed

lemma ReadIdentity_order:
  assumes ok: "sz_order_ok (maximum_text_bytes limits) o'" and lim: "maximum_text_bytes limits \<le> kMaximumIdentityBytes"
  shows "\<exists>rs. ReadIdentity (sz_order_bytes o') Market_kShenzhen 58 12 18 24 limits c DynamicRangeScope =
    Inr (c\<lparr>c_md_stream_id := copy_to (so_stream o') (c_md_stream_id c),
        c_md_stream_id_size := of_nat (length (so_stream o')),
        c_identity := (c_identity c)\<lparr>id_market := Market_kShenzhen,
          security_id := copy_to (so_security o') (security_id (c_identity c)),
          security_id_size := of_nat (length (so_security o')),
          security_id_source := copy_to (so_source o') (security_id_source (c_identity c)),
          security_id_source_size := of_nat (length (so_source o'))\<rparr>\<rparr>, rs)"
proof -
  let ?body = "sz_order_bytes o'" and ?m = "maximum_text_bytes limits"
  let ?a = "length (so_stream o')" and ?b = "length (so_security o')" and ?c = "length (so_source o')"
  note at = sz_order_bytes_at [of o']
  have t: "wire_text_ok ?m (so_stream o')" "wire_text_ok ?m (so_security o')" "wire_text_ok ?m (so_source o')"
    using ok by (simp_all add: sz_order_ok_def)
  then have le: "?a \<le> 32" "?b \<le> 32" "?c \<le> 32"
    using lim by (simp_all add: wire_text_ok_def kMaximumIdentityBytes_def)
  have "drop (18 + (40 + ?a)) ?body = drop ?a (drop 58 ?body)"
    "drop (24 + (34 + ?a + ?b)) ?body = drop (?a + ?b) (drop 58 ?body)"
    unfolding drop_drop by (simp_all add: ac_simps)
  then have d: "\<exists>r. drop (12 + 46) ?body = so_stream o' @ r"
    "\<exists>r. drop (18 + (40 + ?a)) ?body = so_security o' @ r"
    "\<exists>r. drop (24 + (34 + ?a + ?b)) ?body = so_source o' @ r"
    unfolding at(11) using at(11) by simp_all
  have r1: "ReadText ?body 12 58 ?m True DynamicRangeScope
      = Inr (so_stream o', \<lparr>rs_protect = True, rs_ranges = [(58, 58 + ?a)]\<rparr>)"
    using ReadText_order [OF t(1) lim at(3) d(1), of "[]"] le at(12) by (simp add: DynamicRangeScope_def)
  have r2: "ReadText ?body 18 58 ?m True \<lparr>rs_protect = True, rs_ranges = [(58, 58 + ?a)]\<rparr>
      = Inr (so_security o', \<lparr>rs_protect = True, rs_ranges = [(58, 58 + ?a), (58 + ?a, 58 + ?a + ?b)]\<rparr>)"
    using ReadText_order [OF t(2) lim at(4) d(2), of "[(58, 58 + ?a)]"] le at(12) by simp
  have r3: "ReadText ?body 24 58 ?m True
        \<lparr>rs_protect = True, rs_ranges = [(58, 58 + ?a), (58 + ?a, 58 + ?a + ?b)]\<rparr>
      = Inr (so_source o', \<lparr>rs_protect = True, rs_ranges = [(58, 58 + ?a), (58 + ?a, 58 + ?a + ?b),
          (58 + ?a + ?b, 58 + ?a + ?b + ?c)]\<rparr>)"
    using ReadText_order [OF t(3) lim at(5) d(3), of "[(58, 58 + ?a), (58 + ?a, 58 + ?a + ?b)]"] le at(12) by simp
  show ?thesis
    by (rule exI) (simp add: ReadIdentity_def read_optional_text_def SIZE_MAX_def r1 r2 r3 CopyText_def Let_def)
qed

lemma order_of_tick_simps [simp]:
  "order_of_tick (tick_quality q t) = order_of_tick t" "order_of_tick (tick_valid f t) = order_of_tick t"
  "order_of_tick (t\<lparr>t_side := s\<rparr>) = order_of_tick t" "order_of_tick (t\<lparr>t_order_type := ot\<rparr>) = order_of_tick t"
  by (simp_all add: order_of_tick_def tick_quality_def tick_valid_def Let_def)

lemma tick_when_order [simp]:
  "order_of_tick (tick_when P f t) = (if P then order_of_tick (f t) else order_of_tick t)"
  by (simp add: tick_when_def)

lemma sz_order_enums_simps [simp]:
  "order_of_tick (sz_order_enums t) = order_of_tick t" "t_price (sz_order_enums t) = t_price t"
  "t_order_type (sz_order_enums t) = DecodeSzOrderType (t_raw_type t)"
  by (simp_all add: sz_order_enums_def Let_def tick_quality_def tick_valid_def order_of_tick_def)

lemma normalize_price_some:
  assumes "fd_source_scale (t_price t) \<le> 6"
    and "fd_raw_valid (t_price t) \<Longrightarrow> 0 < fd_raw (t_price t) \<Longrightarrow>
      in_i64 (fd_raw (t_price t) * 10 ^ (6 - fd_source_scale (t_price t)))"
  shows "\<exists>t'. normalize_price t = Inr t' \<and> order_of_tick t' = order_of_tick t"
  using assms NormalizeP6_iff [of "t_price t"]
  by (auto simp: normalize_price_def Let_def) (simp add: order_of_tick_def)

lemma finish_tick_order [simp]: "order_of_tick (td_tick (finish_tick cat t)) = order_of_tick t"
proof -
  obtain b c where a: "ApplyCatalog cat (t_common t) = (b, c)" by (cases "ApplyCatalog cat (t_common t)")
  from ApplyCatalog_eq(2) [OF a] obtain q x y where
    c: "c = (t_common t)\<lparr>c_quality_flags := q, c_instrument_id := x, c_instrument_ordinal := y\<rparr>" by blast
  show ?thesis by (simp add: finish_tick_def a order_of_tick_def c Let_def)
qed


definition sz_order_message :: "u32 \<Rightarrow> u64 \<Rightarrow> u64 \<Rightarrow> u64 \<Rightarrow> SzOrder \<Rightarrow> OwnedMessageView" where
  "sz_order_message local_time seq ingress now o' =
     \<lparr>mv_header = \<lparr>head_size = 23, message_size = of_nat (23 + length (sz_order_bytes o')), encoding = 1,
        hdr_key = mk_key 6 101 33, local_time_raw = local_time, vendor_sequence_id = seq\<rparr>,
      mv_ingress_sequence = ingress, mv_receive_monotonic_ns = now, mv_body = sz_order_bytes o'\<rparr>"

lemma order_quantity:
  "order_of_tick (tick_raw_quantity raw t) = (order_of_tick t)\<lparr>so_quantity := raw\<rparr>"
  "t_price (tick_raw_quantity raw t) = t_price t"
  by (simp_all add: tick_raw_quantity_def Let_def order_of_tick_def tick_quality_def)

lemma order_exchange_time:
  assumes "LoadUnsigned body off = Some raw"
  shows "\<exists>t'. tick_exchange_time body off t = Inr t' \<and> order_of_tick t' = (order_of_tick t)\<lparr>so_time := raw\<rparr> \<and>
    t_price t' = t_price t"
proof -
  obtain P q ns where d: "DecodeTime raw (c_quality_flags (t_common t)) (c_exchange_time_ns (t_common t))
      = (P, q, ns)" by (cases "DecodeTime raw (c_quality_flags (t_common t)) (c_exchange_time_ns (t_common t))")
  show ?thesis
    using assms by (cases P) (simp_all add: tick_exchange_time_def need_def d order_of_tick_def tick_valid_def Let_def)
qed

lemma order_price:
  assumes "LoadI64 body off = Some raw" and "t_price t = default_decimal"
  shows "\<exists>t'. load_tick_price (LoadDecimal64Raw body off scale) t = Inr t' \<and>
    order_of_tick t' = (order_of_tick t)\<lparr>so_price := raw\<rparr> \<and> fd_source_scale (t_price t') = scale"
  using assms
  by (cases "raw = kNullI64") (simp_all add: load_tick_price_def LoadDecimal64Raw_def need_def order_of_tick_def Let_def)

lemma sz_limit_price_some:
  assumes "fd_source_scale (t_price t) = 4" and "so_type (order_of_tick t) = t_raw_type t"
    and "t_raw_type t = 50 \<Longrightarrow> 0 < fd_raw (t_price t) \<Longrightarrow> in_i64 (fd_raw (t_price t) * 100)"
  shows "\<exists>t'. sz_limit_price (sz_order_enums t) = Inr t' \<and> order_of_tick t' = order_of_tick t"
proof (cases "t_raw_type t = 50")
  case True
  then have "t_order_type (sz_order_enums t) = OrderType_kLimit" by (simp add: DecodeSzOrderType_def)
  moreover obtain t' where "normalize_price (sz_order_enums t) = Inr t'" "order_of_tick t' = order_of_tick t"
    using normalize_price_some [of "sz_order_enums t"] assms(1,3) True by auto
  ultimately show ?thesis by (simp add: sz_limit_price_def)
next
  case False
  then have "t_order_type (sz_order_enums t) \<noteq> OrderType_kLimit" by (simp add: DecodeSzOrderType_def)
  then show ?thesis by (simp add: sz_limit_price_def)
qed

lemma sz_order_decodes:
  assumes ok: "sz_order_ok (maximum_text_bytes limits) o'" and lim: "maximum_text_bytes limits \<le> kMaximumIdentityBytes"
    and key: "hdr_key (mv_header message) = mk_key 6 101 33" and body: "mv_body message = sz_order_bytes o'"
  shows "\<exists>r rs. decode_tick_scoped message trade_date limits cat = Inr (r, rs) \<and> order_of_tick (td_tick r) = o'"
proof -
  let ?c0 = "InitializeCommon message trade_date Market_kShenzhen CanonicalKind_kShenzhenOrder default_common"
  note at = sz_order_bytes_at [of o']
  obtain common rs where id: "ReadIdentity (sz_order_bytes o') Market_kShenzhen 58 12 18 24 limits ?c0 DynamicRangeScope
      = Inr (common, rs)"
    and common: "common = ?c0\<lparr>c_md_stream_id := copy_to (so_stream o') (c_md_stream_id ?c0),
        c_md_stream_id_size := of_nat (length (so_stream o')),
        c_identity := (c_identity ?c0)\<lparr>id_market := Market_kShenzhen,
          security_id := copy_to (so_security o') (security_id (c_identity ?c0)),
          security_id_size := of_nat (length (so_security o')),
          security_id_source := copy_to (so_source o') (security_id_source (c_identity ?c0)),
          security_id_source_size := of_nat (length (so_source o'))\<rparr>\<rparr>"
    using ReadIdentity_order [OF ok lim, of ?c0] by blast
  have loads: "LoadUnsigned (sz_order_bytes o') 0 = Some (so_channel o')"
    "LoadUnsigned (sz_order_bytes o') 50 = Some (so_time o')"
    "LoadI64 (sz_order_bytes o') 4 = Some (so_sequence o')"
    "LoadI64 (sz_order_bytes o') 30 = Some (so_price o')"
    "LoadI64 (sz_order_bytes o') 38 = Some (so_quantity o')"
    "LoadI32 (sz_order_bytes o') 46 = Some (so_side o')"
    "LoadI32 (sz_order_bytes o') 54 = Some (so_type o')"
    using at(1,2,6-10) ok
    by (auto simp: sz_order_ok_def simp del: drop0 intro: LoadUnsigned_le_bytes LoadI64_at LoadI32_at)
  let ?t1 = "tick_valid kTickPrimaryOrderIdValid
      (default_tick\<lparr>t_common := common\<lparr>c_channel := so_channel o', c_native_sequence := word_of_int (so_sequence o')\<rparr>,
        t_raw_side := so_side o', t_raw_type := so_type o', t_primary_order_id := so_sequence o', t_action := TickAction_kAdd\<rparr>)"
  let ?t3 = "tick_when (so_quantity o' \<ge> 0) (tick_valid kTickQuantityValid) (tick_raw_quantity (so_quantity o') ?t1)"
  have texts: "length (so_stream o') \<le> kMaximumIdentityBytes" "length (so_security o') \<le> kMaximumIdentityBytes"
    "length (so_source o') \<le> kMaximumIdentityBytes"
    using ok lim by (auto simp: sz_order_ok_def wire_text_ok_def)
  have seq: "sint (word_of_int (so_sequence o') :: u64) = so_sequence o'"
    using ok by (simp add: int_word_sint sz_order_ok_def in_i64_def I64_MIN_def I64_MAX_def)
  have time0: "c_exchange_time_raw ?c0 = 0"
    using InitializeCommon_core [of message trade_date Market_kShenzhen CanonicalKind_kShenzhenOrder default_common]
    by (auto simp: default_common_def)
  have o3: "order_of_tick ?t3 = o'\<lparr>so_price := 0, so_time := 0\<rparr>"
    by (simp add: order_quantity, rule SzOrder.equality)
      (simp_all add: order_of_tick_def Let_def common text_of_copy texts seq default_tick_def default_decimal_def time0)
  have p3: "t_price ?t3 = default_decimal"
    by (simp add: order_quantity tick_when_def tick_valid_def default_tick_def)
  have same: "o'\<lparr>so_price := 0, so_time := 0\<rparr>\<lparr>so_time := so_time o'\<rparr> = o'\<lparr>so_price := 0\<rparr>"
    "o'\<lparr>so_price := 0\<rparr>\<lparr>so_price := so_price o'\<rparr> = o'" by (rule SzOrder.equality; simp)+
  have tc: "t_common default_tick = default_common" by (simp add: default_tick_def)
  obtain t4 where t4: "tick_exchange_time (sz_order_bytes o') 50 ?t3 = Inr t4"
    "order_of_tick t4 = o'\<lparr>so_price := 0\<rparr>" "t_price t4 = default_decimal"
    using order_exchange_time [OF loads(2), of ?t3] unfolding o3 p3 same(1) by blast
  obtain t5 where t5: "load_tick_price (LoadDecimal64Raw (sz_order_bytes o') 30 4) t4 = Inr t5"
    "order_of_tick t5 = o'" "fd_source_scale (t_price t5) = 4"
    using order_price [OF loads(4) t4(3), of 4] unfolding t4(2) same(2) by blast
  have f: "t_raw_type t5 = so_type o'" "fd_raw (t_price t5) = so_price o'"
    using arg_cong [OF t5(2), of so_type] arg_cong [OF t5(2), of so_price]
    by (simp_all add: order_of_tick_def Let_def)
  obtain t6 where t6: "sz_limit_price (sz_order_enums t5) = Inr t6" "order_of_tick t6 = o'"
    using sz_limit_price_some [OF t5(3)] t5(2) f ok by (metis sz_order_ok_def)
  have "DecodeShenzhenOrder message trade_date limits cat DynamicRangeScope = Inr (finish_tick cat t6, rs)"
    unfolding DecodeShenzhenOrder_def Let_def body sizeof_Order300192_v2_def tc
    using at(12) id t4(1) t5(1) t6(1) ok
    by (simp add: loads need_def positive_def sz_order_ok_def)
  moreover have "ClassifyMessage (hdr_key (mv_header message)) = MessageClass_kShenzhenOrder"
    by (simp add: key ClassifyMessage_def mk_key_def)
  ultimately show ?thesis using t6(2) by (simp add: decode_tick_scoped_def)
qed

end
