(* ===== verification/Decoder_Claims.thy ===== *)
theory Decoder_Claims
  imports Decoder_Wire
begin

text \<open>
  The properties of the tick decoder: what a decoded tick promises and how it agrees with the
  routing descriptor, where the bytes it used lie, exactness of decimals and times, its errors,
  its agreement with the catalog, and the round trip of a Shenzhen order.
\<close>

section \<open>A concrete message for the witnesses\<close>

definition demo_order :: SzOrder where
  "demo_order = \<lparr>so_channel = 2011, so_sequence = 1, so_stream = [48, 49, 49],
     so_security = [48, 48, 48, 48, 48, 49], so_source = [49, 48, 50], so_price = 105000,
     so_quantity = 100, so_side = 49, so_time = 93000000, so_type = 50\<rparr>"

definition demo_message :: OwnedMessageView where
  "demo_message = sz_order_message 93000010 7 1 5 demo_order"

definition demo_limits :: DecoderLimits where
  "demo_limits = \<lparr>maximum_text_bytes = 16, maximum_depth_items = 10, maximum_queue_items = 10\<rparr>"

lemma demo_limits_simps [simp]: "maximum_text_bytes demo_limits = 16" "16 \<le> kMaximumIdentityBytes"
  by (simp_all add: demo_limits_def kMaximumIdentityBytes_def)

lemma demo_order_ok: "sz_order_ok 16 demo_order"
  by (simp add: sz_order_ok_def demo_order_def wire_text_ok_def IsPrintableAscii_def in_i32_def
      in_i64_def I32_MIN_def I64_MIN_def I64_MAX_def)

lemma demo_message_simps:
  "hdr_key (mv_header demo_message) = mk_key 6 101 33" "mv_body demo_message = sz_order_bytes demo_order"
  by (simp_all add: demo_message_def sz_order_message_def)

lemma demo_decodes: "\<exists>r rs. decode_tick_scoped demo_message 20240102 demo_limits demo_catalog = Inr (r, rs) \<and>
    order_of_tick (td_tick r) = demo_order"
  by (rule sz_order_decodes) (simp_all add: demo_order_ok demo_message_simps)

lemma demo_decoded: "\<exists>r. DecodeTick demo_message 20240102 demo_limits demo_catalog = Inr r"
  using demo_decodes by (auto simp: DecodeTick_def)

section \<open>The decoded tick\<close>

lemma DecodeTick_scoped:
  "DecodeTick message trade_date limits cat = Inr r \<longleftrightarrow>
     (\<exists>rs. decode_tick_scoped message trade_date limits cat = Inr (r, rs))"
  by (auto simp: DecodeTick_def)

lemma decode_tick_scoped_cases:
  assumes "decode_tick_scoped message trade_date limits cat = Inr (r, rs)"
  shows "ClassifyMessage (hdr_key (mv_header message)) = MessageClass_kShanghaiTick \<and>
      DecodeShanghaiTick message trade_date limits cat DynamicRangeScope = Inr (r, rs) \<or>
    ClassifyMessage (hdr_key (mv_header message)) = MessageClass_kShenzhenOrder \<and>
      DecodeShenzhenOrder message trade_date limits cat DynamicRangeScope = Inr (r, rs) \<or>
    ClassifyMessage (hdr_key (mv_header message)) = MessageClass_kShenzhenTransaction \<and>
      DecodeShenzhenTransaction message trade_date limits cat DynamicRangeScope = Inr (r, rs)"
  using assms by (auto simp: decode_tick_scoped_def split: MessageClass.splits)

text \<open>The size of the fixed part of a tick message of a class.\<close>

definition tick_fixed_bytes :: "MessageClass \<Rightarrow> nat" where
  "tick_fixed_bytes c = (case c of MessageClass_kShanghaiTick \<Rightarrow> sizeof_NGTSTick
     | MessageClass_kShenzhenOrder \<Rightarrow> sizeof_Order300192_v2
     | MessageClass_kShenzhenTransaction \<Rightarrow> sizeof_Transaction300191_v2 | _ \<Rightarrow> 0)"

lemma decode_tick_post:
  assumes D: "decode_tick_scoped message trade_date limits cat = Inr (r, rs)"
    and lim: "maximum_text_bytes limits \<le> kMaximumIdentityBytes"
  shows "\<exists>market channel seq kind.
      ExtractTickNativeDescriptor (ClassifyMessage (hdr_key (mv_header message))) (mv_body message)
        = Some (market, channel, seq) \<and>
      tick_post message trade_date market kind channel seq (td_tick r)"
    and "ranges_ok (tick_fixed_bytes (ClassifyMessage (hdr_key (mv_header message)))) (length (mv_body message)) rs"
proof -
  have "(\<exists>market channel seq kind.
      ExtractTickNativeDescriptor (ClassifyMessage (hdr_key (mv_header message))) (mv_body message)
        = Some (market, channel, seq) \<and>
      tick_post message trade_date market kind channel seq (td_tick r)) \<and>
    ranges_ok (tick_fixed_bytes (ClassifyMessage (hdr_key (mv_header message)))) (length (mv_body message)) rs"
    using decode_tick_scoped_cases [OF D]
  proof (elim disjE conjE)
    assume c: "ClassifyMessage (hdr_key (mv_header message)) = MessageClass_kShanghaiTick"
      and d: "DecodeShanghaiTick message trade_date limits cat DynamicRangeScope = Inr (r, rs)"
    from DecodeShanghaiTick_post [OF d ranges_ok_scope lim] show ?thesis
      by (auto simp: c ExtractTickNativeDescriptor_def tick_fixed_bytes_def)
  next
    assume c: "ClassifyMessage (hdr_key (mv_header message)) = MessageClass_kShenzhenOrder"
      and d: "DecodeShenzhenOrder message trade_date limits cat DynamicRangeScope = Inr (r, rs)"
    from DecodeShenzhenOrder_post [OF d ranges_ok_scope lim] show ?thesis
      by (auto simp: c ExtractTickNativeDescriptor_def tick_fixed_bytes_def)
  next
    assume c: "ClassifyMessage (hdr_key (mv_header message)) = MessageClass_kShenzhenTransaction"
      and d: "DecodeShenzhenTransaction message trade_date limits cat DynamicRangeScope = Inr (r, rs)"
    from DecodeShenzhenTransaction_post [OF d ranges_ok_scope lim] show ?thesis
      by (auto simp: c ExtractTickNativeDescriptor_def tick_fixed_bytes_def)
  qed
  then show "\<exists>market channel seq kind.
      ExtractTickNativeDescriptor (ClassifyMessage (hdr_key (mv_header message))) (mv_body message)
        = Some (market, channel, seq) \<and>
      tick_post message trade_date market kind channel seq (td_tick r)"
    "ranges_ok (tick_fixed_bytes (ClassifyMessage (hdr_key (mv_header message)))) (length (mv_body message)) rs"
    by blast+
qed


lemma decode_tick_finish:
  assumes "decode_tick_scoped message trade_date limits cat = Inr (r, rs)"
  shows "\<exists>t. r = finish_tick cat t"
  using decode_tick_scoped_cases [OF assms]
proof (elim disjE conjE)
  assume "DecodeShanghaiTick message trade_date limits cat DynamicRangeScope = Inr (r, rs)"
  then show ?thesis unfolding DecodeShanghaiTick_def Let_def
    by (simp only: if_split [of "\<lambda>x. x = _"]) (auto elim!: rbind_InrE)
next
  assume "DecodeShenzhenOrder message trade_date limits cat DynamicRangeScope = Inr (r, rs)"
  then show ?thesis unfolding DecodeShenzhenOrder_def Let_def by (auto elim!: rbind_InrE split: if_splits)
next
  assume "DecodeShenzhenTransaction message trade_date limits cat DynamicRangeScope = Inr (r, rs)"
  then show ?thesis unfolding DecodeShenzhenTransaction_def Let_def by (auto elim!: rbind_InrE split: if_splits)
qed


section \<open>Which errors\<close>

definition errors_in :: "DecodeError set \<Rightarrow> (DecodeError + 'a) \<Rightarrow> bool" where
  "errors_in E m \<longleftrightarrow> (\<forall>e. m = Inl e \<longrightarrow> e \<in> E)"

definition tick_errors :: "DecodeError set" where
  "tick_errors = {kInvalidOffset, kRangeOverlap, kCountExceeded, kInvalidText, kInvalidNativeSequence,
     kFixedPointOverflow}"

named_theorems errors \<open>the errors of a decoding step\<close>

lemma errors_in_Inr [errors]: "errors_in E (Inr x)"
  by (simp add: errors_in_def)

lemma errors_in_Inl: "errors_in E (Inl e) \<longleftrightarrow> e \<in> E"
  by (simp add: errors_in_def)

lemma errors_in_rbind [errors]:
  assumes "errors_in E m" and "\<And>x. errors_in E (f x)"
  shows "errors_in E (rbind m f)"
  using assms by (cases m) (auto simp: errors_in_def)

lemma errors_in_if [errors]: "errors_in E a \<Longrightarrow> errors_in E b \<Longrightarrow> errors_in E (if P then a else b)"
  by simp

lemma errors_in_prod [errors]: "(\<And>x y. errors_in E (f x y)) \<Longrightarrow> errors_in E (case p of (x, y) \<Rightarrow> f x y)"
  by (cases p) simp

lemma errors_in_need_some [errors]: "m \<noteq> None \<Longrightarrow> errors_in E (need e m)"
  by (cases m) (auto simp: need_def errors_in_def)

lemma errors_in_positive [errors]: "errors_in tick_errors (positive m)"
  by (auto simp: positive_def errors_in_def tick_errors_def split: option.splits if_splits)

lemma NormalizeP6_errors [errors]: "errors_in tick_errors (NormalizeP6 d)"
  by (auto simp: NormalizeP6_def errors_in_def tick_errors_def Let_def split: if_splits)

lemma ProtectDynamicRange_errors [errors]: "errors_in tick_errors (ProtectDynamicRange b n rs)"
  by (auto simp: ProtectDynamicRange_def errors_in_def tick_errors_def Let_def split: if_splits)

lemma ReadText_errors [errors]:
  assumes "fixed \<le> length body" and "off + 6 \<le> fixed"
  shows "errors_in tick_errors (ReadText body off fixed m P rs)"
proof -
  have "(LoadUnsigned body off :: u16 option) \<noteq> None" "(LoadUnsigned body (off + 2) :: u32 option) \<noteq> None"
    using assms by (auto simp: LoadUnsigned_None_iff)
  then show ?thesis
    using assms(1) unfolding ReadText_def Let_def
    by (auto intro!: errors simp: errors_in_Inl tick_errors_def [THEN eqset_imp_iff])
qed


lemma loads_some [errors]:
  "off + 2 \<le> length body \<Longrightarrow> (LoadUnsigned body off :: u16 option) \<noteq> None"
  "off + 4 \<le> length body \<Longrightarrow> (LoadUnsigned body off :: u32 option) \<noteq> None"
  "off + 4 \<le> length body \<Longrightarrow> LoadI32 body off \<noteq> None"
  "off + 8 \<le> length body \<Longrightarrow> LoadI64 body off \<noteq> None"
  by (auto simp: LoadUnsigned_None_iff LoadI32_None_iff LoadI64_None_iff)

lemma read_optional_text_errors [errors]:
  assumes "fixed \<le> length body" and "off = SIZE_MAX \<or> off + 6 \<le> fixed"
  shows "errors_in tick_errors (read_optional_text body off fixed m rs)"
  using assms by (cases "off = SIZE_MAX") (simp_all add: read_optional_text_def errors)

lemma ReadIdentity_errors [errors]:
  assumes "fixed \<le> length body" and "co + 6 \<le> fixed"
    and "so = SIZE_MAX \<or> so + 6 \<le> fixed" and "xo = SIZE_MAX \<or> xo + 6 \<le> fixed"
  shows "errors_in tick_errors (ReadIdentity body market fixed so co xo limits common rs)"
  unfolding ReadIdentity_def Let_def
  using assms by (intro errors; simp)

lemma tick_step_errors [errors]:
  "off + 4 \<le> length body \<Longrightarrow> errors_in tick_errors (tick_exchange_time body off t)"
  "off + 4 \<le> length body \<Longrightarrow> errors_in tick_errors (load_tick_price (LoadDecimal32Raw body off scale) t)"
  "off + 8 \<le> length body \<Longrightarrow> errors_in tick_errors (load_tick_price (LoadDecimal64Raw body off scale) t)"
  "off + 8 \<le> length body \<Longrightarrow> errors_in tick_errors (load_tick_amount (LoadDecimal64Raw body off scale) t)"
  unfolding tick_exchange_time_def load_tick_price_def load_tick_amount_def LoadDecimal32Raw_def
    LoadDecimal64Raw_def Let_def
  by (auto intro!: errors)

lemma tick_body_errors [errors]:
  "errors_in tick_errors (normalize_price t)" "errors_in tick_errors (sh_body ty fl t)"
  "errors_in tick_errors (sz_limit_price t)" "errors_in tick_errors (sz_transaction_body t)"
  unfolding normalize_price_def sh_body_def sh_add_def sh_cancel_def sh_trade_def sh_status_def
    sh_trade_amount_def sz_limit_price_def sz_transaction_body_def sz_trade_def Let_def
  by (auto intro!: errors)





section \<open>The properties\<close>

text \<open>C12. A tick that decodes is sound: its market, channel and sequence are the native position the
  recovery descriptor extracts from the same body, the sequence is positive and within 63 bits,
  every validity flag that is set is justified by the field it speaks of, normalised decimals are
  exact, the identity fits its arrays, and the common block names the message it came from.\<close>

theorem decode_tick_sound:
  assumes "DecodeTick message trade_date limits cat = Inr r"
    and "maximum_text_bytes limits \<le> kMaximumIdentityBytes"
  shows "\<exists>market channel seq kind.
    ExtractTickNativeDescriptor (ClassifyMessage (hdr_key (mv_header message))) (mv_body message)
      = Some (market, channel, seq) \<and>
    tick_post message trade_date market kind channel seq (td_tick r)"
  using assms decode_tick_post(1) unfolding DecodeTick_scoped by blast

theorem decode_tick_sound_witness:
  "\<exists>r market channel seq kind. DecodeTick demo_message 20240102 demo_limits demo_catalog = Inr r \<and>
    ExtractTickNativeDescriptor (ClassifyMessage (hdr_key (mv_header demo_message))) (mv_body demo_message)
      = Some (market, channel, seq) \<and>
    tick_post demo_message 20240102 market kind channel seq (td_tick r)"
proof -
  obtain r where r: "DecodeTick demo_message 20240102 demo_limits demo_catalog = Inr r"
    using demo_decoded ..
  show ?thesis using decode_tick_sound [OF r] r by simp
qed




text \<open>C38. Exact decimals: a valid raw price of scale at most 6 is normalised to raw times the power
  of ten, exactly when that product fits in 64 bits, and to an overflow error otherwise.\<close>

theorem normalize_p6_exact:
  "NormalizeP6 d =
    (if fd_source_scale d > 6 then Inl kFixedPointOverflow
     else if \<not> fd_raw_valid d then Inr d
     else let p6 = fd_raw d * 10 ^ (6 - fd_source_scale d) in
       if I64_MIN \<le> p6 \<and> p6 \<le> I64_MAX then Inr (d\<lparr>fd_p6 := p6, fd_p6_valid := True\<rparr>)
       else Inl kFixedPointOverflow)"
  using NormalizeP6_iff [of d] by (simp add: Let_def in_i64_def) (simp add: NormalizeP6_def)

text \<open>A vendor time HHMMSSmmm is accepted exactly when it encodes a time of day, and then the
  nanoseconds since midnight are that time's; nothing else is accepted, the null time included.\<close>

theorem decode_time_exact:
  "(fst (DecodeTime raw q ns) \<longleftrightarrow>
     (\<exists>h m s ms. h < 24 \<and> m < 60 \<and> s < 60 \<and> ms < 1000 \<and> unat raw = encode_time h m s ms)) \<and>
   (\<forall>h < 24. \<forall>m < 60. \<forall>s < 60. \<forall>ms < 1000.
     DecodeTime (of_nat (encode_time h m s ms)) q ns = (True, q, of_nat (time_ns h m s ms)) \<and>
     time_ns h m s ms < 86400 * 10 ^ 9)"
  using DecodeTime_accepts DecodeTime_encode by (auto simp: time_ns_def)

theorem decode_time_exact_witness:
  "DecodeTime 93000123 0 0 = (True, 0, of_nat (time_ns 9 30 0 123)) \<and> time_ns 9 30 0 123 < 86400 * 10 ^ 9"
proof -
  have "(of_nat (encode_time 9 30 0 123) :: u32) = 93000123" by (simp add: encode_time_def)
  moreover have "DecodeTime (of_nat (encode_time 9 30 0 123)) 0 0 = (True, 0, of_nat (time_ns 9 30 0 123)) \<and>
      time_ns 9 30 0 123 < 86400 * 10 ^ 9"
    by (rule conjunct2 [OF decode_time_exact [of 0 0 0], rule_format, of 9 30 0 123]) simp_all
  ultimately show ?thesis by (simp only:)
qed

section \<open>The catalog of a decoded tick\<close>

definition identity_key :: "ExactIdentity \<Rightarrow> catalog_key" where
  "identity_key i = (id_market i, take (unat (security_id_source_size i)) (security_id_source i),
     take (unat (security_id_size i)) (security_id i))"

lemma finish_tick_catalog:
  fixes cat t
  defines "c \<equiv> t_common (td_tick (finish_tick cat t))"
  shows "case Find cat (fst (identity_key (c_identity c))) (fst (snd (identity_key (c_identity c))))
        (snd (snd (identity_key (c_identity c)))) of
      None \<Rightarrow> \<not> td_catalog_match (finish_tick cat t) \<and>
        c_quality_flags c AND kQualityInstrumentNotInCatalog = kQualityInstrumentNotInCatalog
    | Some m \<Rightarrow> td_catalog_match (finish_tick cat t) \<and> c_instrument_id c = im_instrument_id m \<and>
        c_instrument_ordinal c = im_ordinal m"
proof -
  have absorb: "(x OR f) AND f = f" for x f :: u64 by (simp add: bit.conj_disj_distrib2)
  show ?thesis
  proof (cases "Find cat (id_market (c_identity (t_common t)))
      (take (unat (security_id_source_size (c_identity (t_common t)))) (security_id_source (c_identity (t_common t))))
      (take (unat (security_id_size (c_identity (t_common t)))) (security_id (c_identity (t_common t))))")
    case None
    then show ?thesis by (simp add: c_def finish_tick_def ApplyCatalog_def identity_key_def absorb Let_def)
  next
    case (Some m)
    then show ?thesis by (simp add: c_def finish_tick_def ApplyCatalog_def identity_key_def Let_def)
  qed
qed

text \<open>C34. A decoded tick carries the catalog's answer for its own identity: in a catalog built from a
  list of definitions it is matched exactly when some definition has its market, source and
  security, and then it carries that definition's instrument number and position; otherwise it is
  flagged as not in the catalog.\<close>

theorem decode_tick_catalog:
  assumes "Build ds = Some (Inr cat)" and "DecodeTick message trade_date limits cat = Inr r"
  shows "(td_catalog_match r \<longleftrightarrow> identity_key (c_identity (t_common (td_tick r))) \<in> def_key ` set ds) \<and>
    (td_catalog_match r \<longrightarrow> (\<exists>i < length ds. def_key (ds ! i) = identity_key (c_identity (t_common (td_tick r))) \<and>
       c_instrument_id (t_common (td_tick r)) = idf_instrument_id (ds ! i) \<and>
       c_instrument_ordinal (t_common (td_tick r)) = of_nat i)) \<and>
    (\<not> td_catalog_match r \<longrightarrow> c_quality_flags (t_common (td_tick r)) AND kQualityInstrumentNotInCatalog \<noteq> 0)"
proof -
  from assms(2) obtain t where t: "r = finish_tick cat t"
    using decode_tick_finish unfolding DecodeTick_scoped by blast
  let ?c = "t_common (td_tick r)"
  obtain m s c where k: "identity_key (c_identity ?c) = (m, s, c)" by (metis prod_cases3)
  have q: "kQualityInstrumentNotInCatalog \<noteq> 0" by (simp add: kQualityInstrumentNotInCatalog_def)
  note F = finish_tick_catalog [of cat t, folded t, unfolded k fst_conv snd_conv]
  note B = Build_Find [OF assms(1), of m s c]
  show ?thesis
  proof (cases "Find cat m s c")
    case None
    have "(m, s, c) \<notin> def_key ` set ds"
    proof
      assume "(m, s, c) \<in> def_key ` set ds"
      then obtain i where "i < length ds" "def_key (ds ! i) = (m, s, c)" by (metis image_iff in_set_conv_nth)
      then show False using B None by (metis option.distinct(1))
    qed
    then show ?thesis using F None q unfolding k by simp
  next
    case (Some x)
    then obtain i where i: "i < length ds" "def_key (ds ! i) = (m, s, c)"
      "x = \<lparr>im_instrument_id = idf_instrument_id (ds ! i), im_ordinal = of_nat i\<rparr>"
      using B by metis
    moreover have "(m, s, c) \<in> def_key ` set ds" using i by (metis image_eqI nth_mem)
    ultimately show ?thesis using F Some unfolding k by auto
  qed
qed

theorem decode_tick_catalog_witness:
  "\<exists>r. DecodeTick demo_message 20240102 demo_limits demo_catalog = Inr r \<and> td_catalog_match r \<and>
    (\<exists>i < length demo_definitions. c_instrument_id (t_common (td_tick r)) = idf_instrument_id (demo_definitions ! i) \<and>
       c_instrument_ordinal (t_common (td_tick r)) = of_nat i)"
proof -
  obtain r where r: "DecodeTick demo_message 20240102 demo_limits demo_catalog = Inr r"
    and o': "order_of_tick (td_tick r) = demo_order"
    using demo_decodes DecodeTick_scoped by blast
  have "id_market (c_identity (t_common (td_tick r))) = Market_kShenzhen"
  proof -
    obtain rs where s: "decode_tick_scoped demo_message 20240102 demo_limits demo_catalog = Inr (r, rs)"
      using r unfolding DecodeTick_scoped by blast
    have "ClassifyMessage (hdr_key (mv_header demo_message)) = MessageClass_kShenzhenOrder"
      by (simp add: demo_message_simps ClassifyMessage_def mk_key_def)
    then show ?thesis using decode_tick_post(1) [OF s]
      by (auto simp: ExtractTickNativeDescriptor_def tick_post_def split: option.splits if_splits)
  qed
  then have "identity_key (c_identity (t_common (td_tick r))) = def_key (demo_definitions ! 1)"
    using o' by (auto simp: order_of_tick_def Let_def identity_key_def demo_order_def def_key_def demo_definitions_def
      bytes_of_def)
  moreover have "def_key (demo_definitions ! 1) \<in> def_key ` set demo_definitions"
    by (simp add: demo_definitions_def)
  ultimately show ?thesis using decode_tick_catalog [OF demo_catalog_built r] r by metis
qed

text \<open>C16. Round trip of a Shenzhen order: every order an exchange may send, laid out as the vendor
  structure lays it out with its three texts, decodes, and the decoded tick speaks of exactly
  that order.\<close>

theorem sz_order_roundtrip:
  assumes "sz_order_ok (maximum_text_bytes limits) o'" and "maximum_text_bytes limits \<le> kMaximumIdentityBytes"
  shows "\<exists>r. DecodeTick (sz_order_message local_time seq ingress now o') trade_date limits cat = Inr r \<and>
    order_of_tick (td_tick r) = o'"
  using sz_order_decodes [OF assms, of "sz_order_message local_time seq ingress now o'"]
  unfolding DecodeTick_scoped by (auto simp: sz_order_message_def)

theorem sz_order_roundtrip_witness:
  "\<exists>r. DecodeTick (sz_order_message 93000010 7 1 5 demo_order) 20240102 demo_limits demo_catalog = Inr r \<and>
    order_of_tick (td_tick r) = demo_order"
  by (rule sz_order_roundtrip) (simp_all add: demo_order_ok)

end
