(* ===== verification/Decoder_Snapshots.thy ===== *)
theory Decoder_Snapshots
  imports Decoder_Ticks
begin

text \<open>
  Component \<open>src/decoder.cpp\<close>, snapshot messages: the Shanghai and Shenzhen book snapshots with
  their price levels and order queues, \<open>DecodeSnapshot\<close>, and the admission route of every message
  class.  A chain \<open>if (error == kNone) error = ...\<close> is a list of steps run until the first error.
\<close>

section \<open>Wire sizes\<close>

definition sizeof_SHL2MarketData :: nat where
  "sizeof_SHL2MarketData = 248"

definition sizeof_Snapshot300111_v2 :: nat where
  "sizeof_Snapshot300111_v2 = 224"

section \<open>Steps\<close>

fun run_steps :: "('s \<Rightarrow> 'e + 's) list \<Rightarrow> 's \<Rightarrow> 'e + 's" where
  "run_steps [] s = Inr s"
| "run_steps (f # fs) s = rbind (f s) (run_steps fs)"

definition snap_quality :: "u64 \<Rightarrow> CanonicalSnapshot \<Rightarrow> CanonicalSnapshot" where
  "snap_quality flag s = s\<lparr>s_common := (s_common s)
     \<lparr>c_quality_flags := c_quality_flags (s_common s) OR flag\<rparr>\<rparr>"

text \<open>A field decoder run on a member of the snapshot, with the common quality flags.\<close>

definition snap_field ::
  "(u64 \<Rightarrow> 'v \<Rightarrow> DecodeError + (u64 \<times> 'v)) \<Rightarrow> (CanonicalSnapshot \<Rightarrow> 'v)
     \<Rightarrow> ('v \<Rightarrow> CanonicalSnapshot \<Rightarrow> CanonicalSnapshot) \<Rightarrow> CanonicalSnapshot \<Rightarrow> DecodeError + CanonicalSnapshot" where
  "snap_field load member put s =
    rbind (load (c_quality_flags (s_common s)) (member s)) (\<lambda>(quality, v).
      Inr (put v (s\<lparr>s_common := (s_common s)\<lparr>c_quality_flags := quality\<rparr>\<rparr>)))"

definition snap_exchange_time :: "byte list \<Rightarrow> nat \<Rightarrow> CanonicalSnapshot \<Rightarrow> DecodeError + CanonicalSnapshot" where
  "snap_exchange_time body offset s =
    rbind (need kTruncated (LoadUnsigned body offset :: u32 option)) (\<lambda>exchange_time.
      let (valid, quality, ns) = DecodeTime exchange_time (c_quality_flags (s_common s))
            (c_exchange_time_ns (s_common s)) in
      Inr (s\<lparr>s_common := (s_common s)\<lparr>c_exchange_time_raw := exchange_time,
        c_exchange_time_valid := valid, c_quality_flags := quality, c_exchange_time_ns := ns\<rparr>\<rparr>))"

section \<open>Price levels\<close>

text \<open>The loop over an order queue: every quantity is validated and dropped.\<close>

fun queue_quantities :: "byte list \<Rightarrow> nat \<Rightarrow> nat \<Rightarrow> nat \<Rightarrow> nat \<Rightarrow> bool \<Rightarrow> u64 \<Rightarrow> DecodeError + u64" where
  "queue_quantities body offset 0 item_bytes scale nullable quality = Inr quality"
| "queue_quantities body offset (Suc n) item_bytes scale nullable quality =
     rbind (DecodeQuantity body offset scale nullable quality default_scaled) (\<lambda>(quality1, ignored).
       queue_quantities body (offset + item_bytes) n item_bytes scale nullable quality1)"

type_synonym level_result = "CanonicalBookLevel \<times> nat \<times> u64 \<times> RangeState"

text \<open>
  \<open>total_queue_items\<close> starts at 0 and never exceeds \<open>maximum_queue_items\<close>, so the subtraction
  \<open>maximum_queue_items - *total_queue_items\<close> does not wrap.
\<close>

definition ValidateAndDecodeShLevel ::
  "byte list \<Rightarrow> ListView \<Rightarrow> DecoderLimits \<Rightarrow> nat \<Rightarrow> nat \<Rightarrow> u64 \<Rightarrow> RangeState \<Rightarrow> DecodeError + level_result" where
  "ValidateAndDecodeShLevel body levels limits index total_queue_items quality rs =
    (let level_offset = lv_start levels + index * lv_item_size levels in
     rbind (DecodePrice32 body (level_offset + 4) 3 quality (b_price default_level)) (\<lambda>(quality1, price).
     rbind (DecodeQuantity body (level_offset + 8) 3 True quality1 (b_quantity default_level)) (\<lambda>(quality2, quantity).
     rbind (need kTruncated (LoadUnsigned body (level_offset + 16) :: u32 option)) (\<lambda>order_count.
     let level = default_level\<lparr>b_price := price, b_quantity := quantity, b_source_order_count := order_count,
           b_order_count_valid := True\<rparr> in
     rbind (ReadList body (level_offset + 20) 16 sizeof_SHL2MarketData (maximum_queue_items limits) rs) (\<lambda>(queue, rs1).
     if lv_count queue > unat (b_source_order_count level) then Inl kCountMismatch
     else if lv_count queue > maximum_queue_items limits - total_queue_items then Inl kCountExceeded
     else rbind (queue_quantities body (lv_start queue + 8) (lv_count queue) (lv_item_size queue) 3 True quality2)
       (\<lambda>quality3. Inr (level, total_queue_items + lv_count queue, quality3, rs1)))))))"

definition ValidateAndDecodeSzLevel ::
  "byte list \<Rightarrow> ListView \<Rightarrow> DecoderLimits \<Rightarrow> nat \<Rightarrow> nat \<Rightarrow> u64 \<Rightarrow> RangeState \<Rightarrow> DecodeError + level_result" where
  "ValidateAndDecodeSzLevel body levels limits index total_queue_items quality rs =
    (let level_offset = lv_start levels + index * lv_item_size levels in
     rbind (DecodeQuantity body level_offset 0 False quality (b_quantity default_level)) (\<lambda>(quality1, quantity).
     rbind (DecodePrice64 body (level_offset + 8) 6 quality1 (b_price default_level)) (\<lambda>(quality2, price).
     rbind (need kTruncated (LoadUnsigned body (level_offset + 16) :: u32 option)) (\<lambda>order_count.
     let level = default_level\<lparr>b_price := price, b_quantity := quantity, b_source_order_count := order_count,
           b_order_count_valid := True\<rparr> in
     rbind (ReadList body (level_offset + 20) 8 sizeof_Snapshot300111_v2 (maximum_queue_items limits) rs) (\<lambda>(queue, rs1).
     if lv_count queue > unat (b_source_order_count level) then Inl kCountMismatch
     else if lv_count queue > maximum_queue_items limits - total_queue_items then Inl kCountExceeded
     else rbind (queue_quantities body (lv_start queue) (lv_count queue) (lv_item_size queue) 0 False quality2)
       (\<lambda>quality3. Inr (level, total_queue_items + lv_count queue, quality3, rs1)))))))"

text \<open>
  The loop over the levels of one side: every level is validated, the first ten are retained.
\<close>

fun levels_loop ::
  "(nat \<Rightarrow> nat \<Rightarrow> u64 \<Rightarrow> RangeState \<Rightarrow> DecodeError + level_result) \<Rightarrow> nat \<Rightarrow> nat
     \<Rightarrow> CanonicalBookLevel list \<Rightarrow> nat \<Rightarrow> u64 \<Rightarrow> RangeState
     \<Rightarrow> DecodeError + (CanonicalBookLevel list \<times> nat \<times> u64 \<times> RangeState)" where
  "levels_loop level 0 index book items quality rs = Inr (book, items, quality, rs)"
| "levels_loop level (Suc n) index book items quality rs =
     rbind (level index items quality rs) (\<lambda>(l, items1, quality1, rs1).
       levels_loop level n (Suc index)
         (if index < kCanonicalBookDepth then book[index := l] else book) items1 quality1 rs1)"

definition set_depths :: "nat \<Rightarrow> nat \<Rightarrow> CanonicalSnapshot \<Rightarrow> CanonicalSnapshot" where
  "set_depths bid_count ask_count s =
    (let s1 = s\<lparr>s_source_bid_depth := of_nat bid_count, s_source_ask_depth := of_nat ask_count,
           s_retained_bid_depth := of_nat (min bid_count kCanonicalBookDepth),
           s_retained_ask_depth := of_nat (min ask_count kCanonicalBookDepth)\<rparr> in
     if bid_count > kCanonicalBookDepth \<or> ask_count > kCanonicalBookDepth
     then snap_quality kQualityDepthTruncated s1 else s1)"

text \<open>The two level lists and their loops, the same code in both snapshot decoders.\<close>

definition decode_books ::
  "(ListView \<Rightarrow> nat \<Rightarrow> nat \<Rightarrow> u64 \<Rightarrow> RangeState \<Rightarrow> DecodeError + level_result) \<Rightarrow> byte list \<Rightarrow> nat \<Rightarrow> nat
     \<Rightarrow> nat \<Rightarrow> DecoderLimits \<Rightarrow> CanonicalSnapshot \<Rightarrow> RangeState \<Rightarrow> DecodeError + (CanonicalSnapshot \<times> RangeState)" where
  "decode_books level body bid_offset ask_offset fixed_bytes limits s rs =
    rbind (ReadList body bid_offset 28 fixed_bytes (maximum_depth_items limits) rs) (\<lambda>(bids, rs1).
    rbind (ReadList body ask_offset 28 fixed_bytes (maximum_depth_items limits) rs1) (\<lambda>(asks, rs2).
    let s1 = set_depths (lv_count bids) (lv_count asks) s in
    rbind (levels_loop (level bids) (lv_count bids) 0 (s_bids s1) 0 (c_quality_flags (s_common s1)) rs2)
      (\<lambda>(bid_book, items, quality1, rs3).
    rbind (levels_loop (level asks) (lv_count asks) 0 (s_asks s1) items quality1 rs3)
      (\<lambda>(ask_book, items1, quality2, rs4).
    Inr (s1\<lparr>s_bids := bid_book, s_asks := ask_book,
      s_common := (s_common s1)\<lparr>c_quality_flags := quality2\<rparr>\<rparr>, rs4)))))"

definition finish_snapshot :: "InstrumentCatalog \<Rightarrow> CanonicalSnapshot \<Rightarrow> SnapshotDecodeResult" where
  "finish_snapshot cat s =
    (let (catalog_match, common) = ApplyCatalog cat (s_common s) in
     \<lparr>sd_snapshot = s\<lparr>s_common := common\<rparr>, sd_catalog_match = catalog_match\<rparr>)"


section \<open>The Shanghai snapshot\<close>

definition sh_snapshot_prices :: "byte list \<Rightarrow> (CanonicalSnapshot \<Rightarrow> DecodeError + CanonicalSnapshot) list" where
  "sh_snapshot_prices body =
    [snap_field (DecodePrice32 body 14 3) s_previous_close (\<lambda>d s. s\<lparr>s_previous_close := d\<rparr>),
     snap_field (DecodePrice32 body 18 3) s_open (\<lambda>d s. s\<lparr>s_open := d\<rparr>),
     snap_field (DecodePrice32 body 22 3) s_high (\<lambda>d s. s\<lparr>s_high := d\<rparr>),
     snap_field (DecodePrice32 body 26 3) s_low (\<lambda>d s. s\<lparr>s_low := d\<rparr>),
     snap_field (DecodePrice32 body 30 3) s_last (\<lambda>d s. s\<lparr>s_last := d\<rparr>),
     snap_field (DecodePrice32 body 34 3) s_close (\<lambda>d s. s\<lparr>s_close := d\<rparr>)]"

definition sh_snapshot_totals :: "byte list \<Rightarrow> (CanonicalSnapshot \<Rightarrow> DecodeError + CanonicalSnapshot) list" where
  "sh_snapshot_totals body =
    [snap_field (DecodeQuantity body 48 3 True) s_volume (\<lambda>q s. s\<lparr>s_volume := q\<rparr>),
     snap_field (DecodeDecimal64 body 56 5) s_turnover (\<lambda>d s. s\<lparr>s_turnover := d\<rparr>),
     snap_field (DecodeQuantity body 64 3 True) s_total_bid_quantity (\<lambda>q s. s\<lparr>s_total_bid_quantity := q\<rparr>),
     snap_field (DecodePrice32 body 72 3) s_weighted_average_bid (\<lambda>d s. s\<lparr>s_weighted_average_bid := d\<rparr>),
     snap_field (DecodeQuantity body 80 3 True) s_total_ask_quantity (\<lambda>q s. s\<lparr>s_total_ask_quantity := q\<rparr>),
     snap_field (DecodePrice32 body 88 3) s_weighted_average_ask (\<lambda>d s. s\<lparr>s_weighted_average_ask := d\<rparr>)]"

definition DecodeShanghaiSnapshot ::
  "OwnedMessageView \<Rightarrow> u32 \<Rightarrow> DecoderLimits \<Rightarrow> InstrumentCatalog \<Rightarrow> RangeState
     \<Rightarrow> DecodeError + (SnapshotDecodeResult \<times> RangeState)" where
  "DecodeShanghaiSnapshot message trade_date limits cat rs =
    (let body = mv_body message in
     if length body < sizeof_SHL2MarketData then Inl kTruncated
     else
     let s0 = default_snapshot\<lparr>s_common := InitializeCommon message trade_date Market_kShanghai
                CanonicalKind_kShanghaiSnapshot (s_common default_snapshot)\<rparr> in
     rbind (ReadIdentity body Market_kShanghai sizeof_SHL2MarketData SIZE_MAX 4 SIZE_MAX limits
       (s_common s0) rs) (\<lambda>(common, rs1).
     rbind (ReadText body 38 sizeof_SHL2MarketData (maximum_text_bytes limits) False rs1) (\<lambda>(status, rs2).
     let s1 = s0\<lparr>s_common := common,
           s_instrument_status_code := fst (CopyText status (s_instrument_status_code s0)),
           s_instrument_status_code_size := snd (CopyText status (s_instrument_status_code s0))\<rparr> in
     rbind (need kTruncated (LoadI32 body 10)) (\<lambda>image_status.
     let s2 = s1\<lparr>s_image_status := image_status, s_image_status_valid := True\<rparr> in
     rbind (snap_exchange_time body 0 s2) (\<lambda>s3.
     rbind (run_steps (sh_snapshot_prices body) s3) (\<lambda>s4.
     rbind (need kTruncated (LoadUnsigned body 44 :: u32 option)) (\<lambda>trade_count.
     let s5 = s4\<lparr>s_trade_count := ucast trade_count, s_trade_count_valid := True\<rparr> in
     rbind (run_steps (sh_snapshot_totals body) s5) (\<lambda>s6.
     rbind (decode_books (\<lambda>levels. ValidateAndDecodeShLevel body levels limits) body 228 236
       sizeof_SHL2MarketData limits s6 rs2) (\<lambda>(s7, rs3).
     Inr (finish_snapshot cat s7, rs3))))))))))"

section \<open>The Shenzhen snapshot\<close>

definition sz_snapshot_prices :: "byte list \<Rightarrow> (CanonicalSnapshot \<Rightarrow> DecodeError + CanonicalSnapshot) list" where
  "sz_snapshot_prices body =
    [snap_field (DecodePrice64 body 32 4) s_previous_close (\<lambda>d s. s\<lparr>s_previous_close := d\<rparr>),
     snap_field (DecodeQuantity body 48 0 False) s_volume (\<lambda>q s. s\<lparr>s_volume := q\<rparr>),
     snap_field (DecodeDecimal64 body 56 4) s_turnover (\<lambda>d s. s\<lparr>s_turnover := d\<rparr>),
     snap_field (DecodePrice64 body 64 6) s_last (\<lambda>d s. s\<lparr>s_last := d\<rparr>),
     snap_field (DecodePrice64 body 72 6) s_open (\<lambda>d s. s\<lparr>s_open := d\<rparr>),
     snap_field (DecodePrice64 body 80 6) s_high (\<lambda>d s. s\<lparr>s_high := d\<rparr>),
     snap_field (DecodePrice64 body 88 6) s_low (\<lambda>d s. s\<lparr>s_low := d\<rparr>)]"

definition sz_snapshot_totals :: "byte list \<Rightarrow> (CanonicalSnapshot \<Rightarrow> DecodeError + CanonicalSnapshot) list" where
  "sz_snapshot_totals body =
    [snap_field (DecodeQuantity body 144 0 False) s_total_ask_quantity (\<lambda>q s. s\<lparr>s_total_ask_quantity := q\<rparr>),
     snap_field (DecodePrice64 body 152 6) s_weighted_average_ask (\<lambda>d s. s\<lparr>s_weighted_average_ask := d\<rparr>),
     snap_field (DecodeQuantity body 160 0 False) s_total_bid_quantity (\<lambda>q s. s\<lparr>s_total_bid_quantity := q\<rparr>),
     snap_field (DecodePrice64 body 168 6) s_weighted_average_bid (\<lambda>d s. s\<lparr>s_weighted_average_bid := d\<rparr>)]"

definition DecodeShenzhenSnapshot ::
  "OwnedMessageView \<Rightarrow> u32 \<Rightarrow> DecoderLimits \<Rightarrow> InstrumentCatalog \<Rightarrow> RangeState
     \<Rightarrow> DecodeError + (SnapshotDecodeResult \<times> RangeState)" where
  "DecodeShenzhenSnapshot message trade_date limits cat rs =
    (let body = mv_body message in
     if length body < sizeof_Snapshot300111_v2 then Inl kTruncated
     else
     let s0 = default_snapshot\<lparr>s_common := InitializeCommon message trade_date Market_kShenzhen
                CanonicalKind_kShenzhenSnapshot (s_common default_snapshot)\<rparr> in
     rbind (ReadIdentity body Market_kShenzhen sizeof_Snapshot300111_v2 8 14 20 limits
       (s_common s0) rs) (\<lambda>(common, rs1).
     rbind (ReadText body 26 sizeof_Snapshot300111_v2 (maximum_text_bytes limits) True rs1) (\<lambda>(phase, rs2).
     let s1 = s0\<lparr>s_common := common,
           s_trading_phase_code := fst (CopyText phase (s_trading_phase_code s0)),
           s_trading_phase_code_size := snd (CopyText phase (s_trading_phase_code s0))\<rparr> in
     rbind (need kTruncated (LoadUnsigned body 4)) (\<lambda>channel.
     let s2 = s1\<lparr>s_common := (s_common s1)\<lparr>c_channel := channel\<rparr>\<rparr> in
     rbind (snap_exchange_time body 0 s2) (\<lambda>s3.
     rbind (need kTruncated (LoadI64 body 40)) (\<lambda>trade_count.
     let s4 = (if trade_count \<ge> 0 then s3\<lparr>s_trade_count := word_of_int trade_count, s_trade_count_valid := True\<rparr>
               else snap_quality kQualityInvalidQuantity s3) in
     rbind (run_steps (sz_snapshot_prices body) s4) (\<lambda>s5.
     rbind (run_steps (sz_snapshot_totals body) s5) (\<lambda>s6.
     rbind (decode_books (\<lambda>levels. ValidateAndDecodeSzLevel body levels limits) body 208 216
       sizeof_Snapshot300111_v2 limits s6 rs2) (\<lambda>(s7, rs3).
     Inr (finish_snapshot cat s7, rs3))))))))))"

section \<open>Dispatch on the message class\<close>

definition decode_snapshot_scoped ::
  "OwnedMessageView \<Rightarrow> u32 \<Rightarrow> DecoderLimits \<Rightarrow> InstrumentCatalog
     \<Rightarrow> DecodeError + (SnapshotDecodeResult \<times> RangeState)" where
  "decode_snapshot_scoped message trade_date limits cat =
    (if maximum_depth_items limits > (SIZE_MAX - 8) div 2 then Inl kResourceExhausted
     else case ClassifyMessage (hdr_key (mv_header message)) of
       MessageClass_kShanghaiSnapshot \<Rightarrow> DecodeShanghaiSnapshot message trade_date limits cat DynamicRangeScope
     | MessageClass_kShenzhenSnapshot \<Rightarrow> DecodeShenzhenSnapshot message trade_date limits cat DynamicRangeScope
     | _ \<Rightarrow> Inl kUnsupported)"

definition DecodeSnapshot ::
  "OwnedMessageView \<Rightarrow> u32 \<Rightarrow> DecoderLimits \<Rightarrow> InstrumentCatalog \<Rightarrow> DecodeError + SnapshotDecodeResult" where
  "DecodeSnapshot message trade_date limits cat =
     rbind (decode_snapshot_scoped message trade_date limits cat) (\<lambda>(result, rs). Inr result)"

section \<open>Admission routes\<close>

definition HashRouteBytes :: "byte list \<Rightarrow> byte list \<Rightarrow> u64" where
  "HashRouteBytes first second =
    (let h0 = 1469598103934665603;
         h1 = fold fnv_append first h0;
         h2 = fnv_append 0xff h1 in
     fold fnv_append second h2)"

text \<open>
  \<open>ExtractAdmissionRoute\<close> runs in the vendor's callback, outside every range scope; any error of
  \<open>ReadText\<close> means that there is no route.
\<close>

definition route_text :: "byte list \<Rightarrow> nat \<Rightarrow> nat \<Rightarrow> byte list option" where
  "route_text body offset fixed_bytes =
    (case ReadText body offset fixed_bytes kMaximumIdentityBytes True no_scope of
       Inl e \<Rightarrow> None | Inr (text_value, rs) \<Rightarrow> Some text_value)"

definition ExtractAdmissionRoute :: "MessageClass \<Rightarrow> byte list \<Rightarrow> u64 option" where
  "ExtractAdmissionRoute message_class body =
    (case message_class of
       MessageClass_kShanghaiTick \<Rightarrow>
         if length body < sizeof_NGTSTick then None
         else (case LoadI32 body 8 of None \<Rightarrow> None | Some channel \<Rightarrow>
           if channel \<le> 0 then None
           else Some (0x0400000000 OR ucast (word_of_int channel :: u32)))
     | MessageClass_kShanghaiSnapshot \<Rightarrow>
         map_option (HashRouteBytes []) (route_text body 4 sizeof_SHL2MarketData)
     | MessageClass_kShenzhenSnapshot \<Rightarrow>
         Option.bind (route_text body 14 sizeof_Snapshot300111_v2) (\<lambda>security.
         Option.bind (route_text body 20 sizeof_Snapshot300111_v2) (\<lambda>source.
           Some (HashRouteBytes source security)))
     | _ \<Rightarrow>
       if message_class = MessageClass_kShenzhenOrder \<or> message_class = MessageClass_kShenzhenTransaction
       then let fixed = (if message_class = MessageClass_kShenzhenOrder then sizeof_Order300192_v2
                         else sizeof_Transaction300191_v2) in
         (if length body < fixed then None
          else case (LoadUnsigned body 0 :: u32 option) of None \<Rightarrow> None
            | Some channel \<Rightarrow> Some (0x0600000000 OR ucast channel))
       else None)"

end
