(* ===== verification/Decoder_Snapshot_Facts.thy ===== *)
theory Decoder_Snapshot_Facts
  imports Decoder_Snapshots Decoder_Tick_Facts
begin

text \<open>
  What a decoded snapshot promises: exact decimals, a book of ten levels of which the retained
  ones are decoded and the others empty, bounded depth and queues, and the number of protected
  ranges.  The two level decoders share their contract (\<open>level_decoder\<close>), and the loops over a
  book are proved once against it.
\<close>

section \<open>The common block\<close>

definition common_post :: "OwnedMessageView \<Rightarrow> u32 \<Rightarrow> Market \<Rightarrow> CanonicalKind \<Rightarrow> CanonicalCommon \<Rightarrow> bool" where
  "common_post message trade_date market kind c \<longleftrightarrow> id_market (c_identity c) = market \<and>
     c_kind c = kind \<and> c_message_key c = hdr_key (mv_header message) \<and> c_trade_date c = trade_date \<and>
     c_ingress_sequence c = mv_ingress_sequence message \<and>
     c_receive_monotonic_ns c = mv_receive_monotonic_ns message \<and>
     c_vendor_sequence_id c = vendor_sequence_id (mv_header message) \<and>
     identity_wf (c_identity c) \<and> length (c_md_stream_id c) = kMaximumIdentityBytes"

lemma ReadIdentity_common:
  assumes "ReadIdentity (mv_body message) market fixed so co xo limits
      (InitializeCommon message trade_date market kind default_common) rs = Inr (common, rs1)"
    and "ranges_ok fixed (length (mv_body message)) rs"
    and "maximum_text_bytes limits \<le> kMaximumIdentityBytes"
  shows "common_post message trade_date market kind common"
proof -
  obtain q v n where init: "InitializeCommon message trade_date market kind default_common =
     default_common\<lparr>c_ingress_sequence := mv_ingress_sequence message,
       c_vendor_sequence_id := vendor_sequence_id (mv_header message),
       c_receive_monotonic_ns := mv_receive_monotonic_ns message,
       c_trade_date := trade_date, c_message_key := hdr_key (mv_header message), c_kind := kind,
       c_identity := (c_identity default_common)\<lparr>id_market := market\<rparr>,
       c_vendor_local_time_raw := local_time_raw (mv_header message),
       c_vendor_local_time_valid := v, c_quality_flags := q, c_vendor_local_time_ns := n\<rparr>"
    (is "_ = ?c") using InitializeCommon_core by blast
  have arr: "length (security_id (c_identity ?c)) = kMaximumIdentityBytes"
    "length (security_id_source (c_identity ?c)) = kMaximumIdentityBytes"
    "length (c_md_stream_id ?c) = kMaximumIdentityBytes"
    by (simp_all add: default_common_def default_identity_def empty_identity_array_def)
  from ReadIdentity_Inr [OF assms(1) [unfolded init] assms(2,3) arr(1,2)]
  obtain i sid sz where "common = ?c\<lparr>c_identity := i, c_md_stream_id := sid, c_md_stream_id_size := sz\<rparr>"
    "id_market i = market" "identity_wf i" "length sid = kMaximumIdentityBytes" using arr(3) by metis
  then show ?thesis by (simp add: common_post_def)
qed

lemma common_post_updates [simp]:
  "common_post m d mk k (c\<lparr>c_quality_flags := x0\<rparr>) = common_post m d mk k c"
  "common_post m d mk k (c\<lparr>c_channel := x1\<rparr>) = common_post m d mk k c"
  "common_post m d mk k (c\<lparr>c_exchange_time_raw := x2\<rparr>) = common_post m d mk k c"
  "common_post m d mk k (c\<lparr>c_exchange_time_valid := x3\<rparr>) = common_post m d mk k c"
  "common_post m d mk k (c\<lparr>c_exchange_time_ns := x4\<rparr>) = common_post m d mk k c"
  "common_post m d mk k (c\<lparr>c_instrument_id := x5\<rparr>) = common_post m d mk k c"
  "common_post m d mk k (c\<lparr>c_instrument_ordinal := x6\<rparr>) = common_post m d mk k c"
  by (simp_all add: common_post_def)

section \<open>Levels\<close>

definition price_wf :: "FixedDecimal \<Rightarrow> bool" where
  "price_wf d \<longleftrightarrow> decimal_wf d \<and> (fd_p6_valid d \<longrightarrow> 0 < fd_raw d)"

definition level_wf :: "CanonicalBookLevel \<Rightarrow> bool" where
  "level_wf l \<longleftrightarrow> price_wf (b_price l) \<and> scaled_wf (b_quantity l) \<and> b_order_count_valid l"

lemma default_level_fields [simp]:
  "\<not> fd_p6_valid (b_price default_level)" "\<not> si_valid (b_quantity default_level)"
  by (simp_all add: default_level_def default_decimal_def default_scaled_def)

text \<open>The contract of a level decoder.\<close>

locale level_decoder =
  fixes fixed :: nat
    and level :: "byte list \<Rightarrow> ListView \<Rightarrow> DecoderLimits \<Rightarrow> nat \<Rightarrow> nat \<Rightarrow> u64 \<Rightarrow> RangeState
      \<Rightarrow> DecodeError + level_result"
  assumes level_decoded: "level body levels limits index items q rs = Inr (l, items', q', rs') \<Longrightarrow> level_wf l"
    and level_items: "level body levels limits index items q rs = Inr (l, items', q', rs') \<Longrightarrow>
      items \<le> maximum_queue_items limits \<Longrightarrow> items \<le> items' \<and> items' \<le> maximum_queue_items limits"
    and level_ranges: "level body levels limits index items q rs = Inr (l, items', q', rs') \<Longrightarrow>
      ranges_step fixed (length body) 1 rs rs'"
begin

lemma levels_loop_facts:
  assumes "levels_loop (level body levels limits) n index book items q rs = Inr (book', items', q', rs')"
  shows "length book' = length book \<and>
    (\<forall>i < length book. (index \<le> i \<and> i < index + n \<and> i < kCanonicalBookDepth \<longrightarrow> level_wf (book' ! i)) \<and>
       (\<not> (index \<le> i \<and> i < index + n \<and> i < kCanonicalBookDepth) \<longrightarrow> book' ! i = book ! i)) \<and>
    (items \<le> maximum_queue_items limits \<longrightarrow> items' \<le> maximum_queue_items limits) \<and>
    ranges_step fixed (length body) n rs rs'"
  using assms
proof (induction n arbitrary: index book items q rs)
  case (Suc n)
  then obtain l items1 q1 rs1 where L: "level body levels limits index items q rs = Inr (l, items1, q1, rs1)"
    and R: "levels_loop (level body levels limits) n (Suc index)
      (if index < kCanonicalBookDepth then book[index := l] else book) items1 q1 rs1 = Inr (book', items', q', rs')"
    by (auto elim!: rbind_InrE)
  note IH = Suc.IH [OF R]
  have rs: "ranges_step fixed (length body) (Suc n) rs rs'"
    by (rule ranges_step_trans [OF level_ranges [OF L]]) (use IH in auto)
  have len: "length book' = length book" using IH by simp
  have "level_wf (book' ! i)" if "index \<le> i" "i < index + Suc n" "i < kCanonicalBookDepth" "i < length book" for i
  proof (cases "i = index")
    case True
    have "book' ! i = (book[index := l]) ! i" using IH that True by auto
    then show ?thesis using True that level_decoded [OF L] by simp
  next
    case False
    then show ?thesis using IH that by auto
  qed
  moreover have "book' ! i = book ! i"
    if "\<not> (index \<le> i \<and> i < index + Suc n \<and> i < kCanonicalBookDepth)" "i < length book" for i
  proof -
    have "\<not> (Suc index \<le> i \<and> i < Suc index + n \<and> i < kCanonicalBookDepth)" using that by auto
    then have "book' ! i = (if index < kCanonicalBookDepth then book[index := l] else book) ! i"
      using IH that(2) by (simp split: if_splits)
    moreover have "index \<noteq> i \<or> \<not> index < kCanonicalBookDepth" using that by auto
    ultimately show ?thesis by auto
  qed
  moreover have "items \<le> maximum_queue_items limits \<longrightarrow> items' \<le> maximum_queue_items limits"
    using level_items [OF L] IH by auto
  ultimately show ?case using len rs by blast
qed auto

end

section \<open>Books\<close>

definition book_wf :: "u32 \<Rightarrow> u8 \<Rightarrow> CanonicalBookLevel list \<Rightarrow> bool" where
  "book_wf source_depth kept book \<longleftrightarrow> length book = kCanonicalBookDepth \<and>
     unat kept = min (unat source_depth) kCanonicalBookDepth \<and>
     (\<forall>i < kCanonicalBookDepth. if i < unat kept then level_wf (book ! i) else book ! i = default_level)"

definition books_wf :: "CanonicalSnapshot \<Rightarrow> bool" where
  "books_wf s \<longleftrightarrow> book_wf (s_source_bid_depth s) (s_retained_bid_depth s) (s_bids s) \<and>
     book_wf (s_source_ask_depth s) (s_retained_ask_depth s) (s_asks s)"

definition empty_books :: "CanonicalSnapshot \<Rightarrow> bool" where
  "empty_books s \<longleftrightarrow> s_bids s = replicate kCanonicalBookDepth default_level \<and>
     s_asks s = replicate kCanonicalBookDepth default_level"

lemma depth_words:
  "n < 2 ^ 32 \<Longrightarrow> unat (of_nat n :: u32) = n"
  "unat (of_nat (min n kCanonicalBookDepth) :: u8) = min n kCanonicalBookDepth"
  by (simp_all add: unat_of_nat take_bit_eq_mod kCanonicalBookDepth_def)

text \<open>Everything but the books and the quality flags.\<close>

definition same_header :: "CanonicalSnapshot \<Rightarrow> CanonicalSnapshot \<Rightarrow> bool" where
  "same_header s s' \<longleftrightarrow> (\<exists>q a b c d e f. s' = s\<lparr>s_source_bid_depth := a, s_source_ask_depth := b,
     s_retained_bid_depth := c, s_retained_ask_depth := d, s_bids := e, s_asks := f,
     s_common := (s_common s)\<lparr>c_quality_flags := q\<rparr>\<rparr>)"

lemma set_depths_header:
  "\<exists>q. set_depths n m s = s\<lparr>s_source_bid_depth := of_nat n, s_source_ask_depth := of_nat m,
     s_retained_bid_depth := of_nat (min n kCanonicalBookDepth),
     s_retained_ask_depth := of_nat (min m kCanonicalBookDepth), s_common := (s_common s)\<lparr>c_quality_flags := q\<rparr>\<rparr>"
proof (cases "n > kCanonicalBookDepth \<or> m > kCanonicalBookDepth")
  case True
  then show ?thesis by (auto simp: set_depths_def Let_def snap_quality_def)
next
  case False
  then have "set_depths n m s = s\<lparr>s_source_bid_depth := of_nat n, s_source_ask_depth := of_nat m,
     s_retained_bid_depth := of_nat (min n kCanonicalBookDepth),
     s_retained_ask_depth := of_nat (min m kCanonicalBookDepth),
     s_common := (s_common s)\<lparr>c_quality_flags := c_quality_flags (s_common s)\<rparr>\<rparr>"
    by (simp add: set_depths_def Let_def)
  then show ?thesis by blast
qed

context level_decoder
begin

lemma decode_books_facts:
  assumes "decode_books (\<lambda>levels. level body levels limits) body bo ao fixed limits s rs = Inr (s', rs')"
    and "empty_books s"
  shows "books_wf s' \<and> same_header s s' \<and>
    unat (s_source_bid_depth s') \<le> maximum_depth_items limits \<and>
    unat (s_source_ask_depth s') \<le> maximum_depth_items limits \<and>
    ranges_step fixed (length body) (2 + 2 * maximum_depth_items limits) rs rs'"
proof -
  from assms(1) obtain bids rs1 asks rs2 bid_book items q1 rs3 ask_book items1 q2 where
    b: "ReadList body bo 28 fixed (maximum_depth_items limits) rs = Inr (bids, rs1)"
    and a: "ReadList body ao 28 fixed (maximum_depth_items limits) rs1 = Inr (asks, rs2)"
    and lb: "levels_loop (level body bids limits) (lv_count bids) 0 (s_bids (set_depths (lv_count bids) (lv_count asks) s)) 0
      (c_quality_flags (s_common (set_depths (lv_count bids) (lv_count asks) s))) rs2 = Inr (bid_book, items, q1, rs3)"
    and la: "levels_loop (level body asks limits) (lv_count asks) 0 (s_asks (set_depths (lv_count bids) (lv_count asks) s)) items
      q1 rs3 = Inr (ask_book, items1, q2, rs')"
    and s': "s' = (set_depths (lv_count bids) (lv_count asks) s)\<lparr>s_bids := bid_book, s_asks := ask_book,
      s_common := (s_common (set_depths (lv_count bids) (lv_count asks) s))\<lparr>c_quality_flags := q2\<rparr>\<rparr>"
    unfolding decode_books_def Let_def by (auto elim!: rbind_InrE)
  obtain q where sd: "set_depths (lv_count bids) (lv_count asks) s = s\<lparr>s_source_bid_depth := of_nat (lv_count bids),
     s_source_ask_depth := of_nat (lv_count asks), s_retained_bid_depth := of_nat (min (lv_count bids) kCanonicalBookDepth),
     s_retained_ask_depth := of_nat (min (lv_count asks) kCanonicalBookDepth), s_common := (s_common s)\<lparr>c_quality_flags := q\<rparr>\<rparr>"
    using set_depths_header by blast
  note B = levels_loop_facts [OF lb] and A = levels_loop_facts [OF la]
  have len: "length (s_bids s) = kCanonicalBookDepth" "length (s_asks s) = kCanonicalBookDepth"
    using assms(2) by (simp_all add: empty_books_def)
  have book: "book_wf (of_nat (lv_count lv)) (of_nat (min (lv_count lv) kCanonicalBookDepth)) book"
    if "ReadList body off 28 fixed (maximum_depth_items limits) r = Inr (lv, r')"
      and "length book = kCanonicalBookDepth" and "\<forall>i < kCanonicalBookDepth. (i < lv_count lv \<longrightarrow> level_wf (book ! i)) \<and>
        (\<not> i < lv_count lv \<longrightarrow> book ! i = default_level)" for off lv r r' book
    using that depth_words [of "lv_count lv"] ReadList_count [OF that(1)] by (simp add: book_wf_def)
  have bb: "book_wf (of_nat (lv_count bids)) (of_nat (min (lv_count bids) kCanonicalBookDepth)) bid_book"
    by (rule book [OF b]) (use B assms(2) len in \<open>auto simp: sd empty_books_def\<close>)
  have ab: "book_wf (of_nat (lv_count asks)) (of_nat (min (lv_count asks) kCanonicalBookDepth)) ask_book"
    by (rule book [OF a]) (use A assms(2) len in \<open>auto simp: sd empty_books_def\<close>)
  have "same_header s s'" unfolding same_header_def s' sd by (intro exI, rule CanonicalSnapshot.equality) simp_all
  moreover have "books_wf s'" using bb ab by (simp add: books_wf_def s' sd)
  moreover have "unat (s_source_bid_depth s') \<le> maximum_depth_items limits"
    "unat (s_source_ask_depth s') \<le> maximum_depth_items limits"
    using ReadList_count [OF b] ReadList_count [OF a] ReadList_Inr(2) [OF b] ReadList_Inr(2) [OF a]
    by (simp_all add: s' sd depth_words)
  moreover have "ranges_step fixed (length body) (2 + 2 * maximum_depth_items limits) rs rs'"
  proof -
    have "ranges_step fixed (length body) 2 rs rs2"
      by (rule ranges_step_trans [OF ReadList_step [OF b] ReadList_step [OF a]]) simp
    moreover have "ranges_step fixed (length body) (lv_count bids) rs2 rs3"
      "ranges_step fixed (length body) (lv_count asks) rs3 rs'" using A B by blast+
    ultimately show ?thesis using ReadList_Inr(2) [OF b] ReadList_Inr(2) [OF a]
      by (auto simp: ranges_step_def)
  qed
  ultimately show ?thesis by blast
qed

end

section \<open>Both markets meet the contract\<close>

lemma levels_Inr:
  shows "ValidateAndDecodeShLevel body levels limits index items q rs = Inr (l, items', q', rs') \<Longrightarrow>
      \<exists>q1 q2 queue. DecodePrice32 body (lv_start levels + index * lv_item_size levels + 4) 3 q (b_price default_level) = Inr (q1, b_price l) \<and>
        DecodeQuantity body (lv_start levels + index * lv_item_size levels + 8) 3 True q1 (b_quantity default_level) = Inr (q2, b_quantity l) \<and>
        ReadList body (lv_start levels + index * lv_item_size levels + 20) 16 sizeof_SHL2MarketData (maximum_queue_items limits) rs = Inr (queue, rs') \<and>
        lv_count queue \<le> maximum_queue_items limits - items \<and> items' = items + lv_count queue \<and> b_order_count_valid l"
    and "ValidateAndDecodeSzLevel body levels limits index items q rs = Inr (l, items', q', rs') \<Longrightarrow>
      \<exists>q1 q2 queue. DecodeQuantity body (lv_start levels + index * lv_item_size levels) 0 False q (b_quantity default_level) = Inr (q1, b_quantity l) \<and>
        DecodePrice64 body (lv_start levels + index * lv_item_size levels + 8) 6 q1 (b_price default_level) = Inr (q2, b_price l) \<and>
        ReadList body (lv_start levels + index * lv_item_size levels + 20) 8 sizeof_Snapshot300111_v2 (maximum_queue_items limits) rs = Inr (queue, rs') \<and>
        lv_count queue \<le> maximum_queue_items limits - items \<and> items' = items + lv_count queue \<and> b_order_count_valid l"
  unfolding ValidateAndDecodeShLevel_def ValidateAndDecodeSzLevel_def Let_def
  by (auto elim!: rbind_InrE split: if_splits)

interpretation sh_levels: level_decoder sizeof_SHL2MarketData ValidateAndDecodeShLevel
proof
  fix body levels limits index items q rs l items' q' rs'
  assume "ValidateAndDecodeShLevel body levels limits index items q rs = Inr (l, items', q', rs')"
  note L = levels_Inr(1) [OF this]
  show "level_wf l"
    using L DecodePrice_Inr(1) DecodeQuantity_wf unfolding level_wf_def price_wf_def by (meson default_level_fields)
  show "items \<le> items' \<and> items' \<le> maximum_queue_items limits" if "items \<le> maximum_queue_items limits"
    using L that by auto
  show "ranges_step sizeof_SHL2MarketData (length body) 1 rs rs'" using L ReadList_step by blast
qed

interpretation sz_levels: level_decoder sizeof_Snapshot300111_v2 ValidateAndDecodeSzLevel
proof
  fix body levels limits index items q rs l items' q' rs'
  assume "ValidateAndDecodeSzLevel body levels limits index items q rs = Inr (l, items', q', rs')"
  note L = levels_Inr(2) [OF this]
  show "level_wf l"
    using L DecodePrice_Inr(2) DecodeQuantity_wf unfolding level_wf_def price_wf_def by (meson default_level_fields)
  show "items \<le> items' \<and> items' \<le> maximum_queue_items limits" if "items \<le> maximum_queue_items limits"
    using L that by auto
  show "ranges_step sizeof_Snapshot300111_v2 (length body) 1 rs rs'" using L ReadList_step by blast
qed


section \<open>The fixed fields\<close>

lemma snap_field_Inr:
  assumes "snap_field load member put s = Inr s'"
  obtains q v where "s' = put v (s\<lparr>s_common := (s_common s)\<lparr>c_quality_flags := q\<rparr>\<rparr>)"
    "load (c_quality_flags (s_common s)) (member s) = Inr (q, v)"
  using assms unfolding snap_field_def by (elim rbind_InrE) auto

text \<open>A price, an amount or a quantity decoded into an unset member.\<close>

lemma snap_price:
  assumes "snap_field (DecodePrice32 body off scale) member put s = Inr s' \<or>
      snap_field (DecodePrice64 body off scale) member put s = Inr s'" and "\<not> fd_p6_valid (member s)"
  shows "\<exists>q v. s' = put v (s\<lparr>s_common := (s_common s)\<lparr>c_quality_flags := q\<rparr>\<rparr>) \<and> price_wf v"
  using assms(1)
  unfolding price_wf_def by (elim disjE snap_field_Inr) (use DecodePrice_Inr [OF assms(2)] in blast)+

lemma snap_amount:
  assumes "snap_field (DecodeDecimal64 body off scale) member put s = Inr s'" and "\<not> fd_p6_valid (member s)"
  shows "\<exists>q v. s' = put v (s\<lparr>s_common := (s_common s)\<lparr>c_quality_flags := q\<rparr>\<rparr>) \<and> decimal_wf v"
  using assms(1) DecodeDecimal64_wf [OF _ assms(2)] by (elim snap_field_Inr) blast

lemma snap_quantity:
  assumes "snap_field (DecodeQuantity body off scale nullable) member put s = Inr s'" and "\<not> si_valid (member s)"
  shows "\<exists>q v. s' = put v (s\<lparr>s_common := (s_common s)\<lparr>c_quality_flags := q\<rparr>\<rparr>) \<and> scaled_wf v"
  using assms(1) DecodeQuantity_wf [OF _ assms(2)] by (elim snap_field_Inr) blast

definition fields_wf :: "CanonicalSnapshot \<Rightarrow> bool" where
  "fields_wf s \<longleftrightarrow> (\<forall>d \<in> {s_previous_close s, s_open s, s_high s, s_low s, s_last s, s_close s,
       s_weighted_average_bid s, s_weighted_average_ask s}. price_wf d) \<and> decimal_wf (s_turnover s) \<and>
     (\<forall>q \<in> {s_volume s, s_total_bid_quantity s, s_total_ask_quantity s}. scaled_wf q)"

lemma run_steps_Cons:
  assumes "run_steps (f # fs) s = Inr s'"
  obtains s1 where "f s = Inr s1" "run_steps fs s1 = Inr s'"
  using assms by (auto elim: rbind_InrE)

lemma sh_prices_Inr:
  assumes "run_steps (sh_snapshot_prices body) s = Inr s'" 
    and "\<forall>d \<in> {s_previous_close s, s_open s, s_high s, s_low s, s_last s, s_close s}. \<not> fd_p6_valid d"
  shows "\<exists>q v1 v2 v3 v4 v5 v6. s' = s\<lparr>s_previous_close := v1, s_open := v2, s_high := v3, s_low := v4, s_last := v5, s_close := v6,
      s_common := (s_common s)\<lparr>c_quality_flags := q\<rparr>\<rparr> \<and>
    price_wf v1 \<and> price_wf v2 \<and> price_wf v3 \<and> price_wf v4 \<and> price_wf v5 \<and> price_wf v6"
proof -
  from assms(1) obtain s1 s2 s3 s4 s5 where steps:
    "snap_field (DecodePrice32 body 14 3) s_previous_close (\<lambda>x s. s\<lparr>s_previous_close := x\<rparr>) s = Inr s1"
    "snap_field (DecodePrice32 body 18 3) s_open (\<lambda>x s. s\<lparr>s_open := x\<rparr>) s1 = Inr s2"
    "snap_field (DecodePrice32 body 22 3) s_high (\<lambda>x s. s\<lparr>s_high := x\<rparr>) s2 = Inr s3"
    "snap_field (DecodePrice32 body 26 3) s_low (\<lambda>x s. s\<lparr>s_low := x\<rparr>) s3 = Inr s4"
    "snap_field (DecodePrice32 body 30 3) s_last (\<lambda>x s. s\<lparr>s_last := x\<rparr>) s4 = Inr s5"
    "snap_field (DecodePrice32 body 34 3) s_close (\<lambda>x s. s\<lparr>s_close := x\<rparr>) s5 = Inr s'"
    unfolding sh_snapshot_prices_def by (elim run_steps_Cons) simp
  note blank = assms(2)
  from snap_price [OF disjI1, OF steps(1)] blank obtain q1 v1 where
    1: "s1 = s\<lparr>s_common := (s_common s)\<lparr>c_quality_flags := q1\<rparr>, s_previous_close := v1\<rparr>" "price_wf v1"
    by auto
  from snap_price [OF disjI1, OF steps(2)] blank obtain q2 v2 where
    2: "s2 = s1\<lparr>s_common := (s_common s1)\<lparr>c_quality_flags := q2\<rparr>, s_open := v2\<rparr>" "price_wf v2"
    by (auto simp: 1)
  from snap_price [OF disjI1, OF steps(3)] blank obtain q3 v3 where
    3: "s3 = s2\<lparr>s_common := (s_common s2)\<lparr>c_quality_flags := q3\<rparr>, s_high := v3\<rparr>" "price_wf v3"
    by (auto simp: 1 2)
  from snap_price [OF disjI1, OF steps(4)] blank obtain q4 v4 where
    4: "s4 = s3\<lparr>s_common := (s_common s3)\<lparr>c_quality_flags := q4\<rparr>, s_low := v4\<rparr>" "price_wf v4"
    by (auto simp: 1 2 3)
  from snap_price [OF disjI1, OF steps(5)] blank obtain q5 v5 where
    5: "s5 = s4\<lparr>s_common := (s_common s4)\<lparr>c_quality_flags := q5\<rparr>, s_last := v5\<rparr>" "price_wf v5"
    by (auto simp: 1 2 3 4)
  from snap_price [OF disjI1, OF steps(6)] blank obtain q6 v6 where
    6: "s' = s5\<lparr>s_common := (s_common s5)\<lparr>c_quality_flags := q6\<rparr>, s_close := v6\<rparr>" "price_wf v6"
    by (auto simp: 1 2 3 4 5)
  have "s' = s\<lparr>s_previous_close := v1, s_open := v2, s_high := v3, s_low := v4, s_last := v5, s_close := v6,
      s_common := (s_common s)\<lparr>c_quality_flags := q6\<rparr>\<rparr>"
    unfolding 6(1) 5(1) 4(1) 3(1) 2(1) 1(1) by (rule CanonicalSnapshot.equality) simp_all
  with 1(2) 2(2) 3(2) 4(2) 5(2) 6(2) show ?thesis by blast
qed

lemma sh_totals_Inr:
  assumes "run_steps (sh_snapshot_totals body) s = Inr s'" 
    and "\<forall>d \<in> {s_turnover s, s_weighted_average_bid s, s_weighted_average_ask s}. \<not> fd_p6_valid d"
    and "\<forall>q \<in> {s_volume s, s_total_bid_quantity s, s_total_ask_quantity s}. \<not> si_valid q"
  shows "\<exists>q v1 v2 v3 v4 v5 v6. s' = s\<lparr>s_volume := v1, s_turnover := v2, s_total_bid_quantity := v3, s_weighted_average_bid := v4, s_total_ask_quantity := v5, s_weighted_average_ask := v6,
      s_common := (s_common s)\<lparr>c_quality_flags := q\<rparr>\<rparr> \<and>
    scaled_wf v1 \<and> decimal_wf v2 \<and> scaled_wf v3 \<and> price_wf v4 \<and> scaled_wf v5 \<and> price_wf v6"
proof -
  from assms(1) obtain s1 s2 s3 s4 s5 where steps:
    "snap_field (DecodeQuantity body 48 3 True) s_volume (\<lambda>x s. s\<lparr>s_volume := x\<rparr>) s = Inr s1"
    "snap_field (DecodeDecimal64 body 56 5) s_turnover (\<lambda>x s. s\<lparr>s_turnover := x\<rparr>) s1 = Inr s2"
    "snap_field (DecodeQuantity body 64 3 True) s_total_bid_quantity (\<lambda>x s. s\<lparr>s_total_bid_quantity := x\<rparr>) s2 = Inr s3"
    "snap_field (DecodePrice32 body 72 3) s_weighted_average_bid (\<lambda>x s. s\<lparr>s_weighted_average_bid := x\<rparr>) s3 = Inr s4"
    "snap_field (DecodeQuantity body 80 3 True) s_total_ask_quantity (\<lambda>x s. s\<lparr>s_total_ask_quantity := x\<rparr>) s4 = Inr s5"
    "snap_field (DecodePrice32 body 88 3) s_weighted_average_ask (\<lambda>x s. s\<lparr>s_weighted_average_ask := x\<rparr>) s5 = Inr s'"
    unfolding sh_snapshot_totals_def by (elim run_steps_Cons) simp
  note blank = assms(2,3)
  from snap_quantity [OF steps(1)] blank obtain q1 v1 where
    1: "s1 = s\<lparr>s_common := (s_common s)\<lparr>c_quality_flags := q1\<rparr>, s_volume := v1\<rparr>" "scaled_wf v1"
    by auto
  from snap_amount [OF steps(2)] blank obtain q2 v2 where
    2: "s2 = s1\<lparr>s_common := (s_common s1)\<lparr>c_quality_flags := q2\<rparr>, s_turnover := v2\<rparr>" "decimal_wf v2"
    by (auto simp: 1)
  from snap_quantity [OF steps(3)] blank obtain q3 v3 where
    3: "s3 = s2\<lparr>s_common := (s_common s2)\<lparr>c_quality_flags := q3\<rparr>, s_total_bid_quantity := v3\<rparr>" "scaled_wf v3"
    by (auto simp: 1 2)
  from snap_price [OF disjI1, OF steps(4)] blank obtain q4 v4 where
    4: "s4 = s3\<lparr>s_common := (s_common s3)\<lparr>c_quality_flags := q4\<rparr>, s_weighted_average_bid := v4\<rparr>" "price_wf v4"
    by (auto simp: 1 2 3)
  from snap_quantity [OF steps(5)] blank obtain q5 v5 where
    5: "s5 = s4\<lparr>s_common := (s_common s4)\<lparr>c_quality_flags := q5\<rparr>, s_total_ask_quantity := v5\<rparr>" "scaled_wf v5"
    by (auto simp: 1 2 3 4)
  from snap_price [OF disjI1, OF steps(6)] blank obtain q6 v6 where
    6: "s' = s5\<lparr>s_common := (s_common s5)\<lparr>c_quality_flags := q6\<rparr>, s_weighted_average_ask := v6\<rparr>" "price_wf v6"
    by (auto simp: 1 2 3 4 5)
  have "s' = s\<lparr>s_volume := v1, s_turnover := v2, s_total_bid_quantity := v3, s_weighted_average_bid := v4, s_total_ask_quantity := v5, s_weighted_average_ask := v6,
      s_common := (s_common s)\<lparr>c_quality_flags := q6\<rparr>\<rparr>"
    unfolding 6(1) 5(1) 4(1) 3(1) 2(1) 1(1) by (rule CanonicalSnapshot.equality) simp_all
  with 1(2) 2(2) 3(2) 4(2) 5(2) 6(2) show ?thesis by blast
qed

lemma sz_prices_Inr:
  assumes "run_steps (sz_snapshot_prices body) s = Inr s'" 
    and "\<forall>d \<in> {s_previous_close s, s_turnover s, s_last s, s_open s, s_high s, s_low s}. \<not> fd_p6_valid d"
    and "\<forall>q \<in> {s_volume s}. \<not> si_valid q"
  shows "\<exists>q v1 v2 v3 v4 v5 v6 v7. s' = s\<lparr>s_previous_close := v1, s_volume := v2, s_turnover := v3, s_last := v4, s_open := v5, s_high := v6, s_low := v7,
      s_common := (s_common s)\<lparr>c_quality_flags := q\<rparr>\<rparr> \<and>
    price_wf v1 \<and> scaled_wf v2 \<and> decimal_wf v3 \<and> price_wf v4 \<and> price_wf v5 \<and> price_wf v6 \<and> price_wf v7"
proof -
  from assms(1) obtain s1 s2 s3 s4 s5 s6 where steps:
    "snap_field (DecodePrice64 body 32 4) s_previous_close (\<lambda>x s. s\<lparr>s_previous_close := x\<rparr>) s = Inr s1"
    "snap_field (DecodeQuantity body 48 0 False) s_volume (\<lambda>x s. s\<lparr>s_volume := x\<rparr>) s1 = Inr s2"
    "snap_field (DecodeDecimal64 body 56 4) s_turnover (\<lambda>x s. s\<lparr>s_turnover := x\<rparr>) s2 = Inr s3"
    "snap_field (DecodePrice64 body 64 6) s_last (\<lambda>x s. s\<lparr>s_last := x\<rparr>) s3 = Inr s4"
    "snap_field (DecodePrice64 body 72 6) s_open (\<lambda>x s. s\<lparr>s_open := x\<rparr>) s4 = Inr s5"
    "snap_field (DecodePrice64 body 80 6) s_high (\<lambda>x s. s\<lparr>s_high := x\<rparr>) s5 = Inr s6"
    "snap_field (DecodePrice64 body 88 6) s_low (\<lambda>x s. s\<lparr>s_low := x\<rparr>) s6 = Inr s'"
    unfolding sz_snapshot_prices_def by (elim run_steps_Cons) simp
  note blank = assms(2,3)
  from snap_price [OF disjI2, OF steps(1)] blank obtain q1 v1 where
    1: "s1 = s\<lparr>s_common := (s_common s)\<lparr>c_quality_flags := q1\<rparr>, s_previous_close := v1\<rparr>" "price_wf v1"
    by auto
  from snap_quantity [OF steps(2)] blank obtain q2 v2 where
    2: "s2 = s1\<lparr>s_common := (s_common s1)\<lparr>c_quality_flags := q2\<rparr>, s_volume := v2\<rparr>" "scaled_wf v2"
    by (auto simp: 1)
  from snap_amount [OF steps(3)] blank obtain q3 v3 where
    3: "s3 = s2\<lparr>s_common := (s_common s2)\<lparr>c_quality_flags := q3\<rparr>, s_turnover := v3\<rparr>" "decimal_wf v3"
    by (auto simp: 1 2)
  from snap_price [OF disjI2, OF steps(4)] blank obtain q4 v4 where
    4: "s4 = s3\<lparr>s_common := (s_common s3)\<lparr>c_quality_flags := q4\<rparr>, s_last := v4\<rparr>" "price_wf v4"
    by (auto simp: 1 2 3)
  from snap_price [OF disjI2, OF steps(5)] blank obtain q5 v5 where
    5: "s5 = s4\<lparr>s_common := (s_common s4)\<lparr>c_quality_flags := q5\<rparr>, s_open := v5\<rparr>" "price_wf v5"
    by (auto simp: 1 2 3 4)
  from snap_price [OF disjI2, OF steps(6)] blank obtain q6 v6 where
    6: "s6 = s5\<lparr>s_common := (s_common s5)\<lparr>c_quality_flags := q6\<rparr>, s_high := v6\<rparr>" "price_wf v6"
    by (auto simp: 1 2 3 4 5)
  from snap_price [OF disjI2, OF steps(7)] blank obtain q7 v7 where
    7: "s' = s6\<lparr>s_common := (s_common s6)\<lparr>c_quality_flags := q7\<rparr>, s_low := v7\<rparr>" "price_wf v7"
    by (auto simp: 1 2 3 4 5 6)
  have "s' = s\<lparr>s_previous_close := v1, s_volume := v2, s_turnover := v3, s_last := v4, s_open := v5, s_high := v6, s_low := v7,
      s_common := (s_common s)\<lparr>c_quality_flags := q7\<rparr>\<rparr>"
    unfolding 7(1) 6(1) 5(1) 4(1) 3(1) 2(1) 1(1) by (rule CanonicalSnapshot.equality) simp_all
  with 1(2) 2(2) 3(2) 4(2) 5(2) 6(2) 7(2) show ?thesis by blast
qed

lemma sz_totals_Inr:
  assumes "run_steps (sz_snapshot_totals body) s = Inr s'" 
    and "\<forall>d \<in> {s_weighted_average_ask s, s_weighted_average_bid s}. \<not> fd_p6_valid d"
    and "\<forall>q \<in> {s_total_ask_quantity s, s_total_bid_quantity s}. \<not> si_valid q"
  shows "\<exists>q v1 v2 v3 v4. s' = s\<lparr>s_total_ask_quantity := v1, s_weighted_average_ask := v2, s_total_bid_quantity := v3, s_weighted_average_bid := v4,
      s_common := (s_common s)\<lparr>c_quality_flags := q\<rparr>\<rparr> \<and>
    scaled_wf v1 \<and> price_wf v2 \<and> scaled_wf v3 \<and> price_wf v4"
proof -
  from assms(1) obtain s1 s2 s3 where steps:
    "snap_field (DecodeQuantity body 144 0 False) s_total_ask_quantity (\<lambda>x s. s\<lparr>s_total_ask_quantity := x\<rparr>) s = Inr s1"
    "snap_field (DecodePrice64 body 152 6) s_weighted_average_ask (\<lambda>x s. s\<lparr>s_weighted_average_ask := x\<rparr>) s1 = Inr s2"
    "snap_field (DecodeQuantity body 160 0 False) s_total_bid_quantity (\<lambda>x s. s\<lparr>s_total_bid_quantity := x\<rparr>) s2 = Inr s3"
    "snap_field (DecodePrice64 body 168 6) s_weighted_average_bid (\<lambda>x s. s\<lparr>s_weighted_average_bid := x\<rparr>) s3 = Inr s'"
    unfolding sz_snapshot_totals_def by (elim run_steps_Cons) simp
  note blank = assms(2,3)
  from snap_quantity [OF steps(1)] blank obtain q1 v1 where
    1: "s1 = s\<lparr>s_common := (s_common s)\<lparr>c_quality_flags := q1\<rparr>, s_total_ask_quantity := v1\<rparr>" "scaled_wf v1"
    by auto
  from snap_price [OF disjI2, OF steps(2)] blank obtain q2 v2 where
    2: "s2 = s1\<lparr>s_common := (s_common s1)\<lparr>c_quality_flags := q2\<rparr>, s_weighted_average_ask := v2\<rparr>" "price_wf v2"
    by (auto simp: 1)
  from snap_quantity [OF steps(3)] blank obtain q3 v3 where
    3: "s3 = s2\<lparr>s_common := (s_common s2)\<lparr>c_quality_flags := q3\<rparr>, s_total_bid_quantity := v3\<rparr>" "scaled_wf v3"
    by (auto simp: 1 2)
  from snap_price [OF disjI2, OF steps(4)] blank obtain q4 v4 where
    4: "s' = s3\<lparr>s_common := (s_common s3)\<lparr>c_quality_flags := q4\<rparr>, s_weighted_average_bid := v4\<rparr>" "price_wf v4"
    by (auto simp: 1 2 3)
  have "s' = s\<lparr>s_total_ask_quantity := v1, s_weighted_average_ask := v2, s_total_bid_quantity := v3, s_weighted_average_bid := v4,
      s_common := (s_common s)\<lparr>c_quality_flags := q4\<rparr>\<rparr>"
    unfolding 4(1) 3(1) 2(1) 1(1) by (rule CanonicalSnapshot.equality) simp_all
  with 1(2) 2(2) 3(2) 4(2) show ?thesis by blast
qed

section \<open>What a decoded snapshot promises\<close>

definition snapshot_post ::
  "OwnedMessageView \<Rightarrow> u32 \<Rightarrow> DecoderLimits \<Rightarrow> Market \<Rightarrow> CanonicalKind \<Rightarrow> CanonicalSnapshot \<Rightarrow> bool" where
  "snapshot_post message trade_date limits market kind s \<longleftrightarrow>
     common_post message trade_date market kind (s_common s) \<and> fields_wf s \<and> books_wf s \<and>
     unat (s_source_bid_depth s) \<le> maximum_depth_items limits \<and>
     unat (s_source_ask_depth s) \<le> maximum_depth_items limits"

lemma fields_wf_header:
  assumes "same_header s s'"
  shows "fields_wf s' = fields_wf s" "common_post m d mk k (s_common s') = common_post m d mk k (s_common s)"
  using assms unfolding same_header_def by (auto simp: fields_wf_def)

lemma finish_snapshot_facts:
  shows "\<exists>q a b. sd_snapshot (finish_snapshot cat s) = s\<lparr>s_common := (s_common s)
      \<lparr>c_quality_flags := q, c_instrument_id := a, c_instrument_ordinal := b\<rparr>\<rparr>"
proof -
  obtain b c where a: "ApplyCatalog cat (s_common s) = (b, c)" by (cases "ApplyCatalog cat (s_common s)")
  from ApplyCatalog_eq(2) [OF a] show ?thesis by (auto simp: finish_snapshot_def a)
qed

lemma snapshot_post_finish:
  assumes "common_post message trade_date market kind (s_common s)" and "fields_wf s" and "books_wf s"
    and "unat (s_source_bid_depth s) \<le> maximum_depth_items limits"
    and "unat (s_source_ask_depth s) \<le> maximum_depth_items limits"
  shows "snapshot_post message trade_date limits market kind (sd_snapshot (finish_snapshot cat s))"
proof -
  obtain q a b where f: "sd_snapshot (finish_snapshot cat s) = s\<lparr>s_common := (s_common s)
      \<lparr>c_quality_flags := q, c_instrument_id := a, c_instrument_ordinal := b\<rparr>\<rparr>"
    using finish_snapshot_facts by blast
  show ?thesis unfolding snapshot_post_def f using assms by (simp add: fields_wf_def books_wf_def)
qed

lemma snap_exchange_time_Inr:
  assumes "snap_exchange_time body off s = Inr s'"
  shows "\<exists>raw v q ns. s' = s\<lparr>s_common := (s_common s)\<lparr>c_exchange_time_raw := raw,
    c_exchange_time_valid := v, c_quality_flags := q, c_exchange_time_ns := ns\<rparr>\<rparr>"
  using assms unfolding snap_exchange_time_def Let_def
  by (elim rbind_InrE) (auto split: prod.splits)

lemma default_snapshot_fields:
  "\<forall>d \<in> {s_previous_close default_snapshot, s_open default_snapshot, s_high default_snapshot,
     s_low default_snapshot, s_last default_snapshot, s_close default_snapshot, s_turnover default_snapshot,
     s_weighted_average_bid default_snapshot, s_weighted_average_ask default_snapshot}. \<not> fd_p6_valid d \<and> price_wf d"
  "\<forall>q \<in> {s_volume default_snapshot, s_total_bid_quantity default_snapshot,
     s_total_ask_quantity default_snapshot}. \<not> si_valid q \<and> scaled_wf q"
  "s_bids default_snapshot = replicate kCanonicalBookDepth default_level"
  "s_asks default_snapshot = replicate kCanonicalBookDepth default_level"
  "s_common default_snapshot = default_common"
  by (simp_all add: default_snapshot_def default_decimal_def default_scaled_def price_wf_def decimal_wf_def scaled_wf_def)

lemma identity_kept:
  assumes "same_header s s'"
  shows "c_identity (s_common (sd_snapshot (finish_snapshot cat s'))) = c_identity (s_common s)"
proof -
  obtain q a b where "sd_snapshot (finish_snapshot cat s') = s'\<lparr>s_common := (s_common s')
      \<lparr>c_quality_flags := q, c_instrument_id := a, c_instrument_ordinal := b\<rparr>\<rparr>"
    using finish_snapshot_facts by blast
  then show ?thesis using assms by (auto simp: same_header_def)
qed

lemma DecodeShanghaiSnapshot_post:
  assumes D: "DecodeShanghaiSnapshot message trade_date limits cat DynamicRangeScope = Inr (r, rs')"
    and lim: "maximum_text_bytes limits \<le> kMaximumIdentityBytes"
  shows "snapshot_post message trade_date limits Market_kShanghai CanonicalKind_kShanghaiSnapshot (sd_snapshot r) \<and>
    ranges_step sizeof_SHL2MarketData (length (mv_body message)) (2 * maximum_depth_items limits + 8) DynamicRangeScope rs' \<and>
    (\<exists>common rs1. ReadIdentity (mv_body message) Market_kShanghai sizeof_SHL2MarketData SIZE_MAX 4 SIZE_MAX limits
       (InitializeCommon message trade_date Market_kShanghai CanonicalKind_kShanghaiSnapshot default_common)
       DynamicRangeScope = Inr (common, rs1) \<and> c_identity (s_common (sd_snapshot r)) = c_identity common)"
proof -
  let ?body = "mv_body message"
  have len: "\<not> length ?body < sizeof_SHL2MarketData"
    using D by (auto simp: DecodeShanghaiSnapshot_def Let_def)
  from D len obtain common rs1 status rs2 image_status s3 s4 and trade_count :: u32 and s6 s7 where
    id: "ReadIdentity ?body Market_kShanghai sizeof_SHL2MarketData SIZE_MAX 4 SIZE_MAX limits
       (InitializeCommon message trade_date Market_kShanghai CanonicalKind_kShanghaiSnapshot default_common)
       DynamicRangeScope = Inr (common, rs1)"
    and st: "ReadText ?body 38 sizeof_SHL2MarketData (maximum_text_bytes limits) False rs1 = Inr (status, rs2)"
    and ex: "snap_exchange_time ?body 0 (default_snapshot\<lparr>s_common := common,
        s_instrument_status_code := fst (CopyText status (s_instrument_status_code default_snapshot)),
        s_instrument_status_code_size := snd (CopyText status (s_instrument_status_code default_snapshot)),
        s_image_status := image_status, s_image_status_valid := True\<rparr>) = Inr s3"
    and pr: "run_steps (sh_snapshot_prices ?body) s3 = Inr s4"
    and to: "run_steps (sh_snapshot_totals ?body)
        (s4\<lparr>s_trade_count := ucast trade_count, s_trade_count_valid := True\<rparr>) = Inr s6"
    and bo: "decode_books (\<lambda>levels. ValidateAndDecodeShLevel ?body levels limits) ?body 228 236
        sizeof_SHL2MarketData limits s6 rs2 = Inr (s7, rs')"
    and r: "r = finish_snapshot cat s7"
    unfolding DecodeShanghaiSnapshot_def Let_def default_snapshot_fields(5)
    by (simp only: not_le [symmetric] if_False not_True_eq_False simp_thms) (elim rbind_InrE, clarsimp simp: return_iff default_snapshot_fields)
  note d = default_snapshot_fields
  from snap_exchange_time_Inr [OF ex] obtain raw v q ns where
    s3: "s3 = default_snapshot\<lparr>s_instrument_status_code := fst (CopyText status (s_instrument_status_code default_snapshot)),
        s_instrument_status_code_size := snd (CopyText status (s_instrument_status_code default_snapshot)),
        s_image_status := image_status, s_image_status_valid := True,
        s_common := common\<lparr>c_exchange_time_raw := raw, c_exchange_time_valid := v,
          c_quality_flags := q, c_exchange_time_ns := ns\<rparr>\<rparr>" by (elim exE, simp)
  have C: "common_post message trade_date Market_kShanghai CanonicalKind_kShanghaiSnapshot (s_common s3)"
    using ReadIdentity_common [OF id _ lim] by (simp add: s3)
  from sh_prices_Inr [OF pr] d obtain q4 p1 p2 p3 p4 p5 p6 where
    s4: "s4 = s3\<lparr>s_previous_close := p1, s_open := p2, s_high := p3, s_low := p4, s_last := p5, s_close := p6,
      s_common := (s_common s3)\<lparr>c_quality_flags := q4\<rparr>\<rparr>"
    and p: "price_wf p1" "price_wf p2" "price_wf p3" "price_wf p4" "price_wf p5" "price_wf p6"
    by (auto simp: s3)
  from sh_totals_Inr [OF to] d obtain q6 t1 t2 t3 t4 t5 t6 where
    s6: "s6 = s4\<lparr>s_trade_count := ucast trade_count, s_trade_count_valid := True, s_volume := t1, s_turnover := t2,
      s_total_bid_quantity := t3, s_weighted_average_bid := t4, s_total_ask_quantity := t5,
      s_weighted_average_ask := t6, s_common := (s_common s4)\<lparr>c_quality_flags := q6\<rparr>\<rparr>"
    and t: "scaled_wf t1" "decimal_wf t2" "scaled_wf t3" "price_wf t4" "scaled_wf t5" "price_wf t6"
    by (auto simp: s3 s4)
  have F: "fields_wf s6" "empty_books s6"
    "common_post message trade_date Market_kShanghai CanonicalKind_kShanghaiSnapshot (s_common s6)"
    using p t C by (simp_all add: fields_wf_def empty_books_def s6 s4 s3 d)
  note B = sh_levels.decode_books_facts [OF bo F(2)]
  have "ranges_step sizeof_SHL2MarketData (length ?body) 4 DynamicRangeScope rs2"
    by (rule ranges_step_trans [OF ReadIdentity_step [OF id] ReadText_step [OF st]]) simp
  then have "ranges_step sizeof_SHL2MarketData (length ?body) (2 * maximum_depth_items limits + 8) DynamicRangeScope rs'"
    by (rule ranges_step_trans) (use B in auto)
  moreover have "snapshot_post message trade_date limits Market_kShanghai CanonicalKind_kShanghaiSnapshot (sd_snapshot r)"
    unfolding r by (rule snapshot_post_finish) (use B F fields_wf_header in auto)
  moreover have "c_identity (s_common (sd_snapshot r)) = c_identity common"
    using identity_kept [of s6 s7 cat] B unfolding r by (simp add: s6 s4 s3)
  ultimately show ?thesis using id by blast
qed

lemma DecodeShenzhenSnapshot_post:
  assumes D: "DecodeShenzhenSnapshot message trade_date limits cat DynamicRangeScope = Inr (r, rs')"
    and lim: "maximum_text_bytes limits \<le> kMaximumIdentityBytes"
  shows "snapshot_post message trade_date limits Market_kShenzhen CanonicalKind_kShenzhenSnapshot (sd_snapshot r) \<and>
    ranges_step sizeof_Snapshot300111_v2 (length (mv_body message)) (2 * maximum_depth_items limits + 8) DynamicRangeScope rs' \<and>
    (\<exists>common rs1. ReadIdentity (mv_body message) Market_kShenzhen sizeof_Snapshot300111_v2 8 14 20 limits
       (InitializeCommon message trade_date Market_kShenzhen CanonicalKind_kShenzhenSnapshot default_common)
       DynamicRangeScope = Inr (common, rs1) \<and> c_identity (s_common (sd_snapshot r)) = c_identity common)"
proof -
  let ?body = "mv_body message"
  have len: "\<not> length ?body < sizeof_Snapshot300111_v2"
    using D by (auto simp: DecodeShenzhenSnapshot_def Let_def)
  from D len obtain common rs1 phase rs2 channel s3 trade_count s5 s6 s7 where
    id: "ReadIdentity ?body Market_kShenzhen sizeof_Snapshot300111_v2 8 14 20 limits
       (InitializeCommon message trade_date Market_kShenzhen CanonicalKind_kShenzhenSnapshot default_common)
       DynamicRangeScope = Inr (common, rs1)"
    and st: "ReadText ?body 26 sizeof_Snapshot300111_v2 (maximum_text_bytes limits) True rs1 = Inr (phase, rs2)"
    and ex: "snap_exchange_time ?body 0 (default_snapshot\<lparr>
        s_trading_phase_code := fst (CopyText phase (s_trading_phase_code default_snapshot)),
        s_trading_phase_code_size := snd (CopyText phase (s_trading_phase_code default_snapshot)),
        s_common := common\<lparr>c_channel := channel\<rparr>\<rparr>) = Inr s3"
    and pr: "run_steps (sz_snapshot_prices ?body) (if trade_count \<ge> 0
        then s3\<lparr>s_trade_count := word_of_int trade_count, s_trade_count_valid := True\<rparr>
        else snap_quality kQualityInvalidQuantity s3) = Inr s5"
    and to: "run_steps (sz_snapshot_totals ?body) s5 = Inr s6"
    and bo: "decode_books (\<lambda>levels. ValidateAndDecodeSzLevel ?body levels limits) ?body 208 216
        sizeof_Snapshot300111_v2 limits s6 rs2 = Inr (s7, rs')"
    and r: "r = finish_snapshot cat s7"
    unfolding DecodeShenzhenSnapshot_def Let_def default_snapshot_fields(5)
    by (simp only: not_le [symmetric] if_False not_True_eq_False simp_thms) (elim rbind_InrE, clarsimp simp: return_iff default_snapshot_fields)
  note d = default_snapshot_fields
  define s4 where "s4 = (if trade_count \<ge> 0
        then s3\<lparr>s_trade_count := word_of_int trade_count, s_trade_count_valid := True\<rparr>
        else snap_quality kQualityInvalidQuantity s3)"
  from snap_exchange_time_Inr [OF ex] obtain raw v q ns where
    s3: "s3 = default_snapshot\<lparr>
        s_trading_phase_code := fst (CopyText phase (s_trading_phase_code default_snapshot)),
        s_trading_phase_code_size := snd (CopyText phase (s_trading_phase_code default_snapshot)),
        s_common := common\<lparr>c_channel := channel, c_exchange_time_raw := raw, c_exchange_time_valid := v,
          c_quality_flags := q, c_exchange_time_ns := ns\<rparr>\<rparr>" by (elim exE, simp)
  obtain q4 tc tv where s4: "s4 = s3\<lparr>s_trade_count := tc, s_trade_count_valid := tv,
      s_common := (s_common s3)\<lparr>c_quality_flags := q4\<rparr>\<rparr>"
  proof (cases "trade_count \<ge> 0")
    case True
    then have "s4 = s3\<lparr>s_trade_count := word_of_int trade_count, s_trade_count_valid := True,
      s_common := (s_common s3)\<lparr>c_quality_flags := c_quality_flags (s_common s3)\<rparr>\<rparr>" by (simp add: s4_def)
    then show thesis by (rule that)
  next
    case False
    then have "s4 = s3\<lparr>s_trade_count := s_trade_count s3, s_trade_count_valid := s_trade_count_valid s3,
      s_common := (s_common s3)\<lparr>c_quality_flags := c_quality_flags (s_common s3) OR kQualityInvalidQuantity\<rparr>\<rparr>"
      by (simp add: s4_def snap_quality_def)
    then show thesis by (rule that)
  qed
  have C: "common_post message trade_date Market_kShenzhen CanonicalKind_kShenzhenSnapshot (s_common s4)"
    using ReadIdentity_common [OF id _ lim] by (simp add: s3 s4)
  from sz_prices_Inr [OF pr [folded s4_def]] d obtain q5 p1 p2 p3 p4 p5 p6 p7 where
    s5: "s5 = s4\<lparr>s_previous_close := p1, s_volume := p2, s_turnover := p3, s_last := p4, s_open := p5, s_high := p6,
      s_low := p7, s_common := (s_common s4)\<lparr>c_quality_flags := q5\<rparr>\<rparr>"
    and p: "price_wf p1" "scaled_wf p2" "decimal_wf p3" "price_wf p4" "price_wf p5" "price_wf p6" "price_wf p7"
    by (auto simp: s3 s4)
  from sz_totals_Inr [OF to] d obtain q6 t1 t2 t3 t4 where
    s6: "s6 = s5\<lparr>s_total_ask_quantity := t1, s_weighted_average_ask := t2, s_total_bid_quantity := t3,
      s_weighted_average_bid := t4, s_common := (s_common s5)\<lparr>c_quality_flags := q6\<rparr>\<rparr>"
    and t: "scaled_wf t1" "price_wf t2" "scaled_wf t3" "price_wf t4"
    by (auto simp: s3 s4 s5)
  have F: "fields_wf s6" "empty_books s6"
    "common_post message trade_date Market_kShenzhen CanonicalKind_kShenzhenSnapshot (s_common s6)"
    using p t C d by (simp_all add: fields_wf_def empty_books_def s6 s5 s4 s3 d)
  note B = sz_levels.decode_books_facts [OF bo F(2)]
  have "ranges_step sizeof_Snapshot300111_v2 (length ?body) 4 DynamicRangeScope rs2"
    by (rule ranges_step_trans [OF ReadIdentity_step [OF id] ReadText_step [OF st]]) simp
  then have "ranges_step sizeof_Snapshot300111_v2 (length ?body) (2 * maximum_depth_items limits + 8) DynamicRangeScope rs'"
    by (rule ranges_step_trans) (use B in auto)
  moreover have "snapshot_post message trade_date limits Market_kShenzhen CanonicalKind_kShenzhenSnapshot (sd_snapshot r)"
    unfolding r by (rule snapshot_post_finish) (use B F fields_wf_header in auto)
  moreover have "c_identity (s_common (sd_snapshot r)) = c_identity common"
    using identity_kept [of s6 s7 cat] B unfolding r by (simp add: s6 s5 s4 s3)
  ultimately show ?thesis using id by blast
qed

end
