(* ===== verification/Decoder_Snapshot_Claims.thy ===== *)
theory Decoder_Snapshot_Claims
  imports Decoder_Snapshot_Facts Decoder_Claims
begin

text \<open>
  The properties of the snapshot decoder and of the admission routes: what a decoded snapshot
  promises, how many regions a decode protects, and that a message is routed by what its decode
  will say.
\<close>

section \<open>Texts inside and outside a range scope\<close>

lemma ReadText_no_scope:
  assumes "ReadText body off fixed m True rs = Inr (t, rs')" and "m \<le> m'"
  shows "ReadText body off fixed m' True no_scope = Inr (t, no_scope)"
proof -
  from assms(1) obtain n :: u16 and rel :: u32 where L: "LoadUnsigned body off = Some n"
    "LoadUnsigned body (off + 2) = Some rel" and len: "\<not> length body < fixed"
    by (auto simp: ReadText_def return_iff split: if_splits)
  show ?thesis
    using assms len unfolding ReadText_def L need_def option.case rbind_simps Let_def
    by (auto simp: return_iff ProtectDynamicRange_def no_scope_def split: if_splits)
qed

lemma route_text_read:
  assumes "ReadText body off fixed m True rs = Inr (t, rs')" and "m \<le> kMaximumIdentityBytes"
  shows "route_text body off fixed = Some t"
  using ReadText_no_scope [OF assms] by (simp add: route_text_def)

lemma ReadIdentity_texts:
  assumes R: "ReadIdentity body market fixed so co xo limits common rs = Inr (common', rs')"
    and lim: "maximum_text_bytes limits \<le> kMaximumIdentityBytes"
  shows "\<exists>sec src. route_text body co fixed = Some sec \<and>
    identity_key (c_identity common') = (market, src, sec) \<and>
    (if xo = SIZE_MAX then src = [] else route_text body xo fixed = Some src)"
proof -
  let ?m = "maximum_text_bytes limits"
  from R obtain st rs1 sec rs2 src where r: "read_optional_text body so fixed ?m rs = Inr (st, rs1)"
    "ReadText body co fixed ?m True rs1 = Inr (sec, rs2)"
    "read_optional_text body xo fixed ?m rs2 = Inr (src, rs')"
    by (auto simp: ReadIdentity_def Let_def)
  let ?src = "case src of None \<Rightarrow> [] | Some bytes \<Rightarrow> bytes"
  have src: "xo = SIZE_MAX \<and> src = None \<or>
      xo \<noteq> SIZE_MAX \<and> (\<exists>t. src = Some t \<and> ReadText body xo fixed ?m True rs2 = Inr (t, rs'))"
    using r(3) by (auto simp: read_optional_text_def split: if_splits)
  then have len: "length ?src \<le> kMaximumIdentityBytes"
    using ReadText_Inr(1) lim by (fastforce split: option.splits)
  have "length sec \<le> kMaximumIdentityBytes" using ReadText_Inr(1) [OF r(2)] lim by simp
  then have "identity_key (c_identity common') = (market, ?src, sec)"
    using R r len by (auto simp: ReadIdentity_def Let_def CopyText_def identity_key_def text_of_copy)
  moreover have "route_text body co fixed = Some sec" by (rule route_text_read [OF r(2) lim])
  moreover have "if xo = SIZE_MAX then ?src = [] else route_text body xo fixed = Some ?src"
    using src route_text_read [OF _ lim] by (auto split: if_splits)
  ultimately show ?thesis by blast
qed

section \<open>Snapshots\<close>

lemma DecodeSnapshot_scoped:
  "DecodeSnapshot message trade_date limits cat = Inr r \<longleftrightarrow>
     (\<exists>rs. decode_snapshot_scoped message trade_date limits cat = Inr (r, rs))"
  by (auto simp: DecodeSnapshot_def)

text \<open>The market, record kind and fixed size of a snapshot class.\<close>

definition snapshot_layout :: "MessageClass \<Rightarrow> (Market \<times> CanonicalKind \<times> nat) option" where
  "snapshot_layout c = (case c of
     MessageClass_kShanghaiSnapshot \<Rightarrow>
       Some (Market_kShanghai, CanonicalKind_kShanghaiSnapshot, sizeof_SHL2MarketData)
   | MessageClass_kShenzhenSnapshot \<Rightarrow>
       Some (Market_kShenzhen, CanonicalKind_kShenzhenSnapshot, sizeof_Snapshot300111_v2)
   | _ \<Rightarrow> None)"

lemma decode_snapshot_post:
  assumes D: "decode_snapshot_scoped message trade_date limits cat = Inr (r, rs)"
    and lim: "maximum_text_bytes limits \<le> kMaximumIdentityBytes"
  shows "\<exists>market kind fixed source security.
    snapshot_layout (ClassifyMessage (hdr_key (mv_header message))) = Some (market, kind, fixed) \<and>
    snapshot_post message trade_date limits market kind (sd_snapshot r) \<and>
    ranges_step fixed (length (mv_body message)) (2 * maximum_depth_items limits + 8) DynamicRangeScope rs \<and>
    identity_key (c_identity (s_common (sd_snapshot r))) = (market, source, security) \<and>
    ExtractAdmissionRoute (ClassifyMessage (hdr_key (mv_header message))) (mv_body message)
      = Some (HashRouteBytes source security)"
proof (cases "ClassifyMessage (hdr_key (mv_header message))")
  case c: MessageClass_kShanghaiSnapshot
  then have "DecodeShanghaiSnapshot message trade_date limits cat DynamicRangeScope = Inr (r, rs)"
    using D by (auto simp: decode_snapshot_scoped_def split: if_splits)
  note P = DecodeShanghaiSnapshot_post [OF this lim]
  then obtain common rs1 where id: "ReadIdentity (mv_body message) Market_kShanghai sizeof_SHL2MarketData SIZE_MAX 4 SIZE_MAX limits
       (InitializeCommon message trade_date Market_kShanghai CanonicalKind_kShanghaiSnapshot default_common)
       DynamicRangeScope = Inr (common, rs1)" "c_identity (s_common (sd_snapshot r)) = c_identity common" by blast
  show ?thesis using P ReadIdentity_texts [OF id(1) lim]
    by (auto simp: c snapshot_layout_def ExtractAdmissionRoute_def id(2))
next
  case c: MessageClass_kShenzhenSnapshot
  then have "DecodeShenzhenSnapshot message trade_date limits cat DynamicRangeScope = Inr (r, rs)"
    using D by (auto simp: decode_snapshot_scoped_def split: if_splits)
  note P = DecodeShenzhenSnapshot_post [OF this lim]
  then obtain common rs1 where id: "ReadIdentity (mv_body message) Market_kShenzhen sizeof_Snapshot300111_v2 8 14 20 limits
       (InitializeCommon message trade_date Market_kShenzhen CanonicalKind_kShenzhenSnapshot default_common)
       DynamicRangeScope = Inr (common, rs1)" "c_identity (s_common (sd_snapshot r)) = c_identity common" by blast
  show ?thesis using P ReadIdentity_texts [OF id(1) lim]
    by (auto simp: c snapshot_layout_def ExtractAdmissionRoute_def id(2) SIZE_MAX_def)
qed (use D in \<open>simp_all add: decode_snapshot_scoped_def split: if_splits\<close>)

section \<open>Routes of ticks\<close>

text \<open>The route key of an exchange channel.\<close>

definition channel_route :: "Market \<Rightarrow> u32 \<Rightarrow> u64" where
  "channel_route market channel =
     (case market of Market_kShanghai \<Rightarrow> 0x0400000000 | _ \<Rightarrow> 0x0600000000) OR ucast channel"

lemma descriptor_route:
  assumes "ExtractTickNativeDescriptor c body = Some (market, channel, seq)"
  shows "ExtractAdmissionRoute c body = Some (channel_route market channel)"
    and "market \<in> {Market_kShanghai, Market_kShenzhen}"
  using assms
  by (auto simp: ExtractTickNativeDescriptor_def ExtractAdmissionRoute_def channel_route_def Let_def
      split: MessageClass.splits if_splits option.splits)

lemma ucast_down [simp]: "ucast (ucast (c :: u32) :: u64) = c"
  by (rule bit_word_eqI) (simp add: bit_ucast_iff)

lemma drop_high [simp]: "drop_bit 32 (ucast (c :: u32) :: u64) = 0"
  by (rule bit_word_eqI) (auto simp: bit_drop_bit_eq bit_ucast_iff dest: bit_imp_le_length)

lemma high_words: "(17179869184 :: u32) = 0" "(25769803776 :: u32) = 0"
  by (transfer, simp)+

lemma channel_route_inj:
  assumes "m \<in> {Market_kShanghai, Market_kShenzhen}" and "m' \<in> {Market_kShanghai, Market_kShenzhen}"
  shows "channel_route m c = channel_route m' c' \<longleftrightarrow> m = m' \<and> c = c'"
proof
  assume eq: "channel_route m c = channel_route m' c'"
  have low: "ucast (channel_route m c) = c" if "m \<in> {Market_kShanghai, Market_kShenzhen}" for m c
    using that by (auto simp: channel_route_def unsigned_or_eq high_words)
  have high: "drop_bit 32 (channel_route m c) = (if m = Market_kShanghai then 4 else 6)"
    if "m \<in> {Market_kShanghai, Market_kShenzhen}" for m c
    using that by (auto simp: channel_route_def drop_bit_or)
  have "c = c'" using low [OF assms(1), of c] low [OF assms(2), of c'] eq by simp
  moreover have "m = m'" using high [OF assms(1), of c] high [OF assms(2), of c'] eq assms
    by (auto split: if_splits)
  ultimately show "m = m' \<and> c = c'" by simp
qed simp

section \<open>A concrete snapshot for the witnesses\<close>

definition demo_snapshot_body :: "byte list" where
  "demo_snapshot_body = replicate 4 0 @ text_descriptor 6 244 @ replicate 238 0 @ [54, 48, 48, 48, 48, 48]"

definition demo_snapshot_message :: OwnedMessageView where
  "demo_snapshot_message = \<lparr>mv_header = \<lparr>head_size = 23, message_size = 277, encoding = 1,
        hdr_key = mk_key 4 101 4, local_time_raw = 93000010, vendor_sequence_id = 8\<rparr>,
      mv_ingress_sequence = 2, mv_receive_monotonic_ns = 6, mv_body = demo_snapshot_body\<rparr>"

lemma le_bytes_zero: "le_bytes n 0 = replicate n 0"
  by (induction n) simp_all

lemma demo_snapshot_length [simp]: "length demo_snapshot_body = 254"
  by (simp add: demo_snapshot_body_def)

lemma demo_snapshot_drop:
  assumes "10 \<le> off" and "off + n \<le> 248"
  shows "\<exists>rest. drop off demo_snapshot_body = replicate n 0 @ rest"
proof -
  have "replicate (248 - off) (0 :: byte) = replicate n 0 @ replicate (248 - off - n) 0"
    using assms by (simp flip: replicate_add)
  moreover have "drop off demo_snapshot_body = replicate (248 - off) 0 @ [54, 48, 48, 48, 48, 48]"
    using assms by (simp add: demo_snapshot_body_def)
  ultimately show ?thesis by simp
qed

lemma demo_snapshot_zero:
  "10 \<le> off \<Longrightarrow> off + 2 \<le> 248 \<Longrightarrow> LoadUnsigned demo_snapshot_body off = Some (0 :: u16)"
  "10 \<le> off \<Longrightarrow> off + 4 \<le> 248 \<Longrightarrow> LoadUnsigned demo_snapshot_body off = Some (0 :: u32)"
  "10 \<le> off \<Longrightarrow> off + 8 \<le> 248 \<Longrightarrow> LoadUnsigned demo_snapshot_body off = Some (0 :: u64)"
  using demo_snapshot_drop [of off 2] apply (force intro!: LoadUnsigned_le_bytes simp: le_bytes_zero)
  using demo_snapshot_drop [of off 4] apply (force intro!: LoadUnsigned_le_bytes simp: le_bytes_zero)
  using demo_snapshot_drop [of off 8] by (force intro!: LoadUnsigned_le_bytes simp: le_bytes_zero)

lemma demo_snapshot_zero_signed:
  "10 \<le> off \<Longrightarrow> off + 4 \<le> 248 \<Longrightarrow> LoadI32 demo_snapshot_body off = Some 0"
  "10 \<le> off \<Longrightarrow> off + 8 \<le> 248 \<Longrightarrow> LoadI64 demo_snapshot_body off = Some 0"
  by (simp_all add: LoadI32_def LoadI64_def demo_snapshot_zero)

lemma demo_snapshot_fields:
  "10 \<le> off \<Longrightarrow> off + 4 \<le> 248 \<Longrightarrow> \<exists>s'. snap_field (DecodePrice32 demo_snapshot_body off 3) member put s = Inr s'"
  "10 \<le> off \<Longrightarrow> off + 8 \<le> 248 \<Longrightarrow> \<exists>s'. snap_field (DecodeQuantity demo_snapshot_body off 3 True) qmember qput s = Inr s'"
  "10 \<le> off \<Longrightarrow> off + 8 \<le> 248 \<Longrightarrow> \<exists>s'. snap_field (DecodeDecimal64 demo_snapshot_body off 5) member put s = Inr s'"
  by (simp_all add: snap_field_def DecodePrice32_def DecodeQuantity_def DecodeDecimal64_def LoadDecimal32Raw_def
      LoadDecimal64Raw_def demo_snapshot_zero_signed need_def Let_def NormalizeP6_def kNullI32_def kNullI64_def
      I32_MIN_def I64_MIN_def)

lemma run_steps_some:
  assumes "list_all (\<lambda>f. \<forall>s. \<exists>s'. f s = Inr s') fs"
  shows "\<exists>s'. run_steps fs s = Inr s'"
  using assms
proof (induction fs arbitrary: s)
  case (Cons f fs)
  then obtain s1 where "f s = Inr s1" by auto
  then show ?case using Cons by simp
qed simp

lemma demo_snapshot_steps:
  "\<exists>s'. run_steps (sh_snapshot_prices demo_snapshot_body) s = Inr s'"
  "\<exists>s'. run_steps (sh_snapshot_totals demo_snapshot_body) s = Inr s'"
  by (rule run_steps_some; simp add: sh_snapshot_prices_def sh_snapshot_totals_def demo_snapshot_fields)+

lemma demo_snapshot_lists:
  "ReadList demo_snapshot_body 228 28 sizeof_SHL2MarketData m rs = Inr (\<lparr>lv_start = 0, lv_count = 0, lv_item_size = 28\<rparr>, rs)"
  "ReadList demo_snapshot_body 236 28 sizeof_SHL2MarketData m rs = Inr (\<lparr>lv_start = 0, lv_count = 0, lv_item_size = 28\<rparr>, rs)"
  "ReadText demo_snapshot_body 38 sizeof_SHL2MarketData m False rs = Inr ([], rs)"
  by (simp_all add: ReadList_def ReadText_def sizeof_SHL2MarketData_def demo_snapshot_zero need_def empty_offset_ok_def)

lemma demo_snapshot_security:
  "ReadText demo_snapshot_body 4 sizeof_SHL2MarketData 16 True DynamicRangeScope
    = Inr ([54, 48, 48, 48, 48, 48], \<lparr>rs_protect = True, rs_ranges = [(248, 254)]\<rparr>)"
proof -
  have l: "length [54 :: byte, 48, 48, 48, 48, 48] = 6" by simp
  show ?thesis
    using ReadText_at [of 4 demo_snapshot_body "[54, 48, 48, 48, 48, 48]" 244 "replicate 238 0 @ [54, 48, 48, 48, 48, 48]"
      "[]" 16 248 DynamicRangeScope, unfolded l]
    by (simp add: demo_snapshot_body_def text_descriptor_def sizeof_SHL2MarketData_def IsPrintableAscii_def DynamicRangeScope_def)
qed

lemma demo_snapshot_decodes:
  "\<exists>r rs. decode_snapshot_scoped demo_snapshot_message 20240102 demo_limits demo_catalog = Inr (r, rs)"
proof -
  have "\<exists>r rs. DecodeShanghaiSnapshot demo_snapshot_message 20240102 demo_limits demo_catalog DynamicRangeScope = Inr (r, rs)"
  proof -
    have body: "mv_body demo_snapshot_message = demo_snapshot_body" by (simp add: demo_snapshot_message_def)
    have time: "\<exists>s'. snap_exchange_time demo_snapshot_body 0 s = Inr s'" for s
    proof -
      have "LoadUnsigned demo_snapshot_body 0 = Some (0 :: u32)"
        by (rule LoadUnsigned_le_bytes [where rest = "text_descriptor 6 244 @ replicate 238 0 @ [54, 48, 48, 48, 48, 48]"])
          (simp_all add: demo_snapshot_body_def le_bytes_zero)
      then show ?thesis by (simp add: snap_exchange_time_def need_def split: prod.splits)
    qed
    have "\<exists>p. ReadIdentity demo_snapshot_body Market_kShanghai sizeof_SHL2MarketData SIZE_MAX 4 SIZE_MAX demo_limits c
        DynamicRangeScope = Inr p" for c
      by (simp add: ReadIdentity_def read_optional_text_def demo_snapshot_security Let_def)
    then obtain idf where id: "ReadIdentity demo_snapshot_body Market_kShanghai sizeof_SHL2MarketData SIZE_MAX 4 SIZE_MAX demo_limits c
        DynamicRangeScope = Inr (idf c)" for c by metis
    obtain tf where tf: "snap_exchange_time demo_snapshot_body 0 s = Inr (tf s)" for s using time by metis
    obtain pf where pf: "run_steps (sh_snapshot_prices demo_snapshot_body) s = Inr (pf s)" for s
      using demo_snapshot_steps(1) by metis
    obtain nf where nf: "run_steps (sh_snapshot_totals demo_snapshot_body) s = Inr (nf s)" for s
      using demo_snapshot_steps(2) by metis
    have fixed: "\<not> 254 < sizeof_SHL2MarketData" by (simp add: sizeof_SHL2MarketData_def)
    show ?thesis
      unfolding DecodeShanghaiSnapshot_def Let_def body
      by (simp add: id tf pf nf demo_snapshot_lists demo_snapshot_zero demo_snapshot_zero_signed need_def
          decode_books_def fixed Let_def split: prod.splits)
  qed
  moreover have "ClassifyMessage (hdr_key (mv_header demo_snapshot_message)) = MessageClass_kShanghaiSnapshot"
    by (simp add: demo_snapshot_message_def ClassifyMessage_def)
  ultimately show ?thesis by (simp add: decode_snapshot_scoped_def demo_limits_def SIZE_MAX_def)
qed

section \<open>The properties\<close>





text \<open>C26. A snapshot is routed by the identity its decode reports: whenever a snapshot decodes, the
  admission route was the hash of exactly the source and security of the decoded record, so all
  snapshots of an instrument take the same route.\<close>

theorem snapshot_route_agrees:
  assumes "DecodeSnapshot message trade_date limits cat = Inr r"
    and "maximum_text_bytes limits \<le> kMaximumIdentityBytes"
  shows "ExtractAdmissionRoute (ClassifyMessage (hdr_key (mv_header message))) (mv_body message)
    = Some (HashRouteBytes (fst (snd (identity_key (c_identity (s_common (sd_snapshot r))))))
        (snd (snd (identity_key (c_identity (s_common (sd_snapshot r)))))))"
proof -
  obtain rs where "decode_snapshot_scoped message trade_date limits cat = Inr (r, rs)"
    using assms(1) unfolding DecodeSnapshot_scoped by blast
  from decode_snapshot_post [OF this assms(2)] show ?thesis by auto
qed

theorem snapshot_route_agrees_witness:
  "\<exists>r. DecodeSnapshot demo_snapshot_message 20240102 demo_limits demo_catalog = Inr r \<and>
    ExtractAdmissionRoute (ClassifyMessage (hdr_key (mv_header demo_snapshot_message))) (mv_body demo_snapshot_message)
      = Some (HashRouteBytes (fst (snd (identity_key (c_identity (s_common (sd_snapshot r))))))
        (snd (snd (identity_key (c_identity (s_common (sd_snapshot r)))))))"
proof -
  obtain r where r: "DecodeSnapshot demo_snapshot_message 20240102 demo_limits demo_catalog = Inr r"
    using demo_snapshot_decodes DecodeSnapshot_scoped by blast
  show ?thesis using snapshot_route_agrees [OF r] r by simp
qed

text \<open>C35. Ticks are routed by their exchange channel and by nothing else: of two tick bodies with a
  native position, the routes are equal exactly when market and channel are.\<close>

theorem tick_route_channel:
  assumes "ExtractTickNativeDescriptor c body = Some (market, channel, seq)"
    and "ExtractTickNativeDescriptor c' body' = Some (market', channel', seq')"
  shows "ExtractAdmissionRoute c body \<noteq> None \<and>
    (ExtractAdmissionRoute c body = ExtractAdmissionRoute c' body' \<longleftrightarrow> market = market' \<and> channel = channel')"
  using descriptor_route [OF assms(1)] descriptor_route [OF assms(2)] channel_route_inj by auto

theorem tick_route_channel_witness:
  "\<exists>channel seq. ExtractTickNativeDescriptor MessageClass_kShenzhenOrder (sz_order_bytes demo_order)
      = Some (Market_kShenzhen, channel, seq) \<and>
    ExtractAdmissionRoute MessageClass_kShenzhenOrder (sz_order_bytes demo_order) \<noteq> None"
proof -
  obtain r rs where s: "decode_tick_scoped demo_message 20240102 demo_limits demo_catalog = Inr (r, rs)"
    using demo_decodes by blast
  have k: "ClassifyMessage (hdr_key (mv_header demo_message)) = MessageClass_kShenzhenOrder"
    "mv_body demo_message = sz_order_bytes demo_order"
    by (simp_all add: demo_message_simps ClassifyMessage_def mk_key_def)
  from decode_tick_post(1) [OF s] obtain market channel seq where
    d: "ExtractTickNativeDescriptor MessageClass_kShenzhenOrder (sz_order_bytes demo_order) = Some (market, channel, seq)"
    unfolding k by auto
  then have "market = Market_kShenzhen"
    by (auto simp: ExtractTickNativeDescriptor_def split: if_splits option.splits)
  then show ?thesis using d tick_route_channel [OF d d] by blast
qed

end
