(* ===== verification/Engine_Config.thy ===== *)
theory Engine_Config
  imports Lane_Sink Lane_Storage Catalog
begin

text \<open>
  Component \<open>src/engine.cpp\<close>, configuration: the trade date, \<open>ValidateConfig\<close> with its checks in
  the order of the code, and the calendar it accepts.  The size members are \<open>std::size_t\<close> values,
  kept as natural numbers.
\<close>

section \<open>Trade dates\<close>

definition IsLeapYear :: "u32 \<Rightarrow> bool" where
  "IsLeapYear year \<longleftrightarrow> year mod 4 = 0 \<and> (year mod 100 \<noteq> 0 \<or> year mod 400 = 0)"

definition month_days :: "u32 list" where
  "month_days = [31, 28, 31, 30, 31, 30, 31, 31, 30, 31, 30, 31]"

definition IsTradeDateValid :: "u32 \<Rightarrow> bool" where
  "IsTradeDateValid v =
    (let year = v div 10000; month = (v div 100) mod 100; day = v mod 100 in
     if year < 1992 \<or> year > 2200 \<or> month = 0 \<or> month > 12 \<or> day = 0 then False
     else let maximum = month_days ! unat (month - 1);
              maximum1 = (if month = 2 \<and> IsLeapYear year then 29 else maximum) in
       day \<le> maximum1)"

section \<open>The configuration checks\<close>

text \<open>\<open>None\<close> when the configuration is accepted, otherwise the message of the first failing check.\<close>

definition ValidateConfig :: "EngineConfig \<Rightarrow> InstrumentCatalog \<Rightarrow> string option" where
  "ValidateConfig cfg cat =
    (if \<not> IsTradeDateValid (trade_date cfg) then Some ''trade_date is not a supported valid calendar date''
     else if length (ic_entries cat) = 0 then Some ''instrument catalog is empty''
     else if enabled_streams cfg = 0 \<or> enabled_streams cfg AND NOT kSupportedStreamMask \<noteq> 0
     then Some ''enabled_streams contains no stream or an unknown bit''
     else if tick_decoder_lanes cfg = 0 \<or> snapshot_decoder_lanes cfg = 0 \<or> instrument_workers cfg = 0
     then Some ''lane and instrument worker counts must be positive''
     else if tick_slots_per_lane cfg < 2 \<or> snapshot_slots_per_lane cfg < 2 \<or>
       maximum_tick_body_bytes cfg < 70 \<or> maximum_snapshot_body_bytes cfg < 248 \<or>
       dispatch_queue_capacity cfg < 2 \<or> diagnostic_queue_capacity cfg < 2 \<or> late_recovery_queue_capacity cfg < 2
     then Some ''slot, body, or dispatch capacity is too small''
     else if maximum_channels_per_tick_lane cfg = 0
     then Some ''maximum_channels_per_tick_lane must be positive''
     else if tick_slots_per_lane cfg > U32_MAX \<or> snapshot_slots_per_lane cfg > U32_MAX \<or>
       tick_slots_per_lane cfg > SIZE_MAX div maximum_tick_body_bytes cfg \<or>
       snapshot_slots_per_lane cfg > SIZE_MAX div maximum_snapshot_body_bytes cfg \<or>
       tick_decoder_lanes cfg > SIZE_MAX div instrument_workers cfg \<or>
       snapshot_decoder_lanes cfg > SIZE_MAX div instrument_workers cfg \<or>
       tick_decoder_lanes cfg > SIZE_MAX div maximum_channels_per_tick_lane cfg
     then Some ''configured bounded storage size overflows size_t''
     else if maximum_channels_per_tick_lane cfg > U32_MAX - 1 \<or>
       maximum_channels_per_tick_lane cfg > SIZE_MAX div 2 \<or>
       \<not> IsPowerOfTwo (reorder_entries_per_channel cfg) \<or> reorder_entries_per_channel cfg < 2 \<or>
       unat (maximum_reorder_span cfg) > reorder_entries_per_channel cfg
     then Some ''reorder entries must be a power of two and be at least the maximum reorder span''
     else if cfg_maximum_text_bytes cfg = 0 \<or> cfg_maximum_text_bytes cfg > kMaximumIdentityBytes \<or>
       cfg_maximum_depth_items cfg = 0 \<or> cfg_maximum_queue_items cfg = 0 \<or> recovery_timer_scan_ns cfg = 0
     then Some ''decoder or recovery timer limits are invalid''
     else if first_decoder_cpu cfg < -1 then Some ''first_decoder_cpu must be -1 or nonnegative''
     else None)"

section \<open>The accepted dates\<close>

text \<open>The Gregorian calendar, as the reference.\<close>

definition leap_year :: "nat \<Rightarrow> bool" where
  "leap_year y \<longleftrightarrow> 4 dvd y \<and> (100 dvd y \<longrightarrow> 400 dvd y)"

definition days_in_month :: "nat \<Rightarrow> nat \<Rightarrow> nat" where
  "days_in_month y m = (if m = 2 then (if leap_year y then 29 else 28)
     else if m \<in> {4, 6, 9, 11} then 30 else 31)"

lemma IsLeapYear_iff: "IsLeapYear y \<longleftrightarrow> leap_year (unat y)"
proof -
  have "y mod 4 = 0 \<longleftrightarrow> 4 dvd unat y" "y mod 100 = 0 \<longleftrightarrow> 100 dvd unat y" "y mod 400 = 0 \<longleftrightarrow> 400 dvd unat y"
    by (simp_all add: word_unat_eq_iff unat_mod dvd_eq_mod_eq_0)
  then show ?thesis by (auto simp: IsLeapYear_def leap_year_def)
qed

lemma month_days_reference:
  assumes "1 \<le> m" and "m \<le> 12"
  shows "unat (month_days ! (m - 1)) = (if m = 2 then 28 else days_in_month y m)"
proof -
  have "m \<in> {1, 2, 3, 4, 5, 6, 7, 8, 9, 10, 11, 12}"
    unfolding insert_iff empty_iff using assms by presburger
  then show ?thesis by (auto simp: month_days_def days_in_month_def)
qed

lemma IsTradeDateValid_iff:
  "IsTradeDateValid v \<longleftrightarrow> (let y = unat v div 10000; m = unat v div 100 mod 100; d = unat v mod 100 in
     1992 \<le> y \<and> y \<le> 2200 \<and> 1 \<le> m \<and> m \<le> 12 \<and> 1 \<le> d \<and> d \<le> days_in_month y m)"
proof -
  let ?y = "unat v div 10000" and ?m = "unat v div 100 mod 100" and ?d = "unat v mod 100"
  have w: "unat (v div 10000) = ?y" "unat ((v div 100) mod 100) = ?m" "unat (v mod 100) = ?d"
    by (simp_all add: unat_div unat_mod)
  have lt: "v div 10000 < 1992 \<longleftrightarrow> ?y < 1992" "2200 < v div 10000 \<longleftrightarrow> 2200 < ?y"
    "12 < (v div 100) mod 100 \<longleftrightarrow> 12 < ?m" "(v div 100) mod 100 = 0 \<longleftrightarrow> ?m = 0" "v mod 100 = 0 \<longleftrightarrow> ?d = 0"
    "(v div 100) mod 100 = 2 \<longleftrightarrow> ?m = 2"
    by (simp_all only: word_less_nat_alt word_unat_eq_iff w) simp_all
  have pre: "unat ((v div 100) mod 100 - 1) = ?m - 1" if "?m \<noteq> 0"
    using that lt(4) w(2) by (simp add: unat_minus_one)
  have le: "v mod 100 \<le> (if ?m = 2 \<and> IsLeapYear (v div 10000) then 29 else month_days ! (?m - 1))
      \<longleftrightarrow> ?d \<le> days_in_month ?y ?m" if "1 \<le> ?m" "?m \<le> 12"
    using month_days_reference [OF that, of ?y] that
    by (auto simp: word_le_nat_alt w IsLeapYear_iff days_in_month_def split: if_splits)
  show ?thesis
    unfolding IsTradeDateValid_def Let_def lt
    using pre le by auto
qed

text \<open>C39. The trade dates accepted are exactly the days of the Gregorian calendar from 1992 to 2200,
  written YYYYMMDD.\<close>

theorem trade_date_exact:
  "IsTradeDateValid v \<longleftrightarrow> (\<exists>y m d. unat v = y * 10000 + m * 100 + d \<and> 1992 \<le> y \<and> y \<le> 2200 \<and>
     1 \<le> m \<and> m \<le> 12 \<and> 1 \<le> d \<and> d \<le> days_in_month y m)"
proof
  assume "IsTradeDateValid v"
  moreover have "unat v = unat v div 10000 * 10000 + unat v div 100 mod 100 * 100 + unat v mod 100"
  proof -
    have compose: "n = y * 10000 + m * 100 + r" if "n = q * 100 + r" "q = y * 100 + m" for n q r y m :: nat
      using that by simp
    show ?thesis
    proof (rule compose)
      show "unat v = unat v div 100 * 100 + unat v mod 100" by (rule div_mult_mod_eq [symmetric])
      have "unat v div 100 div 100 = unat v div 10000" by (simp only: div_mult2_eq [symmetric]) simp
      then show "unat v div 100 = unat v div 10000 * 100 + unat v div 100 mod 100"
        using div_mult_mod_eq [of "unat v div 100" 100] by simp
    qed
  qed
  ultimately show "\<exists>y m d. unat v = y * 10000 + m * 100 + d \<and> 1992 \<le> y \<and> y \<le> 2200 \<and>
     1 \<le> m \<and> m \<le> 12 \<and> 1 \<le> d \<and> d \<le> days_in_month y m"
    unfolding IsTradeDateValid_iff Let_def by blast
next
  assume "\<exists>y m d. unat v = y * 10000 + m * 100 + d \<and> 1992 \<le> y \<and> y \<le> 2200 \<and>
     1 \<le> m \<and> m \<le> 12 \<and> 1 \<le> d \<and> d \<le> days_in_month y m"
  then obtain y m d where v: "unat v = y * 10000 + m * 100 + d" "1992 \<le> y" "y \<le> 2200" "1 \<le> m" "m \<le> 12"
    "1 \<le> d" "d \<le> days_in_month y m" by blast
  have "d < 100" using v(7) by (simp add: days_in_month_def split: if_splits)
  have split: "(q * k + r) div k = q" "(q * k + r) mod k = r" if "r < k" for q k r :: nat
    using that by simp_all
  have "unat v = (y * 100 + m) * 100 + d" using v(1) by simp
  then have "unat v div 100 = y * 100 + m" "unat v mod 100 = d" using split [OF \<open>d < 100\<close>] by metis+
  moreover have "(y * 100 + m) div 100 = y" using v(5) split(1) [of m 100 y] by simp
  then have "unat v div 10000 = y"
    using calculation(1) div_mult2_eq [of "unat v" 100 100] by simp
  moreover have "(y * 100 + m) mod 100 = m" using v(5) by simp
  ultimately show "IsTradeDateValid v" using v unfolding IsTradeDateValid_iff Let_def by simp
qed

end
