(* ===== verification/Workers.thy ===== *)
theory Workers
  imports Lane_Books Recovery_Claims Lane_Storage Decoder_Claims Decoder_Snapshot_Claims Engine_Config
begin

text \<open>
  The bodies of \<open>TickWorker\<close> and \<open>SnapshotWorker\<close> of \<open>src/engine.cpp\<close>: what one turn of the
  \<open>for (;;)\<close> loop of a decoder lane does to its storage, its recovery and its environment.  The
  value read from \<open>running_\<close> and the monotonic clock are arguments of a turn.  \<open>idle_spins\<close> only
  chooses between two ways of waiting and is left out.  A turn is \<open>None\<close> when the code would not
  return from it, or would read a slot that was never written; that neither happens is proved.
\<close>

section \<open>The tick lane\<close>

record TickWorker =
  tw_lane :: LaneStorage
  tw_recovery :: SequenceRecovery
  tw_env :: LaneEnv
  tw_next_timer :: u64
  tw_finished :: bool

definition worker_limits :: "EngineConfig \<Rightarrow> DecoderLimits" where
  "worker_limits cfg = \<lparr>maximum_text_bytes = cfg_maximum_text_bytes cfg,
     maximum_depth_items = cfg_maximum_depth_items cfg, maximum_queue_items = cfg_maximum_queue_items cfg\<rparr>"

text \<open>What the tick lane does with one message, between consuming and releasing its slot.\<close>

definition tick_message ::
  "EngineConfig \<Rightarrow> InstrumentCatalog \<Rightarrow> nat \<Rightarrow> OwnedMessageView \<Rightarrow> SequenceRecovery \<Rightarrow> LaneEnv
     \<Rightarrow> (SequenceRecovery \<times> LaneEnv) option" where
  "tick_message cfg cat lane_index message rec env =
    (case DecodeTick message (trade_date cfg) (worker_limits cfg) cat of
       Inr decoded \<Rightarrow>
         let env1 = lane_stat (\<lambda>s. s\<lparr>ts_decoded_ticks := ts_decoded_ticks s + 1\<rparr>) env;
             env2 = (if td_catalog_match decoded then env1
               else lane_stat (\<lambda>s. s\<lparr>ts_catalog_misses := ts_catalog_misses s + 1\<rparr>) env1) in
         Process (lane_sink cfg lane_index) decoded (mv_receive_monotonic_ns message) rec env2
     | Inl error \<Rightarrow>
         let env1 = lane_stat (\<lambda>s. s\<lparr>ts_decode_errors := ts_decode_errors s + 1\<rparr>) env in
         if start_mode cfg = StartMode_kFromOpen
         then (case ExtractTickNativeDescriptor (ClassifyMessage (hdr_key (mv_header message))) (mv_body message) of
             Some (market, channel, seq) \<Rightarrow> Some (FreezeDecodeFailure (lane_sink cfg lane_index)
               market channel seq (mv_receive_monotonic_ns message) rec env1)
           | None \<Rightarrow> Some (rec, lane_fatal
               ''from-open tick decode failed and its native channel position was invalid'' env1))
         else Some (rec, env1))"

text \<open>The recovery timer; the next deadline wraps at 64 bits as in the code.\<close>

definition tick_timer :: "EngineConfig \<Rightarrow> nat \<Rightarrow> u64 \<Rightarrow> TickWorker \<Rightarrow> TickWorker" where
  "tick_timer cfg lane_index now w =
    (if now \<ge> tw_next_timer w
     then let (rec, env) = Poll (lane_sink cfg lane_index) now (tw_recovery w) (tw_env w) in
       w\<lparr>tw_recovery := rec, tw_env := env, tw_next_timer := now + recovery_timer_scan_ns cfg\<rparr>
     else w)"

definition TickWorker_turn ::
  "EngineConfig \<Rightarrow> InstrumentCatalog \<Rightarrow> nat \<Rightarrow> bool \<Rightarrow> u64 \<Rightarrow> TickWorker \<Rightarrow> TickWorker option" where
  "TickWorker_turn cfg cat lane_index running now w =
    (let (consumed, lane) = TryConsume (tw_lane w); w1 = w\<lparr>tw_lane := lane\<rparr> in
     case consumed of
       Some (slot, view) \<Rightarrow>
         Option.bind view (\<lambda>message.
         Option.bind (tick_message cfg cat lane_index message (tw_recovery w1) (tw_env w1)) (\<lambda>(rec, env).
           let (released, lane1) = Release slot (tw_lane w1);
               env1 = (if released then env else lane_fatal ''tick lane recycle queue invariant failed'' env) in
           Some (tick_timer cfg lane_index (mv_receive_monotonic_ns message)
             (w1\<lparr>tw_lane := lane1, tw_recovery := rec, tw_env := env1\<rparr>))))
     | None \<Rightarrow>
         let w2 = tick_timer cfg lane_index now w1 in
         if \<not> running \<and> lane_empty (tw_lane w2)
         then map_option (\<lambda>(rec, env). w2\<lparr>tw_recovery := rec, tw_env := env, tw_finished := True\<rparr>)
           (Flush (lane_sink cfg lane_index) now (tw_recovery w2) (tw_env w2))
         else Some w2)"

section \<open>The snapshot lane\<close>

text \<open>The environment's tick counters belong to the tick lanes; a snapshot lane counts in \<open>sw_stats\<close>.\<close>

record SnapshotWorker =
  sw_lane :: LaneStorage
  sw_stats :: SnapshotLaneStats
  sw_env :: LaneEnv
  sw_finished :: bool

text \<open>\<open>PublishBounded\<close> with the overflow counter of the snapshot lane.\<close>

definition publish_snapshot ::
  "EngineConfig \<Rightarrow> nat \<Rightarrow> CanonicalSnapshot \<Rightarrow> SnapshotLaneStats \<Rightarrow> LaneEnv \<Rightarrow> SnapshotLaneStats \<times> LaneEnv" where
  "publish_snapshot cfg lane_index snapshot stats env =
    (let owner = InstrumentOwner (instrument_workers cfg) (c_instrument_ordinal (s_common snapshot)) in
     case publish_spins kMaximumSpins (PublishSnapshot lane_index owner snapshot) env of
       (True, env1) \<Rightarrow> (stats\<lparr>ss_dispatched_snapshots := ss_dispatched_snapshots stats + 1\<rparr>, env1)
     | (False, env1) \<Rightarrow> (stats\<lparr>ss_dispatch_overflows := ss_dispatch_overflows stats + 1\<rparr>,
         lane_fatal ''instrument snapshot dispatch queue overflow'' env1))"

definition snapshot_message ::
  "EngineConfig \<Rightarrow> InstrumentCatalog \<Rightarrow> nat \<Rightarrow> OwnedMessageView \<Rightarrow> SnapshotLaneStats \<Rightarrow> LaneEnv
     \<Rightarrow> SnapshotLaneStats \<times> LaneEnv" where
  "snapshot_message cfg cat lane_index message stats env =
    (case DecodeSnapshot message (trade_date cfg) (worker_limits cfg) cat of
       Inr decoded \<Rightarrow>
         let stats1 = stats\<lparr>ss_decoded_snapshots := ss_decoded_snapshots stats + 1\<rparr> in
         if sd_catalog_match decoded
         then publish_snapshot cfg lane_index (sd_snapshot decoded) stats1 env
         else (stats1\<lparr>ss_catalog_misses := ss_catalog_misses stats1 + 1\<rparr>, env)
     | Inl error \<Rightarrow> (stats\<lparr>ss_decode_errors := ss_decode_errors stats + 1\<rparr>, env))"

definition SnapshotWorker_turn ::
  "EngineConfig \<Rightarrow> InstrumentCatalog \<Rightarrow> nat \<Rightarrow> bool \<Rightarrow> SnapshotWorker \<Rightarrow> SnapshotWorker option" where
  "SnapshotWorker_turn cfg cat lane_index running w =
    (let (consumed, lane) = TryConsume (sw_lane w); w1 = w\<lparr>sw_lane := lane\<rparr> in
     case consumed of
       Some (slot, view) \<Rightarrow>
         Option.bind view (\<lambda>message.
           let (stats, env) = snapshot_message cfg cat lane_index message (sw_stats w1) (sw_env w1);
               (released, lane1) = Release slot (sw_lane w1);
               env1 = (if released then env else lane_fatal ''snapshot lane recycle queue invariant failed'' env) in
           Some (w1\<lparr>sw_lane := lane1, sw_stats := stats, sw_env := env1\<rparr>))
     | None \<Rightarrow>
         if \<not> running \<and> lane_empty (sw_lane w1) then Some (w1\<lparr>sw_finished := True\<rparr>) else Some w1)"

section \<open>One message leaves a lane\<close>

text \<open>Consuming and releasing, as both workers do it.\<close>

lemma consume_release:
  assumes ok: "lane_ok [] lane" and con: "TryConsume lane = (r, lane1)"
  shows "r = None \<Longrightarrow> lane_queue lane = [] \<and> lane_ok [] lane1 \<and> lane_queue lane1 = [] \<and> lane_empty lane1"
    and "r = Some (slot, view) \<Longrightarrow> \<exists>message lane2. view = Some message \<and>
      lane_queue lane = message # lane_queue lane2 \<and> Release slot lane1 = (True, lane2) \<and> lane_ok [] lane2 \<and>
      ls_slot_count lane2 = ls_slot_count lane \<and> ls_maximum_body_bytes lane2 = ls_maximum_body_bytes lane"
    and "ls_slot_count lane1 = ls_slot_count lane" "ls_maximum_body_bytes lane1 = ls_maximum_body_bytes lane"
proof -
  note C = TryConsume_spec [OF ok con]
  show "ls_slot_count lane1 = ls_slot_count lane" "ls_maximum_body_bytes lane1 = ls_maximum_body_bytes lane"
    by (rule C)+
  {
    assume r: "r = None"
    obtain v q where p: "TryPop (ls_ready lane) = (v, q)" by (cases "TryPop (ls_ready lane)")
    have v: "v = None" "lane1 = lane\<lparr>ls_ready := q\<rparr>"
      using con r p by (auto simp: TryConsume_def Let_def split: option.splits)
    from ring.pop_cases [OF lane_okD(4) [OF ok]] have q: "ring_ok q" "ring_list q = []"
      using p v by (auto elim!: ring.pop_cases)
    have "lane_queue lane1 = []" using q v by (simp add: lane_queue_def)
    moreover have "lane_empty lane1" using q v by (simp add: lane_empty_def ring_empty_iff)
    ultimately show "lane_queue lane = [] \<and> lane_ok [] lane1 \<and> lane_queue lane1 = [] \<and> lane_empty lane1"
      using C(1) r by simp
  }
  assume r: "r = Some (slot, view)"
  then have c: "lane_ok ([] @ [slot]) lane1" "view \<noteq> None" "lane_queue lane = the view # lane_queue lane1"
    using C(1) by simp_all
  obtain b lane2 where rel: "Release slot lane1 = (b, lane2)" by (cases "Release slot lane1")
  note R = Release_spec [OF c(1) rel]
  show "\<exists>message lane2. view = Some message \<and>
      lane_queue lane = message # lane_queue lane2 \<and> Release slot lane1 = (True, lane2) \<and> lane_ok [] lane2 \<and>
      ls_slot_count lane2 = ls_slot_count lane \<and> ls_maximum_body_bytes lane2 = ls_maximum_body_bytes lane"
    using c(2,3) R rel C(2,3) by (intro exI [of _ "the view"] exI [of _ lane2]) auto
qed

section \<open>The recovery of a tick lane, for every owner\<close>

definition lane_good ::
  "EngineConfig \<Rightarrow> nat \<Rightarrow> (Market \<times> u32 \<Rightarrow> bool) \<Rightarrow> SequenceRecovery \<Rightarrow> LaneEnv \<Rightarrow> bool" where
  "lane_good cfg l home rec env \<longleftrightarrow> env_ok cfg env \<and> 0 < instrument_workers cfg \<and> l < tick_decoder_lanes cfg \<and>
     (\<forall>w < instrument_workers cfg. lane.rec_ok cfg l w home rec env \<and> lane.ordered l w rec env)"

lemma lane_good_env:
  assumes "lane_good cfg l home rec env" and "env_ok cfg env'"
    and "\<And>w. w < instrument_workers cfg \<Longrightarrow> lane_view l w env' = lane_view l w env"
  shows "lane_good cfg l home rec env'"
  using assms(1,2) assms(3)
  by (auto simp: lane_good_def lane.rec_ok_def lane.ordered_def env_ok_lane_inv)

lemma lane_view_fatal [simp]: "lane_view l w (lane_fatal m env) = lane_view l w env"
  by (simp add: lane_view_def lane_fatal_def)

lemma lane_good_fields:
  assumes "lane_good cfg l home rec env"
  shows "lane_good cfg l home rec (lane_stat f env)" "lane_good cfg l home rec (lane_fatal m env)"
  by (rule lane_good_env [OF assms]; use assms in \<open>simp add: lane_good_def env_ok_fields lane_stat_kept\<close>)+

text \<open>What a lane may do to the environment.\<close>

definition lane_moves :: "EngineConfig \<Rightarrow> nat \<Rightarrow> LaneEnv \<Rightarrow> LaneEnv \<Rightarrow> bool" where
  "lane_moves cfg l env env' \<longleftrightarrow> observed cfg {l} {} env' = observed cfg {l} {} env \<and>
     (lane_healthy env' \<longrightarrow> lane_healthy env) \<and> health_moves (le_health env) (le_health env') \<and>
     books cfg l env' = books cfg l env \<and> calls_scheduled env env'"

lemma lane_moves_refl [simp]: "lane_moves cfg l env env"
  by (simp add: lane_moves_def)

lemma lane_moves_trans: "lane_moves cfg l a b \<Longrightarrow> lane_moves cfg l b c \<Longrightarrow> lane_moves cfg l a c"
  unfolding lane_moves_def using health_moves_trans calls_scheduled_trans by simp blast

lemma lane_moves_fields:
  "keeps_dispatched f \<Longrightarrow> lane_moves cfg l env (lane_stat f env)" "lane_moves cfg l env (lane_fatal m env)"
proof -
  show "keeps_dispatched f \<Longrightarrow> lane_moves cfg l env (lane_stat f env)"
    by (simp add: lane_moves_def observed_fields lane_stat_kept books_fields)
  have "lane_healthy (lane_fatal m env) \<Longrightarrow> lane_healthy env"
    by (auto simp: lane_healthy_def lane_fatal_def SetFatal_def split: if_splits)
  then show "lane_moves cfg l env (lane_fatal m env)"
    by (simp add: lane_moves_def observed_fields books_fields) (simp add: lane_fatal_def)
qed

lemma recovery_step_good:
  assumes good: "lane_good cfg l home rec env" and x: "input_ok x" "lane.home_input home x"
  shows "\<exists>rec' env'. recovery_step (lane_sink cfg l) x rec env = Some (rec', env') \<and>
    lane_good cfg l home rec' env' \<and> lane_moves cfg l env env'"
proof -
  have served: "\<exists>s' I. recovery_step (lane_sink cfg l) x rec env = Some s' \<and> lane.served cfg l w home I (rec, env) s'"
    if "w < instrument_workers cfg" for w
    using good that lane.recovery_step_served [OF _ _ x, of cfg l w rec env] by (auto simp: lane_good_def)
  have w0: "0 < instrument_workers cfg" using good by (simp add: lane_good_def)
  from served [OF w0] obtain s' I where s': "recovery_step (lane_sink cfg l) x rec env = Some s'"
    "lane.served cfg l 0 home I (rec, env) s'" by blast
  obtain rec' env' where p: "s' = (rec', env')" by (cases s')
  have step: "recovery_step (lane_sink cfg l) x rec env = Some (rec', env')" using s' p by simp
  have rec0: "lane.rec_ok cfg l 0 home rec env" and ok: "env_ok cfg env" using good w0 by (simp_all add: lane_good_def)
  note F = recovery_step_frame [OF rec0 ok x step]
  have "lane.rec_ok cfg l w home rec' env' \<and> lane.ordered l w rec' env'" if "w < instrument_workers cfg" for w
    using served [OF that] step by (auto simp: lane.served_def)
  then have "lane_good cfg l home rec' env'" using good F(1) by (simp add: lane_good_def)
  moreover have "lane_moves cfg l env env'"
    using F(2-5) s'(2) p by (auto simp: lane_moves_def lane.served_def lane.effect_def)
  ultimately show ?thesis using step by blast
qed

section \<open>A turn of the tick worker\<close>

text \<open>The channel a message names, if any, lives on the lane.\<close>

definition message_home :: "(Market \<times> u32 \<Rightarrow> bool) \<Rightarrow> OwnedMessageView \<Rightarrow> bool" where
  "message_home home message \<longleftrightarrow>
    (case ExtractTickNativeDescriptor (ClassifyMessage (hdr_key (mv_header message))) (mv_body message) of
       None \<Rightarrow> True | Some (market, channel, seq) \<Rightarrow> home (market, channel))"

lemma tick_message_good:
  assumes good: "lane_good cfg l home rec env" and home: "message_home home message"
    and lim: "cfg_maximum_text_bytes cfg \<le> kMaximumIdentityBytes"
  shows "\<exists>rec' env'. tick_message cfg cat l message rec env = Some (rec', env') \<and>
    lane_good cfg l home rec' env' \<and> lane_moves cfg l env env'"
proof (cases "DecodeTick message (trade_date cfg) (worker_limits cfg) cat")
  case (Inl e)
  let ?env1 = "lane_stat (\<lambda>s. s\<lparr>ts_decode_errors := ts_decode_errors s + 1\<rparr>) env"
  have g1: "lane_good cfg l home rec ?env1" "lane_moves cfg l env ?env1"
    by (rule lane_good_fields(1) [OF good], rule lane_moves_fields) simp
  consider (frozen) m c seq where "start_mode cfg = StartMode_kFromOpen"
      "ExtractTickNativeDescriptor (ClassifyMessage (hdr_key (mv_header message))) (mv_body message) = Some (m, c, seq)"
    | (unknown) "start_mode cfg = StartMode_kFromOpen"
      "ExtractTickNativeDescriptor (ClassifyMessage (hdr_key (mv_header message))) (mv_body message) = None"
    | (partial) "start_mode cfg \<noteq> StartMode_kFromOpen"
    by (metis option.exhaust prod_cases3)
  then show ?thesis
  proof cases
    case frozen
    then have "home (m, c)" using home by (simp add: message_home_def)
    then have "\<exists>rec' env'. recovery_step (lane_sink cfg l)
        (DecodeFailure m c seq (mv_receive_monotonic_ns message)) rec ?env1 = Some (rec', env') \<and>
        lane_good cfg l home rec' env' \<and> lane_moves cfg l ?env1 env'"
      by (intro recovery_step_good [OF g1(1)]) (simp_all add: input_ok_def lane.home_input_def)
    then show ?thesis using Inl frozen lane_moves_trans [OF g1(2)] by (auto simp: tick_message_def)
  next
    case unknown
    then show ?thesis using Inl lane_good_fields(2) [OF g1(1)] lane_moves_trans [OF g1(2) lane_moves_fields(2)]
      by (simp add: tick_message_def)
  next
    case partial
    then show ?thesis using Inl g1 by (simp add: tick_message_def)
  qed
next
  case (Inr decoded)
  let ?env1 = "lane_stat (\<lambda>s. s\<lparr>ts_decoded_ticks := ts_decoded_ticks s + 1\<rparr>) env"
  let ?env2 = "if td_catalog_match decoded then ?env1
    else lane_stat (\<lambda>s. s\<lparr>ts_catalog_misses := ts_catalog_misses s + 1\<rparr>) ?env1"
  have g2: "lane_good cfg l home rec ?env2" "lane_moves cfg l env ?env2"
    using lane_good_fields(1) [OF good] lane_good_fields(1) [OF lane_good_fields(1) [OF good]]
      lane_moves_fields(1) lane_moves_trans [OF lane_moves_fields(1) lane_moves_fields(1)]
    by simp_all
  have "maximum_text_bytes (worker_limits cfg) \<le> kMaximumIdentityBytes" using lim by (simp add: worker_limits_def)
  from decode_tick_post(1) [OF _ this] Inr obtain m c seq kind where
    d: "ExtractTickNativeDescriptor (ClassifyMessage (hdr_key (mv_header message))) (mv_body message) = Some (m, c, seq)"
    and t: "tick_post message (trade_date cfg) m kind c seq (td_tick decoded)" unfolding DecodeTick_scoped by blast
  have "home (m, c)" using home d by (simp add: message_home_def)
  then have "\<exists>rec' env'. recovery_step (lane_sink cfg l) (ProcessTick decoded (mv_receive_monotonic_ns message))
      rec ?env2 = Some (rec', env') \<and> lane_good cfg l home rec' env' \<and> lane_moves cfg l ?env2 env'"
    using t by (intro recovery_step_good [OF g2(1)]) (auto simp: input_ok_def lane.home_input_def tick_post_def)
  then show ?thesis using Inr lane_moves_trans [OF g2(2)] by (auto simp: tick_message_def Let_def)
qed

lemma tick_timer_good:
  assumes "lane_good cfg l home (tw_recovery w) (tw_env w)"
  shows "lane_good cfg l home (tw_recovery (tick_timer cfg l now w)) (tw_env (tick_timer cfg l now w)) \<and>
    lane_moves cfg l (tw_env w) (tw_env (tick_timer cfg l now w)) \<and>
    tw_lane (tick_timer cfg l now w) = tw_lane w \<and> tw_finished (tick_timer cfg l now w) = tw_finished w"
proof (cases "now \<ge> tw_next_timer w")
  case True
  obtain rec' env' where p: "Poll (lane_sink cfg l) now (tw_recovery w) (tw_env w) = (rec', env')"
    by (cases "Poll (lane_sink cfg l) now (tw_recovery w) (tw_env w)")
  have "\<exists>rec' env'. recovery_step (lane_sink cfg l) (PollDeadlines now) (tw_recovery w) (tw_env w)
      = Some (rec', env') \<and> lane_good cfg l home rec' env' \<and> lane_moves cfg l (tw_env w) env'"
    by (rule recovery_step_good [OF assms]) (simp_all add: input_ok_def lane.home_input_def)
  then show ?thesis using True p by (simp add: tick_timer_def)
next
  case False
  then show ?thesis using assms by (simp add: tick_timer_def)
qed

text \<open>The invariant of a tick lane between two turns.\<close>

definition tick_worker_ok :: "EngineConfig \<Rightarrow> nat \<Rightarrow> (Market \<times> u32 \<Rightarrow> bool) \<Rightarrow> TickWorker \<Rightarrow> bool" where
  "tick_worker_ok cfg l home w \<longleftrightarrow> lane_ok [] (tw_lane w) \<and> lane_good cfg l home (tw_recovery w) (tw_env w) \<and>
     list_all (message_home home) (lane_queue (tw_lane w)) \<and>
     (tw_finished w \<longrightarrow> lane_queue (tw_lane w) = [])"

definition recovery_drained :: "SequenceRecovery \<Rightarrow> bool" where
  "recovery_drained rec \<longleftrightarrow>
     (\<forall>i < sr_channel_count rec. cs_frozen (sr_channels rec ! i) \<or> retained (sr_channels rec ! i) = {#})"

lemma TickWorker_turn_good:
  assumes ok: "tick_worker_ok cfg l home w" and run: "\<not> tw_finished w"
    and lim: "cfg_maximum_text_bytes cfg \<le> kMaximumIdentityBytes"
  shows "\<exists>w'. TickWorker_turn cfg cat l running now w = Some w' \<and> tick_worker_ok cfg l home w' \<and>
    lane_moves cfg l (tw_env w) (tw_env w') \<and>
    lane_queue (tw_lane w') = tl (lane_queue (tw_lane w)) \<and>
    ls_slot_count (tw_lane w') = ls_slot_count (tw_lane w) \<and>
    ls_maximum_body_bytes (tw_lane w') = ls_maximum_body_bytes (tw_lane w) \<and>
    (tw_finished w' \<longleftrightarrow> \<not> running \<and> lane_queue (tw_lane w) = []) \<and>
    (tw_finished w' \<longrightarrow> recovery_drained (tw_recovery w'))"
proof -
  have lane: "lane_ok [] (tw_lane w)" and good: "lane_good cfg l home (tw_recovery w) (tw_env w)"
    and home: "list_all (message_home home) (lane_queue (tw_lane w))" using ok by (simp_all add: tick_worker_ok_def)
  obtain r lane1 where con: "TryConsume (tw_lane w) = (r, lane1)" by (cases "TryConsume (tw_lane w)")
  note C = consume_release [OF lane con]
  show ?thesis
  proof (cases r)
    case None
    note E = C(1) [OF None]
    let ?w2 = "tick_timer cfg l now (w\<lparr>tw_lane := lane1\<rparr>)"
    have T: "lane_good cfg l home (tw_recovery ?w2) (tw_env ?w2)" "lane_moves cfg l (tw_env w) (tw_env ?w2)"
      "tw_lane ?w2 = lane1" "\<not> tw_finished ?w2"
      using tick_timer_good [of cfg l home "w\<lparr>tw_lane := lane1\<rparr>" now] good run by simp_all
    have shape: "ls_slot_count lane1 = ls_slot_count (tw_lane w)"
      "ls_maximum_body_bytes lane1 = ls_maximum_body_bytes (tw_lane w)" by (rule C(3,4))+
    show ?thesis
    proof (cases running)
      case True
      have "TickWorker_turn cfg cat l running now w = Some ?w2"
        using con None True by (simp add: TickWorker_turn_def Let_def)
      moreover have "tick_worker_ok cfg l home ?w2" using T E by (simp add: tick_worker_ok_def)
      ultimately show ?thesis using T E True shape by (intro exI [of _ ?w2]) simp
    next
      case False
      have good2: "\<exists>rec' env'. recovery_step (lane_sink cfg l) (FlushAll now) (tw_recovery ?w2) (tw_env ?w2)
          = Some (rec', env') \<and> lane_good cfg l home rec' env' \<and> lane_moves cfg l (tw_env ?w2) env'"
        by (rule recovery_step_good [OF T(1)]) (simp_all add: input_ok_def lane.home_input_def)
      then obtain rec' env' where f: "Flush (lane_sink cfg l) now (tw_recovery ?w2) (tw_env ?w2) = Some (rec', env')"
        "lane_good cfg l home rec' env'" "lane_moves cfg l (tw_env ?w2) env'" by auto
      have "lane.rec_ok cfg l 0 home (tw_recovery ?w2) (tw_env ?w2)" "lane.ordered l 0 (tw_recovery ?w2) (tw_env ?w2)"
        using T(1) by (simp_all add: lane_good_def)
      from lane.Flush_served [OF this, of now] f(1) have "recovery_drained rec'"
        by (auto simp: recovery_drained_def lane.drained_def)
      moreover have "TickWorker_turn cfg cat l running now w
          = Some (?w2\<lparr>tw_recovery := rec', tw_env := env', tw_finished := True\<rparr>)"
        using con None False E T f by (simp add: TickWorker_turn_def Let_def)
      ultimately show ?thesis
        using T E f False shape lane_moves_trans [OF T(2) f(3)] by (simp add: tick_worker_ok_def)
    qed
  next
    case (Some sv)
    obtain slot view where sv: "sv = (slot, view)" by (cases sv)
    from C(2) Some sv obtain message lane2 where m: "view = Some message"
      "lane_queue (tw_lane w) = message # lane_queue lane2" "Release slot lane1 = (True, lane2)" "lane_ok [] lane2"
      "ls_slot_count lane2 = ls_slot_count (tw_lane w)"
      "ls_maximum_body_bytes lane2 = ls_maximum_body_bytes (tw_lane w)" by blast
    have mh: "message_home home message" "list_all (message_home home) (lane_queue lane2)" using home m(2) by simp_all
    from tick_message_good [OF good mh(1) lim] obtain rec' env' where
      t: "tick_message cfg cat l message (tw_recovery w) (tw_env w) = Some (rec', env')"
      "lane_good cfg l home rec' env'" "lane_moves cfg l (tw_env w) env'" by blast
    let ?w1 = "w\<lparr>tw_lane := lane2, tw_recovery := rec', tw_env := env'\<rparr>"
    let ?w' = "tick_timer cfg l (mv_receive_monotonic_ns message) ?w1"
    have T: "lane_good cfg l home (tw_recovery ?w') (tw_env ?w')" "lane_moves cfg l env' (tw_env ?w')"
      "tw_lane ?w' = lane2" "\<not> tw_finished ?w'"
      using tick_timer_good [of cfg l home ?w1 "mv_receive_monotonic_ns message"] t(2) run by simp_all
    have "TickWorker_turn cfg cat l running now w = Some ?w'"
      using con Some sv m(1,3) t(1) by (simp add: TickWorker_turn_def Let_def)
    then show ?thesis
      using T m mh lane_moves_trans [OF t(3) T(2)] by (intro exI [of _ ?w']) (simp add: tick_worker_ok_def)
  qed
qed

end
