(* ===== verification/Worker_Claims.thy ===== *)
theory Worker_Claims
  imports Workers
begin

text \<open>
  What the decoder lanes deliver: the snapshot worker sends on exactly the snapshots of its
  messages, in the order of admission, counts every one of them, and both workers leave an empty lane
  behind.
\<close>

section \<open>One message of a snapshot lane\<close>

text \<open>What a snapshot message contributes to the streams.\<close>

definition snapshot_output :: "EngineConfig \<Rightarrow> InstrumentCatalog \<Rightarrow> OwnedMessageView \<Rightarrow> CanonicalSnapshot list" where
  "snapshot_output cfg cat message =
    (case DecodeSnapshot message (trade_date cfg) (worker_limits cfg) cat of
       Inr decoded \<Rightarrow> if sd_catalog_match decoded then [sd_snapshot decoded] else []
     | Inl e \<Rightarrow> [])"

definition snapshot_owned :: "EngineConfig \<Rightarrow> nat \<Rightarrow> CanonicalSnapshot \<Rightarrow> bool" where
  "snapshot_owned cfg w s \<longleftrightarrow> InstrumentOwner (instrument_workers cfg) (c_instrument_ordinal (s_common s)) = w"

lemma attempt_snapshot: "attempt_frames cfg {} {l} (PublishSnapshot l w s)"
proof (rule attempt_framesI)
  fix d ok d' assume d: "dispatcher_ok d" "gap_ok d" and p: "PublishSnapshot l w s d = (ok, d')"
  show "edges_kept {} {l} d d'"
    using PublishSnapshot_spec [OF d(1) p] publishes_keep_diagnostics(3,4) [of l w s d]
      gap_ok_fields [OF d(2), of d'] gap_fields_pending [of d' d] gap_fields_kept(6) [of l w s d] p by (simp add: edges_kept_def)
qed

lemma consumer_turn_snapshots:
  assumes "env_ok cfg env" and "l < snapshot_decoder_lanes cfg" and "w < instrument_workers cfg"
  shows "snapshot_view l w (consumer_turn env) = snapshot_view l w env"
  using observedD(2) [OF consumer_turn_frame(2) [OF assms(1)]] assms by simp

lemma snapshot_spins:
  assumes "env_ok cfg env" and "l < snapshot_decoder_lanes cfg" and "w < instrument_workers cfg"
    and "publish_spins n (PublishSnapshot l owner s) env = (ok, env')"
  shows "snapshot_view l w env' = snapshot_view l w env @ (if ok \<and> owner = w then [s] else [])"
  using assms(1,4)
proof (induction n arbitrary: env)
  case (Suc n)
  obtain b d where p: "PublishSnapshot l owner s (le_dispatcher env) = (b, d)" by fastforce
  let ?env1 = "env\<lparr>le_dispatcher := d\<rparr>"
  have ok1: "env_ok cfg ?env1" using attempt_snapshot [of cfg l owner s] Suc.prems(1) p by (simp add: attempt_frames_def)
  have d: "dispatcher_ok (le_dispatcher env)" "l < dp_snapshot_producers (le_dispatcher env)"
    "w < dp_owners (le_dispatcher env)" using Suc.prems(1) assms(2,3) by (simp_all add: env_ok_def)
  have v1: "snapshot_view l w ?env1 = snapshot_view l w env @ (if b \<and> owner = w then [s] else [])"
    using PublishSnapshot_spec(3) [OF d(1) p d(2,3)] by (auto simp: snapshot_view_def)
  show ?case
  proof (cases b)
    case True
    then show ?thesis using Suc.prems(2) p v1 by auto
  next
    case False
    then have "publish_spins n (PublishSnapshot l owner s) (consumer_turn ?env1) = (ok, env')"
      using Suc.prems(2) p by simp
    from Suc.IH [OF consumer_turn_frame(1) [OF ok1] this] show ?thesis
      using consumer_turn_snapshots [OF ok1 assms(2,3)] v1 False by simp
  qed
qed simp

lemma snapshot_spins_owner:
  assumes "env_ok cfg env" and "publish_spins n (PublishSnapshot l owner s) env = (True, env')"
  shows "owner < instrument_workers cfg"
  using assms
proof (induction n arbitrary: env)
  case (Suc n)
  obtain b d where p: "PublishSnapshot l owner s (le_dispatcher env) = (b, d)" by fastforce
  have ok1: "env_ok cfg (env\<lparr>le_dispatcher := d\<rparr>)"
    using attempt_snapshot [of cfg l owner s] Suc.prems(1) p by (simp add: attempt_frames_def)
  show ?case
  proof (cases b)
    case True
    then show ?thesis using p Suc.prems(1) by (auto simp: PublishSnapshot_def env_ok_def split: if_splits)
  next
    case False
    then show ?thesis using Suc.IH [OF consumer_turn_frame(1) [OF ok1]] Suc.prems(2) p by simp
  qed
qed simp

text \<open>The snapshots sent, and the books of a snapshot lane.\<close>

definition snapshots_sent :: "EngineConfig \<Rightarrow> nat \<Rightarrow> LaneEnv \<Rightarrow> nat" where
  "snapshots_sent cfg l env = (\<Sum>w<instrument_workers cfg. length (snapshot_view l w env))"

definition snapshot_books :: "EngineConfig \<Rightarrow> nat \<Rightarrow> SnapshotLaneStats \<Rightarrow> LaneEnv \<Rightarrow> u64" where
  "snapshot_books cfg l stats env = of_nat (snapshots_sent cfg l env) - ss_dispatched_snapshots stats"

lemma snapshots_sent_observed:
  assumes "observed cfg T U env' = observed cfg T U env" and "l < snapshot_decoder_lanes cfg" and "l \<notin> U"
  shows "snapshots_sent cfg l env' = snapshots_sent cfg l env"
  unfolding snapshots_sent_def using observedD(2) [OF assms(1)] assms(2,3) by simp

lemma snapshots_sent_fatal: "snapshots_sent cfg l (lane_fatal m env) = snapshots_sent cfg l env"
  by (simp add: snapshots_sent_def snapshot_view_def lane_fatal_def)

lemma publish_snapshot_books:
  assumes ok: "env_ok cfg env" and l: "l < snapshot_decoder_lanes cfg"
    and p: "publish_snapshot cfg l s stats env = (stats', env')"
  shows "snapshot_books cfg l stats' env' = snapshot_books cfg l stats env"
proof -
  let ?owner = "InstrumentOwner (instrument_workers cfg) (c_instrument_ordinal (s_common s))"
  obtain b env1 where spins: "publish_spins kMaximumSpins (PublishSnapshot l ?owner s) env = (b, env1)" by fastforce
  have len: "length (snapshot_view l w env1) = length (snapshot_view l w env) + (if b \<and> ?owner = w then 1 else 0)"
    if "w < instrument_workers cfg" for w
    using snapshot_spins [OF ok l that spins] by simp
  have "snapshots_sent cfg l env1
      = (\<Sum>w<instrument_workers cfg. length (snapshot_view l w env) + (if b \<and> ?owner = w then 1 else 0))"
    unfolding snapshots_sent_def using len by (intro sum.cong) simp_all
  moreover have "(\<Sum>w<instrument_workers cfg. if b \<and> ?owner = w then 1 else 0 :: nat) = (if b then 1 else 0)"
    using snapshot_spins_owner [OF ok, of kMaximumSpins l ?owner s env1] spins by (cases b) simp_all
  ultimately have sent: "snapshots_sent cfg l env1 = snapshots_sent cfg l env + (if b then 1 else 0)"
    by (simp add: snapshots_sent_def sum.distrib)
  show ?thesis
  proof (cases b)
    case True
    then have "stats' = stats\<lparr>ss_dispatched_snapshots := ss_dispatched_snapshots stats + 1\<rparr>" "env' = env1"
      using p spins by (simp_all add: publish_snapshot_def)
    then show ?thesis using sent True by (simp add: snapshot_books_def)
  next
    case False
    then have "stats' = stats\<lparr>ss_dispatch_overflows := ss_dispatch_overflows stats + 1\<rparr>"
      "env' = lane_fatal ''instrument snapshot dispatch queue overflow'' env1"
      using p spins by (simp_all add: publish_snapshot_def)
    then show ?thesis using sent False by (simp add: snapshot_books_def snapshots_sent_fatal)
  qed
qed

lemma snapshot_message_books:
  assumes ok: "env_ok cfg env" and l: "l < snapshot_decoder_lanes cfg"
    and m: "snapshot_message cfg cat l message stats env = (stats', env')"
  shows "snapshot_books cfg l stats' env' = snapshot_books cfg l stats env"
proof (cases "DecodeSnapshot message (trade_date cfg) (worker_limits cfg) cat")
  case (Inl e)
  then have "stats' = stats\<lparr>ss_decode_errors := ss_decode_errors stats + 1\<rparr>" "env' = env"
    using m by (simp_all add: snapshot_message_def)
  then show ?thesis by (simp add: snapshot_books_def)
next
  case (Inr d)
  let ?stats1 = "stats\<lparr>ss_decoded_snapshots := ss_decoded_snapshots stats + 1\<rparr>"
  show ?thesis
  proof (cases "sd_catalog_match d")
    case True
    then have "publish_snapshot cfg l (sd_snapshot d) ?stats1 env = (stats', env')"
      using m Inr by (simp add: snapshot_message_def)
    from publish_snapshot_books [OF ok l this] show ?thesis by (simp add: snapshot_books_def)
  next
    case False
    then have "stats' = ?stats1\<lparr>ss_catalog_misses := ss_catalog_misses ?stats1 + 1\<rparr>" "env' = env"
      using m Inr by (simp_all add: snapshot_message_def)
    then show ?thesis by (simp add: snapshot_books_def)
  qed
qed

lemma snapshot_message_good:
  assumes ok: "env_ok cfg env" and l: "l < snapshot_decoder_lanes cfg"
    and m: "snapshot_message cfg cat l message stats env = (stats', env')"
  shows "env_ok cfg env' \<and> observed cfg {} {l} env' = observed cfg {} {l} env \<and>
    health_moves (le_health env) (le_health env') \<and> calls_scheduled env env' \<and>
    (lane_healthy env' \<longrightarrow> lane_healthy env \<and> (\<forall>w < instrument_workers cfg. snapshot_view l w env'
       = snapshot_view l w env @ filter (snapshot_owned cfg w) (snapshot_output cfg cat message)))"
proof (cases "\<exists>d. DecodeSnapshot message (trade_date cfg) (worker_limits cfg) cat = Inr d \<and> sd_catalog_match d")
  case False
  then have "env' = env" "snapshot_output cfg cat message = []"
    using m by (auto simp: snapshot_message_def snapshot_output_def Let_def split: sum.splits if_splits)
  then show ?thesis using ok by simp
next
  case True
  then obtain d where d: "DecodeSnapshot message (trade_date cfg) (worker_limits cfg) cat = Inr d" "sd_catalog_match d"
    by blast
  let ?owner = "InstrumentOwner (instrument_workers cfg) (c_instrument_ordinal (s_common (sd_snapshot d)))"
  obtain b env1 where p: "publish_spins kMaximumSpins (PublishSnapshot l ?owner (sd_snapshot d)) env = (b, env1)"
    by fastforce
  have e: "env' = (if b then env1 else lane_fatal ''instrument snapshot dispatch queue overflow'' env1)"
    using m d p by (auto simp: snapshot_message_def publish_snapshot_def Let_def split: if_splits)
  have F: "env_ok cfg env1 \<and> observed cfg {} {l} env1 = observed cfg {} {l} env \<and> le_health env1 = le_health env"
    by (rule publish_spins_frame [OF attempt_snapshot ok p])
  have V: "snapshot_view l w env1 = snapshot_view l w env @ (if b \<and> ?owner = w then [sd_snapshot d] else [])"
    if "w < instrument_workers cfg" for w by (rule snapshot_spins [OF ok l that p])
  have "calls_scheduled env env'"
    using publish_spins_scheduled [OF p] calls_scheduled_trans calls_scheduled_fields(2) by (auto simp: e)
  moreover have "health_ok (le_health env1)" using F unfolding env_ok_def by blast
  then have "\<not> lane_healthy (lane_fatal msg env1)" "health_moves (le_health env1) (le_health (lane_fatal msg env1))" for msg
    by (simp_all add: lane_healthy_def lane_fatal_def)
  ultimately show ?thesis
    using F V e d by (auto simp: env_ok_fields observed_fields lane_healthy_def snapshot_output_def snapshot_owned_def)
qed

section \<open>Turns of the snapshot worker\<close>

definition snapshot_worker_ok :: "EngineConfig \<Rightarrow> nat \<Rightarrow> SnapshotWorker \<Rightarrow> bool" where
  "snapshot_worker_ok cfg l w \<longleftrightarrow> lane_ok [] (sw_lane w) \<and> env_ok cfg (sw_env w) \<and> l < snapshot_decoder_lanes cfg \<and>
     (sw_finished w \<longrightarrow> lane_queue (sw_lane w) = [])"

lemma SnapshotWorker_turn_good:
  assumes ok: "snapshot_worker_ok cfg l w" and run: "\<not> sw_finished w"
  shows "\<exists>w'. SnapshotWorker_turn cfg cat l running w = Some w' \<and> snapshot_worker_ok cfg l w' \<and>
    observed cfg {} {l} (sw_env w') = observed cfg {} {l} (sw_env w) \<and>
    health_moves (le_health (sw_env w)) (le_health (sw_env w')) \<and>
    (lane_healthy (sw_env w') \<longrightarrow> lane_healthy (sw_env w) \<and>
      (\<forall>v < instrument_workers cfg. snapshot_view l v (sw_env w') = snapshot_view l v (sw_env w) @
         filter (snapshot_owned cfg v) (concat (map (snapshot_output cfg cat) (take 1 (lane_queue (sw_lane w))))))) \<and>
    lane_queue (sw_lane w') = tl (lane_queue (sw_lane w)) \<and>
    ls_slot_count (sw_lane w') = ls_slot_count (sw_lane w) \<and>
    ls_maximum_body_bytes (sw_lane w') = ls_maximum_body_bytes (sw_lane w) \<and>
    (sw_finished w' \<longleftrightarrow> \<not> running \<and> lane_queue (sw_lane w) = []) \<and>
    snapshot_books cfg l (sw_stats w') (sw_env w') = snapshot_books cfg l (sw_stats w) (sw_env w) \<and>
    calls_scheduled (sw_env w) (sw_env w')"
proof -
  have lane: "lane_ok [] (sw_lane w)" and env: "env_ok cfg (sw_env w)" and l: "l < snapshot_decoder_lanes cfg"
    using ok by (simp_all add: snapshot_worker_ok_def)
  obtain r lane1 where con: "TryConsume (sw_lane w) = (r, lane1)" by (cases "TryConsume (sw_lane w)")
  note C = consume_release [OF lane con]
  show ?thesis
  proof (cases r)
    case None
    note E = C(1) [OF None]
    let ?w' = "w\<lparr>sw_lane := lane1, sw_finished := \<not> running\<rparr>"
    have "SnapshotWorker_turn cfg cat l running w = Some ?w'"
      using con None E run by (cases w) (simp add: SnapshotWorker_turn_def Let_def)
    then show ?thesis using E env l C(3,4) by (simp add: snapshot_worker_ok_def)
  next
    case (Some sv)
    obtain slot view where sv: "sv = (slot, view)" by (cases sv)
    from C(2) Some sv obtain message lane2 where m: "view = Some message"
      "lane_queue (sw_lane w) = message # lane_queue lane2" "Release slot lane1 = (True, lane2)" "lane_ok [] lane2"
      "ls_slot_count lane2 = ls_slot_count (sw_lane w)"
      "ls_maximum_body_bytes lane2 = ls_maximum_body_bytes (sw_lane w)" by blast
    obtain stats' env' where t: "snapshot_message cfg cat l message (sw_stats w) (sw_env w) = (stats', env')"
      by fastforce
    note G = snapshot_message_good [OF env l t]
    have "SnapshotWorker_turn cfg cat l running w = Some (w\<lparr>sw_lane := lane2, sw_stats := stats', sw_env := env'\<rparr>)"
      using con Some sv m(1,3) t by (simp add: SnapshotWorker_turn_def Let_def)
    then show ?thesis using G m l run snapshot_message_books [OF env l t] by (simp add: snapshot_worker_ok_def)
  qed
qed

text \<open>Several turns; a worker that left its loop takes no more.\<close>

fun snapshot_turns ::
  "EngineConfig \<Rightarrow> InstrumentCatalog \<Rightarrow> nat \<Rightarrow> bool list \<Rightarrow> SnapshotWorker \<Rightarrow> SnapshotWorker option" where
  "snapshot_turns cfg cat l [] w = Some w"
| "snapshot_turns cfg cat l (running # rs) w =
    (if sw_finished w then Some w
     else Option.bind (SnapshotWorker_turn cfg cat l running w) (snapshot_turns cfg cat l rs))"

lemma snapshot_turns_good:
  assumes "snapshot_worker_ok cfg l w"
  shows "\<exists>w'. snapshot_turns cfg cat l rs w = Some w' \<and> snapshot_worker_ok cfg l w' \<and>
    observed cfg {} {l} (sw_env w') = observed cfg {} {l} (sw_env w) \<and>
    lane_queue (sw_lane w') = drop (length rs) (lane_queue (sw_lane w)) \<and>
    (lane_healthy (sw_env w') \<longrightarrow> lane_healthy (sw_env w) \<and>
      (\<forall>v < instrument_workers cfg. snapshot_view l v (sw_env w') = snapshot_view l v (sw_env w) @
         filter (snapshot_owned cfg v)
           (concat (map (snapshot_output cfg cat) (take (length rs) (lane_queue (sw_lane w)))))))"
  using assms
proof (induction rs arbitrary: w)
  case (Cons running rs)
  show ?case
  proof (cases "sw_finished w")
    case True
    then have "lane_queue (sw_lane w) = []" using Cons.prems by (simp add: snapshot_worker_ok_def)
    then show ?thesis using True Cons.prems by simp
  next
    case False
    from SnapshotWorker_turn_good [OF Cons.prems False, of cat running] obtain w1 where
      w1: "SnapshotWorker_turn cfg cat l running w = Some w1" "snapshot_worker_ok cfg l w1"
        "observed cfg {} {l} (sw_env w1) = observed cfg {} {l} (sw_env w)"
        "lane_queue (sw_lane w1) = tl (lane_queue (sw_lane w))"
      and v1: "lane_healthy (sw_env w1) \<Longrightarrow> lane_healthy (sw_env w) \<and>
        (\<forall>v < instrument_workers cfg. snapshot_view l v (sw_env w1) = snapshot_view l v (sw_env w) @
          filter (snapshot_owned cfg v) (concat (map (snapshot_output cfg cat) (take 1 (lane_queue (sw_lane w))))))"
      by blast
    from Cons.IH [OF w1(2)] obtain w' where
      w': "snapshot_turns cfg cat l rs w1 = Some w'" "snapshot_worker_ok cfg l w'"
        "observed cfg {} {l} (sw_env w') = observed cfg {} {l} (sw_env w1)"
        "lane_queue (sw_lane w') = drop (length rs) (lane_queue (sw_lane w1))"
      and v': "lane_healthy (sw_env w') \<Longrightarrow> lane_healthy (sw_env w1) \<and>
        (\<forall>v < instrument_workers cfg. snapshot_view l v (sw_env w') = snapshot_view l v (sw_env w1) @
          filter (snapshot_owned cfg v)
            (concat (map (snapshot_output cfg cat) (take (length rs) (lane_queue (sw_lane w1))))))"
      by blast
    have view: "lane_healthy (sw_env w) \<and> (\<forall>v < instrument_workers cfg.
        snapshot_view l v (sw_env w') = snapshot_view l v (sw_env w) @ filter (snapshot_owned cfg v)
          (concat (map (snapshot_output cfg cat) (take (Suc (length rs)) (lane_queue (sw_lane w))))))"
      if "lane_healthy (sw_env w')"
      using v' [OF that] v1 w1(4) by (cases "lane_queue (sw_lane w)") simp_all
    show ?thesis
      using False w1 w' view by (intro exI [of _ w']) (simp add: drop_Suc)
  qed
qed simp

section \<open>Turns of the tick worker\<close>

fun tick_turns ::
  "EngineConfig \<Rightarrow> InstrumentCatalog \<Rightarrow> nat \<Rightarrow> (bool \<times> u64) list \<Rightarrow> TickWorker \<Rightarrow> TickWorker option" where
  "tick_turns cfg cat l [] w = Some w"
| "tick_turns cfg cat l ((running, now) # rs) w =
    (if tw_finished w then Some w
     else Option.bind (TickWorker_turn cfg cat l running now w) (tick_turns cfg cat l rs))"

lemma tick_turns_good:
  assumes "tick_worker_ok cfg l home w" and "cfg_maximum_text_bytes cfg \<le> kMaximumIdentityBytes"
    and "tw_finished w \<Longrightarrow> recovery_drained (tw_recovery w)"
  shows "\<exists>w'. tick_turns cfg cat l rs w = Some w' \<and> tick_worker_ok cfg l home w' \<and>
    lane_moves cfg l (tw_env w) (tw_env w') \<and>
    lane_queue (tw_lane w') = drop (length rs) (lane_queue (tw_lane w)) \<and>
    (tw_finished w' \<longrightarrow> recovery_drained (tw_recovery w')) \<and>
    (length (lane_queue (tw_lane w)) < length rs \<and> (\<forall>r \<in> set rs. \<not> fst r) \<longrightarrow> tw_finished w')"
  using assms(1,3)
proof (induction rs arbitrary: w)
  case (Cons r rs)
  obtain running now where r: "r = (running, now)" by (cases r)
  show ?case
  proof (cases "tw_finished w")
    case True
    then show ?thesis using Cons.prems r by (simp add: tick_worker_ok_def)
  next
    case False
    from TickWorker_turn_good [OF Cons.prems(1) False assms(2), of cat running now] obtain w1 where
      w1: "TickWorker_turn cfg cat l running now w = Some w1" "tick_worker_ok cfg l home w1"
        "lane_moves cfg l (tw_env w) (tw_env w1)" "lane_queue (tw_lane w1) = tl (lane_queue (tw_lane w))"
        "tw_finished w1 \<longleftrightarrow> \<not> running \<and> lane_queue (tw_lane w) = []"
        "tw_finished w1 \<longrightarrow> recovery_drained (tw_recovery w1)" by blast
    from Cons.IH [OF w1(2)] w1(6) obtain w' where
      w': "tick_turns cfg cat l rs w1 = Some w'" "tick_worker_ok cfg l home w'"
        "lane_moves cfg l (tw_env w1) (tw_env w')"
        "lane_queue (tw_lane w') = drop (length rs) (lane_queue (tw_lane w1))"
        "tw_finished w' \<longrightarrow> recovery_drained (tw_recovery w')"
        "length (lane_queue (tw_lane w1)) < length rs \<and> (\<forall>r \<in> set rs. \<not> fst r) \<longrightarrow> tw_finished w'" by blast
    have fin: "tw_finished w'" if q: "length (lane_queue (tw_lane w)) < Suc (length rs)" "\<not> running" "\<forall>r \<in> set rs. \<not> fst r"
    proof (cases "tw_finished w1")
      case True
      then have "w' = w1" using w'(1) by (cases rs) auto
      then show ?thesis using True by simp
    next
      case unfinished: False
      then have "lane_queue (tw_lane w) \<noteq> []" using w1(5) q(2) by simp
      then have "length (lane_queue (tw_lane w1)) < length rs" using q(1) w1(4) by (cases "lane_queue (tw_lane w)") simp_all
      then show ?thesis using w'(6) q(3) by simp
    qed
    show ?thesis
      using False r w1(1,4) w'(1,2,4,5) lane_moves_trans [OF w1(3) w'(3)] fin
      by (intro exI [of _ w']) (simp add: drop_Suc)
  qed
qed simp

end
