(* ===== verification/Engine_State.thy ===== *)
theory Engine_State
  imports Worker_Claims
begin

text \<open>
  The state of \<open>IngestEngine::Impl\<close> of \<open>src/engine.cpp\<close>, its construction, its statistics and the
  polls it forwards.  The members \<open>fatal_claimed_\<close>, \<open>accepting_\<close>, \<open>healthy_\<close> and \<open>fatal_error_\<close>
  are the record \<open>Health\<close>; the threads are their local states, in creation order.
\<close>

section \<open>Members\<close>

record AdmissionStats =
  as_callbacks :: u64
  as_admitted :: u64
  as_rejected :: u64
  as_lane_full :: u64

definition default_admission_stats :: AdmissionStats where
  "default_admission_stats = \<lparr>as_callbacks = 0, as_admitted = 0, as_rejected = 0, as_lane_full = 0\<rparr>"

text \<open>The local variable \<open>next_timer\<close> of a tick worker, and whether it has left its loop.\<close>

record TickThread =
  tt_next_timer :: u64
  tt_finished :: bool

record Engine =
  en_config :: EngineConfig
  en_catalog :: InstrumentCatalog
  en_admission :: AdmissionStats
  en_tick_stats :: "TickLaneStats list"
  en_snapshot_stats :: "SnapshotLaneStats list"
  en_dispatcher :: Dispatcher
  en_tick_lanes :: "LaneStorage list"
  en_snapshot_lanes :: "LaneStorage list"
  en_tick_recovery :: "SequenceRecovery list"
  en_tick_threads :: "TickThread list"
  en_snapshot_threads :: "bool list"
  en_started :: bool
  en_running :: bool
  en_callback_active :: bool
  en_health :: Health
  en_next_ingress_sequence :: u64

section \<open>Construction\<close>

definition initial_health :: Health where
  "initial_health = \<lparr>hl_claimed = False, hl_accepting = False, hl_healthy = True, hl_fatal_error = []\<rparr>"

text \<open>
  The constructor.  \<open>None\<close> is the \<open>std::invalid_argument\<close> of a ring; every lane is built by the
  same call, so the lanes of one kind are replicas.
\<close>

definition new_engine :: "EngineConfig \<Rightarrow> InstrumentCatalog \<Rightarrow> Engine option" where
  "new_engine cfg cat =
    Option.bind (config_dispatcher cfg) (\<lambda>dispatcher.
    Option.bind (new_lane_storage (tick_slots_per_lane cfg) (maximum_tick_body_bytes cfg)) (\<lambda>tick_lane.
    Option.bind (new_lane_storage (snapshot_slots_per_lane cfg) (maximum_snapshot_body_bytes cfg)) (\<lambda>snapshot_lane.
    Some \<lparr>en_config = cfg, en_catalog = cat, en_admission = default_admission_stats,
      en_tick_stats = replicate (tick_decoder_lanes cfg) default_tick_stats,
      en_snapshot_stats = replicate (snapshot_decoder_lanes cfg) default_snapshot_stats,
      en_dispatcher = dispatcher,
      en_tick_lanes = replicate (tick_decoder_lanes cfg) tick_lane,
      en_snapshot_lanes = replicate (snapshot_decoder_lanes cfg) snapshot_lane,
      en_tick_recovery = replicate (tick_decoder_lanes cfg) (config_recovery cfg),
      en_tick_threads = [], en_snapshot_threads = [],
      en_started = False, en_running = False, en_callback_active = False,
      en_health = initial_health, en_next_ingress_sequence = 0\<rparr>)))"

text \<open>\<open>IngestEngine::Create\<close>: the error text, or the engine.\<close>

definition Create :: "EngineConfig \<Rightarrow> InstrumentCatalog \<Rightarrow> string + Engine" where
  "Create cfg cat =
    (case ValidateConfig cfg cat of
       Some message \<Rightarrow> Inl message
     | None \<Rightarrow> (case new_engine cfg cat of
         None \<Rightarrow> Inl (''engine creation failed: '' @ ''invalid SPSC ring capacity'')
       | Some engine \<Rightarrow> Inr engine))"

section \<open>Polling and statistics\<close>

definition EnginePollTick :: "nat \<Rightarrow> Engine \<Rightarrow> CanonicalTick option \<times> Engine" where
  "EnginePollTick owner e =
    (let (r, d) = TryPollTick owner (en_dispatcher e) in (r, e\<lparr>en_dispatcher := d\<rparr>))"

definition EnginePollSnapshot :: "nat \<Rightarrow> Engine \<Rightarrow> CanonicalSnapshot option \<times> Engine" where
  "EnginePollSnapshot owner e =
    (let (r, d) = TryPollSnapshot owner (en_dispatcher e) in (r, e\<lparr>en_dispatcher := d\<rparr>))"

definition EnginePollGap :: "Engine \<Rightarrow> ChannelGap option \<times> Engine" where
  "EnginePollGap e = (let (r, d) = TryPollGap (en_dispatcher e) in (r, e\<lparr>en_dispatcher := d\<rparr>))"

definition EnginePollLateRecovery :: "Engine \<Rightarrow> LateRecoveryTick option \<times> Engine" where
  "EnginePollLateRecovery e =
    (let (r, d) = TryPollLateRecovery (en_dispatcher e) in (r, e\<lparr>en_dispatcher := d\<rparr>))"

definition EnginePollChannelFault :: "Engine \<Rightarrow> ChannelFault option \<times> Engine" where
  "EnginePollChannelFault e = (let (r, d) = TryPollFault (en_dispatcher e) in (r, e\<lparr>en_dispatcher := d\<rparr>))"

record EngineStats =
  es_callbacks :: u64
  es_admitted :: u64
  es_rejected :: u64
  es_lane_full :: u64
  es_decoded_ticks :: u64
  es_decoded_snapshots :: u64
  es_decode_errors :: u64
  es_catalog_misses :: u64
  es_dispatched_ticks :: u64
  es_dispatched_snapshots :: u64
  es_duplicates_or_late :: u64
  es_late_recovery_dispatched :: u64
  es_gaps_skipped :: u64
  es_from_open_channels_frozen :: u64
  es_channel_faults_dispatched :: u64
  es_dispatch_overflows :: u64

definition add_tick_stats :: "TickLaneStats \<Rightarrow> EngineStats \<Rightarrow> EngineStats" where
  "add_tick_stats lane r = r\<lparr>
     es_decoded_ticks := es_decoded_ticks r + ts_decoded_ticks lane,
     es_decode_errors := es_decode_errors r + ts_decode_errors lane,
     es_catalog_misses := es_catalog_misses r + ts_catalog_misses lane,
     es_dispatched_ticks := es_dispatched_ticks r + ts_dispatched_ticks lane,
     es_duplicates_or_late := es_duplicates_or_late r + ts_duplicates_or_late lane,
     es_late_recovery_dispatched := es_late_recovery_dispatched r + ts_late_recovery_dispatched lane,
     es_gaps_skipped := es_gaps_skipped r + ts_gaps_skipped lane,
     es_from_open_channels_frozen := es_from_open_channels_frozen r + ts_from_open_channels_frozen lane,
     es_channel_faults_dispatched := es_channel_faults_dispatched r + ts_channel_faults_dispatched lane,
     es_dispatch_overflows := es_dispatch_overflows r + ts_dispatch_overflows lane\<rparr>"

definition add_snapshot_stats :: "SnapshotLaneStats \<Rightarrow> EngineStats \<Rightarrow> EngineStats" where
  "add_snapshot_stats lane r = r\<lparr>
     es_decoded_snapshots := es_decoded_snapshots r + ss_decoded_snapshots lane,
     es_decode_errors := es_decode_errors r + ss_decode_errors lane,
     es_catalog_misses := es_catalog_misses r + ss_catalog_misses lane,
     es_dispatched_snapshots := es_dispatched_snapshots r + ss_dispatched_snapshots lane,
     es_dispatch_overflows := es_dispatch_overflows r + ss_dispatch_overflows lane\<rparr>"

definition Stats :: "Engine \<Rightarrow> EngineStats" where
  "Stats e =
    (let r0 = \<lparr>es_callbacks = as_callbacks (en_admission e), es_admitted = as_admitted (en_admission e),
           es_rejected = as_rejected (en_admission e), es_lane_full = as_lane_full (en_admission e),
           es_decoded_ticks = 0, es_decoded_snapshots = 0, es_decode_errors = 0, es_catalog_misses = 0,
           es_dispatched_ticks = 0, es_dispatched_snapshots = 0, es_duplicates_or_late = 0,
           es_late_recovery_dispatched = 0, es_gaps_skipped = 0, es_from_open_channels_frozen = 0,
           es_channel_faults_dispatched = 0, es_dispatch_overflows = 0\<rparr>;
         r1 = fold add_tick_stats (take (tick_decoder_lanes (en_config e)) (en_tick_stats e)) r0 in
     fold add_snapshot_stats (take (snapshot_decoder_lanes (en_config e)) (en_snapshot_stats e)) r1)"

section \<open>What validation guarantees\<close>

text \<open>The facts about an accepted configuration that the engine relies on.\<close>

lemma ValidateConfig_accepted:
  assumes "ValidateConfig cfg cat = None"
  shows "0 < tick_decoder_lanes cfg" "0 < snapshot_decoder_lanes cfg" "0 < instrument_workers cfg"
    "0 < tick_slots_per_lane cfg" "tick_slots_per_lane cfg \<le> 2 ^ 32"
    "0 < snapshot_slots_per_lane cfg" "snapshot_slots_per_lane cfg \<le> 2 ^ 32"
    "cfg_maximum_text_bytes cfg \<le> kMaximumIdentityBytes"
    "0 < dispatch_queue_capacity cfg" "0 < diagnostic_queue_capacity cfg" "0 < late_recovery_queue_capacity cfg"
    "\<exists>k. reorder_entries_per_channel cfg = 2 ^ k"
  using assms by (auto simp: ValidateConfig_def U32_MAX_def IsPowerOfTwo_iff split: if_splits)

lemma pow2_le_size: "(2 :: nat) ^ k \<le> SIZE_MAX \<Longrightarrow> k \<le> 63"
proof (rule ccontr)
  assume le: "(2 :: nat) ^ k \<le> SIZE_MAX" and "\<not> k \<le> 63"
  then have "(2 :: nat) ^ 64 \<le> 2 ^ k" by (intro power_increasing) simp_all
  with le show False by (simp add: SIZE_MAX_def)
qed

end
