(* ===== verification/Admission.thy ===== *)
theory Admission
  imports Engine_State
begin

text \<open>
  \<open>IngestEngine::Impl::Admit\<close> of \<open>src/engine.cpp\<close>: the single-producer guard, the checks in the order
  of the code, the route and the publication into a lane.  \<open>Admit_message\<close> is the part after the
  test of \<open>accepting_\<close> and \<open>running_\<close>.
\<close>

section \<open>The operation\<close>

definition engine_fatal :: "string \<Rightarrow> Engine \<Rightarrow> Engine" where
  "engine_fatal message e = e\<lparr>en_health := SetFatal message (en_health e)\<rparr>"

definition admission_stat :: "(AdmissionStats \<Rightarrow> AdmissionStats) \<Rightarrow> Engine \<Rightarrow> Engine" where
  "admission_stat f e = e\<lparr>en_admission := f (en_admission e)\<rparr>"

definition admission_reject :: "AdmissionResult \<Rightarrow> Engine \<Rightarrow> AdmissionResult \<times> Engine" where
  "admission_reject result e =
    (let e1 = admission_stat (\<lambda>s. s\<lparr>as_rejected := as_rejected s + 1\<rparr>) e in
     (result, if result = kLaneFull
        then admission_stat (\<lambda>s. s\<lparr>as_lane_full := as_lane_full s + 1\<rparr>) e1 else e1))"

definition tick_class :: "MessageClass \<Rightarrow> bool" where
  "tick_class c \<longleftrightarrow> c = MessageClass_kShanghaiTick \<or> c = MessageClass_kShenzhenOrder \<or>
     c = MessageClass_kShenzhenTransaction"

fun admission_fixed_bytes :: "MessageClass \<Rightarrow> nat" where
  "admission_fixed_bytes MessageClass_kShanghaiSnapshot = 248"
| "admission_fixed_bytes MessageClass_kShanghaiTick = 70"
| "admission_fixed_bytes MessageClass_kShenzhenSnapshot = 224"
| "admission_fixed_bytes MessageClass_kShenzhenOrder = 58"
| "admission_fixed_bytes MessageClass_kShenzhenTransaction = 70"
| "admission_fixed_bytes MessageClass_kUnsupported = 0"

definition class_lanes :: "bool \<Rightarrow> Engine \<Rightarrow> LaneStorage list" where
  "class_lanes is_tick e = (if is_tick then en_tick_lanes e else en_snapshot_lanes e)"

definition put_lane :: "bool \<Rightarrow> nat \<Rightarrow> LaneStorage \<Rightarrow> Engine \<Rightarrow> Engine" where
  "put_lane is_tick i lane e =
    (if is_tick then e\<lparr>en_tick_lanes := (en_tick_lanes e)[i := lane]\<rparr>
     else e\<lparr>en_snapshot_lanes := (en_snapshot_lanes e)[i := lane]\<rparr>)"

definition Admit_publish ::
  "ParsedHeader \<Rightarrow> bool \<Rightarrow> u64 \<Rightarrow> byte list \<Rightarrow> u64 \<Rightarrow> Engine \<Rightarrow> AdmissionResult \<times> Engine" where
  "Admit_publish header is_tick route_key body receive_ns e =
    (let lanes = class_lanes is_tick e;
         lane_index = unat route_key mod length lanes;
         ingress = en_next_ingress_sequence e + 1;
         (published, lane) = TryPublish header body ingress receive_ns (lanes ! lane_index);
         e1 = put_lane is_tick lane_index lane e in
     if \<not> published
     then admission_reject kLaneFull
       (engine_fatal ''decoder admission lane exhausted; no message was silently overwritten'' e1)
     else (kAccepted, admission_stat (\<lambda>s. s\<lparr>as_admitted := as_admitted s + 1\<rparr>)
       (e1\<lparr>en_next_ingress_sequence := ingress\<rparr>)))"

definition Admit_message :: "byte list \<Rightarrow> byte list \<Rightarrow> u64 \<Rightarrow> Engine \<Rightarrow> AdmissionResult \<times> Engine" where
  "Admit_message header_octets body receive_ns e =
    (if \<not> hl_healthy (en_health e) then admission_reject kInternalFailure e
     else case ParseMdlHeader header_octets of
       None \<Rightarrow> admission_reject
         (if length header_octets < kMdlHeaderBytes then kHeaderTruncated else kHeaderInvalid) e
     | Some header \<Rightarrow>
         if unat (head_size header) \<noteq> kMdlHeaderBytes \<or> unat (message_size header) < kMdlHeaderBytes
         then admission_reject kHeaderInvalid e
         else if length body \<noteq> unat (message_size header) - kMdlHeaderBytes
         then admission_reject kBodySizeMismatch e
         else if encoding header \<noteq> kBinaryEncoding then admission_reject kNonBinaryEncoding e
         else
           let message_class = ClassifyMessage (hdr_key header) in
           if message_class = MessageClass_kUnsupported then admission_reject kUnsupportedMessage e
           else if \<not> StreamEnabled (enabled_streams (en_config e)) (hdr_key header)
           then admission_reject kDisabledMessage e
           else
             let is_tick = tick_class message_class;
                 maximum_body = (if is_tick then maximum_tick_body_bytes (en_config e)
                   else maximum_snapshot_body_bytes (en_config e)) in
             if length body > maximum_body
             then admission_reject kBodyTooLarge
               (engine_fatal ''required MDL message exceeded its configured body capacity'' e)
             else (case ExtractAdmissionRoute message_class body of
                 None \<Rightarrow> admission_reject
                   (if length body < admission_fixed_bytes message_class then kBodyTruncated else kRouteInvalid) e
               | Some route_key \<Rightarrow> Admit_publish header is_tick route_key body receive_ns e))"

definition engine_open :: "Engine \<Rightarrow> bool" where
  "engine_open e \<longleftrightarrow> hl_accepting (en_health e) \<and> en_running e"

definition Admit :: "byte list \<Rightarrow> byte list \<Rightarrow> u64 \<Rightarrow> Engine \<Rightarrow> AdmissionResult \<times> Engine" where
  "Admit header_octets body receive_ns e =
    (let e1 = admission_stat (\<lambda>s. s\<lparr>as_callbacks := as_callbacks s + 1\<rparr>) e in
     if en_callback_active e1
     then (kConcurrentCallback,
       engine_fatal ''concurrent SDK callback violated the single-producer admission contract''
         (admission_stat (\<lambda>s. s\<lparr>as_rejected := as_rejected s + 1\<rparr>) e1))
     else
       let e2 = e1\<lparr>en_callback_active := True\<rparr>;
           (result, e3) = (if \<not> engine_open e2 then admission_reject kNotRunning e2
             else Admit_message header_octets body receive_ns e2) in
       (result, e3\<lparr>en_callback_active := False\<rparr>))"

section \<open>The checks, as one predicate\<close>

text \<open>A message that the configuration admits: its header, its kind of lane and its route.\<close>

definition admissible ::
  "EngineConfig \<Rightarrow> byte list \<Rightarrow> byte list \<Rightarrow> ParsedHeader \<Rightarrow> bool \<Rightarrow> u64 \<Rightarrow> bool" where
  "admissible cfg header_octets body header is_tick route \<longleftrightarrow>
     ParseMdlHeader header_octets = Some header \<and> unat (head_size header) = kMdlHeaderBytes \<and>
     unat (message_size header) = kMdlHeaderBytes + length body \<and> encoding header = kBinaryEncoding \<and>
     hdr_key header \<in> set kSupportedMessageKeys \<and> StreamEnabled (enabled_streams cfg) (hdr_key header) \<and>
     is_tick = tick_class (ClassifyMessage (hdr_key header)) \<and>
     length body \<le> (if is_tick then maximum_tick_body_bytes cfg else maximum_snapshot_body_bytes cfg) \<and>
     ExtractAdmissionRoute (ClassifyMessage (hdr_key header)) body = Some route"

lemma admissible_inj:
  "admissible cfg hb body h t r \<Longrightarrow> admissible cfg hb body h' t' r' \<Longrightarrow> h' = h \<and> t' = t \<and> r' = r"
  by (auto simp: admissible_def)

text \<open>What a call may change besides the queues: one counter, the health, the ingress sequence.\<close>

definition admission_effect :: "AdmissionResult \<Rightarrow> Engine \<Rightarrow> Engine \<Rightarrow> bool" where
  "admission_effect r e e' \<longleftrightarrow>
     (if r \<in> {kBodyTooLarge, kLaneFull} then \<exists>m. en_health e' = SetFatal m (en_health e)
      else en_health e' = en_health e) \<and>
     e' = e\<lparr>en_tick_lanes := en_tick_lanes e', en_snapshot_lanes := en_snapshot_lanes e',
       en_next_ingress_sequence := en_next_ingress_sequence e + (if r = kAccepted then 1 else 0),
       en_admission := (en_admission e)
         \<lparr>as_admitted := as_admitted (en_admission e) + (if r = kAccepted then 1 else 0),
          as_rejected := as_rejected (en_admission e) + (if r = kAccepted then 0 else 1),
          as_lane_full := as_lane_full (en_admission e) + (if r = kLaneFull then 1 else 0)\<rparr>,
       en_health := en_health e'\<rparr>"

definition rejected :: "Engine \<Rightarrow> AdmissionResult \<times> Engine \<Rightarrow> bool" where
  "rejected e p \<longleftrightarrow> (case p of (r, e') \<Rightarrow> r \<noteq> kAccepted \<and> r \<noteq> kLaneFull \<and> admission_effect r e e' \<and>
     en_tick_lanes e' = en_tick_lanes e \<and> en_snapshot_lanes e' = en_snapshot_lanes e)"

lemma rejected_simple:
  "r \<noteq> kAccepted \<Longrightarrow> r \<noteq> kLaneFull \<Longrightarrow> r \<noteq> kBodyTooLarge \<Longrightarrow> rejected e (admission_reject r e)"
  "rejected e (admission_reject kBodyTooLarge (engine_fatal m e))"
  by (auto simp: rejected_def admission_effect_def admission_reject_def admission_stat_def engine_fatal_def Let_def
      intro!: Engine.equality)

lemma rejected_if:
  "(b \<Longrightarrow> rejected e x) \<Longrightarrow> (\<not> b \<Longrightarrow> rejected e y) \<Longrightarrow> rejected e (if b then x else y)"
  by simp

lemma Admit_message_cases:
  "hl_healthy (en_health e) \<Longrightarrow> admissible (en_config e) hb body h t route \<Longrightarrow>
     Admit_message hb body now e = Admit_publish h t route body now e"
  "\<not> (hl_healthy (en_health e) \<and> (\<exists>h t route. admissible (en_config e) hb body h t route)) \<Longrightarrow>
     rejected e (Admit_message hb body now e)"
proof -
  show "Admit_message hb body now e = Admit_publish h t route body now e"
    if "hl_healthy (en_health e)" "admissible (en_config e) hb body h t route"
    using that ClassifyMessage_supported [of "hdr_key h"]
    unfolding Admit_message_def admissible_def Let_def by (cases t) simp_all
  assume no: "\<not> (hl_healthy (en_health e) \<and> (\<exists>h t route. admissible (en_config e) hb body h t route))"
  show "rejected e (Admit_message hb body now e)"
  proof (cases "ParseMdlHeader hb")
    case None
    then show ?thesis by (simp add: Admit_message_def rejected_simple)
  next
    case (Some h)
    let ?c = "ClassifyMessage (hdr_key h)"
    have none: "ExtractAdmissionRoute ?c body = None"
      if "\<not> \<not> hl_healthy (en_health e)"
        "\<not> (unat (head_size h) \<noteq> kMdlHeaderBytes \<or> unat (message_size h) < kMdlHeaderBytes)"
        "\<not> length body \<noteq> unat (message_size h) - kMdlHeaderBytes" "\<not> encoding h \<noteq> kBinaryEncoding"
        "?c \<noteq> MessageClass_kUnsupported" "\<not> \<not> StreamEnabled (enabled_streams (en_config e)) (hdr_key h)"
        "\<not> (if tick_class ?c then maximum_tick_body_bytes (en_config e)
           else maximum_snapshot_body_bytes (en_config e)) < length body"
    proof (rule ccontr)
      assume "ExtractAdmissionRoute ?c body \<noteq> None"
      then obtain route where route: "ExtractAdmissionRoute ?c body = Some route" by blast
      have "unat (message_size h) = kMdlHeaderBytes + length body" using that(2,3) by simp
      then have "admissible (en_config e) hb body h (tick_class ?c) route"
        using that route Some ClassifyMessage_supported [of "hdr_key h"]
        unfolding admissible_def by (simp only: not_not not_less de_Morgan_disj)
      then show False using no that(1) by blast
    qed
    show ?thesis
      unfolding Admit_message_def Some option.case Let_def
    proof (intro rejected_if)
      assume a: "\<not> \<not> hl_healthy (en_health e)"
        "\<not> (unat (head_size h) \<noteq> kMdlHeaderBytes \<or> unat (message_size h) < kMdlHeaderBytes)"
        "\<not> length body \<noteq> unat (message_size h) - kMdlHeaderBytes" "\<not> encoding h \<noteq> kBinaryEncoding"
        "?c \<noteq> MessageClass_kUnsupported" "\<not> \<not> StreamEnabled (enabled_streams (en_config e)) (hdr_key h)"
        "\<not> (if tick_class ?c then maximum_tick_body_bytes (en_config e)
           else maximum_snapshot_body_bytes (en_config e)) < length body"
      show "rejected e (case ExtractAdmissionRoute ?c body of
          None \<Rightarrow> admission_reject (if length body < admission_fixed_bytes ?c then kBodyTruncated else kRouteInvalid) e
        | Some route_key \<Rightarrow> Admit_publish h (tick_class ?c) route_key body now e)"
        unfolding none [OF a] option.case by (rule rejected_simple) simp_all
    qed (rule rejected_simple; simp)+
  qed
qed

text \<open>A publication: the message goes to the end of one lane, or the lane is full.\<close>

definition lanes_ok :: "Engine \<Rightarrow> bool" where
  "lanes_ok e \<longleftrightarrow> en_tick_lanes e \<noteq> [] \<and> en_snapshot_lanes e \<noteq> [] \<and>
     list_all (lane_ok []) (en_tick_lanes e) \<and> list_all (lane_ok []) (en_snapshot_lanes e)"

text \<open>The queue of a lane, by kind and index.\<close>

definition queue_of :: "Engine \<Rightarrow> bool \<Rightarrow> nat \<Rightarrow> OwnedMessageView list" where
  "queue_of e is_tick i = lane_queue (class_lanes is_tick e ! i)"

definition lane_room :: "bool \<Rightarrow> nat \<Rightarrow> nat \<Rightarrow> Engine \<Rightarrow> bool" where
  "lane_room is_tick i n e \<longleftrightarrow>
     n \<le> ls_maximum_body_bytes (class_lanes is_tick e ! i) \<and> n \<le> U32_MAX \<and>
     length (queue_of e is_tick i) < ls_slot_count (class_lanes is_tick e ! i)"

definition route_lane :: "bool \<Rightarrow> u64 \<Rightarrow> Engine \<Rightarrow> nat" where
  "route_lane is_tick route e = unat route mod length (class_lanes is_tick e)"

lemma Admit_publish_spec:
  assumes ok: "lanes_ok e" and pub: "Admit_publish header is_tick route body now e = (r, e')"
  shows "lanes_ok e'"
    and "r = (if lane_room is_tick (route_lane is_tick route e) (length body) e then kAccepted else kLaneFull)"
    and "i < length (class_lanes t e) \<Longrightarrow> queue_of e' t i = queue_of e t i @
      (if r = kAccepted \<and> t = is_tick \<and> i = route_lane is_tick route e
       then [message_view header body (en_next_ingress_sequence e + 1) now] else [])"
    and "length (class_lanes t e') = length (class_lanes t e)"
    and "i < length (class_lanes t e) \<Longrightarrow> ls_slot_count (class_lanes t e' ! i) = ls_slot_count (class_lanes t e ! i) \<and>
      ls_maximum_body_bytes (class_lanes t e' ! i) = ls_maximum_body_bytes (class_lanes t e ! i)"
    and "admission_effect r e e'"
proof -
  let ?lanes = "class_lanes is_tick e" and ?i = "route_lane is_tick route e"
  have ne: "?lanes \<noteq> []" and all: "list_all (lane_ok []) ?lanes"
    using ok by (simp_all add: lanes_ok_def class_lanes_def)
  have i: "?i < length ?lanes" using ne by (simp add: route_lane_def)
  have lane: "lane_ok [] (?lanes ! ?i)" using all i by (simp add: list_all_length)
  obtain b lane' where p: "TryPublish header body (en_next_ingress_sequence e + 1) now (?lanes ! ?i) = (b, lane')"
    by (cases "TryPublish header body (en_next_ingress_sequence e + 1) now (?lanes ! ?i)")
  note P = TryPublish_spec [OF lane p]
  have out: "(r, e') = (if \<not> b
      then admission_reject kLaneFull (engine_fatal
        ''decoder admission lane exhausted; no message was silently overwritten'' (put_lane is_tick ?i lane' e))
      else (kAccepted, admission_stat (\<lambda>s. s\<lparr>as_admitted := as_admitted s + 1\<rparr>)
        ((put_lane is_tick ?i lane' e)\<lparr>en_next_ingress_sequence := en_next_ingress_sequence e + 1\<rparr>)))"
    using pub [unfolded Admit_publish_def Let_def, folded route_lane_def] p by (simp only: prod.case)
  have lanes: "class_lanes t e' = (if t = is_tick then ?lanes[?i := lane'] else class_lanes t e)" for t
    using out by (auto simp: class_lanes_def put_lane_def admission_reject_def admission_stat_def engine_fatal_def
        Let_def split: if_splits)
  have lanes_eq: "en_tick_lanes e' = class_lanes True e'" "en_snapshot_lanes e' = class_lanes False e'"
    by (simp_all add: class_lanes_def)
  show "length (class_lanes t e') = length (class_lanes t e)" by (simp add: lanes)
  have "list_all (lane_ok []) (class_lanes t e') \<and> class_lanes t e' \<noteq> []" for t
    using ok P(1) all ne unfolding lanes by (auto simp: lanes_ok_def class_lanes_def list_all_update)
  then show "lanes_ok e'" by (simp add: lanes_ok_def lanes_eq)
  have b: "b \<longleftrightarrow> lane_room is_tick ?i (length body) e"
    using P(2) by (auto simp: lane_room_def queue_of_def)
  then show r: "r = (if lane_room is_tick ?i (length body) e then kAccepted else kLaneFull)"
    using out by (auto simp: admission_reject_def Let_def split: if_splits)
  show "queue_of e' t i = queue_of e t i @ (if r = kAccepted \<and> t = is_tick \<and> i = ?i
      then [message_view header body (en_next_ingress_sequence e + 1) now] else [])"
    if "i < length (class_lanes t e)"
    using that P(3) b r i by (auto simp: queue_of_def lanes nth_list_update)
  show "ls_slot_count (class_lanes t e' ! i) = ls_slot_count (class_lanes t e ! i) \<and>
      ls_maximum_body_bytes (class_lanes t e' ! i) = ls_maximum_body_bytes (class_lanes t e ! i)"
    if "i < length (class_lanes t e)"
    using that P(5,6) i by (auto simp: lanes nth_list_update)
  show "admission_effect r e e'"
  proof (cases b)
    case True
    then have "r = kAccepted" "e' = admission_stat (\<lambda>s. s\<lparr>as_admitted := as_admitted s + 1\<rparr>)
        ((put_lane is_tick ?i lane' e)\<lparr>en_next_ingress_sequence := en_next_ingress_sequence e + 1\<rparr>)"
      using out by simp_all
    then show ?thesis
      by (auto simp: admission_effect_def put_lane_def admission_stat_def intro!: Engine.equality)
  next
    case False
    then have "r = kLaneFull" "e' = snd (admission_reject kLaneFull (engine_fatal
        ''decoder admission lane exhausted; no message was silently overwritten'' (put_lane is_tick ?i lane' e)))"
      using r b out by (simp_all split: if_splits) (metis snd_conv)+
    then show ?thesis
      by (auto simp: admission_effect_def put_lane_def admission_stat_def admission_reject_def engine_fatal_def Let_def
          intro!: Engine.equality)
  qed
qed

section \<open>The whole call\<close>

lemma Admit_idle:
  assumes "\<not> en_callback_active e"
  shows "Admit hb body now e =
    (let e2 = e\<lparr>en_admission := (en_admission e)\<lparr>as_callbacks := as_callbacks (en_admission e) + 1\<rparr>,
           en_callback_active := True\<rparr>;
         (r, e3) = (if \<not> engine_open e2 then admission_reject kNotRunning e2 else Admit_message hb body now e2)
     in (r, e3\<lparr>en_callback_active := False\<rparr>))"
  using assms by (simp add: Admit_def admission_stat_def Let_def)

lemma lanes_cong:
  assumes "en_tick_lanes e' = en_tick_lanes e" and "en_snapshot_lanes e' = en_snapshot_lanes e"
  shows "class_lanes t e' = class_lanes t e" "lanes_ok e' = lanes_ok e" "queue_of e' t i = queue_of e t i"
    "lane_room t i n e' = lane_room t i n e" "route_lane t route e' = route_lane t route e"
  using assms by (auto simp: class_lanes_def lanes_ok_def queue_of_def lane_room_def route_lane_def)

text \<open>The part of a call behind the first test, from a state whose lanes are well formed.\<close>

definition accepts :: "byte list \<Rightarrow> byte list \<Rightarrow> Engine \<Rightarrow> bool" where
  "accepts hb body e \<longleftrightarrow> hl_healthy (en_health e) \<and> (\<exists>h t route. admissible (en_config e) hb body h t route \<and>
     lane_room t (route_lane t route e) (length body) e)"

text \<open>The messages the call adds to a lane.\<close>

definition added :: "byte list \<Rightarrow> byte list \<Rightarrow> u64 \<Rightarrow> bool \<Rightarrow> nat \<Rightarrow> Engine \<Rightarrow> OwnedMessageView list" where
  "added hb body now t i e = (let h = the (ParseMdlHeader hb) in
     if \<exists>route. admissible (en_config e) hb body h t route \<and> i = route_lane t route e
     then [message_view h body (en_next_ingress_sequence e + 1) now] else [])"

lemma Admit_message_spec:
  assumes ok: "lanes_ok e" and adm: "Admit_message hb body now e = (r, e')"
  shows "r = kAccepted \<longleftrightarrow> accepts hb body e" and "lanes_ok e'" and "admission_effect r e e'"
    and "i < length (class_lanes t e) \<Longrightarrow>
       queue_of e' t i = queue_of e t i @ (if r = kAccepted then added hb body now t i e else [])"
    and "length (class_lanes t e') = length (class_lanes t e)"
    and "i < length (class_lanes t e) \<Longrightarrow> ls_slot_count (class_lanes t e' ! i) = ls_slot_count (class_lanes t e ! i) \<and>
      ls_maximum_body_bytes (class_lanes t e' ! i) = ls_maximum_body_bytes (class_lanes t e ! i)"
proof -
  have "(r = kAccepted \<longleftrightarrow> accepts hb body e) \<and> lanes_ok e' \<and> admission_effect r e e' \<and>
    (\<forall>t i. i < length (class_lanes t e) \<longrightarrow>
       queue_of e' t i = queue_of e t i @ (if r = kAccepted then added hb body now t i e else []) \<and>
       ls_slot_count (class_lanes t e' ! i) = ls_slot_count (class_lanes t e ! i) \<and>
       ls_maximum_body_bytes (class_lanes t e' ! i) = ls_maximum_body_bytes (class_lanes t e ! i)) \<and>
    (\<forall>t. length (class_lanes t e') = length (class_lanes t e))"
  proof (cases "hl_healthy (en_health e) \<and> (\<exists>h t route. admissible (en_config e) hb body h t route)")
    case False
    from Admit_message_cases(2) [OF this, of now] adm have r: "r \<noteq> kAccepted" "admission_effect r e e'"
      and lanes: "en_tick_lanes e' = en_tick_lanes e" "en_snapshot_lanes e' = en_snapshot_lanes e"
      by (auto simp: rejected_def)
    have "\<not> accepts hb body e" using False by (auto simp: accepts_def)
    then show ?thesis unfolding lanes_cong [OF lanes] using ok r by simp
  next
    case True
    then obtain h t route where a: "hl_healthy (en_health e)" "admissible (en_config e) hb body h t route" by blast
    have pub: "Admit_publish h t route body now e = (r, e')" using Admit_message_cases(1) [OF a, of now] adm by simp
    note P = Admit_publish_spec [OF ok pub]
    have "accepts hb body e \<longleftrightarrow> lane_room t (route_lane t route e) (length body) e"
      unfolding accepts_def using a admissible_inj [OF a(2)] by blast
    then have acc: "r = kAccepted \<longleftrightarrow> accepts hb body e" using P(2) by (simp split: if_splits)
    have hd: "the (ParseMdlHeader hb) = h" using a(2) by (simp add: admissible_def)
    have "(\<exists>route'. admissible (en_config e) hb body h t' route' \<and> i = route_lane t' route' e)
        \<longleftrightarrow> t' = t \<and> i = route_lane t route e" for t' i
      using admissible_inj [OF a(2)] a(2) by blast
    then have add: "added hb body now t' i e = (if t' = t \<and> i = route_lane t route e
        then [message_view h body (en_next_ingress_sequence e + 1) now] else [])" for t' i
      unfolding added_def Let_def hd by simp
    have q: "queue_of e' t' i = queue_of e t' i @ (if r = kAccepted then added hb body now t' i e else [])"
      if "i < length (class_lanes t' e)" for t' i
      using P(3) [OF that] unfolding add by auto
    show ?thesis using acc P(1,6) q P(4,5) by simp
  qed
  then show "r = kAccepted \<longleftrightarrow> accepts hb body e" "lanes_ok e'" "admission_effect r e e'"
    "i < length (class_lanes t e) \<Longrightarrow>
       queue_of e' t i = queue_of e t i @ (if r = kAccepted then added hb body now t i e else [])"
    "length (class_lanes t e') = length (class_lanes t e)"
    "i < length (class_lanes t e) \<Longrightarrow> ls_slot_count (class_lanes t e' ! i) = ls_slot_count (class_lanes t e ! i) \<and>
      ls_maximum_body_bytes (class_lanes t e' ! i) = ls_maximum_body_bytes (class_lanes t e ! i)"
    by blast+
qed

end
