(* ===== verification/Engine_Machine.thy ===== *)
theory Engine_Machine
  imports Admission
begin

text \<open>
  \<open>Start\<close> and \<open>Stop\<close> of \<open>IngestEngine::Impl\<close> (\<open>src/engine.cpp\<close>) and the engine as a state machine:
  the producer's callback, the consumers' polls, the turns of the decoder threads and the phases of
  \<open>Start\<close> and \<open>Stop\<close> are the steps.  A callback is two steps, entering and finishing, so that the
  other parties run in between; \<open>Stop\<close> is three: closing the gate, waiting for the callback and
  clearing \<open>running_\<close>, and joining the threads.
\<close>

section \<open>Start and Stop\<close>

text \<open>What the operating system does: whether the threads can be created and pinned.\<close>

datatype SpawnOutcome = AllSpawned | SpawnFailed nat string

record Platform =
  pf_linux :: bool
  pf_cpu_setsize :: nat
  pf_affinity :: "nat \<Rightarrow> bool"

text \<open>The first \<open>k\<close> threads, tick lanes before snapshot lanes; \<open>clock i\<close> is the time thread \<open>i\<close> reads.\<close>

definition spawn_threads :: "nat \<Rightarrow> (nat \<Rightarrow> u64) \<Rightarrow> Engine \<Rightarrow> Engine" where
  "spawn_threads k clock e =
    e\<lparr>en_tick_threads := map (\<lambda>i. \<lparr>tt_next_timer = clock i, tt_finished = False\<rparr>)
        [0 ..< min k (tick_decoder_lanes (en_config e))],
      en_snapshot_threads := replicate
        (min (k - tick_decoder_lanes (en_config e)) (snapshot_decoder_lanes (en_config e))) False\<rparr>"

definition set_accepting :: "bool \<Rightarrow> Engine \<Rightarrow> Engine" where
  "set_accepting b e = e\<lparr>en_health := (en_health e)\<lparr>hl_accepting := b\<rparr>\<rparr>"

definition Stop_gate :: "Engine \<Rightarrow> Engine" where
  "Stop_gate e = set_accepting False e"

definition Stop_running :: "Engine \<Rightarrow> Engine" where
  "Stop_running e = e\<lparr>en_running := False\<rparr>"

definition Stop_join :: "Engine \<Rightarrow> Engine" where
  "Stop_join e = e\<lparr>en_tick_threads := [], en_snapshot_threads := []\<rparr>"

definition Start_begin :: "SpawnOutcome \<Rightarrow> (nat \<Rightarrow> u64) \<Rightarrow> Engine \<Rightarrow> string option \<times> Engine" where
  "Start_begin outcome clock e =
    (if en_started e then (Some ''engine can be started exactly once'', e)
     else
       let e1 = (set_accepting False (e\<lparr>en_started := True\<rparr>))\<lparr>en_running := True\<rparr> in
       case outcome of
         AllSpawned \<Rightarrow> (None, spawn_threads
           (tick_decoder_lanes (en_config e) + snapshot_decoder_lanes (en_config e)) clock e1)
       | SpawnFailed k what \<Rightarrow>
           let e2 = engine_fatal (''decoder thread creation failed: '' @ what) (spawn_threads k clock e1) in
           (Some (hl_fatal_error (en_health e2)), Stop_gate e2))"

fun set_affinity :: "Platform \<Rightarrow> nat \<Rightarrow> nat list \<Rightarrow> Engine \<Rightarrow> Engine" where
  "set_affinity pf first [] e = e"
| "set_affinity pf first (i # indices) e =
    (if pf_cpu_setsize pf \<le> first + i then engine_fatal ''requested decoder CPU exceeds CPU_SETSIZE'' e
     else if \<not> pf_affinity pf i then engine_fatal ''failed to set decoder thread affinity'' e
     else set_affinity pf first indices e)"

definition start_failed :: "Engine \<Rightarrow> string option \<times> Engine" where
  "start_failed e = (Some (hl_fatal_error (en_health e)), Stop_gate e)"

definition Start_accept :: "Engine \<Rightarrow> string option \<times> Engine" where
  "Start_accept e =
    (let e1 = set_accepting True e in
     if \<not> hl_healthy (en_health e1) then start_failed (set_accepting False e1) else (None, e1))"

definition Start_end :: "Platform \<Rightarrow> Engine \<Rightarrow> string option \<times> Engine" where
  "Start_end pf e =
    (if first_decoder_cpu (en_config e) \<ge> 0
     then if pf_linux pf
       then let e1 = set_affinity pf (nat (first_decoder_cpu (en_config e)))
                  [0 ..< length (en_tick_threads e) + length (en_snapshot_threads e)] e in
            if \<not> hl_healthy (en_health e1) then start_failed e1 else Start_accept e1
       else start_failed (engine_fatal ''decoder CPU affinity is supported only on Linux'' e)
     else Start_accept e)"

section \<open>The engine and its surroundings\<close>

text \<open>
  \<open>Stop\<close> is called by the same party as \<open>Start\<close>, so the two do not overlap: the phase says where
  that party is.  \<open>wd_callback\<close> is the message of a callback that has passed the first test of
  \<open>Admit\<close>; the received records are what each consumer has taken so far, and
  \<open>wd_calls\<close> what each call of a consumer returned.
\<close>

datatype Phase = Phase_Idle | Phase_Starting | Phase_Stopping | Phase_Joining

record World =
  wd_engine :: Engine
  wd_callback :: "(byte list \<times> byte list \<times> u64) option"
  wd_phase :: Phase
  wd_received :: "nat \<Rightarrow> nat \<Rightarrow> CanonicalTick list"
  wd_received_snapshots :: "nat \<Rightarrow> nat \<Rightarrow> CanonicalSnapshot list"
  wd_received_lates :: "nat \<Rightarrow> LateRecoveryTick list"
  wd_received_faults :: "nat \<Rightarrow> ChannelFault list"
  wd_calls :: "(ConsumerPoll \<times> bool) list"

definition initial_world :: "Engine \<Rightarrow> World" where
  "initial_world e = \<lparr>wd_engine = e, wd_callback = None, wd_phase = Phase_Idle,
     wd_received = (\<lambda>p w. []), wd_received_snapshots = (\<lambda>p w. []),
     wd_received_lates = (\<lambda>p. []), wd_received_faults = (\<lambda>p. []), wd_calls = []\<rparr>"

text \<open>The environment a thread works in, with what the consumers do during its turn.\<close>

definition world_env :: "World \<Rightarrow> ConsumerPoll list list \<Rightarrow> bool list \<Rightarrow> TickLaneStats \<Rightarrow> LaneEnv" where
  "world_env w schedule allocations stats =
    \<lparr>le_dispatcher = en_dispatcher (wd_engine w), le_stats = stats, le_health = en_health (wd_engine w),
     le_schedule = schedule, le_received = wd_received w, le_allocations = allocations,
     le_received_snapshots = wd_received_snapshots w,
     le_received_lates = wd_received_lates w, le_received_faults = wd_received_faults w,
     le_calls = wd_calls w\<rparr>"

definition put_env :: "LaneEnv \<Rightarrow> World \<Rightarrow> World" where
  "put_env env w = w\<lparr>wd_engine := (wd_engine w)\<lparr>en_dispatcher := le_dispatcher env, en_health := le_health env\<rparr>,
     wd_received := le_received env, wd_received_snapshots := le_received_snapshots env,
     wd_received_lates := le_received_lates env, wd_received_faults := le_received_faults env,
     wd_calls := le_calls env\<rparr>"

definition consumer_step :: "ConsumerPoll \<Rightarrow> World \<Rightarrow> World" where
  "consumer_step c w = put_env (consumer_poll c (world_env w [] [] default_tick_stats)) w"

definition tick_worker :: "nat \<Rightarrow> ConsumerPoll list list \<Rightarrow> bool list \<Rightarrow> World \<Rightarrow> TickWorker" where
  "tick_worker l schedule allocations w =
    (let e = wd_engine w in
     \<lparr>tw_lane = en_tick_lanes e ! l, tw_recovery = en_tick_recovery e ! l,
      tw_env = world_env w schedule allocations (en_tick_stats e ! l),
      tw_next_timer = tt_next_timer (en_tick_threads e ! l),
      tw_finished = tt_finished (en_tick_threads e ! l)\<rparr>)"

definition put_tick_worker :: "nat \<Rightarrow> TickWorker \<Rightarrow> World \<Rightarrow> World" where
  "put_tick_worker l tw w =
    (let e = wd_engine w in
     put_env (tw_env tw) (w\<lparr>wd_engine := e\<lparr>en_tick_lanes := (en_tick_lanes e)[l := tw_lane tw],
       en_tick_recovery := (en_tick_recovery e)[l := tw_recovery tw],
       en_tick_stats := (en_tick_stats e)[l := le_stats (tw_env tw)],
       en_tick_threads := (en_tick_threads e)
         [l := \<lparr>tt_next_timer = tw_next_timer tw, tt_finished = tw_finished tw\<rparr>]\<rparr>\<rparr>))"

definition tick_turn ::
  "nat \<Rightarrow> ConsumerPoll list list \<Rightarrow> bool list \<Rightarrow> u64 \<Rightarrow> World \<Rightarrow> World option" where
  "tick_turn l schedule allocations now w =
    (let e = wd_engine w in
     map_option (\<lambda>tw. put_tick_worker l tw w)
       (TickWorker_turn (en_config e) (en_catalog e) l (en_running e) now (tick_worker l schedule allocations w)))"

definition snapshot_worker :: "nat \<Rightarrow> ConsumerPoll list list \<Rightarrow> World \<Rightarrow> SnapshotWorker" where
  "snapshot_worker l schedule w =
    (let e = wd_engine w in
     \<lparr>sw_lane = en_snapshot_lanes e ! l, sw_stats = en_snapshot_stats e ! l,
      sw_env = world_env w schedule [] default_tick_stats, sw_finished = en_snapshot_threads e ! l\<rparr>)"

definition put_snapshot_worker :: "nat \<Rightarrow> SnapshotWorker \<Rightarrow> World \<Rightarrow> World" where
  "put_snapshot_worker l sw w =
    (let e = wd_engine w in
     put_env (sw_env sw) (w\<lparr>wd_engine := e\<lparr>en_snapshot_lanes := (en_snapshot_lanes e)[l := sw_lane sw],
       en_snapshot_stats := (en_snapshot_stats e)[l := sw_stats sw],
       en_snapshot_threads := (en_snapshot_threads e)[l := sw_finished sw]\<rparr>\<rparr>))"

definition snapshot_turn :: "nat \<Rightarrow> ConsumerPoll list list \<Rightarrow> World \<Rightarrow> World option" where
  "snapshot_turn l schedule w =
    (let e = wd_engine w in
     map_option (\<lambda>sw. put_snapshot_worker l sw w)
       (SnapshotWorker_turn (en_config e) (en_catalog e) l (en_running e) (snapshot_worker l schedule w)))"

definition all_finished :: "Engine \<Rightarrow> bool" where
  "all_finished e \<longleftrightarrow> (\<forall>t \<in> set (en_tick_threads e). tt_finished t) \<and> (\<forall>f \<in> set (en_snapshot_threads e). f)"

section \<open>Steps\<close>

inductive engine_step :: "World \<Rightarrow> World \<Rightarrow> bool" where
  callback_closed: "\<not> en_callback_active (wd_engine w) \<Longrightarrow> \<not> engine_open (wd_engine w) \<Longrightarrow>
    Admit hb body now (wd_engine w) = (r, e) \<Longrightarrow> engine_step w (w\<lparr>wd_engine := e\<rparr>)"
| callback_enter: "\<not> en_callback_active (wd_engine w) \<Longrightarrow> engine_open (wd_engine w) \<Longrightarrow>
    e = (admission_stat (\<lambda>s. s\<lparr>as_callbacks := as_callbacks s + 1\<rparr>) (wd_engine w))\<lparr>en_callback_active := True\<rparr> \<Longrightarrow>
    engine_step w (w\<lparr>wd_engine := e, wd_callback := Some (hb, body, now)\<rparr>)"
| callback_finish: "wd_callback w = Some (hb, body, now) \<Longrightarrow> Admit_message hb body now (wd_engine w) = (r, e) \<Longrightarrow>
    engine_step w (w\<lparr>wd_engine := e\<lparr>en_callback_active := False\<rparr>, wd_callback := None\<rparr>)"
| callback_overlap: "en_callback_active (wd_engine w) \<Longrightarrow> Admit hb body now (wd_engine w) = (r, e) \<Longrightarrow>
    engine_step w (w\<lparr>wd_engine := e\<rparr>)"
| consumer: "engine_step w (consumer_step c w)"
| tick: "l < length (en_tick_threads (wd_engine w)) \<Longrightarrow> \<not> tt_finished (en_tick_threads (wd_engine w) ! l) \<Longrightarrow>
    tick_turn l schedule allocations now w = Some w' \<Longrightarrow> engine_step w w'"
| snapshot: "l < length (en_snapshot_threads (wd_engine w)) \<Longrightarrow> \<not> en_snapshot_threads (wd_engine w) ! l \<Longrightarrow>
    snapshot_turn l schedule w = Some w' \<Longrightarrow> engine_step w w'"
| start_again: "wd_phase w = Phase_Idle \<Longrightarrow> en_started (wd_engine w) \<Longrightarrow>
    Start_begin outcome clock (wd_engine w) = (err, e) \<Longrightarrow> engine_step w (w\<lparr>wd_engine := e\<rparr>)"
| start_begin: "wd_phase w = Phase_Idle \<Longrightarrow> \<not> en_started (wd_engine w) \<Longrightarrow>
    Start_begin outcome clock (wd_engine w) = (err, e) \<Longrightarrow>
    engine_step w (w\<lparr>wd_engine := e, wd_phase := if err = None then Phase_Starting else Phase_Stopping\<rparr>)"
| start_end: "wd_phase w = Phase_Starting \<Longrightarrow> Start_end pf (wd_engine w) = (err, e) \<Longrightarrow>
    engine_step w (w\<lparr>wd_engine := e, wd_phase := if err = None then Phase_Idle else Phase_Stopping\<rparr>)"
| stop_gate: "wd_phase w = Phase_Idle \<Longrightarrow>
    engine_step w (w\<lparr>wd_engine := Stop_gate (wd_engine w), wd_phase := Phase_Stopping\<rparr>)"
| stop_running: "wd_phase w = Phase_Stopping \<Longrightarrow> \<not> en_callback_active (wd_engine w) \<Longrightarrow>
    engine_step w (w\<lparr>wd_engine := Stop_running (wd_engine w), wd_phase := Phase_Joining\<rparr>)"
| stop_join: "wd_phase w = Phase_Joining \<Longrightarrow> all_finished (wd_engine w) \<Longrightarrow>
    engine_step w (w\<lparr>wd_engine := Stop_join (wd_engine w), wd_phase := Phase_Idle\<rparr>)"

text \<open>Everything an engine created with a configuration and a catalog can come to.\<close>

inductive engine_run :: "EngineConfig \<Rightarrow> InstrumentCatalog \<Rightarrow> World \<Rightarrow> bool"
  for cfg :: EngineConfig and cat :: InstrumentCatalog where
  created: "Create cfg cat = Inr e \<Longrightarrow> engine_run cfg cat (initial_world e)"
| stepped: "engine_run cfg cat w \<Longrightarrow> engine_step w w' \<Longrightarrow> engine_run cfg cat w'"

text \<open>A whole call of \<open>Admit\<close> by the single producer is entering and finishing.\<close>

lemma callback_steps:
  assumes "\<not> en_callback_active (wd_engine w)" and "engine_open (wd_engine w)"
    and "Admit hb body now (wd_engine w) = (r, e)"
  shows "\<exists>w1. engine_step w w1 \<and> engine_step w1 (w1\<lparr>wd_engine := e, wd_callback := None\<rparr>)"
proof -
  let ?e1 = "(admission_stat (\<lambda>s. s\<lparr>as_callbacks := as_callbacks s + 1\<rparr>) (wd_engine w))\<lparr>en_callback_active := True\<rparr>"
  let ?w1 = "w\<lparr>wd_engine := ?e1, wd_callback := Some (hb, body, now)\<rparr>"
  obtain r2 e2 where m: "Admit_message hb body now ?e1 = (r2, e2)" by (cases "Admit_message hb body now ?e1")
  have "engine_open ?e1" using assms(2) by (simp add: engine_open_def admission_stat_def)
  then have e: "e = e2\<lparr>en_callback_active := False\<rparr>"
    using assms(1,3) m by (simp add: Admit_def Let_def admission_stat_def)
  have "engine_step w ?w1" by (rule callback_enter [OF assms(1,2) refl])
  moreover have "engine_step ?w1 (?w1\<lparr>wd_engine := e2\<lparr>en_callback_active := False\<rparr>, wd_callback := None\<rparr>)"
    by (rule callback_finish [of _ hb body now r2]) (use m in simp_all)
  ultimately show ?thesis unfolding e by blast
qed

end
