(* ===== verification/Engine_Invariant.thy ===== *)
theory Engine_Invariant
  imports Engine_Machine
begin

text \<open>
  The invariant of the running engine, and that every step keeps it: lanes and recoveries are well
  formed, every channel lives on one lane, a lane without a live worker is empty and drained, and
  the callback, the gate, \<open>running_\<close> and the threads agree.
\<close>

section \<open>The invariant\<close>

text \<open>A channel lives on the lane its route selects.\<close>

definition home_of :: "EngineConfig \<Rightarrow> nat \<Rightarrow> Market \<times> u32 \<Rightarrow> bool" where
  "home_of cfg l k \<longleftrightarrow> fst k \<in> {Market_kShanghai, Market_kShenzhen} \<and>
     unat (channel_route (fst k) (snd k)) mod tick_decoder_lanes cfg = l"

definition shape_ok :: "EngineConfig \<Rightarrow> InstrumentCatalog \<Rightarrow> Engine \<Rightarrow> bool" where
  "shape_ok cfg cat e \<longleftrightarrow> en_config e = cfg \<and> en_catalog e = cat \<and>
     length (en_tick_lanes e) = tick_decoder_lanes cfg \<and>
     length (en_snapshot_lanes e) = snapshot_decoder_lanes cfg \<and>
     length (en_tick_recovery e) = tick_decoder_lanes cfg \<and>
     length (en_tick_stats e) = tick_decoder_lanes cfg \<and>
     length (en_snapshot_stats e) = snapshot_decoder_lanes cfg \<and>
     length (en_tick_threads e) \<le> tick_decoder_lanes cfg \<and>
     length (en_snapshot_threads e) \<le> snapshot_decoder_lanes cfg"

definition tick_live :: "Engine \<Rightarrow> nat \<Rightarrow> bool" where
  "tick_live e l \<longleftrightarrow> l < length (en_tick_threads e) \<and> \<not> tt_finished (en_tick_threads e ! l)"

definition snapshot_live :: "Engine \<Rightarrow> nat \<Rightarrow> bool" where
  "snapshot_live e l \<longleftrightarrow> l < length (en_snapshot_threads e) \<and> \<not> en_snapshot_threads e ! l"

definition lanes_quiet :: "Engine \<Rightarrow> bool" where
  "lanes_quiet e \<longleftrightarrow>
     (\<forall>l < length (en_tick_lanes e). \<not> tick_live e l \<longrightarrow>
        queue_of e True l = [] \<and> recovery_drained (en_tick_recovery e ! l)) \<and>
     (\<forall>l < length (en_snapshot_lanes e). \<not> snapshot_live e l \<longrightarrow> queue_of e False l = [])"

abbreviation world_env0 :: "World \<Rightarrow> LaneEnv" where
  "world_env0 w \<equiv> world_env w [] [] default_tick_stats"

definition streams_ok :: "EngineConfig \<Rightarrow> World \<Rightarrow> bool" where
  "streams_ok cfg w \<longleftrightarrow> env_ok cfg (world_env0 w) \<and>
     (\<forall>l < tick_decoder_lanes cfg.
        list_all (message_home (home_of cfg l)) (queue_of (wd_engine w) True l) \<and>
        lane_good cfg l (home_of cfg l) (en_tick_recovery (wd_engine w) ! l) (world_env0 w))"

text \<open>Every lane has its worker, and no worker has left.\<close>

definition fully_manned :: "Engine \<Rightarrow> bool" where
  "fully_manned e \<longleftrightarrow> length (en_tick_threads e) = length (en_tick_lanes e) \<and>
     length (en_snapshot_threads e) = length (en_snapshot_lanes e)"

definition none_finished :: "Engine \<Rightarrow> bool" where
  "none_finished e \<longleftrightarrow> (\<forall>t \<in> set (en_tick_threads e). \<not> tt_finished t) \<and> (\<forall>f \<in> set (en_snapshot_threads e). \<not> f)"

definition control_ok :: "World \<Rightarrow> bool" where
  "control_ok w \<longleftrightarrow> (let e = wd_engine w in
     (en_callback_active e \<longleftrightarrow> wd_callback w \<noteq> None) \<and>
     (en_callback_active e \<longrightarrow> en_running e \<and> fully_manned e) \<and>
     (hl_accepting (en_health e) \<longrightarrow> hl_healthy (en_health e) \<and> wd_phase w = Phase_Idle \<and>
        en_running e \<and> fully_manned e) \<and>
     (\<not> en_started e \<longrightarrow> en_tick_threads e = [] \<and> en_snapshot_threads e = [] \<and> \<not> en_running e) \<and>
     (wd_phase w = Phase_Starting \<longrightarrow> en_running e \<and> fully_manned e) \<and>
     (wd_phase w = Phase_Joining \<longrightarrow> \<not> en_running e) \<and>
     (en_running e \<longrightarrow> none_finished e))"

lemma control_okI:
  assumes "en_callback_active (wd_engine w) \<longleftrightarrow> wd_callback w \<noteq> None"
    and "en_callback_active (wd_engine w) \<Longrightarrow> en_running (wd_engine w) \<and> fully_manned (wd_engine w)"
    and "hl_accepting (en_health (wd_engine w)) \<Longrightarrow> hl_healthy (en_health (wd_engine w)) \<and> wd_phase w = Phase_Idle \<and>
      en_running (wd_engine w) \<and> fully_manned (wd_engine w)"
    and "\<not> en_started (wd_engine w) \<Longrightarrow> en_tick_threads (wd_engine w) = [] \<and>
      en_snapshot_threads (wd_engine w) = [] \<and> \<not> en_running (wd_engine w)"
    and "wd_phase w = Phase_Starting \<Longrightarrow> en_running (wd_engine w) \<and> fully_manned (wd_engine w)"
    and "wd_phase w = Phase_Joining \<Longrightarrow> \<not> en_running (wd_engine w)"
    and "en_running (wd_engine w) \<Longrightarrow> none_finished (wd_engine w)"
  shows "control_ok w"
  using assms unfolding control_ok_def Let_def by blast

lemma control_okD:
  assumes "control_ok w"
  shows "en_callback_active (wd_engine w) \<longleftrightarrow> wd_callback w \<noteq> None"
    "en_callback_active (wd_engine w) \<Longrightarrow> en_running (wd_engine w) \<and> fully_manned (wd_engine w)"
    "hl_accepting (en_health (wd_engine w)) \<Longrightarrow> hl_healthy (en_health (wd_engine w)) \<and> wd_phase w = Phase_Idle \<and>
      en_running (wd_engine w) \<and> fully_manned (wd_engine w)"
    "\<not> en_started (wd_engine w) \<Longrightarrow> en_tick_threads (wd_engine w) = [] \<and>
      en_snapshot_threads (wd_engine w) = [] \<and> \<not> en_running (wd_engine w)"
    "wd_phase w = Phase_Starting \<Longrightarrow> en_running (wd_engine w) \<and> fully_manned (wd_engine w)"
    "wd_phase w = Phase_Joining \<Longrightarrow> \<not> en_running (wd_engine w)"
    "en_running (wd_engine w) \<Longrightarrow> none_finished (wd_engine w)"
  using assms unfolding control_ok_def Let_def by blast+

definition accounting :: "Engine \<Rightarrow> bool" where
  "accounting e \<longleftrightarrow> (let s = en_admission e in
     as_callbacks s = as_admitted s + as_rejected s + (if en_callback_active e then 1 else 0) \<and>
     en_next_ingress_sequence e = as_admitted s)"

definition world_ok :: "EngineConfig \<Rightarrow> InstrumentCatalog \<Rightarrow> World \<Rightarrow> bool" where
  "world_ok cfg cat w \<longleftrightarrow> shape_ok cfg cat (wd_engine w) \<and> lanes_ok (wd_engine w) \<and> lanes_quiet (wd_engine w) \<and>
     streams_ok cfg w \<and> control_ok w \<and> accounting (wd_engine w)"

section \<open>Environments of a world\<close>

lemma world_env_fields [simp]:
  "le_dispatcher (world_env w s a st) = en_dispatcher (wd_engine w)"
  "le_health (world_env w s a st) = en_health (wd_engine w)"
  "le_received (world_env w s a st) = wd_received w"
  "le_received_snapshots (world_env w s a st) = wd_received_snapshots w"
  "le_received_lates (world_env w s a st) = wd_received_lates w"
  "le_received_faults (world_env w s a st) = wd_received_faults w"
  "le_stats (world_env w s a st) = st" "le_calls (world_env w s a st) = wd_calls w"
  "le_schedule (world_env w s a st) = s"
  by (simp_all add: world_env_def)

lemma put_env_fields [simp]:
  "wd_engine (put_env env w) = (wd_engine w)\<lparr>en_dispatcher := le_dispatcher env, en_health := le_health env\<rparr>"
  "wd_received (put_env env w) = le_received env" "wd_received_snapshots (put_env env w) = le_received_snapshots env"
  "wd_received_lates (put_env env w) = le_received_lates env" "wd_received_faults (put_env env w) = le_received_faults env"
  "wd_calls (put_env env w) = le_calls env"
  "wd_callback (put_env env w) = wd_callback w" "wd_phase (put_env env w) = wd_phase w"
  by (simp_all add: put_env_def)

text \<open>Two environments that agree on what the invariants and the streams read.\<close>

definition env_eq :: "LaneEnv \<Rightarrow> LaneEnv \<Rightarrow> bool" where
  "env_eq a b \<longleftrightarrow> le_dispatcher a = le_dispatcher b \<and> le_received a = le_received b \<and>
     le_received_snapshots a = le_received_snapshots b \<and> le_received_lates a = le_received_lates b \<and>
     le_received_faults a = le_received_faults b \<and> le_health a = le_health b \<and> le_calls a = le_calls b"

lemma env_eq_keeps:
  assumes "env_eq a b"
  shows "env_ok cfg a = env_ok cfg b" "lane_view l v a = lane_view l v b" "snapshot_view l v a = snapshot_view l v b"
    "observed cfg T U a = observed cfg T U b" "lane_good cfg l home rec a = lane_good cfg l home rec b"
    "lane_healthy a = lane_healthy b" "late_view l a = late_view l b" "fault_view l a = fault_view l b"
proof -
  have "calls_ok cfg a = calls_ok cfg b" for cfg
    using assms received_count_cong [of a b] by (intro calls_ok_cong) (simp_all add: env_eq_def)
  then show e: "env_ok cfg a = env_ok cfg b" for cfg using assms by (simp add: env_eq_def env_ok_def)
  show v: "lane_view l v a = lane_view l v b" for l v using assms by (simp add: env_eq_def lane_view_def)
  show s: "snapshot_view l v a = snapshot_view l v b" for l v using assms by (simp add: env_eq_def snapshot_view_def)
  show "late_view l a = late_view l b" "fault_view l a = fault_view l b" for l
    using assms by (simp_all add: env_eq_def late_view_def fault_view_def)
  then show "observed cfg T U a = observed cfg T U b" by (intro observedI) (simp_all add: v s)
  have "lane_inv cfg l v a = lane_inv cfg l v b" for v using assms by (simp add: env_eq_def lane_inv_def)
  then show "lane_good cfg l home rec a = lane_good cfg l home rec b"
    by (simp add: lane_good_def lane.rec_ok_def lane.ordered_def e v)
  show "lane_healthy a = lane_healthy b" using assms by (simp add: env_eq_def lane_healthy_def)
qed

lemma env_eq_world: "env_eq (world_env w s a st) (world_env w s' a' st')"
  by (simp add: env_eq_def)

lemma env_eq_put: "env_eq (world_env (put_env env w) s a st) env"
  by (simp add: env_eq_def)

section \<open>Steps that leave the lanes' recoveries and the streams alone\<close>

text \<open>What the consumers have seen of the engine.\<close>

definition seen :: "World \<Rightarrow> _" where
  "seen w = (wd_received w, wd_received_snapshots w, wd_received_lates w, wd_received_faults w, wd_calls w)"

lemma seen_eq [simp]:
  "seen w' = seen w \<longleftrightarrow> wd_received w' = wd_received w \<and> wd_received_snapshots w' = wd_received_snapshots w \<and>
     wd_received_lates w' = wd_received_lates w \<and> wd_received_faults w' = wd_received_faults w \<and> wd_calls w' = wd_calls w"
  by (simp add: seen_def)

lemma streams_ok_keep:
  assumes ok: "streams_ok cfg w"
    and d: "en_dispatcher (wd_engine w') = en_dispatcher (wd_engine w)" "seen w' = seen w"
      "en_tick_recovery (wd_engine w') = en_tick_recovery (wd_engine w)"
    and h: "health_ok (en_health (wd_engine w'))"
    and q: "\<And>l. l < tick_decoder_lanes cfg \<Longrightarrow>
      list_all (message_home (home_of cfg l)) (queue_of (wd_engine w') True l)"
  shows "streams_ok cfg w'"
proof -
  have "calls_ok cfg (world_env0 w') = calls_ok cfg (world_env0 w)"
    by (rule calls_ok_cong; (rule received_count_cong)?; use d in \<open>simp add: seen_eq\<close>)
  then have env: "env_ok cfg (world_env0 w')" using ok d h by (simp add: streams_ok_def env_ok_def)
  have "lane_good cfg l (home_of cfg l) (en_tick_recovery (wd_engine w') ! l) (world_env0 w')"
    if "l < tick_decoder_lanes cfg" for l
  proof (rule lane_good_env [OF _ env])
    show "lane_good cfg l (home_of cfg l) (en_tick_recovery (wd_engine w') ! l) (world_env0 w)"
      using ok that by (simp add: streams_ok_def d)
    show "lane_view l v (world_env0 w') = lane_view l v (world_env0 w)" for v
      using d(1,2) by (simp add: lane_view_def seen_eq)
  qed
  then show ?thesis using env q by (simp add: streams_ok_def)
qed

text \<open>A change of counters, flags, health and threads only.\<close>

definition control_change :: "Engine \<Rightarrow> Engine \<Rightarrow> bool" where
  "control_change e e' \<longleftrightarrow> en_config e' = en_config e \<and> en_catalog e' = en_catalog e \<and>
     en_tick_stats e' = en_tick_stats e \<and> en_snapshot_stats e' = en_snapshot_stats e \<and>
     en_dispatcher e' = en_dispatcher e \<and> en_tick_lanes e' = en_tick_lanes e \<and>
     en_snapshot_lanes e' = en_snapshot_lanes e \<and> en_tick_recovery e' = en_tick_recovery e \<and>
     (health_ok (en_health e) \<longrightarrow> health_ok (en_health e'))"

lemma control_change_keeps:
  assumes c: "control_change (wd_engine w) (wd_engine w')"
    and r: "seen w' = seen w"
    and ok: "lanes_ok (wd_engine w)" "streams_ok cfg w"
  shows "lanes_ok (wd_engine w')" "streams_ok cfg w'" "queue_of (wd_engine w') t l = queue_of (wd_engine w) t l"
proof -
  have lanes: "en_tick_lanes (wd_engine w') = en_tick_lanes (wd_engine w)"
    "en_snapshot_lanes (wd_engine w') = en_snapshot_lanes (wd_engine w)" using c by (simp_all add: control_change_def)
  note L = lanes_cong [OF lanes]
  show "lanes_ok (wd_engine w')" using ok(1) by (simp add: L)
  show "queue_of (wd_engine w') t l = queue_of (wd_engine w) t l" by (rule L)
  show "streams_ok cfg w'"
  proof (rule streams_ok_keep [OF ok(2)])
    have "env_ok cfg (world_env0 w)" using ok(2) by (simp add: streams_ok_def)
    then show "health_ok (en_health (wd_engine w'))"
      using c by (simp add: control_change_def env_ok_def)
    show "list_all (message_home (home_of cfg l)) (queue_of (wd_engine w') True l)"
      if "l < tick_decoder_lanes cfg" for l using ok(2) that by (simp add: L streams_ok_def)
  qed (use c r in \<open>simp_all add: control_change_def\<close>)
qed

lemma lanes_quiet_same:
  assumes "lanes_quiet e" and "en_tick_lanes e' = en_tick_lanes e" and "en_snapshot_lanes e' = en_snapshot_lanes e"
    and "en_tick_recovery e' = en_tick_recovery e"
    and "\<And>l. l < length (en_tick_lanes e) \<Longrightarrow> tick_live e l \<Longrightarrow> \<not> tick_live e' l \<Longrightarrow>
      queue_of e True l = [] \<and> recovery_drained (en_tick_recovery e ! l)"
    and "\<And>l. l < length (en_snapshot_lanes e) \<Longrightarrow> snapshot_live e l \<Longrightarrow> \<not> snapshot_live e' l \<Longrightarrow> queue_of e False l = []"
  shows "lanes_quiet e'"
  using assms unfolding lanes_quiet_def lanes_cong(3) [OF assms(2,3)] by metis

lemma SetFatal_control:
  "hl_accepting (SetFatal m h) \<Longrightarrow> hl_accepting h \<and> SetFatal m h = h"
  "hl_healthy (SetFatal m h) \<Longrightarrow> hl_healthy h"
  by (auto simp: SetFatal_def split: if_splits)

section \<open>The callback's steps\<close>

lemma world_okD:
  assumes "world_ok cfg cat w"
  shows "shape_ok cfg cat (wd_engine w)" "lanes_ok (wd_engine w)" "lanes_quiet (wd_engine w)" "streams_ok cfg w"
    "control_ok w" "accounting (wd_engine w)"
    "health_ok (en_health (wd_engine w))"
  using assms by (simp_all add: world_ok_def streams_ok_def env_ok_def)

text \<open>A step that only counts, or raises the fatal.\<close>

lemma counting_step:
  assumes ok: "world_ok cfg cat w"
    and e: "e = (wd_engine w)\<lparr>en_admission := s, en_health := h, en_callback_active := b\<rparr>"
    and h: "h = en_health (wd_engine w) \<or> (\<exists>m. h = SetFatal m (en_health (wd_engine w)))"
    and cb: "b \<longleftrightarrow> c \<noteq> None" and b: "b \<Longrightarrow> en_running e \<and> fully_manned e"
    and acc: "accounting e"
  shows "world_ok cfg cat (w\<lparr>wd_engine := e, wd_callback := c\<rparr>)"
proof -
  note D = world_okD [OF ok]
  let ?w = "w\<lparr>wd_engine := e, wd_callback := c\<rparr>"
  have "control_change (wd_engine w) (wd_engine ?w)"
    using h by (auto simp: control_change_def e)
  note K = control_change_keeps [OF this _ D(2,4)]
  have "lanes_quiet e" by (rule lanes_quiet_same [OF D(3)]) (simp_all add: e tick_live_def snapshot_live_def)
  moreover have "control_ok ?w"
  proof -
    have f: "en_running e = en_running (wd_engine w)" "en_started e = en_started (wd_engine w)"
      "en_tick_threads e = en_tick_threads (wd_engine w)" "en_snapshot_threads e = en_snapshot_threads (wd_engine w)"
      "en_health e = h" "en_callback_active e = b" by (simp_all add: e)
    have same: "fully_manned e = fully_manned (wd_engine w)" "none_finished e = none_finished (wd_engine w)"
      by (simp_all add: e fully_manned_def none_finished_def)
    have acc: "hl_accepting h \<Longrightarrow> h = en_health (wd_engine w)" using h SetFatal_control(1) by metis
    show ?thesis
      by (rule control_okI; use control_okD [OF D(5)] cb b acc in \<open>simp add: f same\<close>)
  qed
  moreover have "shape_ok cfg cat e" using D(1) by (simp add: shape_ok_def e)
  ultimately show ?thesis using K acc by (simp add: world_ok_def)
qed

lemma admit_counts:
  assumes ok: "world_ok cfg cat w" and adm: "Admit hb body now (wd_engine w) = (r, e)"
    and c: "en_callback_active (wd_engine w) \<or> \<not> engine_open (wd_engine w)"
  shows "world_ok cfg cat (w\<lparr>wd_engine := e\<rparr>)"
proof -
  note D = world_okD [OF ok]
  let ?s = "en_admission (wd_engine w)" and ?h = "en_health (wd_engine w)" and ?b = "en_callback_active (wd_engine w)"
  let ?s' = "?s\<lparr>as_callbacks := as_callbacks ?s + 1, as_rejected := as_rejected ?s + 1\<rparr>"
  have e: "e = (wd_engine w)\<lparr>en_admission := ?s', en_health := h, en_callback_active := ?b\<rparr>"
    if "h = (if ?b then SetFatal ''concurrent SDK callback violated the single-producer admission contract'' ?h else ?h)" for h
    using adm c that
    by (auto simp: Admit_def admission_stat_def engine_fatal_def admission_reject_def engine_open_def Let_def
        intro!: Engine.equality split: if_splits)
  have "world_ok cfg cat (w\<lparr>wd_engine := e, wd_callback := wd_callback w\<rparr>)"
  proof (rule counting_step [OF ok e [OF refl]])
    show "?b \<longleftrightarrow> wd_callback w \<noteq> None" using D(5) by (simp add: control_ok_def Let_def)
    show "en_running e \<and> fully_manned e" if ?b
      using D(5) that by (simp add: control_ok_def Let_def e fully_manned_def)
    show "accounting e" using D(6) by (simp add: accounting_def Let_def e)
  qed auto
  then show ?thesis by simp
qed

lemma enter_step:
  assumes ok: "world_ok cfg cat w" and idle: "\<not> en_callback_active (wd_engine w)" and opened: "engine_open (wd_engine w)"
  shows "world_ok cfg cat (w\<lparr>wd_engine := (admission_stat (\<lambda>s. s\<lparr>as_callbacks := as_callbacks s + 1\<rparr>) (wd_engine w))
      \<lparr>en_callback_active := True\<rparr>, wd_callback := Some m\<rparr>)"
proof (rule counting_step [OF ok])
  note D = world_okD [OF ok]
  let ?e = "(admission_stat (\<lambda>s. s\<lparr>as_callbacks := as_callbacks s + 1\<rparr>) (wd_engine w))\<lparr>en_callback_active := True\<rparr>"
  show "?e = (wd_engine w)\<lparr>en_admission := (en_admission (wd_engine w))
      \<lparr>as_callbacks := as_callbacks (en_admission (wd_engine w)) + 1\<rparr>,
      en_health := en_health (wd_engine w), en_callback_active := True\<rparr>"
    by (simp add: admission_stat_def)
  show "en_running ?e \<and> fully_manned ?e"
    using D(5) opened by (simp add: control_ok_def Let_def engine_open_def admission_stat_def fully_manned_def)
  show "accounting ?e" using D(6) idle by (simp add: accounting_def Let_def admission_stat_def)
qed simp_all

text \<open>A published tick message is at home on its lane.\<close>

lemma added_home:
  assumes "shape_ok cfg cat e" and "i < tick_decoder_lanes cfg"
  shows "list_all (message_home (home_of cfg i)) (added hb body now True i e)"
proof (cases "\<exists>route. admissible (en_config e) hb body (the (ParseMdlHeader hb)) True route \<and> i = route_lane True route e")
  case False
  then have "added hb body now True i e = []" unfolding added_def Let_def by (rule if_not_P)
  then show ?thesis by simp
next
  case True
  let ?h = "the (ParseMdlHeader hb)"
  from True obtain route where a: "admissible (en_config e) hb body ?h True route" "i = route_lane True route e" by blast
  have "message_home (home_of cfg i) (message_view ?h body (en_next_ingress_sequence e + 1) now)"
    using a assms(1) descriptor_route [of "ClassifyMessage (hdr_key ?h)" body]
    by (auto simp: message_home_def message_view_def admissible_def home_of_def route_lane_def class_lanes_def
        shape_ok_def split: option.split)
  then show ?thesis using True by (simp add: added_def Let_def)
qed

lemma finish_step:
  assumes ok: "world_ok cfg cat w" and cb: "wd_callback w = Some (hb, body, now)"
    and adm: "Admit_message hb body now (wd_engine w) = (r, e)"
  shows "world_ok cfg cat (w\<lparr>wd_engine := e\<lparr>en_callback_active := False\<rparr>, wd_callback := None\<rparr>)"
proof -
  note D = world_okD [OF ok]
  note A = Admit_message_spec [OF D(2) adm]
  let ?e = "wd_engine w" and ?e' = "e\<lparr>en_callback_active := False\<rparr>"
  let ?w = "w\<lparr>wd_engine := ?e', wd_callback := None\<rparr>"
  have active: "en_callback_active ?e" using control_okD(1) [OF D(5)] cb by simp
  have eff: "if r \<in> {kBodyTooLarge, kLaneFull} then \<exists>m. en_health e = SetFatal m (en_health ?e)
      else en_health e = en_health ?e" using A(3) by (simp add: admission_effect_def)
  have eq: "e = ?e\<lparr>en_tick_lanes := en_tick_lanes e, en_snapshot_lanes := en_snapshot_lanes e,
       en_next_ingress_sequence := en_next_ingress_sequence ?e + (if r = kAccepted then 1 else 0),
       en_admission := (en_admission ?e)
         \<lparr>as_admitted := as_admitted (en_admission ?e) + (if r = kAccepted then 1 else 0),
          as_rejected := as_rejected (en_admission ?e) + (if r = kAccepted then 0 else 1),
          as_lane_full := as_lane_full (en_admission ?e) + (if r = kLaneFull then 1 else 0)\<rparr>,
       en_health := en_health e\<rparr>" using A(3) unfolding admission_effect_def by (rule conjunct2)
  have fields: "en_config e = en_config ?e" "en_catalog e = en_catalog ?e" "en_tick_stats e = en_tick_stats ?e"
    "en_snapshot_stats e = en_snapshot_stats ?e" "en_dispatcher e = en_dispatcher ?e"
    "en_tick_recovery e = en_tick_recovery ?e" "en_tick_threads e = en_tick_threads ?e"
    "en_snapshot_threads e = en_snapshot_threads ?e" "en_started e = en_started ?e" "en_running e = en_running ?e"
    by (subst eq, simp)+
  have len: "length (en_tick_lanes e) = length (en_tick_lanes ?e)"
    "length (en_snapshot_lanes e) = length (en_snapshot_lanes ?e)"
    using A(5) [of True] A(5) [of False] by (simp_all add: class_lanes_def)
  have same: "queue_of ?e' t l = queue_of e t l" for t l by (simp add: queue_of_def class_lanes_def)
  have manned: "en_running ?e" "fully_manned ?e" "none_finished ?e"
    using control_okD(2,7) [OF D(5)] active by simp_all
  have "shape_ok cfg cat ?e'" using D(1) by (simp add: shape_ok_def fields len)
  moreover have "lanes_ok ?e'" using A(2) by (simp add: lanes_ok_def)
  moreover have "lanes_quiet ?e'"
  proof -
    have "tick_live ?e' l" if "l < length (en_tick_lanes ?e')" for l
      using manned(2,3) that by (simp add: tick_live_def fully_manned_def none_finished_def fields len)
    moreover have "snapshot_live ?e' l" if "l < length (en_snapshot_lanes ?e')" for l
      using manned(2,3) that by (auto simp: snapshot_live_def fully_manned_def none_finished_def fields len in_set_conv_nth)
    ultimately show ?thesis by (simp add: lanes_quiet_def)
  qed
  moreover have "streams_ok cfg ?w"
  proof (rule streams_ok_keep [OF D(4)])
    show "health_ok (en_health (wd_engine ?w))"
      using eff D(7) by (auto split: if_splits)
    show "list_all (message_home (home_of cfg l)) (queue_of (wd_engine ?w) True l)" if l: "l < tick_decoder_lanes cfg" for l
    proof -
      have "l < length (class_lanes True ?e)" using l D(1) by (simp add: class_lanes_def shape_ok_def)
      moreover have "list_all (message_home (home_of cfg l)) (queue_of ?e True l)"
        using D(4) l by (simp add: streams_ok_def)
      ultimately show ?thesis using A(4) added_home [OF D(1) l] by (simp add: same)
    qed
  qed (simp_all add: fields)
  moreover have "control_ok ?w"
  proof (rule control_okI)
    have full: "fully_manned ?e'" "none_finished ?e'"
      using manned(2,3) by (auto simp: fully_manned_def none_finished_def fields len)
    show "none_finished (wd_engine ?w)" using full by simp
    show "en_running (wd_engine ?w) \<and> fully_manned (wd_engine ?w)" if "wd_phase ?w = Phase_Starting"
      using full manned by (simp add: fields)
    assume "hl_accepting (en_health (wd_engine ?w))"
    then have "hl_accepting (en_health e)" by simp
    then have "en_health e = en_health ?e" using eff SetFatal_control(1) by (metis (full_types))
    then show "hl_healthy (en_health (wd_engine ?w)) \<and> wd_phase ?w = Phase_Idle \<and>
      en_running (wd_engine ?w) \<and> fully_manned (wd_engine ?w)"
      using control_okD(3) [OF D(5)] \<open>hl_accepting (en_health e)\<close> full manned by (simp add: fields)
  qed (use control_okD [OF D(5)] manned in \<open>simp_all add: fields\<close>)
  moreover have "accounting ?e'"
  proof -
    have "en_admission e = (en_admission ?e)
         \<lparr>as_admitted := as_admitted (en_admission ?e) + (if r = kAccepted then 1 else 0),
          as_rejected := as_rejected (en_admission ?e) + (if r = kAccepted then 0 else 1),
          as_lane_full := as_lane_full (en_admission ?e) + (if r = kLaneFull then 1 else 0)\<rparr>"
      "en_next_ingress_sequence e = en_next_ingress_sequence ?e + (if r = kAccepted then 1 else 0)"
      by (subst eq, simp)+
    then show ?thesis using D(6) active by (auto simp: accounting_def Let_def)
  qed
  ultimately show ?thesis by (simp add: world_ok_def)
qed

end
