(* ===== verification/Engine_Steps.thy ===== *)
theory Engine_Steps
  imports Engine_Invariant
begin

text \<open>
  The polls and the turns of the decoder threads keep the invariant of \<open>Engine_Invariant\<close>.
\<close>

section \<open>Polls and turns\<close>

text \<open>A step after which the streams outside \<open>T\<close> and \<open>U\<close> are the ones before.\<close>

lemma streams_ok_turn:
  assumes ok: "streams_ok cfg w" and env: "env_ok cfg env" and eq: "env_eq (world_env0 w') env"
    and obs: "observed cfg T U env = observed cfg T U (world_env0 w)"
    and others: "\<And>l. l < tick_decoder_lanes cfg \<Longrightarrow> l \<notin> T \<Longrightarrow>
      queue_of (wd_engine w') True l = queue_of (wd_engine w) True l \<and>
      en_tick_recovery (wd_engine w') ! l = en_tick_recovery (wd_engine w) ! l"
    and own: "\<And>l. l < tick_decoder_lanes cfg \<Longrightarrow> l \<in> T \<Longrightarrow>
      list_all (message_home (home_of cfg l)) (queue_of (wd_engine w') True l) \<and>
      lane_good cfg l (home_of cfg l) (en_tick_recovery (wd_engine w') ! l) env"
  shows "streams_ok cfg w'"
proof -
  have "list_all (message_home (home_of cfg l)) (queue_of (wd_engine w') True l) \<and>
      lane_good cfg l (home_of cfg l) (en_tick_recovery (wd_engine w') ! l) env" if l: "l < tick_decoder_lanes cfg" for l
  proof (cases "l \<in> T")
    case True
    then show ?thesis using own l by blast
  next
    case False
    have good: "list_all (message_home (home_of cfg l)) (queue_of (wd_engine w) True l)"
      "lane_good cfg l (home_of cfg l) (en_tick_recovery (wd_engine w) ! l) (world_env0 w)"
      using ok l by (simp_all add: streams_ok_def)
    have "lane_good cfg l (home_of cfg l) (en_tick_recovery (wd_engine w) ! l) env"
      by (rule lane_good_env [OF good(2) env]) (rule observedD(1) [OF obs l False])
    then show ?thesis using others [OF l False] good(1) by simp
  qed
  then show ?thesis using env by (simp add: streams_ok_def env_eq_keeps [OF eq])
qed

lemma control_ok_turn:
  assumes ok: "control_ok w"
    and h: "health_moves (en_health (wd_engine w)) (en_health (wd_engine w'))" "health_ok (en_health (wd_engine w'))"
    and f: "en_running (wd_engine w') = en_running (wd_engine w)" "en_started (wd_engine w') = en_started (wd_engine w)"
      "en_callback_active (wd_engine w') = en_callback_active (wd_engine w)"
      "wd_callback w' = wd_callback w" "wd_phase w' = wd_phase w"
    and m: "fully_manned (wd_engine w') = fully_manned (wd_engine w)"
    and n: "en_running (wd_engine w) \<Longrightarrow> none_finished (wd_engine w')"
    and t: "en_tick_threads (wd_engine w) = [] \<Longrightarrow> en_tick_threads (wd_engine w') = []"
      "en_snapshot_threads (wd_engine w) = [] \<Longrightarrow> en_snapshot_threads (wd_engine w') = []"
  shows "control_ok w'"
proof (rule control_okI)
  assume "hl_accepting (en_health (wd_engine w'))"
  then have "hl_accepting (en_health (wd_engine w))" "hl_healthy (en_health (wd_engine w'))"
    using h by (auto simp: health_moves_def health_ok_def)
  then show "hl_healthy (en_health (wd_engine w')) \<and> wd_phase w' = Phase_Idle \<and>
      en_running (wd_engine w') \<and> fully_manned (wd_engine w')"
    using control_okD(3) [OF ok] f m by simp
qed (use control_okD [OF ok] f m n t in simp_all)

lemma env_eq_start: "env_eq (world_env w s a st) (world_env0 w)"
  by (rule env_eq_world)

lemma consumer_step_ok:
  assumes ok: "world_ok cfg cat w"
  shows "world_ok cfg cat (consumer_step c w)"
proof -
  note D = world_okD [OF ok]
  let ?env = "consumer_poll c (world_env0 w)" and ?w = "consumer_step c w"
  have env0: "env_ok cfg (world_env0 w)" using D(4) by (simp add: streams_ok_def)
  note F = consumer_poll_frame [OF env0, of c]
  have e: "wd_engine ?w = (wd_engine w)\<lparr>en_dispatcher := le_dispatcher ?env, en_health := en_health (wd_engine w)\<rparr>"
    using F(3) by (simp add: consumer_step_def)
  have h: "en_health (wd_engine ?w) = en_health (wd_engine w)" by (simp add: e)
  have lanes: "en_tick_lanes (wd_engine ?w) = en_tick_lanes (wd_engine w)"
    "en_snapshot_lanes (wd_engine ?w) = en_snapshot_lanes (wd_engine w)" by (simp_all add: e)
  have "streams_ok cfg ?w"
  proof (rule streams_ok_turn [OF D(4) F(1) _ F(2)])
    show "env_eq (world_env0 ?w) ?env" unfolding consumer_step_def by (rule env_eq_put)
    show "queue_of (wd_engine ?w) True l = queue_of (wd_engine w) True l \<and>
        en_tick_recovery (wd_engine ?w) ! l = en_tick_recovery (wd_engine w) ! l" for l
      unfolding lanes_cong(3) [OF lanes] by (simp add: e)
  qed simp
  moreover have "lanes_quiet (wd_engine ?w)"
    by (rule lanes_quiet_same [OF D(3)]) (simp_all add: e tick_live_def snapshot_live_def)
  moreover have "control_ok ?w"
  proof (rule control_ok_turn [OF D(5)])
    show "health_ok (en_health (wd_engine ?w))" using D(7) by (simp only: h)
    show "none_finished (wd_engine ?w)" if "en_running (wd_engine w)"
      using control_okD(7) [OF D(5) that] by (auto simp: none_finished_def e)
  qed (simp_all only: h health_moves_refl, simp_all add: e fully_manned_def consumer_step_def)
  moreover have "lanes_ok (wd_engine ?w)" unfolding lanes_cong(2) [OF lanes] by (rule D(2))
  ultimately show ?thesis using D(1,6) by (simp add: world_ok_def shape_ok_def accounting_def Let_def e)
qed

text \<open>What a turn of a lane finds.\<close>

lemma tick_worker_ready:
  assumes ok: "world_ok cfg cat w"
    and l: "l < length (en_tick_threads (wd_engine w))" and live: "\<not> tt_finished (en_tick_threads (wd_engine w) ! l)"
  shows "tick_worker_ok cfg l (home_of cfg l) (tick_worker l schedule allocations w)"
    and "l < tick_decoder_lanes cfg" "l < length (en_tick_lanes (wd_engine w))"
      "l < length (en_tick_recovery (wd_engine w))" "l < length (en_tick_stats (wd_engine w))"
      "en_config (wd_engine w) = cfg" "en_catalog (wd_engine w) = cat"
    and "list_all (message_home (home_of cfg l)) (lane_queue (en_tick_lanes (wd_engine w) ! l))"
    and "tw_lane (tick_worker l schedule allocations w) = en_tick_lanes (wd_engine w) ! l"
      "tw_recovery (tick_worker l schedule allocations w) = en_tick_recovery (wd_engine w) ! l"
      "tw_env (tick_worker l schedule allocations w) = world_env w schedule allocations (en_tick_stats (wd_engine w) ! l)"
      "\<not> tw_finished (tick_worker l schedule allocations w)"
proof -
  note D = world_okD [OF ok]
  let ?e = "wd_engine w" and ?tw = "tick_worker l schedule allocations w"
  show n: "l < tick_decoder_lanes cfg" using D(1) l by (simp add: shape_ok_def)
  show len: "l < length (en_tick_lanes ?e)" "l < length (en_tick_recovery ?e)" "l < length (en_tick_stats ?e)"
    "en_config ?e = cfg" "en_catalog ?e = cat"
    using D(1) n by (simp_all add: shape_ok_def)
  have q: "queue_of ?e True l = lane_queue (en_tick_lanes ?e ! l)" by (simp add: queue_of_def class_lanes_def)
  have good: "lane_good cfg l (home_of cfg l) (en_tick_recovery ?e ! l) (world_env0 w)"
    and homed: "list_all (message_home (home_of cfg l)) (lane_queue (en_tick_lanes ?e ! l))"
    using D(4) n unfolding streams_ok_def q [symmetric] by blast+
  show "list_all (message_home (home_of cfg l)) (lane_queue (en_tick_lanes ?e ! l))" by (rule homed)
  show fields: "tw_lane ?tw = en_tick_lanes ?e ! l" "tw_recovery ?tw = en_tick_recovery ?e ! l"
    "tw_env ?tw = world_env w schedule allocations (en_tick_stats ?e ! l)" "\<not> tw_finished ?tw"
    using live by (simp_all add: tick_worker_def Let_def)
  have lane: "lane_ok [] (en_tick_lanes ?e ! l)" using D(2) len(1) by (simp add: lanes_ok_def list_all_length)
  have "lane_good cfg l (home_of cfg l) (tw_recovery ?tw) (tw_env ?tw)"
    unfolding fields by (rule iffD2 [OF env_eq_keeps(5) [OF env_eq_start] good])
  then show "tick_worker_ok cfg l (home_of cfg l) ?tw"
    using lane homed live by (simp add: tick_worker_ok_def fields)
qed

lemma snapshot_worker_ready:
  assumes ok: "world_ok cfg cat w"
    and l: "l < length (en_snapshot_threads (wd_engine w))" and live: "\<not> en_snapshot_threads (wd_engine w) ! l"
  shows "snapshot_worker_ok cfg l (snapshot_worker l schedule w)"
    and "l < snapshot_decoder_lanes cfg" "l < length (en_snapshot_lanes (wd_engine w))"
      "l < length (en_snapshot_stats (wd_engine w))"
      "en_config (wd_engine w) = cfg" "en_catalog (wd_engine w) = cat"
    and "sw_lane (snapshot_worker l schedule w) = en_snapshot_lanes (wd_engine w) ! l"
      "sw_stats (snapshot_worker l schedule w) = en_snapshot_stats (wd_engine w) ! l"
      "sw_env (snapshot_worker l schedule w) = world_env w schedule [] default_tick_stats"
      "\<not> sw_finished (snapshot_worker l schedule w)"
proof -
  note D = world_okD [OF ok]
  let ?e = "wd_engine w" and ?sw = "snapshot_worker l schedule w"
  show n: "l < snapshot_decoder_lanes cfg" using D(1) l by (simp add: shape_ok_def)
  show len: "l < length (en_snapshot_lanes ?e)" "l < length (en_snapshot_stats ?e)" "en_config ?e = cfg" "en_catalog ?e = cat"
    using D(1) n by (simp_all add: shape_ok_def)
  show fields: "sw_lane ?sw = en_snapshot_lanes ?e ! l" "sw_stats ?sw = en_snapshot_stats ?e ! l"
    "sw_env ?sw = world_env w schedule [] default_tick_stats" "\<not> sw_finished ?sw"
    using live by (simp_all add: snapshot_worker_def Let_def)
  have env0: "env_ok cfg (world_env0 w)" using D(4) by (simp add: streams_ok_def)
  have lane: "lane_ok [] (en_snapshot_lanes ?e ! l)" using D(2) len(1) by (simp add: lanes_ok_def list_all_length)
  have "env_ok cfg (sw_env ?sw)" unfolding fields by (rule iffD2 [OF env_eq_keeps(1) [OF env_eq_start] env0])
  then show "snapshot_worker_ok cfg l ?sw" using lane n live by (simp add: snapshot_worker_ok_def fields)
qed

lemma tick_step_ok:
  assumes ok: "world_ok cfg cat w" and lim: "cfg_maximum_text_bytes cfg \<le> kMaximumIdentityBytes"
    and l: "l < length (en_tick_threads (wd_engine w))" and live: "\<not> tt_finished (en_tick_threads (wd_engine w) ! l)"
  shows "\<exists>w'. tick_turn l schedule allocations now w = Some w' \<and> world_ok cfg cat w' \<and>
    observed cfg {l} {} (world_env0 w') = observed cfg {l} {} (world_env0 w) \<and>
    health_moves (en_health (wd_engine w)) (en_health (wd_engine w')) \<and>
    en_admission (wd_engine w') = en_admission (wd_engine w) \<and>
    en_running (wd_engine w') = en_running (wd_engine w) \<and> wd_phase w' = wd_phase w \<and>
    en_snapshot_threads (wd_engine w') = en_snapshot_threads (wd_engine w) \<and>
    (\<forall>i. queue_of (wd_engine w') False i = queue_of (wd_engine w) False i) \<and>
    length (en_tick_threads (wd_engine w')) = length (en_tick_threads (wd_engine w)) \<and>
    (\<forall>i < length (en_tick_threads (wd_engine w)). i \<noteq> l \<longrightarrow>
       en_tick_threads (wd_engine w') ! i = en_tick_threads (wd_engine w) ! i \<and>
       queue_of (wd_engine w') True i = queue_of (wd_engine w) True i) \<and>
    queue_of (wd_engine w') True l = tl (queue_of (wd_engine w) True l) \<and>
    (tt_finished (en_tick_threads (wd_engine w') ! l) \<longleftrightarrow>
       \<not> en_running (wd_engine w) \<and> queue_of (wd_engine w) True l = [])"
proof -
  note D = world_okD [OF ok]
  let ?e = "wd_engine w" and ?tw = "tick_worker l schedule allocations w"
  note R = tick_worker_ready [OF ok l live]
  note tok = R(1) [of schedule allocations] and n = R(2) and len = R(3,4,6,7) and homed = R(8)
    and fields = R(9-12) [of schedule allocations]
  have q: "queue_of ?e True l = lane_queue (en_tick_lanes ?e ! l)" by (simp add: queue_of_def class_lanes_def)
  from TickWorker_turn_good [OF tok fields(4) lim, of cat "en_running ?e" now] obtain tw' where
    t: "TickWorker_turn cfg cat l (en_running ?e) now ?tw = Some tw'" "tick_worker_ok cfg l (home_of cfg l) tw'"
      "lane_moves cfg l (tw_env ?tw) (tw_env tw')"
      "lane_queue (tw_lane tw') = tl (lane_queue (tw_lane ?tw))"
      "tw_finished tw' \<longleftrightarrow> \<not> en_running ?e \<and> lane_queue (tw_lane ?tw) = []"
      "tw_finished tw' \<longrightarrow> recovery_drained (tw_recovery tw')" by blast
  let ?w = "put_tick_worker l tw' w"
  let ?e' = "wd_engine ?w"
  have e': "?e' = ?e\<lparr>en_tick_lanes := (en_tick_lanes ?e)[l := tw_lane tw'],
       en_tick_recovery := (en_tick_recovery ?e)[l := tw_recovery tw'],
       en_tick_stats := (en_tick_stats ?e)[l := le_stats (tw_env tw')],
       en_tick_threads := (en_tick_threads ?e)[l := \<lparr>tt_next_timer = tw_next_timer tw', tt_finished = tw_finished tw'\<rparr>],
       en_dispatcher := le_dispatcher (tw_env tw'), en_health := le_health (tw_env tw')\<rparr>"
    and w': "wd_callback ?w = wd_callback w" "wd_phase ?w = wd_phase w"
    by (simp_all add: put_tick_worker_def Let_def)
  have eq: "env_eq (world_env0 ?w) (tw_env tw')"
    unfolding put_tick_worker_def Let_def by (rule env_eq_put)
  have turn: "tick_turn l schedule allocations now w = Some ?w"
    using t(1) len(3,4) by (simp add: tick_turn_def Let_def)
  have qs: "queue_of ?e' True i = (if i = l then tl (queue_of ?e True l) else queue_of ?e True i)"
    "queue_of ?e' False j = queue_of ?e False j" for i j
    using len t(4) by (simp_all add: queue_of_def class_lanes_def e' fields)
  have env': "env_ok cfg (tw_env tw')" "lane_good cfg l (home_of cfg l) (tw_recovery tw') (tw_env tw')"
    using t(2) by (simp_all add: tick_worker_ok_def lane_good_def)
  have moves: "observed cfg {l} {} (tw_env tw') = observed cfg {l} {} (world_env0 w)"
    "health_moves (en_health ?e) (en_health ?e')"
    using t(3) env_eq_keeps(4) [OF env_eq_start] by (simp_all add: lane_moves_def fields e')
  have streams: "streams_ok cfg ?w"
  proof (rule streams_ok_turn [OF D(4) env'(1) eq moves(1)])
    show "list_all (message_home (home_of cfg i)) (queue_of ?e' True i) \<and>
        lane_good cfg i (home_of cfg i) (en_tick_recovery ?e' ! i) (tw_env tw')" if "i \<in> {l}" for i
    proof -
      have tl: "list_all P (tl xs)" if "list_all P xs" for P and xs :: "OwnedMessageView list"
        using that by (cases xs) simp_all
      have "queue_of ?e' True l = tl (queue_of ?e True l)" by (simp add: qs)
      moreover have "en_tick_recovery ?e' ! l = tw_recovery tw'" using len by (simp add: e')
      ultimately show ?thesis using that env'(2) tl [OF homed] q by simp
    qed
  qed (simp_all add: qs, simp add: e')
  have live': "tick_live ?e' i = (if i = l then \<not> tw_finished tw' else tick_live ?e i)" for i
    using l by (simp add: tick_live_def e' nth_list_update)
  have quiet: "lanes_quiet ?e'"
  proof -
    have "queue_of ?e' True i = [] \<and> recovery_drained (en_tick_recovery ?e' ! i)"
      if i: "i < length (en_tick_lanes ?e')" "\<not> tick_live ?e' i" for i
    proof (cases "i = l")
      case True
      then have "tw_finished tw'" using i(2) by (simp add: live')
      then show ?thesis using True t(5,6) len q by (simp add: qs fields) (simp add: e')
    next
      case False
      then have "i < length (en_tick_lanes ?e)" "\<not> tick_live ?e i" using i by (simp_all add: live') (simp add: e')
      then show ?thesis using False D(3) by (simp add: qs lanes_quiet_def) (simp add: e')
    qed
    moreover have "queue_of ?e' False i = []" if "i < length (en_snapshot_lanes ?e')" "\<not> snapshot_live ?e' i" for i
      using that D(3) by (simp add: qs lanes_quiet_def snapshot_live_def) (simp add: e')
    ultimately show ?thesis by (simp add: lanes_quiet_def)
  qed
  have control: "control_ok ?w"
  proof (rule control_ok_turn [OF D(5) moves(2)])
    show "health_ok (en_health ?e')" using env'(1) by (simp add: e' env_ok_def)
    show "none_finished ?e'" if "en_running ?e"
      using control_okD(7) [OF D(5) that] that t(5) l
      by (auto simp: none_finished_def e' fields dest!: set_update_subset_insert [THEN subsetD])
  qed (use l in \<open>simp_all add: w' e' fully_manned_def\<close>)
  have "lanes_ok ?e'"
    using D(2) t(2) by (auto simp: lanes_ok_def e' tick_worker_ok_def intro!: list_all_update)
  moreover have "shape_ok cfg cat ?e'" "accounting ?e'"
    using D(1,6) by (simp_all add: shape_ok_def accounting_def Let_def e')
  ultimately have "world_ok cfg cat ?w" using streams quiet control by (simp add: world_ok_def)
  then show ?thesis
    using turn moves(2) t(5) l len env_eq_keeps(4) [OF eq] moves(1)
    by (intro exI [of _ ?w]) (simp add: w' qs fields q, simp add: e')
qed


lemma snapshot_step_ok:
  assumes ok: "world_ok cfg cat w"
    and l: "l < length (en_snapshot_threads (wd_engine w))" and live: "\<not> en_snapshot_threads (wd_engine w) ! l"
  shows "\<exists>w'. snapshot_turn l schedule w = Some w' \<and> world_ok cfg cat w' \<and>
    observed cfg {} {l} (world_env0 w') = observed cfg {} {l} (world_env0 w) \<and>
    health_moves (en_health (wd_engine w)) (en_health (wd_engine w')) \<and>
    en_admission (wd_engine w') = en_admission (wd_engine w) \<and>
    en_running (wd_engine w') = en_running (wd_engine w) \<and> wd_phase w' = wd_phase w \<and>
    en_tick_threads (wd_engine w') = en_tick_threads (wd_engine w) \<and>
    (\<forall>i. queue_of (wd_engine w') True i = queue_of (wd_engine w) True i) \<and>
    length (en_snapshot_threads (wd_engine w')) = length (en_snapshot_threads (wd_engine w)) \<and>
    (\<forall>i < length (en_snapshot_threads (wd_engine w)). i \<noteq> l \<longrightarrow>
       en_snapshot_threads (wd_engine w') ! i = en_snapshot_threads (wd_engine w) ! i \<and>
       queue_of (wd_engine w') False i = queue_of (wd_engine w) False i) \<and>
    queue_of (wd_engine w') False l = tl (queue_of (wd_engine w) False l) \<and>
    (en_snapshot_threads (wd_engine w') ! l \<longleftrightarrow>
       \<not> en_running (wd_engine w) \<and> queue_of (wd_engine w) False l = []) \<and>
    (lane_healthy (world_env0 w') \<longrightarrow> (\<forall>v < instrument_workers cfg.
       snapshot_view l v (world_env0 w') = snapshot_view l v (world_env0 w) @
         filter (snapshot_owned cfg v)
           (concat (map (snapshot_output cfg cat) (take 1 (queue_of (wd_engine w) False l))))))"
proof -
  note D = world_okD [OF ok]
  let ?e = "wd_engine w" and ?sw = "snapshot_worker l schedule w"
  note R = snapshot_worker_ready [OF ok l live]
  note sok = R(1) [of schedule] and n = R(2) and len = R(3,5,6) and fields = R(7,9,10) [of schedule]
  have q: "queue_of ?e False l = lane_queue (en_snapshot_lanes ?e ! l)" by (simp add: queue_of_def class_lanes_def)
  from SnapshotWorker_turn_good [OF sok fields(3), of cat "en_running ?e"] obtain sw' where
    t: "SnapshotWorker_turn cfg cat l (en_running ?e) ?sw = Some sw'" "snapshot_worker_ok cfg l sw'"
      "observed cfg {} {l} (sw_env sw') = observed cfg {} {l} (sw_env ?sw)"
      "health_moves (le_health (sw_env ?sw)) (le_health (sw_env sw'))"
      "lane_queue (sw_lane sw') = tl (lane_queue (sw_lane ?sw))"
      "sw_finished sw' \<longleftrightarrow> \<not> en_running ?e \<and> lane_queue (sw_lane ?sw) = []"
    and out: "lane_healthy (sw_env sw') \<Longrightarrow> \<forall>v < instrument_workers cfg.
      snapshot_view l v (sw_env sw') = snapshot_view l v (sw_env ?sw) @
         filter (snapshot_owned cfg v) (concat (map (snapshot_output cfg cat) (take 1 (lane_queue (sw_lane ?sw)))))"
    by blast
  let ?w = "put_snapshot_worker l sw' w"
  let ?e' = "wd_engine ?w"
  have e': "?e' = ?e\<lparr>en_snapshot_lanes := (en_snapshot_lanes ?e)[l := sw_lane sw'],
       en_snapshot_stats := (en_snapshot_stats ?e)[l := sw_stats sw'],
       en_snapshot_threads := (en_snapshot_threads ?e)[l := sw_finished sw'],
       en_dispatcher := le_dispatcher (sw_env sw'), en_health := le_health (sw_env sw')\<rparr>"
    and w': "wd_callback ?w = wd_callback w" "wd_phase ?w = wd_phase w"
    by (simp_all add: put_snapshot_worker_def Let_def)
  have eq: "env_eq (world_env0 ?w) (sw_env sw')"
    unfolding put_snapshot_worker_def Let_def by (rule env_eq_put)
  have turn: "snapshot_turn l schedule w = Some ?w"
    using t(1) len(2,3) by (simp add: snapshot_turn_def Let_def)
  have qs: "queue_of ?e' False i = (if i = l then tl (queue_of ?e False l) else queue_of ?e False i)"
    "queue_of ?e' True j = queue_of ?e True j" for i j
    using len t(5) by (simp_all add: queue_of_def class_lanes_def e' fields)
  have env': "env_ok cfg (sw_env sw')" using t(2) by (simp add: snapshot_worker_ok_def)
  have moves: "observed cfg {} {l} (sw_env sw') = observed cfg {} {l} (world_env0 w)"
    "health_moves (en_health ?e) (en_health ?e')"
    using t(3,4) env_eq_keeps(4) [OF env_eq_start, of cfg "{}" "{l}" w schedule "[]" default_tick_stats]
    by (simp_all add: fields e')
  have streams: "streams_ok cfg ?w"
    by (rule streams_ok_turn [OF D(4) env' eq moves(1)]) (simp_all add: qs, simp add: e')
  have live': "snapshot_live ?e' i = (if i = l then \<not> sw_finished sw' else snapshot_live ?e i)" for i
    using l by (simp add: snapshot_live_def e' nth_list_update)
  have quiet: "lanes_quiet ?e'"
  proof -
    have "queue_of ?e' False i = []" if i: "i < length (en_snapshot_lanes ?e')" "\<not> snapshot_live ?e' i" for i
    proof (cases "i = l")
      case True
      then have "sw_finished sw'" using i(2) by (simp add: live')
      then show ?thesis using True t(6) q by (simp add: qs fields)
    next
      case False
      then have "i < length (en_snapshot_lanes ?e)" "\<not> snapshot_live ?e i" using i by (simp_all add: live') (simp add: e')
      then show ?thesis using False D(3) by (simp add: qs lanes_quiet_def)
    qed
    moreover have "queue_of ?e' True i = [] \<and> recovery_drained (en_tick_recovery ?e' ! i)"
      if "i < length (en_tick_lanes ?e')" "\<not> tick_live ?e' i" for i
      using that D(3) by (simp add: qs lanes_quiet_def tick_live_def) (simp add: e')
    ultimately show ?thesis by (simp add: lanes_quiet_def)
  qed
  have control: "control_ok ?w"
  proof (rule control_ok_turn [OF D(5) moves(2)])
    show "health_ok (en_health ?e')" using env' by (simp add: e' env_ok_def)
    show "none_finished ?e'" if "en_running ?e"
      using control_okD(7) [OF D(5) that] that t(6) l
      by (auto simp: none_finished_def e' fields dest!: set_update_subset_insert [THEN subsetD])
  qed (use l in \<open>simp_all add: w' e' fully_manned_def\<close>)
  have "lanes_ok ?e'"
    using D(2) t(2) by (auto simp: lanes_ok_def e' snapshot_worker_ok_def intro!: list_all_update)
  moreover have "shape_ok cfg cat ?e'" "accounting ?e'"
    using D(1,6) by (simp_all add: shape_ok_def accounting_def Let_def e')
  ultimately have world: "world_ok cfg cat ?w" using streams quiet control by (simp add: world_ok_def)
  have view: "lane_healthy (world_env0 ?w) \<longrightarrow> (\<forall>v < instrument_workers cfg.
       snapshot_view l v (world_env0 ?w) = snapshot_view l v (world_env0 w) @
         filter (snapshot_owned cfg v) (concat (map (snapshot_output cfg cat) (take 1 (queue_of ?e False l)))))"
    using out env_eq_keeps(3) [OF env_eq_start, of l _ w schedule "[]" default_tick_stats]
    unfolding env_eq_keeps(3,6) [OF eq] by (simp add: fields q)
  have "observed cfg {} {l} (world_env0 ?w) = observed cfg {} {l} (world_env0 w)"
    unfolding env_eq_keeps(4) [OF eq] by (rule moves(1))
  moreover have "en_snapshot_threads ?e' ! l \<longleftrightarrow> \<not> en_running ?e \<and> queue_of ?e False l = []"
    using t(6) l by (simp add: e' fields q)
  moreover have "en_snapshot_threads ?e' ! i = en_snapshot_threads ?e ! i \<and> queue_of ?e' False i = queue_of ?e False i"
    if "i \<noteq> l" for i using that by (simp add: qs) (simp add: e')
  moreover have "en_admission ?e' = en_admission ?e" "en_running ?e' = en_running ?e"
    "en_tick_threads ?e' = en_tick_threads ?e" "length (en_snapshot_threads ?e') = length (en_snapshot_threads ?e)"
    by (simp_all add: e')
  ultimately show ?thesis
    using turn world view moves(2) w'(2) by (intro exI [of _ ?w]) (simp only: qs, simp)
qed

end
