(* ===== verification/Engine_Runs.thy ===== *)
theory Engine_Runs
  imports Engine_Steps
begin

text \<open>
  \<open>Start\<close> and \<open>Stop\<close> keep the invariant, a created engine satisfies it, and therefore every run
  does.  \<open>Create\<close> fails only for a rejected configuration or a ring capacity that cannot be rounded up.
\<close>

section \<open>Start and Stop\<close>

text \<open>A change of flags, health and threads, and of the phase.\<close>

lemma control_step:
  assumes ok: "world_ok cfg cat w" and c: "control_change (wd_engine w) e"
    and a: "en_admission e = en_admission (wd_engine w)"
      "en_next_ingress_sequence e = en_next_ingress_sequence (wd_engine w)"
      "en_callback_active e = en_callback_active (wd_engine w)"
    and t: "length (en_tick_threads e) \<le> tick_decoder_lanes cfg"
      "length (en_snapshot_threads e) \<le> snapshot_decoder_lanes cfg"
    and q: "\<And>l. tick_live (wd_engine w) l \<Longrightarrow> tick_live e l"
      "\<And>l. snapshot_live (wd_engine w) l \<Longrightarrow> snapshot_live e l"
    and ctl: "control_ok (w\<lparr>wd_engine := e, wd_phase := p\<rparr>)"
  shows "world_ok cfg cat (w\<lparr>wd_engine := e, wd_phase := p\<rparr>)"
proof -
  note D = world_okD [OF ok]
  let ?w = "w\<lparr>wd_engine := e, wd_phase := p\<rparr>"
  have "control_change (wd_engine w) (wd_engine ?w)" using c by simp
  note K = control_change_keeps [OF this _ D(2,4)]
  have "lanes_quiet e"
    by (rule lanes_quiet_same [OF D(3)]) (use c q in \<open>auto simp: control_change_def\<close>)
  moreover have "shape_ok cfg cat e"
    using D(1) c t by (simp add: shape_ok_def control_change_def)
  moreover have "accounting e" using D(6) a by (simp add: accounting_def)
  ultimately show ?thesis using K ctl by (simp add: world_ok_def)
qed

lemma spawn_threads_fields:
  "control_change e (spawn_threads k clock e)" "en_health (spawn_threads k clock e) = en_health e"
  "en_started (spawn_threads k clock e) = en_started e" "en_running (spawn_threads k clock e) = en_running e"
  "en_admission (spawn_threads k clock e) = en_admission e"
  "en_next_ingress_sequence (spawn_threads k clock e) = en_next_ingress_sequence e"
  "en_callback_active (spawn_threads k clock e) = en_callback_active e"
  "none_finished (spawn_threads k clock e)"
  "length (en_tick_threads (spawn_threads k clock e)) \<le> tick_decoder_lanes (en_config e)"
  "length (en_snapshot_threads (spawn_threads k clock e)) \<le> snapshot_decoder_lanes (en_config e)"
  by (auto simp: spawn_threads_def control_change_def none_finished_def)

lemma start_begin_ok:
  assumes ok: "world_ok cfg cat w" and idle: "wd_phase w = Phase_Idle" and new: "\<not> en_started (wd_engine w)"
    and st: "Start_begin outcome clock (wd_engine w) = (err, e)"
  shows "world_ok cfg cat (w\<lparr>wd_engine := e, wd_phase := if err = None then Phase_Starting else Phase_Stopping\<rparr>)"
proof -
  note D = world_okD [OF ok]
  let ?e = "wd_engine w"
  have empty: "en_tick_threads ?e = []" "en_snapshot_threads ?e = []" "\<not> en_running ?e"
    using control_okD(4) [OF D(5) new] by simp_all
  then have active: "\<not> en_callback_active ?e" "wd_callback w = None"
    using control_okD(1,2) [OF D(5)] by auto
  have cfg: "en_config ?e = cfg" "length (en_tick_lanes ?e) = tick_decoder_lanes cfg"
    "length (en_snapshot_lanes ?e) = snapshot_decoder_lanes cfg" using D(1) by (simp_all add: shape_ok_def)
  let ?e1 = "(set_accepting False (?e\<lparr>en_started := True\<rparr>))\<lparr>en_running := True\<rparr>"
  have e: "control_change ?e e \<and> en_admission e = en_admission ?e \<and>
    en_next_ingress_sequence e = en_next_ingress_sequence ?e \<and> en_callback_active e = en_callback_active ?e \<and>
    length (en_tick_threads e) \<le> tick_decoder_lanes cfg \<and> length (en_snapshot_threads e) \<le> snapshot_decoder_lanes cfg \<and>
    en_running e \<and> en_started e \<and> none_finished e \<and> \<not> hl_accepting (en_health e) \<and>
    (err = None \<longrightarrow> fully_manned e)"
  proof (cases outcome)
    case AllSpawned
    then have "err = None" "e = spawn_threads (tick_decoder_lanes cfg + snapshot_decoder_lanes cfg) clock ?e1"
      using st new cfg by (simp_all add: Start_begin_def Let_def)
    then show ?thesis using cfg D(7)
      by (auto simp: spawn_threads_def control_change_def set_accepting_def none_finished_def fully_manned_def health_ok_def)
  next
    case (SpawnFailed k what)
    then have "err \<noteq> None" "e = Stop_gate (engine_fatal (''decoder thread creation failed: '' @ what) (spawn_threads k clock ?e1))"
      using st new by (auto simp: Start_begin_def Let_def)
    then show ?thesis using cfg D(7)
      by (auto simp: spawn_threads_def control_change_def set_accepting_def none_finished_def Stop_gate_def
          engine_fatal_def health_ok_def SetFatal_def)
  qed
  show ?thesis
  proof (rule control_step [OF ok])
    show "tick_live e l" if "tick_live ?e l" for l using that empty by (simp add: tick_live_def)
    show "snapshot_live e l" if "snapshot_live ?e l" for l using that empty by (simp add: snapshot_live_def)
    show "control_ok (w\<lparr>wd_engine := e, wd_phase := if err = None then Phase_Starting else Phase_Stopping\<rparr>)"
      by (rule control_okI) (use e active in \<open>simp_all split: if_splits\<close>)
  qed (use e in simp_all)
qed

lemma set_affinity_control:
  "\<exists>h. set_affinity pf first is e = e\<lparr>en_health := h\<rparr> \<and> (h = en_health e \<or> (\<exists>m. h = SetFatal m (en_health e)))"
proof (induction pf first "is" e rule: set_affinity.induct)
  case (1 pf first e)
  show ?case by (rule exI [of _ "en_health e"]) simp
next
  case (2 pf first i indices e)
  then show ?case by (auto simp: engine_fatal_def)
qed

lemma Start_accept_health:
  assumes "health_ok (en_health e)"
  shows "\<exists>h. snd (Start_accept e) = e\<lparr>en_health := h\<rparr> \<and> health_ok h \<and>
    (hl_accepting h \<longleftrightarrow> fst (Start_accept e) = None)"
proof (cases "hl_healthy (en_health e)")
  case True
  then show ?thesis using assms
    by (intro exI [of _ "(en_health e)\<lparr>hl_accepting := True\<rparr>"])
      (simp add: Start_accept_def set_accepting_def Let_def health_ok_def)
next
  case False
  then show ?thesis using assms
    by (intro exI [of _ "(en_health e)\<lparr>hl_accepting := False\<rparr>"])
      (simp add: Start_accept_def start_failed_def Stop_gate_def set_accepting_def Let_def health_ok_def)
qed

lemma start_failed_health:
  assumes "health_ok (en_health e)"
  shows "\<exists>h. snd (start_failed e) = e\<lparr>en_health := h\<rparr> \<and> health_ok h \<and>
    (hl_accepting h \<longleftrightarrow> fst (start_failed e) = None)"
  using assms
  by (intro exI [of _ "(en_health e)\<lparr>hl_accepting := False\<rparr>"])
    (simp add: start_failed_def Stop_gate_def set_accepting_def health_ok_def)

lemma start_end_ok:
  assumes ok: "world_ok cfg cat w" and starting: "wd_phase w = Phase_Starting"
    and st: "Start_end pf (wd_engine w) = (err, e)"
  shows "world_ok cfg cat (w\<lparr>wd_engine := e, wd_phase := if err = None then Phase_Idle else Phase_Stopping\<rparr>)"
proof -
  note D = world_okD [OF ok]
  let ?e = "wd_engine w"
  obtain h where h: "e = ?e\<lparr>en_health := h\<rparr>" "health_ok h" "hl_accepting h \<longleftrightarrow> err = None"
  proof -
    define e1 where "e1 = (if 0 \<le> first_decoder_cpu (en_config ?e) then
        if pf_linux pf then set_affinity pf (nat (first_decoder_cpu (en_config ?e)))
          [0 ..< length (en_tick_threads ?e) + length (en_snapshot_threads ?e)] ?e
        else engine_fatal ''decoder CPU affinity is supported only on Linux'' ?e else ?e)"
    obtain h1 where h1: "e1 = ?e\<lparr>en_health := h1\<rparr>" "health_ok h1"
    proof -
      have "\<exists>h1. e1 = ?e\<lparr>en_health := h1\<rparr> \<and> (h1 = en_health ?e \<or> (\<exists>m. h1 = SetFatal m (en_health ?e)))"
        (is "?P e1")
      proof -
        have "?P (set_affinity pf n is ?e)" for n "is" by (rule set_affinity_control)
        moreover have "?P (engine_fatal m ?e)" for m 
          by (rule exI [of _ "SetFatal m (en_health ?e)"]) (simp add: engine_fatal_def, blast)
        moreover have "?P ?e" by (rule exI [of _ "en_health ?e"]) simp
        ultimately show ?thesis unfolding e1_def by (simp only: split: if_split) blast
      qed
      then show thesis using that D(7) by auto
    qed
    have "Start_end pf ?e = Start_accept e1 \<or> Start_end pf ?e = start_failed e1"
      by (auto simp: Start_end_def e1_def Let_def)
    moreover have "health_ok (en_health e1)" using h1 by simp
    ultimately have "\<exists>h. e = e1\<lparr>en_health := h\<rparr> \<and> health_ok h \<and> (hl_accepting h \<longleftrightarrow> err = None)"
      using Start_accept_health [of e1] start_failed_health [of e1] st by (metis fst_conv snd_conv)
    then show thesis using that h1(1) by auto
  qed
  have manned: "en_running ?e" "fully_manned ?e" using control_okD(5) [OF D(5) starting] by simp_all
  show ?thesis
  proof (rule control_step [OF ok])
    show "control_change ?e e" using h(2) by (simp add: control_change_def h(1))
    show "control_ok (w\<lparr>wd_engine := e, wd_phase := if err = None then Phase_Idle else Phase_Stopping\<rparr>)"
      using control_okD [OF D(5)] manned h(2,3)
      by (intro control_okI)
        (auto simp: h(1) fully_manned_def none_finished_def health_ok_def split: if_splits)
  qed (use h(1) D(1) in \<open>simp_all add: tick_live_def snapshot_live_def shape_ok_def\<close>)
qed

lemma stop_gate_ok:
  assumes ok: "world_ok cfg cat w" and idle: "wd_phase w = Phase_Idle"
  shows "world_ok cfg cat (w\<lparr>wd_engine := Stop_gate (wd_engine w), wd_phase := Phase_Stopping\<rparr>)"
proof (rule control_step [OF ok])
  note D = world_okD [OF ok]
  let ?e = "wd_engine w"
  have e: "Stop_gate ?e = ?e\<lparr>en_health := (en_health ?e)\<lparr>hl_accepting := False\<rparr>\<rparr>"
    by (simp add: Stop_gate_def set_accepting_def)
  show "control_change ?e (Stop_gate ?e)" by (simp add: control_change_def e health_ok_def)
  show "control_ok (w\<lparr>wd_engine := Stop_gate ?e, wd_phase := Phase_Stopping\<rparr>)"
    by (rule control_okI) (use control_okD [OF D(5)] in \<open>auto simp: e fully_manned_def none_finished_def\<close>)
  show "length (en_tick_threads (Stop_gate ?e)) \<le> tick_decoder_lanes cfg"
    "length (en_snapshot_threads (Stop_gate ?e)) \<le> snapshot_decoder_lanes cfg"
    using D(1) by (simp_all add: e shape_ok_def)
qed (simp_all add: Stop_gate_def set_accepting_def tick_live_def snapshot_live_def)

lemma stop_running_ok:
  assumes ok: "world_ok cfg cat w" and stopping: "wd_phase w = Phase_Stopping"
    and idle: "\<not> en_callback_active (wd_engine w)"
  shows "world_ok cfg cat (w\<lparr>wd_engine := Stop_running (wd_engine w), wd_phase := Phase_Joining\<rparr>)"
proof (rule control_step [OF ok])
  note D = world_okD [OF ok]
  let ?e = "wd_engine w"
  show "control_change ?e (Stop_running ?e)" by (simp add: control_change_def Stop_running_def)
  show "control_ok (w\<lparr>wd_engine := Stop_running ?e, wd_phase := Phase_Joining\<rparr>)"
    by (rule control_okI)
      (use control_okD(1-4) [OF D(5)] stopping idle in \<open>auto simp: Stop_running_def fully_manned_def none_finished_def\<close>)
  show "length (en_tick_threads (Stop_running ?e)) \<le> tick_decoder_lanes cfg"
    "length (en_snapshot_threads (Stop_running ?e)) \<le> snapshot_decoder_lanes cfg"
    using D(1) by (simp_all add: Stop_running_def shape_ok_def)
qed (simp_all add: Stop_running_def tick_live_def snapshot_live_def)

lemma stop_join_ok:
  assumes ok: "world_ok cfg cat w" and joining: "wd_phase w = Phase_Joining" and fin: "all_finished (wd_engine w)"
  shows "world_ok cfg cat (w\<lparr>wd_engine := Stop_join (wd_engine w), wd_phase := Phase_Idle\<rparr>)"
proof (rule control_step [OF ok])
  note D = world_okD [OF ok]
  let ?e = "wd_engine w"
  have "\<not> en_running ?e" using control_okD(6) [OF D(5) joining] .
  then have off: "\<not> en_running ?e" "\<not> en_callback_active ?e" "\<not> hl_accepting (en_health ?e)"
    using control_okD(2,3) [OF D(5)] by auto
  show "control_change ?e (Stop_join ?e)" by (simp add: control_change_def Stop_join_def)
  show "control_ok (w\<lparr>wd_engine := Stop_join ?e, wd_phase := Phase_Idle\<rparr>)"
    by (rule control_okI) (use control_okD(1) [OF D(5)] off in \<open>simp_all add: Stop_join_def\<close>)
  have "\<not> tick_live ?e l" "\<not> snapshot_live ?e l" for l
    using fin nth_mem unfolding tick_live_def snapshot_live_def all_finished_def by blast+
  then show "tick_live ?e l \<Longrightarrow> tick_live (Stop_join ?e) l" "snapshot_live ?e l \<Longrightarrow> snapshot_live (Stop_join ?e) l" for l
    by blast+
qed (simp_all add: Stop_join_def)

section \<open>A created engine\<close>

text \<open>Sizes are \<open>std::size_t\<close> values.\<close>

definition config_sizes :: "EngineConfig \<Rightarrow> bool" where
  "config_sizes cfg \<longleftrightarrow> reorder_entries_per_channel cfg \<le> SIZE_MAX"

text \<open>No consumer has called yet.\<close>

lemma calls_ok_start:
  assumes "config_dispatcher cfg = Some (le_dispatcher env)" and "le_calls env = []" and "le_received env = (\<lambda>p w. [])"
    and "le_received_snapshots env = (\<lambda>p w. [])" "le_received_lates env = (\<lambda>p. [])" "le_received_faults env = (\<lambda>p. [])"
  shows "calls_ok cfg env"
proof -
  have "received k env p v = 0" for k p v using assms(3-6) by (cases k) simp_all
  moreover have "nothing_pending d" if "config_dispatcher cfg = Some d" for d
    using that by (auto simp: config_dispatcher_def new_dispatcher_def nothing_pending_def Let_def split: option.splits)
  ultimately show ?thesis using assms(1) by (simp add: calls_ok_def received_count_def assms(2) delivered_def)
qed

lemma created_ok:
  assumes c: "Create cfg cat = Inr e" and sizes: "config_sizes cfg"
  shows "world_ok cfg cat (initial_world e)"
proof -
  have valid: "ValidateConfig cfg cat = None" using c by (simp add: Create_def split: option.splits)
  note V = ValidateConfig_accepted [OF valid]
  obtain d tl sl where d: "config_dispatcher cfg = Some d"
    and lanes: "new_lane_storage (tick_slots_per_lane cfg) (maximum_tick_body_bytes cfg) = Some tl"
      "new_lane_storage (snapshot_slots_per_lane cfg) (maximum_snapshot_body_bytes cfg) = Some sl"
    and e: "e = \<lparr>en_config = cfg, en_catalog = cat, en_admission = default_admission_stats,
      en_tick_stats = replicate (tick_decoder_lanes cfg) default_tick_stats,
      en_snapshot_stats = replicate (snapshot_decoder_lanes cfg) default_snapshot_stats,
      en_dispatcher = d, en_tick_lanes = replicate (tick_decoder_lanes cfg) tl,
      en_snapshot_lanes = replicate (snapshot_decoder_lanes cfg) sl,
      en_tick_recovery = replicate (tick_decoder_lanes cfg) (config_recovery cfg),
      en_tick_threads = [], en_snapshot_threads = [],
      en_started = False, en_running = False, en_callback_active = False,
      en_health = initial_health, en_next_ingress_sequence = 0\<rparr>"
    using c by (auto simp: Create_def new_engine_def split: option.splits Option.bind_splits)
  note L = new_lane_storage_ok [OF lanes(1) V(5)] new_lane_storage_ok [OF lanes(2) V(7)]
  obtain k where k: "reorder_entries_per_channel cfg = 2 ^ k" "k \<le> 63"
    using V(12) sizes pow2_le_size by (auto simp: config_sizes_def)
  let ?w = "initial_world e"
  have fields: "wd_engine ?w = e" "wd_callback ?w = None" "wd_phase ?w = Phase_Idle"
    "wd_received ?w = (\<lambda>p w. [])" "wd_received_snapshots ?w = (\<lambda>p w. [])" by (simp_all add: initial_world_def)
  note N = new_dispatcher_gap_ok [OF d [unfolded config_dispatcher_def]]
  have "calls_ok cfg (world_env0 ?w)"
    using d by (intro calls_ok_start) (simp_all add: initial_world_def e)
  then have env: "env_ok cfg (world_env0 ?w)"
    using N by (simp add: env_ok_def fields(1)) (simp add: e gap_ok_def health_ok_def initial_health_def)
  have queues: "queue_of e True l = []" if "l < tick_decoder_lanes cfg" for l
    using that L(2) by (simp add: queue_of_def class_lanes_def e)
  have squeues: "queue_of e False l = []" if "l < snapshot_decoder_lanes cfg" for l
    using that L(6) by (simp add: queue_of_def class_lanes_def e)
  have good: "lane_good cfg l (home_of cfg l) (config_recovery cfg) (world_env0 ?w)" if l: "l < tick_decoder_lanes cfg" for l
  proof (rule lane_good_env [OF _ env])
    let ?env = "new_lane_env d [] []"
    have "calls_ok cfg ?env" using d by (intro calls_ok_start) (simp_all add: new_lane_env_def)
    then have "env_ok cfg ?env"
      using N by (simp add: env_ok_def new_lane_env_def gap_ok_def health_ok_def new_health_def)
    then show "lane_good cfg l (home_of cfg l) (config_recovery cfg) ?env"
      using config_recovery_ok(1,2) [OF d l _ k] V(3) l by (simp add: lane_good_def)
    show "lane_view l v (world_env0 ?w) = lane_view l v ?env" for v
      by (simp add: lane_view_def fields) (simp add: e new_lane_env_def)
  qed
  have "recovery_drained (config_recovery cfg)"
    by (simp add: recovery_drained_def config_recovery_def new_recovery_def Let_def)
  then have "lanes_quiet e" using queues squeues by (simp add: lanes_quiet_def e)
  moreover have "streams_ok cfg ?w"
    using env good queues by (simp add: streams_ok_def fields) (simp add: e)
  moreover have "lanes_ok e" using L(1,5) V(1,2) by (simp add: lanes_ok_def e list_all_iff)
  moreover have "control_ok ?w"
    by (rule control_okI) (simp_all add: initial_world_def e initial_health_def)
  moreover have "accounting e" by (simp add: accounting_def e default_admission_stats_def)
  moreover have "shape_ok cfg cat e" by (simp add: shape_ok_def e)
  ultimately show ?thesis by (simp add: world_ok_def fields)
qed

section \<open>Runs\<close>

lemma engine_step_ok:
  assumes step: "engine_step w w'" and ok: "world_ok cfg cat w"
    and lim: "cfg_maximum_text_bytes cfg \<le> kMaximumIdentityBytes"
  shows "world_ok cfg cat w'"
  using step ok
proof cases
  case (callback_closed hb body now r e)
  then show ?thesis using admit_counts [OF ok] by simp
next
  case (callback_enter e hb body now)
  then show ?thesis using enter_step [OF ok] by simp
next
  case (callback_finish hb body now r e)
  then show ?thesis using finish_step [OF ok] by simp
next
  case (callback_overlap hb body now r e)
  then show ?thesis using admit_counts [OF ok] by simp
next
  case (consumer c)
  then show ?thesis using consumer_step_ok [OF ok] by simp
next
  case (tick l schedule allocations now)
  then show ?thesis using tick_step_ok [OF ok lim, of l schedule allocations now] by auto
next
  case (snapshot l schedule)
  then show ?thesis using snapshot_step_ok [OF ok, of l schedule] by auto
next
  case (start_again outcome clock err e)
  then have "e = wd_engine w" by (simp add: Start_begin_def)
  then have "w' = w" using start_again(1) by simp
  then show ?thesis using ok by simp
next
  case (start_begin outcome clock err e)
  then show ?thesis using start_begin_ok [OF ok] by simp
next
  case (start_end pf err e)
  then show ?thesis using start_end_ok [OF ok] by simp
next
  case stop_gate
  then show ?thesis using stop_gate_ok [OF ok] by simp
next
  case stop_running
  then show ?thesis using stop_running_ok [OF ok] by simp
next
  case stop_join
  then show ?thesis using stop_join_ok [OF ok] by simp
qed

lemma engine_run_valid: "engine_run cfg cat w \<Longrightarrow> ValidateConfig cfg cat = None"
  by (induction rule: engine_run.induct) (auto simp: Create_def split: option.splits)

lemma engine_run_ok:
  assumes run: "engine_run cfg cat w" and sizes: "config_sizes cfg"
  shows "world_ok cfg cat w"
  using run
proof induction
  case (created e)
  then show ?case using created_ok sizes by blast
next
  case (stepped w w')
  show ?case
    by (rule engine_step_ok [OF stepped.hyps(2) stepped.IH])
      (rule ValidateConfig_accepted(8) [OF engine_run_valid [OF stepped.hyps(1)]])
qed

section \<open>Creation succeeds\<close>

lemma Create_succeeds:
  assumes valid: "ValidateConfig cfg cat = None"
    and "dispatch_queue_capacity cfg \<le> SIZE_MAX div 2" and "diagnostic_queue_capacity cfg \<le> SIZE_MAX div 2"
    and "late_recovery_queue_capacity cfg \<le> SIZE_MAX div 2"
  shows "\<exists>e. Create cfg cat = Inr e"
proof -
  note V = ValidateConfig_accepted [OF valid]
  have "\<exists>d. config_dispatcher cfg = Some d"
    unfolding config_dispatcher_def using V assms by (intro new_dispatcher_ex) simp_all
  moreover have "\<exists>st. new_lane_storage (tick_slots_per_lane cfg) (maximum_tick_body_bytes cfg) = Some st"
    "\<exists>st. new_lane_storage (snapshot_slots_per_lane cfg) (maximum_snapshot_body_bytes cfg) = Some st"
    using V by (intro new_lane_storage_Some; simp)+
  ultimately show ?thesis using valid by (auto simp: Create_def new_engine_def)
qed

end
