(* ===== verification/Engine_Progress.thy ===== *)
theory Engine_Progress
  imports Engine_Runs
begin

text \<open>
  What the steps of the engine never undo: a fatal, and a stop.  And the progress of \<open>Stop\<close>: while
  the threads are joined, every turn takes the engine one step closer to the end.
\<close>

section \<open>Turns change no flag\<close>

lemma tick_turn_fields:
  assumes "tick_turn l schedule allocations now w = Some w'"
  shows "en_started (wd_engine w') = en_started (wd_engine w)" "en_running (wd_engine w') = en_running (wd_engine w)"
    "en_admission (wd_engine w') = en_admission (wd_engine w)" "wd_phase w' = wd_phase w"
    "en_callback_active (wd_engine w') = en_callback_active (wd_engine w)" "wd_callback w' = wd_callback w"
    "length (en_tick_threads (wd_engine w')) = length (en_tick_threads (wd_engine w))"
    "length (en_snapshot_threads (wd_engine w')) = length (en_snapshot_threads (wd_engine w))"
  using assms by (auto simp: tick_turn_def put_tick_worker_def put_env_def Let_def)

lemma snapshot_turn_fields:
  assumes "snapshot_turn l schedule w = Some w'"
  shows "en_started (wd_engine w') = en_started (wd_engine w)" "en_running (wd_engine w') = en_running (wd_engine w)"
    "en_admission (wd_engine w') = en_admission (wd_engine w)" "wd_phase w' = wd_phase w"
    "en_callback_active (wd_engine w') = en_callback_active (wd_engine w)" "wd_callback w' = wd_callback w"
    "length (en_tick_threads (wd_engine w')) = length (en_tick_threads (wd_engine w))"
    "length (en_snapshot_threads (wd_engine w')) = length (en_snapshot_threads (wd_engine w))"
  using assms by (auto simp: snapshot_turn_def put_snapshot_worker_def put_env_def Let_def)

lemma consumer_step_fields:
  "en_started (wd_engine (consumer_step c w)) = en_started (wd_engine w)"
  "en_running (wd_engine (consumer_step c w)) = en_running (wd_engine w)"
  "en_admission (wd_engine (consumer_step c w)) = en_admission (wd_engine w)"
  "wd_phase (consumer_step c w) = wd_phase w"
  "en_callback_active (wd_engine (consumer_step c w)) = en_callback_active (wd_engine w)"
  "wd_callback (consumer_step c w) = wd_callback w"
  "en_tick_threads (wd_engine (consumer_step c w)) = en_tick_threads (wd_engine w)"
  "en_snapshot_threads (wd_engine (consumer_step c w)) = en_snapshot_threads (wd_engine w)"
  by (simp_all add: consumer_step_def put_env_def)

section \<open>A fatal is final\<close>

lemma SetFatal_claimed [simp]: "hl_claimed h \<Longrightarrow> SetFatal m h = h"
  by (simp add: SetFatal_def)

lemma closed_gate [simp]: "\<not> hl_accepting h \<Longrightarrow> h\<lparr>hl_accepting := False\<rparr> = h"
  by (cases h) simp

lemma set_affinity_claimed: "hl_claimed (en_health e) \<Longrightarrow> set_affinity pf first is e = e"
  by (induction pf first "is" e rule: set_affinity.induct) (simp_all add: engine_fatal_def)

lemma Admit_refused:
  assumes "Admit hb body now e = (r, e')" and "en_callback_active e \<or> \<not> engine_open e"
  shows "en_started e' = en_started e" "en_running e' = en_running e"
    "as_admitted (en_admission e') = as_admitted (en_admission e)"
    "hl_claimed (en_health e) \<Longrightarrow> en_health e' = en_health e"
    "hl_accepting (en_health e') \<Longrightarrow> hl_accepting (en_health e)"
    "en_next_ingress_sequence e' = en_next_ingress_sequence e"
  using assms
  by (auto simp: Admit_def admission_stat_def engine_fatal_def admission_reject_def engine_open_def Let_def SetFatal_def
      split: if_splits)

lemma Admit_message_fields:
  assumes ok: "lanes_ok e" and adm: "Admit_message hb body now e = (r, e')"
  shows "en_started e' = en_started e" "en_running e' = en_running e"
    "as_admitted (en_admission e') = as_admitted (en_admission e) + (if r = kAccepted then 1 else 0)"
    "en_health e' = en_health e \<or> (\<exists>m. en_health e' = SetFatal m (en_health e))"
    "r = kAccepted \<Longrightarrow> hl_healthy (en_health e)"
proof -
  note A = Admit_message_spec [OF ok adm]
  have eq: "e' = e\<lparr>en_tick_lanes := en_tick_lanes e', en_snapshot_lanes := en_snapshot_lanes e',
       en_next_ingress_sequence := en_next_ingress_sequence e + (if r = kAccepted then 1 else 0),
       en_admission := (en_admission e)
         \<lparr>as_admitted := as_admitted (en_admission e) + (if r = kAccepted then 1 else 0),
          as_rejected := as_rejected (en_admission e) + (if r = kAccepted then 0 else 1),
          as_lane_full := as_lane_full (en_admission e) + (if r = kLaneFull then 1 else 0)\<rparr>,
       en_health := en_health e'\<rparr>" using A(3) unfolding admission_effect_def by (rule conjunct2)
  show "en_started e' = en_started e" "en_running e' = en_running e"
    "as_admitted (en_admission e') = as_admitted (en_admission e) + (if r = kAccepted then 1 else 0)"
    by (subst eq, simp)+
  show "en_health e' = en_health e \<or> (\<exists>m. en_health e' = SetFatal m (en_health e))"
    using A(3) by (auto simp: admission_effect_def split: if_splits)
  show "r = kAccepted \<Longrightarrow> hl_healthy (en_health e)" using A(1) by (simp add: accepts_def)
qed

lemma fatal_step:
  assumes step: "engine_step w w'" and ok: "world_ok cfg cat w"
    and lim: "cfg_maximum_text_bytes cfg \<le> kMaximumIdentityBytes"
    and claimed: "hl_claimed (en_health (wd_engine w))"
  shows "en_health (wd_engine w') = en_health (wd_engine w) \<and>
    as_admitted (en_admission (wd_engine w')) = as_admitted (en_admission (wd_engine w))"
proof -
  note D = world_okD [OF ok]
  have gate: "\<not> hl_accepting (en_health (wd_engine w))" "\<not> hl_healthy (en_health (wd_engine w))"
    using D(7) claimed by (auto simp: health_ok_def)
  show ?thesis
    using step
  proof cases
    case (callback_closed hb body now r e)
    then show ?thesis using Admit_refused(3,4) claimed by simp
  next
    case (callback_enter e hb body now)
    then show ?thesis by (simp add: admission_stat_def)
  next
    case (callback_finish hb body now r e)
    then show ?thesis using Admit_message_fields(3-5) [OF D(2)] claimed gate by auto
  next
    case (callback_overlap hb body now r e)
    then show ?thesis using Admit_refused(3,4) claimed by simp
  next
    case (consumer c)
    have "env_ok cfg (world_env0 w)" using D(4) by (simp add: streams_ok_def)
    from consumer_poll_frame(3) [OF this] show ?thesis
      using consumer by (simp add: consumer_step_fields) (simp add: consumer_step_def)
  next
    case (tick l schedule allocations now)
    then show ?thesis using tick_step_ok [OF ok lim, of l schedule allocations now] claimed
      by (auto simp: health_moves_def)
  next
    case (snapshot l schedule)
    then show ?thesis using snapshot_step_ok [OF ok, of l schedule] claimed by (auto simp: health_moves_def)
  next
    case (start_again outcome clock err e)
    then show ?thesis by (simp add: Start_begin_def)
  next
    case (start_begin outcome clock err e)
    then show ?thesis using claimed gate
      by (auto simp: Start_begin_def Let_def set_accepting_def spawn_threads_def Stop_gate_def engine_fatal_def
          split: SpawnOutcome.splits)
  next
    case (start_end pf err e)
    have "en_health e = en_health (wd_engine w) \<and> en_admission e = en_admission (wd_engine w)"
      using start_end(3) claimed gate
      by (auto simp: Start_end_def Start_accept_def start_failed_def Stop_gate_def set_accepting_def engine_fatal_def
          set_affinity_claimed Let_def split: if_splits)
    then show ?thesis using start_end by simp
  next
    case stop_gate
    then show ?thesis using gate by (simp add: Stop_gate_def set_accepting_def)
  next
    case stop_running
    then show ?thesis by (simp add: Stop_running_def)
  next
    case stop_join
    then show ?thesis by (simp add: Stop_join_def)
  qed
qed

section \<open>A stop is final\<close>

text \<open>An engine that was started and runs no more.\<close>

lemma stopped_step:
  assumes step: "engine_step w w'" and ok: "world_ok cfg cat w"
    and st: "en_started (wd_engine w)" "\<not> en_running (wd_engine w)"
  shows "en_started (wd_engine w') \<and> \<not> en_running (wd_engine w') \<and>
    as_admitted (en_admission (wd_engine w')) = as_admitted (en_admission (wd_engine w))"
proof -
  note D = world_okD [OF ok]
  have off: "\<not> en_callback_active (wd_engine w)" "wd_callback w = None" "\<not> hl_accepting (en_health (wd_engine w))"
    "wd_phase w \<noteq> Phase_Starting"
    using control_okD(1,2,3,5) [OF D(5)] st by auto
  show ?thesis
    using step
  proof cases
    case (callback_closed hb body now r e)
    then show ?thesis using Admit_refused(1-3) st by simp
  next
    case (callback_enter e hb body now)
    then show ?thesis using off by (simp add: engine_open_def)
  next
    case (callback_finish hb body now r e)
    then show ?thesis using off by simp
  next
    case (callback_overlap hb body now r e)
    then show ?thesis using off by simp
  next
    case (consumer c)
    then show ?thesis using st by (simp add: consumer_step_fields)
  next
    case (tick l schedule allocations now)
    then show ?thesis using st tick_turn_fields [of l schedule allocations now w w'] by simp
  next
    case (snapshot l schedule)
    then show ?thesis using st snapshot_turn_fields [of l schedule w w'] by simp
  next
    case (start_again outcome clock err e)
    then show ?thesis using st by (simp add: Start_begin_def)
  next
    case (start_begin outcome clock err e)
    then show ?thesis using st by simp
  next
    case (start_end pf err e)
    then show ?thesis using off by simp
  qed (use st in \<open>simp_all add: Stop_gate_def set_accepting_def Stop_running_def Stop_join_def\<close>)
qed

section \<open>Joining the threads\<close>

text \<open>The turns the threads still take once \<open>running_\<close> is cleared.\<close>

definition turns_left :: "Engine \<Rightarrow> nat" where
  "turns_left e =
    (\<Sum>l < length (en_tick_threads e).
       if tt_finished (en_tick_threads e ! l) then 0 else Suc (length (queue_of e True l))) +
    (\<Sum>l < length (en_snapshot_threads e).
       if en_snapshot_threads e ! l then 0 else Suc (length (queue_of e False l)))"

lemma turns_left_0: "turns_left e = 0 \<longleftrightarrow> all_finished e"
  by (auto simp: turns_left_def all_finished_def all_set_conv_all_nth)

lemma tick_turn_left:
  assumes ok: "world_ok cfg cat w" and lim: "cfg_maximum_text_bytes cfg \<le> kMaximumIdentityBytes"
    and l: "l < length (en_tick_threads (wd_engine w))" and live: "\<not> tt_finished (en_tick_threads (wd_engine w) ! l)"
    and off: "\<not> en_running (wd_engine w)"
  shows "\<exists>w'. tick_turn l schedule allocations now w = Some w' \<and> world_ok cfg cat w' \<and>
    wd_phase w' = wd_phase w \<and> Suc (turns_left (wd_engine w')) = turns_left (wd_engine w)"
proof -
  let ?e = "wd_engine w"
  from tick_step_ok [OF ok lim l live, of schedule allocations now] obtain w' where
    t: "tick_turn l schedule allocations now w = Some w'" "world_ok cfg cat w'" "wd_phase w' = wd_phase w"
      "en_snapshot_threads (wd_engine w') = en_snapshot_threads ?e"
      "length (en_tick_threads (wd_engine w')) = length (en_tick_threads ?e)"
      "queue_of (wd_engine w') True l = tl (queue_of ?e True l)"
      "tt_finished (en_tick_threads (wd_engine w') ! l) \<longleftrightarrow> \<not> en_running ?e \<and> queue_of ?e True l = []"
    and q: "\<forall>i. queue_of (wd_engine w') False i = queue_of ?e False i"
      "\<forall>i < length (en_tick_threads ?e). i \<noteq> l \<longrightarrow> en_tick_threads (wd_engine w') ! i = en_tick_threads ?e ! i \<and>
         queue_of (wd_engine w') True i = queue_of ?e True i" by blast
  have "Suc (turns_left (wd_engine w')) = turns_left ?e"
    unfolding turns_left_def t(4,5) add_Suc [symmetric] spec [OF q(1)]
    by (rule arg_cong2 [of _ _ _ _ "(+)", OF sum_one_less [OF l]])
      (use t(6,7) q(2) live off in \<open>simp_all add: neq_Nil_conv split: if_splits\<close>)
  then show ?thesis using t by blast
qed

lemma snapshot_turn_left:
  assumes ok: "world_ok cfg cat w"
    and l: "l < length (en_snapshot_threads (wd_engine w))" and live: "\<not> en_snapshot_threads (wd_engine w) ! l"
    and off: "\<not> en_running (wd_engine w)"
  shows "\<exists>w'. snapshot_turn l schedule w = Some w' \<and> world_ok cfg cat w' \<and>
    wd_phase w' = wd_phase w \<and> Suc (turns_left (wd_engine w')) = turns_left (wd_engine w)"
proof -
  let ?e = "wd_engine w"
  from snapshot_step_ok [OF ok l live, of schedule] obtain w' where
    t: "snapshot_turn l schedule w = Some w'" "world_ok cfg cat w'" "wd_phase w' = wd_phase w"
      "en_tick_threads (wd_engine w') = en_tick_threads ?e"
      "length (en_snapshot_threads (wd_engine w')) = length (en_snapshot_threads ?e)"
      "queue_of (wd_engine w') False l = tl (queue_of ?e False l)"
      "en_snapshot_threads (wd_engine w') ! l \<longleftrightarrow> \<not> en_running ?e \<and> queue_of ?e False l = []"
    and q: "\<forall>i. queue_of (wd_engine w') True i = queue_of ?e True i"
      "\<forall>i < length (en_snapshot_threads ?e). i \<noteq> l \<longrightarrow> en_snapshot_threads (wd_engine w') ! i = en_snapshot_threads ?e ! i \<and>
         queue_of (wd_engine w') False i = queue_of ?e False i" by blast
  have "Suc (turns_left (wd_engine w')) = turns_left ?e"
    unfolding turns_left_def t(4,5) add_Suc_right [symmetric] spec [OF q(1)]
    by (rule arg_cong2 [of _ _ _ _ "(+)", OF refl sum_one_less [OF l]])
      (use t(6,7) q(2) live off in \<open>simp_all add: neq_Nil_conv split: if_splits\<close>)
  then show ?thesis using t by blast
qed

text \<open>A turn of a decoder thread, with the calls the consumers may make meanwhile.\<close>

inductive lane_step :: "ConsumerPoll list list \<Rightarrow> World \<Rightarrow> World \<Rightarrow> bool" for schedule :: "ConsumerPoll list list" where
  tick_lane: "l < length (en_tick_threads (wd_engine w)) \<Longrightarrow> \<not> tt_finished (en_tick_threads (wd_engine w) ! l) \<Longrightarrow>
    tick_turn l schedule allocations now w = Some w' \<Longrightarrow> lane_step schedule w w'"
| snapshot_lane: "l < length (en_snapshot_threads (wd_engine w)) \<Longrightarrow> \<not> en_snapshot_threads (wd_engine w) ! l \<Longrightarrow>
    snapshot_turn l schedule w = Some w' \<Longrightarrow> lane_step schedule w w'"

text \<open>The steps of \<open>Stop\<close> between the gate and the join, without calls of the consumers.\<close>

inductive stop_step :: "World \<Rightarrow> World \<Rightarrow> bool" where
  lane_turn: "lane_step [] w w' \<Longrightarrow> stop_step w w'"
| clear_running: "wd_phase w = Phase_Stopping \<Longrightarrow> \<not> en_callback_active (wd_engine w) \<Longrightarrow>
    stop_step w (w\<lparr>wd_engine := Stop_running (wd_engine w), wd_phase := Phase_Joining\<rparr>)"

lemma lane_step_engine: "lane_step schedule w w' \<Longrightarrow> engine_step w w'"
  by (induction rule: lane_step.induct) (auto intro: engine_step.intros)

lemma stop_step_engine: "stop_step w w' \<Longrightarrow> engine_step w w'"
  by (induction rule: stop_step.induct) (auto intro: engine_step.intros lane_step_engine)

lemma stop_steps_engine: "stop_step\<^sup>*\<^sup>* w w' \<Longrightarrow> engine_step\<^sup>*\<^sup>* w w'"
  by (induction rule: rtranclp_induct) (blast intro: rtranclp.rtrancl_into_rtrancl stop_step_engine)+

lemma lane_step_fields:
  assumes "lane_step schedule w w'"
  shows "wd_phase w' = wd_phase w" "wd_callback w' = wd_callback w"
    "en_callback_active (wd_engine w') = en_callback_active (wd_engine w)"
    "en_started (wd_engine w') = en_started (wd_engine w)"
    "\<not> (en_tick_threads (wd_engine w) = [] \<and> en_snapshot_threads (wd_engine w) = [])"
  using assms by (cases; auto dest: tick_turn_fields snapshot_turn_fields)+

text \<open>A turn with nothing scheduled makes no calls.\<close>

lemma lane_step_quiet:
  assumes ok: "world_ok cfg cat w" and lim: "cfg_maximum_text_bytes cfg \<le> kMaximumIdentityBytes"
    and step: "lane_step [] w w'"
  shows "wd_calls w' = wd_calls w"
  using step
proof cases
  case (tick_lane l allocations now)
  note R = tick_worker_ready [OF ok tick_lane(1,2)]
  from TickWorker_turn_good [OF R(1) R(12) lim] obtain tw' where
    t: "TickWorker_turn cfg cat l (en_running (wd_engine w)) now (tick_worker l [] allocations w) = Some tw'"
      "lane_moves cfg l (tw_env (tick_worker l [] allocations w)) (tw_env tw')" by blast
  then show ?thesis
    using tick_lane(3) R(6,7)
    by (auto simp: tick_turn_def Let_def put_tick_worker_def lane_moves_def calls_scheduled_def R(11))
next
  case (snapshot_lane l)
  note R = snapshot_worker_ready [OF ok snapshot_lane(1,2)]
  from SnapshotWorker_turn_good [OF R(1) R(10)] obtain sw' where
    t: "SnapshotWorker_turn cfg cat l (en_running (wd_engine w)) (snapshot_worker l [] w) = Some sw'"
      "calls_scheduled (sw_env (snapshot_worker l [] w)) (sw_env sw')" by blast
  then show ?thesis
    using snapshot_lane(3) R(5,6)
    by (auto simp: snapshot_turn_def Let_def put_snapshot_worker_def calls_scheduled_def R(9))
qed

lemma joining_drains:
  assumes "world_ok cfg cat w" and "cfg_maximum_text_bytes cfg \<le> kMaximumIdentityBytes" and "wd_phase w = Phase_Joining"
  shows "\<exists>w'. stop_step\<^sup>*\<^sup>* w w' \<and> world_ok cfg cat w' \<and> wd_phase w' = Phase_Joining \<and> all_finished (wd_engine w')"
  using assms
proof (induction "turns_left (wd_engine w)" arbitrary: w)
  case 0
  then show ?case using turns_left_0 [of "wd_engine w"] by auto
next
  case (Suc n)
  have off: "\<not> en_running (wd_engine w)"
    using control_okD(6) [OF world_okD(5) [OF Suc.prems(1)] Suc.prems(3)] .
  have "\<not> all_finished (wd_engine w)" using Suc.hyps(2) turns_left_0 [of "wd_engine w"] by simp
  then consider (tick) l where "l < length (en_tick_threads (wd_engine w))"
      "\<not> tt_finished (en_tick_threads (wd_engine w) ! l)"
    | (snapshot) l where "l < length (en_snapshot_threads (wd_engine w))" "\<not> en_snapshot_threads (wd_engine w) ! l"
    by (auto simp: all_finished_def all_set_conv_all_nth)
  then obtain w1 where w1: "stop_step w w1" "world_ok cfg cat w1" "wd_phase w1 = wd_phase w"
    "Suc (turns_left (wd_engine w1)) = turns_left (wd_engine w)"
  proof cases
    case tick
    from tick_turn_left [OF Suc.prems(1,2) tick off, of "[]" "[]" 0] show thesis
      using that lane_turn [OF tick_lane [OF tick, of "[]" "[]" 0]] by blast
  next
    case snapshot
    from snapshot_turn_left [OF Suc.prems(1) snapshot off, of "[]"] show thesis
      using that lane_turn [OF snapshot_lane [OF snapshot, of "[]"]] by blast
  qed
  have "n = turns_left (wd_engine w1)" using w1(4) Suc.hyps(2) by simp
  from Suc.hyps(1) [OF this w1(2) Suc.prems(2)] obtain w' where
    "stop_step\<^sup>*\<^sup>* w1 w'" "world_ok cfg cat w'" "wd_phase w' = Phase_Joining" "all_finished (wd_engine w')"
    using w1(3) Suc.prems(3) by auto
  then show ?case using w1(1) by (meson converse_rtranclp_into_rtranclp)
qed

text \<open>What a completed \<open>Stop\<close> leaves.\<close>

definition stopped :: "World \<Rightarrow> bool" where
  "stopped w \<longleftrightarrow> (let e = wd_engine w in
     wd_phase w = Phase_Idle \<and> \<not> en_running e \<and> \<not> en_callback_active e \<and> \<not> hl_accepting (en_health e) \<and>
     en_tick_threads e = [] \<and> en_snapshot_threads e = [] \<and>
     (\<forall>l < length (en_tick_lanes e). queue_of e True l = [] \<and> recovery_drained (en_tick_recovery e ! l)) \<and>
     (\<forall>l < length (en_snapshot_lanes e). queue_of e False l = []))"

lemma join_stopped:
  assumes ok: "world_ok cfg cat w" and "wd_phase w = Phase_Joining" and "all_finished (wd_engine w)"
  shows "stopped (w\<lparr>wd_engine := Stop_join (wd_engine w), wd_phase := Phase_Idle\<rparr>)"
proof -
  let ?w = "w\<lparr>wd_engine := Stop_join (wd_engine w), wd_phase := Phase_Idle\<rparr>"
  have ok': "world_ok cfg cat ?w" by (rule stop_join_ok [OF assms])
  have quiet: "lanes_quiet (Stop_join (wd_engine w))" using world_okD(3) [OF ok'] by simp
  have off: "\<not> en_running (wd_engine w)" using control_okD(6) [OF world_okD(5) [OF ok] assms(2)] .
  then have "\<not> en_callback_active (wd_engine w)" "\<not> hl_accepting (en_health (wd_engine w))"
    using control_okD(2,3) [OF world_okD(5) [OF ok]] by auto
  moreover have "\<not> tick_live (Stop_join (wd_engine w)) l" "\<not> snapshot_live (Stop_join (wd_engine w)) l" for l
    by (simp_all add: tick_live_def snapshot_live_def Stop_join_def)
  ultimately show ?thesis
    using quiet off by (simp add: stopped_def Let_def lanes_quiet_def) (simp add: Stop_join_def)
qed

text \<open>After it has closed the gate, and with no callback left, \<open>Stop\<close> comes to its join.\<close>

lemma stop_path:
  assumes ok: "world_ok cfg cat w" and lim: "cfg_maximum_text_bytes cfg \<le> kMaximumIdentityBytes"
    and stopping: "wd_phase w = Phase_Stopping" and idle: "\<not> en_callback_active (wd_engine w)"
  shows "\<exists>w'. stop_step\<^sup>*\<^sup>* w w' \<and> world_ok cfg cat w' \<and> wd_phase w' = Phase_Joining \<and> all_finished (wd_engine w')"
proof -
  let ?w3 = "w\<lparr>wd_engine := Stop_running (wd_engine w), wd_phase := Phase_Joining\<rparr>"
  have s3: "stop_step w ?w3" by (rule clear_running [OF stopping idle])
  have "world_ok cfg cat ?w3" by (rule stop_running_ok [OF ok stopping idle])
  from joining_drains [OF this lim] obtain w' where w': "stop_step\<^sup>*\<^sup>* ?w3 w'" "world_ok cfg cat w'"
    "wd_phase w' = Phase_Joining" "all_finished (wd_engine w')" by auto
  from converse_rtranclp_into_rtranclp [of stop_step, OF s3 w'(1)] w'(2-4) show ?thesis by blast
qed

lemma stop_completes:
  assumes ok: "world_ok cfg cat w" and lim: "cfg_maximum_text_bytes cfg \<le> kMaximumIdentityBytes"
    and idle: "wd_phase w = Phase_Idle"
  shows "\<exists>w'. engine_step\<^sup>*\<^sup>* w w' \<and> stopped w'"
proof -
  let ?w1 = "w\<lparr>wd_engine := Stop_gate (wd_engine w), wd_phase := Phase_Stopping\<rparr>"
  have s1: "engine_step w ?w1" by (rule engine_step.stop_gate [OF idle])
  have ok1: "world_ok cfg cat ?w1" by (rule stop_gate_ok [OF ok idle])
  obtain w2 where w2: "engine_step\<^sup>*\<^sup>* ?w1 w2" "world_ok cfg cat w2" "wd_phase w2 = Phase_Stopping"
    "\<not> en_callback_active (wd_engine w2)"
  proof (cases "en_callback_active (wd_engine ?w1)")
    case False
    then show thesis using that [of ?w1] ok1 by simp
  next
    case True
    then obtain hb body now where cb: "wd_callback ?w1 = Some (hb, body, now)"
      using control_okD(1) [OF world_okD(5) [OF ok1]] by (cases "wd_callback ?w1") auto
    obtain r e where adm: "Admit_message hb body now (wd_engine ?w1) = (r, e)" by fastforce
    let ?w2 = "?w1\<lparr>wd_engine := e\<lparr>en_callback_active := False\<rparr>, wd_callback := None\<rparr>"
    have "engine_step ?w1 ?w2" by (rule engine_step.callback_finish [OF cb adm])
    moreover have "world_ok cfg cat ?w2" by (rule finish_step [OF ok1 cb adm])
    ultimately show thesis by (intro that [of ?w2]) auto
  qed
  from stop_path [OF w2(2) lim w2(3,4)] obtain w3 where w3: "stop_step\<^sup>*\<^sup>* w2 w3" "world_ok cfg cat w3"
    "wd_phase w3 = Phase_Joining" "all_finished (wd_engine w3)" by blast
  have "engine_step\<^sup>*\<^sup>* w w3" using s1 w2(1) stop_steps_engine [OF w3(1)] by (meson converse_rtranclp_into_rtranclp rtranclp_trans)
  then show ?thesis
    using engine_step.stop_join [OF w3(3,4)] join_stopped [OF w3(2-4)] by (meson rtranclp.rtrancl_into_rtrancl)
qed

end
