(* ===== verification/Engine_Delivery.thy ===== *)
theory Engine_Delivery
  imports Engine_Progress
begin

text \<open>
  The snapshots end to end: what the owners have received, what waits in their queues and what the
  messages still on a lane will decode to are together what the admitted messages decode to, in the
  order of admission.
\<close>

section \<open>The snapshots of a lane\<close>

text \<open>What owner \<open>v\<close> has received from lane \<open>l\<close> or will find in its queue.\<close>

definition snapshot_stream :: "World \<Rightarrow> nat \<Rightarrow> nat \<Rightarrow> CanonicalSnapshot list" where
  "snapshot_stream w l v = wd_received_snapshots w l v @ snapshot_edge (en_dispatcher (wd_engine w)) l v"

definition owner_output ::
  "EngineConfig \<Rightarrow> InstrumentCatalog \<Rightarrow> nat \<Rightarrow> OwnedMessageView list \<Rightarrow> CanonicalSnapshot list" where
  "owner_output cfg cat v ms = filter (snapshot_owned cfg v) (concat (map (snapshot_output cfg cat) ms))"

lemma owner_output_append: "owner_output cfg cat v (a @ b) = owner_output cfg cat v a @ owner_output cfg cat v b"
  by (simp add: owner_output_def)

text \<open>Stream and messages on the lane.\<close>

definition snapshot_due ::
  "EngineConfig \<Rightarrow> InstrumentCatalog \<Rightarrow> World \<Rightarrow> nat \<Rightarrow> nat \<Rightarrow> CanonicalSnapshot list" where
  "snapshot_due cfg cat w l v = snapshot_stream w l v @ owner_output cfg cat v (queue_of (wd_engine w) False l)"

text \<open>The messages a finishing callback appended to a lane.\<close>

definition arrived :: "World \<Rightarrow> World \<Rightarrow> nat \<Rightarrow> OwnedMessageView list" where
  "arrived w w' l = (if wd_callback w \<noteq> None \<and> wd_callback w' = None
     then drop (length (queue_of (wd_engine w) False l)) (queue_of (wd_engine w') False l) else [])"

lemma snapshot_due_same:
  assumes "snapshot_stream w' l v = snapshot_stream w l v"
    and "queue_of (wd_engine w') False l = queue_of (wd_engine w) False l"
  shows "snapshot_due cfg cat w' l v = snapshot_due cfg cat w l v @ owner_output cfg cat v (arrived w w' l)"
  using assms by (simp add: snapshot_due_def arrived_def owner_output_def)

lemma snapshot_stream_view: "snapshot_stream w l v = snapshot_view l v (world_env0 w)"
  by (simp add: snapshot_stream_def snapshot_view_def)

lemma quiet_step:
  assumes "en_dispatcher (wd_engine w') = en_dispatcher (wd_engine w)"
    and "en_tick_lanes (wd_engine w') = en_tick_lanes (wd_engine w)"
    and "en_snapshot_lanes (wd_engine w') = en_snapshot_lanes (wd_engine w)"
    and "wd_received_snapshots w' = wd_received_snapshots w"
  shows "snapshot_due cfg cat w' l v = snapshot_due cfg cat w l v @ owner_output cfg cat v (arrived w w' l)"
  by (rule snapshot_due_same) (simp_all add: snapshot_stream_def assms lanes_cong(3) [OF assms(2,3)])

lemma Start_end_lanes:
  assumes "Start_end pf e = (err, e')"
  shows "en_dispatcher e' = en_dispatcher e" "en_tick_lanes e' = en_tick_lanes e"
    "en_snapshot_lanes e' = en_snapshot_lanes e"
proof -
  have aff: "en_dispatcher (set_affinity pf first is e) = en_dispatcher e"
    "en_tick_lanes (set_affinity pf first is e) = en_tick_lanes e"
    "en_snapshot_lanes (set_affinity pf first is e) = en_snapshot_lanes e" for first "is"
    using set_affinity_control [of pf first "is" e] by auto
  show "en_dispatcher e' = en_dispatcher e" "en_tick_lanes e' = en_tick_lanes e"
    "en_snapshot_lanes e' = en_snapshot_lanes e"
    using assms by (auto simp: Start_end_def Start_accept_def start_failed_def Stop_gate_def set_accepting_def
        engine_fatal_def Let_def aff split: if_splits)
qed

lemma snapshot_due_step:
  assumes step: "engine_step w w'" and ok: "world_ok cfg cat w"
    and lim: "cfg_maximum_text_bytes cfg \<le> kMaximumIdentityBytes"
    and l: "l < snapshot_decoder_lanes cfg" and v: "v < instrument_workers cfg"
    and healthy: "lane_healthy (world_env0 w')"
  shows "snapshot_due cfg cat w' l v = snapshot_due cfg cat w l v @ owner_output cfg cat v (arrived w w' l)"
proof -
  note D = world_okD [OF ok]
  have seen: "snapshot_stream w' l v = snapshot_stream w l v"
    if "observed cfg T U (world_env0 w') = observed cfg T U (world_env0 w)" "l \<notin> U" for T U
    unfolding snapshot_stream_view using observedD(2) [OF that(1)] that(2) l v by blast
  show ?thesis
    using step
  proof cases
    case (callback_closed hb body now r e)
    then show ?thesis
      by (intro quiet_step)
        (auto simp: Admit_def engine_open_def admission_stat_def admission_reject_def Let_def)
  next
    case (callback_enter e hb body now)
    then show ?thesis by (intro quiet_step) (simp_all add: admission_stat_def)
  next
    case (callback_finish hb body now r e)
    note A = Admit_message_spec [OF D(2) callback_finish(3)]
    have eff: "en_dispatcher e = en_dispatcher (wd_engine w)"
      using conjunct2 [OF A(3) [unfolded admission_effect_def]] by (rule ssubst) simp
    have "l < length (class_lanes False (wd_engine w))" using D(1) l by (simp add: class_lanes_def shape_ok_def)
    from A(4) [OF this] have "arrived w w' l = (if r = kAccepted then added hb body now False l (wd_engine w) else [])"
      "queue_of (wd_engine w') False l = queue_of (wd_engine w) False l @ arrived w w' l"
      using callback_finish by (simp_all add: arrived_def queue_of_def class_lanes_def)
    then show ?thesis
      using callback_finish eff by (simp add: snapshot_due_def snapshot_stream_def owner_output_append)
  next
    case (callback_overlap hb body now r e)
    then show ?thesis
      by (intro quiet_step)
        (auto simp: Admit_def admission_stat_def admission_reject_def engine_fatal_def Let_def)
  next
    case (consumer c)
    have "env_ok cfg (world_env0 w)" using D(4) by (simp add: streams_ok_def)
    note F = consumer_poll_frame [OF this, of c]
    have "env_eq (world_env0 w') (consumer_poll c (world_env0 w))"
      unfolding consumer consumer_step_def by (rule env_eq_put)
    then have "observed cfg {} {} (world_env0 w') = observed cfg {} {} (world_env0 w)"
      using env_eq_keeps(4) F(2) by metis
    moreover have "queue_of (wd_engine w') False l = queue_of (wd_engine w) False l"
      using consumer by (simp add: queue_of_def class_lanes_def consumer_step_def)
    ultimately show ?thesis by (intro snapshot_due_same seen [of "{}" "{}"]) simp_all
  next
    case (tick i schedule allocations now)
    then show ?thesis using tick_step_ok [OF ok lim tick(1,2), of schedule allocations now]
      by (intro snapshot_due_same seen [of "{i}" "{}"]) auto
  next
    case (snapshot i schedule)
    from snapshot_step_ok [OF ok snapshot(1,2), of schedule] snapshot(3) have S:
      "observed cfg {} {i} (world_env0 w') = observed cfg {} {i} (world_env0 w)"
      "queue_of (wd_engine w') False i = tl (queue_of (wd_engine w) False i)"
      and other: "\<forall>j < length (en_snapshot_threads (wd_engine w)). j \<noteq> i \<longrightarrow>
        queue_of (wd_engine w') False j = queue_of (wd_engine w) False j"
      and view: "\<forall>v < instrument_workers cfg. snapshot_view i v (world_env0 w') = snapshot_view i v (world_env0 w) @
         filter (snapshot_owned cfg v)
           (concat (map (snapshot_output cfg cat) (take 1 (queue_of (wd_engine w) False i))))"
      using healthy by auto
    have cb: "arrived w w' l = []"
      using snapshot(3) by (auto simp: arrived_def snapshot_turn_def put_snapshot_worker_def put_env_def Let_def)
    show ?thesis
    proof (cases "l = i")
      case True
      have "snapshot_stream w' l v = snapshot_stream w l v @ owner_output cfg cat v (take 1 (queue_of (wd_engine w) False l))"
        unfolding snapshot_stream_view owner_output_def True using view v by blast
      moreover have "owner_output cfg cat v (take 1 q) @ owner_output cfg cat v (tl q) = owner_output cfg cat v q" for q
        by (cases q) (simp_all add: owner_output_def)
      ultimately show ?thesis using S(2) True cb by (simp add: snapshot_due_def owner_output_def)
    next
      case False
      have "queue_of (wd_engine w') False l = queue_of (wd_engine w) False l"
        using snapshot(3) False by (auto simp: snapshot_turn_def put_snapshot_worker_def put_env_def Let_def queue_of_def class_lanes_def)
      then show ?thesis using S(1) False by (intro snapshot_due_same seen [of "{}" "{i}"]) simp_all
    qed
  next
    case (start_again outcome clock err e)
    then show ?thesis by (intro quiet_step) (simp_all add: Start_begin_def)
  next
    case (start_begin outcome clock err e)
    then show ?thesis
      by (intro quiet_step)
        (auto simp: Start_begin_def Let_def set_accepting_def spawn_threads_def Stop_gate_def engine_fatal_def
          split: SpawnOutcome.splits)
  next
    case (start_end pf err e)
    then show ?thesis using Start_end_lanes [OF start_end(3)] by (intro quiet_step) simp_all
  next
    case stop_gate
    then show ?thesis by (intro quiet_step) (simp_all add: Stop_gate_def set_accepting_def)
  next
    case stop_running
    then show ?thesis by (intro quiet_step) (simp_all add: Stop_running_def)
  next
    case stop_join
    then show ?thesis by (intro quiet_step) (simp_all add: Stop_join_def)
  qed
qed

section \<open>Runs with their history\<close>

text \<open>A run, with the messages every snapshot lane was given.\<close>

inductive engine_history ::
  "EngineConfig \<Rightarrow> InstrumentCatalog \<Rightarrow> World \<Rightarrow> (nat \<Rightarrow> OwnedMessageView list) \<Rightarrow> bool"
  for cfg :: EngineConfig and cat :: InstrumentCatalog where
  history_created: "Create cfg cat = Inr e \<Longrightarrow> engine_history cfg cat (initial_world e) (\<lambda>l. [])"
| history_stepped: "engine_history cfg cat w h \<Longrightarrow> engine_step w w' \<Longrightarrow>
    engine_history cfg cat w' (\<lambda>l. h l @ arrived w w' l)"

lemma engine_history_run: "engine_history cfg cat w h \<Longrightarrow> engine_run cfg cat w"
  by (induction rule: engine_history.induct) (auto intro: engine_run.intros)

text \<open>Every run has its history.\<close>

lemma engine_run_history: "engine_run cfg cat w \<Longrightarrow> \<exists>h. engine_history cfg cat w h"
  by (induction rule: engine_run.induct) (blast intro: engine_history.intros)+

lemma healthy_back:
  assumes "engine_step w w'" and "world_ok cfg cat w" and "cfg_maximum_text_bytes cfg \<le> kMaximumIdentityBytes"
    and "lane_healthy (world_env0 w')"
  shows "lane_healthy (world_env0 w)"
proof (rule ccontr)
  assume "\<not> lane_healthy (world_env0 w)"
  then have "hl_claimed (en_health (wd_engine w))"
    using world_okD(7) [OF assms(2)] by (simp add: lane_healthy_def health_ok_def)
  from fatal_step [OF assms(1-3) this] assms(4) \<open>\<not> lane_healthy (world_env0 w)\<close> show False
    by (simp add: lane_healthy_def)
qed

lemma snapshot_history:
  assumes h: "engine_history cfg cat w h" and sizes: "config_sizes cfg"
    and l: "l < snapshot_decoder_lanes cfg" and v: "v < instrument_workers cfg"
    and healthy: "lane_healthy (world_env0 w)"
  shows "snapshot_due cfg cat w l v = owner_output cfg cat v (h l)"
  using h healthy
proof induction
  case (history_created e)
  note ok = created_ok [OF history_created.hyps sizes]
  have "snapshot_edge (en_dispatcher e) l v = []"
  proof -
    obtain d where d: "config_dispatcher cfg = Some d" "en_dispatcher e = d"
      using history_created.hyps by (auto simp: Create_def new_engine_def split: option.splits Option.bind_splits)
    show ?thesis using new_dispatcher_gap_ok(7) [OF d(1) [unfolded config_dispatcher_def] l v] d(2) by simp
  qed
  moreover have "queue_of e False l = []"
  proof -
    have "\<not> snapshot_live e l" using control_okD(4) [OF world_okD(5) [OF ok]] history_created.hyps
      by (auto simp: snapshot_live_def initial_world_def Create_def new_engine_def split: option.splits Option.bind_splits)
    then show ?thesis using world_okD(1,3) [OF ok] l by (simp add: lanes_quiet_def shape_ok_def initial_world_def)
  qed
  ultimately show ?case by (simp add: snapshot_due_def snapshot_stream_def owner_output_def initial_world_def)
next
  case (history_stepped w h w')
  have run: "engine_run cfg cat w" by (rule engine_history_run [OF history_stepped.hyps(1)])
  note ok = engine_run_ok [OF run sizes]
  note lim = ValidateConfig_accepted(8) [OF engine_run_valid [OF run]]
  have "lane_healthy (world_env0 w)" by (rule healthy_back [OF history_stepped.hyps(2) ok lim history_stepped.prems])
  then show ?case
    using snapshot_due_step [OF history_stepped.hyps(2) ok lim l v history_stepped.prems] history_stepped.IH
    by (simp add: owner_output_append)
qed

end
