(* ===== verification/Engine_Books.thy ===== *)
theory Engine_Books
  imports Engine_Delivery
begin

text \<open>
  The dispatch counters of the running engine: in every reachable state they are the number of records
  the consumers have received or will find in their queues, for ticks, snapshots, LateRecovery records
  and faults, modulo the width of the counters.
\<close>

section \<open>The balance of the lanes\<close>

definition balanced :: "EngineConfig \<Rightarrow> World \<Rightarrow> bool" where
  "balanced cfg w \<longleftrightarrow>
     (\<forall>l < tick_decoder_lanes cfg. \<forall>k.
        dispatched k (en_tick_stats (wd_engine w) ! l) = of_nat (sent cfg l (world_env0 w) k)) \<and>
     (\<forall>l < snapshot_decoder_lanes cfg.
        ss_dispatched_snapshots (en_snapshot_stats (wd_engine w) ! l) = of_nat (snapshots_sent cfg l (world_env0 w)))"

text \<open>Environments that agree on the streams have sent the same.\<close>

lemma env_eq_sent:
  assumes "env_eq a b"
  shows "sent cfg l a = sent cfg l b" "snapshots_sent cfg l a = snapshots_sent cfg l b"
proof -
  have "sent cfg l a k = sent cfg l b k" for k
    using env_eq_keeps(2,7,8) [OF assms] by (cases k) simp_all
  then show "sent cfg l a = sent cfg l b" by blast
  show "snapshots_sent cfg l a = snapshots_sent cfg l b"
    using env_eq_keeps(3) [OF assms] by (simp add: snapshots_sent_def)
qed

text \<open>A step that changes neither streams nor counters.\<close>

lemma balanced_same:
  assumes "balanced cfg w" and "en_tick_stats (wd_engine w') = en_tick_stats (wd_engine w)"
    and "en_snapshot_stats (wd_engine w') = en_snapshot_stats (wd_engine w)"
    and "observed cfg {} {} (world_env0 w') = observed cfg {} {} (world_env0 w)"
  shows "balanced cfg w'"
  using assms(1-3) sent_observed [OF assms(4)] snapshots_sent_observed [OF assms(4)] by (simp add: balanced_def)

lemma balanced_quiet:
  assumes "balanced cfg w" and "en_tick_stats (wd_engine w') = en_tick_stats (wd_engine w)"
    and "en_snapshot_stats (wd_engine w') = en_snapshot_stats (wd_engine w)"
    and "en_dispatcher (wd_engine w') = en_dispatcher (wd_engine w)"
    and "seen w' = seen w"
  shows "balanced cfg w'"
proof (rule balanced_same [OF assms(1-3)])
  show "observed cfg {} {} (world_env0 w') = observed cfg {} {} (world_env0 w)"
    by (rule observedI) (simp_all add: lane_view_def snapshot_view_def late_view_def fault_view_def assms(4,5) seen_eq [THEN iffD1, OF assms(5)])
qed

text \<open>A turn of one lane, whose own books stay.\<close>

lemma tick_turn_balanced:
  assumes bal: "balanced cfg w" and ok: "world_ok cfg cat w" and lim: "cfg_maximum_text_bytes cfg \<le> kMaximumIdentityBytes"
    and l: "l < length (en_tick_threads (wd_engine w))" and live: "\<not> tt_finished (en_tick_threads (wd_engine w) ! l)"
    and turn: "tick_turn l schedule allocations now w = Some w'"
  shows "balanced cfg w'"
proof -
  let ?e = "wd_engine w" and ?tw = "tick_worker l schedule allocations w"
  note R = tick_worker_ready [OF ok l live]
  note fields = R(11) [of schedule allocations]
  from TickWorker_turn_good [OF R(1) [of schedule allocations] R(12) lim, of cat "en_running ?e" now] obtain tw' where
    t: "TickWorker_turn cfg cat l (en_running ?e) now ?tw = Some tw'" "lane_moves cfg l (tw_env ?tw) (tw_env tw')"
    by blast
  have w': "w' = put_tick_worker l tw' w" using turn t(1) R(6,7) by (simp add: tick_turn_def Let_def)
  have eq: "env_eq (world_env0 w') (tw_env tw')" unfolding w' put_tick_worker_def Let_def by (rule env_eq_put)
  have eq0: "env_eq (tw_env ?tw) (world_env0 w)" unfolding fields by (rule env_eq_start)
  have stats: "en_tick_stats (wd_engine w') = (en_tick_stats ?e)[l := le_stats (tw_env tw')]"
    "en_snapshot_stats (wd_engine w') = en_snapshot_stats ?e"
    by (simp_all add: w' put_tick_worker_def Let_def)
  have obs: "observed cfg {l} {} (world_env0 w') = observed cfg {l} {} (world_env0 w)"
    using t(2) unfolding env_eq_keeps(4) [OF eq] by (simp add: lane_moves_def env_eq_keeps(4) [OF eq0])
  have own: "books cfg l (tw_env tw') k = books cfg l (tw_env ?tw) k" for k using t(2) by (simp add: lane_moves_def)
  have "dispatched k (en_tick_stats (wd_engine w') ! i) = of_nat (sent cfg i (world_env0 w') k)"
    if i: "i < tick_decoder_lanes cfg" for i k
  proof (cases "i = l")
    case True
    have "le_stats (tw_env ?tw) = en_tick_stats ?e ! l" by (simp add: fields)
    then have "books cfg l (tw_env ?tw) k = 0"
      using bal R(2) unfolding books_def env_eq_sent(1) [OF eq0] by (simp add: balanced_def)
    then have "of_nat (sent cfg l (tw_env tw') k) = dispatched k (le_stats (tw_env tw'))"
      using own [of k] by (simp add: books_def)
    then show ?thesis using True R(5) by (simp add: stats env_eq_sent(1) [OF eq])
  next
    case False
    then have "sent cfg i (world_env0 w') = sent cfg i (world_env0 w)" by (intro sent_observed [OF obs i]) simp
    then show ?thesis using bal i False by (simp add: stats balanced_def)
  qed
  moreover have "snapshots_sent cfg i (world_env0 w') = snapshots_sent cfg i (world_env0 w)"
    if "i < snapshot_decoder_lanes cfg" for i by (rule snapshots_sent_observed [OF obs that]) simp
  ultimately show ?thesis using bal by (simp add: balanced_def stats(2))
qed

lemma snapshot_turn_balanced:
  assumes bal: "balanced cfg w" and ok: "world_ok cfg cat w"
    and l: "l < length (en_snapshot_threads (wd_engine w))" and live: "\<not> en_snapshot_threads (wd_engine w) ! l"
    and turn: "snapshot_turn l schedule w = Some w'"
  shows "balanced cfg w'"
proof -
  let ?e = "wd_engine w" and ?sw = "snapshot_worker l schedule w"
  note R = snapshot_worker_ready [OF ok l live]
  note fields = R(8,9) [of schedule]
  from SnapshotWorker_turn_good [OF R(1) [of schedule] R(10), of cat "en_running ?e"] obtain sw' where
    t: "SnapshotWorker_turn cfg cat l (en_running ?e) ?sw = Some sw'"
      "observed cfg {} {l} (sw_env sw') = observed cfg {} {l} (sw_env ?sw)"
      "snapshot_books cfg l (sw_stats sw') (sw_env sw') = snapshot_books cfg l (sw_stats ?sw) (sw_env ?sw)"
    by blast
  have w': "w' = put_snapshot_worker l sw' w" using turn t(1) R(5,6) by (simp add: snapshot_turn_def Let_def)
  have eq: "env_eq (world_env0 w') (sw_env sw')" unfolding w' put_snapshot_worker_def Let_def by (rule env_eq_put)
  have eq0: "env_eq (sw_env ?sw) (world_env0 w)" unfolding fields by (rule env_eq_start)
  have stats: "en_tick_stats (wd_engine w') = en_tick_stats ?e"
    "en_snapshot_stats (wd_engine w') = (en_snapshot_stats ?e)[l := sw_stats sw']"
    by (simp_all add: w' put_snapshot_worker_def Let_def)
  have obs: "observed cfg {} {l} (world_env0 w') = observed cfg {} {l} (world_env0 w)"
    unfolding env_eq_keeps(4) [OF eq] t(2) by (rule env_eq_keeps(4) [OF eq0])
  have "ss_dispatched_snapshots (en_snapshot_stats (wd_engine w') ! i) = of_nat (snapshots_sent cfg i (world_env0 w'))"
    if i: "i < snapshot_decoder_lanes cfg" for i
  proof (cases "i = l")
    case True
    have "snapshot_books cfg l (sw_stats ?sw) (sw_env ?sw) = 0"
      using bal R(2) unfolding snapshot_books_def env_eq_sent(2) [OF eq0] by (simp add: fields(1) balanced_def)
    then show ?thesis using t(3) True R(4) by (simp add: stats env_eq_sent(2) [OF eq] snapshot_books_def)
  next
    case False
    then have "snapshots_sent cfg i (world_env0 w') = snapshots_sent cfg i (world_env0 w)"
      by (intro snapshots_sent_observed [OF obs i]) simp
    then show ?thesis using bal i False by (simp add: stats balanced_def)
  qed
  moreover have "sent cfg i (world_env0 w') = sent cfg i (world_env0 w)"
    if "i < tick_decoder_lanes cfg" for i by (rule sent_observed [OF obs that]) simp
  ultimately show ?thesis using bal by (simp add: balanced_def stats(1))
qed

section \<open>Every step keeps the balance\<close>

text \<open>What the control steps leave alone.\<close>

lemma Admit_message_untouched:
  assumes "lanes_ok e" and "Admit_message hb body now e = (r, e')"
  shows "en_dispatcher e' = en_dispatcher e" "en_tick_stats e' = en_tick_stats e"
    "en_snapshot_stats e' = en_snapshot_stats e"
proof -
  note eq = conjunct2 [OF Admit_message_spec(3) [OF assms, unfolded admission_effect_def]]
  show "en_dispatcher e' = en_dispatcher e" by (rule trans [OF arg_cong [OF eq, of en_dispatcher]]) simp
  show "en_tick_stats e' = en_tick_stats e" by (rule trans [OF arg_cong [OF eq, of en_tick_stats]]) simp
  show "en_snapshot_stats e' = en_snapshot_stats e" by (rule trans [OF arg_cong [OF eq, of en_snapshot_stats]]) simp
qed

lemma Start_end_stats:
  assumes "Start_end pf e = (err, e')"
  shows "en_tick_stats e' = en_tick_stats e" "en_snapshot_stats e' = en_snapshot_stats e"
proof -
  have aff: "en_tick_stats (set_affinity pf first is e) = en_tick_stats e"
    "en_snapshot_stats (set_affinity pf first is e) = en_snapshot_stats e" for first "is"
    using set_affinity_control [of pf first "is" e] by auto
  show "en_tick_stats e' = en_tick_stats e" "en_snapshot_stats e' = en_snapshot_stats e"
    using assms by (auto simp: Start_end_def Start_accept_def start_failed_def Stop_gate_def set_accepting_def
        engine_fatal_def Let_def aff split: if_splits)
qed

lemma balanced_step:
  assumes step: "engine_step w w'" and bal: "balanced cfg w" and ok: "world_ok cfg cat w"
    and lim: "cfg_maximum_text_bytes cfg \<le> kMaximumIdentityBytes"
  shows "balanced cfg w'"
proof -
  note D = world_okD [OF ok]
  note quiet = balanced_quiet [OF bal]
  show ?thesis
    using step
  proof cases
    case (callback_closed hb body now r e)
    then show ?thesis
      by (intro quiet) (auto simp: Admit_def engine_open_def admission_stat_def admission_reject_def Let_def)
  next
    case (callback_enter e hb body now)
    then show ?thesis by (intro quiet) (simp_all add: admission_stat_def)
  next
    case (callback_finish hb body now r e)
    then show ?thesis using Admit_message_untouched [OF D(2) callback_finish(3)] by (intro quiet) simp_all
  next
    case (callback_overlap hb body now r e)
    then show ?thesis
      by (intro quiet) (auto simp: Admit_def admission_stat_def admission_reject_def engine_fatal_def Let_def)
  next
    case (consumer c)
    have "env_ok cfg (world_env0 w)" using D(4) by (simp add: streams_ok_def)
    note F = consumer_poll_frame [OF this, of c]
    have "env_eq (world_env0 w') (consumer_poll c (world_env0 w))"
      unfolding consumer consumer_step_def by (rule env_eq_put)
    then have "observed cfg {} {} (world_env0 w') = observed cfg {} {} (world_env0 w)"
      using env_eq_keeps(4) F(2) by metis
    then show ?thesis using consumer by (intro balanced_same [OF bal]) (simp_all add: consumer_step_def)
  next
    case (tick i schedule allocations now)
    then show ?thesis using tick_turn_balanced [OF bal ok lim] by blast
  next
    case (snapshot i schedule)
    then show ?thesis using snapshot_turn_balanced [OF bal ok] by blast
  next
    case (start_again outcome clock err e)
    then show ?thesis by (intro quiet) (simp_all add: Start_begin_def)
  next
    case (start_begin outcome clock err e)
    then show ?thesis
      by (intro quiet)
        (auto simp: Start_begin_def Let_def set_accepting_def spawn_threads_def Stop_gate_def engine_fatal_def
          split: SpawnOutcome.splits)
  next
    case (start_end pf err e)
    then show ?thesis
      using Start_end_lanes [OF start_end(3)] Start_end_stats [OF start_end(3)] by (intro quiet) simp_all
  next
    case stop_gate
    then show ?thesis by (intro quiet) (simp_all add: Stop_gate_def set_accepting_def)
  next
    case stop_running
    then show ?thesis by (intro quiet) (simp_all add: Stop_running_def)
  next
    case stop_join
    then show ?thesis by (intro quiet) (simp_all add: Stop_join_def)
  qed
qed

lemma balanced_created:
  assumes "Create cfg cat = Inr e"
  shows "balanced cfg (initial_world e)"
proof -
  obtain d where d: "config_dispatcher cfg = Some d" and e: "en_dispatcher e = d"
    "en_tick_stats e = replicate (tick_decoder_lanes cfg) default_tick_stats"
    "en_snapshot_stats e = replicate (snapshot_decoder_lanes cfg) default_snapshot_stats"
    using assms by (auto simp: Create_def new_engine_def split: option.splits Option.bind_splits)
  note N = new_dispatcher_gap_ok [OF d [unfolded config_dispatcher_def]]
  have "dispatched k default_tick_stats = of_nat (sent cfg l (world_env0 (initial_world e)) k)"
    if "l < tick_decoder_lanes cfg" for l k
    using that N(2,8,9) by (cases k)
      (simp_all add: default_tick_stats_def lane_view_def late_view_def fault_view_def initial_world_def e(1))
  moreover have "snapshots_sent cfg l (world_env0 (initial_world e)) = 0" if "l < snapshot_decoder_lanes cfg" for l
    using that N(7) by (simp add: snapshots_sent_def snapshot_view_def initial_world_def e(1))
  ultimately show ?thesis by (simp add: balanced_def initial_world_def e(2,3) default_snapshot_stats_def)
qed

lemma engine_run_balanced:
  assumes "engine_run cfg cat w" and sizes: "config_sizes cfg"
  shows "balanced cfg w"
  using assms(1)
proof induction
  case (created e)
  then show ?case by (rule balanced_created)
next
  case (stepped w w')
  show ?case
    by (rule balanced_step [OF stepped.hyps(2) stepped.IH engine_run_ok [OF stepped.hyps(1) sizes]])
      (rule ValidateConfig_accepted(8) [OF engine_run_valid [OF stepped.hyps(1)]])
qed

section \<open>The totals of the statistics\<close>

text \<open>What the consumers have received of each kind of record, over all lanes.\<close>

definition received_total :: "EngineConfig \<Rightarrow> World \<Rightarrow> RecordKind \<Rightarrow> nat" where
  "received_total cfg w k = received_count cfg (world_env0 w) k"

text \<open>What the lanes have sent is what was received and what waits in the queues.\<close>

fun sent_total :: "EngineConfig \<Rightarrow> LaneEnv \<Rightarrow> RecordKind \<Rightarrow> nat" where
  "sent_total cfg env Kind_Tick = (\<Sum>l<tick_decoder_lanes cfg. sent cfg l env Output_Tick)"
| "sent_total cfg env Kind_Snapshot = (\<Sum>l < snapshot_decoder_lanes cfg. snapshots_sent cfg l env)"
| "sent_total cfg env Kind_Late = (\<Sum>l<tick_decoder_lanes cfg. sent cfg l env Output_Late)"
| "sent_total cfg env Kind_Fault = (\<Sum>l<tick_decoder_lanes cfg. sent cfg l env Output_Fault)"

lemma sent_total_split:
  "sent_total cfg env k = received_count cfg env k + queued_total cfg (le_dispatcher env) k"
  by (cases k)
    (simp_all add: received_count_def queued_total_def lane_view_def late_view_def fault_view_def snapshot_view_def
      snapshots_sent_def sum.distrib lessThan_Suc)

lemma sent_total_observed:
  assumes "observed cfg {} {} env' = observed cfg {} {} env"
  shows "sent_total cfg env' k = sent_total cfg env k"
  using sent_observed [OF assms] snapshots_sent_observed [OF assms] by (cases k) (auto simp del: sent.simps intro!: sum.cong)

text \<open>The four counters of the statistics that count them.\<close>

fun dispatched_total :: "RecordKind \<Rightarrow> EngineStats \<Rightarrow> u64" where
  "dispatched_total Kind_Tick st = es_dispatched_ticks st"
| "dispatched_total Kind_Snapshot st = es_dispatched_snapshots st"
| "dispatched_total Kind_Late st = es_late_recovery_dispatched st"
| "dispatched_total Kind_Fault st = es_channel_faults_dispatched st"

lemma fold_tick_stats:
  "es_dispatched_ticks (fold add_tick_stats xs r) = es_dispatched_ticks r + sum_list (map ts_dispatched_ticks xs)"
  "es_dispatched_snapshots (fold add_tick_stats xs r) = es_dispatched_snapshots r"
  "es_late_recovery_dispatched (fold add_tick_stats xs r)
     = es_late_recovery_dispatched r + sum_list (map ts_late_recovery_dispatched xs)"
  "es_channel_faults_dispatched (fold add_tick_stats xs r)
     = es_channel_faults_dispatched r + sum_list (map ts_channel_faults_dispatched xs)"
  "es_callbacks (fold add_tick_stats xs r) = es_callbacks r" "es_admitted (fold add_tick_stats xs r) = es_admitted r"
  "es_rejected (fold add_tick_stats xs r) = es_rejected r"
  by (induction xs arbitrary: r) (simp_all add: add_tick_stats_def)

lemma fold_snapshot_stats:
  "es_dispatched_ticks (fold add_snapshot_stats xs r) = es_dispatched_ticks r"
  "es_dispatched_snapshots (fold add_snapshot_stats xs r)
     = es_dispatched_snapshots r + sum_list (map ss_dispatched_snapshots xs)"
  "es_late_recovery_dispatched (fold add_snapshot_stats xs r) = es_late_recovery_dispatched r"
  "es_channel_faults_dispatched (fold add_snapshot_stats xs r) = es_channel_faults_dispatched r"
  "es_callbacks (fold add_snapshot_stats xs r) = es_callbacks r" "es_admitted (fold add_snapshot_stats xs r) = es_admitted r"
  "es_rejected (fold add_snapshot_stats xs r) = es_rejected r"
  by (induction xs arbitrary: r) (simp_all add: add_snapshot_stats_def)

lemma sum_list_counters:
  assumes "length xs = n" and "\<And>l. l < n \<Longrightarrow> f (xs ! l) = (of_nat (g l) :: u64)"
  shows "sum_list (map f (take n xs)) = of_nat (\<Sum>l<n. g l)"
proof -
  have "sum_list (map f (take n xs)) = (\<Sum>l = 0..<n. f (xs ! l))"
    using assms(1) by (simp add: sum_list_sum_nth)
  also have "\<dots> = (\<Sum>l<n. of_nat (g l))" using assms(2) by (simp add: lessThan_atLeast0)
  finally show ?thesis by simp
qed

lemma Stats_totals:
  assumes shape: "shape_ok cfg cat (wd_engine w)" and bal: "balanced cfg w"
  shows "dispatched_total k (Stats (wd_engine w))
    = of_nat (received_total cfg w k + queued_total cfg (en_dispatcher (wd_engine w)) k)"
proof -
  let ?e = "wd_engine w" and ?env = "world_env0 w"
  have c: "en_config ?e = cfg" "length (en_tick_stats ?e) = tick_decoder_lanes cfg"
    "length (en_snapshot_stats ?e) = snapshot_decoder_lanes cfg" using shape by (simp_all add: shape_ok_def)
  have t: "dispatched j (en_tick_stats ?e ! l) = of_nat (sent cfg l ?env j)" if "l < tick_decoder_lanes cfg" for l j
    using bal that by (simp add: balanced_def)
  have s: "ss_dispatched_snapshots (en_snapshot_stats ?e ! l) = of_nat (snapshots_sent cfg l ?env)"
    if "l < snapshot_decoder_lanes cfg" for l using bal that by (simp add: balanced_def)
  have kind: "sum_list (map f (take (tick_decoder_lanes cfg) (en_tick_stats ?e)))
      = of_nat (\<Sum>l<tick_decoder_lanes cfg. sent cfg l ?env j)" if "\<And>x. f x = dispatched j x" for f j
    by (rule sum_list_counters [OF c(2)]) (simp add: that t)
  have snapshots: "sum_list (map ss_dispatched_snapshots (take (snapshot_decoder_lanes cfg) (en_snapshot_stats ?e)))
      = of_nat (\<Sum>l < snapshot_decoder_lanes cfg. snapshots_sent cfg l ?env)"
    by (rule sum_list_counters [OF c(3)]) (rule s)
  note totals = kind [of ts_dispatched_ticks Output_Tick] kind [of ts_late_recovery_dispatched Output_Late]
    kind [of ts_channel_faults_dispatched Output_Fault] snapshots
  have "dispatched_total k (Stats ?e) = of_nat (sent_total cfg ?env k)"
    using totals by (cases k) (simp_all add: Stats_def Let_def c fold_tick_stats fold_snapshot_stats)
  then show ?thesis by (simp add: sent_total_split received_total_def)
qed

end
