(* ===== verification/Engine_Demo.thy ===== *)
theory Engine_Demo
  imports Engine_Progress
begin

text \<open>
  A concrete engine for the witnesses: the configuration and the catalog of the earlier witnesses,
  created, started with both its threads, and given one Shenzhen order.
\<close>

section \<open>Creation\<close>

lemma demo_valid: "ValidateConfig demo_cfg demo_catalog = None"
proof -
  have "length (ic_entries demo_catalog) = length demo_definitions"
    by (simp add: Build_ok(2) [OF demo_catalog_built])
  then have "ic_entries demo_catalog \<noteq> []" using demo_definitions_ok(4) by auto
  moreover have "IsTradeDateValid 20240102"
    by (simp add: IsTradeDateValid_def month_days_def IsLeapYear_def Let_def)
  moreover have "IsPowerOfTwo 4" by (simp add: IsPowerOfTwo_iff exI [of _ 2])
  ultimately show ?thesis
    by (simp add: ValidateConfig_def demo_cfg_def U32_MAX_def SIZE_MAX_def kMaximumIdentityBytes_def)
qed

definition demo_engine :: Engine where
  "demo_engine = (case Create demo_cfg demo_catalog of Inr e \<Rightarrow> e | Inl _ \<Rightarrow> undefined)"

lemma demo_created: "Create demo_cfg demo_catalog = Inr demo_engine"
proof -
  have "\<exists>e. Create demo_cfg demo_catalog = Inr e"
    by (rule Create_succeeds [OF demo_valid]) (simp_all add: demo_cfg_def SIZE_MAX_def)
  then show ?thesis by (auto simp: demo_engine_def)
qed

lemma demo_sizes: "config_sizes demo_cfg"
  by (simp add: config_sizes_def demo_cfg_def SIZE_MAX_def)

lemma demo_limit: "cfg_maximum_text_bytes demo_cfg \<le> kMaximumIdentityBytes"
  by (rule ValidateConfig_accepted(8) [OF demo_valid])

lemma Create_fields:
  assumes "Create cfg cat = Inr e"
  shows "en_config e = cfg" "en_health e = initial_health" "\<not> en_started e" "\<not> en_callback_active e"
    "en_next_ingress_sequence e = 0" "en_admission e = default_admission_stats"
    "\<exists>lane. new_lane_storage (tick_slots_per_lane cfg) (maximum_tick_body_bytes cfg) = Some lane \<and>
      en_tick_lanes e = replicate (tick_decoder_lanes cfg) lane"
    "\<exists>lane. new_lane_storage (snapshot_slots_per_lane cfg) (maximum_snapshot_body_bytes cfg) = Some lane \<and>
      en_snapshot_lanes e = replicate (snapshot_decoder_lanes cfg) lane"
  using assms by (auto simp: Create_def new_engine_def split: option.splits Option.bind_splits)

lemma demo_engine_fields:
  "en_config demo_engine = demo_cfg" "en_health demo_engine = initial_health" "\<not> en_started demo_engine"
  "\<not> en_callback_active demo_engine" "en_next_ingress_sequence demo_engine = 0"
  "en_admission demo_engine = default_admission_stats"
  by (rule Create_fields [OF demo_created])+

section \<open>Start\<close>

definition demo_started :: Engine where
  "demo_started = (let (e1, e2) = Start_begin AllSpawned (\<lambda>i. 0) demo_engine in
     snd (Start_end \<lparr>pf_linux = True, pf_cpu_setsize = 1024, pf_affinity = (\<lambda>i. True)\<rparr> e2))"

lemma demo_started_eq:
  "demo_started = demo_engine\<lparr>en_tick_threads := [\<lparr>tt_next_timer = 0, tt_finished = False\<rparr>],
     en_snapshot_threads := [False], en_started := True, en_running := True,
     en_health := initial_health\<lparr>hl_accepting := True\<rparr>\<rparr>"
  by (simp add: demo_started_def Start_begin_def Start_end_def Start_accept_def spawn_threads_def set_accepting_def
      demo_engine_fields initial_health_def demo_cfg_def Let_def)

definition demo_world :: World where
  "demo_world = initial_world demo_started"

lemma demo_run: "engine_run demo_cfg demo_catalog demo_world"
proof -
  let ?pf = "\<lparr>pf_linux = True, pf_cpu_setsize = 1024, pf_affinity = (\<lambda>i. True)\<rparr>" and ?w0 = "initial_world demo_engine"
  obtain err1 e1 where b: "Start_begin AllSpawned (\<lambda>i. 0) demo_engine = (err1, e1)" by fastforce
  obtain err2 where e: "Start_end ?pf e1 = (err2, demo_started)" using b by (cases "Start_end ?pf e1") (auto simp: demo_started_def)
  have none: "err1 = None" "err2 = None"
    using b e by (auto simp: Start_begin_def Start_end_def Start_accept_def spawn_threads_def set_accepting_def
        demo_engine_fields initial_health_def demo_cfg_def Let_def)
  let ?w1 = "?w0\<lparr>wd_engine := e1, wd_phase := if err1 = None then Phase_Starting else Phase_Stopping\<rparr>"
  have s1: "engine_step ?w0 ?w1"
    by (rule engine_step.start_begin [where outcome = AllSpawned and clock = "\<lambda>i. 0"])
      (simp_all add: initial_world_def demo_engine_fields b)
  have s2: "engine_step ?w1 (?w1\<lparr>wd_engine := demo_started, wd_phase := if err2 = None then Phase_Idle else Phase_Stopping\<rparr>)"
    by (rule engine_step.start_end [where pf = ?pf]) (simp_all add: none e [unfolded none(2)])
  have "?w1\<lparr>wd_engine := demo_started, wd_phase := if err2 = None then Phase_Idle else Phase_Stopping\<rparr> = demo_world"
    by (simp add: demo_world_def initial_world_def none)
  then show ?thesis
    using engine_run.stepped [OF engine_run.stepped [OF engine_run.created [OF demo_created] s1] s2] by simp
qed

lemma demo_world_ok: "world_ok demo_cfg demo_catalog demo_world"
  by (rule engine_run_ok [OF demo_run demo_sizes])

lemma demo_world_fields:
  "wd_engine demo_world = demo_started" "wd_callback demo_world = None" "wd_phase demo_world = Phase_Idle"
  "engine_open demo_started" "\<not> en_callback_active demo_started" "hl_healthy (en_health demo_started)"
  "en_config demo_started = demo_cfg" "en_next_ingress_sequence demo_started = 0"
  "en_tick_threads demo_started = [\<lparr>tt_next_timer = 0, tt_finished = False\<rparr>]" "en_snapshot_threads demo_started = [False]"
  by (simp_all add: demo_world_def initial_world_def demo_started_eq engine_open_def demo_engine_fields initial_health_def)

section \<open>A message\<close>

lemma demo_lanes:
  "length (class_lanes t demo_started) = 1" "queue_of demo_started t 0 = []"
  "lane_room True 0 n demo_started \<longleftrightarrow> n \<le> 128"
proof -
  have lanes: "class_lanes t demo_started = class_lanes t demo_engine" for t
    by (simp add: class_lanes_def demo_started_eq)
  obtain tl sl where n: "new_lane_storage 4 128 = Some tl" "new_lane_storage 2 256 = Some sl"
    and l: "class_lanes True demo_engine = [tl]" "class_lanes False demo_engine = [sl]"
    using Create_fields(7,8) [OF demo_created] by (auto simp: class_lanes_def demo_cfg_def)
  note T = new_lane_storage_ok [OF n(1)] and S = new_lane_storage_ok [OF n(2)]
  show "length (class_lanes t demo_started) = 1" by (cases t) (simp_all add: lanes l)
  show "queue_of demo_started t 0 = []" using T S by (cases t) (simp_all add: queue_of_def lanes l)
  show "lane_room True 0 n demo_started \<longleftrightarrow> n \<le> 128"
    using T by (auto simp: lane_room_def queue_of_def lanes l U32_MAX_def)
qed

abbreviation demo_header :: "byte list" where
  "demo_header \<equiv> header_bytes (mv_header demo_message)"

lemma demo_order_descriptor:
  "\<exists>channel seq. ExtractTickNativeDescriptor MessageClass_kShenzhenOrder (sz_order_bytes demo_order)
      = Some (Market_kShenzhen, channel, seq)"
proof -
  obtain r rs where s: "decode_tick_scoped demo_message 20240102 demo_limits demo_catalog = Inr (r, rs)"
    using demo_decodes by blast
  have k: "ClassifyMessage (hdr_key (mv_header demo_message)) = MessageClass_kShenzhenOrder"
    "mv_body demo_message = sz_order_bytes demo_order"
    by (simp_all add: demo_message_simps ClassifyMessage_def mk_key_def)
  from decode_tick_post(1) [OF s] obtain market channel seq where
    d: "ExtractTickNativeDescriptor MessageClass_kShenzhenOrder (sz_order_bytes demo_order) = Some (market, channel, seq)"
    unfolding k by auto
  then have "market = Market_kShenzhen"
    by (auto simp: ExtractTickNativeDescriptor_def split: if_splits option.splits)
  then show ?thesis using d by blast
qed

lemma demo_admissible:
  "\<exists>route. admissible demo_cfg demo_header (sz_order_bytes demo_order) (mv_header demo_message) True route"
proof -
  have key: "hdr_key (mv_header demo_message) = mk_key 6 101 33" by (rule demo_message_simps)
  have cls: "ClassifyMessage (mk_key 6 101 33) = MessageClass_kShenzhenOrder"
    by (simp add: ClassifyMessage_def mk_key_def)
  obtain channel seq where
    "ExtractTickNativeDescriptor MessageClass_kShenzhenOrder (sz_order_bytes demo_order) = Some (Market_kShenzhen, channel, seq)"
    using demo_order_descriptor by blast
  from descriptor_route(1) [OF this] obtain route where
    r: "ExtractAdmissionRoute MessageClass_kShenzhenOrder (sz_order_bytes demo_order) = Some route" by blast
  have len: "length (sz_order_bytes demo_order) \<le> 128"
    by (simp add: sz_order_bytes_def demo_order_def Let_def)
  have parse: "ParseMdlHeader demo_header = Some (mv_header demo_message)"
    using ParseMdlHeader_header_bytes [of "mv_header demo_message" "[]"] by simp
  have "mk_key 6 101 33 \<in> set kSupportedMessageKeys" "StreamEnabled 31 (mk_key 6 101 33)"
    by (simp_all add: kSupportedMessageKeys_def mk_key_def StreamEnabled_def StreamBit_def)
  moreover have "unat (23 + word_of_nat n :: u32) = 23 + n" if "n \<le> 128" for n
  proof -
    have "unat (of_nat (23 + n) :: u32) = 23 + n" using that by (simp only: unat_of_nat) simp
    then show ?thesis by simp
  qed
  ultimately show ?thesis
    using parse r len
    by (intro exI [of _ route])
      (simp add: admissible_def key cls tick_class_def demo_cfg_def, simp add: demo_message_def sz_order_message_def
        kMdlHeaderBytes_def kBinaryEncoding_def unat_of_nat)
qed

lemma demo_accepts: "accepts demo_header (sz_order_bytes demo_order) demo_started"
proof -
  obtain route where "admissible demo_cfg demo_header (sz_order_bytes demo_order) (mv_header demo_message) True route"
    using demo_admissible by blast
  moreover have "length (sz_order_bytes demo_order) \<le> 128"
    by (simp add: sz_order_bytes_def demo_order_def Let_def)
  ultimately show ?thesis
    unfolding accepts_def
    by (intro conjI exI [of _ "mv_header demo_message"] exI [of _ True] exI [of _ route])
      (simp_all add: demo_world_fields route_lane_def demo_lanes)
qed

text \<open>The engine after the callback of the order: the message waits on the tick lane.\<close>

lemma demo_busy:
  obtains w where "engine_run demo_cfg demo_catalog w" "wd_phase w = Phase_Idle" "en_running (wd_engine w)"
    "\<not> en_callback_active (wd_engine w)" "hl_healthy (en_health (wd_engine w))"
    "length (en_tick_threads (wd_engine w)) = 1" "\<not> tt_finished (en_tick_threads (wd_engine w) ! 0)"
    "length (en_snapshot_threads (wd_engine w)) = 1" "\<not> en_snapshot_threads (wd_engine w) ! 0"
    "queue_of (wd_engine w) True 0 = [message_view (mv_header demo_message) (sz_order_bytes demo_order) 1 5]"
    "as_admitted (en_admission (wd_engine w)) = 1"
proof -
  let ?body = "sz_order_bytes demo_order"
  let ?e1 = "(admission_stat (\<lambda>s. s\<lparr>as_callbacks := as_callbacks s + 1\<rparr>) demo_started)\<lparr>en_callback_active := True\<rparr>"
  let ?w1 = "demo_world\<lparr>wd_engine := ?e1, wd_callback := Some (demo_header, ?body, 5)\<rparr>"
  have s1: "engine_step demo_world ?w1"
    by (rule engine_step.callback_enter) (simp_all add: demo_world_fields)
  have run1: "engine_run demo_cfg demo_catalog ?w1" by (rule engine_run.stepped [OF demo_run s1])
  have ok1: "lanes_ok ?e1" using world_okD(2) [OF engine_run_ok [OF run1 demo_sizes]] by simp
  have lanes: "en_tick_lanes ?e1 = en_tick_lanes demo_started" "en_snapshot_lanes ?e1 = en_snapshot_lanes demo_started"
    by (simp_all add: admission_stat_def)
  note L = lanes_cong [OF lanes]
  obtain r e where adm: "Admit_message demo_header ?body 5 ?e1 = (r, e)" by fastforce
  note A = Admit_message_spec [OF ok1 adm] and F = Admit_message_fields [OF ok1 adm]
  have "accepts demo_header ?body ?e1"
    using demo_accepts unfolding accepts_def L by (simp add: admission_stat_def)
  then have r: "r = kAccepted" using A(1) by simp
  have eq: "e = ?e1\<lparr>en_tick_lanes := en_tick_lanes e, en_snapshot_lanes := en_snapshot_lanes e,
       en_next_ingress_sequence := en_next_ingress_sequence ?e1 + (if r = kAccepted then 1 else 0),
       en_admission := (en_admission ?e1)
         \<lparr>as_admitted := as_admitted (en_admission ?e1) + (if r = kAccepted then 1 else 0),
          as_rejected := as_rejected (en_admission ?e1) + (if r = kAccepted then 0 else 1),
          as_lane_full := as_lane_full (en_admission ?e1) + (if r = kLaneFull then 1 else 0)\<rparr>,
       en_health := en_health e\<rparr>" using A(3) unfolding admission_effect_def by (rule conjunct2)
  have health: "en_health e = en_health ?e1" using A(3) r by (simp add: admission_effect_def)
  have fields: "en_tick_threads e = en_tick_threads demo_started" "en_snapshot_threads e = en_snapshot_threads demo_started"
    "en_running e = en_running demo_started" "as_admitted (en_admission e) = 1"
    by (subst eq, simp add: r admission_stat_def demo_started_eq demo_engine_fields default_admission_stats_def)+
  have len: "0 < length (class_lanes True ?e1)" using demo_lanes(1) [of True] unfolding L by simp
  obtain route where route: "admissible demo_cfg demo_header ?body (mv_header demo_message) True route"
    using demo_admissible by blast
  then have hd: "the (ParseMdlHeader demo_header) = mv_header demo_message" by (simp add: admissible_def)
  have e1: "en_config ?e1 = demo_cfg" "en_next_ingress_sequence ?e1 = 0"
    by (simp_all add: admission_stat_def demo_world_fields)
  have "0 = route_lane True route ?e1" using demo_lanes(1) [of True] unfolding L by (simp add: route_lane_def)
  then have "\<exists>route. admissible demo_cfg demo_header ?body (mv_header demo_message) True route \<and> 0 = route_lane True route ?e1"
    using route by blast
  then have "added demo_header ?body 5 True 0 ?e1 = [message_view (mv_header demo_message) ?body 1 5]"
    unfolding added_def Let_def hd e1 by simp
  then have q: "queue_of e True 0 = [message_view (mv_header demo_message) ?body 1 5]"
    using A(4) [OF len] r demo_lanes(2) [of True] unfolding L by simp
  let ?w = "?w1\<lparr>wd_engine := e\<lparr>en_callback_active := False\<rparr>, wd_callback := None\<rparr>"
  have "engine_step ?w1 ?w"
    by (rule engine_step.callback_finish [of _ demo_header ?body 5]) (simp_all add: adm)
  then have run: "engine_run demo_cfg demo_catalog ?w" by (rule engine_run.stepped [OF run1])
  show thesis
    by (rule that [OF run])
      (use fields q health in \<open>simp_all add: demo_world_fields queue_of_def class_lanes_def admission_stat_def,
        simp_all add: demo_started_eq\<close>)
qed

end
