(* ===== verification/Engine_Claims.thy ===== *)
theory Engine_Claims
  imports Engine_Books Engine_Demo
begin

text \<open>
  The properties of the whole engine, over every run: any interleaving of callbacks, polls, turns of
  the decoder threads, \<open>Start\<close> and \<open>Stop\<close>.
\<close>

section \<open>Streams\<close>

text \<open>The ticks owner \<open>v\<close> has received from lane \<open>p\<close>, followed by those in its queue.\<close>

definition tick_stream :: "World \<Rightarrow> nat \<Rightarrow> nat \<Rightarrow> CanonicalTick list" where
  "tick_stream w p v = wd_received w p v @ tick_edge (en_dispatcher (wd_engine w)) p v"

text \<open>
  C2. Ticks are ordered engine-wide.  In every state the engine can reach, under any interleaving,
  the ticks an owner has received from a lane and those still queued for it carry strictly
  increasing native sequences on every channel, and a channel reaches its owners from one lane only:
  the one its admission route selects.
\<close>

theorem engine_streams:
  assumes run: "engine_run cfg cat w" and sizes: "config_sizes cfg"
    and p: "p < tick_decoder_lanes cfg" and v: "v < instrument_workers cfg"
  shows "sorted_wrt (<) (map native_seq (filter (of_key market channel) (tick_stream w p v))) \<and>
    (\<forall>t \<in> set (tick_stream w p v). tick_market t \<in> {Market_kShanghai, Market_kShenzhen} \<and>
       unat (channel_route (tick_market t) (tick_channel t)) mod tick_decoder_lanes cfg = p)"
proof -
  let ?rec = "en_tick_recovery (wd_engine w) ! p" and ?env = "world_env0 w"
  have "lane_good cfg p (home_of cfg p) ?rec ?env"
    using world_okD(4) [OF engine_run_ok [OF run sizes]] p by (simp add: streams_ok_def)
  then have ok: "lane.rec_ok cfg p v (home_of cfg p) ?rec ?env" and ord: "lane.ordered p v ?rec ?env"
    using v by (simp_all add: lane_good_def)
  have view: "lane_view p v ?env = tick_stream w p v" by (simp add: lane_view_def tick_stream_def)
  have table: "table_ok ?rec" and home: "\<And>i. i < sr_channel_count ?rec \<Longrightarrow> home_of cfg p (chan_key (sr_channels ?rec ! i))"
    using ok by (simp_all add: lane.rec_ok_def)
  have "home_of cfg p (tick_market t, tick_channel t)" if t: "t \<in> set (tick_stream w p v)" for t
  proof -
    obtain i where "index_of ?rec (tick_market t) (tick_channel t) = Some i"
      using bspec [OF conjunct1 [OF ord [unfolded lane.ordered_def view]] t] by (elim exE conjE)
    then show ?thesis using home index_of_Some [OF table] by metis
  qed
  moreover have "sorted_wrt (<) (map native_seq (filter (of_key market channel) (tick_stream w p v)))"
    using ord by (simp add: lane.ordered_def view)
  ultimately show ?thesis by (simp add: home_of_def)
qed

theorem engine_streams_witness:
  "\<exists>w. engine_run demo_cfg demo_catalog w \<and> queue_of (wd_engine w) True 0 \<noteq> [] \<and>
    sorted_wrt (<) (map native_seq (filter (of_key Market_kShenzhen 2011) (tick_stream w 0 1)))"
proof -
  obtain w where w: "engine_run demo_cfg demo_catalog w" "queue_of (wd_engine w) True 0 \<noteq> []"
    by (rule demo_busy) auto
  show ?thesis using w engine_streams [OF w(1) demo_sizes, of 0 1 Market_kShenzhen 2011] by auto
qed

text \<open>
  C3. Snapshots are delivered in order and exactly once.  In every state the engine can reach
  without a fatal, what an owner has received from a snapshot lane, what waits in its queue, and
  what the messages still on the lane decode to are, in this order, exactly the snapshots that the
  messages admitted to the lane decode to for that owner.
\<close>

theorem engine_snapshots_exact:
  assumes "engine_history cfg cat w h" and "config_sizes cfg"
    and "l < snapshot_decoder_lanes cfg" and "v < instrument_workers cfg"
    and "hl_healthy (en_health (wd_engine w))"
  shows "snapshot_stream w l v @ owner_output cfg cat v (queue_of (wd_engine w) False l)
    = owner_output cfg cat v (h l)"
  using snapshot_history [OF assms(1-4)] assms(5) by (simp add: lane_healthy_def snapshot_due_def)

theorem engine_snapshots_exact_witness:
  "\<exists>w h. engine_history demo_cfg demo_catalog w h \<and> as_admitted (en_admission (wd_engine w)) = 1 \<and>
    snapshot_stream w 0 1 @ owner_output demo_cfg demo_catalog 1 (queue_of (wd_engine w) False 0)
      = owner_output demo_cfg demo_catalog 1 (h 0)"
proof -
  obtain w where w: "engine_run demo_cfg demo_catalog w" "hl_healthy (en_health (wd_engine w))"
    "as_admitted (en_admission (wd_engine w)) = 1" by (rule demo_busy) auto
  obtain h where h: "engine_history demo_cfg demo_catalog w h" using engine_run_history [OF w(1)] by blast
  have "snapshot_decoder_lanes demo_cfg = 1" by (simp add: demo_cfg_def)
  then show ?thesis using h w(2,3) engine_snapshots_exact [OF h demo_sizes, of 0 1] by auto
qed

section \<open>Start and Stop\<close>

text \<open>
  C9. \<open>Stop\<close> can always finish.  From every reachable state in which no \<open>Start\<close> or \<open>Stop\<close> is in
  progress there is a way to a completed \<open>Stop\<close>, whatever the engine was doing; then the gate is
  closed, the threads are gone, no callback is active, every lane is empty and every recovery has
  been flushed.
\<close>

theorem engine_stop_completes:
  assumes "engine_run cfg cat w" and "config_sizes cfg" and "wd_phase w = Phase_Idle"
  shows "\<exists>w'. engine_step\<^sup>*\<^sup>* w w' \<and> stopped w'"
  by (rule stop_completes [OF engine_run_ok [OF assms(1,2)]
        ValidateConfig_accepted(8) [OF engine_run_valid [OF assms(1)]] assms(3)])

theorem engine_stop_completes_witness:
  "\<exists>w w'. engine_run demo_cfg demo_catalog w \<and> queue_of (wd_engine w) True 0 \<noteq> [] \<and>
    engine_step\<^sup>*\<^sup>* w w' \<and> stopped w'"
proof -
  obtain w where w: "engine_run demo_cfg demo_catalog w" "queue_of (wd_engine w) True 0 \<noteq> []" "wd_phase w = Phase_Idle"
    by (rule demo_busy) auto
  show ?thesis using w engine_stop_completes [OF w(1) demo_sizes w(3)] by blast
qed

text \<open>
  C20. Every turn of a tick thread returns, whatever the consumers do meanwhile: it takes one message
  off its lane, leaves the loop exactly when the engine no longer runs and the lane is empty, and
  once \<open>running_\<close> is cleared each turn brings the end of \<open>Stop\<close> one step closer.
\<close>

theorem engine_tick_turn:
  assumes run: "engine_run cfg cat w" and sizes: "config_sizes cfg"
    and l: "l < length (en_tick_threads (wd_engine w))" and live: "\<not> tt_finished (en_tick_threads (wd_engine w) ! l)"
  shows "\<exists>w'. tick_turn l schedule allocations now w = Some w' \<and> engine_run cfg cat w' \<and>
    queue_of (wd_engine w') True l = tl (queue_of (wd_engine w) True l) \<and>
    (tt_finished (en_tick_threads (wd_engine w') ! l) \<longleftrightarrow>
       \<not> en_running (wd_engine w) \<and> queue_of (wd_engine w) True l = []) \<and>
    (\<not> en_running (wd_engine w) \<longrightarrow> Suc (turns_left (wd_engine w')) = turns_left (wd_engine w))"
proof -
  note ok = engine_run_ok [OF run sizes] and lim = ValidateConfig_accepted(8) [OF engine_run_valid [OF run]]
  from tick_step_ok [OF ok lim l live, of schedule allocations now] obtain w' where
    w': "tick_turn l schedule allocations now w = Some w'"
      "queue_of (wd_engine w') True l = tl (queue_of (wd_engine w) True l)"
      "tt_finished (en_tick_threads (wd_engine w') ! l) \<longleftrightarrow>
         \<not> en_running (wd_engine w) \<and> queue_of (wd_engine w) True l = []" by blast
  have "Suc (turns_left (wd_engine w')) = turns_left (wd_engine w)" if "\<not> en_running (wd_engine w)"
    using tick_turn_left [OF ok lim l live that, of schedule allocations now] w'(1) by auto
  moreover have "engine_run cfg cat w'"
    by (rule engine_run.stepped [OF run engine_step.tick [OF l live w'(1)]])
  ultimately show ?thesis using w' by blast
qed

theorem engine_tick_turn_witness:
  "\<exists>w w'. engine_run demo_cfg demo_catalog w \<and> queue_of (wd_engine w) True 0 \<noteq> [] \<and>
    tick_turn 0 [[PollTicks 0]] [True] 9 w = Some w' \<and> queue_of (wd_engine w') True 0 = []"
proof -
  obtain w where w: "engine_run demo_cfg demo_catalog w" "length (en_tick_threads (wd_engine w)) = 1"
    "\<not> tt_finished (en_tick_threads (wd_engine w) ! 0)"
    "queue_of (wd_engine w) True 0 = [message_view (mv_header demo_message) (sz_order_bytes demo_order) 1 5]"
    by (rule demo_busy) auto
  have "0 < length (en_tick_threads (wd_engine w))" using w(2) by simp
  from engine_tick_turn [OF w(1) demo_sizes this w(3), of "[[PollTicks 0]]" "[True]" 9] w(1,4) show ?thesis by auto
qed

text \<open>
  C27. A stop is final.  Once the engine was started and \<open>running_\<close> has been cleared, no later step
  admits a message or sets \<open>running_\<close> again: the engine can be started exactly once.
\<close>

theorem engine_stop_final:
  assumes "engine_run cfg cat w" and "config_sizes cfg" and "engine_step\<^sup>*\<^sup>* w w'"
    and "en_started (wd_engine w)" and "\<not> en_running (wd_engine w)"
  shows "en_started (wd_engine w') \<and> \<not> en_running (wd_engine w') \<and> \<not> hl_accepting (en_health (wd_engine w')) \<and>
    as_admitted (en_admission (wd_engine w')) = as_admitted (en_admission (wd_engine w))"
  using assms(3)
proof induction
  case base
  then show ?case
    using control_okD(3) [OF world_okD(5) [OF engine_run_ok [OF assms(1,2)]]] assms(4,5) by auto
next
  case (step y z)
  have run: "engine_run cfg cat y" using step.hyps(1) assms(1) by induction (auto intro: engine_run.stepped)
  note ok = engine_run_ok [OF run assms(2)]
    engine_run_ok [OF engine_run.stepped [OF run step.hyps(2)] assms(2)]
  have "en_started (wd_engine z) \<and> \<not> en_running (wd_engine z) \<and>
    as_admitted (en_admission (wd_engine z)) = as_admitted (en_admission (wd_engine y))"
    using stopped_step [OF step.hyps(2) ok(1)] step.IH by blast
  then show ?case using step.IH control_okD(3) [OF world_okD(5) [OF ok(2)]] by auto
qed

theorem engine_stop_final_witness:
  "\<exists>w w'. engine_run demo_cfg demo_catalog w \<and> engine_step\<^sup>*\<^sup>* w w' \<and> all_finished (wd_engine w') \<and>
    \<not> hl_accepting (en_health (wd_engine w')) \<and>
    as_admitted (en_admission (wd_engine w')) = as_admitted (en_admission (wd_engine w))"
proof -
  obtain w where w: "engine_run demo_cfg demo_catalog w" "wd_phase w = Phase_Idle" "en_running (wd_engine w)"
    "\<not> en_callback_active (wd_engine w)" by (rule demo_busy) auto
  let ?w1 = "w\<lparr>wd_engine := Stop_gate (wd_engine w), wd_phase := Phase_Stopping\<rparr>"
  let ?w2 = "?w1\<lparr>wd_engine := Stop_running (wd_engine ?w1), wd_phase := Phase_Joining\<rparr>"
  have "engine_step w ?w1" by (rule engine_step.stop_gate [OF w(2)])
  moreover have "engine_step ?w1 ?w2"
    by (rule engine_step.stop_running) (use w(4) in \<open>simp_all add: Stop_gate_def set_accepting_def\<close>)
  ultimately have run: "engine_run demo_cfg demo_catalog ?w2" using w(1) by (blast intro: engine_run.stepped)
  have "en_started (wd_engine w)"
    using control_okD(4) [OF world_okD(5) [OF engine_run_ok [OF w(1) demo_sizes]]] w(3) by auto
  then have st: "en_started (wd_engine ?w2)" "\<not> en_running (wd_engine ?w2)"
    by (simp_all add: Stop_gate_def set_accepting_def Stop_running_def)
  obtain w' where w': "engine_step\<^sup>*\<^sup>* ?w2 w'" "all_finished (wd_engine w')"
    using joining_drains [OF engine_run_ok [OF run demo_sizes] demo_limit] stop_steps_engine by fastforce
  show ?thesis using run w' engine_stop_final [OF run demo_sizes w'(1) st] by blast
qed

section \<open>Safety of every state\<close>

text \<open>
  C28. Every state the engine can reach is well formed: the vectors have the configured lengths, every
  lane satisfies the slot and ring invariants, the dispatcher's queues and mailboxes are well formed,
  every mailbox with an undelivered gap is announced by a dirty or a pending bit, and the dimensions
  are the configured ones.
\<close>

theorem engine_well_formed:
  assumes "engine_run cfg cat w" and "config_sizes cfg"
  shows "shape_ok cfg cat (wd_engine w) \<and> lanes_ok (wd_engine w) \<and> dispatcher_ok (en_dispatcher (wd_engine w)) \<and>
    gap_ok (en_dispatcher (wd_engine w)) \<and> dp_tick_producers (en_dispatcher (wd_engine w)) = tick_decoder_lanes cfg \<and>
    dp_snapshot_producers (en_dispatcher (wd_engine w)) = snapshot_decoder_lanes cfg \<and>
    dp_owners (en_dispatcher (wd_engine w)) = instrument_workers cfg"
  using world_okD(1,2,4) [OF engine_run_ok [OF assms]] by (simp add: streams_ok_def env_ok_def)

theorem engine_well_formed_witness:
  "\<exists>w. engine_run demo_cfg demo_catalog w \<and> as_admitted (en_admission (wd_engine w)) = 1 \<and> lanes_ok (wd_engine w)"
proof -
  obtain w where w: "engine_run demo_cfg demo_catalog w" "as_admitted (en_admission (wd_engine w)) = 1"
    by (rule demo_busy) auto
  show ?thesis using w engine_well_formed [OF w(1) demo_sizes] by blast
qed

text \<open>
  C14. No admitted message is stranded.  In every reachable state a lane that holds a message has a
  thread that still serves it, and a tick lane without such a thread has nothing left to release;
  while messages can be admitted, every lane has its thread and no fatal was raised.
\<close>

theorem engine_never_strands:
  assumes "engine_run cfg cat w" and "config_sizes cfg"
  shows "(\<forall>l < tick_decoder_lanes cfg. \<not> tick_live (wd_engine w) l \<longrightarrow>
      queue_of (wd_engine w) True l = [] \<and> recovery_drained (en_tick_recovery (wd_engine w) ! l)) \<and>
    (\<forall>l < snapshot_decoder_lanes cfg. \<not> snapshot_live (wd_engine w) l \<longrightarrow> queue_of (wd_engine w) False l = []) \<and>
    (hl_accepting (en_health (wd_engine w)) \<or> en_callback_active (wd_engine w) \<longrightarrow>
      en_running (wd_engine w) \<and> fully_manned (wd_engine w) \<and> none_finished (wd_engine w))"
proof -
  note D = world_okD [OF engine_run_ok [OF assms]]
  have "hl_accepting (en_health (wd_engine w)) \<or> en_callback_active (wd_engine w) \<longrightarrow>
      en_running (wd_engine w) \<and> fully_manned (wd_engine w) \<and> none_finished (wd_engine w)"
    using control_okD(2,3,7) [OF D(5)] by blast
  then show ?thesis using D(1,3) by (simp add: lanes_quiet_def shape_ok_def)
qed

theorem engine_never_strands_witness:
  "\<exists>w. engine_run demo_cfg demo_catalog w \<and> queue_of (wd_engine w) True 0 \<noteq> [] \<and> tick_live (wd_engine w) 0"
proof -
  obtain w where w: "engine_run demo_cfg demo_catalog w" "queue_of (wd_engine w) True 0 \<noteq> []"
    by (rule demo_busy) auto
  show ?thesis using w engine_never_strands [OF w(1) demo_sizes] by auto
qed

text \<open>
  C29. The statistics are exact.  In every reachable state, under any interleaving of callbacks, polls,
  turns of the decoder threads, \<open>Start\<close> and \<open>Stop\<close>, each of the four dispatch totals is the number of
  records the consumers have received plus the number still in the queues, modulo the width of the
  counters; the callbacks are the admitted and the rejected ones and the one in flight, and the last
  ingress sequence is the number of admitted messages.
\<close>

theorem engine_counters_exact:
  assumes "engine_run cfg cat w" and "config_sizes cfg"
  shows "(\<forall>k. dispatched_total k (Stats (wd_engine w))
      = of_nat (received_total cfg w k + queued_total cfg (en_dispatcher (wd_engine w)) k)) \<and>
    es_callbacks (Stats (wd_engine w)) = es_admitted (Stats (wd_engine w)) + es_rejected (Stats (wd_engine w)) +
      (if en_callback_active (wd_engine w) then 1 else 0) \<and>
    en_next_ingress_sequence (wd_engine w) = es_admitted (Stats (wd_engine w))"
proof -
  note D = world_okD [OF engine_run_ok [OF assms]]
  show ?thesis
    using Stats_totals [OF D(1) engine_run_balanced [OF assms]] D(6)
    by (simp add: Stats_def Let_def fold_tick_stats fold_snapshot_stats accounting_def)
qed

theorem engine_counters_exact_witness:
  "\<exists>w. engine_run demo_cfg demo_catalog w \<and> es_callbacks (Stats (wd_engine w)) = 1 + es_rejected (Stats (wd_engine w)) \<and>
    en_next_ingress_sequence (wd_engine w) = 1 \<and>
    dispatched_total Kind_Tick (Stats (wd_engine w))
      = of_nat (received_total demo_cfg w Kind_Tick + queued_total demo_cfg (en_dispatcher (wd_engine w)) Kind_Tick)"
proof -
  obtain w where w: "engine_run demo_cfg demo_catalog w" "as_admitted (en_admission (wd_engine w)) = 1"
    "\<not> en_callback_active (wd_engine w)" by (rule demo_busy) auto
  have "es_admitted (Stats (wd_engine w)) = 1" using w(2) by (simp add: Stats_def Let_def fold_tick_stats fold_snapshot_stats)
  then show ?thesis using w engine_counters_exact [OF w(1) demo_sizes] by (intro exI [of _ w]) simp
qed



section \<open>Admission\<close>

lemma Admit_call:
  assumes ok: "lanes_ok e" and idle: "\<not> en_callback_active e" and adm: "Admit hb body now e = (r, e')"
  shows "r = kAccepted \<longleftrightarrow> engine_open e \<and> accepts hb body e"
    and "i < length (class_lanes t e) \<Longrightarrow>
      queue_of e' t i = queue_of e t i @ (if r = kAccepted then added hb body now t i e else [])"
    and "en_health e' = en_health e \<or> (r \<in> {kBodyTooLarge, kLaneFull} \<and> (\<exists>m. en_health e' = SetFatal m (en_health e)))"
    and "as_rejected (en_admission e') = as_rejected (en_admission e) + (if r = kAccepted then 0 else 1)"
proof -
  let ?e2 = "e\<lparr>en_admission := (en_admission e)\<lparr>as_callbacks := as_callbacks (en_admission e) + 1\<rparr>,
           en_callback_active := True\<rparr>"
  have lanes: "en_tick_lanes ?e2 = en_tick_lanes e" "en_snapshot_lanes ?e2 = en_snapshot_lanes e" by simp_all
  note L = lanes_cong [OF lanes]
  obtain e3 where e3: "(r, e3) = (if \<not> engine_open ?e2 then admission_reject kNotRunning ?e2
      else Admit_message hb body now ?e2)" "e' = e3\<lparr>en_callback_active := False\<rparr>"
    using adm Admit_idle [OF idle, of hb body now] by (auto simp: Let_def split: prod.splits)
  have opened: "engine_open ?e2 = engine_open e" by (simp add: engine_open_def)
  have acc: "accepts hb body ?e2 = accepts hb body e" unfolding accepts_def L by simp
  have add: "added hb body now t i ?e2 = added hb body now t i e" for t i
  proof -
    have "en_config ?e2 = en_config e" "en_next_ingress_sequence ?e2 = en_next_ingress_sequence e" by simp_all
    then show ?thesis unfolding added_def L by (simp only:)
  qed
  have q: "queue_of e' t i = queue_of e3 t i" for t i by (simp add: e3(2) queue_of_def class_lanes_def)
  have "(r = kAccepted \<longleftrightarrow> engine_open e \<and> accepts hb body e) \<and>
    (i < length (class_lanes t e) \<longrightarrow>
      queue_of e' t i = queue_of e t i @ (if r = kAccepted then added hb body now t i e else [])) \<and>
    (en_health e' = en_health e \<or> (r \<in> {kBodyTooLarge, kLaneFull} \<and> (\<exists>m. en_health e' = SetFatal m (en_health e)))) \<and>
    as_rejected (en_admission e') = as_rejected (en_admission e) + (if r = kAccepted then 0 else 1)" for t i
  proof (cases "engine_open e")
    case False
    then have e3': "r = kNotRunning" "e3 = snd (admission_reject kNotRunning ?e2)"
      using e3(1) opened by (simp_all add: admission_reject_def Let_def)
    then show ?thesis
      using False q by (simp add: e3(2) admission_reject_def admission_stat_def Let_def) (simp add: queue_of_def class_lanes_def)
  next
    case True
    have m: "Admit_message hb body now ?e2 = (r, e3)" using e3(1) True opened by simp
    have ok2: "lanes_ok ?e2" using ok unfolding L .
    note A = Admit_message_spec [OF ok2 m]
    have rej: "en_admission e3 = (en_admission ?e2)
         \<lparr>as_admitted := as_admitted (en_admission ?e2) + (if r = kAccepted then 1 else 0),
          as_rejected := as_rejected (en_admission ?e2) + (if r = kAccepted then 0 else 1),
          as_lane_full := as_lane_full (en_admission ?e2) + (if r = kLaneFull then 1 else 0)\<rparr>"
      using conjunct2 [OF A(3) [unfolded admission_effect_def]] by (rule ssubst) simp
    have "en_health e3 = en_health e \<or> (r \<in> {kBodyTooLarge, kLaneFull} \<and> (\<exists>m. en_health e3 = SetFatal m (en_health e)))"
      using conjunct1 [OF A(3) [unfolded admission_effect_def]] by (simp split: if_splits)
    moreover have "r = kAccepted \<longleftrightarrow> engine_open e \<and> accepts hb body e" using A(1) True acc by simp
    moreover have "i < length (class_lanes t e) \<longrightarrow>
        queue_of e' t i = queue_of e t i @ (if r = kAccepted then added hb body now t i e else [])"
      using A(4) [of i t] unfolding q L add by blast
    ultimately show ?thesis using rej by (simp add: e3(2))
  qed
  then show "r = kAccepted \<longleftrightarrow> engine_open e \<and> accepts hb body e"
    "i < length (class_lanes t e) \<Longrightarrow>
      queue_of e' t i = queue_of e t i @ (if r = kAccepted then added hb body now t i e else [])"
    "en_health e' = en_health e \<or> (r \<in> {kBodyTooLarge, kLaneFull} \<and> (\<exists>m. en_health e' = SetFatal m (en_health e)))"
    "as_rejected (en_admission e') = as_rejected (en_admission e) + (if r = kAccepted then 0 else 1)"
    by blast+
qed

text \<open>
  C6. A callback of the single producer is accepted exactly when the gate is open, the header and
  the body form an enabled, supported, well-sized message with a route, and the lane of that route
  has room.  Then that lane, and no other, gets exactly this message with the next ingress sequence;
  a refused call changes no lane.
\<close>

theorem engine_admit_exact:
  assumes "engine_run cfg cat w" and "config_sizes cfg" and "\<not> en_callback_active (wd_engine w)"
    and "Admit hb body now (wd_engine w) = (r, e')"
  shows "(r = kAccepted \<longleftrightarrow> engine_open (wd_engine w) \<and> accepts hb body (wd_engine w)) \<and>
    (\<forall>t i. i < length (class_lanes t (wd_engine w)) \<longrightarrow> queue_of e' t i = queue_of (wd_engine w) t i @
       (if r = kAccepted then added hb body now t i (wd_engine w) else []))"
  using Admit_call(1,2) [OF world_okD(2) [OF engine_run_ok [OF assms(1,2)]] assms(3,4)] by blast

theorem engine_admit_exact_witness:
  "\<exists>w e'. engine_run demo_cfg demo_catalog w \<and>
    Admit demo_header (sz_order_bytes demo_order) 5 (wd_engine w) = (kAccepted, e')"
proof -
  obtain r e' where adm: "Admit demo_header (sz_order_bytes demo_order) 5 (wd_engine demo_world) = (r, e')" by fastforce
  have "\<not> en_callback_active (wd_engine demo_world)" "engine_open (wd_engine demo_world)"
    "accepts demo_header (sz_order_bytes demo_order) (wd_engine demo_world)"
    using demo_accepts by (simp_all add: demo_world_fields)
  then have "r = kAccepted" using engine_admit_exact [OF demo_run demo_sizes _ adm] by blast
  then show ?thesis using demo_run adm by blast
qed



section \<open>Creation\<close>

text \<open>
  \<open>Create\<close> succeeds on every configuration that \<open>ValidateConfig\<close> accepts and whose queue
  capacities can be rounded up to a power of two, and fails with the message of the failed check on
  every other configuration it rejects; a created engine is idle, healthy and refuses messages.
\<close>

theorem engine_create:
  assumes "ValidateConfig cfg cat = None \<Longrightarrow> dispatch_queue_capacity cfg \<le> SIZE_MAX div 2 \<and>
      diagnostic_queue_capacity cfg \<le> SIZE_MAX div 2 \<and> late_recovery_queue_capacity cfg \<le> SIZE_MAX div 2"
  shows "case ValidateConfig cfg cat of Some message \<Rightarrow> Create cfg cat = Inl message
    | None \<Rightarrow> \<exists>e. Create cfg cat = Inr e \<and> hl_healthy (en_health e) \<and> \<not> engine_open e \<and> \<not> en_started e"
proof (cases "ValidateConfig cfg cat")
  case None
  then obtain e where "Create cfg cat = Inr e" using Create_succeeds assms by blast
  then show ?thesis using None Create_fields [of cfg cat e] by (simp add: engine_open_def initial_health_def)
qed (simp add: Create_def)

theorem engine_create_witness:
  "\<exists>e. Create demo_cfg demo_catalog = Inr e \<and> hl_healthy (en_health e) \<and> \<not> engine_open e"
  using engine_create [of demo_cfg demo_catalog] demo_valid by (auto simp: demo_cfg_def SIZE_MAX_def)

end
