(* ===== verification/Sdk_Runtime.thy ===== *)
theory Sdk_Runtime
  imports Engine_Claims
begin

text \<open>
  Component \<open>src/sdk_runtime.cpp\<close>: the message handler the vendor SDK calls, and the session that
  loads the SDK, connects and shuts it down.  The SDK itself is a parameter: what its functions
  return or throw is a record of outcomes, and a session is the list of the calls it made.
\<close>

section \<open>The message handler\<close>

text \<open>A vendor function returns or throws; \<open>Some what\<close> is a \<open>std::exception\<close>.\<close>

datatype 'a vendor = Returns 'a | Throws "string option"

text \<open>\<open>None\<close> is a null pointer; a body is the memory the pointer leads to.\<close>

record MdlMessage =
  md_GetHead :: "byte list option vendor"
  md_GetBody :: "byte list option vendor"

record MdlMessageHandler =
  mh_has_engine :: bool
  mh_accepting :: bool
  mh_active_callbacks :: u64
  mh_last_result :: AdmissionResult
  mh_failed :: bool

definition new_handler :: "bool \<Rightarrow> MdlMessageHandler" where
  "new_handler has_engine = \<lparr>mh_has_engine = has_engine, mh_accepting = True, mh_active_callbacks = 0,
     mh_last_result = kAccepted, mh_failed = False\<rparr>"

definition handler_result :: "AdmissionResult \<Rightarrow> MdlMessageHandler \<Rightarrow> MdlMessageHandler" where
  "handler_result r h = h\<lparr>mh_last_result := r\<rparr>"

definition handler_failed :: "MdlMessageHandler \<Rightarrow> MdlMessageHandler" where
  "handler_failed h = h\<lparr>mh_failed := True, mh_last_result := kInternalFailure\<rparr>"

text \<open>The part of \<open>OnMessage\<close> that is under the callback guard.\<close>

definition handle_message ::
  "MdlMessage option \<Rightarrow> u64 \<Rightarrow> MdlMessageHandler \<Rightarrow> Engine \<Rightarrow> MdlMessageHandler \<times> Engine" where
  "handle_message message callback_entry_ns h e =
    (if \<not> mh_accepting h \<or> \<not> mh_has_engine h then (handler_result kNotRunning h, e)
     else case message of
       None \<Rightarrow> (handler_result kNullMessage h, e)
     | Some m \<Rightarrow> (case md_GetHead m of
         Throws what \<Rightarrow> (handler_failed h, e)
       | Returns None \<Rightarrow> (handler_result kHeaderTruncated h, e)
       | Returns (Some vendor_head) \<Rightarrow>
           let header = take kMdlHeaderBytes vendor_head in
           case ParseMdlHeader header of
             None \<Rightarrow> (handler_result kHeaderInvalid h, e)
           | Some parsed \<Rightarrow>
               if unat (head_size parsed) \<noteq> kMdlHeaderBytes \<or> unat (message_size parsed) < kMdlHeaderBytes
               then (handler_result kHeaderInvalid h, e)
               else
                 let body_size = unat (message_size parsed) - kMdlHeaderBytes in
                 (case md_GetBody m of
                    Throws what \<Rightarrow> (handler_failed h, e)
                  | Returns body_pointer \<Rightarrow>
                      if body_size \<noteq> 0 \<and> body_pointer = None then (handler_result kBodyTruncated h, e)
                      else
                        let body = take body_size (case body_pointer of None \<Rightarrow> [] | Some memory \<Rightarrow> memory);
                            (result, e1) = Admit header body callback_entry_ns e in
                        (handler_result result h, e1))))"

definition callback_begin :: "MdlMessageHandler \<Rightarrow> MdlMessageHandler" where
  "callback_begin h = h\<lparr>mh_active_callbacks := mh_active_callbacks h + 1\<rparr>"

definition callback_end :: "MdlMessageHandler \<Rightarrow> MdlMessageHandler" where
  "callback_end h = h\<lparr>mh_active_callbacks := mh_active_callbacks h - 1\<rparr>"

definition OnMessage ::
  "MdlMessage option \<Rightarrow> u64 \<Rightarrow> MdlMessageHandler \<Rightarrow> Engine \<Rightarrow> MdlMessageHandler \<times> Engine" where
  "OnMessage message callback_entry_ns h e =
    (let (h1, e1) = handle_message message callback_entry_ns (callback_begin h) e in (callback_end h1, e1))"

definition StopAccepting :: "MdlMessageHandler \<Rightarrow> MdlMessageHandler" where
  "StopAccepting h = h\<lparr>mh_accepting := False\<rparr>"

section \<open>The SDK\<close>

text \<open>What the dynamic linker, the SDK and the allocator answer; \<open>Inl\<close> is the error text, if any.\<close>

record Sdk =
  lib_dlopen :: "string option + unit"
  lib_dlsym :: "string option + unit"
  lib_create :: "bool vendor"
  lib_enable_log :: "unit vendor"
  lib_create_subscriber :: "bool vendor"
  lib_setter :: "nat \<Rightarrow> unit vendor"
  lib_add_subscription :: "MessageKey \<Rightarrow> unit vendor"
  lib_connect :: "string option vendor"
  lib_shutdown :: "unit vendor"
  lib_make_impl :: "unit vendor"

datatype SdkEvent = Sdk_dlopen | Sdk_dlclose | Sdk_CreateManager | Sdk_CreateSubscriber
  | Sdk_AddSubscription MessageKey | Sdk_Connect | Handler_StopAccepting | Sdk_ManagerShutdown
  | Handler_Drained | Sdk_ReleaseSubscriber | Sdk_ReleaseManager

record PhysicalSdkConfig =
  pc_shared_library :: string
  pc_server_address :: string
  pc_user_name :: string
  pc_work_threads :: int
  pc_io_threads :: int
  pc_heartbeat_interval_seconds :: u32
  pc_heartbeat_timeout_seconds :: u32
  pc_sdk_console_log :: bool
  pc_enabled_streams :: StreamMask

definition default_sdk_config :: PhysicalSdkConfig where
  "default_sdk_config = \<lparr>pc_shared_library = [], pc_server_address = [], pc_user_name = [],
     pc_work_threads = 1, pc_io_threads = 1, pc_heartbeat_interval_seconds = 10,
     pc_heartbeat_timeout_seconds = 30, pc_sdk_console_log = False,
     pc_enabled_streams = kDefaultAShareL2StreamMask\<rparr>"

definition ValidCStringInput :: "string \<Rightarrow> bool \<Rightarrow> bool" where
  "ValidCStringInput value require_nonempty \<longleftrightarrow>
     (\<not> require_nonempty \<or> value \<noteq> []) \<and> CHR 0x00 \<notin> set value"

text \<open>
  \<open>QuiesceSdkCallbacks\<close> with a manager and a handler; \<open>None\<close> is \<open>std::terminate\<close>.  The SDK's
  shutdown returns when no further callback starts, so the wait for the running ones ends.
\<close>

definition QuiesceSdkCallbacks :: "Sdk \<Rightarrow> SdkEvent list option" where
  "QuiesceSdkCallbacks sdk =
    (case lib_shutdown sdk of
       Throws what \<Rightarrow> None
     | Returns u \<Rightarrow> Some [Handler_StopAccepting, Sdk_ManagerShutdown, Handler_Drained])"

section \<open>A session\<close>

record SdkSession =
  se_manager :: bool
  se_subscriber :: bool
  se_shutdown :: bool

definition session_release :: "SdkSession \<Rightarrow> SdkEvent list" where
  "session_release s = (if se_subscriber s then [Sdk_ReleaseSubscriber] else []) @
     (if se_manager s then [Sdk_ReleaseManager] else [])"

text \<open>\<open>Impl::Shutdown\<close>: the calls it makes.\<close>

definition Shutdown :: "Sdk \<Rightarrow> SdkSession \<Rightarrow> (SdkEvent list \<times> SdkSession) option" where
  "Shutdown sdk s =
    (if se_shutdown s then Some ([], s)
     else map_option (\<lambda>events. (events @ session_release s,
         \<lparr>se_manager = False, se_subscriber = False, se_shutdown = True\<rparr>)) (QuiesceSdkCallbacks sdk))"

datatype ConnectOutcome = Connected SdkSession | ConnectFailed string | Terminated

definition composition_error :: "string option \<Rightarrow> string" where
  "composition_error what = (case what of Some text \<Rightarrow> ''SDK composition failed: '' @ text
     | None \<Rightarrow> ''SDK composition failed unexpectedly'')"

text \<open>Quiescing and releasing on a failure after the manager was created.\<close>

definition connect_abandon ::
  "Sdk \<Rightarrow> bool \<Rightarrow> string \<Rightarrow> SdkEvent list \<Rightarrow> SdkEvent list \<times> ConnectOutcome" where
  "connect_abandon sdk subscriber error events =
    (case QuiesceSdkCallbacks sdk of
       None \<Rightarrow> (events @ [Handler_StopAccepting], Terminated)
     | Some quiet \<Rightarrow> (events @ quiet @ (if subscriber then [Sdk_ReleaseSubscriber] else []) @ [Sdk_ReleaseManager],
         ConnectFailed error))"

text \<open>The subscription loop over \<open>kSupportedMessageKeys\<close>.\<close>

fun add_subscriptions :: "Sdk \<Rightarrow> StreamMask \<Rightarrow> MessageKey list \<Rightarrow> SdkEvent list \<times> string option option" where
  "add_subscriptions sdk streams [] = ([], None)"
| "add_subscriptions sdk streams (key # keys) =
    (if StreamEnabled streams key
     then (case lib_add_subscription sdk key of
         Throws what \<Rightarrow> ([], Some what)
       | Returns u \<Rightarrow> (let (events, thrown) = add_subscriptions sdk streams keys in
           (Sdk_AddSubscription key # events, thrown)))
     else add_subscriptions sdk streams keys)"

text \<open>The eight setters before the subscriptions, in their order.\<close>

fun run_setters :: "Sdk \<Rightarrow> nat \<Rightarrow> nat \<Rightarrow> string option option" where
  "run_setters sdk k 0 = None"
| "run_setters sdk k (Suc n) = (case lib_setter sdk k of Throws what \<Rightarrow> Some what
     | Returns u \<Rightarrow> run_setters sdk (Suc k) n)"

definition kMaximumErrorBytes :: nat where
  "kMaximumErrorBytes = 4096"

definition connect_detail :: "string \<Rightarrow> string" where
  "connect_detail text = (if length text \<le> kMaximumErrorBytes then text
     else ''SDK error text exceeds 4096 bytes'')"

text \<open>From the subscriber to the session.\<close>

definition connect_subscriber :: "Sdk \<Rightarrow> PhysicalSdkConfig \<Rightarrow> SdkEvent list \<Rightarrow> SdkEvent list \<times> ConnectOutcome" where
  "connect_subscriber sdk cfg events =
    (case run_setters sdk 0 8 of
       Some what \<Rightarrow> connect_abandon sdk True (composition_error what) events
     | None \<Rightarrow>
         let (subscribed, thrown) = add_subscriptions sdk (pc_enabled_streams cfg) kSupportedMessageKeys;
             events1 = events @ subscribed in
         (case thrown of
            Some what \<Rightarrow> connect_abandon sdk True (composition_error what) events1
          | None \<Rightarrow> (case lib_connect sdk of
              Throws what \<Rightarrow> connect_abandon sdk True (composition_error what) events1
            | Returns connect_result \<Rightarrow>
                let events2 = events1 @ [Sdk_Connect] in
                (if connect_result \<noteq> None \<and> connect_result \<noteq> Some []
                 then connect_abandon sdk True (''SDK Connect failed: '' @ connect_detail (the connect_result)) events2
                 else (case lib_make_impl sdk of
                   Throws what \<Rightarrow> connect_abandon sdk True (composition_error what) events2
                 | Returns u \<Rightarrow> (events2,
                     Connected \<lparr>se_manager = True, se_subscriber = True, se_shutdown = False\<rparr>))))))"

definition connect_manager :: "Sdk \<Rightarrow> PhysicalSdkConfig \<Rightarrow> SdkEvent list \<Rightarrow> SdkEvent list \<times> ConnectOutcome" where
  "connect_manager sdk cfg events =
    (case lib_enable_log sdk of
       Throws what \<Rightarrow> connect_abandon sdk False (composition_error what) events
     | Returns u \<Rightarrow> (case lib_create_subscriber sdk of
         Throws what \<Rightarrow> connect_abandon sdk False (composition_error what) events
       | Returns False \<Rightarrow> connect_abandon sdk False ''SDK CreateSubscriber returned null'' events
       | Returns True \<Rightarrow> connect_subscriber sdk cfg (events @ [Sdk_CreateSubscriber])))"

definition sdk_config_ok :: "PhysicalSdkConfig \<Rightarrow> bool" where
  "sdk_config_ok cfg \<longleftrightarrow> \<not> (\<not> ValidCStringInput (pc_shared_library cfg) True \<or>
     \<not> ValidCStringInput (pc_server_address cfg) True \<or> \<not> ValidCStringInput (pc_user_name cfg) True \<or>
     pc_work_threads cfg \<le> 0 \<or> pc_io_threads cfg \<noteq> 1 \<or>
     pc_heartbeat_interval_seconds cfg = 0 \<or> pc_heartbeat_timeout_seconds cfg = 0 \<or>
     pc_enabled_streams cfg = 0 \<or> pc_enabled_streams cfg AND NOT kSupportedStreamMask \<noteq> 0)"

text \<open>
  The whole of \<open>Connect\<close>.  The code's test of the copied function pointer is left out: it is the
  symbol that was tested before.
\<close>

definition Connect :: "Sdk \<Rightarrow> PhysicalSdkConfig \<Rightarrow> bool \<Rightarrow> SdkEvent list \<times> ConnectOutcome" where
  "Connect sdk cfg has_handler =
    (if \<not> has_handler then ([], ConnectFailed ''MDL message handler is null'')
     else if \<not> sdk_config_ok cfg
     then ([], ConnectFailed ''invalid SDK path, address, credential, heartbeat, or thread configuration (io_threads must equal one)'')
     else case lib_dlopen sdk of
       Inl detail \<Rightarrow> ([], ConnectFailed (''dlopen SDK failed: '' @ (case detail of None \<Rightarrow> ''<no detail>'' | Some text \<Rightarrow> text)))
     | Inr u \<Rightarrow> (case lib_dlsym sdk of
         Inl detail \<Rightarrow> ([Sdk_dlopen, Sdk_dlclose], ConnectFailed
           (''dlsym DllCreateIOManager failed: '' @ (case detail of None \<Rightarrow> ''<null symbol>'' | Some text \<Rightarrow> text)))
       | Inr u \<Rightarrow> (case lib_create sdk of
           Throws what \<Rightarrow> ([Sdk_dlopen, Sdk_dlclose], ConnectFailed (composition_error what))
         | Returns False \<Rightarrow> ([Sdk_dlopen, Sdk_dlclose], ConnectFailed ''DllCreateIOManager returned null'')
         | Returns True \<Rightarrow> connect_manager sdk cfg [Sdk_dlopen, Sdk_CreateManager])))"

section \<open>What a callback does to the engine\<close>

text \<open>The header and the body of a message that the handler passes on.\<close>

definition vendor_message :: "MdlMessageHandler \<Rightarrow> MdlMessage option \<Rightarrow> byte list \<Rightarrow> byte list \<Rightarrow> bool" where
  "vendor_message h message header body \<longleftrightarrow> mh_accepting h \<and> mh_has_engine h \<and>
     (\<exists>m vendor_head pointer parsed. message = Some m \<and> md_GetHead m = Returns (Some vendor_head) \<and>
        header = take kMdlHeaderBytes vendor_head \<and> md_GetBody m = Returns pointer \<and>
        ParseMdlHeader header = Some parsed \<and> unat (head_size parsed) = kMdlHeaderBytes \<and>
        kMdlHeaderBytes \<le> unat (message_size parsed) \<and>
        (pointer = None \<longrightarrow> unat (message_size parsed) = kMdlHeaderBytes) \<and>
        body = take (unat (message_size parsed) - kMdlHeaderBytes) (case pointer of None \<Rightarrow> [] | Some memory \<Rightarrow> memory))"

text \<open>The memory behind the body pointer holds the declared bytes.\<close>

definition memory_ok :: "MdlMessage option \<Rightarrow> bool" where
  "memory_ok message \<longleftrightarrow> (case message of None \<Rightarrow> True | Some m \<Rightarrow>
     (case (md_GetHead m, md_GetBody m) of
        (Returns (Some vendor_head), Returns (Some memory)) \<Rightarrow>
          (case ParseMdlHeader (take kMdlHeaderBytes vendor_head) of
             None \<Rightarrow> True | Some parsed \<Rightarrow> unat (message_size parsed) - kMdlHeaderBytes \<le> length memory)
      | _ \<Rightarrow> True))"

lemma handle_message_cases:
  assumes "handle_message message now h e = (h', e')"
  obtains (refused) "e' = e" "mh_last_result h' \<noteq> kAccepted" "mh_active_callbacks h' = mh_active_callbacks h"
      "\<And>header body. \<not> vendor_message h message header body"
  | (passed) header body r where "vendor_message h message header body"
      "Admit header body now e = (r, e')" "h' = handler_result r h"
  using assms
  by (auto simp: handle_message_def vendor_message_def handler_result_def handler_failed_def Let_def
      split: if_splits option.splits vendor.splits prod.splits)

lemma vendor_message_unique:
  "vendor_message h message header body \<Longrightarrow> vendor_message h message header' body' \<Longrightarrow> header' = header \<and> body' = body"
  by (auto simp: vendor_message_def)

text \<open>The header checks of the engine that the handler has done before.\<close>

lemma vendor_message_admit:
  assumes v: "vendor_message h message header body" and mem: "memory_ok message"
    and adm: "Admit header body now e = (r, e')" and idle: "\<not> en_callback_active e"
  shows "r \<notin> {kHeaderTruncated, kHeaderInvalid, kBodySizeMismatch, kConcurrentCallback}"
proof -
  from v obtain parsed where p: "ParseMdlHeader header = Some parsed" "unat (head_size parsed) = kMdlHeaderBytes"
    "kMdlHeaderBytes \<le> unat (message_size parsed)"
    and len: "length body = unat (message_size parsed) - kMdlHeaderBytes"
    using mem by (auto simp: vendor_message_def memory_ok_def split: option.splits)
  let ?e2 = "e\<lparr>en_admission := (en_admission e)\<lparr>as_callbacks := as_callbacks (en_admission e) + 1\<rparr>,
           en_callback_active := True\<rparr>"
  have "r = kNotRunning \<or> r = fst (Admit_message header body now ?e2)"
    using adm Admit_idle [OF idle, of header body now]
    by (auto simp: Let_def admission_reject_def split: if_splits prod.splits)
  moreover have "fst (Admit_message header body now x) \<notin> {kHeaderTruncated, kHeaderInvalid, kBodySizeMismatch, kConcurrentCallback}" for x
    using p len
    by (auto simp: Admit_message_def Admit_publish_def admission_reject_def Let_def split: option.split prod.split)
  ultimately show ?thesis by auto
qed

lemma vendor_message_begin: "vendor_message (callback_begin h) message header body = vendor_message h message header body"
  by (simp add: vendor_message_def callback_begin_def)

text \<open>
  C8. What an SDK callback does.  A call of \<open>OnMessage\<close> either leaves the engine as it was and records
  a refusal, or hands the engine exactly the 23 header octets and the declared body of the message,
  and then the engine never refuses it for its header or its length.  The message is recorded as
  accepted exactly when the handler accepts, the message is well formed, the gate of the engine is
  open and the engine accepts it; then its lane gets exactly this message and no other lane changes.
  The count of running callbacks is what it was.
\<close>

theorem on_message_exact:
  assumes run: "engine_run cfg cat w" and sizes: "config_sizes cfg" and idle: "\<not> en_callback_active (wd_engine w)"
    and mem: "memory_ok message" and on: "OnMessage message now h (wd_engine w) = (h', e')"
  shows "mh_active_callbacks h' = mh_active_callbacks h \<and>
    (mh_last_result h' = kAccepted \<longleftrightarrow> (\<exists>header body. vendor_message h message header body \<and>
       engine_open (wd_engine w) \<and> accepts header body (wd_engine w))) \<and>
    (e' = wd_engine w \<and> mh_last_result h' \<noteq> kAccepted \<or>
     (\<exists>header body. vendor_message h message header body \<and>
        Admit header body now (wd_engine w) = (mh_last_result h', e') \<and>
        mh_last_result h' \<notin> {kHeaderTruncated, kHeaderInvalid, kBodySizeMismatch, kConcurrentCallback} \<and>
        (\<forall>t i. i < length (class_lanes t (wd_engine w)) \<longrightarrow> queue_of e' t i = queue_of (wd_engine w) t i @
           (if mh_last_result h' = kAccepted then added header body now t i (wd_engine w) else []))))"
proof -
  obtain h1 where h1: "handle_message message now (callback_begin h) (wd_engine w) = (h1, e')" "h' = callback_end h1"
    using on by (auto simp: OnMessage_def split: prod.splits)
  have last: "mh_last_result h' = mh_last_result h1" by (simp add: h1(2) callback_end_def)
  from h1(1) show ?thesis
  proof (cases rule: handle_message_cases)
    case refused
    then show ?thesis by (simp add: last vendor_message_begin) (simp add: h1(2) callback_end_def callback_begin_def)
  next
    case (passed header body r)
    have v: "vendor_message h message header body" using passed(1) by (simp only: vendor_message_begin)
    have r: "mh_last_result h' = r" by (simp add: last passed(3) handler_result_def)
    note ok = world_okD(2) [OF engine_run_ok [OF run sizes]]
    note A = Admit_call(1,2) [OF ok idle passed(2)] and N = vendor_message_admit [OF v mem passed(2) idle]
    have "mh_active_callbacks h' = mh_active_callbacks h"
      by (simp add: h1(2) passed(3) handler_result_def callback_end_def callback_begin_def)
    moreover have "r = kAccepted \<longleftrightarrow> (\<exists>header body. vendor_message h message header body \<and>
       engine_open (wd_engine w) \<and> accepts header body (wd_engine w))"
      using A(1) v vendor_message_unique [OF v] by blast
    ultimately show ?thesis unfolding r using v passed(2) N A(2) by blast
  qed
qed

definition demo_vendor_message :: "byte list \<Rightarrow> byte list \<Rightarrow> MdlMessage option" where
  "demo_vendor_message header body = Some \<lparr>md_GetHead = Returns (Some header), md_GetBody = Returns (Some body)\<rparr>"

theorem on_message_exact_witness:
  "\<exists>h' e'. OnMessage (demo_vendor_message demo_header (sz_order_bytes demo_order)) 5 (new_handler True) (wd_engine demo_world)
      = (h', e') \<and> mh_last_result h' = kAccepted"
proof -
  let ?m = "demo_vendor_message demo_header (sz_order_bytes demo_order)" and ?p = "mv_header demo_message"
  obtain h' e' where on: "OnMessage ?m 5 (new_handler True) (wd_engine demo_world) = (h', e')" by fastforce
  obtain route where a: "admissible demo_cfg demo_header (sz_order_bytes demo_order) ?p True route"
    using demo_admissible by blast
  have head: "take kMdlHeaderBytes demo_header = demo_header" by simp
  have p: "ParseMdlHeader demo_header = Some ?p" "unat (head_size ?p) = kMdlHeaderBytes"
    "unat (message_size ?p) = kMdlHeaderBytes + length (sz_order_bytes demo_order)"
    using a by (simp_all add: admissible_def)
  have v: "vendor_message (new_handler True) ?m demo_header (sz_order_bytes demo_order)"
    using p head by (auto simp: vendor_message_def demo_vendor_message_def new_handler_def)
  have mem: "memory_ok ?m" using p head by (simp add: memory_ok_def demo_vendor_message_def)
  have idle: "\<not> en_callback_active (wd_engine demo_world)" and opened: "engine_open (wd_engine demo_world)"
    and acc: "accepts demo_header (sz_order_bytes demo_order) (wd_engine demo_world)"
    using demo_accepts by (simp_all add: demo_world_fields)
  have "mh_last_result h' = kAccepted"
    using on_message_exact [OF demo_run demo_sizes idle mem on] v opened acc by blast
  then show ?thesis using on by blast
qed

section \<open>What a connection attempt leaves behind\<close>

definition sdk_quiet :: "SdkEvent list" where
  "sdk_quiet = [Handler_StopAccepting, Sdk_ManagerShutdown, Handler_Drained]"

definition sdk_releases :: "SdkEvent set" where
  "sdk_releases = {Sdk_ReleaseSubscriber, Sdk_ReleaseManager}"

text \<open>Calls made with a live manager and \<open>n\<close> subscribers, none of them released.\<close>

definition sdk_live :: "nat \<Rightarrow> SdkEvent list \<Rightarrow> bool" where
  "sdk_live n events \<longleftrightarrow> Sdk_dlopen \<in> set events \<and> count_list events Sdk_CreateManager = 1 \<and>
     count_list events Sdk_CreateSubscriber = n \<and>
     set events \<inter> (sdk_releases \<union> {Sdk_dlclose}) = {}"

text \<open>A failed attempt: everything that was created was released, after the callbacks were quiesced.\<close>

definition sdk_abandoned :: "SdkEvent list \<Rightarrow> bool" where
  "sdk_abandoned events \<longleftrightarrow>
     count_list events Sdk_ReleaseManager = count_list events Sdk_CreateManager \<and>
     count_list events Sdk_ReleaseSubscriber = count_list events Sdk_CreateSubscriber \<and>
     (Sdk_dlclose \<in> set events \<longleftrightarrow> Sdk_dlopen \<in> set events \<and> Sdk_CreateManager \<notin> set events) \<and>
     (Sdk_CreateManager \<in> set events \<longrightarrow> (\<exists>calls releases. events = calls @ sdk_quiet @ releases \<and>
        set calls \<inter> sdk_releases = {} \<and> set releases \<subseteq> sdk_releases))"

definition failed_safely :: "Sdk \<Rightarrow> SdkEvent list \<times> ConnectOutcome \<Rightarrow> bool" where
  "failed_safely sdk r \<longleftrightarrow> (case r of (events, outcome) \<Rightarrow> (case outcome of
     ConnectFailed error \<Rightarrow> sdk_abandoned events
   | Terminated \<Rightarrow> \<exists>what. lib_shutdown sdk = Throws what
   | Connected s \<Rightarrow> False))"

lemma count_list_notin [simp]: "x \<notin> set xs \<Longrightarrow> count_list xs x = 0"
  by (induction xs) auto

lemma connect_abandon_safe:
  assumes "sdk_live (if sub then 1 else 0) events"
  shows "failed_safely sdk (connect_abandon sdk sub error events)"
proof (cases "lib_shutdown sdk")
  case (Throws what)
  then show ?thesis by (simp add: failed_safely_def connect_abandon_def QuiesceSdkCallbacks_def)
next
  case (Returns u)
  let ?r = "(if sub then [Sdk_ReleaseSubscriber] else []) @ [Sdk_ReleaseManager]"
  have live: "Sdk_ReleaseManager \<notin> set events" "Sdk_ReleaseSubscriber \<notin> set events" "Sdk_dlclose \<notin> set events"
    "set events \<inter> sdk_releases = {}" "count_list events Sdk_CreateManager = 1"
    "count_list events Sdk_CreateSubscriber = (if sub then 1 else 0)"
    using assms by (auto simp: sdk_live_def sdk_releases_def)
  have made: "Sdk_CreateManager \<in> set events" by (rule ccontr) (use live(5) in simp)
  have r: "set ?r \<subseteq> sdk_releases" by (auto simp: sdk_releases_def)
  have "\<exists>calls releases. events @ sdk_quiet @ ?r = calls @ sdk_quiet @ releases \<and>
      set calls \<inter> sdk_releases = {} \<and> set releases \<subseteq> sdk_releases"
    by (rule exI [of _ events], rule exI [of _ ?r]) (use live(4) r in blast)
  then have "sdk_abandoned (events @ sdk_quiet @ ?r)"
    unfolding sdk_abandoned_def using live made by (simp add: sdk_quiet_def)
  then show ?thesis
    using Returns by (simp add: failed_safely_def connect_abandon_def QuiesceSdkCallbacks_def sdk_quiet_def)
qed

lemma add_subscriptions_events:
  "add_subscriptions sdk streams keys = (events, thrown) \<Longrightarrow>
     set events \<subseteq> range Sdk_AddSubscription \<and>
     (thrown = None \<longrightarrow> events = map Sdk_AddSubscription (filter (StreamEnabled streams) keys))"
  by (induction keys arbitrary: events thrown)
    (auto split: if_splits vendor.splits prod.splits)

lemma sdk_live_append:
  "sdk_live n events \<Longrightarrow> set added_calls \<subseteq> insert Sdk_Connect (range Sdk_AddSubscription) \<Longrightarrow> sdk_live n (events @ added_calls)"
proof -
  assume live: "sdk_live n events" and added_calls: "set added_calls \<subseteq> insert Sdk_Connect (range Sdk_AddSubscription)"
  have "Sdk_CreateManager \<notin> set added_calls" "Sdk_CreateSubscriber \<notin> set added_calls"
    "set added_calls \<inter> (sdk_releases \<union> {Sdk_dlclose}) = {}" using added_calls by (auto simp: sdk_releases_def)
  then show ?thesis using live by (auto simp: sdk_live_def)
qed

lemma connect_subscriber_safe:
  assumes live: "sdk_live 1 events"
  shows "failed_safely sdk (connect_subscriber sdk cfg events) \<or>
    connect_subscriber sdk cfg events = (events @ map Sdk_AddSubscription
        (filter (StreamEnabled (pc_enabled_streams cfg)) kSupportedMessageKeys) @ [Sdk_Connect],
      Connected \<lparr>se_manager = True, se_subscriber = True, se_shutdown = False\<rparr>)"
proof -
  obtain subscribed thrown where sub:
    "add_subscriptions sdk (pc_enabled_streams cfg) kSupportedMessageKeys = (subscribed, thrown)" by fastforce
  note A = add_subscriptions_events [OF sub]
  have live1: "sdk_live 1 (events @ subscribed)" using A by (intro sdk_live_append [OF live]) auto
  have live2: "sdk_live 1 (events @ subscribed @ [Sdk_Connect])" using A by (intro sdk_live_append [OF live]) auto
  have F: "failed_safely sdk (connect_abandon sdk True error calls)" if "sdk_live 1 calls" for error calls
    by (rule connect_abandon_safe) (use that in simp)
  show ?thesis
  proof (cases thrown)
    case (Some what)
    then show ?thesis
      using F [OF live] F [OF live1] by (simp add: connect_subscriber_def sub split: option.split)
  next
    case None
    then have subscribed: "subscribed = map Sdk_AddSubscription (filter (StreamEnabled (pc_enabled_streams cfg)) kSupportedMessageKeys)"
      using A by blast
    show ?thesis
    proof (cases "lib_connect sdk")
      case (Throws what)
      then show ?thesis
        using None F [OF live] F [OF live1] by (simp add: connect_subscriber_def sub split: option.split)
    next
      case (Returns connect_result)
      then show ?thesis unfolding subscribed [symmetric]
        using None F [OF live] F [OF live2]
        by (simp add: connect_subscriber_def sub Let_def split: option.split vendor.split)
    qed
  qed
qed

text \<open>
  C23. What a connection attempt leaves behind, whatever the linker and the SDK answer.  A failed
  attempt has released every object it created, and only after the handler was stopped, the manager
  shut down and the running callbacks drained; the library is unloaded exactly when the manager was
  never created.  The process ends only if the SDK's shutdown throws.  A successful attempt had a
  handler and a valid configuration, made the calls in their order and subscribed to exactly the
  enabled streams; its \<open>Shutdown\<close> quiesces, releases both objects and does nothing a second time.
\<close>

theorem sdk_connect_safe:
  assumes "Connect sdk cfg has_handler = (events, outcome)"
  shows "case outcome of
      ConnectFailed error \<Rightarrow> sdk_abandoned events
    | Terminated \<Rightarrow> \<exists>what. lib_shutdown sdk = Throws what
    | Connected s \<Rightarrow> has_handler \<and> sdk_config_ok cfg \<and>
        events = [Sdk_dlopen, Sdk_CreateManager, Sdk_CreateSubscriber] @ map Sdk_AddSubscription
          (filter (StreamEnabled (pc_enabled_streams cfg)) kSupportedMessageKeys) @ [Sdk_Connect] \<and>
        (\<forall>calls s'. Shutdown sdk s = Some (calls, s') \<longrightarrow>
           calls = sdk_quiet @ [Sdk_ReleaseSubscriber, Sdk_ReleaseManager] \<and> Shutdown sdk s' = Some ([], s'))"
proof -
  have early: "sdk_abandoned []" "sdk_abandoned [Sdk_dlopen, Sdk_dlclose]" by (simp_all add: sdk_abandoned_def)
  have live: "sdk_live 0 [Sdk_dlopen, Sdk_CreateManager]" "sdk_live 1 [Sdk_dlopen, Sdk_CreateManager, Sdk_CreateSubscriber]"
    by (simp_all add: sdk_live_def sdk_releases_def)
  note S = connect_subscriber_safe [OF live(2), of sdk cfg] 
  have F: "failed_safely sdk (connect_abandon sdk False error [Sdk_dlopen, Sdk_CreateManager])" for error
    by (rule connect_abandon_safe) (simp add: live(1))
  have M: "failed_safely sdk (connect_manager sdk cfg [Sdk_dlopen, Sdk_CreateManager]) \<or>
      connect_manager sdk cfg [Sdk_dlopen, Sdk_CreateManager] = ([Sdk_dlopen, Sdk_CreateManager, Sdk_CreateSubscriber] @
        map Sdk_AddSubscription (filter (StreamEnabled (pc_enabled_streams cfg)) kSupportedMessageKeys) @ [Sdk_Connect],
        Connected \<lparr>se_manager = True, se_subscriber = True, se_shutdown = False\<rparr>)"
    using S F by (simp add: connect_manager_def split: vendor.split bool.split)
  have down: "calls = sdk_quiet @ [Sdk_ReleaseSubscriber, Sdk_ReleaseManager] \<and> Shutdown sdk s' = Some ([], s')"
    if "Shutdown sdk \<lparr>se_manager = True, se_subscriber = True, se_shutdown = False\<rparr> = Some (calls, s')" for calls s'
    using that by (auto simp: Shutdown_def QuiesceSdkCallbacks_def session_release_def sdk_quiet_def split: vendor.splits)
  show ?thesis
    using assms early M down
    by (auto simp: Connect_def failed_safely_def split: if_splits sum.splits vendor.splits bool.splits ConnectOutcome.splits)
qed

definition demo_sdk :: Sdk where
  "demo_sdk = \<lparr>lib_dlopen = Inr (), lib_dlsym = Inr (), lib_create = Returns True, lib_enable_log = Returns (),
     lib_create_subscriber = Returns True, lib_setter = (\<lambda>k. Returns ()), lib_add_subscription = (\<lambda>key. Returns ()),
     lib_connect = Returns None, lib_shutdown = Returns (), lib_make_impl = Returns ()\<rparr>"

definition demo_sdk_config :: PhysicalSdkConfig where
  "demo_sdk_config = default_sdk_config\<lparr>pc_shared_library := ''libmdl.so'', pc_server_address := ''10.0.0.1:9000'',
     pc_user_name := ''reader''\<rparr>"

lemma demo_sdk_answers [simp]:
  "lib_dlopen demo_sdk = Inr ()" "lib_dlsym demo_sdk = Inr ()" "lib_create demo_sdk = Returns True"
  "lib_enable_log demo_sdk = Returns ()" "lib_create_subscriber demo_sdk = Returns True"
  "lib_setter demo_sdk k = Returns ()" "lib_add_subscription demo_sdk key = Returns ()"
  "lib_connect demo_sdk = Returns None" "lib_shutdown demo_sdk = Returns ()" "lib_make_impl demo_sdk = Returns ()"
  by (simp_all add: demo_sdk_def)

lemma demo_subscriptions: "\<exists>events. add_subscriptions demo_sdk streams keys = (events, None)"
proof (induction keys)
  case (Cons key keys)
  then obtain events where "add_subscriptions demo_sdk streams keys = (events, None)" by blast
  then show ?case by simp
qed simp

lemma demo_setters: "run_setters demo_sdk k n = None"
  by (induction n arbitrary: k) simp_all

lemma demo_sdk_config_ok: "sdk_config_ok demo_sdk_config"
  by code_simp

theorem sdk_connect_safe_witness:
  "\<exists>events s calls s'. Connect demo_sdk demo_sdk_config True = (events, Connected s) \<and> last events = Sdk_Connect \<and>
     Shutdown demo_sdk s = Some (calls, s') \<and> Shutdown demo_sdk s' = Some ([], s') \<and>
     last calls = Sdk_ReleaseManager"
proof -
  obtain added_calls where "add_subscriptions demo_sdk (pc_enabled_streams demo_sdk_config) kSupportedMessageKeys = (added_calls, None)"
    using demo_subscriptions by blast
  then obtain events s where c: "Connect demo_sdk demo_sdk_config True = (events, Connected s)" and s: "\<not> se_shutdown s"
    by (auto simp: Connect_def demo_sdk_config_ok connect_manager_def connect_subscriber_def demo_setters)
  obtain calls s' where "Shutdown demo_sdk s = Some (calls, s')"
    using s by (simp add: Shutdown_def QuiesceSdkCallbacks_def)
  then show ?thesis
    using c sdk_connect_safe [OF c] by fastforce
qed

end
