(* ===== verification/Ingest_Options.thy ===== *)
theory Ingest_Options
  imports Stream_Config Sdk_Runtime
begin

text \<open>
  Component \<open>apps/mdl_ingestd.cpp\<close>: the command line and the set-up of the process up to the engine
  and the SDK configuration it runs with.  The file system is a function from paths to contents,
  \<open>None\<close> for a file that cannot be opened.
\<close>

section \<open>Options\<close>

record Options =
  op_engine :: EngineConfig
  op_sdk :: PhysicalSdkConfig
  op_catalog_path :: string
  op_stream_config_path :: string
  op_allow_discard_after_dispatch :: bool
  op_validate_only :: bool

definition default_engine_config :: EngineConfig where
  "default_engine_config = \<lparr>trade_date = 0, start_mode = StartMode_kFromOpen,
     enabled_streams = kDefaultAShareL2StreamMask,
     tick_decoder_lanes = 12, snapshot_decoder_lanes = 4, instrument_workers = 16,
     tick_slots_per_lane = 32768, snapshot_slots_per_lane = 512,
     maximum_tick_body_bytes = 512, maximum_snapshot_body_bytes = 64 * 1024,
     dispatch_queue_capacity = 1024, diagnostic_queue_capacity = 4096, late_recovery_queue_capacity = 4096,
     maximum_channels_per_tick_lane = 256, reorder_entries_per_channel = 4096, maximum_reorder_span = 4096,
     partial_initial_hold_ns = 200000, partial_gap_wait_ns = 500000, from_open_gap_wait_ns = 500000,
     recovery_timer_scan_ns = 25000,
     cfg_maximum_text_bytes = kMaximumIdentityBytes, cfg_maximum_depth_items = 4096,
     cfg_maximum_queue_items = 1000000, first_decoder_cpu = -1\<rparr>"

definition default_options :: Options where
  "default_options = \<lparr>op_engine = default_engine_config, op_sdk = default_sdk_config, op_catalog_path = [],
     op_stream_config_path = ''config/production.streams.conf'',
     op_allow_discard_after_dispatch = False, op_validate_only = False\<rparr>"

text \<open>\<open>ParseInteger\<close> at an unsigned type with the given maximum, and at \<open>int\<close>.\<close>

definition ParseInteger :: "nat \<Rightarrow> string \<Rightarrow> nat option" where
  "ParseInteger limit text =
    (if text = [] then None
     else case from_chars_unsigned limit text of
       Inl e \<Rightarrow> None
     | Inr (value, rest) \<Rightarrow> if rest \<noteq> [] then None else Some value)"

definition ParseIntegerSigned :: "string \<Rightarrow> int option" where
  "ParseIntegerSigned text =
    (if text = [] then None
     else case from_chars_int text of
       Inl e \<Rightarrow> None
     | Inr (value, rest) \<Rightarrow> if rest \<noteq> [] then None else Some value)"

section \<open>The command line\<close>

datatype OptionsResult = Options_Help | Options_Error string | Options_Parsed Options

record OptionState =
  os_parsed :: Options
  os_mode_set :: bool

definition on_engine :: "(EngineConfig \<Rightarrow> EngineConfig) \<Rightarrow> OptionState \<Rightarrow> OptionState" where
  "on_engine f st = st\<lparr>os_parsed := (os_parsed st)\<lparr>op_engine := f (op_engine (os_parsed st))\<rparr>\<rparr>"

definition on_sdk :: "(PhysicalSdkConfig \<Rightarrow> PhysicalSdkConfig) \<Rightarrow> OptionState \<Rightarrow> OptionState" where
  "on_sdk f st = st\<lparr>os_parsed := (os_parsed st)\<lparr>op_sdk := f (op_sdk (os_parsed st))\<rparr>\<rparr>"

definition on_options :: "(Options \<Rightarrow> Options) \<Rightarrow> OptionState \<Rightarrow> OptionState" where
  "on_options f st = st\<lparr>os_parsed := f (os_parsed st)\<rparr>"

text \<open>The \<open>next\<close> of the loop: the value, the error text and the arguments left.\<close>

fun next_value :: "string \<Rightarrow> string list \<Rightarrow> string \<times> string \<times> string list" where
  "next_value argument [] = ([], argument @ '' requires a value'', [])"
| "next_value argument (value # rest) = (value, [], rest)"

text \<open>A step ends the parse, or goes on with an error text (empty for none), arguments and state.\<close>

type_synonym option_step = "OptionsResult + string \<times> string list \<times> OptionState"

definition option_text :: "string \<Rightarrow> string list \<Rightarrow> (string \<Rightarrow> OptionState \<Rightarrow> OptionState) \<Rightarrow> OptionState \<Rightarrow> option_step" where
  "option_text argument rest store st =
    (let (value, error, rest1) = next_value argument rest in Inr (error, rest1, store value st))"

definition option_number ::
  "(string \<Rightarrow> 'n option) \<Rightarrow> string \<Rightarrow> string list \<Rightarrow> ('n \<Rightarrow> OptionState \<Rightarrow> OptionState) \<Rightarrow> OptionState \<Rightarrow> option_step" where
  "option_number parse argument rest store st =
    (let (value, error, rest1) = next_value argument rest in
     case parse value of
       None \<Rightarrow> Inl (Options_Error (''invalid '' @ argument))
     | Some n \<Rightarrow> Inr (error, rest1, store n st))"

definition option_mode :: "string \<Rightarrow> string list \<Rightarrow> OptionState \<Rightarrow> option_step" where
  "option_mode argument rest st =
    (let (value, error, rest1) = next_value argument rest in
     if value = ''from-open''
     then Inr (error, rest1, (on_engine (start_mode_update (\<lambda>_. StartMode_kFromOpen)) st)\<lparr>os_mode_set := True\<rparr>)
     else if value = ''partial''
     then Inr (error, rest1, (on_engine (start_mode_update (\<lambda>_. StartMode_kPartial)) st)\<lparr>os_mode_set := True\<rparr>)
     else Inl (Options_Error ''--mode must be from-open or partial''))"

definition parse_option :: "string \<Rightarrow> string list \<Rightarrow> OptionState \<Rightarrow> option_step" where
  "parse_option argument rest st =
    (if argument = ''--help'' then Inl Options_Help
     else if argument = ''--mode'' then option_mode argument rest st
     else if argument = ''--trade-date''
     then option_number (ParseInteger U32_MAX) argument rest (\<lambda>n. on_engine (trade_date_update (\<lambda>_. of_nat n))) st
     else if argument = ''--catalog''
     then option_text argument rest (\<lambda>value. on_options (op_catalog_path_update (\<lambda>_. value))) st
     else if argument = ''--stream-config''
     then option_text argument rest (\<lambda>value. on_options (op_stream_config_path_update (\<lambda>_. value))) st
     else if argument = ''--sdk-library''
     then option_text argument rest (\<lambda>value. on_sdk (pc_shared_library_update (\<lambda>_. value))) st
     else if argument = ''--server''
     then option_text argument rest (\<lambda>value. on_sdk (pc_server_address_update (\<lambda>_. value))) st
     else if argument = ''--user''
     then option_text argument rest (\<lambda>value. on_sdk (pc_user_name_update (\<lambda>_. value))) st
     else if argument = ''--tick-lanes''
     then option_number (ParseInteger SIZE_MAX) argument rest (\<lambda>n. on_engine (tick_decoder_lanes_update (\<lambda>_. n))) st
     else if argument = ''--snapshot-lanes''
     then option_number (ParseInteger SIZE_MAX) argument rest (\<lambda>n. on_engine (snapshot_decoder_lanes_update (\<lambda>_. n))) st
     else if argument = ''--instrument-workers''
     then option_number (ParseInteger SIZE_MAX) argument rest (\<lambda>n. on_engine (instrument_workers_update (\<lambda>_. n))) st
     else if argument = ''--first-decoder-cpu''
     then option_number ParseIntegerSigned argument rest (\<lambda>i. on_engine (first_decoder_cpu_update (\<lambda>_. i))) st
     else if argument = ''--partial-initial-hold-ns''
     then option_number (ParseInteger SIZE_MAX) argument rest (\<lambda>n. on_engine (partial_initial_hold_ns_update (\<lambda>_. of_nat n))) st
     else if argument = ''--partial-gap-wait-ns''
     then option_number (ParseInteger SIZE_MAX) argument rest (\<lambda>n. on_engine (partial_gap_wait_ns_update (\<lambda>_. of_nat n))) st
     else if argument = ''--from-open-gap-wait-ns''
     then option_number (ParseInteger SIZE_MAX) argument rest (\<lambda>n. on_engine (from_open_gap_wait_ns_update (\<lambda>_. of_nat n))) st
     else if argument = ''--sdk-work-threads''
     then option_number ParseIntegerSigned argument rest (\<lambda>i. on_sdk (pc_work_threads_update (\<lambda>_. i))) st
     else if argument = ''--sdk-console-log''
     then Inr ([], rest, on_sdk (pc_sdk_console_log_update (\<lambda>_. True)) st)
     else if argument = ''--allow-discard-after-dispatch''
     then Inr ([], rest, on_options (op_allow_discard_after_dispatch_update (\<lambda>_. True)) st)
     else if argument = ''--validate-only''
     then Inr ([], rest, on_options (op_validate_only_update (\<lambda>_. True)) st)
     else Inl (Options_Error (''unknown option: '' @ argument)))"

definition ParseOptions_end :: "OptionState \<Rightarrow> OptionsResult" where
  "ParseOptions_end st =
    (let parsed = os_parsed st in
     if \<not> os_mode_set st \<or> trade_date (op_engine parsed) = 0 \<or> op_catalog_path parsed = []
     then Options_Error ''--mode, --trade-date, and --catalog are required''
     else if \<not> op_validate_only parsed \<and> (pc_shared_library (op_sdk parsed) = [] \<or>
       pc_server_address (op_sdk parsed) = [] \<or> pc_user_name (op_sdk parsed) = [])
     then Options_Error ''physical mode requires --sdk-library, --server, and --user''
     else if \<not> op_validate_only parsed \<and> \<not> op_allow_discard_after_dispatch parsed
     then Options_Error ''this milestone requires --allow-discard-after-dispatch; no durable/Event sink has been connected yet''
     else Options_Parsed parsed)"

lemma next_value_length: "next_value argument rest = (value, error, rest1) \<Longrightarrow> length rest1 \<le> length rest"
  by (cases rest) auto

lemma parse_option_length: "parse_option argument rest st = Inr (error, rest1, st1) \<Longrightarrow> length rest1 \<le> length rest"
  by (auto simp: parse_option_def option_text_def option_number_def option_mode_def
      dest: next_value_length split: if_splits prod.splits option.splits)

function ParseOptions_loop :: "string list \<Rightarrow> OptionState \<Rightarrow> OptionsResult" where
  "ParseOptions_loop [] st = ParseOptions_end st"
| "ParseOptions_loop (argument # rest) st =
    (case parse_option argument rest st of
       Inl result \<Rightarrow> result
     | Inr (error, rest1, st1) \<Rightarrow> if error \<noteq> [] then Options_Error error else ParseOptions_loop rest1 st1)"
  by pat_completeness auto
termination
  by (relation "measure (length \<circ> fst)") (auto simp: less_Suc_eq_le dest: parse_option_length)

text \<open>The arguments are those after the program name.\<close>

definition ParseOptions :: "string list \<Rightarrow> OptionsResult" where
  "ParseOptions args = ParseOptions_loop args \<lparr>os_parsed = default_options, os_mode_set = False\<rparr>"

section \<open>The set-up of the process\<close>

text \<open>\<open>main\<close> up to the engine: an exit code, or what the process runs with.\<close>

datatype MainSetup = MainExit int | MainRun Options InstrumentCatalog Engine

definition main_setup :: "string list \<Rightarrow> (string \<Rightarrow> string option) \<Rightarrow> MainSetup option" where
  "main_setup args files =
    (case ParseOptions args of
       Options_Help \<Rightarrow> Some (MainExit 0)
     | Options_Error error \<Rightarrow> Some (MainExit 2)
     | Options_Parsed parsed \<Rightarrow>
         (case LoadStreamConfig (op_stream_config_path parsed) (files (op_stream_config_path parsed)) of
            Inl error \<Rightarrow> Some (MainExit 2)
          | Inr stream_mask \<Rightarrow>
              let options = parsed\<lparr>op_engine := (op_engine parsed)\<lparr>enabled_streams := stream_mask\<rparr>,
                    op_sdk := (op_sdk parsed)\<lparr>pc_enabled_streams := stream_mask\<rparr>\<rparr> in
              (case LoadCsv (op_catalog_path options) (files (op_catalog_path options)) of
                 None \<Rightarrow> None
               | Some (Inl error) \<Rightarrow> Some (MainExit 2)
               | Some (Inr catalog) \<Rightarrow>
                   (case Create (op_engine options) catalog of
                      Inl error \<Rightarrow> Some (MainExit 2)
                    | Inr engine \<Rightarrow> if op_validate_only options then Some (MainExit 0)
                        else Some (MainRun options catalog engine)))))"

section \<open>The options a command line can give\<close>

text \<open>The options in the range of their types, every member without an option at its default.\<close>

definition engine_options_reset :: "EngineConfig \<Rightarrow> EngineConfig" where
  "engine_options_reset e = e\<lparr>trade_date := 0, start_mode := StartMode_kFromOpen, tick_decoder_lanes := 12,
     snapshot_decoder_lanes := 4, instrument_workers := 16, partial_initial_hold_ns := 200000,
     partial_gap_wait_ns := 500000, from_open_gap_wait_ns := 500000, first_decoder_cpu := -1\<rparr>"

definition sdk_options_reset :: "PhysicalSdkConfig \<Rightarrow> PhysicalSdkConfig" where
  "sdk_options_reset s = s\<lparr>pc_shared_library := [], pc_server_address := [], pc_user_name := [],
     pc_work_threads := 1, pc_sdk_console_log := False\<rparr>"

definition in_int :: "int \<Rightarrow> bool" where
  "in_int i \<longleftrightarrow> I32_MIN \<le> i \<and> i \<le> - I32_MIN - 1"

definition option_range :: "Options \<Rightarrow> bool" where
  "option_range parsed \<longleftrightarrow> (let e = op_engine parsed; s = op_sdk parsed in
     engine_options_reset e = default_engine_config \<and> sdk_options_reset s = default_sdk_config \<and>
     tick_decoder_lanes e \<le> SIZE_MAX \<and> snapshot_decoder_lanes e \<le> SIZE_MAX \<and> instrument_workers e \<le> SIZE_MAX \<and>
     in_int (first_decoder_cpu e) \<and> in_int (pc_work_threads s))"

lemma ParseInteger_bound: "ParseInteger limit text = Some n \<Longrightarrow> n \<le> limit"
  by (auto simp: ParseInteger_def dest: from_chars_unsigned_bound split: if_splits sum.splits prod.splits)

lemma ParseIntegerSigned_bound: "ParseIntegerSigned text = Some n \<Longrightarrow> in_int n"
  by (auto simp: ParseIntegerSigned_def in_int_def dest: from_chars_int_bound split: if_splits sum.splits prod.splits)

lemma ParseInteger_decimal: "n \<le> limit \<Longrightarrow> ParseInteger limit (decimal n) = Some n"
  using from_chars_decimal [of n limit "[]"] by (simp add: ParseInteger_def)

definition show_int :: "int \<Rightarrow> string" where
  "show_int i = (if i < 0 then ''-'' @ decimal (nat (- i)) else decimal (nat i))"

lemma decimal_run: "takeWhile is_digit (decimal n) = decimal n" "dropWhile is_digit (decimal n) = []"
  using takeWhile_all [OF decimal_digits, of "[]"] by auto

lemma ParseIntegerSigned_show_int:
  assumes "in_int i"
  shows "ParseIntegerSigned (show_int i) = Some i"
proof (cases "i < 0")
  case True
  then show ?thesis
    using assms by (simp add: in_int_def ParseIntegerSigned_def show_int_def from_chars_int_def Let_def decimal_run)
next
  case False
  have "hd (decimal (nat i)) \<noteq> CHR ''-''"
    using decimal_digits [of "nat i"] decimal_nonempty [of "nat i"]
    by (cases "decimal (nat i)") (auto simp: is_digit_def)
  then show ?thesis
    using False assms by (simp add: in_int_def ParseIntegerSigned_def show_int_def from_chars_int_def Let_def decimal_run)
qed

text \<open>A command line for given options.\<close>

definition option_flag :: "bool \<Rightarrow> string \<Rightarrow> string list" where
  "option_flag given name = (if given then [name] else [])"

definition option_args :: "Options \<Rightarrow> string list" where
  "option_args parsed = (let e = op_engine parsed; s = op_sdk parsed in
    [''--mode'', (case start_mode e of StartMode_kFromOpen \<Rightarrow> ''from-open'' | StartMode_kPartial \<Rightarrow> ''partial''),
     ''--trade-date'', decimal (unat (trade_date e)),
     ''--catalog'', op_catalog_path parsed, ''--stream-config'', op_stream_config_path parsed,
     ''--sdk-library'', pc_shared_library s, ''--server'', pc_server_address s, ''--user'', pc_user_name s,
     ''--tick-lanes'', decimal (tick_decoder_lanes e), ''--snapshot-lanes'', decimal (snapshot_decoder_lanes e),
     ''--instrument-workers'', decimal (instrument_workers e), ''--first-decoder-cpu'', show_int (first_decoder_cpu e),
     ''--partial-initial-hold-ns'', decimal (unat (partial_initial_hold_ns e)),
     ''--partial-gap-wait-ns'', decimal (unat (partial_gap_wait_ns e)),
     ''--from-open-gap-wait-ns'', decimal (unat (from_open_gap_wait_ns e)),
     ''--sdk-work-threads'', show_int (pc_work_threads s)]
    @ option_flag (pc_sdk_console_log s) ''--sdk-console-log''
    @ option_flag (op_allow_discard_after_dispatch parsed) ''--allow-discard-after-dispatch''
    @ option_flag (op_validate_only parsed) ''--validate-only'')"

lemma unat_u32_max: "unat (w :: u32) \<le> U32_MAX"
  using unsigned_less [of w, where 'a = nat] by (simp add: U32_MAX_def)

text \<open>What the arguments leave in the state, before the final checks.\<close>

lemma option_args_parsed:
  assumes "option_range parsed"
  shows "ParseOptions (option_args parsed) = ParseOptions_end \<lparr>os_parsed = parsed, os_mode_set = True\<rparr>"
proof -
  obtain e s where parsed: "op_engine parsed = e" "op_sdk parsed = s" by blast
  have r: "engine_options_reset e = default_engine_config" "sdk_options_reset s = default_sdk_config"
    "tick_decoder_lanes e \<le> SIZE_MAX" "snapshot_decoder_lanes e \<le> SIZE_MAX" "instrument_workers e \<le> SIZE_MAX"
    "in_int (first_decoder_cpu e)" "in_int (pc_work_threads s)"
    using assms by (simp_all add: option_range_def parsed)
  note P = ParseInteger_decimal [OF unat_u32_max] ParseInteger_decimal [OF unat_le_SIZE_MAX]
    r(3-5) [THEN ParseInteger_decimal] r(6,7) [THEN ParseIntegerSigned_show_int]
  have "ParseOptions (option_args parsed) = ParseOptions_end \<lparr>os_parsed = \<lparr>op_engine = default_engine_config\<lparr>
       trade_date := trade_date e, start_mode := start_mode e, tick_decoder_lanes := tick_decoder_lanes e,
       snapshot_decoder_lanes := snapshot_decoder_lanes e, instrument_workers := instrument_workers e,
       partial_initial_hold_ns := partial_initial_hold_ns e, partial_gap_wait_ns := partial_gap_wait_ns e,
       from_open_gap_wait_ns := from_open_gap_wait_ns e, first_decoder_cpu := first_decoder_cpu e\<rparr>,
     op_sdk = default_sdk_config\<lparr>pc_shared_library := pc_shared_library s, pc_server_address := pc_server_address s,
       pc_user_name := pc_user_name s, pc_work_threads := pc_work_threads s, pc_sdk_console_log := pc_sdk_console_log s\<rparr>,
     op_catalog_path = op_catalog_path parsed, op_stream_config_path = op_stream_config_path parsed,
     op_allow_discard_after_dispatch = op_allow_discard_after_dispatch parsed,
     op_validate_only = op_validate_only parsed\<rparr>, os_mode_set = True\<rparr>"
    by (cases "start_mode e")
      (simp_all add: ParseOptions_def option_args_def Let_def parsed P parse_option_def option_text_def
        option_number_def option_mode_def option_flag_def on_engine_def on_sdk_def on_options_def default_options_def
        default_sdk_config_def default_engine_config_def)
  then show ?thesis
    using parsed unfolding r(1,2) [symmetric]
    by (cases parsed) (simp add: engine_options_reset_def sdk_options_reset_def)
qed

text \<open>The options of a successful command line are in range.\<close>

lemma option_range_step:
  assumes "option_range (os_parsed st)" and "parse_option argument rest st = Inr (error, rest1, st1)"
  shows "option_range (os_parsed st1)"
  using assms
  by (auto simp: parse_option_def option_text_def option_number_def option_mode_def option_range_def
      engine_options_reset_def sdk_options_reset_def on_engine_def on_sdk_def on_options_def Let_def
      dest: ParseInteger_bound ParseIntegerSigned_bound split: if_splits prod.splits option.splits)

lemma option_range_loop:
  "ParseOptions_loop args st = Options_Parsed parsed \<Longrightarrow> option_range (os_parsed st) \<Longrightarrow>
     option_range parsed \<and> ParseOptions_end \<lparr>os_parsed = parsed, os_mode_set = True\<rparr> = Options_Parsed parsed"
proof (induction args st rule: ParseOptions_loop.induct)
  case (1 st)
  then show ?case by (auto simp: ParseOptions_end_def Let_def split: if_splits)
next
  case (2 argument rest st)
  show ?case
  proof (cases "parse_option argument rest st")
    case (Inl r)
    have "r \<noteq> Options_Parsed p" for p
      using Inl by (auto simp: parse_option_def option_text_def option_number_def option_mode_def
          split: if_splits prod.splits option.splits)
    then show ?thesis using 2(2) Inl by auto
  next
    case (Inr s)
    then show ?thesis
      using 2 option_range_step by (cases s) (fastforce split: if_splits)
  qed
qed

lemma option_range_default: "option_range default_options"
  by (simp add: option_range_def default_options_def engine_options_reset_def sdk_options_reset_def in_int_def
      default_engine_config_def default_sdk_config_def I32_MIN_def SIZE_MAX_def)

text \<open>The required options.\<close>

definition option_required :: "Options \<Rightarrow> bool" where
  "option_required parsed \<longleftrightarrow> trade_date (op_engine parsed) \<noteq> 0 \<and> op_catalog_path parsed \<noteq> [] \<and>
     (op_validate_only parsed \<or> pc_shared_library (op_sdk parsed) \<noteq> [] \<and> pc_server_address (op_sdk parsed) \<noteq> [] \<and>
        pc_user_name (op_sdk parsed) \<noteq> [] \<and> op_allow_discard_after_dispatch parsed)"

lemma ParseOptions_end_iff:
  "ParseOptions_end \<lparr>os_parsed = parsed, os_mode_set = True\<rparr> = Options_Parsed parsed \<longleftrightarrow> option_required parsed"
  by (auto simp: ParseOptions_end_def option_required_def Let_def)

lemma ParseOptions_accepts:
  "ParseOptions args = Options_Parsed parsed \<Longrightarrow> option_range parsed \<and> option_required parsed"
  using option_range_loop [of args _ parsed] option_range_default
  by (fastforce simp: ParseOptions_def ParseOptions_end_iff)


section \<open>What the process runs with\<close>

lemma main_setup_run:
  "main_setup args files = Some (MainRun options catalog engine) \<longleftrightarrow>
    (\<exists>parsed streams. ParseOptions args = Options_Parsed parsed \<and> \<not> op_validate_only parsed \<and>
       LoadStreamConfig (op_stream_config_path parsed) (files (op_stream_config_path parsed)) = Inr streams \<and>
       options = parsed\<lparr>op_engine := (op_engine parsed)\<lparr>enabled_streams := streams\<rparr>,
         op_sdk := (op_sdk parsed)\<lparr>pc_enabled_streams := streams\<rparr>\<rparr> \<and>
       LoadCsv (op_catalog_path parsed) (files (op_catalog_path parsed)) = Some (Inr catalog) \<and>
       Create (op_engine options) catalog = Inr engine)"
  by (auto simp: main_setup_def Let_def split: OptionsResult.splits sum.splits option.splits)

lemma unsupported_bits:
  assumes "(m :: StreamMask) AND kSupportedStreamMask = m"
  shows "m AND NOT kSupportedStreamMask = 0"
proof -
  have "m AND NOT kSupportedStreamMask = (m AND kSupportedStreamMask) AND NOT kSupportedStreamMask"
    by (simp only: assms)
  then show ?thesis by (simp only: and.assoc and.right_neutral bit.conj_cancel_right and_zero_eq)
qed

lemma sdk_default_valid:
  assumes "sdk_options_reset s = default_sdk_config" and "m \<noteq> 0" and "m AND kSupportedStreamMask = m"
    and "pc_shared_library s \<noteq> []" and "pc_server_address s \<noteq> []" and "pc_user_name s \<noteq> []"
  shows "sdk_config_ok (s\<lparr>pc_enabled_streams := m\<rparr>) \<longleftrightarrow> 0 < pc_work_threads s \<and>
    CHR 0x00 \<notin> set (pc_shared_library s) \<union> set (pc_server_address s) \<union> set (pc_user_name s)"
proof -
  have "m AND NOT kSupportedStreamMask = 0" using assms(3) by (rule unsupported_bits)
  moreover have "pc_io_threads s = 1" "pc_heartbeat_interval_seconds s = 10" "pc_heartbeat_timeout_seconds s = 30"
    using assms(1) by (auto simp: sdk_options_reset_def default_sdk_config_def dest: arg_cong [of _ _ pc_io_threads]
        arg_cong [of _ _ pc_heartbeat_interval_seconds] arg_cong [of _ _ pc_heartbeat_timeout_seconds])
  ultimately show ?thesis
    using assms(2,4-6) unfolding sdk_config_ok_def ValidCStringInput_def by auto
qed

text \<open>The defaults of the engine configuration are accepted.\<close>

lemma default_config_valid:
  assumes "engine_options_reset e = default_engine_config" and "IsTradeDateValid (trade_date e)"
    and "ic_entries cat \<noteq> []" and "m \<noteq> 0" and "m AND NOT kSupportedStreamMask = 0"
    and "tick_decoder_lanes e \<in> {1 .. 1024}" and "snapshot_decoder_lanes e \<in> {1 .. 1024}"
    and "instrument_workers e \<in> {1 .. 1024}" and "-1 \<le> first_decoder_cpu e"
  shows "ValidateConfig (e\<lparr>enabled_streams := m\<rparr>) cat = None"
proof -
  have pow: "IsPowerOfTwo 4096" by (simp add: IsPowerOfTwo_iff exI [of _ 12])
  have lanes: "k \<le> SIZE_MAX div n" if "k \<in> {1 .. 1024}" "n \<in> {1 .. 1024}" for k n :: nat
  proof -
    have "SIZE_MAX div 1024 \<le> SIZE_MAX div n" using that by (intro div_le_mono2) simp_all
    then show ?thesis using that by (simp add: SIZE_MAX_def)
  qed
  show ?thesis
    using assms pow lanes [OF assms(6,8)] lanes [OF assms(7,8)]
    by (cases e) (simp add: engine_options_reset_def default_engine_config_def ValidateConfig_def U32_MAX_def
        SIZE_MAX_def kMaximumIdentityBytes_def)
qed

lemma main_setup_lists:
  assumes "ParseOptions args = Options_Parsed parsed" and "\<not> op_validate_only parsed"
    and "IsTradeDateValid (trade_date (op_engine parsed))" and "-1 \<le> first_decoder_cpu (op_engine parsed)"
    and "tick_decoder_lanes (op_engine parsed) \<in> {1 .. 1024}"
    and "snapshot_decoder_lanes (op_engine parsed) \<in> {1 .. 1024}"
    and "instrument_workers (op_engine parsed) \<in> {1 .. 1024}"
    and "files (op_stream_config_path parsed) = Some (unlines (map show_key ks))"
    and "ks \<noteq> []" and "distinct ks" and "set ks \<subseteq> set kSupportedMessageKeys"
    and "files (op_catalog_path parsed) = Some (csv_text ds)"
    and "list_all definition_ok ds" and "list_all comma_free ds"
    and "ds \<noteq> []" and "length ds < U32_MAX" and "acceptable ds"
  shows "\<exists>options catalog engine. main_setup args files = Some (MainRun options catalog engine) \<and>
    Build ds = Some (Inr catalog) \<and>
    (\<forall>key. StreamEnabled (enabled_streams (op_engine options)) key \<longleftrightarrow> key \<in> set ks)"
proof -
  obtain streams where load: "LoadStreamConfig (op_stream_config_path parsed) (files (op_stream_config_path parsed)) = Inr streams"
    and keys: "\<forall>key. StreamEnabled streams key \<longleftrightarrow> key \<in> set ks"
    using LoadStreamConfig_show [OF assms(9,10,11)] assms(8) by metis
  have m: "streams \<noteq> 0" "streams AND kSupportedStreamMask = streams"
    using LoadStreamConfig_selects [OF load [unfolded assms(8)]] by simp_all
  obtain catalog where b: "Build ds = Some (Inr catalog)" using Build_Inr_iff assms(15-17) by blast
  let ?e = "(op_engine parsed)\<lparr>enabled_streams := streams\<rparr>"
  have reset: "engine_options_reset (op_engine parsed) = default_engine_config"
    using ParseOptions_accepts [OF assms(1)] by (simp add: option_range_def Let_def)
  have "streams AND NOT kSupportedStreamMask = 0" using m(2) by (rule unsupported_bits)
  moreover have "length (ic_entries catalog) = length ds" by (simp add: Build_ok(2) [OF b])
  then have "ic_entries catalog \<noteq> []" using assms(15) by auto
  ultimately have v: "ValidateConfig ?e catalog = None"
    using assms(3-7) m(1) by (intro default_config_valid [OF reset])
  have "dispatch_queue_capacity (op_engine parsed) = 1024" "diagnostic_queue_capacity (op_engine parsed) = 4096"
    "late_recovery_queue_capacity (op_engine parsed) = 4096"
    using reset by (cases "op_engine parsed"; simp add: engine_options_reset_def default_engine_config_def)+
  then obtain engine where c: "Create ?e catalog = Inr engine"
    using Create_succeeds [OF v] by (auto simp: SIZE_MAX_def)
  let ?o = "parsed\<lparr>op_engine := ?e, op_sdk := (op_sdk parsed)\<lparr>pc_enabled_streams := streams\<rparr>\<rparr>"
  have "main_setup args files = Some (MainRun ?o catalog engine)"
    unfolding main_setup_run
    by (rule exI [of _ parsed], rule exI [of _ streams])
      (use assms(1,2,12) load b c LoadCsv_csv_text [OF assms(13,14)] in simp)
  moreover have "StreamEnabled (enabled_streams (op_engine ?o)) key \<longleftrightarrow> key \<in> set ks" for key
    using keys by simp
  ultimately show ?thesis using b by blast
qed

definition demo_options :: Options where
  "demo_options = default_options\<lparr>op_engine := default_engine_config\<lparr>trade_date := 20240102\<rparr>,
     op_sdk := demo_sdk_config, op_catalog_path := ''catalog.csv'',
     op_allow_discard_after_dispatch := True\<rparr>"

definition demo_files :: "string \<Rightarrow> string option" where
  "demo_files path = (if path = ''catalog.csv'' then Some (csv_text demo_definitions)
     else if path = ''config/production.streams.conf''
     then Some (unlines (map show_key [mk_key 6 101 36, mk_key 4 101 24])) else None)"

lemma demo_options_parsed: "ParseOptions (option_args demo_options) = Options_Parsed demo_options"
proof -
  have "option_range demo_options" "option_required demo_options"
    by (simp_all add: option_range_def option_required_def demo_options_def default_options_def demo_sdk_config_def
        engine_options_reset_def sdk_options_reset_def in_int_def default_engine_config_def default_sdk_config_def
        I32_MIN_def SIZE_MAX_def)
  then show ?thesis by (simp add: option_args_parsed ParseOptions_end_iff)
qed

lemma demo_setup:
  "\<exists>options engine. main_setup (option_args demo_options) demo_files = Some (MainRun options demo_catalog engine)"
proof -
  have fields: "trade_date (op_engine demo_options) = 20240102" "\<not> op_validate_only demo_options"
    "tick_decoder_lanes (op_engine demo_options) = 12" "snapshot_decoder_lanes (op_engine demo_options) = 4"
    "instrument_workers (op_engine demo_options) = 16" "first_decoder_cpu (op_engine demo_options) = -1"
    "op_stream_config_path demo_options = ''config/production.streams.conf''"
    "op_catalog_path demo_options = ''catalog.csv''"
    by (simp_all add: demo_options_def default_options_def default_engine_config_def)
  have "IsTradeDateValid 20240102" by (simp add: IsTradeDateValid_def month_days_def IsLeapYear_def Let_def)
  then show ?thesis
    using main_setup_lists [OF demo_options_parsed, of demo_files "[mk_key 6 101 36, mk_key 4 101 24]" demo_definitions]
      demo_definitions_ok demo_catalog_built
    by (simp add: fields demo_files_def kSupportedMessageKeys_def mk_key_def) metis
qed

text \<open>What the process runs with.\<close>

lemma main_setup_created:
  assumes "main_setup args files = Some (MainRun options catalog engine)"
  shows "Create (op_engine options) catalog = Inr engine" "config_sizes (op_engine options)"
proof -
  obtain parsed streams where p: "ParseOptions args = Options_Parsed parsed"
    and o: "options = parsed\<lparr>op_engine := (op_engine parsed)\<lparr>enabled_streams := streams\<rparr>,
         op_sdk := (op_sdk parsed)\<lparr>pc_enabled_streams := streams\<rparr>\<rparr>"
    and c: "Create (op_engine options) catalog = Inr engine"
    using assms unfolding main_setup_run by blast
  show "Create (op_engine options) catalog = Inr engine" by (rule c)
  have "option_range parsed" using ParseOptions_accepts [OF p] by simp
  then have "reorder_entries_per_channel (op_engine parsed) = 4096"
    by (auto simp: option_range_def Let_def engine_options_reset_def default_engine_config_def
        dest: arg_cong [of _ _ reorder_entries_per_channel])
  then show "config_sizes (op_engine options)" by (simp add: o config_sizes_def SIZE_MAX_def)
qed

section \<open>The contract of the set-up\<close>

text \<open>
  C30. The process runs only with a consistent set-up.  When \<open>main\<close> gets past its checks, the options
  ask for a run with discarding workers, the engine was created with them and is in a state the
  engine theorems speak of, and the stream file decides both sides: the engine accepts and the SDK
  session subscribes to exactly the message keys of its lines.  The only thing the session can still
  refuse in this configuration is a NUL character or a thread count that is not positive.
\<close>

theorem main_setup_consistent:
  assumes "main_setup args files = Some (MainRun options catalog engine)"
  shows "op_allow_discard_after_dispatch options \<and> \<not> op_validate_only options \<and>
    Create (op_engine options) catalog = Inr engine \<and> config_sizes (op_engine options) \<and>
    engine_run (op_engine options) catalog (initial_world engine) \<and>
    enabled_streams (op_engine options) = pc_enabled_streams (op_sdk options) \<and>
    (\<exists>text. files (op_stream_config_path options) = Some text \<and>
       (\<forall>key. StreamEnabled (pc_enabled_streams (op_sdk options)) key \<longleftrightarrow>
          (\<exists>l \<in> set (content_lines (text_lines text)). ParseTuple l = Some key))) \<and>
    (sdk_config_ok (op_sdk options) \<longleftrightarrow> 0 < pc_work_threads (op_sdk options) \<and>
       CHR 0x00 \<notin> set (pc_shared_library (op_sdk options)) \<union> set (pc_server_address (op_sdk options)) \<union>
         set (pc_user_name (op_sdk options)))"
proof -
  obtain parsed streams where p: "ParseOptions args = Options_Parsed parsed" "\<not> op_validate_only parsed"
    and load: "LoadStreamConfig (op_stream_config_path parsed) (files (op_stream_config_path parsed)) = Inr streams"
    and o: "options = parsed\<lparr>op_engine := (op_engine parsed)\<lparr>enabled_streams := streams\<rparr>,
         op_sdk := (op_sdk parsed)\<lparr>pc_enabled_streams := streams\<rparr>\<rparr>"
    and c: "Create (op_engine options) catalog = Inr engine"
    using assms unfolding main_setup_run by blast
  have range: "option_range parsed" and req: "option_required parsed" using ParseOptions_accepts [OF p(1)] by simp_all
  obtain content where f: "files (op_stream_config_path parsed) = Some content"
    using load by (auto simp: LoadStreamConfig_def split: option.splits)
  note S = LoadStreamConfig_selects [OF load [unfolded f]]
  have "sdk_config_ok (op_sdk options) \<longleftrightarrow> 0 < pc_work_threads (op_sdk parsed) \<and>
       CHR 0x00 \<notin> set (pc_shared_library (op_sdk parsed)) \<union> set (pc_server_address (op_sdk parsed)) \<union>
         set (pc_user_name (op_sdk parsed))"
    unfolding o using S range req p(2) by (simp add: sdk_default_valid option_range_def option_required_def Let_def)
  moreover have "config_sizes (op_engine options)" by (rule main_setup_created(2) [OF assms])
  ultimately show ?thesis
    using c S f p(2) req engine_run.created [OF c] by (simp add: o option_required_def)
qed

theorem main_setup_consistent_witness:
  "\<exists>options engine. main_setup (option_args demo_options) demo_files = Some (MainRun options demo_catalog engine) \<and>
    engine_run (op_engine options) demo_catalog (initial_world engine) \<and>
    enabled_streams (op_engine options) = pc_enabled_streams (op_sdk options)"
  using demo_setup main_setup_consistent by blast



end
