(* ===== verification/Drain.thy ===== *)
theory Drain
  imports Ingest_Options
begin

text \<open>
  The drain threads of \<open>apps/mdl_ingestd.cpp\<close>: one per instrument worker, each polling the queues of
  its owner in turn until \<open>drain_running\<close> is cleared, the first one also the gap mailboxes and the
  diagnostic queues.  What a call does to the counters, to the position of its thread, and to the
  backlog of the dispatcher.
\<close>

section \<open>The loops of a drain thread\<close>

definition drain_loops :: "nat \<Rightarrow> ConsumerPoll list" where
  "drain_loops owner = [PollTicks owner, PollSnapshots owner] @
     (if owner = 0 then [PollGaps, PollLates, PollFaults] else [])"

record Consumed =
  cn_ticks :: u64
  cn_snapshots :: u64
  cn_gaps :: u64
  cn_late_recovery :: u64
  cn_faults :: u64

definition nothing_consumed :: Consumed where
  "nothing_consumed = \<lparr>cn_ticks = 0, cn_snapshots = 0, cn_gaps = 0, cn_late_recovery = 0, cn_faults = 0\<rparr>"

text \<open>A call that delivered is counted.\<close>

fun count_call :: "ConsumerPoll \<times> bool \<Rightarrow> Consumed \<Rightarrow> Consumed" where
  "count_call (c, False) cn = cn"
| "count_call (PollTicks owner, True) cn = cn\<lparr>cn_ticks := cn_ticks cn + 1\<rparr>"
| "count_call (PollSnapshots owner, True) cn = cn\<lparr>cn_snapshots := cn_snapshots cn + 1\<rparr>"
| "count_call (PollGaps, True) cn = cn\<lparr>cn_gaps := cn_gaps cn + 1\<rparr>"
| "count_call (PollLates, True) cn = cn\<lparr>cn_late_recovery := cn_late_recovery cn + 1\<rparr>"
| "count_call (PollFaults, True) cn = cn\<lparr>cn_faults := cn_faults cn + 1\<rparr>"

text \<open>
  The loops a thread has still to finish before it reads \<open>drain_running\<close> again, \<open>None\<close> once it has
  returned.  A loop goes on while its call delivers; \<open>progress\<close> only decides whether the thread
  yields and is left out.
\<close>

type_synonym DrainThread = "ConsumerPoll list option"

definition drain_call :: "bool \<Rightarrow> ConsumerPoll \<times> bool \<Rightarrow> DrainThread list \<Rightarrow> DrainThread list option" where
  "drain_call running call threads =
    (let owner = poll_reader (fst call) in
     if length threads \<le> owner then None
     else case threads ! owner of
       None \<Rightarrow> None
     | Some loops \<Rightarrow>
         (case (if loops = [] \<and> running then drain_loops owner else loops) of
            [] \<Rightarrow> None
          | c # rest \<Rightarrow> if c = fst call
              then Some (threads[owner := Some (if snd call then c # rest else rest)]) else None))"

fun drain_calls :: "bool \<Rightarrow> (ConsumerPoll \<times> bool) list \<Rightarrow> DrainThread list \<Rightarrow> DrainThread list option" where
  "drain_calls running [] threads = Some threads"
| "drain_calls running (call # calls) threads =
    Option.bind (drain_call running call threads) (drain_calls running calls)"

section \<open>Counting and positions\<close>

fun consumed :: "RecordKind \<Rightarrow> Consumed \<Rightarrow> u64" where
  "consumed Kind_Tick cn = cn_ticks cn"
| "consumed Kind_Snapshot cn = cn_snapshots cn"
| "consumed Kind_Late cn = cn_late_recovery cn"
| "consumed Kind_Fault cn = cn_faults cn"

lemma consumed_nothing [simp]: "consumed k nothing_consumed = 0"
  by (cases k) (simp_all add: nothing_consumed_def)

lemma consumed_gaps [simp]: "consumed k (cn\<lparr>cn_gaps := n\<rparr>) = consumed k cn"
  by (cases k) simp_all

lemma consumed_call: "consumed k (count_call call cn) = consumed k cn + of_nat (delivered k [call])"
  by (cases "(call, cn)" rule: count_call.cases; cases k) simp_all

lemma consumed_calls: "consumed k (fold count_call calls cn) = consumed k cn + of_nat (delivered k calls)"
proof (induction calls arbitrary: cn)
  case (Cons call calls)
  have "delivered k (call # calls) = delivered k [call] + delivered k calls"
    using delivered_append [of k "[call]" calls] by simp
  then show ?case using Cons by (simp add: consumed_call)
qed (simp add: delivered_def)

text \<open>The first thread is in its gap loop.\<close>

definition gap_loop_open :: "DrainThread list \<Rightarrow> bool" where
  "gap_loop_open threads \<longleftrightarrow> threads \<noteq> [] \<and> (\<exists>rest. threads ! 0 = Some (PollGaps # rest))"

lemma drain_call_cases:
  assumes "drain_call running call threads = Some threads'"
  obtains owner rest loops where "owner = poll_reader (fst call)" "owner < length threads" "threads ! owner = Some loops"
    "(if loops = [] \<and> running then drain_loops owner else loops) = fst call # rest"
    "threads' = threads[owner := Some (if snd call then fst call # rest else rest)]"
proof -
  let ?o = "poll_reader (fst call)"
  obtain loops where o: "?o < length threads" "threads ! ?o = Some loops"
    using assms by (auto simp: drain_call_def Let_def split: if_split_asm option.split_asm)
  let ?l = "if loops = [] \<and> running then drain_loops ?o else loops"
  have call: "(case ?l of [] \<Rightarrow> None | c # rest \<Rightarrow>
      if c = fst call then Some (threads[?o := Some (if snd call then c # rest else rest)]) else None) = Some threads'"
    using assms o by (simp only: drain_call_def Let_def not_le [symmetric] if_False option.case)
  then obtain rest where "?l = fst call # rest" "threads' = threads[?o := Some (if snd call then fst call # rest else rest)]"
    by (cases ?l) (auto split: if_split_asm)
  then show thesis using o by (intro that) simp_all
qed

lemma drain_call_gap:
  assumes call: "drain_call running call threads = Some threads'"
    and inv: "gap_loop_done calls \<or> gap_loop_open threads"
  shows "gap_loop_done (calls @ [call]) \<or> gap_loop_open threads'"
proof -
  from call obtain owner rest loops where c: "owner = poll_reader (fst call)" "owner < length threads"
    "threads ! owner = Some loops" "(if loops = [] \<and> running then drain_loops owner else loops) = fst call # rest"
    "threads' = threads[owner := Some (if snd call then fst call # rest else rest)]" by (rule drain_call_cases)
  obtain p r where call': "call = (p, r)" by (cases call)
  show ?thesis
  proof (cases "p = PollGaps")
    case True
    have "gap_loop_open threads'" if r using c(1,2,5) True that by (auto simp: call' gap_loop_open_def)
    then show ?thesis using True by (auto simp: call')
  next
    case False
    have "gap_loop_open threads'" if "gap_loop_open threads"
      using that c False by (cases "owner = 0") (auto simp: call' gap_loop_open_def nth_list_update)
    then show ?thesis using inv False by (auto simp: call')
  qed
qed

lemma drain_calls_gap:
  assumes "drain_calls running log threads = Some threads'" and "gap_loop_done calls \<or> gap_loop_open threads"
  shows "gap_loop_done (calls @ log) \<or> gap_loop_open threads'"
  using assms
proof (induction log arbitrary: calls threads)
  case (Cons call log)
  then obtain t where t: "drain_call running call threads = Some t" "drain_calls running log t = Some threads'"
    by (auto simp: bind_eq_Some_conv)
  from Cons.IH [OF t(2) drain_call_gap [OF t(1) Cons.prems(2)]] show ?case by simp
qed simp

text \<open>The threads that have not returned go on; those that have stay so.\<close>

definition all_draining :: "DrainThread list \<Rightarrow> bool" where
  "all_draining threads \<longleftrightarrow> None \<notin> set threads"

definition all_returned :: "DrainThread list \<Rightarrow> bool" where
  "all_returned threads \<longleftrightarrow> set threads \<subseteq> {None}"

lemma drain_call_threads:
  assumes "drain_call running call threads = Some threads'"
  shows "length threads' = length threads" "all_draining threads \<Longrightarrow> all_draining threads'" "\<not> all_returned threads"
proof -
  from assms obtain owner rest loops where c: "owner < length threads" "threads ! owner = Some loops"
    "threads' = threads[owner := Some (if snd call then fst call # rest else rest)]" by (rule drain_call_cases)
  show "length threads' = length threads" by (simp add: c(3))
  show "all_draining threads \<Longrightarrow> all_draining threads'"
    unfolding c(3) all_draining_def using set_update_subset_insert by fastforce
  show "\<not> all_returned threads" using c(1,2) nth_mem [OF c(1)] by (auto simp: all_returned_def)
qed

lemma drain_calls_threads:
  assumes "drain_calls running calls threads = Some threads'"
  shows "length threads' = length threads" "all_draining threads \<Longrightarrow> all_draining threads'"
  using assms by (induction calls arbitrary: threads) (auto simp: bind_eq_Some_conv dest: drain_call_threads)

text \<open>A thread polls for its own reader.\<close>

definition own_loops :: "DrainThread list \<Rightarrow> bool" where
  "own_loops threads \<longleftrightarrow> (\<forall>owner < length threads. \<forall>loops. threads ! owner = Some loops \<longrightarrow>
     (\<forall>c \<in> set loops. poll_reader c = owner))"

lemma drain_loops_reader: "c \<in> set (drain_loops owner) \<Longrightarrow> poll_reader c = owner"
  by (auto simp: drain_loops_def split: if_splits)

lemma own_loops_update:
  assumes "own_loops threads" and "owner < length threads"
    and "\<And>loops c. thread = Some loops \<Longrightarrow> c \<in> set loops \<Longrightarrow> poll_reader c = owner"
  shows "own_loops (threads[owner := thread])"
  unfolding own_loops_def
proof (intro allI impI ballI)
  fix i loops c
  assume i: "i < length (threads[owner := thread])" "threads[owner := thread] ! i = Some loops" "c \<in> set loops"
  show "poll_reader c = i"
    using i assms by (cases "i = owner") (auto simp: own_loops_def)
qed

lemma drain_call_own:
  assumes "drain_call running call threads = Some threads'" and own: "own_loops threads"
  shows "own_loops threads'"
proof -
  from assms(1) obtain owner rest loops where c: "owner < length threads" "threads ! owner = Some loops"
    "(if loops = [] \<and> running then drain_loops owner else loops) = fst call # rest"
    "threads' = threads[owner := Some (if snd call then fst call # rest else rest)]" by (rule drain_call_cases)
  have "set (fst call # rest) \<subseteq> set loops \<union> set (drain_loops owner)"
    unfolding c(3) [symmetric] by simp
  then have "\<forall>c \<in> set (if snd call then fst call # rest else rest). poll_reader c = owner"
    using own c(1,2) drain_loops_reader by (auto simp: own_loops_def split: if_splits)
  then show ?thesis unfolding c(4) by (intro own_loops_update own c(1)) simp
qed

lemma drain_calls_own:
  "drain_calls running calls threads = Some threads' \<Longrightarrow> own_loops threads \<Longrightarrow> own_loops threads'"
  by (induction calls arbitrary: threads) (auto simp: bind_eq_Some_conv dest: drain_call_own)

text \<open>What the threads have still to do before they return, once \<open>drain_running\<close> is cleared.\<close>

definition positions :: "DrainThread list \<Rightarrow> nat" where
  "positions threads = (\<Sum>thread\<leftarrow>threads. case thread of None \<Rightarrow> 0 | Some loops \<Rightarrow> Suc (length loops))"

lemma positions_update:
  assumes "owner < length threads"
  shows "positions (threads[owner := thread]) + (case threads ! owner of None \<Rightarrow> 0 | Some loops \<Rightarrow> Suc (length loops))
    = positions threads + (case thread of None \<Rightarrow> 0 | Some loops \<Rightarrow> Suc (length loops))"
  using assms
proof (induction threads arbitrary: owner)
  case (Cons t threads)
  then show ?case by (cases owner) (simp_all add: positions_def)
qed simp

section \<open>What a call does to the world\<close>

lemma consumer_step_world:
  shows "en_dispatcher (wd_engine (consumer_step c w)) = consumer_dispatch c (en_dispatcher (wd_engine w))"
    and "wd_calls (consumer_step c w) = wd_calls w @ [(c, consumer_delivers c (en_dispatcher (wd_engine w)))]"
    and "en_health (wd_engine (consumer_step c w)) = en_health (wd_engine w)"
    and "Stats (wd_engine (consumer_step c w)) = Stats (wd_engine w)"
  by (simp_all add: consumer_step_def consumer_poll_def Let_def Stats_def)

lemma consumer_step_stopped: "stopped w \<Longrightarrow> stopped (consumer_step c w)"
  by (simp add: stopped_def Let_def consumer_step_fields consumer_step_world(3))
    (simp add: consumer_step_def queue_of_def class_lanes_def)

lemma consumer_step_sent:
  assumes ok: "world_ok cfg cat w"
  shows "sent_total cfg (world_env0 (consumer_step c w)) k = sent_total cfg (world_env0 w) k"
proof -
  have "env_ok cfg (world_env0 w)" using world_okD(4) [OF ok] by (simp add: streams_ok_def)
  note F = consumer_poll_frame(2) [OF this, of c]
  have "env_eq (world_env0 (consumer_step c w)) (consumer_poll c (world_env0 w))"
    unfolding consumer_step_def by (rule env_eq_put)
  from env_eq_keeps(4) [OF this] show ?thesis using sent_total_observed F by metis
qed

lemma world_dims:
  assumes "world_ok cfg cat w"
  shows "dispatcher_dims cfg (en_dispatcher (wd_engine w))" "gap_ok (en_dispatcher (wd_engine w))"
    "calls_ok cfg (world_env0 w)"
  using world_okD(4) [OF assms] env_ok_dims [of cfg "world_env0 w"] by (auto simp: streams_ok_def env_ok_def)

section \<open>The backlog\<close>

definition unread_cells :: "Dispatcher \<Rightarrow> (nat \<times> nat) set" where
  "unread_cells d = {(p, c). p < dp_tick_producers d \<and> c < dp_gap_channels_per_producer d \<and> mb_unread (gap_cell d p c)}"

definition backlog :: "EngineConfig \<Rightarrow> Dispatcher \<Rightarrow> nat" where
  "backlog cfg d = queued_total cfg d Kind_Tick + queued_total cfg d Kind_Snapshot + queued_total cfg d Kind_Late +
     queued_total cfg d Kind_Fault + card (unread_cells d)"

lemma finite_unread_cells: "finite (unread_cells d)"
  by (rule finite_subset [of _ "{..<dp_tick_producers d} \<times> {..<dp_gap_channels_per_producer d}"])
    (auto simp: unread_cells_def)

text \<open>A gap poll reads one mailbox when it delivers, and none otherwise.\<close>

lemma TryPollGap_unread:
  assumes ok: "gap_ok d" and poll: "TryPollGap d = (r, d')"
  shows "r = None \<Longrightarrow> unread_cells d' = unread_cells d" "r \<noteq> None \<Longrightarrow> card (unread_cells d') < card (unread_cells d)"
proof -
  have P: "gap_polled d r d'" by (rule TryPollGap_spec(1) [OF ok poll])
  have d: "dispatcher_ok d" "list_all mailbox_ok (dp_gap_slots d)" using ok by (simp_all add: gap_ok_def)
  have shape: "dp_tick_producers d' = dp_tick_producers d" "dp_gap_channels_per_producer d' = dp_gap_channels_per_producer d"
    using P by (simp_all add: gap_polled_def same_shape_def)
  show "r = None \<Longrightarrow> unread_cells d' = unread_cells d"
    using P by (simp add: gap_polled_def unread_cells_def shape gap_cell_def)
  assume "r \<noteq> None"
  then obtain p c where pc: "p < dp_tick_producers d" "c < dp_gap_channels_per_producer d" "mb_unread (gap_cell d p c)"
    "dp_gap_slots d' = dp_gap_slots (read_cell p c d)" using P by (auto simp: gap_polled_def)
  note R = read_cell_ok [OF d pc(1,2)]
  have cell: "gap_cell d' = gap_cell (read_cell p c d)" using pc(4) shape by (simp add: gap_cell_def fun_eq_iff read_cell_def)
  have "unread_cells d' = unread_cells d - {(p, c)}"
  proof (rule set_eqI, clarify)
    fix a b
    show "(a, b) \<in> unread_cells d' \<longleftrightarrow> (a, b) \<in> unread_cells d - {(p, c)}"
      using R(3) R(4) [of a b] by (cases "(a, b) = (p, c)") (auto simp: unread_cells_def shape cell)
  qed
  moreover have "(p, c) \<in> unread_cells d" using pc(1-3) by (simp add: unread_cells_def)
  ultimately show "card (unread_cells d') < card (unread_cells d)"
    using finite_unread_cells [of d] by (intro psubset_card_mono) auto
qed

lemma step_backlog:
  fixes c :: ConsumerPoll
  assumes ok: "world_ok cfg cat w"
  defines "d \<equiv> en_dispatcher (wd_engine w)" and "d' \<equiv> en_dispatcher (wd_engine (consumer_step c w))"
  shows "consumer_delivers c d \<Longrightarrow> backlog cfg d' < backlog cfg d"
    and "\<not> consumer_delivers c d \<Longrightarrow> backlog cfg d' = backlog cfg d"
proof -
  have d': "d' = consumer_dispatch c d" by (simp add: d_def d'_def consumer_step_world(1))
  have dims: "dispatcher_dims cfg d" and gaps: "gap_ok d" using world_dims [OF ok] by (simp_all add: d_def)
  note Q = call_queued [OF dims, of _ c, folded d']
  have "if consumer_delivers c d then backlog cfg d' < backlog cfg d else backlog cfg d' = backlog cfg d"
  proof (cases "c = PollGaps")
    case True
    obtain r q where t: "TryPollGap d = (r, q)" by fastforce
    show ?thesis
      using TryPollGap_unread [OF gaps t] Q [of Kind_Tick] Q [of Kind_Snapshot] Q [of Kind_Late] Q [of Kind_Fault] t True
      by (cases r) (simp_all add: backlog_def d')
  next
    case False
    have "gap_fields d' = gap_fields d" using False by (cases c) (simp_all add: d' gap_fields_kept)
    moreover have "dp_tick_producers d' = dp_tick_producers d"
      "dp_gap_channels_per_producer d' = dp_gap_channels_per_producer d"
      using world_okD(4) [OF ok] world_okD(4) [OF consumer_step_ok [OF ok, of c]]
      by (simp_all add: streams_ok_def env_ok_def d_def d'_def)
    ultimately have "unread_cells d' = unread_cells d"
      by (simp add: unread_cells_def gap_cell_def gap_fields_def)
    then show ?thesis
      using Q [of Kind_Tick] Q [of Kind_Snapshot] Q [of Kind_Late] Q [of Kind_Fault] False
      by (cases c) (auto simp: backlog_def)
  qed
  then show "consumer_delivers c d \<Longrightarrow> backlog cfg d' < backlog cfg d"
    "\<not> consumer_delivers c d \<Longrightarrow> backlog cfg d' = backlog cfg d" by simp_all
qed

text \<open>A reader whose queue holds a record is served.\<close>

lemma delivers_queued:
  fixes c :: ConsumerPoll
  assumes dims: "dispatcher_dims cfg d" and k: "poll_kind c = Some k" "poll_reader c < kind_readers cfg k"
    and p: "p < kind_lanes cfg k" "queued k d p (poll_reader c) \<noteq> 0"
  shows "consumer_delivers c d"
  by (rule call_cases [OF dims, of c]) (use k p in auto)

text \<open>A call that delivers nothing leaves every queue as it is.\<close>

lemma idle_call:
  fixes c :: ConsumerPoll
  assumes dims: "dispatcher_dims cfg d" and "\<not> consumer_delivers c d"
    and p: "p < kind_lanes cfg k" "v < kind_readers cfg k"
  shows "queued k (consumer_dispatch c d) p v = queued k d p v"
  by (rule call_cases [OF dims, of c]) (use assms(2) p in auto)

text \<open>The loop that polls a kind for a reader.\<close>

fun poll_for :: "RecordKind \<Rightarrow> nat \<Rightarrow> ConsumerPoll" where
  "poll_for Kind_Tick owner = PollTicks owner"
| "poll_for Kind_Snapshot owner = PollSnapshots owner"
| "poll_for Kind_Late owner = PollLates"
| "poll_for Kind_Fault owner = PollFaults"

lemma poll_for:
  assumes "v < kind_readers cfg k"
  shows "poll_kind (poll_for k v) = Some k" "poll_reader (poll_for k v) = v" "poll_for k v \<in> set (drain_loops v)"
  using assms by (cases k; simp add: drain_loops_def)+

end
