(* ===== verification/Ingest_Run.thy ===== *)
theory Ingest_Run
  imports Drain
begin

text \<open>
  Component \<open>apps/mdl_ingestd.cpp\<close>: \<open>main\<close> from \<open>Start\<close> to its exit code, with the drain threads,
  the signal handler, the SDK session and the engine around it.  The parties run as the steps of one
  relation: \<open>main\<close> takes its statements in their order, a drain thread its polls, a decoder thread its
  turns (during which drain threads may poll), and the SDK its callbacks of \<open>OnMessage\<close> while the session
  lives.  A poll and the \<open>fetch_add\<close> that counts it are one step.  What is printed, the sleep between two
  prints and the creation of the threads' objects are left out.
\<close>

section \<open>The state of the process\<close>

text \<open>
  Where \<open>main\<close> is.  The argument of the positions in \<open>Stop\<close> tells whether it is the \<open>Stop\<close> after a
  failed connection.  \<open>Main_Terminated\<close> is \<open>std::terminate\<close> in the SDK runtime.
\<close>

datatype MainPosition = Main_Start | Main_Starting | Main_Connect | Main_Run SdkSession | Main_Shutdown SdkSession
  | Main_Abort | Main_Stop bool | Main_Stopping bool | Main_Wait | Main_Join | Main_Gaps | Main_Exit int
  | Main_Terminated

record Ingest =
  ig_world :: World
  ig_handler :: MdlMessageHandler
  ig_consumed :: Consumed
  ig_drains :: "DrainThread list"
  ig_drain_running :: bool
  ig_stop_requested :: bool
  ig_main :: MainPosition

definition ingest_start :: "Engine \<Rightarrow> Ingest" where
  "ingest_start engine = \<lparr>ig_world = initial_world engine, ig_handler = new_handler True, ig_consumed = nothing_consumed, ig_drains = [],
     ig_drain_running = True, ig_stop_requested = False, ig_main = Main_Start\<rparr>"

text \<open>The SDK may call the handler from the connection on until its shutdown has returned.\<close>

fun session_live :: "MainPosition \<Rightarrow> bool" where
  "session_live Main_Connect = True"
| "session_live (Main_Run session) = True"
| "session_live (Main_Shutdown session) = True"
| "session_live position = False"

text \<open>\<open>SIGINT\<close> and \<open>SIGTERM\<close> are handled after a successful connection.\<close>

fun handles_signals :: "MainPosition \<Rightarrow> bool" where
  "handles_signals (Main_Run session) = True"
| "handles_signals (Main_Shutdown session) = True"
| "handles_signals (Main_Stop aborted) = (\<not> aborted)"
| "handles_signals (Main_Stopping aborted) = (\<not> aborted)"
| "handles_signals Main_Wait = True"
| "handles_signals Main_Join = True"
| "handles_signals Main_Gaps = True"
| "handles_signals position = False"

definition HandleSignal :: "Ingest \<Rightarrow> Ingest" where
  "HandleSignal g = g\<lparr>ig_stop_requested := True\<rparr>"

text \<open>Where \<open>main\<close> goes on when the \<open>Stop\<close> it is in returns.\<close>

fun after_stop :: "MainPosition \<Rightarrow> MainPosition option" where
  "after_stop Main_Starting = Some (Main_Exit 1)"
| "after_stop (Main_Stopping True) = Some (Main_Exit 1)"
| "after_stop (Main_Stopping False) = Some Main_Wait"
| "after_stop position = None"

text \<open>The condition of the loop that waits for the drain threads.\<close>

definition all_consumed :: "Consumed \<Rightarrow> EngineStats \<Rightarrow> bool" where
  "all_consumed cn final_stats \<longleftrightarrow> cn_ticks cn \<ge> es_dispatched_ticks final_stats \<and>
     cn_snapshots cn \<ge> es_dispatched_snapshots final_stats \<and>
     cn_late_recovery cn \<ge> es_late_recovery_dispatched final_stats \<and>
     cn_faults cn \<ge> es_channel_faults_dispatched final_stats"

definition exit_code :: "Ingest \<Rightarrow> int" where
  "exit_code g = (if \<not> hl_healthy (en_health (wd_engine (ig_world g))) then 1 else if mh_failed (ig_handler g) then 1 else 0)"

section \<open>Steps\<close>

text \<open>
  A callback of \<open>OnMessage\<close> with the handler and the engine.  One that does not get past the first tests
  of \<open>Admit\<close> is one step; one that does is two, with the message in \<open>wd_callback\<close> between them.
\<close>

inductive callback_step :: "MdlMessageHandler \<Rightarrow> World \<Rightarrow> MdlMessageHandler \<Rightarrow> World \<Rightarrow> bool" where
  refused: "en_callback_active (wd_engine w) \<or> \<not> engine_open (wd_engine w) \<or>
      (\<forall>header body. \<not> vendor_message h message header body) \<Longrightarrow>
    OnMessage message now h (wd_engine w) = (h', e) \<Longrightarrow> callback_step h w h' (w\<lparr>wd_engine := e\<rparr>)"
| entered: "\<not> en_callback_active (wd_engine w) \<Longrightarrow> engine_open (wd_engine w) \<Longrightarrow> vendor_message h message header body \<Longrightarrow>
    e = (admission_stat (\<lambda>s. s\<lparr>as_callbacks := as_callbacks s + 1\<rparr>) (wd_engine w))\<lparr>en_callback_active := True\<rparr> \<Longrightarrow>
    callback_step h w (callback_begin h) (w\<lparr>wd_engine := e, wd_callback := Some (header, body, now)\<rparr>)"
| finished: "wd_callback w = Some (header, body, now) \<Longrightarrow> Admit_message header body now (wd_engine w) = (result, e) \<Longrightarrow>
    callback_step h w (callback_end (handler_result result h))
      (w\<lparr>wd_engine := e\<lparr>en_callback_active := False\<rparr>, wd_callback := None\<rparr>)"

text \<open>
  \<open>Shutdown\<close> and a failed \<open>Connect\<close> stop the handler first and return when no callback is running.  A
  \<open>Connect\<close> that fails before there is a manager has nothing that could call the handler.
\<close>

inductive ingest_step :: "Sdk \<Rightarrow> Options \<Rightarrow> Ingest \<Rightarrow> Ingest \<Rightarrow> bool" for sdk :: Sdk and options :: Options where
  decoder_turn: "ig_main g \<noteq> Main_Terminated \<Longrightarrow> lane_step schedule (ig_world g) w \<Longrightarrow> wd_calls w = wd_calls (ig_world g) @ calls \<Longrightarrow>
    drain_calls (ig_drain_running g) calls (ig_drains g) = Some threads \<Longrightarrow>
    ingest_step sdk options g (g\<lparr>ig_world := w, ig_consumed := fold count_call calls (ig_consumed g), ig_drains := threads\<rparr>)"
| drain_poll: "ig_main g \<noteq> Main_Terminated \<Longrightarrow> call = (c, consumer_delivers c (en_dispatcher (wd_engine (ig_world g)))) \<Longrightarrow>
    drain_call (ig_drain_running g) call (ig_drains g) = Some threads \<Longrightarrow>
    ingest_step sdk options g (g\<lparr>ig_world := consumer_step c (ig_world g),
      ig_consumed := count_call call (ig_consumed g), ig_drains := threads\<rparr>)"
| drain_return: "ig_main g \<noteq> Main_Terminated \<Longrightarrow> owner < length (ig_drains g) \<Longrightarrow> ig_drains g ! owner = Some [] \<Longrightarrow> \<not> ig_drain_running g \<Longrightarrow>
    ingest_step sdk options g (g\<lparr>ig_drains := (ig_drains g)[owner := None]\<rparr>)"
| callback: "session_live (ig_main g) \<Longrightarrow> callback_step (ig_handler g) (ig_world g) h w \<Longrightarrow>
    ingest_step sdk options g (g\<lparr>ig_world := w, ig_handler := h\<rparr>)"
| signal: "handles_signals (ig_main g) \<Longrightarrow> ingest_step sdk options g (HandleSignal g)"
| start_begin: "ig_main g = Main_Start \<Longrightarrow> Start_begin outcome clock (wd_engine (ig_world g)) = (err, e) \<Longrightarrow>
    ingest_step sdk options g (g\<lparr>ig_world := (ig_world g)\<lparr>wd_engine := e,
      wd_phase := if err = None then Phase_Starting else Phase_Stopping\<rparr>, ig_main := Main_Starting\<rparr>)"
| start_failed: "ig_main g = Main_Starting \<Longrightarrow> wd_phase (ig_world g) = Phase_Starting \<Longrightarrow>
    Start_end pf (wd_engine (ig_world g)) = (Some error, e) \<Longrightarrow>
    ingest_step sdk options g (g\<lparr>ig_world := (ig_world g)\<lparr>wd_engine := e, wd_phase := Phase_Stopping\<rparr>\<rparr>)"
| started: "ig_main g = Main_Starting \<Longrightarrow> wd_phase (ig_world g) = Phase_Starting \<Longrightarrow>
    Start_end pf (wd_engine (ig_world g)) = (None, e) \<Longrightarrow>
    ingest_step sdk options g (g\<lparr>ig_world := (ig_world g)\<lparr>wd_engine := e, wd_phase := Phase_Idle\<rparr>,
      ig_drains := replicate (instrument_workers (op_engine options)) (Some []), ig_main := Main_Connect\<rparr>)"
| connected: "ig_main g = Main_Connect \<Longrightarrow> Connect sdk (op_sdk options) True = (events, Connected session) \<Longrightarrow>
    ingest_step sdk options g (g\<lparr>ig_main := Main_Run session\<rparr>)"
| connect_failed: "ig_main g = Main_Connect \<Longrightarrow> Connect sdk (op_sdk options) True = (events, ConnectFailed error) \<Longrightarrow>
    mh_active_callbacks (ig_handler g) = 0 \<Longrightarrow>
    h = (if Handler_StopAccepting \<in> set events then StopAccepting (ig_handler g) else ig_handler g) \<Longrightarrow>
    ingest_step sdk options g (g\<lparr>ig_handler := h, ig_drain_running := False, ig_main := Main_Abort\<rparr>)"
| connect_terminated: "ig_main g = Main_Connect \<Longrightarrow> Connect sdk (op_sdk options) True = (events, Terminated) \<Longrightarrow>
    ingest_step sdk options g (g\<lparr>ig_main := Main_Terminated\<rparr>)"
| run_ends: "ig_main g = Main_Run session \<Longrightarrow>
    ig_stop_requested g \<or> \<not> hl_healthy (en_health (wd_engine (ig_world g))) \<or> mh_failed (ig_handler g) \<Longrightarrow>
    h = (if se_shutdown session then ig_handler g else StopAccepting (ig_handler g)) \<Longrightarrow>
    ingest_step sdk options g (g\<lparr>ig_handler := h, ig_main := Main_Shutdown session\<rparr>)"
| shut_down: "ig_main g = Main_Shutdown session \<Longrightarrow> Shutdown sdk session = Some (events, session') \<Longrightarrow>
    mh_active_callbacks (ig_handler g) = 0 \<Longrightarrow>
    ingest_step sdk options g (g\<lparr>ig_main := Main_Stop False\<rparr>)"
| shutdown_terminated: "ig_main g = Main_Shutdown session \<Longrightarrow> Shutdown sdk session = None \<Longrightarrow>
    ingest_step sdk options g (g\<lparr>ig_main := Main_Terminated\<rparr>)"
| abort_joined: "ig_main g = Main_Abort \<Longrightarrow> all_returned (ig_drains g) \<Longrightarrow>
    ingest_step sdk options g (g\<lparr>ig_main := Main_Stop True\<rparr>)"
| stop_gate: "ig_main g = Main_Stop aborted \<Longrightarrow>
    ingest_step sdk options g (g\<lparr>ig_world := (ig_world g)\<lparr>wd_engine := Stop_gate (wd_engine (ig_world g)),
      wd_phase := Phase_Stopping\<rparr>, ig_main := Main_Stopping aborted\<rparr>)"
| stop_running: "after_stop (ig_main g) \<noteq> None \<Longrightarrow> wd_phase (ig_world g) = Phase_Stopping \<Longrightarrow>
    \<not> en_callback_active (wd_engine (ig_world g)) \<Longrightarrow>
    ingest_step sdk options g (g\<lparr>ig_world := (ig_world g)\<lparr>wd_engine := Stop_running (wd_engine (ig_world g)),
      wd_phase := Phase_Joining\<rparr>\<rparr>)"
| stop_join: "after_stop (ig_main g) = Some position \<Longrightarrow> wd_phase (ig_world g) = Phase_Joining \<Longrightarrow>
    all_finished (wd_engine (ig_world g)) \<Longrightarrow>
    ingest_step sdk options g (g\<lparr>ig_world := (ig_world g)\<lparr>wd_engine := Stop_join (wd_engine (ig_world g)),
      wd_phase := Phase_Idle\<rparr>, ig_main := position\<rparr>)"
| drained: "ig_main g = Main_Wait \<Longrightarrow> all_consumed (ig_consumed g) (Stats (wd_engine (ig_world g))) \<Longrightarrow>
    ingest_step sdk options g (g\<lparr>ig_drain_running := False, ig_main := Main_Join\<rparr>)"
| joined: "ig_main g = Main_Join \<Longrightarrow> all_returned (ig_drains g) \<Longrightarrow>
    ingest_step sdk options g (g\<lparr>ig_main := Main_Gaps\<rparr>)"
| final_gap: "ig_main g = Main_Gaps \<Longrightarrow> consumer_delivers PollGaps (en_dispatcher (wd_engine (ig_world g))) \<Longrightarrow>
    ingest_step sdk options g (g\<lparr>ig_world := consumer_step PollGaps (ig_world g),
      ig_consumed := count_call (PollGaps, True) (ig_consumed g)\<rparr>)"
| finish: "ig_main g = Main_Gaps \<Longrightarrow> \<not> consumer_delivers PollGaps (en_dispatcher (wd_engine (ig_world g))) \<Longrightarrow>
    ingest_step sdk options g (g\<lparr>ig_world := consumer_step PollGaps (ig_world g), ig_main := Main_Exit (exit_code g)\<rparr>)"

text \<open>The states of a process that \<open>main_setup\<close> lets run.\<close>

inductive ingest_run :: "Sdk \<Rightarrow> Options \<Rightarrow> Engine \<Rightarrow> Ingest \<Rightarrow> bool"
  for sdk :: Sdk and options :: Options and engine :: Engine where
  begun: "ingest_run sdk options engine (ingest_start engine)"
| stepped: "ingest_run sdk options engine g \<Longrightarrow> ingest_step sdk options g g' \<Longrightarrow> ingest_run sdk options engine g'"

end
