(* ===== verification/Ingest_Invariant.thy ===== *)
theory Ingest_Invariant
  imports Ingest_Run
begin

text \<open>
  The invariant of the running process: at each position of \<open>main\<close>, in which phase the engine is, which
  drain threads run, and what has been delivered.
\<close>

section \<open>Positions\<close>

text \<open>Nothing is left in the queues, as long as the lanes have sent fewer records than a counter counts.\<close>

definition records_drained :: "EngineConfig \<Rightarrow> World \<Rightarrow> bool" where
  "records_drained cfg w \<longleftrightarrow> (\<forall>k. sent_total cfg (world_env0 w) k < 2 ^ 64 \<longrightarrow>
     queued_total cfg (en_dispatcher (wd_engine w)) k = 0)"

definition words_settled :: "Dispatcher \<Rightarrow> bool" where
  "words_settled d \<longleftrightarrow> (\<forall>v < length (dp_gap_consumer_pending d). word_settled d v)"

definition draining :: "EngineConfig \<Rightarrow> Ingest \<Rightarrow> bool" where
  "draining cfg g \<longleftrightarrow> ig_drain_running g \<and> all_draining (ig_drains g) \<and> length (ig_drains g) = instrument_workers cfg"

definition main_ok :: "EngineConfig \<Rightarrow> Ingest \<Rightarrow> bool" where
  "main_ok cfg g \<longleftrightarrow>
    (let w = ig_world g; d = en_dispatcher (wd_engine w) in
     case ig_main g of
       Main_Start \<Rightarrow> wd_phase w = Phase_Idle \<and> \<not> en_started (wd_engine w) \<and> ig_drains g = [] \<and> ig_drain_running g
     | Main_Starting \<Rightarrow> wd_phase w \<noteq> Phase_Idle \<and> ig_drains g = [] \<and> ig_drain_running g
     | Main_Connect \<Rightarrow> wd_phase w = Phase_Idle \<and> draining cfg g
     | Main_Run session \<Rightarrow> wd_phase w = Phase_Idle \<and> draining cfg g
     | Main_Shutdown session \<Rightarrow> wd_phase w = Phase_Idle \<and> draining cfg g
     | Main_Abort \<Rightarrow> wd_phase w = Phase_Idle \<and> \<not> ig_drain_running g
     | Main_Stop aborted \<Rightarrow> wd_phase w = Phase_Idle \<and> (aborted \<or> draining cfg g)
     | Main_Stopping aborted \<Rightarrow> wd_phase w \<in> {Phase_Stopping, Phase_Joining} \<and> (aborted \<or> draining cfg g)
     | Main_Wait \<Rightarrow> stopped w \<and> draining cfg g
     | Main_Join \<Rightarrow> stopped w \<and> \<not> ig_drain_running g \<and> records_drained cfg w
     | Main_Gaps \<Rightarrow> stopped w \<and> all_returned (ig_drains g) \<and> records_drained cfg w \<and> words_settled d
     | Main_Exit code \<Rightarrow> code \<in> {0, 1} \<and> (code = 0 \<longrightarrow> stopped w \<and> all_returned (ig_drains g) \<and> records_drained cfg w \<and>
         unread_cells d = {} \<and> hl_healthy (en_health (wd_engine w)) \<and> \<not> mh_failed (ig_handler g))
     | Main_Terminated \<Rightarrow> True)"

definition drains_over :: "MainPosition \<Rightarrow> bool" where
  "drains_over position \<longleftrightarrow> (case position of Main_Gaps \<Rightarrow> True | Main_Exit code \<Rightarrow> True | _ \<Rightarrow> False)"

definition ingest_ok :: "EngineConfig \<Rightarrow> InstrumentCatalog \<Rightarrow> Ingest \<Rightarrow> bool" where
  "ingest_ok cfg cat g \<longleftrightarrow> engine_run cfg cat (ig_world g) \<and>
     (\<forall>k. consumed k (ig_consumed g) = of_nat (delivered k (wd_calls (ig_world g)))) \<and>
     (drains_over (ig_main g) \<or> gap_loop_done (wd_calls (ig_world g)) \<or> gap_loop_open (ig_drains g)) \<and>
     (session_live (ig_main g) \<or> ig_main g = Main_Terminated \<or> wd_callback (ig_world g) = None) \<and> main_ok cfg g \<and>
     own_loops (ig_drains g) \<and>
     mh_active_callbacks (ig_handler g) = (if wd_callback (ig_world g) = None then 0 else 1)"

lemma ingest_okD:
  assumes "ingest_ok cfg cat g"
  shows "engine_run cfg cat (ig_world g)" "consumed k (ig_consumed g) = of_nat (delivered k (wd_calls (ig_world g)))"
    "drains_over (ig_main g) \<or> gap_loop_done (wd_calls (ig_world g)) \<or> gap_loop_open (ig_drains g)"
    "session_live (ig_main g) \<or> ig_main g = Main_Terminated \<or> wd_callback (ig_world g) = None" "main_ok cfg g"
    "own_loops (ig_drains g)" "mh_active_callbacks (ig_handler g) = (if wd_callback (ig_world g) = None then 0 else 1)"
  using assms by (simp_all add: ingest_ok_def)

text \<open>A step that leaves \<open>main\<close> where it is.\<close>

lemma main_ok_stays:
  assumes "main_ok cfg g" and "ig_main g' = ig_main g" and "wd_phase (ig_world g') = wd_phase (ig_world g)"
    and "en_started (wd_engine (ig_world g')) = en_started (wd_engine (ig_world g))"
    and "ig_drain_running g' = ig_drain_running g" and "length (ig_drains g') = length (ig_drains g)"
    and "ig_drain_running g \<Longrightarrow> all_draining (ig_drains g) \<Longrightarrow> all_draining (ig_drains g')"
    and "stopped (ig_world g) \<Longrightarrow> stopped (ig_world g') \<and>
      (records_drained cfg (ig_world g) \<longrightarrow> records_drained cfg (ig_world g'))"
    and "stopped (ig_world g) \<Longrightarrow> all_returned (ig_drains g) \<Longrightarrow> all_returned (ig_drains g') \<and>
      wd_engine (ig_world g') = wd_engine (ig_world g) \<and> ig_handler g' = ig_handler g"
  shows "main_ok cfg g'"
  using assms by (auto simp: main_ok_def draining_def Let_def split: MainPosition.splits)

lemma all_consumed_total: "all_consumed cn st \<Longrightarrow> dispatched_total k st \<le> consumed k cn"
  by (cases k) (simp_all add: all_consumed_def)

section \<open>The world under the steps of the process\<close>

lemma OnMessage_cases:
  assumes "OnMessage message now h e = (h', e')"
  shows "e' = e \<or> (\<exists>header body r. vendor_message h message header body \<and> Admit header body now e = (r, e'))"
    and "mh_active_callbacks h' = mh_active_callbacks h"
proof -
  obtain h1 where m: "handle_message message now (callback_begin h) e = (h1, e')" and h': "h' = callback_end h1"
    using assms by (auto simp: OnMessage_def split: prod.splits)
  have "(e' = e \<or> (\<exists>header body r. vendor_message h message header body \<and> Admit header body now e = (r, e'))) \<and>
    mh_active_callbacks h1 = mh_active_callbacks (callback_begin h)"
    by (rule handle_message_cases [OF m]) (auto simp: vendor_message_begin handler_result_def)
  then show "e' = e \<or> (\<exists>header body r. vendor_message h message header body \<and> Admit header body now e = (r, e'))"
    "mh_active_callbacks h' = mh_active_callbacks h"
    by (simp_all add: h' callback_end_def callback_begin_def)
qed

lemma callback_step_engine:
  assumes "callback_step h w h' w'"
  shows "w' = w \<or> engine_step w w'"
  using assms
proof cases
  case (refused message now e)
  consider "e = wd_engine w" | header body r where "vendor_message h message header body" "Admit header body now (wd_engine w) = (r, e)"
    using OnMessage_cases(1) [OF refused(3)] by blast
  then show ?thesis
  proof cases
    case 1
    then show ?thesis by (simp add: refused(1))
  next
    case 2
    then show ?thesis
      using refused(1,2) engine_step.callback_closed [of w] engine_step.callback_overlap [of w] by blast
  qed
qed (auto intro: engine_step.callback_enter engine_step.callback_finish)

lemma StopAccepting_active [simp]: "mh_active_callbacks (StopAccepting h) = mh_active_callbacks h"
  by (simp add: StopAccepting_def)

lemma callback_step_fields:
  "callback_step h w h' w' \<Longrightarrow> wd_phase w' = wd_phase w \<and> wd_calls w' = wd_calls w"
  by (induction rule: callback_step.induct) simp_all

text \<open>The handler counts the callback that is in \<open>Admit\<close>.\<close>

lemma callback_step_active:
  assumes "callback_step h w h' w'" and "mh_active_callbacks h = (if wd_callback w = None then 0 else 1)"
    and "\<not> en_callback_active (wd_engine w) \<Longrightarrow> wd_callback w = None"
  shows "mh_active_callbacks h' = (if wd_callback w' = None then 0 else 1)"
  using assms
proof cases
  case (refused message now e)
  then show ?thesis using assms(2) OnMessage_cases(2) [OF refused(3)] by simp
qed (simp_all add: callback_begin_def callback_end_def handler_result_def)

lemma records_drained_poll:
  assumes ok: "world_ok cfg cat w" and "records_drained cfg w"
  shows "records_drained cfg (consumer_step c w)"
  using assms(2) call_queued [OF world_dims(1) [OF ok], of _ c]
  by (auto simp: records_drained_def consumer_step_sent [OF ok] consumer_step_world(1))

lemma calls_received:
  assumes "world_ok cfg cat w"
  shows "delivered k (wd_calls w) = received_total cfg w k"
  using world_dims(3) [OF assms] by (simp add: calls_ok_def received_total_def)

text \<open>When the counters have caught up, the queues are empty.\<close>

lemma caught_up:
  assumes ok: "world_ok cfg cat w" and bal: "balanced cfg w"
    and cn: "\<And>k. consumed k cn = of_nat (delivered k (wd_calls w))" and caught: "all_consumed cn (Stats (wd_engine w))"
  shows "records_drained cfg w"
  unfolding records_drained_def
proof (intro allI impI)
  fix k
  let ?r = "received_total cfg w k" and ?q = "queued_total cfg (en_dispatcher (wd_engine w)) k"
  assume "sent_total cfg (world_env0 w) k < 2 ^ 64"
  then have small: "?r + ?q < 2 ^ 64" by (simp add: sent_total_split received_total_def)
  have "(of_nat (?r + ?q) :: u64) \<le> of_nat ?r"
    using all_consumed_total [OF caught, of k] Stats_totals [OF world_okD(1) [OF ok] bal, of k] cn [of k]
    by (simp add: calls_received [OF ok])
  then have le: "unat (of_nat (?r + ?q) :: u64) \<le> unat (of_nat ?r :: u64)" by (simp only: word_le_nat_alt)
  have n: "unat (of_nat n :: u64) = n" if "n < 2 ^ 64" for n using that by (simp add: unat_of_nat)
  have "unat (of_nat ?r :: u64) = ?r" using small by (intro n) linarith
  then have "?r + ?q \<le> ?r" using le unfolding n [OF small] by (simp only:)
  then show "?q = 0" by simp
qed

lemma settled_gap_poll:
  assumes ok: "world_ok cfg cat w" and settled: "words_settled (en_dispatcher (wd_engine w))"
  defines "d \<equiv> en_dispatcher (wd_engine w)" and "d' \<equiv> en_dispatcher (wd_engine (consumer_step PollGaps w))"
  shows "words_settled d'" and "\<not> consumer_delivers PollGaps d \<Longrightarrow> unread_cells d' = {}"
proof -
  have gaps: "gap_ok d" using world_dims(2) [OF ok] by (simp add: d_def)
  obtain r q where t: "TryPollGap d = (r, q)" by fastforce
  have d': "d' = q" using t by (simp add: d'_def d_def consumer_step_world(1))
  note S = TryPollGap_spec [OF gaps t]
  show "words_settled d'"
    using settled S(1,4) by (simp add: words_settled_def d' gap_polled_def d_def)
  assume "\<not> consumer_delivers PollGaps d"
  then have r: "r = None" using t by simp
  have "unread_cells d = {}"
    using S(3) [OF r] settled by (auto simp: unread_cells_def words_settled_def d_def)
  then show "unread_cells d' = {}" using TryPollGap_unread(1) [OF gaps t r] by (simp add: d')
qed

section \<open>Every step keeps the invariant\<close>

lemma ingest_ok_step:
  assumes step: "ingest_step sdk options g g'" and ok: "ingest_ok (op_engine options) cat g"
    and sizes: "config_sizes (op_engine options)"
  shows "ingest_ok (op_engine options) cat g'"
proof -
  let ?cfg = "op_engine options" and ?w = "ig_world g"
  note I = ingest_okD [OF ok]
  note world = engine_run_ok [OF I(1) sizes]
  note moved = engine_run.stepped [OF I(1)]
  have idle: "wd_callback ?w = None" if "\<not> en_callback_active (wd_engine ?w)"
    using control_okD(1) [OF world_okD(5) [OF world]] that by (cases "wd_callback ?w") simp_all
  have quiet: "wd_callback ?w = None" if "mh_active_callbacks (ig_handler g) = 0"
    using I(7) that by (simp split: if_splits)
  show ?thesis
    using step
  proof cases
    case (decoder_turn schedule w calls threads)
    note F = lane_step_fields [OF decoder_turn(3)] and T = drain_calls_threads [OF decoder_turn(5)]
    have "\<not> stopped ?w" using F(5) by (auto simp: stopped_def Let_def)
    then have "main_ok ?cfg g'" by (intro main_ok_stays [OF I(5)]) (simp_all add: decoder_turn(1) F T)
    moreover have "own_loops threads" by (rule drain_calls_own [OF decoder_turn(5) I(6)])
    moreover have "gap_loop_done (wd_calls w) \<or> gap_loop_open threads" if "\<not> drains_over (ig_main g)"
      using drain_calls_gap [OF decoder_turn(5)] I(3) that decoder_turn(4) by simp
    ultimately show ?thesis
      using I(2,4,7) moved [OF lane_step_engine [OF decoder_turn(3)]]
      by (auto simp: ingest_ok_def decoder_turn(1,4) consumed_calls F)
  next
    case (drain_poll call c threads)
    note T = drain_call_threads [OF drain_poll(4)]
    have "main_ok ?cfg g'"
      by (intro main_ok_stays [OF I(5)])
        (use T records_drained_poll [OF world] in \<open>simp_all add: drain_poll(1) consumer_step_fields consumer_step_stopped\<close>)
    moreover have "own_loops threads" by (rule drain_call_own [OF drain_poll(4) I(6)])
    moreover have "gap_loop_done (wd_calls ?w @ [call]) \<or> gap_loop_open threads" if "\<not> drains_over (ig_main g)"
      using drain_call_gap [OF drain_poll(4)] I(3) that by simp
    ultimately show ?thesis
      using I(2,4,7) moved [OF engine_step.consumer [of ?w c]]
      by (auto simp: ingest_ok_def drain_poll(1,3) consumed_call consumer_step_fields consumer_step_world(2))
  next
    case (drain_return owner)
    have "gap_loop_open ((ig_drains g)[owner := None])" if "gap_loop_open (ig_drains g)"
      using that drain_return(4) by (cases "owner = 0") (auto simp: gap_loop_open_def nth_list_update)
    moreover have "all_returned ((ig_drains g)[owner := None])" if "all_returned (ig_drains g)"
      using that set_update_subset_insert [of "ig_drains g" owner None] by (auto simp: all_returned_def)
    then have "main_ok ?cfg g'"
      using drain_return(5) by (intro main_ok_stays [OF I(5)]) (simp_all add: drain_return(1))
    moreover have "own_loops ((ig_drains g)[owner := None])"
      by (rule own_loops_update [OF I(6) drain_return(3)]) simp
    ultimately show ?thesis using I by (auto simp: ingest_ok_def drain_return(1))
  next
    case (callback h w)
    have "engine_run ?cfg cat w" using callback_step_engine [OF callback(3)] I(1) moved by blast
    moreover have "main_ok ?cfg g'"
      using I(5) callback(2) callback_step_fields [OF callback(3)]
      by (cases "ig_main g") (simp_all add: main_ok_def draining_def Let_def callback(1))
    moreover note callback_step_active [OF callback(3) I(7) idle]
    ultimately show ?thesis
      using I callback(2) callback_step_fields [OF callback(3)] by (simp add: ingest_ok_def callback(1))
  next
    case signal
    have "main_ok ?cfg g'"
      using I(5) by (simp add: main_ok_def draining_def Let_def signal(1) HandleSignal_def cong: MainPosition.case_cong)
    then show ?thesis using I by (simp add: ingest_ok_def signal(1) HandleSignal_def)
  next
    case (start_begin outcome clock err e)
    have M: "wd_phase ?w = Phase_Idle" "\<not> en_started (wd_engine ?w)" "ig_drains g = []" "ig_drain_running g"
      using I(5) start_begin(2) by (simp_all add: main_ok_def Let_def)
    show ?thesis
      using I start_begin(2) M moved [OF engine_step.start_begin [OF M(1,2) start_begin(3)]]
      by (simp add: ingest_ok_def start_begin(1) main_ok_def Let_def drains_over_def)
  next
    case (start_failed pf error e)
    show ?thesis
      using I start_failed(2) moved [OF engine_step.start_end [OF start_failed(3,4)]]
      by (simp add: ingest_ok_def start_failed(1) main_ok_def Let_def)
  next
    case (started pf e)
    have "gap_loop_done (wd_calls ?w)"
      using I(3,5) started(2) by (simp add: main_ok_def Let_def drains_over_def gap_loop_open_def)
    then show ?thesis
      using I started(2) moved [OF engine_step.start_end [OF started(3,4)]]
      by (simp add: ingest_ok_def started(1) main_ok_def Let_def draining_def all_draining_def own_loops_def)
  next
    case (connected events session)
    then show ?thesis using I by (simp add: ingest_ok_def main_ok_def Let_def draining_def drains_over_def)
  next
    case (connect_failed events error h)
    then show ?thesis using I(1-6) quiet [OF connect_failed(4)] by (simp add: ingest_ok_def main_ok_def Let_def draining_def drains_over_def)
  next
    case (connect_terminated events)
    then show ?thesis using I by (simp add: ingest_ok_def main_ok_def drains_over_def)
  next
    case (run_ends session)
    then show ?thesis using I by (simp add: ingest_ok_def main_ok_def Let_def draining_def drains_over_def)
  next
    case (shut_down session events session')
    then show ?thesis using I(1-6) quiet [OF shut_down(4)] by (simp add: ingest_ok_def main_ok_def Let_def draining_def drains_over_def)
  next
    case (shutdown_terminated session)
    then show ?thesis using I by (simp add: ingest_ok_def main_ok_def drains_over_def)
  next
    case abort_joined
    then show ?thesis using I by (simp add: ingest_ok_def main_ok_def Let_def drains_over_def)
  next
    case (stop_gate aborted)
    have M: "wd_phase ?w = Phase_Idle" using I(5) stop_gate(2) by (simp add: main_ok_def Let_def)
    show ?thesis
      using I stop_gate(2) moved [OF engine_step.stop_gate [OF M]]
      by (simp add: ingest_ok_def stop_gate(1) main_ok_def Let_def draining_def drains_over_def)
  next
    case stop_running
    then show ?thesis
      using I moved [OF engine_step.stop_running [OF stop_running(3,4)]]
      by (cases "ig_main g") (simp_all add: ingest_ok_def main_ok_def Let_def draining_def)
  next
    case (stop_join position)
    have "main_ok ?cfg g'"
      using I(5) stop_join(2) join_stopped [OF world stop_join(3,4)]
      by (cases "ig_main g" rule: after_stop.cases) (auto simp: stop_join(1) main_ok_def Let_def draining_def)
    moreover have "drains_over position \<or> gap_loop_done (wd_calls ?w) \<or> gap_loop_open (ig_drains g)"
      using I(3) stop_join(2) by (cases "ig_main g" rule: after_stop.cases) (auto simp: drains_over_def)
    moreover have "wd_callback ?w = None"
      using I(4) stop_join(2) by (cases "ig_main g" rule: after_stop.cases) auto
    ultimately show ?thesis
      using I(2,6,7) moved [OF engine_step.stop_join [OF stop_join(3,4)]] by (simp add: ingest_ok_def stop_join(1))
  next
    case drained
    have "records_drained ?cfg ?w"
      by (rule caught_up [OF world engine_run_balanced [OF I(1) sizes] I(2) drained(3)])
    then show ?thesis
      using I drained by (simp add: ingest_ok_def main_ok_def Let_def drains_over_def)
  next
    case joined
    have "\<not> gap_loop_open (ig_drains g)"
      using joined(3) by (auto simp: gap_loop_open_def all_returned_def neq_Nil_conv)
    then have "gap_loop_done (wd_calls ?w)" using I(3) joined(2) by (simp add: drains_over_def)
    then have "words_settled (en_dispatcher (wd_engine ?w))"
      using world_dims(3) [OF world] by (simp add: calls_ok_def nothing_pending_def words_settled_def word_settled_def)
    then show ?thesis
      using I joined by (simp add: ingest_ok_def main_ok_def Let_def drains_over_def)
  next
    case final_gap
    have "stopped ?w" "words_settled (en_dispatcher (wd_engine ?w))" "all_returned (ig_drains g)" "records_drained ?cfg ?w"
      using I(5) final_gap(2) by (simp_all add: main_ok_def Let_def)
    then have "main_ok ?cfg g'"
      using settled_gap_poll(1) [OF world] consumer_step_stopped records_drained_poll [OF world]
      by (simp add: final_gap(1,2) main_ok_def Let_def)
    then show ?thesis
      using I moved [OF engine_step.consumer [of ?w PollGaps]] final_gap(2,3)
      by (simp add: ingest_ok_def final_gap(1) consumed_call consumer_step_fields consumer_step_world(2) drains_over_def)
  next
    case finish
    have M: "stopped ?w" "words_settled (en_dispatcher (wd_engine ?w))" "all_returned (ig_drains g)" "records_drained ?cfg ?w"
      using I(5) finish(2) by (simp_all add: main_ok_def Let_def)
    then have "main_ok ?cfg g'"
      using settled_gap_poll(2) [OF world M(2) finish(3)] consumer_step_stopped records_drained_poll [OF world]
      by (simp add: finish(1) main_ok_def Let_def exit_code_def consumer_step_world(3))
    then show ?thesis
      using I moved [OF engine_step.consumer [of ?w PollGaps]] finish(2,3)
      by (simp add: ingest_ok_def finish(1) consumer_step_fields consumer_step_world(2) drains_over_def)
  qed
qed

end
