(* ===== verification/Ingest_Progress.thy ===== *)
theory Ingest_Progress
  imports Ingest_Invariant
begin

text \<open>
  The process comes to its end: from every position of \<open>main\<close> there is a way on, down to the exit code.
  The drain threads empty the queues while they run, and return once they are told to.
\<close>

section \<open>Reachable states\<close>

lemma ingest_ok_start:
  assumes "main_setup args files = Some (MainRun options cat engine)"
  shows "ingest_ok (op_engine options) cat (ingest_start engine)"
proof -
  note C = main_setup_created [OF assms]
  have "\<not> en_started engine" using Create_fields [OF C(1)] by simp
  then show ?thesis
    using engine_run.created [OF C(1)]
    by (simp add: ingest_ok_def ingest_start_def initial_world_def main_ok_def delivered_def own_loops_def
        new_handler_def)
qed

lemma ingest_run_ok:
  assumes "main_setup args files = Some (MainRun options cat engine)" and "ingest_run sdk options engine g"
  shows "ingest_ok (op_engine options) cat g"
  using assms(2)
  by induction (blast intro: ingest_ok_start [OF assms(1)] ingest_ok_step main_setup_created(2) [OF assms(1)])+

lemma ingest_ok_steps:
  assumes "(ingest_step sdk options)\<^sup>*\<^sup>* g g'" and "ingest_ok (op_engine options) cat g" and "config_sizes (op_engine options)"
  shows "ingest_ok (op_engine options) cat g'"
  using assms by induction (blast intro: ingest_ok_step)+

text \<open>What the steps of this theory start from.\<close>

definition good :: "Sdk \<Rightarrow> Options \<Rightarrow> InstrumentCatalog \<Rightarrow> Ingest \<Rightarrow> bool" where
  "good sdk options cat g \<longleftrightarrow> ingest_ok (op_engine options) cat g \<and> config_sizes (op_engine options)"

lemma goodD:
  assumes "good sdk options cat g"
  shows "ingest_ok (op_engine options) cat g" "config_sizes (op_engine options)"
    "world_ok (op_engine options) cat (ig_world g)" "main_ok (op_engine options) g" "own_loops (ig_drains g)"
    "cfg_maximum_text_bytes (op_engine options) \<le> kMaximumIdentityBytes" "0 < instrument_workers (op_engine options)"
    "balanced (op_engine options) (ig_world g)"
proof -
  show ok: "ingest_ok (op_engine options) cat g" and sizes: "config_sizes (op_engine options)"
    using assms by (simp_all add: good_def)
  note I = ingest_okD [OF ok]
  show "world_ok (op_engine options) cat (ig_world g)" by (rule engine_run_ok [OF I(1) sizes])
  show "main_ok (op_engine options) g" "own_loops (ig_drains g)" by (rule I)+
  note V = ValidateConfig_accepted [OF engine_run_valid [OF I(1)]]
  show "cfg_maximum_text_bytes (op_engine options) \<le> kMaximumIdentityBytes" "0 < instrument_workers (op_engine options)"
    by (rule V)+
  show "balanced (op_engine options) (ig_world g)" by (rule engine_run_balanced [OF I(1) sizes])
qed

definition leads :: "Sdk \<Rightarrow> Options \<Rightarrow> Ingest \<Rightarrow> (Ingest \<Rightarrow> bool) \<Rightarrow> bool" where
  "leads sdk options g P \<longleftrightarrow> (\<exists>g'. (ingest_step sdk options)\<^sup>*\<^sup>* g g' \<and> P g')"

lemma good_step: "good sdk options cat g \<Longrightarrow> ingest_step sdk options g g' \<Longrightarrow> good sdk options cat g'"
  by (auto simp: good_def intro: ingest_ok_step)

lemma good_steps: "good sdk options cat g \<Longrightarrow> (ingest_step sdk options)\<^sup>*\<^sup>* g g' \<Longrightarrow> good sdk options cat g'"
  by (auto simp: good_def intro: ingest_ok_steps)

lemma leads_here: "P g \<Longrightarrow> leads sdk options g P"
  by (auto simp: leads_def)

lemma leads_step: "ingest_step sdk options g g' \<Longrightarrow> leads sdk options g' P \<Longrightarrow> leads sdk options g P"
  unfolding leads_def by (meson converse_rtranclp_into_rtranclp)

lemma leads_trans:
  assumes "good sdk options cat g" and "leads sdk options g P"
    and "\<And>g'. good sdk options cat g' \<Longrightarrow> P g' \<Longrightarrow> leads sdk options g' Q"
  shows "leads sdk options g Q"
  using assms good_steps unfolding leads_def by (meson rtranclp_trans)

section \<open>The drain threads\<close>

text \<open>While \<open>main\<close> waits, a queued record is taken within one round of the loops of its reader.\<close>

lemma reader_serves:
  assumes "good sdk options cat g" and "ig_main g = Main_Wait" and "ig_drains g ! v = Some loops" and v: "v < length (ig_drains g)"
    and k: "v < kind_readers (op_engine options) k" "p < kind_lanes (op_engine options) k"
    and "queued k (en_dispatcher (wd_engine (ig_world g))) p v \<noteq> 0"
  shows "leads sdk options g (\<lambda>g'. ig_main g' = Main_Wait \<and>
    backlog (op_engine options) (en_dispatcher (wd_engine (ig_world g')))
      < backlog (op_engine options) (en_dispatcher (wd_engine (ig_world g))))"
  using assms(1-3,7) v
proof (induction "if poll_for k v \<in> set loops then length loops else length loops + 6" arbitrary: g loops rule: less_induct)
  case less
  let ?cfg = "op_engine options" and ?d = "en_dispatcher (wd_engine (ig_world g))"
  note G = goodD [OF less.prems(1)] and P = poll_for [OF k(1)]
  have running: "ig_drain_running g" using G(4) less.prems(2) by (simp add: main_ok_def Let_def draining_def)
  have short: "length (drain_loops v) < 6" "drain_loops v \<noteq> []" by (simp_all add: drain_loops_def)
  obtain c rest where next_call: "(if loops = [] \<and> ig_drain_running g then drain_loops v else loops) = c # rest"
    using short(2) running by (cases "if loops = [] then drain_loops v else loops") (auto split: if_splits)
  have reader: "poll_reader c = v"
  proof (cases "loops = []")
    case True
    then show ?thesis using next_call running drain_loops_reader [of c v] by simp
  next
    case False
    then show ?thesis using next_call G(5) less.prems(3,5) by (auto simp: own_loops_def)
  qed
  let ?r = "consumer_delivers c ?d"
  let ?threads = "(ig_drains g)[v := Some (if ?r then c # rest else rest)]"
  let ?g1 = "g\<lparr>ig_world := consumer_step c (ig_world g), ig_consumed := count_call (c, ?r) (ig_consumed g), ig_drains := ?threads\<rparr>"
  have "drain_call (ig_drain_running g) (c, ?r) (ig_drains g) = Some ?threads"
    using less.prems(3,5) reader next_call by (simp add: drain_call_def)
  then have step: "ingest_step sdk options g ?g1"
    using less.prems(2) by (intro ingest_step.drain_poll) simp_all
  note dims = world_dims(1) [OF G(3)]
  show ?case
  proof (cases ?r)
    case True
    then have "backlog ?cfg (en_dispatcher (wd_engine (ig_world ?g1))) < backlog ?cfg ?d"
      using step_backlog(1) [OF G(3), of c] by simp
    then show ?thesis using less.prems(2) by (intro leads_step [OF step] leads_here) simp
  next
    case False
    have c: "c \<noteq> poll_for k v"
      using False delivers_queued [OF dims P(1), unfolded P(2), OF k less.prems(4)] by blast
    have same: "backlog ?cfg (en_dispatcher (wd_engine (ig_world ?g1))) = backlog ?cfg ?d"
      using step_backlog(2) [OF G(3), of c] False by simp
    have q: "queued k (en_dispatcher (wd_engine (ig_world ?g1))) p v \<noteq> 0"
      using less.prems(4) idle_call [OF dims False k(2,1)] by (simp add: consumer_step_world(1))
    have smaller: "(if poll_for k v \<in> set rest then length rest else length rest + 6)
        < (if poll_for k v \<in> set loops then length loops else length loops + 6)"
    proof (cases "loops = []")
      case True
      then have "drain_loops v = c # rest" using next_call running by simp
      then have "poll_for k v \<in> set rest" "length rest < 6" using P(3) c short(1) by auto
      then show ?thesis using True by simp
    next
      case False
      then have "loops = c # rest" using next_call by simp
      then show ?thesis using c by simp
    qed
    have "leads sdk options ?g1 (\<lambda>g'. ig_main g' = Main_Wait \<and>
        backlog ?cfg (en_dispatcher (wd_engine (ig_world g'))) < backlog ?cfg (en_dispatcher (wd_engine (ig_world ?g1))))"
      by (rule less.hyps [OF smaller good_step [OF less.prems(1) step]]) (use less.prems(2,5) False q in simp_all)
    then show ?thesis unfolding same by (rule leads_step [OF step])
  qed
qed

lemma wait_ends:
  assumes "good sdk options cat g" and "ig_main g = Main_Wait"
  shows "leads sdk options g (\<lambda>g'. ig_main g' = Main_Join)"
  using assms
proof (induction "backlog (op_engine options) (en_dispatcher (wd_engine (ig_world g)))" arbitrary: g rule: less_induct)
  case less
  let ?cfg = "op_engine options" and ?w = "ig_world g"
  note G = goodD [OF less.prems(1)]
  have draining: "all_draining (ig_drains g)" "length (ig_drains g) = instrument_workers ?cfg"
    using G(4) less.prems(2) by (simp_all add: main_ok_def Let_def draining_def)
  show ?case
  proof (cases "all_consumed (ig_consumed g) (Stats (wd_engine ?w))")
    case True
    show ?thesis by (rule leads_step [OF ingest_step.drained [OF less.prems(2) True]]) (simp add: leads_here)
  next
    case False
    have "\<exists>k. queued_total ?cfg (en_dispatcher (wd_engine ?w)) k \<noteq> 0"
    proof (rule ccontr)
      assume "\<not> ?thesis"
      then have "dispatched_total k (Stats (wd_engine ?w)) = consumed k (ig_consumed g)" for k
        using Stats_totals [OF world_okD(1) [OF G(3)] G(8), of k] ingest_okD(2) [OF G(1), of k] calls_received [OF G(3), of k]
        by simp
      from this [of Kind_Tick] this [of Kind_Snapshot] this [of Kind_Late] this [of Kind_Fault] False
      show False by (simp add: all_consumed_def)
    qed
    then obtain k p v where q: "p < kind_lanes ?cfg k" "v < kind_readers ?cfg k"
      "queued k (en_dispatcher (wd_engine ?w)) p v \<noteq> 0" by (auto simp: queued_total_def)
    have v: "v < length (ig_drains g)" using q(2) G(7) draining(2) by (cases k) simp_all
    obtain loops where "ig_drains g ! v = Some loops"
      using draining(1) nth_mem [OF v] by (cases "ig_drains g ! v") (auto simp: all_draining_def)
    from reader_serves [OF less.prems this v q(2,1,3)] show ?thesis
      by (rule leads_trans [OF less.prems(1)]) (use less.hyps in blast)
  qed
qed

text \<open>Once \<open>drain_running\<close> is cleared, every thread returns.\<close>

lemma threads_return:
  assumes "good sdk options cat g" and "\<not> ig_drain_running g" and "ig_main g \<noteq> Main_Terminated"
  shows "leads sdk options g (\<lambda>g'. ig_main g' = ig_main g \<and> all_returned (ig_drains g'))"
  using assms
proof (induction "backlog (op_engine options) (en_dispatcher (wd_engine (ig_world g))) + positions (ig_drains g)"
    arbitrary: g rule: less_induct)
  case less
  let ?cfg = "op_engine options" and ?d = "en_dispatcher (wd_engine (ig_world g))"
  note G = goodD [OF less.prems(1)]
  show ?case
  proof (cases "all_returned (ig_drains g)")
    case True
    then show ?thesis by (simp add: leads_here)
  next
    case False
    then obtain v loops where v: "v < length (ig_drains g)" "ig_drains g ! v = Some loops"
      by (auto simp: all_returned_def in_set_conv_nth subset_iff)
    have shorter: "positions ((ig_drains g)[v := thread]) + Suc (length loops) = positions (ig_drains g) +
        (case thread of None \<Rightarrow> 0 | Some loops \<Rightarrow> Suc (length loops))" for thread
      using positions_update [OF v(1), of thread] v(2) by simp
    obtain g1 where step: "ingest_step sdk options g g1" and keep: "ig_main g1 = ig_main g" "\<not> ig_drain_running g1"
      and smaller: "backlog ?cfg (en_dispatcher (wd_engine (ig_world g1))) + positions (ig_drains g1)
        < backlog ?cfg ?d + positions (ig_drains g)"
    proof (cases loops)
      case Nil
      then show thesis
        using that [OF ingest_step.drain_return [OF less.prems(3) v(1) _ less.prems(2)]] v(2) less.prems(2) shorter [of None]
        by simp
    next
      case (Cons c rest)
      let ?r = "consumer_delivers c ?d"
      let ?threads = "(ig_drains g)[v := Some (if ?r then c # rest else rest)]"
      have "poll_reader c = v" using G(5) v Cons by (auto simp: own_loops_def)
      then have "drain_call (ig_drain_running g) (c, ?r) (ig_drains g) = Some ?threads"
        using v Cons by (simp add: drain_call_def)
      note step = ingest_step.drain_poll [OF less.prems(3) refl this, of sdk options]
      show thesis
        by (rule that [OF step])
          (use less.prems(2) step_backlog [OF G(3), of c] shorter [of "Some (c # rest)"] shorter [of "Some rest"] Cons in auto)
    qed
    have "leads sdk options g1 (\<lambda>g'. ig_main g' = ig_main g1 \<and> all_returned (ig_drains g'))"
      by (rule less.hyps [OF smaller good_step [OF less.prems(1) step] keep(2)]) (use less.prems(3) keep(1) in simp)
    then show ?thesis unfolding keep(1) by (rule leads_step [OF step])
  qed
qed

section \<open>Callbacks and Stop\<close>

text \<open>While the session lives, a callback in progress can finish.\<close>

lemma callbacks_finish:
  assumes good: "good sdk options cat g" and live: "session_live (ig_main g)"
  shows "leads sdk options g (\<lambda>g'. ig_main g' = ig_main g \<and> mh_active_callbacks (ig_handler g') = 0)"
proof (cases "wd_callback (ig_world g)")
  case None
  then have "mh_active_callbacks (ig_handler g) = 0" using ingest_okD(7) [OF goodD(1) [OF good]] by simp
  then show ?thesis by (simp add: leads_here)
next
  case (Some callback)
  then obtain hb body now where cb: "wd_callback (ig_world g) = Some (hb, body, now)" by (cases callback) simp
  have one: "mh_active_callbacks (ig_handler g) = 1" using ingest_okD(7) [OF goodD(1) [OF good]] Some by simp
  obtain r e where adm: "Admit_message hb body now (wd_engine (ig_world g)) = (r, e)" by fastforce
  show ?thesis
    by (rule leads_step [OF ingest_step.callback [OF live callback_step.finished [OF cb adm]]])
      (simp add: leads_here callback_end_def handler_result_def one)
qed

lemma stop_steps_ingest:
  assumes "good sdk options cat g" and "stop_step\<^sup>*\<^sup>* (ig_world g) w" and stop: "after_stop (ig_main g) = Some position"
  shows "leads sdk options g (\<lambda>g'. ig_world g' = w \<and> ig_main g' = ig_main g \<and> ig_handler g' = ig_handler g)"
  using assms(2)
proof (induction rule: rtranclp_induct)
  case base
  then show ?case by (simp add: leads_here)
next
  case (step y z)
  have "leads sdk options h (\<lambda>g'. ig_world g' = z \<and> ig_main g' = ig_main g \<and> ig_handler g' = ig_handler g)"
    if h: "good sdk options cat h" "ig_world h = y" "ig_main h = ig_main g" "ig_handler h = ig_handler g" for h
    using step.hyps(2)
  proof cases
    case lane_turn
    have calls: "wd_calls z = wd_calls (ig_world h) @ []"
      using lane_step_quiet [OF goodD(3,6) [OF h(1)], of z] lane_turn h(2) by simp
    have "ig_main h \<noteq> Main_Terminated" using stop h(3) by auto
    from ingest_step.decoder_turn [OF this _ calls, of "[]" "ig_drains h"] lane_turn h(2)
    have "ingest_step sdk options h (h\<lparr>ig_world := z, ig_consumed := fold count_call [] (ig_consumed h), ig_drains := ig_drains h\<rparr>)"
      by simp
    then show ?thesis by (rule leads_step) (simp add: leads_here h(3,4))
  next
    case clear_running
    have "after_stop (ig_main h) \<noteq> None" using stop h(3) by simp
    from ingest_step.stop_running [OF this, of sdk options] clear_running h(2) show ?thesis
      by (intro leads_step [of sdk options h "h\<lparr>ig_world := z\<rparr>"] leads_here) (simp_all add: h(3,4))
  qed
  then show ?case using leads_trans [OF assms(1) step.IH] by blast
qed

lemma stop_ends:
  assumes good: "good sdk options cat g" and stop: "after_stop (ig_main g) = Some position"
    and phase: "wd_phase (ig_world g) \<in> {Phase_Stopping, Phase_Joining}"
  shows "leads sdk options g (\<lambda>g'. ig_main g' = position)"
proof -
  note G = goodD [OF good]
  have "wd_callback (ig_world g) = None"
    using ingest_okD(4) [OF G(1)] stop by (cases "ig_main g" rule: after_stop.cases) auto
  then have idle: "\<not> en_callback_active (wd_engine (ig_world g))"
    using control_okD(1) [OF world_okD(5) [OF G(3)]] by simp
  obtain w where w: "stop_step\<^sup>*\<^sup>* (ig_world g) w" "wd_phase w = Phase_Joining" "all_finished (wd_engine w)"
    using phase stop_path [OF G(3,6) _ idle] joining_drains [OF G(3,6)] by blast
  show ?thesis
  proof (rule leads_trans [OF good stop_steps_ingest [OF good w(1) stop]])
    fix h assume h: "good sdk options cat h" "ig_world h = w \<and> ig_main h = ig_main g \<and> ig_handler h = ig_handler g"
    then have "after_stop (ig_main h) = Some position" "wd_phase (ig_world h) = Phase_Joining"
      "all_finished (wd_engine (ig_world h))" using stop w(2,3) by simp_all
    from ingest_step.stop_join [OF this] show "leads sdk options h (\<lambda>g'. ig_main g' = position)"
      by (rule leads_step) (simp add: leads_here)
  qed
qed

section \<open>The end of the process\<close>

definition over :: "Ingest \<Rightarrow> bool" where
  "over g \<longleftrightarrow> (\<exists>code. ig_main g = Main_Exit code) \<or> ig_main g = Main_Terminated"

lemma gaps_over:
  assumes "good sdk options cat g" and "ig_main g = Main_Gaps"
  shows "leads sdk options g over"
  using assms
proof (induction "backlog (op_engine options) (en_dispatcher (wd_engine (ig_world g)))" arbitrary: g rule: less_induct)
  case less
  note G = goodD [OF less.prems(1)]
  show ?case
  proof (cases "consumer_delivers PollGaps (en_dispatcher (wd_engine (ig_world g)))")
    case True
    note step = ingest_step.final_gap [OF less.prems(2) True, of sdk options]
    show ?thesis
      by (rule leads_step [OF step less.hyps [OF _ good_step [OF less.prems(1) step]]])
        (use step_backlog(1) [OF G(3) True] less.prems(2) in simp_all)
  next
    case False
    show ?thesis by (rule leads_step [OF ingest_step.finish [OF less.prems(2) False]]) (simp add: leads_here over_def)
  qed
qed

lemma join_over:
  assumes good: "good sdk options cat g" and m: "ig_main g = Main_Join"
  shows "leads sdk options g over"
proof -
  have "\<not> ig_drain_running g" using goodD(4) [OF good] m by (simp add: main_ok_def Let_def)
  from threads_return [OF good this] m
  have "leads sdk options g (\<lambda>g'. ig_main g' = Main_Join \<and> all_returned (ig_drains g'))" by simp
  then show ?thesis
  proof (rule leads_trans [OF good])
    fix h assume h: "good sdk options cat h" "ig_main h = Main_Join \<and> all_returned (ig_drains h)"
    note step = ingest_step.joined [OF conjunct1 [OF h(2)] conjunct2 [OF h(2)], of sdk options]
    show "leads sdk options h over" by (rule leads_step [OF step gaps_over [OF good_step [OF h(1) step]]]) simp
  qed
qed

lemma stopping_over:
  assumes good: "good sdk options cat g" and m: "ig_main g = Main_Stopping aborted"
  shows "leads sdk options g over"
proof -
  have phase: "wd_phase (ig_world g) \<in> {Phase_Stopping, Phase_Joining}"
    using goodD(4) [OF good] m by (simp add: main_ok_def Let_def)
  show ?thesis
  proof (cases aborted)
    case True
    then have "leads sdk options g (\<lambda>g'. ig_main g' = Main_Exit 1)" using m by (intro stop_ends [OF good _ phase]) simp
    then show ?thesis by (rule leads_trans [OF good]) (simp add: leads_here over_def)
  next
    case False
    then have "leads sdk options g (\<lambda>g'. ig_main g' = Main_Wait)" using m by (intro stop_ends [OF good _ phase]) simp
    then show ?thesis
      by (rule leads_trans [OF good]) (use leads_trans wait_ends join_over in blast)
  qed
qed

lemma stop_over:
  assumes good: "good sdk options cat g" and m: "ig_main g = Main_Stop aborted"
  shows "leads sdk options g over"
proof -
  note step = ingest_step.stop_gate [OF m, of sdk options]
  show ?thesis by (rule leads_step [OF step stopping_over [OF good_step [OF good step]]]) simp
qed

lemma abort_over:
  assumes good: "good sdk options cat g" and m: "ig_main g = Main_Abort"
  shows "leads sdk options g over"
proof -
  have "\<not> ig_drain_running g" using goodD(4) [OF good] m by (simp add: main_ok_def Let_def)
  from threads_return [OF good this] m
  have "leads sdk options g (\<lambda>g'. ig_main g' = Main_Abort \<and> all_returned (ig_drains g'))" by simp
  then show ?thesis
  proof (rule leads_trans [OF good])
    fix h assume h: "good sdk options cat h" "ig_main h = Main_Abort \<and> all_returned (ig_drains h)"
    note step = ingest_step.abort_joined [OF conjunct1 [OF h(2)] conjunct2 [OF h(2)], of sdk options]
    show "leads sdk options h over" by (rule leads_step [OF step stop_over [OF good_step [OF h(1) step]]]) simp
  qed
qed

lemma shutdown_over:
  assumes good: "good sdk options cat g" and m: "ig_main g = Main_Shutdown session"
  shows "leads sdk options g over"
proof (cases "Shutdown sdk session")
  case None
  show ?thesis by (rule leads_step [OF ingest_step.shutdown_terminated [OF m None]]) (simp add: leads_here over_def)
next
  case (Some r)
  then obtain events session' where s: "Shutdown sdk session = Some (events, session')" by (cases r) simp
  have "session_live (ig_main g)" using m by simp
  from callbacks_finish [OF good this] show ?thesis
  proof (rule leads_trans [OF good])
    fix h assume h: "good sdk options cat h" "ig_main h = ig_main g \<and> mh_active_callbacks (ig_handler h) = 0"
    then have "ig_main h = Main_Shutdown session" "mh_active_callbacks (ig_handler h) = 0" using m by simp_all
    note step = ingest_step.shut_down [OF this(1) s this(2)]
    show "leads sdk options h over" by (rule leads_step [OF step stop_over [where aborted = False, OF good_step [OF h(1) step]]]) simp
  qed
qed

lemma run_over:
  assumes good: "good sdk options cat g" and m: "ig_main g = Main_Run session"
  shows "leads sdk options g over"
proof -
  have "handles_signals (ig_main g)" using m by simp
  note first = ingest_step.signal [OF this, of sdk options]
  have "ig_main (HandleSignal g) = Main_Run session" "ig_stop_requested (HandleSignal g)" using m by (simp_all add: HandleSignal_def)
  note second = ingest_step.run_ends [OF this(1) disjI1 [OF this(2)] refl, of sdk options]
  show ?thesis
    by (rule leads_step [OF first leads_step [OF second shutdown_over [OF good_step [OF good_step [OF good first] second]]]]) simp
qed

lemma connect_over:
  assumes good: "good sdk options cat g" and m: "ig_main g = Main_Connect"
  shows "leads sdk options g over"
proof -
  obtain events outcome where c: "Connect sdk (op_sdk options) True = (events, outcome)" by fastforce
  show ?thesis
  proof (cases outcome)
    case (Connected session)
    note step = ingest_step.connected [OF m c [unfolded Connected]]
    show ?thesis by (rule leads_step [OF step run_over [OF good_step [OF good step]]]) simp
  next
    case (ConnectFailed error)
    have "session_live (ig_main g)" using m by simp
    from callbacks_finish [OF good this] show ?thesis
    proof (rule leads_trans [OF good])
      fix h assume h: "good sdk options cat h" "ig_main h = ig_main g \<and> mh_active_callbacks (ig_handler h) = 0"
      then have "ig_main h = Main_Connect" "mh_active_callbacks (ig_handler h) = 0" using m by simp_all
      note step = ingest_step.connect_failed [OF this(1) c [unfolded ConnectFailed] this(2) refl]
      show "leads sdk options h over" by (rule leads_step [OF step abort_over [OF good_step [OF h(1) step]]]) simp
    qed
  next
    case Terminated
    show ?thesis
      by (rule leads_step [OF ingest_step.connect_terminated [OF m c [unfolded Terminated]]]) (simp add: leads_here over_def)
  qed
qed

lemma starting_over:
  assumes good: "good sdk options cat g" and m: "ig_main g = Main_Starting"
  shows "leads sdk options g over"
proof -
  have stopping: "leads sdk options h over" if h: "good sdk options cat h" "ig_main h = Main_Starting"
      "wd_phase (ig_world h) \<in> {Phase_Stopping, Phase_Joining}" for h
  proof -
    have "leads sdk options h (\<lambda>g'. ig_main g' = Main_Exit 1)" using h(2) by (intro stop_ends [OF h(1) _ h(3)]) simp
    then show ?thesis by (rule leads_trans [OF h(1)]) (simp add: leads_here over_def)
  qed
  have "wd_phase (ig_world g) \<noteq> Phase_Idle" using goodD(4) [OF good] m by (simp add: main_ok_def Let_def)
  then consider "wd_phase (ig_world g) = Phase_Starting" | "wd_phase (ig_world g) \<in> {Phase_Stopping, Phase_Joining}"
    by (cases "wd_phase (ig_world g)") simp_all
  then show ?thesis
  proof cases
    case 1
    obtain err e where s: "Start_end \<lparr>pf_linux = True, pf_cpu_setsize = 1024, pf_affinity = (\<lambda>i. True)\<rparr>
      (wd_engine (ig_world g)) = (err, e)" by fastforce
    show ?thesis
    proof (cases err)
      case None
      note step = ingest_step.started [OF m 1 s [unfolded None], of sdk options]
      show ?thesis by (rule leads_step [OF step connect_over [OF good_step [OF good step]]]) simp
    next
      case (Some error)
      note step = ingest_step.start_failed [OF m 1 s [unfolded Some], of sdk options]
      show ?thesis by (rule leads_step [OF step stopping [OF good_step [OF good step]]]) (simp_all add: m)
    qed
  qed (rule stopping [OF good m])
qed

lemma process_over:
  assumes good: "good sdk options cat g"
  shows "leads sdk options g over"
proof (cases "ig_main g")
  case Main_Start
  obtain err e where s: "Start_begin AllSpawned (\<lambda>i. 0) (wd_engine (ig_world g)) = (err, e)" by fastforce
  note step = ingest_step.start_begin [OF Main_Start s, of sdk options]
  show ?thesis by (rule leads_step [OF step starting_over [OF good_step [OF good step]]]) simp
next
  case Main_Wait
  show ?thesis by (rule leads_trans [OF good wait_ends [OF good Main_Wait] join_over])
qed (use good starting_over connect_over run_over shutdown_over abort_over stop_over stopping_over join_over gaps_over
    in \<open>auto simp: leads_here over_def\<close>)

end
