(* ===== verification/Ingest_Claims.thy ===== *)
theory Ingest_Claims
  imports Ingest_Progress
begin

text \<open>
  The properties of the whole process: what exit code 0 stands for, and that the process can always
  come to its end.  An undisturbed run, whose lanes never get a message, shows that exit code 0 is
  reached.
\<close>

section \<open>An undisturbed run\<close>

text \<open>No lane that is still served has anything to do.\<close>

definition idle :: "World \<Rightarrow> bool" where
  "idle w \<longleftrightarrow> (let e = wd_engine w in
     (\<forall>l < length (en_tick_threads e). \<not> tt_finished (en_tick_threads e ! l) \<longrightarrow>
        queue_of e True l = [] \<and> sr_channel_count (en_tick_recovery e ! l) = 0) \<and>
     (\<forall>l < length (en_snapshot_threads e). \<not> en_snapshot_threads e ! l \<longrightarrow> queue_of e False l = []))"

lemma idle_tick_worker:
  assumes lane: "lane_ok [] (tw_lane w)" "lane_queue (tw_lane w) = []" and count: "sr_channel_count (tw_recovery w) = 0"
    and turn: "TickWorker_turn cfg cat l running now w = Some w'"
  shows "tw_env w' = tw_env w"
proof -
  obtain r lane1 where con: "TryConsume (tw_lane w) = (r, lane1)" by fastforce
  have r: "r = None" using consume_release(2) [OF lane(1) con] lane(2) by (cases r) fastforce+
  let ?w1 = "w\<lparr>tw_lane := lane1\<rparr>" and ?t = "tick_timer cfg l now (w\<lparr>tw_lane := lane1\<rparr>)"
  have "tw_env ?t = tw_env w \<and> sr_channel_count (tw_recovery ?t) = 0"
    using count by (simp add: tick_timer_def Poll_def)
  then show ?thesis
    using turn con r by (auto simp: TickWorker_turn_def Let_def Flush_def split: if_splits)
qed

lemma idle_snapshot_worker:
  assumes lane: "lane_ok [] (sw_lane w)" "lane_queue (sw_lane w) = []"
    and turn: "SnapshotWorker_turn cfg cat l running w = Some w'"
  shows "sw_env w' = sw_env w"
proof -
  obtain r lane1 where con: "TryConsume (sw_lane w) = (r, lane1)" by fastforce
  have "r = None" using consume_release(2) [OF lane(1) con] lane(2) by (cases r) fastforce+
  then show ?thesis using turn con by (auto simp: SnapshotWorker_turn_def Let_def split: if_splits)
qed

lemma idle_tick_turn:
  assumes ok: "world_ok cfg cat w" and lim: "cfg_maximum_text_bytes cfg \<le> kMaximumIdentityBytes" and quiet: "idle w"
    and l: "l < length (en_tick_threads (wd_engine w))" and live: "\<not> tt_finished (en_tick_threads (wd_engine w) ! l)"
    and off: "\<not> en_running (wd_engine w)" and turn: "tick_turn l schedule allocations now w = Some w'"
  shows "idle w'" "en_health (wd_engine w') = en_health (wd_engine w)"
proof -
  let ?e = "wd_engine w" and ?e' = "wd_engine w'"
  note R = tick_worker_ready [OF ok l live]
  have q: "queue_of ?e True l = []" "sr_channel_count (en_tick_recovery ?e ! l) = 0"
    using quiet l live by (simp_all add: idle_def Let_def)
  have lane: "lane_ok [] (en_tick_lanes ?e ! l)" using R(3) world_okD(2) [OF ok] by (simp add: lanes_ok_def list_all_length)
  obtain tw' where t: "TickWorker_turn cfg cat l (en_running ?e) now (tick_worker l schedule allocations w) = Some tw'"
    "w' = put_tick_worker l tw' w" using turn R(6,7) by (auto simp: tick_turn_def Let_def)
  have "tw_env tw' = tw_env (tick_worker l schedule allocations w)"
    by (rule idle_tick_worker [OF _ _ _ t(1)]) (use lane q in \<open>simp_all add: R(9,10) queue_of_def class_lanes_def\<close>)
  then show "en_health ?e' = en_health ?e" by (simp add: t(2) put_tick_worker_def Let_def R(11))
  from tick_step_ok [OF ok lim l live, of schedule allocations now] turn
  have S: "en_snapshot_threads ?e' = en_snapshot_threads ?e" "\<forall>i. queue_of ?e' False i = queue_of ?e False i"
    "length (en_tick_threads ?e') = length (en_tick_threads ?e)"
    "\<forall>i < length (en_tick_threads ?e). i \<noteq> l \<longrightarrow>
       en_tick_threads ?e' ! i = en_tick_threads ?e ! i \<and> queue_of ?e' True i = queue_of ?e True i"
    "tt_finished (en_tick_threads ?e' ! l)" using off q(1) by auto
  have "en_tick_recovery ?e' ! i = en_tick_recovery ?e ! i" if "i \<noteq> l" for i
    using that by (simp add: t(2) put_tick_worker_def Let_def)
  then show "idle w'"
    using quiet S unfolding idle_def Let_def by metis
qed

lemma idle_snapshot_turn:
  assumes ok: "world_ok cfg cat w" and quiet: "idle w"
    and l: "l < length (en_snapshot_threads (wd_engine w))" and live: "\<not> en_snapshot_threads (wd_engine w) ! l"
    and off: "\<not> en_running (wd_engine w)" and turn: "snapshot_turn l schedule w = Some w'"
  shows "idle w'" "en_health (wd_engine w') = en_health (wd_engine w)"
proof -
  let ?e = "wd_engine w" and ?e' = "wd_engine w'"
  note R = snapshot_worker_ready [OF ok l live]
  have q: "queue_of ?e False l = []" using quiet l live by (simp add: idle_def Let_def)
  have lane: "lane_ok [] (en_snapshot_lanes ?e ! l)"
    using R(3) world_okD(2) [OF ok] by (simp add: lanes_ok_def list_all_length)
  obtain sw' where t: "SnapshotWorker_turn cfg cat l (en_running ?e) (snapshot_worker l schedule w) = Some sw'"
    "w' = put_snapshot_worker l sw' w" using turn R(5,6) by (auto simp: snapshot_turn_def Let_def)
  have "sw_env sw' = sw_env (snapshot_worker l schedule w)"
    by (rule idle_snapshot_worker [OF _ _ t(1)]) (use lane q in \<open>simp_all add: R(7) queue_of_def class_lanes_def\<close>)
  then show "en_health ?e' = en_health ?e" by (simp add: t(2) put_snapshot_worker_def Let_def R(9))
  from snapshot_step_ok [OF ok l live, of schedule] turn
  have S: "en_tick_threads ?e' = en_tick_threads ?e" "\<forall>i. queue_of ?e' True i = queue_of ?e True i"
    "length (en_snapshot_threads ?e') = length (en_snapshot_threads ?e)"
    "\<forall>i < length (en_snapshot_threads ?e). i \<noteq> l \<longrightarrow>
       en_snapshot_threads ?e' ! i = en_snapshot_threads ?e ! i \<and> queue_of ?e' False i = queue_of ?e False i"
    "en_snapshot_threads ?e' ! l" using off q by auto
  have "en_tick_recovery ?e' = en_tick_recovery ?e" by (simp add: t(2) put_snapshot_worker_def Let_def)
  then show "idle w'" using quiet S unfolding idle_def Let_def by metis
qed

text \<open>The threads of an idle engine are joined without a fatal.\<close>

lemma idle_joins:
  assumes "world_ok cfg cat w" and "cfg_maximum_text_bytes cfg \<le> kMaximumIdentityBytes" and "wd_phase w = Phase_Joining"
    and "idle w"
  shows "\<exists>w'. stop_step\<^sup>*\<^sup>* w w' \<and> wd_phase w' = Phase_Joining \<and> all_finished (wd_engine w') \<and>
    en_health (wd_engine w') = en_health (wd_engine w)"
  using assms
proof (induction "turns_left (wd_engine w)" arbitrary: w)
  case 0
  then show ?case using turns_left_0 [of "wd_engine w"] by auto
next
  case (Suc n)
  have off: "\<not> en_running (wd_engine w)"
    using control_okD(6) [OF world_okD(5) [OF Suc.prems(1)] Suc.prems(3)] .
  have "\<not> all_finished (wd_engine w)" using Suc.hyps(2) turns_left_0 [of "wd_engine w"] by simp
  then consider (tick) l where "l < length (en_tick_threads (wd_engine w))"
      "\<not> tt_finished (en_tick_threads (wd_engine w) ! l)"
    | (snapshot) l where "l < length (en_snapshot_threads (wd_engine w))" "\<not> en_snapshot_threads (wd_engine w) ! l"
    by (auto simp: all_finished_def all_set_conv_all_nth)
  then obtain w1 where w1: "stop_step w w1" "world_ok cfg cat w1" "wd_phase w1 = wd_phase w"
    "Suc (turns_left (wd_engine w1)) = turns_left (wd_engine w)" "idle w1"
    "en_health (wd_engine w1) = en_health (wd_engine w)"
  proof cases
    case tick
    obtain w1 where t: "tick_turn l [] [] 0 w = Some w1" "world_ok cfg cat w1" "wd_phase w1 = wd_phase w"
      "Suc (turns_left (wd_engine w1)) = turns_left (wd_engine w)"
      using tick_turn_left [OF Suc.prems(1,2) tick off, of "[]" "[]" 0] by blast
    show thesis
      by (rule that [OF lane_turn [OF tick_lane [OF tick t(1)]] t(2-4)
          idle_tick_turn [OF Suc.prems(1,2,4) tick off t(1)]])
  next
    case snapshot
    obtain w1 where t: "snapshot_turn l [] w = Some w1" "world_ok cfg cat w1" "wd_phase w1 = wd_phase w"
      "Suc (turns_left (wd_engine w1)) = turns_left (wd_engine w)"
      using snapshot_turn_left [OF Suc.prems(1) snapshot off, of "[]"] by blast
    show thesis
      by (rule that [OF lane_turn [OF snapshot_lane [OF snapshot t(1)]] t(2-4)
          idle_snapshot_turn [OF Suc.prems(1,4) snapshot off t(1)]])
  qed
  have "n = turns_left (wd_engine w1)" using w1(4) Suc.hyps(2) by simp
  from Suc.hyps(1) [OF this w1(2) Suc.prems(2) _ w1(5)] obtain w' where
    "stop_step\<^sup>*\<^sup>* w1 w'" "wd_phase w' = Phase_Joining" "all_finished (wd_engine w')"
    "en_health (wd_engine w') = en_health (wd_engine w1)" using w1(3) Suc.prems(3) by auto
  then show ?case using w1(1,6) converse_rtranclp_into_rtranclp [of stop_step w w1] by auto
qed

lemma created_lanes:
  assumes "Create cfg cat = Inr e"
  shows "l < tick_decoder_lanes cfg \<Longrightarrow> queue_of e True l = [] \<and> sr_channel_count (en_tick_recovery e ! l) = 0"
    "l < snapshot_decoder_lanes cfg \<Longrightarrow> queue_of e False l = []"
proof -
  have valid: "ValidateConfig cfg cat = None" using assms by (simp add: Create_def split: option.splits)
  note V = ValidateConfig_accepted [OF valid]
  obtain d tl sl where lanes: "new_lane_storage (tick_slots_per_lane cfg) (maximum_tick_body_bytes cfg) = Some tl"
      "new_lane_storage (snapshot_slots_per_lane cfg) (maximum_snapshot_body_bytes cfg) = Some sl"
    and e: "en_tick_lanes e = replicate (tick_decoder_lanes cfg) tl"
      "en_snapshot_lanes e = replicate (snapshot_decoder_lanes cfg) sl"
      "en_tick_recovery e = replicate (tick_decoder_lanes cfg) (config_recovery cfg)"
    using assms by (auto simp: Create_def new_engine_def split: option.splits Option.bind_splits)
  note L = new_lane_storage_ok [OF lanes(1) V(5)] new_lane_storage_ok [OF lanes(2) V(7)]
  show "l < tick_decoder_lanes cfg \<Longrightarrow> queue_of e True l = [] \<and> sr_channel_count (en_tick_recovery e ! l) = 0"
    using L(2) by (simp add: queue_of_def class_lanes_def e config_recovery_def new_recovery_def Let_def)
  show "l < snapshot_decoder_lanes cfg \<Longrightarrow> queue_of e False l = []"
    using L(6) by (simp add: queue_of_def class_lanes_def e)
qed

text \<open>A healthy process that waits for its drain threads can only exit with code 0.\<close>

definition calm :: "Ingest \<Rightarrow> bool" where
  "calm g \<longleftrightarrow> ig_main g = Main_Exit 0 \<or> (ig_main g \<in> {Main_Wait, Main_Join, Main_Gaps} \<and>
     hl_healthy (en_health (wd_engine (ig_world g))) \<and> \<not> mh_failed (ig_handler g))"

lemma calm_step:
  assumes good: "good sdk options cat g" and calm: "calm g" and step: "ingest_step sdk options g g'"
  shows "calm g'"
proof -
  have "stopped (ig_world g)" using goodD(4) [OF good] calm by (auto simp: calm_def main_ok_def Let_def)
  then have gone: "\<not> lane_step schedule (ig_world g) w" for schedule w
    using lane_step_fields(5) [of schedule "ig_world g" w] by (auto simp: stopped_def Let_def)
  show ?thesis
    using step calm gone
    by cases (auto simp: calm_def consumer_step_world(3) exit_code_def HandleSignal_def)
qed

lemma calm_over:
  assumes good: "good sdk options cat g" and calm: "calm g"
  shows "leads sdk options g (\<lambda>g'. ig_main g' = Main_Exit 0)"
proof -
  obtain g' where g': "(ingest_step sdk options)\<^sup>*\<^sup>* g g'" "over g'" using process_over [OF good] by (auto simp: leads_def)
  have "good sdk options cat g' \<and> calm g'"
    using g'(1)
  proof induction
    case base
    then show ?case using good calm by simp
  next
    case (step y z)
    then show ?case using good_step calm_step by blast
  qed
  then show ?thesis using g' by (auto simp: leads_def over_def calm_def)
qed

lemma ingest_run_steps:
  assumes "(ingest_step sdk options)\<^sup>*\<^sup>* g g'" and "ingest_run sdk options engine g"
  shows "ingest_run sdk options engine g'"
  using assms by induction (auto intro: ingest_run.stepped)

text \<open>A process at a position, with no callback running and no failure of the handler.\<close>

definition undisturbed :: "MainPosition \<Rightarrow> Phase \<Rightarrow> Engine \<Rightarrow> Ingest \<Rightarrow> bool" where
  "undisturbed position phase e g \<longleftrightarrow> ig_main g = position \<and> wd_phase (ig_world g) = phase \<and>
     wd_engine (ig_world g) = e \<and> \<not> mh_failed (ig_handler g) \<and> mh_active_callbacks (ig_handler g) = 0"

lemma undisturbedD:
  assumes "undisturbed position phase e g"
  shows "ig_main g = position" "wd_phase (ig_world g) = phase" "wd_engine (ig_world g) = e"
    "\<not> mh_failed (ig_handler g)" "mh_active_callbacks (ig_handler g) = 0"
  using assms by (simp_all add: undisturbed_def)

text \<open>A run, and a step it can take from a given position.\<close>

lemma undisturbed_step:
  assumes "\<exists>g. ingest_run sdk options engine g \<and> undisturbed position phase e g"
    and "\<And>g. undisturbed position phase e g \<Longrightarrow> \<exists>g'. ingest_step sdk options g g' \<and> undisturbed position' phase' e' g'"
  shows "\<exists>g. ingest_run sdk options engine g \<and> undisturbed position' phase' e' g"
  using assms ingest_run.stepped by meson

text \<open>Started, connected, stopped by a signal, and never called by the SDK.\<close>

lemma undisturbed_stop:
  assumes b: "Start_begin AllSpawned clock engine = (None, e1)" and s: "Start_end pf e1 = (None, e2)"
    and connect: "Connect sdk (op_sdk options) True = (events, Connected session)"
    and down: "Shutdown sdk session = Some (calls, session')" and idle: "\<not> en_callback_active (Stop_gate e2)"
  shows "\<exists>g. ingest_run sdk options engine g \<and>
    undisturbed (Main_Stopping False) Phase_Joining (Stop_running (Stop_gate e2)) g"
proof -
  let ?reached = "\<lambda>position phase e. \<exists>g. ingest_run sdk options engine g \<and> undisturbed position phase e g"
  have "?reached Main_Start Phase_Idle engine"
    using ingest_run.begun [of sdk options engine]
    by (intro exI [of _ "ingest_start engine"]) (simp add: undisturbed_def ingest_start_def initial_world_def new_handler_def)
  then have "?reached Main_Starting Phase_Starting e1"
  proof (rule undisturbed_step)
    fix g assume "undisturbed Main_Start Phase_Idle engine g"
    note g = undisturbedD [OF this]
    from ingest_step.start_begin [OF g(1) b [folded g(3)], of sdk options] g(4,5)
    show "\<exists>g'. ingest_step sdk options g g' \<and> undisturbed Main_Starting Phase_Starting e1 g'"
      by (auto simp: undisturbed_def)
  qed
  then have "?reached Main_Connect Phase_Idle e2"
  proof (rule undisturbed_step)
    fix g assume "undisturbed Main_Starting Phase_Starting e1 g"
    note g = undisturbedD [OF this]
    from ingest_step.started [OF g(1,2) s [folded g(3)], of sdk options] g(4,5)
    show "\<exists>g'. ingest_step sdk options g g' \<and> undisturbed Main_Connect Phase_Idle e2 g'"
      by (auto simp: undisturbed_def)
  qed
  then have "?reached (Main_Run session) Phase_Idle e2"
  proof (rule undisturbed_step)
    fix g assume "undisturbed Main_Connect Phase_Idle e2 g"
    note g = undisturbedD [OF this]
    from ingest_step.connected [OF g(1) connect] g(2-5)
    show "\<exists>g'. ingest_step sdk options g g' \<and> undisturbed (Main_Run session) Phase_Idle e2 g'"
      by (auto simp: undisturbed_def)
  qed
  then obtain g where run: "ingest_run sdk options engine g" and at: "undisturbed (Main_Run session) Phase_Idle e2 g" by blast
  note g = undisturbedD [OF at]
  have "handles_signals (ig_main g)" using g(1) by simp
  note signal = ingest_step.signal [OF this, of sdk options]
  have "ig_main (HandleSignal g) = Main_Run session" "ig_stop_requested (HandleSignal g)"
    using g(1) by (simp_all add: HandleSignal_def)
  note ends = ingest_step.run_ends [OF this(1) disjI1 [OF this(2)] refl, of sdk options]
  have "?reached (Main_Shutdown session) Phase_Idle e2"
    by (rule exI, rule conjI [OF ingest_run.stepped [OF ingest_run.stepped [OF run signal] ends]])
      (use g(2-5) in \<open>simp add: undisturbed_def HandleSignal_def StopAccepting_def\<close>)
  then have "?reached (Main_Stop False) Phase_Idle e2"
  proof (rule undisturbed_step)
    fix g assume "undisturbed (Main_Shutdown session) Phase_Idle e2 g"
    note g = undisturbedD [OF this]
    from ingest_step.shut_down [OF g(1) down g(5), of options] g(2-5)
    show "\<exists>g'. ingest_step sdk options g g' \<and> undisturbed (Main_Stop False) Phase_Idle e2 g'"
      by (auto simp: undisturbed_def)
  qed
  then have "?reached (Main_Stopping False) Phase_Stopping (Stop_gate e2)"
  proof (rule undisturbed_step)
    fix g assume "undisturbed (Main_Stop False) Phase_Idle e2 g"
    note g = undisturbedD [OF this]
    from ingest_step.stop_gate [OF g(1), of sdk options] g(3-5)
    show "\<exists>g'. ingest_step sdk options g g' \<and> undisturbed (Main_Stopping False) Phase_Stopping (Stop_gate e2) g'"
      by (auto simp: undisturbed_def)
  qed
  then show ?thesis
  proof (rule undisturbed_step)
    fix g assume "undisturbed (Main_Stopping False) Phase_Stopping (Stop_gate e2) g"
    note g = undisturbedD [OF this]
    have "after_stop (ig_main g) \<noteq> None" "\<not> en_callback_active (wd_engine (ig_world g))" using g(1,3) idle by simp_all
    from ingest_step.stop_running [OF this(1) g(2) this(2), of sdk options] g(1,3-5)
    show "\<exists>g'. ingest_step sdk options g g' \<and>
        undisturbed (Main_Stopping False) Phase_Joining (Stop_running (Stop_gate e2)) g'"
      by (auto simp: undisturbed_def)
  qed
qed

lemma undisturbed_run:
  assumes ready: "main_setup args files = Some (MainRun options cat engine)" and cpu: "first_decoder_cpu (op_engine options) < 0"
    and connect: "Connect sdk (op_sdk options) True = (events, Connected session)"
    and down: "Shutdown sdk session = Some (calls, session')"
  shows "\<exists>g. ingest_run sdk options engine g \<and> ig_main g = Main_Exit 0"
proof -
  let ?cfg = "op_engine options" and ?pf = "\<lparr>pf_linux = True, pf_cpu_setsize = 1024, pf_affinity = (\<lambda>i. True)\<rparr>"
  note C = main_setup_created [OF ready] and F = Create_fields [OF main_setup_created(1) [OF ready]]
  note L = created_lanes [OF C(1)]
  obtain e1 where b: "Start_begin AllSpawned (\<lambda>i. 0) engine = (None, e1)"
    and e1: "en_health e1 = initial_health" "en_config e1 = ?cfg" "\<not> en_callback_active e1"
      "en_tick_lanes e1 = en_tick_lanes engine" "en_snapshot_lanes e1 = en_snapshot_lanes engine"
      "en_tick_recovery e1 = en_tick_recovery engine" "length (en_tick_threads e1) = tick_decoder_lanes ?cfg"
      "length (en_snapshot_threads e1) = snapshot_decoder_lanes ?cfg"
    using F by (auto simp: Start_begin_def Let_def set_accepting_def spawn_threads_def initial_health_def)
  define e2 where "e2 = set_accepting True e1"
  have s: "Start_end ?pf e1 = (None, e2)"
    using cpu e1(1,2) by (simp add: Start_end_def Start_accept_def set_accepting_def initial_health_def Let_def e2_def)
  have "\<not> en_callback_active (Stop_gate e2)" using e1(3) by (simp add: e2_def set_accepting_def Stop_gate_def)
  from undisturbed_stop [OF b s connect down this] obtain g8 where run: "ingest_run sdk options engine g8"
    and "undisturbed (Main_Stopping False) Phase_Joining (Stop_running (Stop_gate e2)) g8" by blast
  note g8 = undisturbedD [OF this(2)]
  have good: "good sdk options cat g8" using ingest_run_ok [OF ready run] C(2) by (simp add: good_def)
  note G = goodD [OF good]
  have health: "hl_healthy (en_health (wd_engine (ig_world g8)))"
    by (simp add: g8(3) e2_def Stop_running_def Stop_gate_def set_accepting_def e1(1) initial_health_def)
  have "idle (ig_world g8)"
    using L e1 by (simp add: idle_def Let_def g8(3) e2_def Stop_running_def Stop_gate_def set_accepting_def)
      (simp add: queue_of_def class_lanes_def)
  from idle_joins [OF G(3,6) g8(2) this] obtain w where w: "stop_step\<^sup>*\<^sup>* (ig_world g8) w" "wd_phase w = Phase_Joining"
    "all_finished (wd_engine w)" "hl_healthy (en_health (wd_engine w))" using health by auto
  have "after_stop (ig_main g8) = Some Main_Wait" using g8(1) by simp
  from stop_steps_ingest [OF good w(1) this] obtain g9 where g9: "(ingest_step sdk options)\<^sup>*\<^sup>* g8 g9"
    "ig_world g9 = w" "ig_main g9 = Main_Stopping False" "\<not> mh_failed (ig_handler g9)"
    using g8(1,4) by (auto simp: leads_def)
  have "after_stop (ig_main g9) = Some Main_Wait" "wd_phase (ig_world g9) = Phase_Joining"
    "all_finished (wd_engine (ig_world g9))" using g9 w(2,3) by simp_all
  from ingest_step.stop_join [OF this, of sdk options]
  obtain g10 where g10: "ingest_step sdk options g9 g10" "calm g10"
    using w(4) g9(2,4) by (simp add: calm_def Stop_join_def)
  have steps: "(ingest_step sdk options)\<^sup>*\<^sup>* g8 g10" using g9(1) g10(1) by simp
  from calm_over [OF good_steps [OF good steps] g10(2)] obtain g where
    g: "(ingest_step sdk options)\<^sup>*\<^sup>* g10 g" "ig_main g = Main_Exit 0" by (auto simp: leads_def)
  have "(ingest_step sdk options)\<^sup>*\<^sup>* g8 g" using steps g(1) by simp
  then have "ingest_run sdk options engine g" by (rule ingest_run_steps [OF _ run])
  then show ?thesis using g(2) by blast
qed

section \<open>Termination of the runtime\<close>

text \<open>The SDK runtime ends the process only when the shutdown of the SDK throws.\<close>

lemma Connect_terminated:
  assumes "Connect sdk cfg has_handler = (events, Terminated)"
  shows "\<exists>what. lib_shutdown sdk = Throws what"
proof -
  have abandon: "connect_abandon sdk sub error calls \<noteq> (events, Terminated)" if "lib_shutdown sdk = Returns u" for sub error calls u
    using that by (simp add: connect_abandon_def QuiesceSdkCallbacks_def)
  have "connect_manager sdk cfg calls \<noteq> (events, Terminated)" if "lib_shutdown sdk = Returns u" for calls u
    using abandon [OF that]
    by (auto simp: connect_manager_def connect_subscriber_def Let_def split: vendor.split option.split prod.split bool.split)
  then show ?thesis
    using assms by (cases "lib_shutdown sdk") (auto simp: Connect_def split: if_splits sum.splits vendor.splits bool.splits)
qed

lemma Shutdown_terminated: "Shutdown sdk session = None \<Longrightarrow> \<exists>what. lib_shutdown sdk = Throws what"
  by (auto simp: Shutdown_def QuiesceSdkCallbacks_def split: if_splits vendor.splits)

lemma terminated_step:
  assumes "ingest_step sdk options g g'" and "ig_main g = Main_Terminated \<Longrightarrow> \<exists>what. lib_shutdown sdk = Throws what"
    and "ig_main g' = Main_Terminated"
  shows "\<exists>what. lib_shutdown sdk = Throws what"
  using assms
proof cases
  case (connect_terminated events)
  then show ?thesis using Connect_terminated by blast
next
  case (shutdown_terminated session)
  then show ?thesis using Shutdown_terminated by blast
next
  case (stop_join position)
  then show ?thesis using assms(3) by (cases "ig_main g" rule: after_stop.cases) auto
qed (auto simp: HandleSignal_def)

lemma terminated_run:
  assumes "ingest_run sdk options engine g"
  shows "ig_main g = Main_Terminated \<Longrightarrow> \<exists>what. lib_shutdown sdk = Throws what"
  using assms
proof induction
  case begun
  then show ?case by (simp add: ingest_start_def)
next
  case (stepped g g')
  then show ?case using terminated_step by blast
qed

section \<open>What exit code 0 stands for\<close>

text \<open>With the queues empty, what was consumed is what was sent and what the statistics show.\<close>

lemma drained_totals:
  assumes ok: "ingest_ok cfg cat g" and sizes: "config_sizes cfg" and drained: "records_drained cfg (ig_world g)"
    and small: "sent_total cfg (world_env0 (ig_world g)) k < 2 ^ 64"
  shows "queued_total cfg (en_dispatcher (wd_engine (ig_world g))) k = 0"
    and "unat (consumed k (ig_consumed g)) = sent_total cfg (world_env0 (ig_world g)) k"
    and "dispatched_total k (Stats (wd_engine (ig_world g))) = consumed k (ig_consumed g)"
proof -
  let ?w = "ig_world g"
  note I = ingest_okD [OF ok]
  note world = engine_run_ok [OF I(1) sizes]
  show q: "queued_total cfg (en_dispatcher (wd_engine ?w)) k = 0"
    using drained small by (simp add: records_drained_def)
  then have r: "received_total cfg ?w k = sent_total cfg (world_env0 ?w) k"
    by (simp add: sent_total_split received_total_def)
  show "unat (consumed k (ig_consumed g)) = sent_total cfg (world_env0 ?w) k"
    using small by (simp add: I(2) calls_received [OF world] r unat_of_nat)
  show "dispatched_total k (Stats (wd_engine ?w)) = consumed k (ig_consumed g)"
    using Stats_totals [OF world_okD(1) [OF world] engine_run_balanced [OF I(1) sizes], of k]
    by (simp add: q I(2) calls_received [OF world])
qed

section \<open>The process of the witnesses\<close>

lemma demo_sdk_connects:
  assumes "sdk_config_ok cfg"
  shows "\<exists>events session. Connect demo_sdk cfg True = (events, Connected session) \<and>
    Shutdown demo_sdk session \<noteq> None"
proof -
  obtain added where "add_subscriptions demo_sdk (pc_enabled_streams cfg) kSupportedMessageKeys = (added, None)"
    using demo_subscriptions by blast
  then show ?thesis
    by (simp add: Connect_def assms connect_manager_def connect_subscriber_def demo_setters Shutdown_def
        QuiesceSdkCallbacks_def)
qed

lemma demo_process:
  "\<exists>options engine g. main_setup (option_args demo_options) demo_files = Some (MainRun options demo_catalog engine) \<and>
     ingest_run demo_sdk options engine g \<and> ig_main g = Main_Exit 0"
proof -
  obtain options engine where m: "main_setup (option_args demo_options) demo_files = Some (MainRun options demo_catalog engine)"
    using demo_setup by blast
  then obtain streams where
    load: "LoadStreamConfig (op_stream_config_path demo_options) (demo_files (op_stream_config_path demo_options)) = Inr streams"
    and o: "options = demo_options\<lparr>op_engine := (op_engine demo_options)\<lparr>enabled_streams := streams\<rparr>,
         op_sdk := (op_sdk demo_options)\<lparr>pc_enabled_streams := streams\<rparr>\<rparr>"
    unfolding main_setup_run by (auto simp: demo_options_parsed)
  have "demo_files (op_stream_config_path demo_options) \<noteq> None"
    by (simp add: demo_options_def default_options_def demo_files_def)
  then obtain content where f: "demo_files (op_stream_config_path demo_options) = Some content" by blast
  note S = LoadStreamConfig_selects [OF load [unfolded f]]
  have fields: "op_sdk demo_options = demo_sdk_config" "first_decoder_cpu (op_engine demo_options) = -1"
    by (simp_all add: demo_options_def default_engine_config_def)
  have "sdk_config_ok (demo_sdk_config\<lparr>pc_enabled_streams := streams\<rparr>)"
    using S by (subst sdk_default_valid) (simp_all add: demo_sdk_config_def default_sdk_config_def sdk_options_reset_def)
  then obtain events session calls session' where
    "Connect demo_sdk (op_sdk options) True = (events, Connected session)"
    "Shutdown demo_sdk session = Some (calls, session')"
    using demo_sdk_connects [of "op_sdk options"] by (auto simp: o fields)
  moreover have "first_decoder_cpu (op_engine options) < 0" by (simp add: o fields)
  ultimately show ?thesis using undisturbed_run [OF m] m by blast
qed

section \<open>Properties\<close>

text \<open>
  C4. What the exit code of the process stands for.  It is 0 or 1, and 0 only if every thread has
  returned, the engine is healthy and the handler never failed; then no gap mailbox holds an unread
  value, and as long as fewer than \<open>2 ^ 64\<close> records of a kind were sent, none of them is left in a
  queue: the drain threads have taken every tick, snapshot, LateRecovery record and fault the engine
  sent, and the number \<open>main\<close> prints is the number the engine dispatched.
\<close>

theorem ingest_exit_clean:
  assumes "main_setup args files = Some (MainRun options catalog engine)"
    and "ingest_run sdk options engine g" and "ig_main g = Main_Exit code"
  shows "let cfg = op_engine options; w = ig_world g; e = wd_engine w; d = en_dispatcher e in
    code \<in> {0, 1} \<and> (code = 0 \<longrightarrow>
      stopped w \<and> all_returned (ig_drains g) \<and> hl_healthy (en_health e) \<and> \<not> mh_failed (ig_handler g) \<and>
      (\<forall>p c. p < dp_tick_producers d \<and> c < dp_gap_channels_per_producer d \<longrightarrow> \<not> mb_unread (gap_cell d p c)) \<and>
      (\<forall>k. sent_total cfg (world_env0 w) k < 2 ^ 64 \<longrightarrow>
         queued_total cfg d k = 0 \<and> unat (consumed k (ig_consumed g)) = sent_total cfg (world_env0 w) k \<and>
         dispatched_total k (Stats e) = consumed k (ig_consumed g)))"
proof -
  let ?cfg = "op_engine options" and ?d = "en_dispatcher (wd_engine (ig_world g))"
  have ok: "ingest_ok ?cfg catalog g" and sizes: "config_sizes ?cfg"
    using ingest_run_ok [OF assms(1,2)] main_setup_created(2) [OF assms(1)] by simp_all
  have "main_ok ?cfg g" by (rule ingest_okD(5) [OF ok])
  then have "code \<in> {0, 1}" "code = 0 \<Longrightarrow> stopped (ig_world g) \<and> all_returned (ig_drains g) \<and>
      records_drained ?cfg (ig_world g) \<and> unread_cells ?d = {} \<and> hl_healthy (en_health (wd_engine (ig_world g))) \<and> \<not> mh_failed (ig_handler g)"
    using assms(3) by (simp_all add: main_ok_def Let_def)
  then show ?thesis using drained_totals [OF ok sizes] by (simp add: unread_cells_def Let_def)
qed

theorem ingest_exit_clean_witness:
  "\<exists>options engine g. main_setup (option_args demo_options) demo_files = Some (MainRun options demo_catalog engine) \<and>
     ingest_run demo_sdk options engine g \<and> ig_main g = Main_Exit 0 \<and>
     stopped (ig_world g) \<and> all_returned (ig_drains g)"
proof -
  obtain options engine g where run: "main_setup (option_args demo_options) demo_files = Some (MainRun options demo_catalog engine)"
    "ingest_run demo_sdk options engine g" "ig_main g = Main_Exit 0" using demo_process by blast
  from ingest_exit_clean [OF run] run show ?thesis unfolding Let_def by blast
qed

text \<open>
  C10. The process can always be brought to its end.  From every reachable state, whatever the callbacks,
  the decoder threads and the drain threads have done so far, there are steps after which \<open>main\<close> has
  returned its exit code: no queue is ever left full, no wait is left without the step that ends it.
  The only other end is \<open>std::terminate\<close> in the SDK runtime, and only when the SDK's shutdown throws.
\<close>

theorem ingest_terminates:
  assumes "main_setup args files = Some (MainRun options catalog engine)" and "ingest_run sdk options engine g"
  shows "\<exists>g'. (ingest_step sdk options)\<^sup>*\<^sup>* g g' \<and> ((\<exists>code. ig_main g' = Main_Exit code) \<or>
    ig_main g' = Main_Terminated \<and> (\<exists>what. lib_shutdown sdk = Throws what))"
proof -
  have "good sdk options catalog g"
    using ingest_run_ok [OF assms] main_setup_created(2) [OF assms(1)] by (simp add: good_def)
  from process_over [OF this] obtain g' where g': "(ingest_step sdk options)\<^sup>*\<^sup>* g g'" "over g'"
    by (auto simp: leads_def)
  then show ?thesis
    using terminated_run [OF ingest_run_steps [OF g'(1) assms(2)]] by (auto simp: over_def)
qed

theorem ingest_terminates_witness:
  "\<exists>options engine g'. main_setup (option_args demo_options) demo_files = Some (MainRun options demo_catalog engine) \<and>
     (ingest_step demo_sdk options)\<^sup>*\<^sup>* (ingest_start engine) g' \<and> (\<exists>code. ig_main g' = Main_Exit code)"
proof -
  obtain options engine where m: "main_setup (option_args demo_options) demo_files = Some (MainRun options demo_catalog engine)"
    using demo_setup by blast
  from ingest_terminates [OF m ingest_run.begun, of demo_sdk] m show ?thesis by (auto simp: demo_sdk_answers)
qed

end
