(* ===== verification/Spec2Isabelle.thy ===== *)
theory Spec2Isabelle
  imports Gap_Claims Mailbox_Interleaving Ring_Interleaving Ingest_Claims
begin

text \<open>
  A verification development of L2Flow-CH, an ingest engine for Shanghai and Shenzhen level-2
  market data.  An SDK calls the engine with binary messages; the engine admits each into the lane its
  route selects, a decoder thread per lane turns it into a canonical tick or snapshot, puts the ticks
  of every channel back into the order of their native sequence, and hands them to instrument
  owners through bounded queues.  The process around it connects to the SDK, drains the queues and
  reports by its exit code whether everything was delivered.  The sources named below are those under \<open>src/\<close> of the repository.

  \<^bold>\<open>Parts and theories, from the bottom up.\<close>

  \<^item> \<open>Prelude\<close>, \<open>Bytes\<close>, \<open>Text_Input\<close>: integer types and results, little-endian loads, and the text
    routines of the standard library.
  \<^item> \<open>Message\<close>, \<open>Canonical\<close>, \<open>Decoder_Types\<close>: \<open>message.h\<close>, \<open>canonical.h\<close>, \<open>decoder_internal.h\<close>; message
    keys, stream masks, the header parser, the records and flags.
  \<^item> \<open>Stream_Config\<close> and \<open>Catalog\<close> (with \<open>Probing\<close>, the theory of linear probing): \<open>stream_config.cpp\<close> and
    \<open>catalog.cpp\<close>; the two configuration files, the identity table and its lookup.
  \<^item> \<open>Decoder_Fields\<close>, \<open>Decoder_Ticks\<close>, \<open>Decoder_Snapshots\<close>: \<open>decoder.cpp\<close> routine by routine; facts in
    \<open>Decoder_Facts\<close>, \<open>Decoder_Tick_Facts\<close>, \<open>Decoder_Snapshot_Facts\<close>, the wire format of an order in
    \<open>Decoder_Wire\<close>, properties in \<open>Decoder_Claims\<close> and \<open>Decoder_Snapshot_Claims\<close>.
  \<^item> \<open>Spsc_Ring\<close>, \<open>Queue_Interface\<close>, \<open>Lane_Storage\<close>, \<open>Gap_Mailbox\<close>, \<open>Dispatcher\<close>,
    \<open>Diagnostic_Queues\<close>, \<open>Gap_Polling\<close>: the containers of \<open>engine.cpp\<close>.  The ring and the mailbox are
    modelled a second time one memory access at a time, in \<open>Ring_Interleaving\<close> and \<open>Mailbox_Interleaving\<close>.
  \<^item> \<open>Recovery\<close>: the class \<open>SequenceRecovery\<close>; \<open>Recovery_Channel\<close>, \<open>Recovery_Steps\<close>, \<open>Recovery_Process\<close>,
    \<open>Recovery_Table\<close>, \<open>Recovery_Stream\<close> verify it against the interface \<open>recovery_sink\<close> of its
    callbacks, \<open>Lane_Sink\<close>, \<open>Lane_Frame\<close> and \<open>Lane_Books\<close> provide that interface by the engine's own
    callbacks, for the stream of a lane, for what a lane leaves alone, and for its dispatch counters;
    \<open>Consumer_Calls\<close> has the consumers and the log of their calls.  \<open>Recovery_Claims\<close> and \<open>Gap_Claims\<close>
    state the properties.
  \<^item> \<open>Engine_Config\<close>, \<open>Workers\<close>, \<open>Engine_State\<close>, \<open>Admission\<close>, \<open>Engine_Machine\<close>: \<open>ValidateConfig\<close>, the
    loop bodies of the decoder threads, the members and the creation of the engine, \<open>Admit\<close>, and
    \<open>Start\<close> and \<open>Stop\<close> with the whole engine as a step relation (\<open>engine_step\<close>, \<open>engine_run\<close>).
    \<open>Engine_Invariant\<close>, \<open>Engine_Steps\<close>, \<open>Engine_Runs\<close> prove its invariant, \<open>Engine_Progress\<close> and
    \<open>Engine_Delivery\<close> the progress of \<open>Stop\<close> and the delivery of snapshots, \<open>Engine_Books\<close> that the
    statistics are the records received and queued; \<open>Worker_Claims\<close> and \<open>Engine_Claims\<close> state the
    properties, \<open>Engine_Demo\<close> is the engine of the witnesses.
  \<^item> \<open>Sdk_Runtime\<close>: \<open>sdk_runtime.cpp\<close>, the message handler and the session.
  \<^item> \<open>Ingest_Options\<close>, \<open>Drain\<close>, \<open>Ingest_Run\<close>: \<open>apps/mdl_ingestd.cpp\<close>, the command line and the set-up of
    the process, its drain threads, and \<open>main\<close> from \<open>Start\<close> to the exit code with everything that runs
    beside it (\<open>ingest_step\<close>, \<open>ingest_run\<close>).  \<open>Ingest_Invariant\<close> proves what holds at each position of
    \<open>main\<close>, \<open>Ingest_Progress\<close> that each position can be left, \<open>Ingest_Claims\<close> states the properties.

  \<^bold>\<open>State and operations.\<close>  A class is a record of its members with their widths (\<open>u64\<close> wraps as the
  code's counters do; \<open>std::size_t\<close> sizes that are only compared and divided are natural numbers), an
  operation is a function from the state to its result and the new state, an output parameter is part
  of the result, an exception or an early return is \<open>None\<close>, \<open>Inl\<close> or the error value.  Callbacks of a
  class (\<open>emit_tick\<close> and the others of the recovery) are a record of functions.  The engine's parties
  (the producer's callback, the consumers, one thread per lane, and the caller of \<open>Start\<close> and \<open>Stop\<close>)
  interleave as steps: a callback is two steps, \<open>Start\<close> two, \<open>Stop\<close> three, a poll one, and one turn of a
  decoder loop one, within which the consumers' polls are an arbitrary schedule.  A fatal is one atomic
  step.  The world keeps what the consumers have received and the log of their calls.  In the process
  the consumers are the drain threads: a call is possible only when the loop of its thread is at it, and
  the call and the \<open>fetch_add\<close> that counts it are one step; \<open>main\<close> is a position (\<open>MainPosition\<close>) that
  moves on as its statements do.

  \<^bold>\<open>What the lemmas show.\<close>  On the channels: ticks reach every owner in strictly increasing native
  sequence under any interleaving, none is lost or duplicated while the engine is healthy, gaps are
  counted exactly, and the final flush leaves nothing behind.  On the decoder: exact decimals, times and
  identities, disjoint regions inside the body, exact errors, agreement of routes and decodes, and a
  round trip of an order.  On the engine: admission is exact, the dispatch totals are the records received and queued, a fatal and a stop are
  final, no lane is stranded, and \<open>Stop\<close> can always finish.  On the containers: the ring and the
  mailbox are free of races and keep their contract under every interleaving of single accesses.
  On the edges: what an SDK callback does, that a failed connection leaves nothing behind, and that the
  process runs only with consistent options.  On the process: it can always come to its end, and exit
  code 0 means that every thread has returned, the engine was healthy, and every record the engine
  dispatched and every gap mailbox has been read.  \<open>gap_poll_hides\<close> shows that one empty poll does not
  mean that every gap was delivered; the last loop of \<open>main\<close> ends at its first empty poll, and
  \<open>ingest_exit_clean\<close> shows that it misses none, because no word has pending bits when it starts.

  \<^bold>\<open>Bounds and fuel.\<close>  Loops are structural or proved to terminate, or return an option that a theorem
  shows is never \<open>None\<close>: the probe loops of the catalog and of the channel table (their tables
  always have a free cell), the draining and flushing loops of the recovery (each takes a retained
  slot).  \<open>PublishBounded\<close> spins at most 2048 times and the snapshot of a mailbox tries at most 8
  times, as in the code.  Mailbox tokens hold 62 bits of generation, so the mailbox properties speak of
  fewer than \<open>2 ^ 62\<close> publications.  The dispatch and consumption counters wrap at \<open>2 ^ 64\<close>; that
  equal counters mean empty queues is stated for fewer records of the kind than that.  \<open>config_sizes\<close> says that the configured reorder window is a
  \<open>std::size_t\<close>.

  \<^bold>\<open>Not modelled.\<close>  Allocation failures and the catch blocks that only report them; waiting while
  idle and the pinning of memory order beyond what the two interleaving theories say; the layouts of
  the vendor SDK, which enter as the offsets the decoder uses, and the SDK itself, which is what its
  calls return or throw; of \<open>mdl_ingestd\<close> the statistics line, what is printed, the sleep between two
  prints, and a failure to create a drain thread.  In \<open>ingest_step\<close> a callback may bring any bytes and the
  handler may fail at any time, which allows more runs than \<open>OnMessage\<close> does (the ways to the end that
  \<open>Ingest_Progress\<close> builds use no such failure); progress is stated as the existence of steps, since
  nothing is assumed of the scheduler.  The tests and the benchmark are not
  part of the program.
\<close>

end
